(* ===== verification/Prelude.thy ===== *)
theory Prelude
  imports Main "HOL-Library.Word"
begin

text \<open>
  Shared ground of the development: machine integers, times and durations, Go maps with an
  explicit iteration order, byte strings, and the generic lemmas about them that the
  component theories use.

  \<^item> A Go \<open>uintN\<close> or \<open>intN\<close> is an N-bit word; \<open>sint\<close> reads a signed one. A Go \<open>int\<close> is
    a HOL integer, with \<open>wrap64\<close> written where the code adds or subtracts without a bound.
  \<^item> A \<open>time.Time\<close> is an integer number of nanoseconds and a \<open>time.Duration\<close> an integer
    number of nanoseconds that fits 64 bits; \<open>t.Sub u\<close> saturates, as the library does.
  \<^item> A Go map is a HOL map. \<open>for k := range m\<close> visits the keys in an order the language
    leaves open, so an operation that ranges over a map takes the order as an argument and
    its lemmas hold for every list that \<open>is_order\<close> admits.
\<close>

type_synonym u8 = "8 word"
type_synonym u16 = "16 word"
type_synonym u32 = "32 word"
type_synonym u64 = "64 word"
type_synonym i16 = "16 word"
type_synonym i32 = "32 word"
type_synonym gotime = int
type_synonym duration = int

named_theorems go_defs \<open>definitions of the small Go helpers, unfolded on concrete inputs\<close>
named_theorems inv_intros \<open>one rule per operation: the operation keeps its invariant\<close>
named_theorems frame_simps \<open>what an operation leaves unchanged\<close>

section \<open>Integers and time\<close>

definition wrap64 :: "int \<Rightarrow> int" where
  "wrap64 x = (x + 2 ^ 63) mod 2 ^ 64 - 2 ^ 63"

definition in_int64 :: "int \<Rightarrow> bool" where
  "in_int64 x \<longleftrightarrow> - (2 ^ 63) \<le> x \<and> x < 2 ^ 63"

definition sat64 :: "int \<Rightarrow> int" where
  "sat64 x = max (- (2 ^ 63)) (min (2 ^ 63 - 1) x)"

definition time_sub :: "gotime \<Rightarrow> gotime \<Rightarrow> duration" where
  "time_sub t u = sat64 (t - u)"

definition second :: duration where
  "second = 1000000000"

definition millisecond :: duration where
  "millisecond = 1000000"

section \<open>Maps and their iteration order\<close>

definition is_order :: "('k \<Rightarrow> 'v option) \<Rightarrow> 'k list \<Rightarrow> bool" where
  "is_order m ks \<longleftrightarrow> distinct ks \<and> set ks = dom m"

definition map_drop :: "('k \<Rightarrow> 'v option) \<Rightarrow> ('k \<Rightarrow> bool) \<Rightarrow> ('k \<Rightarrow> 'v option)" where
  "map_drop m P = (\<lambda>k. if P k then None else m k)"

fun delete_where :: "('k \<Rightarrow> 'v \<Rightarrow> bool) \<Rightarrow> 'k list \<Rightarrow> ('k \<Rightarrow> 'v option) \<Rightarrow> ('k \<Rightarrow> 'v option)" where
  "delete_where P [] m = m"
| "delete_where P (k # ks) m =
     (case m k of
        None \<Rightarrow> delete_where P ks m
      | Some v \<Rightarrow> delete_where P ks (if P k v then m(k := None) else m))"

section \<open>Byte strings\<close>

fun nat_digits :: "nat \<Rightarrow> nat list" where
  "nat_digits n = (if n < 10 then [n] else nat_digits (n div 10) @ [n mod 10])"

declare nat_digits.simps [simp del]

definition digit_char :: "nat \<Rightarrow> char" where
  "digit_char d = char_of (48 + d)"

definition itoa :: "int \<Rightarrow> string" where
  "itoa n = (if n < 0 then CHR ''-'' # map digit_char (nat_digits (nat (- n)))
             else map digit_char (nat_digits (nat n)))"

definition hex_char :: "nat \<Rightarrow> char" where
  "hex_char d = (if d < 10 then char_of (48 + d) else char_of (87 + d))"

definition lower_char :: "char \<Rightarrow> char" where
  "lower_char c = (let n = of_char c :: nat in if 65 \<le> n \<and> n \<le> 90 then char_of (n + 32) else c)"

fun null_term_string :: "string \<Rightarrow> string" where
  "null_term_string [] = []"
| "null_term_string (c # cs) = (if of_char c = (0::nat) then [] else c # null_term_string cs)"

section \<open>Lemmas\<close>

lemma wrap64_id: "in_int64 x \<Longrightarrow> wrap64 x = x"
  by (simp add: wrap64_def in_int64_def)

lemma wrap64_range: "in_int64 (wrap64 x)"
  by (simp add: wrap64_def in_int64_def)

lemma sat64_range: "in_int64 (sat64 x)"
  by (auto simp: sat64_def in_int64_def)

lemma sat64_id: "in_int64 x \<Longrightarrow> sat64 x = x"
  by (auto simp: sat64_def in_int64_def)

lemma sat64_ge_iff: "- (2 ^ 63) < d \<Longrightarrow> d < 2 ^ 63 \<Longrightarrow> d \<le> sat64 x \<longleftrightarrow> d \<le> x"
  by (auto simp: sat64_def)

lemma time_sub_ge_iff:
  "- (2 ^ 63) < d \<Longrightarrow> d < 2 ^ 63 \<Longrightarrow> d \<le> time_sub t u \<longleftrightarrow> u + d \<le> t"
  unfolding time_sub_def by (subst sat64_ge_iff) auto

lemma map_drop_apply [simp]: "map_drop m P k = (if P k then None else m k)"
  by (simp add: map_drop_def)

lemma is_order_distinct: "is_order m ks \<Longrightarrow> distinct ks"
  and is_order_set: "is_order m ks \<Longrightarrow> set ks = dom m"
  by (simp_all add: is_order_def)

lemma is_order_mem: "is_order m ks \<Longrightarrow> k \<in> set ks \<longleftrightarrow> m k \<noteq> None"
  by (auto simp: is_order_def)

lemma delete_where_apply:
  "distinct ks \<Longrightarrow> delete_where P ks m k =
     (case m k of None \<Rightarrow> None | Some v \<Rightarrow> if k \<in> set ks \<and> P k v then None else Some v)"
  by (induction ks arbitrary: m) (auto split: option.splits)

lemma delete_where_order:
  assumes "is_order m ks"
  shows "delete_where P ks m k =
     (case m k of None \<Rightarrow> None | Some v \<Rightarrow> if P k v then None else Some v)"
  using assms by (auto simp: delete_where_apply is_order_def split: option.splits)

lemma delete_where_order_indep:
  "is_order m ks \<Longrightarrow> is_order m ks' \<Longrightarrow> delete_where P ks m = delete_where P ks' m"
  by (rule ext) (simp add: delete_where_order)

lemma null_term_string_append_nul:
  "CHR 0x00 \<notin> set s \<Longrightarrow> null_term_string (s @ CHR 0x00 # r) = s"
  by (induction s) (auto simp: of_char_eq_iff [of _ "CHR 0x00", simplified])

lemma length_null_term_string: "length (null_term_string s) \<le> length s"
  by (induction s) auto

lemma null_term_string_no_nul: "CHR 0x00 \<notin> set (null_term_string s)"
  by (induction s) auto

lemma nat_digits_bound: "\<forall>d\<in>set (nat_digits n). d < 10"
  by (induction n rule: nat_digits.induct) (subst nat_digits.simps, auto)

lemma nat_digits_inj: "nat_digits m = nat_digits n \<Longrightarrow> m = n"
proof (induction m arbitrary: n rule: nat_digits.induct)
  case (1 m)
  have ne: "nat_digits k \<noteq> []" for k by (subst nat_digits.simps) simp
  show ?case
  proof (cases "m < 10")
    case True
    with "1.prems" ne [of "n div 10"] show ?thesis
      by (subst (asm) nat_digits.simps, subst (asm) (2) nat_digits.simps) (auto split: if_splits)
  next
    case False
    then have m: "nat_digits m = nat_digits (m div 10) @ [m mod 10]" by (subst nat_digits.simps) simp
    show ?thesis
    proof (cases "n < 10")
      case True
      then have "nat_digits n = [n]" by (subst nat_digits.simps) simp
      with m "1.prems" ne [of "m div 10"] show ?thesis by simp
    next
      case n: False
      then have "nat_digits n = nat_digits (n div 10) @ [n mod 10]" by (subst nat_digits.simps) simp
      with m "1.prems" have "nat_digits (m div 10) = nat_digits (n div 10)" "m mod 10 = n mod 10" by simp_all
      with "1.IH" [OF False] show ?thesis by (metis div_mult_mod_eq)
    qed
  qed
qed

lemma digit_char_inj: "a < 10 \<Longrightarrow> b < 10 \<Longrightarrow> digit_char a = digit_char b \<Longrightarrow> a = b"
  by (simp add: digit_char_def char_of_eq_iff take_bit_eq_mod)

lemma map_inj_on_eq: "map f xs = map f ys \<Longrightarrow> inj_on f (set xs \<union> set ys) \<Longrightarrow> xs = ys"
  by (metis inj_on_map_eq_map)

lemma itoa_nat_inj: "0 \<le> m \<Longrightarrow> 0 \<le> n \<Longrightarrow> itoa m = itoa n \<Longrightarrow> m = n"
proof -
  assume a: "0 \<le> m" "0 \<le> n" "itoa m = itoa n"
  then have "map digit_char (nat_digits (nat m)) = map digit_char (nat_digits (nat n))"
    by (simp add: itoa_def)
  moreover have "inj_on digit_char (set (nat_digits (nat m)) \<union> set (nat_digits (nat n)))"
    unfolding inj_on_def using nat_digits_bound by (metis Un_iff digit_char_inj)
  ultimately have "nat_digits (nat m) = nat_digits (nat n)" by (rule map_inj_on_eq)
  then show "m = n" using a by (auto dest: nat_digits_inj)
qed

lemma digit_char_code: "d < 10 \<Longrightarrow> of_char (digit_char d) = (48 + d :: nat)"
  by (simp add: digit_char_def take_bit_eq_mod)

lemma itoa_nat_chars: "0 \<le> n \<Longrightarrow> c \<in> set (itoa n) \<Longrightarrow> 48 \<le> (of_char c :: nat) \<and> (of_char c :: nat) \<le> 57"
  using nat_digits_bound [of "nat n"] by (auto simp: itoa_def digit_char_code)

end
