(* ===== verification/NetAddr.thy ===== *)
theory NetAddr
  imports Prelude
begin

text \<open>
  UDP endpoints as the server uses them: \<open>net.UDPAddr\<close> with its peer comparison
  (\<open>sameUDPAddr\<close> of network/ack_queue.go over \<open>net.IP.Equal\<close>) and the text of an address,
  which is the key of the session index. A nil \<open>*net.UDPAddr\<close> is \<open>None\<close>. The text
  follows the library: dotted quad for IPv4 and for IPv4 inside IPv6, the compressed
  hexadecimal form otherwise, brackets around a host that holds a colon.
\<close>

record udp_addr =
  ip :: "u8 list"
  port :: int
  zone :: string

definition v4_in_v6_prefix :: "u8 list" where
  "v4_in_v6_prefix = [0, 0, 0, 0, 0, 0, 0, 0, 0, 0, 255, 255]"

definition ip_equal :: "u8 list \<Rightarrow> u8 list \<Rightarrow> bool" where
  "ip_equal a b =
     (if length a = length b then a = b
      else if length a = 4 \<and> length b = 16 then take 12 b = v4_in_v6_prefix \<and> a = drop 12 b
      else if length a = 16 \<and> length b = 4 then take 12 a = v4_in_v6_prefix \<and> drop 12 a = b
      else False)"

fun same_udp_addr :: "udp_addr option \<Rightarrow> udp_addr option \<Rightarrow> bool" where
  "same_udp_addr (Some a) (Some b) \<longleftrightarrow> port a = port b \<and> zone a = zone b \<and> ip_equal (ip a) (ip b)"
| "same_udp_addr a b \<longleftrightarrow> a = None \<and> b = None"

definition hex_byte :: "u8 \<Rightarrow> string" where
  "hex_byte b = [hex_char (unat b div 16), hex_char (unat b mod 16)]"

fun hex_digits :: "nat \<Rightarrow> string" where
  "hex_digits n = (if n < 16 then [hex_char n] else hex_digits (n div 16) @ [hex_char (n mod 16)])"

declare hex_digits.simps [simp del]

definition dotted_quad :: "u8 list \<Rightarrow> string" where
  "dotted_quad bs = concat (case map (\<lambda>b. itoa (uint b)) bs of
     [] \<Rightarrow> [] | s # ss \<Rightarrow> s # map (\<lambda>x. CHR ''.'' # x) ss)"

fun v6_groups :: "u8 list \<Rightarrow> nat list" where
  "v6_groups (a # b # r) = (unat a * 256 + unat b) # v6_groups r"
| "v6_groups _ = []"

fun zero_run :: "nat list \<Rightarrow> nat" where
  "zero_run (g # gs) = (if g = 0 then Suc (zero_run gs) else 0)"
| "zero_run [] = 0"

text \<open>The first longest run of two or more zero groups, as (start, length).\<close>

fun longest_zeros :: "nat \<Rightarrow> nat list \<Rightarrow> nat \<times> nat \<Rightarrow> nat \<times> nat" where
  "longest_zeros i [] best = best"
| "longest_zeros i (g # gs) best =
     (let l = zero_run (g # gs)
      in longest_zeros (Suc i) gs (if 2 \<le> l \<and> snd best < l then (i, l) else best))"

definition join_colon :: "string list \<Rightarrow> string" where
  "join_colon ss = concat (case ss of [] \<Rightarrow> [] | x # xs \<Rightarrow> x # map (\<lambda>y. CHR '':'' # y) xs)"

definition v6_string :: "u8 list \<Rightarrow> string" where
  "v6_string bs = (let gs = v6_groups bs; (st, l) = longest_zeros 0 gs (0, 0); hs = map hex_digits gs
     in if l = 0 then join_colon hs
        else join_colon (take st hs) @ ''::'' @ join_colon (drop (st + l) hs))"

definition ip_string :: "u8 list \<Rightarrow> string" where
  "ip_string bs =
     (if bs = [] then ''''
      else if length bs \<noteq> 4 \<and> length bs \<noteq> 16 then CHR ''?'' # concat (map hex_byte bs)
      else if length bs = 4 then dotted_quad bs
      else if take 12 bs = v4_in_v6_prefix then dotted_quad (drop 12 bs)
      else v6_string bs)"

text \<open>\<open>(*net.UDPAddr).String\<close>.\<close>

definition addr_string :: "udp_addr \<Rightarrow> string" where
  "addr_string a =
     (let host = (if zone a = '''' then ip_string (ip a) else ip_string (ip a) @ ''%'' @ zone a)
      in (if CHR '':'' \<in> set host then ''['' @ host @ '']'' else host) @ '':'' @ itoa (port a))"

section \<open>Peers\<close>

lemma ip_equal_refl [simp]: "ip_equal a a"
  by (simp add: ip_equal_def)

lemma ip_equal_sym: "ip_equal a b \<longleftrightarrow> ip_equal b a"
  by (auto simp: ip_equal_def)

lemma same_udp_addr_refl [simp]: "same_udp_addr a a"
  by (cases a) auto

lemma same_udp_addr_sym: "same_udp_addr a b \<longleftrightarrow> same_udp_addr b a"
  by (cases a; cases b) (auto simp: ip_equal_sym)

lemma same_udp_addr_None [simp]: "same_udp_addr None b \<longleftrightarrow> b = None"
  by (cases b) auto

text \<open>An IPv4 address and the same address inside IPv6 are one peer, with one text.\<close>

lemma ip_string_4: "length a = 4 \<Longrightarrow> ip_string a = dotted_quad a"
  by (auto simp: ip_string_def)

lemma ip_string_v4_in_v6:
  "length a = 16 \<Longrightarrow> take 12 a = v4_in_v6_prefix \<Longrightarrow> ip_string a = dotted_quad (drop 12 a)"
  by (auto simp: ip_string_def)

lemma ip_equal_string: "ip_equal a b \<Longrightarrow> ip_string a = ip_string b"
  by (simp add: ip_equal_def ip_string_4 ip_string_v4_in_v6 split: if_split_asm)

lemma same_udp_addr_string:
  "same_udp_addr (Some a) (Some b) \<Longrightarrow> addr_string a = addr_string b"
  using ip_equal_string [of "ip a" "ip b"] by (simp add: addr_string_def Let_def)

end
