(* ===== verification/AckQueue.thy ===== *)
theory AckQueue
  imports NetAddr
begin

text \<open>
  network/ack_queue.go: the reliable packets awaiting an acknowledgement, their periodic
  retransmission and their drop after too many retries. Each operation is one critical
  section of the queue's mutex. \<open>Tick\<close> ranges over the map, so it takes the visiting order;
  the callbacks it makes after the lock is released (\<open>onDrop\<close>, \<open>sendFunc\<close>) are returned
  as lists in the order of the calls. The \<open>pending\<close> field is an alias of the same map and
  is not modelled separately.
\<close>

record ack_entry =
  e_seq :: u32
  e_addr :: "udp_addr option"
  e_data :: "u8 list"
  e_enqueued_at :: gotime
  e_last_sent_at :: gotime
  e_retries :: int
  e_max_retries :: int

record ack_queue =
  entries :: "u32 \<Rightarrow> ack_entry option"
  retransmit_interval :: duration
  max_retries :: int
  has_send_func :: bool
  has_on_drop :: bool

datatype ack_arg = ArgDuration duration | ArgInt int | ArgSendFunc | ArgOther

definition new_ack_queue :: "ack_arg list \<Rightarrow> ack_queue" where
  "new_ack_queue args =
     \<lparr> entries = Map.empty,
       retransmit_interval =
         (if length args \<ge> 1
          then (case args ! 0 of ArgDuration d \<Rightarrow> if d > 0 then d else 500 * millisecond | _ \<Rightarrow> 500 * millisecond)
          else 500 * millisecond),
       max_retries =
         (if length args \<ge> 2 then (case args ! 1 of ArgInt r \<Rightarrow> if r > 0 then r else 5 | _ \<Rightarrow> 5) else 5),
       has_send_func = (length args \<ge> 3 \<and> args ! 2 = ArgSendFunc),
       has_on_drop = False \<rparr>"

definition set_on_drop :: "bool \<Rightarrow> ack_queue \<Rightarrow> ack_queue" where
  "set_on_drop cb aq = aq\<lparr>has_on_drop := cb\<rparr>"

definition set_send_func :: "bool \<Rightarrow> ack_queue \<Rightarrow> ack_queue" where
  "set_send_func f aq = aq\<lparr>has_send_func := f\<rparr>"

definition enqueue :: "gotime \<Rightarrow> u32 \<Rightarrow> udp_addr option \<Rightarrow> u8 list \<Rightarrow> ack_queue \<Rightarrow> ack_queue" where
  "enqueue now seq addr data aq =
     aq\<lparr>entries := (entries aq)(seq \<mapsto>
          \<lparr>e_seq = seq, e_addr = addr, e_data = data, e_enqueued_at = now, e_last_sent_at = now,
           e_retries = 0, e_max_retries = max_retries aq\<rparr>)\<rparr>"

definition acknowledge :: "u32 \<Rightarrow> ack_queue \<Rightarrow> ack_queue \<times> bool" where
  "acknowledge seq aq =
     (case entries aq seq of
        Some _ \<Rightarrow> (aq\<lparr>entries := (entries aq)(seq := None)\<rparr>, True)
      | None \<Rightarrow> (aq, False))"

definition acknowledge_from :: "u32 \<Rightarrow> udp_addr option \<Rightarrow> ack_queue \<Rightarrow> ack_queue \<times> bool" where
  "acknowledge_from seq addr aq =
     (if addr = None then (aq, False)
      else case entries aq seq of
        None \<Rightarrow> (aq, False)
      | Some e \<Rightarrow> if \<not> same_udp_addr (e_addr e) addr then (aq, False)
                  else (aq\<lparr>entries := (entries aq)(seq := None)\<rparr>, True))"

record tick_acc =
  t_entries :: "u32 \<Rightarrow> ack_entry option"
  t_dropped :: "u32 list"
  t_to_drop :: "(u32 \<times> udp_addr option) list"
  t_to_send :: "(udp_addr option \<times> u8 list) list"

fun tick_loop :: "gotime \<Rightarrow> ack_queue \<Rightarrow> u32 list \<Rightarrow> tick_acc \<Rightarrow> tick_acc" where
  "tick_loop now aq [] acc = acc"
| "tick_loop now aq (seq # rest) acc =
     (case t_entries acc seq of
        None \<Rightarrow> tick_loop now aq rest acc
      | Some e \<Rightarrow>
          if time_sub now (e_last_sent_at e) \<ge> retransmit_interval aq then
            if e_retries e \<ge> e_max_retries e then
              tick_loop now aq rest
                (acc\<lparr>t_entries := (t_entries acc)(seq := None),
                     t_dropped := t_dropped acc @ [seq],
                     t_to_drop := t_to_drop acc @ (if has_on_drop aq then [(seq, e_addr e)] else [])\<rparr>)
            else
              tick_loop now aq rest
                (acc\<lparr>t_entries := (t_entries acc)(seq \<mapsto>
                       e\<lparr>e_retries := e_retries e + 1, e_last_sent_at := now\<rparr>),
                     t_to_send := t_to_send acc @ (if has_send_func aq then [(e_addr e, e_data e)] else [])\<rparr>)
          else tick_loop now aq rest acc)"

definition ack_tick :: "gotime \<Rightarrow> u32 list \<Rightarrow> ack_queue \<Rightarrow>
    ack_queue \<times> u32 list \<times> (u32 \<times> udp_addr option) list \<times> (udp_addr option \<times> u8 list) list" where
  "ack_tick now order aq =
     (let r = tick_loop now aq order \<lparr>t_entries = entries aq, t_dropped = [], t_to_drop = [], t_to_send = []\<rparr>
      in (aq\<lparr>entries := t_entries r\<rparr>, t_dropped r, t_to_drop r, t_to_send r))"

definition remove_by_addr :: "string \<Rightarrow> u32 list \<Rightarrow> ack_queue \<Rightarrow> ack_queue" where
  "remove_by_addr addr order aq =
     aq\<lparr>entries := delete_where
          (\<lambda>seq e. case e_addr e of None \<Rightarrow> False | Some a \<Rightarrow> addr_string a = addr) order (entries aq)\<rparr>"

definition ack_len :: "ack_queue \<Rightarrow> nat" where
  "ack_len aq = card (dom (entries aq))"

definition clear :: "ack_queue \<Rightarrow> ack_queue" where
  "clear aq = aq\<lparr>entries := Map.empty\<rparr>"

definition get_entry :: "u32 \<Rightarrow> ack_queue \<Rightarrow> ack_entry option" where
  "get_entry seq aq = entries aq seq"

text \<open>What one tick does to one entry, and the queue as a machine over its operations.\<close>

definition due :: "gotime \<Rightarrow> ack_queue \<Rightarrow> ack_entry \<Rightarrow> bool" where
  "due now aq e \<longleftrightarrow> time_sub now (e_last_sent_at e) \<ge> retransmit_interval aq"

definition exhausted :: "ack_entry \<Rightarrow> bool" where
  "exhausted e \<longleftrightarrow> e_retries e \<ge> e_max_retries e"

definition resend :: "gotime \<Rightarrow> ack_entry \<Rightarrow> ack_entry" where
  "resend now e = e\<lparr>e_retries := e_retries e + 1, e_last_sent_at := now\<rparr>"

definition entry_after :: "gotime \<Rightarrow> ack_queue \<Rightarrow> ack_entry \<Rightarrow> ack_entry option" where
  "entry_after now aq e =
     (if due now aq e then if exhausted e then None else Some (resend now e) else Some e)"

inductive ack_step :: "ack_queue \<Rightarrow> ack_queue \<Rightarrow> bool" where
  enq: "ack_step aq (enqueue now seq addr data aq)"
| ack: "ack_step aq (fst (acknowledge seq aq))"
| ack_from: "ack_step aq (fst (acknowledge_from seq addr aq))"
| tick: "is_order (entries aq) ord \<Longrightarrow> ack_step aq (fst (ack_tick now ord aq))"
| remove: "is_order (entries aq) ord \<Longrightarrow> ack_step aq (remove_by_addr addr ord aq)"
| clear: "ack_step aq (clear aq)"
| send_func: "ack_step aq (set_send_func f aq)"
| on_drop: "ack_step aq (set_on_drop cb aq)"

inductive ack_reach :: "ack_queue \<Rightarrow> bool" where
  new: "ack_reach (new_ack_queue args)"
| step: "ack_reach aq \<Longrightarrow> ack_step aq aq' \<Longrightarrow> ack_reach aq'"

definition entry_ok :: "int \<Rightarrow> u32 \<Rightarrow> ack_entry \<Rightarrow> bool" where
  "entry_ok m k e \<longleftrightarrow> e_seq e = k \<and> 0 \<le> e_retries e \<and> e_retries e \<le> m \<and> e_max_retries e = m"

definition ack_inv :: "ack_queue \<Rightarrow> bool" where
  "ack_inv aq \<longleftrightarrow> 0 < max_retries aq \<and> 0 < retransmit_interval aq \<and>
     (\<forall>k e. entries aq k = Some e \<longrightarrow> entry_ok (max_retries aq) k e)"

text \<open>\<open>n\<close> ticks in a row, each of which finds the entry at \<open>k\<close> due.\<close>

inductive due_ticks :: "u32 \<Rightarrow> nat \<Rightarrow> ack_queue \<Rightarrow> ack_queue \<Rightarrow> bool" for k where
  none: "due_ticks k 0 aq aq"
| more: "due_ticks k n aq aq1 \<Longrightarrow> entries aq1 k = Some e \<Longrightarrow> due now aq1 e \<Longrightarrow>
     is_order (entries aq1) ord \<Longrightarrow> due_ticks k (Suc n) aq (fst (ack_tick now ord aq1))"

section \<open>Lemmas\<close>

lemmas tick_defs = due_def exhausted_def resend_def entry_after_def

lemma tick_loop_entries:
  assumes "distinct ks"
  shows "t_entries (tick_loop now aq ks acc) k =
     (if k \<in> set ks then Option.bind (t_entries acc k) (entry_after now aq) else t_entries acc k)"
  using assms
  by (induction ks arbitrary: acc) (auto simp: tick_defs split: option.splits)

lemma tick_loop_dropped:
  assumes "distinct ks"
  shows "t_dropped (tick_loop now aq ks acc) = t_dropped acc @
     filter (\<lambda>k. case t_entries acc k of None \<Rightarrow> False | Some e \<Rightarrow> due now aq e \<and> exhausted e) ks"
  using assms
  by (induction ks arbitrary: acc)
     (auto simp: tick_defs split: option.splits intro!: filter_cong)

lemma tick_loop_send:
  assumes "distinct ks"
  shows "t_to_send (tick_loop now aq ks acc) = t_to_send acc @
     (if has_send_func aq then
        map (\<lambda>k. (e_addr (the (t_entries acc k)), e_data (the (t_entries acc k))))
          (filter (\<lambda>k. case t_entries acc k of None \<Rightarrow> False | Some e \<Rightarrow> due now aq e \<and> \<not> exhausted e) ks)
      else [])"
  using assms
  by (induction ks arbitrary: acc)
     (auto simp: tick_defs split: option.splits intro!: map_cong filter_cong)

lemma ack_tick_entries:
  assumes "is_order (entries aq) ord"
  shows "entries (fst (ack_tick now ord aq)) k = Option.bind (entries aq k) (entry_after now aq)"
  using assms by (auto simp: ack_tick_def Let_def tick_loop_entries is_order_def)

lemma ack_tick_frame [frame_simps]:
  "max_retries (fst (ack_tick now ord aq)) = max_retries aq"
  "retransmit_interval (fst (ack_tick now ord aq)) = retransmit_interval aq"
  by (simp_all add: ack_tick_def Let_def)

lemma acknowledge_entries:
  "entries (fst (acknowledge seq aq)) = (entries aq)(seq := None)"
  by (auto simp: acknowledge_def split: option.splits)

lemma acknowledge_from_entries:
  "entries (fst (acknowledge_from seq addr aq)) k = (case entries aq k of None \<Rightarrow> None
     | Some e \<Rightarrow> if k = seq \<and> addr \<noteq> None \<and> same_udp_addr (e_addr e) addr then None else Some e)"
  by (auto simp: acknowledge_from_def split: option.splits)

lemma ack_frames [frame_simps]:
  "max_retries (enqueue now seq addr data aq) = max_retries aq"
  "retransmit_interval (enqueue now seq addr data aq) = retransmit_interval aq"
  "max_retries (fst (acknowledge seq aq)) = max_retries aq"
  "retransmit_interval (fst (acknowledge seq aq)) = retransmit_interval aq"
  "max_retries (fst (acknowledge_from seq addr aq)) = max_retries aq"
  "retransmit_interval (fst (acknowledge_from seq addr aq)) = retransmit_interval aq"
  by (auto simp: enqueue_def acknowledge_def acknowledge_from_def split: option.splits)

lemma ack_inv_mono:
  assumes "ack_inv aq" "max_retries aq' = max_retries aq" "retransmit_interval aq' = retransmit_interval aq"
    and "\<And>k e. entries aq' k = Some e \<Longrightarrow> entries aq k = Some e"
  shows "ack_inv aq'"
  using assms by (auto simp: ack_inv_def)

lemma ack_inv_enqueue [inv_intros]: "ack_inv aq \<Longrightarrow> ack_inv (enqueue now seq addr data aq)"
  by (auto simp: ack_inv_def enqueue_def entry_ok_def)

lemma ack_inv_tick [inv_intros]:
  assumes "ack_inv aq" "is_order (entries aq) ord"
  shows "ack_inv (fst (ack_tick now ord aq))"
  using assms
  by (auto simp: ack_inv_def ack_tick_entries frame_simps tick_defs entry_ok_def bind_eq_Some_conv
      split: if_splits)

lemma ack_inv_remove [inv_intros]:
  assumes "ack_inv aq" "is_order (entries aq) ord"
  shows "ack_inv (remove_by_addr addr ord aq)"
  by (rule ack_inv_mono [OF assms(1)])
     (auto simp: remove_by_addr_def delete_where_order [OF assms(2)] split: option.splits if_splits)

lemma ack_inv_new: "ack_inv (new_ack_queue args)"
  by (auto simp: ack_inv_def new_ack_queue_def millisecond_def split: ack_arg.splits)

lemma ack_inv_clear [inv_intros]: "ack_inv aq \<Longrightarrow> ack_inv (clear aq)"
  and ack_inv_send_func [inv_intros]: "ack_inv aq \<Longrightarrow> ack_inv (set_send_func f aq)"
  and ack_inv_on_drop [inv_intros]: "ack_inv aq \<Longrightarrow> ack_inv (set_on_drop cb aq)"
  by (auto simp: ack_inv_def clear_def set_send_func_def set_on_drop_def)

lemma ack_step_inv: "ack_step aq aq' \<Longrightarrow> ack_inv aq \<Longrightarrow> ack_inv aq'"
proof (induction rule: ack_step.induct)
  case (ack aq seq)
  show ?case by (rule ack_inv_mono [OF ack]) (auto simp: frame_simps acknowledge_entries split: if_splits)
next
  case (ack_from aq seq addr)
  show ?case
    by (rule ack_inv_mono [OF ack_from])
       (auto simp: frame_simps acknowledge_from_entries split: option.splits if_splits)
qed (auto intro: inv_intros)

lemma ack_reach_inv: "ack_reach aq \<Longrightarrow> ack_inv aq"
  by (induction rule: ack_reach.induct) (auto intro: ack_inv_new ack_step_inv)

lemma due_ticks_entry:
  assumes "due_ticks k n aq aq'" "ack_inv aq" "entries aq k = Some e"
  shows "ack_inv aq' \<and> (if int n \<le> e_max_retries e - e_retries e
     then (\<exists>e'. entries aq' k = Some e' \<and> e_retries e' = e_retries e + int n \<and>
             e_max_retries e' = e_max_retries e \<and> e_data e' = e_data e \<and> e_addr e' = e_addr e)
     else entries aq' k = None)"
  using assms
proof (induction rule: due_ticks.induct)
  case (none aq)
  then show ?case by (auto simp: ack_inv_def entry_ok_def)
next
  case (more n aq aq1 e1 now ord)
  then have IH: "ack_inv aq1" "int n \<le> e_max_retries e - e_retries e"
      "e_retries e1 = e_retries e + int n" "e_max_retries e1 = e_max_retries e"
      "e_data e1 = e_data e" "e_addr e1 = e_addr e"
    by (auto split: if_splits)
  have "ack_inv (fst (ack_tick now ord aq1))"
    by (rule ack_inv_tick [OF IH(1) more.hyps(4)])
  moreover have "entries (fst (ack_tick now ord aq1)) k =
      (if exhausted e1 then None else Some (resend now e1))"
    using more.hyps by (simp add: ack_tick_entries entry_after_def)
  ultimately show ?case
    using IH by (auto simp: exhausted_def resend_def)
qed

section \<open>Properties\<close>

text \<open>The entries a tick at \<open>now\<close> finds due, in the visiting order: those with retries left and those without.\<close>

definition due_keys :: "gotime \<Rightarrow> ack_queue \<Rightarrow> bool \<Rightarrow> u32 list \<Rightarrow> u32 list" where
  "due_keys now aq ex = filter (\<lambda>k. case entries aq k of None \<Rightarrow> False | Some e \<Rightarrow> due now aq e \<and> exhausted e = ex)"

lemma tick_loop_to_drop:
  assumes "distinct ks"
  shows "t_to_drop (tick_loop now aq ks acc) = t_to_drop acc @
     (if has_on_drop aq then
        map (\<lambda>k. (k, e_addr (the (t_entries acc k))))
          (filter (\<lambda>k. case t_entries acc k of None \<Rightarrow> False | Some e \<Rightarrow> due now aq e \<and> exhausted e) ks)
      else [])"
  using assms
  by (induction ks arbitrary: acc)
     (auto simp: tick_defs split: option.splits intro!: map_cong filter_cong)

text \<open>C19: One tick, whatever order the map is visited in: an entry that is not due stays as it is,
  a due entry with retries left is counted and sent again exactly once with its own address and data, a due entry
  without retries left is removed, reported as dropped exactly once and announced to \<open>onDrop\<close> exactly once with its
  own address (if there is a callback); nothing else is sent, reported or announced.\<close>

theorem ack_tick_exact:
  assumes "is_order (entries aq) ord"
    and "ack_tick now ord aq = (aq', dropped, drops, sends)"
  shows "(\<forall>k. entries aq' k = (case entries aq k of None \<Rightarrow> None
           | Some e \<Rightarrow> if \<not> due now aq e then Some e
                      else if exhausted e then None else Some (resend now e)))
    \<and> distinct ord \<and> set ord = dom (entries aq)
    \<and> dropped = due_keys now aq True ord
    \<and> drops = (if has_on_drop aq then map (\<lambda>k. (k, e_addr (the (entries aq k)))) dropped else [])
    \<and> sends = (if has_send_func aq
           then map (\<lambda>k. (e_addr (the (entries aq k)), e_data (the (entries aq k)))) (due_keys now aq False ord) else [])"
proof (intro conjI allI)
  have t: "aq' = fst (ack_tick now ord aq)" by (simp add: assms(2))
  show "entries aq' k = (case entries aq k of None \<Rightarrow> None
           | Some e \<Rightarrow> if \<not> due now aq e then Some e
                      else if exhausted e then None else Some (resend now e))" for k
    by (auto simp: t ack_tick_entries [OF assms(1)] entry_after_def split: option.splits)
  show o: "distinct ord" "set ord = dom (entries aq)" using assms(1) by (simp_all add: is_order_def)
  note l = tick_loop_dropped [OF o(1)] tick_loop_to_drop [OF o(1)] tick_loop_send [OF o(1)]
  let ?acc = "tick_loop now aq ord \<lparr>t_entries = entries aq, t_dropped = [], t_to_drop = [], t_to_send = []\<rparr>"
  have e: "dropped = t_dropped ?acc" "drops = t_to_drop ?acc" "sends = t_to_send ?acc"
    using assms(2) by (simp_all add: ack_tick_def Let_def)
  show "dropped = due_keys now aq True ord"
    "drops = (if has_on_drop aq then map (\<lambda>k. (k, e_addr (the (entries aq k)))) dropped else [])"
    "sends = (if has_send_func aq
           then map (\<lambda>k. (e_addr (the (entries aq k)), e_data (the (entries aq k)))) (due_keys now aq False ord) else [])"
    by (simp_all add: e l due_keys_def cong: if_cong option.case_cong)
qed

definition demo_addr :: "udp_addr" where
  "demo_addr = \<lparr>ip = [10, 0, 0, 1], port = 27015, zone = ''''\<rparr>"

definition demo_queue :: "ack_queue" where
  "demo_queue = enqueue 0 7 (Some demo_addr) [1, 2] (new_ack_queue [ArgDuration 100, ArgInt 2, ArgSendFunc])"

lemma demo_queue_order: "is_order (entries demo_queue) [7]"
  by (auto simp: demo_queue_def enqueue_def new_ack_queue_def is_order_def split: if_splits)

lemma demo_queue_entry: "entries demo_queue 7 =
    Some \<lparr>e_seq = 7, e_addr = Some demo_addr, e_data = [1, 2], e_enqueued_at = 0, e_last_sent_at = 0,
          e_retries = 0, e_max_retries = 2\<rparr>"
  and demo_queue_interval: "retransmit_interval demo_queue = 100"
  and demo_queue_sends: "has_send_func demo_queue"
  by (simp_all add: demo_queue_def enqueue_def new_ack_queue_def)

theorem ack_tick_exact_witness:
  "(\<exists>e. entries (fst (ack_tick 100 [7] demo_queue)) 7 = Some e \<and> e_retries e = 1) \<and>
   snd (snd (snd (ack_tick 100 [7] demo_queue))) = [(Some demo_addr, [1, 2])]"
proof -
  obtain aq' d dr s where t: "ack_tick 100 [7] demo_queue = (aq', d, dr, s)"
    by (metis prod.exhaust)
  show ?thesis
    using ack_tick_exact [OF demo_queue_order t]
    by (simp add: t demo_queue_entry tick_defs demo_queue_interval time_sub_def sat64_def due_keys_def demo_queue_sends)
qed

text \<open>An acknowledgement counts only when it comes from the endpoint the packet was sent to:
  from any other endpoint it changes nothing, and from that endpoint it removes exactly that
  entry, so no client can silence another client's retransmissions.\<close>

theorem acknowledge_from_exact:
  "entries (fst (acknowledge_from seq addr aq)) k = (case entries aq k of None \<Rightarrow> None
     | Some e \<Rightarrow> if k = seq \<and> addr \<noteq> None \<and> same_udp_addr (e_addr e) addr then None else Some e)
   \<and> snd (acknowledge_from seq addr aq) =
       (addr \<noteq> None \<and> (\<exists>e. entries aq seq = Some e \<and> same_udp_addr (e_addr e) addr))"
  by (auto simp: acknowledge_from_def split: option.splits)

text \<open>In every state the queue can reach, an entry sits under its own sequence number and
  has been sent again at most MaxRetries times.\<close>

theorem ack_retries_bounded:
  assumes "ack_reach aq" and "entries aq k = Some e"
  shows "e_seq e = k \<and> 0 \<le> e_retries e \<and> e_retries e \<le> e_max_retries e"
  using ack_reach_inv [OF assms(1)] assms(2) by (auto simp: ack_inv_def entry_ok_def)

lemma demo_queue_reach: "ack_reach demo_queue"
  unfolding demo_queue_def by (rule ack_reach.step [OF ack_reach.new ack_step.enq])

theorem ack_retries_bounded_witness:
  "entries demo_queue 7 \<noteq> None \<and> e_retries (the (entries demo_queue 7)) \<le> 2"
  using ack_retries_bounded [OF demo_queue_reach demo_queue_entry] by (simp add: demo_queue_entry)

text \<open>A packet that is never acknowledged is not retried for ever: after \<open>n\<close> due ticks it has
  been sent \<open>n\<close> more times, with its data and destination untouched, and the due tick after the
  last retry removes it. It is gone after exactly \<open>MaxRetries - Retries + 1\<close> due ticks.\<close>

theorem ack_unacked_dropped:
  assumes "due_ticks k n aq aq'" and "ack_reach aq" and "entries aq k = Some e"
  shows "if int n \<le> e_max_retries e - e_retries e
         then \<exists>e'. entries aq' k = Some e' \<and> e_retries e' = e_retries e + int n \<and>
                e_data e' = e_data e \<and> e_addr e' = e_addr e
         else entries aq' k = None"
  using due_ticks_entry [OF assms(1) ack_reach_inv [OF assms(2)] assms(3)] by (auto split: if_splits)

theorem ack_unacked_dropped_witness:
  "\<exists>aq'. due_ticks 7 1 demo_queue aq' \<and> (\<exists>e'. entries aq' 7 = Some e' \<and> e_retries e' = 1)"
proof -
  have d: "due_ticks 7 (Suc 0) demo_queue (fst (ack_tick 100 [7] demo_queue))"
    by (rule due_ticks.more [OF due_ticks.none demo_queue_entry _ demo_queue_order])
       (simp add: due_def demo_queue_interval time_sub_def sat64_def)
  show ?thesis
    using ack_unacked_dropped [OF d demo_queue_reach demo_queue_entry] d by auto
qed

end
