(* ===== verification/GoFloat.thy ===== *)
theory GoFloat
  imports Prelude Complex_Main
begin

text \<open>
  Go's \<open>float32\<close> and \<open>float64\<close>, bit-exact up to the sign of zero (which nothing in the
  modelled code observes). A value is NaN, an infinity with its sign, or an exact rational.
  Arithmetic computes the exact rational result and rounds it to the nearest value of the
  format, ties to even: \<open>rnd p emin\<close> keeps \<open>p\<close> significant bits and no bit below
  \<open>2^emin\<close>, and a magnitude past the largest finite value becomes an infinity. The square
  root is computed by integer square root and rounded the same way, so every operation
  evaluates. \<open>f32_of\<close> is the conversion \<open>float32(x)\<close>; widening to \<open>float64\<close> is the
  identity.
\<close>

datatype gofloat = FNaN | FInf bool | Fin rat

type_synonym f32 = gofloat
type_synonym f64 = gofloat

section \<open>Rounding\<close>

definition pow2 :: "int \<Rightarrow> rat" where
  "pow2 e = (if 0 \<le> e then 2 ^ nat e else 1 / 2 ^ nat (- e))"

fun log2n :: "int \<Rightarrow> int" where
  "log2n n = (if n < 2 then 0 else 1 + log2n (n div 2))"

declare log2n.simps [simp del]

definition ilog2 :: "rat \<Rightarrow> int" where
  "ilog2 q = (let (a, b) = quotient_of q; n = log2n a - log2n b
              in if pow2 n \<le> q then n else n - 1)"

definition round_even :: "rat \<Rightarrow> int" where
  "round_even q = (let n = \<lfloor>q\<rfloor>; d = q - of_int n in
     if d < 1 / 2 then n else if 1 / 2 < d then n + 1 else if even n then n else n + 1)"

definition ulp_exp :: "int \<Rightarrow> int \<Rightarrow> rat \<Rightarrow> int" where
  "ulp_exp p emin q = max (ilog2 \<bar>q\<bar> - (p - 1)) emin"

definition rnd :: "int \<Rightarrow> int \<Rightarrow> rat \<Rightarrow> rat" where
  "rnd p emin q = (if q = 0 then 0
     else let e = ulp_exp p emin q in of_int (round_even (q / pow2 e)) * pow2 e)"

definition fin_or_inf :: "int \<Rightarrow> rat \<Rightarrow> gofloat" where
  "fin_or_inf emax r = (if pow2 emax \<le> \<bar>r\<bar> then FInf (r < 0) else Fin r)"

definition rnd32 :: "rat \<Rightarrow> gofloat" where
  "rnd32 q = fin_or_inf 128 (rnd 24 (- 149) q)"

definition rnd64 :: "rat \<Rightarrow> gofloat" where
  "rnd64 q = fin_or_inf 1024 (rnd 53 (- 1074) q)"

section \<open>Operations\<close>

fun f32_of :: "f64 \<Rightarrow> f32" where
  "f32_of FNaN = FNaN"
| "f32_of (FInf s) = FInf s"
| "f32_of (Fin q) = rnd32 q"

fun fneg :: "gofloat \<Rightarrow> gofloat" where
  "fneg FNaN = FNaN"
| "fneg (FInf s) = FInf (\<not> s)"
| "fneg (Fin q) = Fin (- q)"

fun fabs :: "gofloat \<Rightarrow> gofloat" where
  "fabs FNaN = FNaN"
| "fabs (FInf s) = FInf False"
| "fabs (Fin q) = Fin \<bar>q\<bar>"

fun fadd :: "(rat \<Rightarrow> gofloat) \<Rightarrow> gofloat \<Rightarrow> gofloat \<Rightarrow> gofloat" where
  "fadd R FNaN y = FNaN"
| "fadd R x FNaN = FNaN"
| "fadd R (FInf s) (FInf t) = (if s = t then FInf s else FNaN)"
| "fadd R (FInf s) (Fin b) = FInf s"
| "fadd R (Fin a) (FInf t) = FInf t"
| "fadd R (Fin a) (Fin b) = R (a + b)"

fun fmul :: "(rat \<Rightarrow> gofloat) \<Rightarrow> gofloat \<Rightarrow> gofloat \<Rightarrow> gofloat" where
  "fmul R FNaN y = FNaN"
| "fmul R x FNaN = FNaN"
| "fmul R (FInf s) (FInf t) = FInf (s \<noteq> t)"
| "fmul R (FInf s) (Fin b) = (if b = 0 then FNaN else FInf (s \<noteq> (b < 0)))"
| "fmul R (Fin a) (FInf t) = (if a = 0 then FNaN else FInf (t \<noteq> (a < 0)))"
| "fmul R (Fin a) (Fin b) = R (a * b)"

definition fsub :: "(rat \<Rightarrow> gofloat) \<Rightarrow> gofloat \<Rightarrow> gofloat \<Rightarrow> gofloat" where
  "fsub R x y = fadd R x (fneg y)"

text \<open>Division by a finite, nonzero constant.\<close>

fun fdiv_const :: "(rat \<Rightarrow> gofloat) \<Rightarrow> gofloat \<Rightarrow> rat \<Rightarrow> gofloat" where
  "fdiv_const R FNaN c = FNaN"
| "fdiv_const R (FInf s) c = FInf (s \<noteq> (c < 0))"
| "fdiv_const R (Fin a) c = R (a / c)"

text \<open>Division of two values. The sign of a zero divisor is not kept: the quotient of a nonzero value
  by zero is the infinity of the dividend's sign.\<close>

fun fdiv :: "(rat \<Rightarrow> gofloat) \<Rightarrow> gofloat \<Rightarrow> gofloat \<Rightarrow> gofloat" where
  "fdiv R FNaN y = FNaN"
| "fdiv R x FNaN = FNaN"
| "fdiv R (FInf s) (FInf t) = FNaN"
| "fdiv R (FInf s) (Fin b) = FInf (s \<noteq> (b < 0))"
| "fdiv R (Fin a) (FInf t) = Fin 0"
| "fdiv R (Fin a) (Fin b) = (if b = 0 then if a = 0 then FNaN else FInf (a < 0) else R (a / b))"

fun isqrt :: "int \<Rightarrow> int" where
  "isqrt n = (if n \<le> 0 then 0
     else let r = 2 * isqrt (n div 4) in if (r + 1) * (r + 1) \<le> n then r + 1 else r)"

declare isqrt.simps [simp del]

definition sqrt_rnd :: "rat \<Rightarrow> rat" where
  "sqrt_rnd q = (if q = 0 then 0 else
     let e = (ilog2 q - 104) div 2; x = q / pow2 (2 * e); m = isqrt \<lfloor>x\<rfloor>;
         h = of_int m + 1 / 2
     in (if h * h < x then of_int (m + 1) else of_int m) * pow2 e)"

fun fsqrt :: "f64 \<Rightarrow> f64" where
  "fsqrt FNaN = FNaN"
| "fsqrt (FInf s) = (if s then FNaN else FInf False)"
| "fsqrt (Fin q) = (if q < 0 then FNaN else Fin (sqrt_rnd q))"

fun ffloor :: "f64 \<Rightarrow> f64" where
  "ffloor FNaN = FNaN"
| "ffloor (FInf s) = FInf s"
| "ffloor (Fin q) = Fin (of_int \<lfloor>q\<rfloor>)"

text \<open>\<open>math.Round\<close>: to the nearest integer, halves away from zero.\<close>

definition round_away :: "rat \<Rightarrow> int" where
  "round_away q = (if q < 0 then - \<lfloor>- q + 1 / 2\<rfloor> else \<lfloor>q + 1 / 2\<rfloor>)"

fun fround :: "f64 \<Rightarrow> f64" where
  "fround FNaN = FNaN"
| "fround (FInf s) = FInf s"
| "fround (Fin q) = Fin (of_int (round_away q))"

section \<open>Comparisons\<close>

fun flt :: "gofloat \<Rightarrow> gofloat \<Rightarrow> bool" where
  "flt (Fin a) (Fin b) = (a < b)"
| "flt (FInf s) (Fin b) = s"
| "flt (Fin a) (FInf t) = (\<not> t)"
| "flt (FInf s) (FInf t) = (s \<and> \<not> t)"
| "flt _ _ = False"

fun fle :: "gofloat \<Rightarrow> gofloat \<Rightarrow> bool" where
  "fle (Fin a) (Fin b) = (a \<le> b)"
| "fle (FInf s) (Fin b) = s"
| "fle (Fin a) (FInf t) = (\<not> t)"
| "fle (FInf s) (FInf t) = (s \<or> \<not> t)"
| "fle _ _ = False"

definition feq :: "gofloat \<Rightarrow> gofloat \<Rightarrow> bool" where
  "feq x y \<longleftrightarrow> fle x y \<and> fle y x"

fun is_nan :: "gofloat \<Rightarrow> bool" where
  "is_nan FNaN = True"
| "is_nan _ = False"

fun is_inf :: "gofloat \<Rightarrow> bool" where
  "is_inf (FInf _) = True"
| "is_inf _ = False"

fun is_fin :: "gofloat \<Rightarrow> bool" where
  "is_fin (Fin _) = True"
| "is_fin _ = False"

fun fval :: "gofloat \<Rightarrow> rat" where
  "fval (Fin q) = q"
| "fval _ = 0"

abbreviation add32 :: "f32 \<Rightarrow> f32 \<Rightarrow> f32" where "add32 \<equiv> fadd rnd32"
abbreviation sub32 :: "f32 \<Rightarrow> f32 \<Rightarrow> f32" where "sub32 \<equiv> fsub rnd32"
abbreviation mul32 :: "f32 \<Rightarrow> f32 \<Rightarrow> f32" where "mul32 \<equiv> fmul rnd32"
abbreviation add64 :: "f64 \<Rightarrow> f64 \<Rightarrow> f64" where "add64 \<equiv> fadd rnd64"
abbreviation sub64 :: "f64 \<Rightarrow> f64 \<Rightarrow> f64" where "sub64 \<equiv> fsub rnd64"
abbreviation mul64 :: "f64 \<Rightarrow> f64 \<Rightarrow> f64" where "mul64 \<equiv> fmul rnd64"

text \<open>A representable value: the values a variable of the format can hold.\<close>

definition repr :: "int \<Rightarrow> int \<Rightarrow> rat \<Rightarrow> bool" where
  "repr p emin q \<longleftrightarrow> rnd p emin q = q"

definition is_f32 :: "gofloat \<Rightarrow> bool" where
  "is_f32 x \<longleftrightarrow> (case x of Fin q \<Rightarrow> repr 24 (- 149) q \<and> \<bar>q\<bar> < pow2 128 | _ \<Rightarrow> True)"

definition is_f64 :: "gofloat \<Rightarrow> bool" where
  "is_f64 x \<longleftrightarrow> (case x of Fin q \<Rightarrow> repr 53 (- 1074) q \<and> \<bar>q\<bar> < pow2 1024 | _ \<Rightarrow> True)"

section \<open>Powers of two\<close>

lemma pow2_pos [simp]: "0 < pow2 e"
  by (simp add: pow2_def)

lemma pow2_nonneg [simp]: "0 \<le> pow2 e" and pow2_nz [simp]: "pow2 e \<noteq> 0"
  by (simp_all add: pow2_def)

lemma pow2_powi: "pow2 e = 2 powi e"
  by (auto simp: pow2_def power_int_def power_one_over)

lemma pow2_add: "pow2 (a + b) = pow2 a * pow2 b"
  by (simp add: pow2_powi power_int_add)

lemma pow2_mono: "a \<le> b \<Longrightarrow> pow2 a \<le> pow2 b"
  by (simp add: pow2_powi power_int_increasing)

lemma pow2_strict_mono: "a < b \<Longrightarrow> pow2 a < pow2 b"
  by (simp add: pow2_powi power_int_strict_increasing)

lemma pow2_less_iff [simp]: "pow2 a < pow2 b \<longleftrightarrow> a < b"
  using pow2_mono pow2_strict_mono not_le by metis

lemma pow2_le_iff [simp]: "pow2 a \<le> pow2 b \<longleftrightarrow> a \<le> b"
  using pow2_less_iff not_le by metis

lemma pow2_0 [simp]: "pow2 0 = 1"
  by (simp add: pow2_def)

lemma pow2_Suc: "pow2 (e + 1) = 2 * pow2 e"
  by (simp add: pow2_add pow2_def [of 1])

lemma pow2_nat: "0 \<le> e \<Longrightarrow> pow2 e = of_int (2 ^ nat e)"
  by (simp add: pow2_def)

lemma log2n_bounds: "0 < n \<Longrightarrow> 0 \<le> log2n n \<and> pow2 (log2n n) \<le> of_int n \<and> of_int n < pow2 (log2n n + 1)"
proof (induction n rule: log2n.induct)
  case (1 n)
  show ?case
  proof (cases "n < 2")
    case True
    with "1.prems" have "n = 1" by simp
    then show ?thesis by (simp add: log2n.simps [of 1] pow2_def)
  next
    case False
    let ?l = "log2n (n div 2)"
    from False "1.IH" have IH: "0 \<le> ?l" "pow2 ?l \<le> of_int (n div 2)" "of_int (n div 2) < pow2 (?l + 1)"
      by auto
    from IH(2) have "pow2 (?l + 1) \<le> of_int (2 * (n div 2))" by (simp add: pow2_Suc)
    moreover have "(of_int (2 * (n div 2)) :: rat) \<le> of_int n" unfolding of_int_le_iff by simp
    moreover have "(of_int n :: rat) < pow2 (?l + 1 + 1)"
    proof -
      obtain N where N: "pow2 (?l + 1) = of_int N" using IH(1) pow2_nat [of "?l + 1"] by auto
      with IH(3) have "n div 2 < N" by simp
      then have "n < 2 * N" by linarith
      then have "of_int n < (of_int (2 * N) :: rat)" by (simp only: of_int_less_iff)
      also have "\<dots> = pow2 (?l + 1 + 1)" by (simp only: pow2_Suc [of "?l + 1"] N of_int_mult of_int_numeral)
      finally show ?thesis .
    qed
    moreover have "log2n n = ?l + 1" using False by (subst log2n.simps) simp
    ultimately show ?thesis using IH(1) by simp
  qed
qed

lemma ilog2_bounds:
  assumes "0 < q"
  shows "pow2 (ilog2 q) \<le> q" "q < pow2 (ilog2 q + 1)"
proof -
  obtain a b where ab: "quotient_of q = (a, b)" by fastforce
  then have b: "0 < b" and q: "q = of_int a / of_int b"
    by (auto dest: quotient_of_denom_pos quotient_of_div)
  with assms have a: "0 < a" by (simp add: zero_less_divide_iff)
  let ?la = "log2n a" and ?lb = "log2n b"
  note bounds = log2n_bounds
  have hi: "q < pow2 (?la - ?lb + 1)"
  proof -
    have "of_int a < pow2 (?la + 1)" using bounds [OF a] by simp
    also have "\<dots> = pow2 (?la - ?lb + 1) * pow2 ?lb"
      by (simp flip: pow2_add)
    also have "\<dots> \<le> pow2 (?la - ?lb + 1) * of_int b"
      using bounds [OF b] by (intro mult_left_mono) simp_all
    finally show ?thesis using b q by (simp add: pos_divide_less_eq)
  qed
  have lo: "pow2 (?la - ?lb - 1) \<le> q"
  proof -
    have "pow2 (?la - ?lb - 1) * of_int b \<le> pow2 (?la - ?lb - 1) * pow2 (?lb + 1)"
      using bounds [OF b] by (intro mult_left_mono) simp_all
    also have "\<dots> = pow2 ?la" by (simp flip: pow2_add)
    also have "\<dots> \<le> of_int a" using bounds [OF a] by simp
    finally show ?thesis using b q by (simp add: pos_le_divide_eq)
  qed
  from hi lo show "pow2 (ilog2 q) \<le> q" "q < pow2 (ilog2 q + 1)"
    by (auto simp: ilog2_def ab Let_def)
qed

lemma ilog2_unique:
  assumes "pow2 n \<le> q" "q < pow2 (n + 1)"
  shows "ilog2 q = n"
proof -
  from assms(1) have "0 < q" using pow2_pos [of n] by linarith
  from ilog2_bounds [OF this] assms have "pow2 n < pow2 (ilog2 q + 1)" "pow2 (ilog2 q) < pow2 (n + 1)"
    by linarith+
  then show ?thesis by simp
qed

lemma ilog2_mono: "0 < a \<Longrightarrow> a \<le> b \<Longrightarrow> ilog2 a \<le> ilog2 b"
proof -
  assume "0 < a" "a \<le> b"
  with ilog2_bounds [of a] ilog2_bounds [of b] have "pow2 (ilog2 a) < pow2 (ilog2 b + 1)"
    by linarith
  then show ?thesis by simp
qed

section \<open>Rounding: exactness, monotonicity, error\<close>

lemma round_even_of_int [simp]: "round_even (of_int n) = n"
  by (simp add: round_even_def)

lemma round_even_err: "\<bar>of_int (round_even q) - q\<bar> \<le> 1 / 2"
  unfolding round_even_def Let_def using floor_correct [of q] by auto

lemma round_even_mono: "a \<le> b \<Longrightarrow> round_even a \<le> round_even b"
proof -
  assume ab: "a \<le> b"
  show ?thesis
  proof (cases "\<lfloor>a\<rfloor> = \<lfloor>b\<rfloor>")
    case True
    with ab show ?thesis by (auto simp: round_even_def Let_def)
  next
    case False
    with ab have "\<lfloor>a\<rfloor> + 1 \<le> \<lfloor>b\<rfloor>" using floor_mono [OF ab] by simp
    then show ?thesis by (auto simp: round_even_def Let_def)
  qed
qed

lemma round_even_neg: "round_even (- q) = - round_even q"
proof (cases "q = of_int \<lfloor>q\<rfloor>")
  case True
  then show ?thesis by (metis of_int_minus round_even_of_int)
next
  case False
  define n where "n = \<lfloor>q\<rfloor>"
  have "of_int n < q" "q < of_int n + 1"
    using False floor_correct [of q] by (auto simp: n_def less_le)
  then have "\<lfloor>- q\<rfloor> = - n - 1" by (simp add: floor_eq_iff)
  then show ?thesis by (auto simp: round_even_def Let_def n_def [symmetric])
qed

lemma rnd_0 [simp]: "rnd p e 0 = 0"
  by (simp add: rnd_def)

lemma rnd_neg: "rnd p e (- q) = - rnd p e q"
  by (simp add: rnd_def ulp_exp_def Let_def round_even_neg)

lemma rnd_eq: "q \<noteq> 0 \<Longrightarrow>
    rnd p em q = of_int (round_even (q / pow2 (ulp_exp p em q))) * pow2 (ulp_exp p em q)"
  by (simp add: rnd_def Let_def)

lemma rnd_nonneg: "0 \<le> q \<Longrightarrow> 0 \<le> rnd p em q"
  using round_even_mono [of 0 "q / pow2 (ulp_exp p em q)"] round_even_of_int [of 0]
  by (cases "q = 0") (simp_all add: rnd_eq)

text \<open>The rounded value stays on the grid of its binade and never passes the next power of two.\<close>

lemma rnd_le_grid:
  assumes "0 < q" "ulp_exp p em q \<le> k" "q \<le> of_int m * pow2 k"
  shows "rnd p em q \<le> of_int m * pow2 k"
proof -
  let ?e = "ulp_exp p em q"
  have k: "pow2 k = pow2 (k - ?e) * pow2 ?e" by (simp flip: pow2_add)
  have g: "of_int m * pow2 (k - ?e) = of_int (m * 2 ^ nat (k - ?e))"
    using assms(2) by (simp add: pow2_nat)
  from assms(3) have "q / pow2 ?e \<le> of_int m * pow2 (k - ?e)"
    by (simp add: k pos_divide_le_eq mult.assoc)
  from round_even_mono [OF this] have "round_even (q / pow2 ?e) \<le> m * 2 ^ nat (k - ?e)"
    by (simp only: g round_even_of_int)
  then have "(of_int (round_even (q / pow2 ?e)) :: rat) \<le> of_int m * pow2 (k - ?e)"
    by (simp only: g of_int_le_iff)
  then have "of_int (round_even (q / pow2 ?e)) * pow2 ?e \<le> of_int m * pow2 (k - ?e) * pow2 ?e"
    by (rule mult_right_mono) simp
  with assms(1) show ?thesis by (simp add: rnd_eq k mult.assoc)
qed

lemma rnd_ge_grid:
  assumes "0 < q" "ulp_exp p em q \<le> k" "of_int m * pow2 k \<le> q"
  shows "of_int m * pow2 k \<le> rnd p em q"
proof -
  let ?e = "ulp_exp p em q"
  have k: "pow2 k = pow2 (k - ?e) * pow2 ?e" by (simp flip: pow2_add)
  have g: "of_int m * pow2 (k - ?e) = of_int (m * 2 ^ nat (k - ?e))"
    using assms(2) by (simp add: pow2_nat)
  from assms(3) have "of_int m * pow2 (k - ?e) \<le> q / pow2 ?e"
    by (simp add: k pos_le_divide_eq mult.assoc)
  from round_even_mono [OF this] have "m * 2 ^ nat (k - ?e) \<le> round_even (q / pow2 ?e)"
    by (simp only: g round_even_of_int)
  then have "of_int m * pow2 (k - ?e) \<le> (of_int (round_even (q / pow2 ?e)) :: rat)"
    by (simp only: g of_int_le_iff)
  then have "of_int m * pow2 (k - ?e) * pow2 ?e \<le> of_int (round_even (q / pow2 ?e)) * pow2 ?e"
    by (rule mult_right_mono) simp
  with assms(1) show ?thesis by (simp add: rnd_eq k mult.assoc)
qed

lemma ulp_exp_mono: "0 < a \<Longrightarrow> a \<le> b \<Longrightarrow> ulp_exp p em a \<le> ulp_exp p em b"
  using ilog2_mono [of a b] by (simp add: ulp_exp_def)

lemma rnd_mono_pos:
  assumes "1 \<le> p" "0 < a" "a \<le> b"
  shows "rnd p em a \<le> rnd p em b"
proof (cases "ulp_exp p em a = ulp_exp p em b")
  case True
  have "a / pow2 (ulp_exp p em b) \<le> b / pow2 (ulp_exp p em b)"
    using assms(3) by (intro divide_right_mono) simp_all
  from round_even_mono [OF this] assms True show ?thesis
    by (simp add: rnd_eq mult_right_mono)
next
  case False
  with ulp_exp_mono [of a b p em] assms have lt: "ulp_exp p em a < ulp_exp p em b" by simp
  define n where "n = ilog2 b"
  have "\<bar>a\<bar> = a" "\<bar>b\<bar> = b" using assms by simp_all
  with lt have n: "ulp_exp p em b = n - (p - 1)" "ulp_exp p em a \<le> n" "ilog2 a < n"
    using assms(1) by (auto simp: ulp_exp_def n_def max_def split: if_splits)
  have "a < pow2 (ilog2 a + 1)" using ilog2_bounds assms by simp
  also have "\<dots> \<le> pow2 n" using n by simp
  finally have "rnd p em a \<le> of_int 1 * pow2 n"
    using assms n by (intro rnd_le_grid) simp_all
  moreover have "of_int 1 * pow2 n \<le> rnd p em b"
    using assms n ilog2_bounds(1) [of b] by (intro rnd_ge_grid) (simp_all add: n_def)
  ultimately show ?thesis by linarith
qed

lemma rnd_mono:
  assumes "1 \<le> p" "a \<le> b"
  shows "rnd p em a \<le> rnd p em b"
proof -
  consider "0 < a" | "a \<le> 0" "0 \<le> b" | "b < 0" by linarith
  then show ?thesis
  proof cases
    case 1
    then show ?thesis using assms by (intro rnd_mono_pos)
  next
    case 2
    then have "0 \<le> rnd p em (- a)" "0 \<le> rnd p em b" by (auto intro: rnd_nonneg)
    then show ?thesis by (simp add: rnd_neg)
  next
    case 3
    then have "rnd p em (- b) \<le> rnd p em (- a)" using assms by (intro rnd_mono_pos) auto
    then show ?thesis by (simp add: rnd_neg)
  qed
qed

text \<open>An integer multiple of a grid step, with few enough bits, is representable.\<close>

lemma repr_grid_pos:
  assumes "0 < m" "m \<le> 2 ^ nat p" "em \<le> k" "1 \<le> p"
  shows "rnd p em (of_int m * pow2 k) = of_int m * pow2 k"
proof -
  let ?q = "of_int m * pow2 k"
  have q: "0 < ?q" using assms by simp
  show ?thesis
  proof (cases "m = 2 ^ nat p")
    case True
    then have qq: "?q = pow2 (p + k)" using assms by (simp add: pow2_add pow2_nat)
    then have "ilog2 ?q = p + k" by (auto intro: ilog2_unique simp: pow2_Suc)
    then have u: "ulp_exp p em ?q \<le> p + k" using assms q by (simp add: ulp_exp_def)
    from rnd_le_grid [OF q u, of 1] rnd_ge_grid [OF q u, of 1] qq show ?thesis by simp
  next
    case False
    with assms have "m < 2 ^ nat p" by simp
    then have "of_int m < pow2 p" using assms
      by (simp add: pow2_nat)
    then have "?q < pow2 (p + k)" by (simp add: pow2_add)
    with ilog2_bounds(1) [OF q] have "pow2 (ilog2 ?q) < pow2 (p + k)" by linarith
    then have u: "ulp_exp p em ?q \<le> k" using assms q by (simp add: ulp_exp_def)
    from rnd_le_grid [OF q u, of m] rnd_ge_grid [OF q u, of m] show ?thesis by simp
  qed
qed

lemma repr_grid:
  assumes "\<bar>m\<bar> \<le> 2 ^ nat p" "em \<le> k" "1 \<le> p"
  shows "rnd p em (of_int m * pow2 k) = of_int m * pow2 k"
proof -
  consider (pos) "0 < m" | (zero) "m = 0" | (neg) "m < 0" by linarith
  then show ?thesis
  proof cases
    case pos
    then show ?thesis using assms by (intro repr_grid_pos) auto
  next
    case zero
    then show ?thesis by simp
  next
    case neg
    then have "rnd p em (of_int (- m) * pow2 k) = of_int (- m) * pow2 k"
      using assms by (intro repr_grid_pos) auto
    then show ?thesis by (simp add: rnd_neg)
  qed
qed

lemma rnd_int: "\<bar>m\<bar> \<le> 2 ^ nat p \<Longrightarrow> em \<le> 0 \<Longrightarrow> 1 \<le> p \<Longrightarrow> rnd p em (of_int m) = of_int m"
  using repr_grid [of m p em 0] by simp

text \<open>Rounding is idempotent: its result is representable.\<close>

lemma rnd_idem_pos:
  assumes "0 < q" "1 \<le> p"
  shows "rnd p em (rnd p em q) = rnd p em q"
proof -
  let ?e = "ulp_exp p em q" and ?m = "round_even (q / pow2 (ulp_exp p em q))"
  have r: "rnd p em q = of_int ?m * pow2 ?e" using assms by (simp add: rnd_eq)
  have "q < pow2 (ilog2 q + 1)" using assms by (simp add: ilog2_bounds)
  also have "\<dots> \<le> pow2 (p + ?e)" using assms(1) by (simp add: ulp_exp_def)
  finally have "q / pow2 ?e \<le> pow2 p" by (simp add: pos_divide_le_eq pow2_add less_imp_le)
  then have "q / pow2 ?e \<le> of_int (2 ^ nat p)" using assms by (simp add: pow2_nat)
  from round_even_mono [OF this] have "?m \<le> 2 ^ nat p" by (simp only: round_even_of_int)
  moreover have "0 \<le> ?m"
    using round_even_mono [of 0 "q / pow2 ?e"] round_even_of_int [of 0] assms by simp
  moreover have "em \<le> ?e" by (simp add: ulp_exp_def)
  ultimately show ?thesis unfolding r using assms by (intro repr_grid) simp_all
qed

lemma rnd_idem: "1 \<le> p \<Longrightarrow> rnd p em (rnd p em q) = rnd p em q"
proof -
  assume p: "1 \<le> p"
  consider "0 < q" | "q = 0" | "0 < - q" by linarith
  then show ?thesis
  proof cases
    case 3
    from rnd_idem_pos [OF this p, of em] show ?thesis by (simp add: rnd_neg)
  qed (use p in \<open>simp_all add: rnd_idem_pos\<close>)
qed

text \<open>The error is at most half a unit in the last place, and a bound that is a power of two is
  never passed.\<close>

lemma rnd_err: "\<bar>q\<bar> \<le> pow2 (e + p) \<Longrightarrow> em \<le> e \<Longrightarrow> 1 \<le> p \<Longrightarrow> \<bar>rnd p em q - q\<bar> \<le> pow2 e"
proof (cases "q = 0")
  case False
  assume q: "\<bar>q\<bar> \<le> pow2 (e + p)" and e: "em \<le> e" and p: "1 \<le> p"
  let ?u = "ulp_exp p em q"
  from False have "pow2 (ilog2 \<bar>q\<bar>) \<le> pow2 (e + p)"
    using order_trans [OF ilog2_bounds(1) [of "\<bar>q\<bar>"] q] by simp
  then have u: "?u \<le> e + 1" using e by (simp add: ulp_exp_def)
  have "rnd p em q - q = (of_int (round_even (q / pow2 ?u)) - q / pow2 ?u) * pow2 ?u"
    using False by (simp add: rnd_eq left_diff_distrib)
  then have "\<bar>rnd p em q - q\<bar> \<le> 1 / 2 * pow2 ?u"
    using round_even_err [of "q / pow2 ?u"] by (simp add: abs_mult mult_right_mono)
  also have "\<dots> \<le> 1 / 2 * pow2 (e + 1)" using u by simp
  finally show ?thesis by (simp add: pow2_Suc)
qed simp

lemma rnd_bound:
  assumes "\<bar>q\<bar> \<le> pow2 k" "em \<le> k" "1 \<le> p"
  shows "\<bar>rnd p em q\<bar> \<le> pow2 k"
proof -
  have k: "rnd p em (pow2 k) = pow2 k" using repr_grid [of 1 p em k] assms by simp
  from assms(1) have "q \<le> pow2 k" "- q \<le> pow2 k" by linarith+
  from rnd_mono [OF assms(3) this(1), of em] rnd_mono [OF assms(3) this(2), of em] k
  show ?thesis by (simp add: rnd_neg abs_le_iff)
qed

lemma rnd64_fin: "\<bar>q\<bar> \<le> pow2 k \<Longrightarrow> - 1074 \<le> k \<Longrightarrow> k < 1024 \<Longrightarrow> rnd64 q = Fin (rnd 53 (- 1074) q)"
  using rnd_bound [of q k "- 1074" 53] pow2_less_iff [of k 1024]
  by (auto simp: rnd64_def fin_or_inf_def simp del: pow2_less_iff)

lemma rnd32_fin: "\<bar>q\<bar> \<le> pow2 k \<Longrightarrow> - 149 \<le> k \<Longrightarrow> k < 128 \<Longrightarrow> rnd32 q = Fin (rnd 24 (- 149) q)"
  using rnd_bound [of q k "- 149" 24] pow2_less_iff [of k 128]
  by (auto simp: rnd32_def fin_or_inf_def simp del: pow2_less_iff)

text \<open>Integers of at most 24 (53) bits are exact.\<close>

lemma int_le_pow2: "\<bar>m\<bar> \<le> 2 ^ k \<Longrightarrow> \<bar>of_int m\<bar> \<le> pow2 (int k)"
proof -
  assume "\<bar>m\<bar> \<le> 2 ^ k"
  then have "(of_int \<bar>m\<bar> :: rat) \<le> of_int (2 ^ k)" by (simp only: of_int_le_iff)
  then show ?thesis by (simp add: pow2_def)
qed

lemma rnd32_int: "\<bar>m\<bar> \<le> 2 ^ 24 \<Longrightarrow> rnd32 (of_int m) = Fin (of_int m)"
  using rnd32_fin [of "of_int m" 24] int_le_pow2 [of m 24] rnd_int [of m 24 "- 149"] by simp

lemma rnd64_int: "\<bar>m\<bar> \<le> 2 ^ 53 \<Longrightarrow> rnd64 (of_int m) = Fin (of_int m)"
  using rnd64_fin [of "of_int m" 53] int_le_pow2 [of m 53] rnd_int [of m 53 "- 1074"] by simp

lemma rnd32_numeral [simp]: "numeral n \<le> (2 ^ 24 :: int) \<Longrightarrow> rnd32 (numeral n) = Fin (numeral n)"
  "numeral n \<le> (2 ^ 24 :: int) \<Longrightarrow> rnd32 (- numeral n) = Fin (- numeral n)"
  "rnd32 0 = Fin 0" "rnd32 1 = Fin 1" "rnd32 (- 1) = Fin (- 1)"
  using rnd32_int [of "numeral n"] rnd32_int [of "- numeral n"] rnd32_int [of 0] rnd32_int [of 1]
    rnd32_int [of "- 1"] by simp_all

lemma rnd64_numeral [simp]: "numeral n \<le> (2 ^ 53 :: int) \<Longrightarrow> rnd64 (numeral n) = Fin (numeral n)"
  "numeral n \<le> (2 ^ 53 :: int) \<Longrightarrow> rnd64 (- numeral n) = Fin (- numeral n)"
  "rnd64 0 = Fin 0" "rnd64 1 = Fin 1" "rnd64 (- 1) = Fin (- 1)"
  using rnd64_int [of "numeral n"] rnd64_int [of "- numeral n"] rnd64_int [of 0] rnd64_int [of 1]
    rnd64_int [of "- 1"] by simp_all

lemma round_away_close: "\<bar>q - of_int n\<bar> < 1 / 2 \<Longrightarrow> round_away q = n"
proof -
  assume q: "\<bar>q - of_int n\<bar> < 1 / 2"
  then have b: "q - of_int n < 1 / 2" "- (1 / 2) < q - of_int n" by linarith+
  have "\<lfloor>q + 1 / 2\<rfloor> = n" unfolding floor_eq_iff using b by linarith
  moreover have "\<lfloor>- q + 1 / 2\<rfloor> = - n"
    unfolding floor_eq_iff of_int_minus using b by linarith
  ultimately show ?thesis by (simp add: round_away_def)
qed

lemma round_away_numeral [simp]: "round_away (numeral n) = numeral n" "round_away (- numeral n) = - numeral n"
  "round_away 0 = 0" "round_away 1 = 1" "round_away (of_int k) = k"
  using round_away_close [of "numeral n" "numeral n"] round_away_close [of "- numeral n" "- numeral n"]
    round_away_close [of 0 0] round_away_close [of 1 1] round_away_close [of "of_int k" k] by simp_all

text \<open>A percentage stored as a fraction comes back as the same percentage, through either width.\<close>

lemma percent_close:
  assumes "0 \<le> n" "n \<le> 100"
  shows "\<exists>q. rnd64 (of_int n / 100) = Fin q \<and> 0 \<le> q \<and> q \<le> 1 \<and> \<bar>q - of_int n / 100\<bar> \<le> pow2 (- 24)"
proof -
  let ?x = "of_int n / 100 :: rat"
  have x: "0 \<le> ?x" "?x \<le> 1" using assms by simp_all
  let ?q = "rnd 53 (- 1074) ?x"
  have "\<bar>?x\<bar> \<le> pow2 0" using x by simp
  then have "rnd64 ?x = Fin ?q" by (intro rnd64_fin [where k = 0]) simp_all
  moreover have "0 \<le> ?q" using x by (intro rnd_nonneg)
  moreover have "?q \<le> 1" using rnd_bound [of ?x 0 "- 1074" 53] x by simp
  moreover have "\<bar>?q - ?x\<bar> \<le> pow2 (- 24)"
    using rnd_err [of ?x "- 24" 53 "- 1074"] x pow2_mono [of 0 29] by simp
  ultimately show ?thesis by blast
qed

lemma unit_f32_close:
  assumes "0 \<le> q" "q \<le> 1"
  shows "\<exists>r. f32_of (Fin q) = Fin r \<and> 0 \<le> r \<and> r \<le> 1 \<and> \<bar>r - q\<bar> \<le> pow2 (- 24)"
proof -
  let ?r = "rnd 24 (- 149) q"
  have "rnd32 q = Fin ?r" using assms by (intro rnd32_fin [where k = 0]) simp_all
  moreover have "0 \<le> ?r" using assms by (intro rnd_nonneg)
  moreover have "?r \<le> 1" using rnd_bound [of q 0 "- 149" 24] assms by simp
  moreover have "\<bar>?r - q\<bar> \<le> pow2 (- 24)" using rnd_err [of q "- 24" 24 "- 149"] assms by simp
  ultimately show ?thesis by auto
qed

lemma times_100_close:
  assumes "0 \<le> q" "q \<le> 1" "\<bar>q - of_int n / 100\<bar> \<le> 2 * pow2 (- 24)"
  shows "\<exists>r. mul64 (Fin q) (Fin 100) = Fin r \<and> \<bar>r - of_int n\<bar> < 1 / 2"
proof -
  let ?r = "rnd 53 (- 1074) (q * 100)"
  have b: "\<bar>q * 100\<bar> \<le> pow2 7" using assms by (simp add: pow2_def)
  then have "rnd64 (q * 100) = Fin ?r" by (intro rnd64_fin [where k = 7]) simp_all
  moreover have "\<bar>?r - q * 100\<bar> \<le> pow2 (- 24)"
    using rnd_err [of "q * 100" "- 24" 53 "- 1074"] order_trans [OF b pow2_mono [of 7 29]] by simp
  moreover have "\<bar>q * 100 - of_int n\<bar> \<le> 200 * pow2 (- 24)"
    using assms(3) by (simp add: abs_le_iff field_simps)
  moreover have "201 * pow2 (- 24) < 1 / 2" by (simp add: pow2_def)
  ultimately have "\<bar>?r - of_int n\<bar> < 1 / 2" by linarith
  with \<open>rnd64 (q * 100) = Fin ?r\<close> show ?thesis by simp
qed


text \<open>Adding a non-negative value to a representable one never goes below it, and square roots are
  not negative; both say nothing when the result is NaN.\<close>

lemma is_f32_rnd32 [simp]: "is_f32 (rnd32 q)"
  using rnd_idem [of 24 "- 149" q] by (simp add: is_f32_def rnd32_def fin_or_inf_def repr_def)

lemma is_f32_add32: "is_f32 x \<Longrightarrow> is_f32 y \<Longrightarrow> is_f32 (add32 x y)"
  by (cases x; cases y) (simp_all add: is_f32_def [of FNaN] is_f32_def [of "FInf _"])

lemma fle_refl: "\<not> is_nan x \<Longrightarrow> fle x x"
  by (cases x) auto

lemma fle_trans: "fle x y \<Longrightarrow> fle y z \<Longrightarrow> fle x z"
  by (cases x; cases y; cases z) auto

lemma flt_fle: "flt x y \<Longrightarrow> fle x y"
  by (cases x; cases y) auto

lemma fle_not_flt: "fle x y \<Longrightarrow> \<not> flt y x"
  by (cases x; cases y) auto

lemma fle_not_nan: "fle x y \<Longrightarrow> \<not> is_nan x \<and> \<not> is_nan y"
  by (cases x; cases y) auto

lemma flt_not_nan: "flt x y \<Longrightarrow> \<not> is_nan x \<and> \<not> is_nan y"
  by (cases x; cases y) auto

lemma add32_ge: "is_f32 g \<Longrightarrow> fle (Fin 0) c \<Longrightarrow> \<not> is_nan (add32 g c) \<Longrightarrow> fle g (add32 g c)"
proof (cases g; cases c)
  fix a b assume a: "is_f32 g" "fle (Fin 0) c" "g = Fin a" "c = Fin b"
  then have "rnd 24 (- 149) a \<le> rnd 24 (- 149) (a + b)" by (intro rnd_mono) simp_all
  with a have r: "a \<le> rnd 24 (- 149) (a + b)" "\<bar>a\<bar> < pow2 128" by (simp_all add: is_f32_def repr_def)
  then show "fle g (add32 g c)" using a by (auto simp: rnd32_def fin_or_inf_def)
qed (auto split: if_splits)

lemma add32_nan: "is_nan g \<or> is_nan c \<Longrightarrow> is_nan (add32 g c)"
  by (cases g; cases c) auto

lemma isqrt_nonneg: "0 \<le> isqrt n"
proof (induction n rule: isqrt.induct)
  case (1 n)
  then show ?case by (subst isqrt.simps) (auto simp: Let_def)
qed

lemma sqrt_rnd_nonneg: "0 \<le> sqrt_rnd q"
  using isqrt_nonneg by (simp add: sqrt_rnd_def Let_def)

lemma fle_f32_of: "fle (Fin 0) x \<Longrightarrow> fle (Fin 0) (f32_of x)"
  using rnd_nonneg [of _ 24 "- 149"] by (cases x) (auto simp: rnd32_def fin_or_inf_def not_less)

lemma fsqrt_nonneg: "\<not> is_nan (fsqrt x) \<Longrightarrow> fle (Fin 0) (fsqrt x)"
  by (cases x) (auto simp: sqrt_rnd_nonneg)

end
