(* ===== verification/Tables.thy ===== *)
theory Tables
  imports GoFloat
begin

text \<open>
  The SQLite tables of internal/database (schema.go), and the transactions over them.

  A table whose order the queries observe is a list in primary-key order with its
  AUTOINCREMENT counter; the characters, looked up by key only, are a map. Columns that no
  Go code reads or writes (addon flags, inventory grid cell) are left out. A REAL column
  holds a \<open>float64\<close>; scanning it into a \<open>float32\<close> field narrows it (\<open>f32_of\<close>).

  Every statement may fail: a list of booleans says for each statement executed, in order,
  whether the driver reports an error (an exhausted list: no more failures). \<open>run_tx\<close> is
  \<open>Begin\<close>, the body, \<open>Commit\<close>, with the deferred \<open>Rollback\<close> restoring the tables on any
  error. The connection pool holds one connection (\<open>SetMaxOpenConns(1)\<close>), so transactions
  are serial and each is one step.
\<close>

record inv_row =
  r_id :: int
  r_uuid :: string
  r_section :: string
  r_count :: int
  r_condition :: f64
  r_ammo :: int
  r_slot :: int

record world_item =
  w_id :: int
  w_level :: string
  w_x :: f32
  w_y :: f32
  w_z :: f32
  w_section :: string
  w_count :: int
  w_condition :: f32
  w_created :: int

text \<open>One entry of \<open>contents_json\<close> (\<open>StashItem\<close> of stash_manager.go) and the column's value:
  the empty text, a decodable array, or a text the decoder rejects.\<close>

record stash_item =
  si_section :: string
  si_count :: int
  si_condition :: u8

datatype contents = JEmpty | JItems "stash_item list" | JBad string

record stash_row =
  s_id :: int
  s_level :: string
  s_x :: f32
  s_y :: f32
  s_z :: f32
  s_owner :: "string option"
  s_passcode :: "string option"
  s_contents :: contents
  s_created :: int
  s_updated :: int

record account_row =
  a_uuid :: string
  a_hwid :: string
  a_nickname :: string
  a_banned :: int
  a_ban_reason :: "string option"
  a_created :: int
  a_last_seen :: int

record char_row =
  c_level :: string
  c_pos :: "f64 \<times> f64 \<times> f64"
  c_yaw :: f64
  c_faction :: string
  c_health :: f64
  c_economy_tier :: int
  c_rubles :: int
  c_play_time :: int
  c_profile_rev :: int
  c_dead :: int
  c_created :: int
  c_updated :: int

record audit_row =
  au_time :: int
  au_uuid :: string
  au_event :: string
  au_detail :: string

record database =
  d_inv :: "inv_row list"
  d_inv_next :: int
  d_world :: "world_item list"
  d_world_next :: int
  d_stashes :: "stash_row list"
  d_stash_next :: int
  d_chars :: "string \<Rightarrow> char_row option"
  d_audit :: "audit_row list"
  d_accounts :: "account_row list"

text \<open>The sentinel errors. \<open>ErrInsufficientItems n\<close> carries the total that the Go functions
  return beside the error; \<open>ErrSQL\<close> is any error of the driver, a violated constraint
  included.\<close>

datatype gerr = ErrSQL | ErrNoRows | ErrInsufficientItems int | ErrWorldItemNotFound
  | ErrWorldItemLimit | ErrCharacterNotFound | ErrInsufficientFunds | ErrNegativePrice
  | ErrDBNotConfigured | ErrStashNotFound | ErrItemNotFoundStash | ErrInsufficientCount
  | ErrStashAccessDenied | ErrStashWrongLevel | ErrStashTooFar | ErrStashWrongPasscode
  | ErrInvalidStashCount | ErrInvalidItemCondition | ErrStashContentsTooLarge | ErrJSON
  | ErrInvalidFaction | ErrInvalidLoadout

section \<open>Transactions\<close>

type_synonym faults = "bool list"
type_synonym 'a tx = "database \<Rightarrow> faults \<Rightarrow> (gerr + 'a) \<times> database \<times> faults"

definition ret :: "'a \<Rightarrow> 'a tx" where
  "ret x d fl = (Inr x, d, fl)"

definition fail :: "gerr \<Rightarrow> 'a tx" where
  "fail e d fl = (Inl e, d, fl)"

definition bind :: "'a tx \<Rightarrow> ('a \<Rightarrow> 'b tx) \<Rightarrow> 'b tx" where
  "bind m f d fl = (case m d fl of
     (Inl e, d', fl') \<Rightarrow> (Inl e, d', fl')
   | (Inr x, d', fl') \<Rightarrow> f x d' fl')"

definition stmt :: "(database \<Rightarrow> (gerr + 'a) \<times> database) \<Rightarrow> 'a tx" where
  "stmt f d fl = (case fl of
     True # fl' \<Rightarrow> (Inl ErrSQL, d, fl')
   | _ \<Rightarrow> (let (r, d') = f d in (r, d', tl fl)))"

definition query :: "(database \<Rightarrow> 'a) \<Rightarrow> 'a tx" where
  "query f = stmt (\<lambda>d. (Inr (f d), d))"

definition exec :: "(database \<Rightarrow> database) \<Rightarrow> unit tx" where
  "exec f = stmt (\<lambda>d. (Inr (), f d))"

definition run_tx :: "'a tx \<Rightarrow> 'a tx" where
  "run_tx body d fl =
     (case bind (exec id) (\<lambda>_. bind body (\<lambda>x. bind (exec id) (\<lambda>_. ret x))) d fl of
        (Inl e, _, fl') \<Rightarrow> (Inl e, d, fl')
      | (Inr x, d', fl') \<Rightarrow> (Inr x, d', fl'))"

text \<open>An error that the Go function answers without an error after the rollback
  (\<open>return false, nil\<close> before \<open>Commit\<close>).\<close>

definition answer :: "(gerr \<Rightarrow> 'a option) \<Rightarrow> 'a tx \<Rightarrow> 'a tx" where
  "answer h m d fl = (case m d fl of
     (Inl e, d', fl') \<Rightarrow> (case h e of None \<Rightarrow> (Inl e, d', fl') | Some x \<Rightarrow> (Inr x, d', fl'))
   | (Inr x, d', fl') \<Rightarrow> (Inr x, d', fl'))"

abbreviation db_of :: "(gerr + 'a) \<times> database \<times> faults \<Rightarrow> database" where
  "db_of r \<equiv> fst (snd r)"

section \<open>Atomicity and faults\<close>

lemmas tx_defs = ret_def fail_def bind_def stmt_def query_def exec_def

lemma run_tx_atomic: "run_tx m d fl = (Inl e, d', fl') \<Longrightarrow> d' = d"
  by (auto simp: run_tx_def split: prod.splits sum.splits)

lemma bind_Inr:
  "bind m f d fl = (Inr y, d', fl') \<longleftrightarrow>
     (\<exists>x d1 fl1. m d fl = (Inr x, d1, fl1) \<and> f x d1 fl1 = (Inr y, d', fl'))"
  by (auto simp: bind_def split: prod.splits sum.splits)

lemma ret_eq [simp]: "ret x d fl = (r, d', fl') \<longleftrightarrow> r = Inr x \<and> d' = d \<and> fl' = fl"
  by (auto simp: ret_def)

lemma fail_eq [simp]: "fail e d fl = (r, d', fl') \<longleftrightarrow> r = Inl e \<and> d' = d \<and> fl' = fl"
  by (auto simp: fail_def)

lemma exec_Inr: "exec f d fl = (Inr u, d', fl') \<longleftrightarrow> d' = f d \<and> fl' = tl fl \<and> (fl = [] \<or> \<not> hd fl)"
  by (cases fl) (auto simp: exec_def stmt_def split: bool.splits)

lemma query_Inr: "query f d fl = (Inr x, d', fl') \<longleftrightarrow>
    x = f d \<and> d' = d \<and> fl' = tl fl \<and> (fl = [] \<or> \<not> hd fl)"
  by (cases fl) (auto simp: query_def stmt_def split: bool.splits)

lemma stmt_Inr: "stmt f d fl = (Inr x, d', fl') \<longleftrightarrow>
    f d = (Inr x, d') \<and> fl' = tl fl \<and> (fl = [] \<or> \<not> hd fl)"
  by (cases fl) (auto simp: stmt_def split: bool.splits prod.splits)

lemmas tx_Inr = bind_Inr exec_Inr query_Inr stmt_Inr

lemma run_tx_Inr: "run_tx m d fl = (Inr x, d', fl') \<Longrightarrow> \<exists>fl0 fl1. m d fl0 = (Inr x, d', fl1)"
  by (auto simp: run_tx_def tx_Inr split: prod.splits sum.splits)

lemma db_of_answer [simp]: "db_of (answer h m d fl) = db_of (m d fl)"
  by (auto simp: answer_def split: prod.splits sum.splits option.splits)

lemma answer_Inl: "answer h m d fl = (Inl e, d', fl') \<longleftrightarrow> m d fl = (Inl e, d', fl') \<and> h e = None"
  by (auto simp: answer_def split: prod.splits sum.splits option.splits)

lemma answer_Inr: "answer h m d fl = (Inr x, d', fl') \<longleftrightarrow>
    m d fl = (Inr x, d', fl') \<or> (\<exists>e. m d fl = (Inl e, d', fl') \<and> h e = Some x)"
  by (auto simp: answer_def split: prod.splits sum.splits option.splits)

lemma run_tx_db_cases:
  "db_of (run_tx m d fl) = d \<or>
   (\<exists>fl0 x fl1 d'. m d fl0 = (Inr x, d', fl1) \<and> run_tx m d fl = (Inr x, d', snd (snd (run_tx m d fl))))"
proof (cases "run_tx m d fl")
  case (fields r d' fl')
  show ?thesis
  proof (cases r)
    case (Inl e)
    with fields show ?thesis using run_tx_atomic by fastforce
  next
    case (Inr x)
    with fields show ?thesis using run_tx_Inr by fastforce
  qed
qed

text \<open>Without faults a statement behaves as its table operation, and no statement adds one.\<close>

lemma stmt_no_fault [simp]: "stmt f d [] = (fst (f d), snd (f d), [])"
  by (simp add: stmt_def split: prod.splits)

lemma exec_no_fault [simp]: "exec f d [] = (Inr (), f d, [])"
  by (simp add: exec_def)

lemma query_no_fault [simp]: "query f d [] = (Inr (f d), d, [])"
  by (simp add: query_def)

lemma bind_no_fault:
  "m d [] = (Inr x, d', []) \<Longrightarrow> bind m f d [] = f x d' []"
  by (simp add: bind_def)

section \<open>Relations every statement keeps\<close>

text \<open>
  A reflexive and transitive relation between the tables before and after: when every
  statement of a body keeps it, the body keeps it on every path, errors included, and so
  does the transaction.
\<close>

locale tx_rel =
  fixes R :: "database \<Rightarrow> database \<Rightarrow> bool"
  assumes R_refl: "R d d"
    and R_trans: "R d d' \<Longrightarrow> R d' d'' \<Longrightarrow> R d d''"
begin

definition keeps :: "'a tx \<Rightarrow> bool" where
  "keeps m \<longleftrightarrow> (\<forall>d fl. R d (db_of (m d fl)))"

lemma keeps_ret: "keeps (ret x)"
  by (simp add: keeps_def ret_def R_refl)

lemma keeps_fail: "keeps (fail e)"
  by (simp add: keeps_def fail_def R_refl)

lemma keeps_stmt: "(\<And>d. R d (snd (f d))) \<Longrightarrow> keeps (stmt f)"
  by (auto simp: keeps_def stmt_def R_refl split: list.splits prod.splits bool.splits) (metis snd_conv)+

lemma keeps_query: "keeps (query f)"
  unfolding query_def by (rule keeps_stmt) (simp add: R_refl)

lemma keeps_exec: "(\<And>d. R d (f d)) \<Longrightarrow> keeps (exec f)"
  unfolding exec_def by (rule keeps_stmt) simp

lemma keeps_bind: "keeps m \<Longrightarrow> (\<And>x. keeps (f x)) \<Longrightarrow> keeps (bind m f)"
  unfolding keeps_def bind_def
  by (auto split: prod.splits sum.splits) (metis R_trans fst_conv snd_conv)+

lemma keeps_run: "keeps m \<Longrightarrow> keeps (run_tx m)"
  using run_tx_db_cases [of m] R_refl unfolding keeps_def by (metis fst_conv snd_conv)

lemma keeps_answer: "keeps m \<Longrightarrow> keeps (answer h m)"
  by (simp add: keeps_def)

lemma keepsD: "keeps m \<Longrightarrow> R d (db_of (m d fl))"
  by (simp add: keeps_def)

lemmas keeps_rules = keeps_ret keeps_fail keeps_query keeps_exec keeps_stmt keeps_bind keeps_run

end

end
