(* ===== verification/Inventory.thy ===== *)
theory Inventory
  imports Tables
begin

text \<open>
  The inventory and world-item operations of internal/database/db.go: removal and credit
  inside a transaction (\<open>RemoveInventoryItemsLocked\<close>, \<open>CreditInventoryLocked\<close>) and the
  transactions over them (\<open>DropItemToWorld\<close>, \<open>PickupWorldItem\<close>, \<open>ConsumeItem\<close>, the TTL
  sweep). Each SQL statement of the source is one \<open>query\<close>, \<open>exec\<close> or \<open>stmt\<close>. The lemmas
  give the exact effect of every operation on the rows, and the properties say that no
  sequence of these operations creates items.
\<close>

section \<open>Conditions\<close>

text \<open>\<open>CAST(ROUND(condition*100) AS INTEGER)\<close> of a REAL column: halves round away from zero,
  a value past 64 bits saturates; a NaN is NULL and equals no bucket.\<close>

fun sql_bucket :: "f64 \<Rightarrow> int option" where
  "sql_bucket c = (case mul64 c (Fin 100) of
     FNaN \<Rightarrow> None
   | FInf s \<Rightarrow> Some (if s then - (2 ^ 63) else 2 ^ 63 - 1)
   | Fin q \<Rightarrow> Some (sat64 (round_away q)))"

definition clamp_condition01 :: "f32 \<Rightarrow> f32" where
  "clamp_condition01 c =
     (if is_nan c \<or> flt c (Fin 0) then Fin 0 else if flt (Fin 1) c then Fin 1 else c)"

definition condition_bucket :: "f32 \<Rightarrow> u8" where
  "condition_bucket c = word_of_int (\<lfloor>fval (fround (mul64 (clamp_condition01 c) (Fin 100)))\<rfloor>)"

section \<open>Removal and credit inside a transaction\<close>

definition owned :: "string \<Rightarrow> string \<Rightarrow> inv_row \<Rightarrow> bool" where
  "owned uuid section r \<longleftrightarrow> r_uuid r = uuid \<and> r_section r = section"

definition preferred :: "int \<Rightarrow> inv_row \<Rightarrow> bool" where
  "preferred pb r \<longleftrightarrow> pb \<ge> 0 \<and> sql_bucket (r_condition r) = Some pb"

text \<open>The rows in the order of the query: preferred bucket first, then by id.\<close>

definition held_rows :: "string \<Rightarrow> string \<Rightarrow> int \<Rightarrow> database \<Rightarrow> inv_row list" where
  "held_rows uuid section pb d =
     (let rs = filter (owned uuid section) (d_inv d)
      in filter (preferred pb) rs @ filter (\<lambda>r. \<not> preferred pb r) rs)"

definition sql_delete_inv :: "int \<Rightarrow> database \<Rightarrow> database" where
  "sql_delete_inv i d = d\<lparr>d_inv := filter (\<lambda>r. r_id r \<noteq> i) (d_inv d)\<rparr>"

definition map_inv :: "int \<Rightarrow> (inv_row \<Rightarrow> inv_row) \<Rightarrow> database \<Rightarrow> database" where
  "map_inv i f d = d\<lparr>d_inv := map (\<lambda>r. if r_id r = i then f r else r) (d_inv d)\<rparr>"

fun remove_loop :: "inv_row list \<Rightarrow> int \<Rightarrow> f32 option \<Rightarrow> f32 tx" where
  "remove_loop [] remaining rc = ret (case rc of None \<Rightarrow> Fin 0 | Some c \<Rightarrow> c)"
| "remove_loop (r # rs) remaining rc =
     (if remaining \<le> 0 then ret (case rc of None \<Rightarrow> Fin 0 | Some c \<Rightarrow> c)
      else let take = (if r_count r > remaining then remaining else r_count r)
        in bind
          (if take = r_count r then exec (sql_delete_inv (r_id r))
           else exec (map_inv (r_id r) (\<lambda>x. x\<lparr>r_count := r_count x - take\<rparr>)))
          (\<lambda>_. remove_loop rs (remaining - take)
                 (case rc of None \<Rightarrow> Some (f32_of (r_condition r)) | Some c \<Rightarrow> Some c)))"

definition remove_inventory :: "string \<Rightarrow> string \<Rightarrow> int \<Rightarrow> int \<Rightarrow> (int \<times> f32) tx" where
  "remove_inventory uuid section count pb =
     bind (query (held_rows uuid section pb)) (\<lambda>held.
       let total = sum_list (map r_count held)
       in if total < count then fail (ErrInsufficientItems total)
          else bind (remove_loop held count None) (\<lambda>rc. ret (total, rc)))"

definition insert_inv :: "string \<Rightarrow> string \<Rightarrow> int \<Rightarrow> f64 \<Rightarrow> int \<Rightarrow> int \<Rightarrow> database \<Rightarrow> (gerr + unit) \<times> database" where
  "insert_inv uuid section count cond ammo slot d =
     (if d_chars d uuid = None then (Inl ErrSQL, d)
      else (Inr (), d\<lparr>d_inv := d_inv d @ [\<lparr>r_id = d_inv_next d, r_uuid = uuid, r_section = section,
               r_count = count, r_condition = cond, r_ammo = ammo, r_slot = slot\<rparr>],
             d_inv_next := d_inv_next d + 1\<rparr>))"

definition add_ammo :: "int \<Rightarrow> inv_row \<Rightarrow> inv_row" where
  "add_ammo count r = r\<lparr>r_ammo := min (r_ammo r + count) 65535\<rparr>"

definition add_count :: "int \<Rightarrow> inv_row \<Rightarrow> inv_row" where
  "add_count count r = r\<lparr>r_count := r_count r + count\<rparr>"

definition credit_inventory :: "string \<Rightarrow> string \<Rightarrow> int \<Rightarrow> u8 \<Rightarrow> unit tx" where
  "credit_inventory uuid section count bucket =
     bind (query (\<lambda>d. List.find (\<lambda>r. owned uuid section r \<and> sql_bucket (r_condition r) = Some (uint bucket)) (d_inv d)))
       (\<lambda>same. case same of
          Some r \<Rightarrow>
            if r_ammo r > 0 \<and> r_count r \<le> 1 then exec (map_inv (r_id r) (add_ammo count))
            else exec (map_inv (r_id r) (add_count count))
        | None \<Rightarrow>
            bind (query (\<lambda>d. List.find (\<lambda>r. owned uuid section r \<and> r_ammo r > 0 \<and> r_count r \<le> 1) (d_inv d)))
              (\<lambda>ammo. case ammo of
                 Some r \<Rightarrow> exec (map_inv (r_id r) (add_ammo count))
               | None \<Rightarrow> stmt (insert_inv uuid section count (rnd64 (of_int (uint bucket) / 100)) 0 (- 1))))"

section \<open>Transactions\<close>

definition insert_world :: "string \<Rightarrow> string \<Rightarrow> int \<Rightarrow> f32 \<times> f32 \<times> f32 \<Rightarrow> f32 \<Rightarrow> int \<Rightarrow> database \<Rightarrow> (gerr + int) \<times> database" where
  "insert_world level section count pos cond now d =
     (Inr (d_world_next d),
      d\<lparr>d_world := d_world d @ [\<lparr>w_id = d_world_next d, w_level = level, w_x = fst pos,
          w_y = fst (snd pos), w_z = snd (snd pos), w_section = section, w_count = count,
          w_condition = cond, w_created = now\<rparr>],
        d_world_next := d_world_next d + 1\<rparr>)"

definition drop_body :: "string \<Rightarrow> string \<Rightarrow> string \<Rightarrow> int \<Rightarrow> f32 \<times> f32 \<times> f32 \<Rightarrow> int \<Rightarrow> int \<Rightarrow> int \<Rightarrow> (int \<times> int \<times> f32) tx" where
  "drop_body uuid level section count pos pb max_per_level now =
     bind (if max_per_level > 0
           then bind (query (\<lambda>d. int (length (filter (\<lambda>w. w_level w = level) (d_world d)))))
                  (\<lambda>held. if held \<ge> max_per_level then fail ErrWorldItemLimit else ret ())
           else ret ())
       (\<lambda>_. bind (remove_inventory uuid section count pb)
         (\<lambda>(total, condition).
            bind (stmt (insert_world level section count pos (clamp_condition01 condition) now))
              (\<lambda>new_id. ret (new_id, total - count, condition))))"

definition drop_item_to_world :: "string \<Rightarrow> string \<Rightarrow> string \<Rightarrow> int \<Rightarrow> f32 \<times> f32 \<times> f32 \<Rightarrow> int \<Rightarrow> int \<Rightarrow> int \<Rightarrow> (int \<times> int \<times> f32) tx" where
  "drop_item_to_world uuid level section count pos pb max_per_level now =
     (if count \<le> 0 then fail (ErrInsufficientItems 0)
      else run_tx (drop_body uuid level section count pos pb max_per_level now))"

definition consume_item :: "string \<Rightarrow> string \<Rightarrow> int \<Rightarrow> int tx" where
  "consume_item uuid section count =
     (if count \<le> 0 then fail (ErrInsufficientItems 0)
      else run_tx (bind (remove_inventory uuid section count (- 1)) (\<lambda>(total, _). ret (total - count))))"

definition available_item_count :: "string \<Rightarrow> string \<Rightarrow> int tx" where
  "available_item_count uuid section =
     query (\<lambda>d. sum_list (map r_count (filter (owned uuid section) (d_inv d))))"

definition get_world_items_by_level :: "string \<Rightarrow> world_item list tx" where
  "get_world_items_by_level level = query (\<lambda>d. filter (\<lambda>w. w_level w = level) (d_world d))"

definition get_world_item :: "int \<Rightarrow> world_item tx" where
  "get_world_item i = bind (query (\<lambda>d. List.find (\<lambda>w. w_id w = i) (d_world d)))
     (\<lambda>w. case w of None \<Rightarrow> fail ErrWorldItemNotFound | Some w \<Rightarrow> ret w)"

definition delete_world :: "int \<Rightarrow> database \<Rightarrow> (gerr + nat) \<times> database" where
  "delete_world i d = (Inr (length (filter (\<lambda>w. w_id w = i) (d_world d))),
     d\<lparr>d_world := filter (\<lambda>w. w_id w \<noteq> i) (d_world d)\<rparr>)"

definition pickup_body :: "string \<Rightarrow> int \<Rightarrow> world_item tx" where
  "pickup_body uuid i =
     bind (query (\<lambda>d. List.find (\<lambda>w. w_id w = i) (d_world d))) (\<lambda>found. case found of
       None \<Rightarrow> fail ErrWorldItemNotFound
     | Some wi \<Rightarrow> bind (stmt (delete_world i)) (\<lambda>affected.
         if affected = 0 then fail ErrWorldItemNotFound
         else bind (credit_inventory uuid (w_section wi) (w_count wi) (condition_bucket (w_condition wi)))
                (\<lambda>_. ret wi)))"

definition pickup_world_item :: "string \<Rightarrow> int \<Rightarrow> world_item tx" where
  "pickup_world_item uuid i = run_tx (pickup_body uuid i)"

fun delete_all_world :: "world_item list \<Rightarrow> unit tx" where
  "delete_all_world [] = ret ()"
| "delete_all_world (w # ws) = bind (stmt (delete_world (w_id w))) (\<lambda>_. delete_all_world ws)"

definition delete_world_items_older_than :: "int \<Rightarrow> world_item list tx" where
  "delete_world_items_older_than cutoff = run_tx
     (bind (query (\<lambda>d. filter (\<lambda>w. w_created w \<le> cutoff) (d_world d)))
        (\<lambda>expired. if expired = [] then ret [] else bind (delete_all_world expired) (\<lambda>_. ret expired)))"

definition get_character_inventory :: "string \<Rightarrow> inv_row list tx" where
  "get_character_inventory uuid = query (\<lambda>d. filter (\<lambda>r. r_uuid r = uuid) (d_inv d))"

definition insert_audit :: "int \<Rightarrow> string \<Rightarrow> string \<Rightarrow> string \<Rightarrow> unit tx" where
  "insert_audit now uuid event detail =
     exec (\<lambda>d. d\<lparr>d_audit := d_audit d @ [\<lparr>au_time = now, au_uuid = uuid, au_event = event, au_detail = detail\<rparr>]\<rparr>)"

section \<open>The invariant and the item count\<close>

text \<open>Rows are in key order below the counters, stacks are positive, and every inventory row
  belongs to a character (the foreign key).\<close>

definition inv_ok :: "database \<Rightarrow> bool" where
  "inv_ok d \<longleftrightarrow> sorted_wrt (<) (map r_id (d_inv d)) \<and>
     (\<forall>r\<in>set (d_inv d). r_id r < d_inv_next d \<and> 1 \<le> r_count r \<and> d_chars d (r_uuid r) \<noteq> None)"

definition world_ok :: "database \<Rightarrow> bool" where
  "world_ok d \<longleftrightarrow> sorted_wrt (<) (map w_id (d_world d)) \<and>
     (\<forall>w\<in>set (d_world d). w_id w < d_world_next d \<and> 1 \<le> w_count w)"

definition rows_total :: "(inv_row \<Rightarrow> bool) \<Rightarrow> inv_row list \<Rightarrow> int" where
  "rows_total P rs = sum_list (map r_count (filter P rs))"

definition held_total :: "string \<Rightarrow> string \<Rightarrow> database \<Rightarrow> int" where
  "held_total uuid section d = rows_total (owned uuid section) (d_inv d)"

definition world_total :: "string \<Rightarrow> database \<Rightarrow> int" where
  "world_total section d = sum_list (map w_count (filter (\<lambda>w. w_section w = section) (d_world d)))"

definition stash_total :: "string \<Rightarrow> database \<Rightarrow> int" where
  "stash_total section d = sum_list (map (\<lambda>s. case s_contents s of
     JItems xs \<Rightarrow> sum_list (map si_count (filter (\<lambda>x. si_section x = section) xs)) | _ \<Rightarrow> 0) (d_stashes d))"

definition item_total :: "string \<Rightarrow> database \<Rightarrow> int" where
  "item_total section d = rows_total (\<lambda>r. r_section r = section) (d_inv d)
     + world_total section d + stash_total section d"

section \<open>Lemmas: rows\<close>

definition count_blind :: "(inv_row \<Rightarrow> bool) \<Rightarrow> bool" where
  "count_blind P \<longleftrightarrow> (\<forall>x n. P (x\<lparr>r_count := n\<rparr>) = P x \<and> P (x\<lparr>r_ammo := n\<rparr>) = P x)"

lemma count_blind_owned [simp]: "count_blind (owned u s)"
  and count_blind_section [simp]: "count_blind (\<lambda>r. r_section r = s)"
  and count_blind_uuid [simp]: "count_blind (\<lambda>r. r_uuid r = u)"
  by (simp_all add: count_blind_def owned_def)

lemma rows_total_simps [simp]:
  "rows_total P [] = 0"
  "rows_total P (r # rs) = (if P r then r_count r else 0) + rows_total P rs"
  "rows_total P (xs @ ys) = rows_total P xs + rows_total P ys"
  by (simp_all add: rows_total_def)

lemma sorted_ids_distinct: "sorted_wrt (<) (map f xs) \<Longrightarrow> distinct (map f (xs :: 'a list))"
  for f :: "'a \<Rightarrow> int"
  by (simp add: strict_sorted_iff)

lemma rows_total_delete:
  assumes "r \<in> set rs" "distinct (map r_id rs)"
  shows "rows_total P (filter (\<lambda>x. r_id x \<noteq> r_id r) rs) = rows_total P rs - (if P r then r_count r else 0)"
  using assms
proof (induction rs)
  case (Cons x xs)
  show ?case
  proof (cases "r_id x = r_id r")
    case True
    with Cons.prems have "x = r" and "r_id r \<notin> r_id ` set xs" by (auto simp: image_iff)
    then have "filter (\<lambda>x. r_id x \<noteq> r_id r) xs = xs" by (intro filter_True ballI) (metis imageI)
    with True \<open>x = r\<close> show ?thesis by simp
  next
    case False
    with Cons show ?thesis by auto
  qed
qed simp

lemma rows_total_update:
  assumes "r \<in> set rs" "distinct (map r_id rs)" "\<And>x. P (f x) = P x"
    and "r_count (f r) = r_count r + n"
  shows "rows_total P (map (\<lambda>x. if r_id x = r_id r then f x else x) rs) = rows_total P rs + (if P r then n else 0)"
  using assms(1,2)
proof (induction rs)
  case (Cons x xs)
  show ?case
  proof (cases "r_id x = r_id r")
    case True
    with Cons.prems have "x = r" and "r_id r \<notin> r_id ` set xs" by (auto simp: image_iff)
    then have "map (\<lambda>x. if r_id x = r_id r then f x else x) xs = xs" by (intro map_idI) (metis imageI)
    with True \<open>x = r\<close> show ?thesis by (simp add: assms(3,4))
  next
    case False
    with Cons show ?thesis by auto
  qed
qed simp

lemma filter_map_other:
  assumes "\<And>x. P (f x) = P x" "\<not> P r" "r \<in> set rs" "distinct (map r_id rs)"
  shows "filter P (map (\<lambda>x. if r_id x = r_id r then f x else x) rs) = filter P rs"
proof -
  have "\<not> P x" if "x \<in> set rs" "r_id x = r_id r" for x
    using that assms(2-) by (auto simp: distinct_map inj_on_def)
  then show ?thesis
    using assms(1) by (induction rs) auto
qed

lemma held_rows_set: "set (held_rows u s pb d) = {r \<in> set (d_inv d). owned u s r}"
  by (auto simp: held_rows_def Let_def)

lemma held_rows_total: "sum_list (map r_count (held_rows u s pb d)) = held_total u s d"
proof -
  have "sum_list (map r_count (filter P rs @ filter (\<lambda>r. \<not> P r) rs)) = sum_list (map r_count rs)"
    for P :: "inv_row \<Rightarrow> bool" and rs
    by (induction rs) auto
  then show ?thesis unfolding held_rows_def held_total_def rows_total_def Let_def .
qed

lemma held_rows_distinct: "inv_ok d \<Longrightarrow> distinct (map r_id (held_rows u s pb d))"
proof -
  assume "inv_ok d"
  then have "distinct (map r_id (filter (owned u s) (d_inv d)))"
    by (simp add: inv_ok_def sorted_ids_distinct distinct_map_filter)
  moreover have "distinct (map r_id (filter P rs @ filter (\<lambda>r. \<not> P r) rs))"
    if "distinct (map r_id rs)" for P :: "inv_row \<Rightarrow> bool" and rs
    using that by (auto simp: distinct_map_filter distinct_map inj_on_def)
  ultimately show ?thesis unfolding held_rows_def Let_def by blast
qed

lemma sorted_wrt_filter_map: "sorted_wrt R (map f xs) \<Longrightarrow> sorted_wrt R (map f (filter P xs))"
  by (induction xs) auto

section \<open>Lemmas: removal\<close>

definition only_inv :: "database \<Rightarrow> database \<Rightarrow> bool" where
  "only_inv d d' \<longleftrightarrow> (\<exists>rs. d' = d\<lparr>d_inv := rs\<rparr>)"

lemma only_inv_refl [simp]: "only_inv d d"
  unfolding only_inv_def by (rule exI [of _ "d_inv d"]) simp

lemma only_inv_trans: "only_inv d d' \<Longrightarrow> only_inv d' d'' \<Longrightarrow> only_inv d d''"
  by (auto simp: only_inv_def)

lemma only_inv_delete [simp]: "only_inv d (sql_delete_inv i d)"
  and only_inv_map [simp]: "only_inv d (map_inv i f d)"
  by (auto simp: only_inv_def sql_delete_inv_def map_inv_def)

lemma only_inv_frame:
  assumes "only_inv d d'"
  shows "d_inv_next d' = d_inv_next d" "d_world d' = d_world d" "d_world_next d' = d_world_next d"
    "d_stashes d' = d_stashes d" "d_stash_next d' = d_stash_next d" "d_chars d' = d_chars d"
    "d_audit d' = d_audit d"
  using assms by (auto simp: only_inv_def)

lemma inv_ok_delete: "inv_ok d \<Longrightarrow> inv_ok (sql_delete_inv i d)"
  by (auto simp: inv_ok_def sql_delete_inv_def sorted_wrt_filter_map)

lemma inv_ok_map:
  assumes "inv_ok d" "\<And>x. r_id (f x) = r_id x" "\<And>x. r_uuid (f x) = r_uuid x"
    and "\<And>x. x \<in> set (d_inv d) \<Longrightarrow> r_id x = i \<Longrightarrow> 1 \<le> r_count (f x)"
  shows "inv_ok (map_inv i f d)"
proof -
  have "r_id \<circ> (\<lambda>r. if r_id r = i then f r else r) = r_id"
    using assms(2) by auto
  with assms show ?thesis by (auto simp: inv_ok_def map_inv_def)
qed

lemma inv_ok_row_unique:
  "inv_ok d \<Longrightarrow> r \<in> set (d_inv d) \<Longrightarrow> x \<in> set (d_inv d) \<Longrightarrow> r_id x = r_id r \<Longrightarrow> x = r"
  using sorted_ids_distinct [of r_id "d_inv d"] by (auto simp: inv_ok_def distinct_map inj_on_def)

text \<open>One pass of the removal loop: it takes exactly \<open>n\<close> copies out of the given rows, keeps
  the invariant, and touches no other row.\<close>

lemma remove_loop_zero: "remove_loop rs 0 rc = ret (case rc of None \<Rightarrow> Fin 0 | Some c \<Rightarrow> c)"
  by (cases rs) auto

lemma remove_loop_spec:
  assumes "remove_loop rs n rc d fl = (Inr c, d', fl')"
    and "inv_ok d" "set rs \<subseteq> set (d_inv d)" "distinct (map r_id rs)"
    and "0 \<le> n" "n \<le> sum_list (map r_count rs)"
  shows "inv_ok d' \<and> only_inv d d' \<and>
    (\<forall>P. count_blind P \<longrightarrow>
       ((\<forall>r\<in>set rs. P r) \<longrightarrow> rows_total P (d_inv d') = rows_total P (d_inv d) - n) \<and>
       ((\<forall>r\<in>set rs. \<not> P r) \<longrightarrow> filter P (d_inv d') = filter P (d_inv d)))"
  using assms
proof (induction rs arbitrary: n rc d fl)
  case Nil
  then show ?case by simp
next
  case (Cons r rs)
  show ?case
  proof (cases "n = 0")
    case True
    with Cons.prems show ?thesis by (simp add: remove_loop_zero del: remove_loop.simps)
  next
    case False
    with Cons.prems have n: "0 < n" by simp
    have r: "r \<in> set (d_inv d)" "1 \<le> r_count r" using Cons.prems(2,3) by (auto simp: inv_ok_def)
    have dist: "distinct (map r_id (d_inv d))"
      using Cons.prems(2) by (auto simp: inv_ok_def intro: sorted_ids_distinct)
    let ?rc = "Some (case rc of None \<Rightarrow> f32_of (r_condition r) | Some c \<Rightarrow> c)"
    show ?thesis
    proof (cases "r_count r > n")
      case True
      let ?f = "\<lambda>x. x\<lparr>r_count := r_count x - n\<rparr>"
      have d': "d' = map_inv (r_id r) ?f d"
        using Cons.prems(1) True n
        by (auto simp: Let_def bind_Inr exec_Inr remove_loop_zero)
      have ok: "inv_ok d'" unfolding d'
        using True r Cons.prems(2)
        by (intro inv_ok_map) (auto dest!: inv_ok_row_unique [OF Cons.prems(2) r(1)])
      have tot: "rows_total P (d_inv d') = rows_total P (d_inv d) - n" if "count_blind P" "P r" for P
        using rows_total_update [OF r(1) dist, of P ?f "- n"] that
        by (simp add: d' map_inv_def count_blind_def)
      have fil: "filter P (d_inv d') = filter P (d_inv d)" if "count_blind P" "\<not> P r" for P
        using filter_map_other [of P ?f r, OF _ that(2) r(1) dist] that(1)
        by (simp add: d' map_inv_def count_blind_def)
      show ?thesis using ok tot fil by (simp add: d')
    next
      case False
      define d1 where "d1 = sql_delete_inv (r_id r) d"
      from Cons.prems(1) False n obtain fl1 where
        rest: "remove_loop rs (n - r_count r) ?rc d1 fl1 = (Inr c, d', fl')"
        by (auto simp: Let_def bind_Inr exec_Inr d1_def option.case_distrib [of Some] cong: option.case_cong)
      have sub: "set rs \<subseteq> set (d_inv d1)"
        using Cons.prems(3,4) by (auto simp: d1_def sql_delete_inv_def image_iff)
      have IH: "inv_ok d' \<and> only_inv d1 d' \<and>
        (\<forall>P. count_blind P \<longrightarrow>
           ((\<forall>r\<in>set rs. P r) \<longrightarrow> rows_total P (d_inv d') = rows_total P (d_inv d1) - (n - r_count r)) \<and>
           ((\<forall>r\<in>set rs. \<not> P r) \<longrightarrow> filter P (d_inv d') = filter P (d_inv d1)))"
        using Cons.prems False sub by (intro Cons.IH [OF rest]) (auto simp: d1_def inv_ok_delete)
      have tot: "rows_total P (d_inv d1) = rows_total P (d_inv d) - r_count r" if "P r" for P
        using rows_total_delete [OF r(1) dist, of P] that by (simp add: d1_def sql_delete_inv_def)
      have fil: "filter P (d_inv d1) = filter P (d_inv d)" if "\<not> P r" for P
        using that inv_ok_row_unique [OF Cons.prems(2) r(1)]
        by (auto simp: d1_def sql_delete_inv_def intro!: filter_cong)
      show ?thesis using IH tot fil only_inv_trans [of d d1 d'] by (simp add: d1_def)
    qed
  qed
qed

lemma remove_inventory_spec:
  assumes "remove_inventory u s n pb d fl = (Inr (tot, c), d', fl')" "inv_ok d" "0 \<le> n"
  shows "tot = held_total u s d" "n \<le> tot" "inv_ok d'" "only_inv d d'"
    "held_total u s d' = held_total u s d - n"
    "rows_total (\<lambda>r. r_section r = s) (d_inv d') = rows_total (\<lambda>r. r_section r = s) (d_inv d) - n"
    "count_blind P \<Longrightarrow> (\<And>r. P r \<Longrightarrow> \<not> owned u s r) \<Longrightarrow> filter P (d_inv d') = filter P (d_inv d)"
proof -
  from assms(1) obtain fl1 fl2 where
    loop: "remove_loop (held_rows u s pb d) n None d fl1 = (Inr c, d', fl2)"
    and t: "tot = held_total u s d" "n \<le> tot"
    by (auto simp: remove_inventory_def tx_Inr Let_def held_rows_total split: if_splits)
  have "n \<le> sum_list (map r_count (held_rows u s pb d))" using t by (simp add: held_rows_total)
  from remove_loop_spec [OF loop assms(2) _ held_rows_distinct [OF assms(2)] assms(3) this]
  have spec: "inv_ok d' \<and> only_inv d d' \<and>
    (\<forall>P. count_blind P \<longrightarrow>
       ((\<forall>r\<in>set (held_rows u s pb d). P r) \<longrightarrow> rows_total P (d_inv d') = rows_total P (d_inv d) - n) \<and>
       ((\<forall>r\<in>set (held_rows u s pb d). \<not> P r) \<longrightarrow> filter P (d_inv d') = filter P (d_inv d)))"
    by (simp add: held_rows_set subset_iff)
  show "tot = held_total u s d" "n \<le> tot" "inv_ok d'" "only_inv d d'"
    using t spec by auto
  show "held_total u s d' = held_total u s d - n"
    using spec [THEN conjunct2, THEN conjunct2, rule_format, of "owned u s"]
    by (simp add: held_rows_set held_total_def)
  show "rows_total (\<lambda>r. r_section r = s) (d_inv d') = rows_total (\<lambda>r. r_section r = s) (d_inv d) - n"
    using spec [THEN conjunct2, THEN conjunct2, rule_format, of "\<lambda>r. r_section r = s"]
    by (simp add: held_rows_set owned_def)
  show "filter P (d_inv d') = filter P (d_inv d)" if "count_blind P" "\<And>r. P r \<Longrightarrow> \<not> owned u s r"
    using spec [THEN conjunct2, THEN conjunct2, rule_format, OF that(1)] that(2)
    by (auto simp: held_rows_set)
qed

section \<open>Lemmas: credit\<close>

definition only_inv_ids :: "database \<Rightarrow> database \<Rightarrow> bool" where
  "only_inv_ids d d' \<longleftrightarrow> (\<exists>rs n. d' = d\<lparr>d_inv := rs, d_inv_next := n\<rparr>)"

lemma only_inv_ids_frame:
  assumes "only_inv_ids d d'"
  shows "d_world d' = d_world d" "d_world_next d' = d_world_next d" "d_stashes d' = d_stashes d"
    "d_stash_next d' = d_stash_next d" "d_chars d' = d_chars d" "d_audit d' = d_audit d"
  using assms by (auto simp: only_inv_ids_def)

lemma only_inv_ids_map [simp]: "only_inv_ids d (map_inv i f d)"
  unfolding only_inv_ids_def map_inv_def
  by (rule exI [of _ "map (\<lambda>r. if r_id r = i then f r else r) (d_inv d)"], rule exI [of _ "d_inv_next d"]) simp

lemma find_SomeD: "List.find P xs = Some x \<Longrightarrow> x \<in> set xs \<and> P x"
  by (auto simp: find_Some_iff)

lemma map_inv_total:
  assumes "inv_ok d" "r \<in> set (d_inv d)" "\<And>x. P (f x) = P x" "r_count (f r) = r_count r + n"
  shows "rows_total P (d_inv (map_inv (r_id r) f d)) = rows_total P (d_inv d) + (if P r then n else 0)"
  using rows_total_update [of r "d_inv d" P f n] assms
  by (auto simp: map_inv_def inv_ok_def sorted_ids_distinct)

lemma map_inv_other:
  assumes "inv_ok d" "r \<in> set (d_inv d)" "\<And>x. P (f x) = P x" "\<not> P r"
  shows "filter P (d_inv (map_inv (r_id r) f d)) = filter P (d_inv d)"
  using filter_map_other [of P f r "d_inv d"] assms
  by (auto simp: map_inv_def inv_ok_def sorted_ids_distinct)

lemma credit_key_preds [simp]:
  "count_blind P \<Longrightarrow> P (add_ammo n x) = P x" "count_blind P \<Longrightarrow> P (add_count n x) = P x"
  by (simp_all add: count_blind_def add_ammo_def add_count_def)

lemma add_fields [simp]:
  "r_count (add_ammo n x) = r_count x" "r_id (add_ammo n x) = r_id x" "r_uuid (add_ammo n x) = r_uuid x"
  "r_count (add_count n x) = r_count x + n" "r_id (add_count n x) = r_id x" "r_uuid (add_count n x) = r_uuid x"
  by (simp_all add: add_ammo_def add_count_def)

text \<open>What a credit of \<open>n\<close> copies may do: \<open>k\<close> is the number of copies that appear as items,
  all of them or, when the section is carried as loaded rounds, none.\<close>

definition credited :: "string \<Rightarrow> string \<Rightarrow> int \<Rightarrow> int \<Rightarrow> database \<Rightarrow> database \<Rightarrow> bool" where
  "credited u s n k d d' \<longleftrightarrow> inv_ok d' \<and> only_inv_ids d d' \<and> (k = n \<or> k = 0) \<and>
     (\<forall>P. count_blind P \<longrightarrow>
        ((\<forall>r. owned u s r \<longrightarrow> P r) \<longrightarrow> rows_total P (d_inv d') = rows_total P (d_inv d) + k) \<and>
        ((\<forall>r. owned u s r \<longrightarrow> \<not> P r) \<longrightarrow> filter P (d_inv d') = filter P (d_inv d)))"

lemma credited_map:
  assumes "inv_ok d" "r \<in> set (d_inv d)" "owned u s r" "k = n \<or> k = 0" "0 \<le> k"
    and "\<And>P x. count_blind P \<Longrightarrow> P (f x) = P x" "\<And>x. r_count (f x) = r_count x + k"
    and "\<And>x. r_id (f x) = r_id x" "\<And>x. r_uuid (f x) = r_uuid x"
  shows "credited u s n k d (map_inv (r_id r) f d)"
  unfolding credited_def
proof (intro conjI allI impI)
  show "inv_ok (map_inv (r_id r) f d)"
    using assms by (intro inv_ok_map) (auto simp: inv_ok_def)
  fix P assume P: "count_blind P"
  show "rows_total P (d_inv (map_inv (r_id r) f d)) = rows_total P (d_inv d) + k"
    if "\<forall>r. owned u s r \<longrightarrow> P r"
    using map_inv_total [OF assms(1,2), of P f k] assms(3,6,7) P that by simp
  show "filter P (d_inv (map_inv (r_id r) f d)) = filter P (d_inv d)"
    if "\<forall>r. owned u s r \<longrightarrow> \<not> P r"
    using map_inv_other [OF assms(1,2), of P f] assms(3,6) P that by simp
qed (use assms(4) in simp_all)

lemma inv_ok_snoc:
  assumes "inv_ok d" "1 \<le> n" "d_chars d u \<noteq> None" "r_id r = d_inv_next d" "r_count r = n" "r_uuid r = u"
  shows "inv_ok (d\<lparr>d_inv := d_inv d @ [r], d_inv_next := d_inv_next d + 1\<rparr>)"
  using assms by (fastforce simp: inv_ok_def sorted_wrt_append)

text \<open>A section carried as loaded rounds: one of the owner's rows takes \<open>n\<close> more rounds, at most 65535.\<close>

definition rounds_loaded :: "string \<Rightarrow> string \<Rightarrow> int \<Rightarrow> inv_row list \<Rightarrow> inv_row list \<Rightarrow> bool" where
  "rounds_loaded u s n rs rs' \<longleftrightarrow> (\<exists>r\<in>set rs. owned u s r \<and> 0 < r_ammo r \<and> r_count r \<le> 1 \<and>
     rs' = map (\<lambda>x. if r_id x = r_id r then x\<lparr>r_ammo := min (r_ammo x + n) 65535\<rparr> else x) rs)"

lemma credit_inventory_exact:
  assumes "credit_inventory u s n b d fl = (Inr x, d', fl')" "inv_ok d" "1 \<le> n"
  shows "\<exists>k. credited u s n k d d' \<and> (k = n \<or> rounds_loaded u s n (d_inv d) (d_inv d'))"
proof -
  have ammo: "credited u s n 0 d (map_inv (r_id r) (add_ammo n) d) \<and> rounds_loaded u s n (d_inv d) (d_inv (map_inv (r_id r) (add_ammo n) d))"
    if "r \<in> set (d_inv d)" "owned u s r" "0 < r_ammo r" "r_count r \<le> 1" for r
  proof
    show "credited u s n 0 d (map_inv (r_id r) (add_ammo n) d)" using that assms by (intro credited_map) auto
    show "rounds_loaded u s n (d_inv d) (d_inv (map_inv (r_id r) (add_ammo n) d))"
      using that unfolding rounds_loaded_def map_inv_def add_ammo_def by auto
  qed
  have stack: "credited u s n n d (map_inv (r_id r) (add_count n) d)"
    if "r \<in> set (d_inv d)" "owned u s r" for r
    using that assms by (intro credited_map) auto
  have ins: "credited u s n n d d'" if "insert_inv u s n c 0 (- 1) d = (Inr (), d')" for c
  proof -
    let ?r = "\<lparr>r_id = d_inv_next d, r_uuid = u, r_section = s, r_count = n, r_condition = c,
               r_ammo = 0, r_slot = - 1\<rparr>"
    from that have c: "d_chars d u \<noteq> None"
      and d': "d' = d\<lparr>d_inv := d_inv d @ [?r], d_inv_next := d_inv_next d + 1\<rparr>"
      by (auto simp: insert_inv_def split: if_splits)
    have own: "owned u s ?r" by (simp add: owned_def)
    have "only_inv_ids d d'" by (auto simp: only_inv_ids_def d')
    with own inv_ok_snoc [OF assms(2,3) c, of ?r] show ?thesis
      by (auto simp: credited_def d')
  qed
  from assms(1) show ?thesis
    using ammo stack ins
    by (auto simp: credit_inventory_def tx_Inr split: option.splits if_splits dest!: find_SomeD)
qed

lemma credit_inventory_spec:
  "credit_inventory u s n b d fl = (Inr x, d', fl') \<Longrightarrow> inv_ok d \<Longrightarrow> 1 \<le> n \<Longrightarrow> \<exists>k. credited u s n k d d'"
  using credit_inventory_exact by blast

section \<open>Lemmas: transactions\<close>

lemma drop_success:
  assumes "drop_item_to_world u level s n pos pb cap now d fl = (Inr (i, rem, c), d', fl')" "inv_ok d"
  shows "\<exists>d1. 1 \<le> n \<and> n \<le> held_total u s d \<and> rem = held_total u s d - n \<and> i = d_world_next d \<and>
     inv_ok d1 \<and> only_inv d d1 \<and> held_total u s d1 = held_total u s d - n \<and>
     rows_total (\<lambda>r. r_section r = s) (d_inv d1) = rows_total (\<lambda>r. r_section r = s) (d_inv d) - n \<and>
     (\<forall>P. count_blind P \<longrightarrow> (\<forall>r. P r \<longrightarrow> \<not> owned u s r) \<longrightarrow> filter P (d_inv d1) = filter P (d_inv d)) \<and>
     d' = snd (insert_world level s n pos (clamp_condition01 c) now d1) \<and>
     (0 < cap \<longrightarrow> int (length (filter (\<lambda>w. w_level w = level) (d_world d))) < cap)"
proof -
  from assms(1) have n: "1 \<le> n" by (auto simp: drop_item_to_world_def split: if_splits)
  from assms(1) n obtain fl0 fl1 where
    "drop_body u level s n pos pb cap now d fl0 = (Inr (i, rem, c), d', fl1)"
    by (auto simp: drop_item_to_world_def dest!: run_tx_Inr)
  then obtain d0 fl2 tot d1 fl3 where
    cap: "d0 = d" "0 < cap \<longrightarrow> int (length (filter (\<lambda>w. w_level w = level) (d_world d))) < cap"
    and rm: "remove_inventory u s n pb d0 fl2 = (Inr (tot, c), d1, fl3)"
    and rest: "insert_world level s n pos (clamp_condition01 c) now d1 = (Inr i, d')" "rem = tot - n"
    by (auto simp: drop_body_def tx_Inr split: if_splits)
  note spec = remove_inventory_spec [OF rm [unfolded cap(1)] assms(2)]
  show ?thesis
    using n cap(2) spec rest only_inv_frame(3) [of d d1]
    by (intro exI [of _ d1]) (auto simp: insert_world_def)
qed

lemma world_ok_insert:
  assumes "world_ok d" "1 \<le> n"
  shows "world_ok (snd (insert_world level s n pos c now d))"
  using assms by (fastforce simp: world_ok_def insert_world_def sorted_wrt_append)

lemma world_total_insert:
  "world_total s (snd (insert_world level s n pos c now d)) = world_total s d + n"
  "s' \<noteq> s \<Longrightarrow> world_total s' (snd (insert_world level s n pos c now d)) = world_total s' d"
  by (simp_all add: world_total_def insert_world_def)

lemma insert_world_frame [simp]:
  "d_inv (snd (insert_world level s n pos c now d)) = d_inv d"
  "d_inv_next (snd (insert_world level s n pos c now d)) = d_inv_next d"
  "d_stashes (snd (insert_world level s n pos c now d)) = d_stashes d"
  "d_chars (snd (insert_world level s n pos c now d)) = d_chars d"
  by (simp_all add: insert_world_def)

lemma filter_rows_total: "filter P rs = filter P rs' \<Longrightarrow> rows_total P rs = rows_total P rs'"
  by (simp add: rows_total_def)

lemma world_total_delete:
  assumes "world_ok d" "w \<in> set (d_world d)"
  shows "world_total s (d\<lparr>d_world := filter (\<lambda>x. w_id x \<noteq> w_id w) (d_world d)\<rparr>) =
    world_total s d - (if w_section w = s then w_count w else 0)"
proof -
  have "sum_list (map w_count (filter P (filter (\<lambda>x. w_id x \<noteq> w_id w) ws))) =
      sum_list (map w_count (filter P ws)) - (if P w then w_count w else 0)"
    if "distinct (map w_id ws)" "w \<in> set ws" for ws and P :: "world_item \<Rightarrow> bool"
    using that
  proof (induction ws)
    case (Cons x xs)
    show ?case
    proof (cases "w_id x = w_id w")
      case True
      with Cons.prems have "x = w" and "w_id w \<notin> w_id ` set xs" by (auto simp: image_iff)
      then have "filter (\<lambda>x. w_id x \<noteq> w_id w) xs = xs" by (intro filter_True ballI) (metis imageI)
      with True \<open>x = w\<close> show ?thesis by (simp del: filter_filter)
    next
      case False
      with Cons show ?thesis by (auto simp del: filter_filter)
    qed
  qed simp
  from this [of "d_world d" "\<lambda>w. w_section w = s"] assms show ?thesis
    by (simp add: world_total_def world_ok_def sorted_ids_distinct del: filter_filter)
qed

lemma pickup_success:
  assumes "pickup_world_item u i d fl = (Inr wi, d', fl')" "inv_ok d" "world_ok d"
  shows "\<exists>d1 k. wi \<in> set (d_world d) \<and> w_id wi = i \<and>
     d1 = d\<lparr>d_world := filter (\<lambda>x. w_id x \<noteq> i) (d_world d)\<rparr> \<and>
     credited u (w_section wi) (w_count wi) k d1 d'"
proof -
  from assms(1) obtain fl0 fl1 where "pickup_body u i d fl0 = (Inr wi, d', fl1)"
    by (auto simp: pickup_world_item_def dest!: run_tx_Inr)
  then obtain fl2 fl3 d1 where w: "wi \<in> set (d_world d)" "w_id wi = i"
    and d1: "d1 = d\<lparr>d_world := filter (\<lambda>x. w_id x \<noteq> i) (d_world d)\<rparr>"
    and cr: "credit_inventory u (w_section wi) (w_count wi) (condition_bucket (w_condition wi)) d1 fl2 = (Inr (), d', fl3)"
    by (auto simp: pickup_body_def tx_Inr delete_world_def split: option.splits if_splits dest!: find_SomeD)
  have ok: "inv_ok d1" using assms(2) by (simp add: d1 inv_ok_def)
  have "1 \<le> w_count wi" using assms(3) w by (auto simp: world_ok_def)
  from credit_inventory_spec [OF cr ok this] w d1 show ?thesis by blast
qed

lemma credited_item_total:
  assumes "credited u s n k d d'"
  shows "item_total s d' = item_total s d + k" "s' \<noteq> s \<Longrightarrow> item_total s' d' = item_total s' d"
proof -
  note frame = only_inv_ids_frame [of d d']
  from assms have f: "only_inv_ids d d'" by (simp add: credited_def)
  show "item_total s d' = item_total s d + k"
    using assms frame [OF f]
    by (auto simp: credited_def item_total_def world_total_def stash_total_def owned_def)
  assume "s' \<noteq> s"
  then have "filter (\<lambda>r. r_section r = s') (d_inv d') = filter (\<lambda>r. r_section r = s') (d_inv d)"
    using assms by (auto simp: credited_def owned_def)
  then show "item_total s' d' = item_total s' d"
    using frame [OF f] by (simp add: item_total_def rows_total_def world_total_def stash_total_def)
qed

lemma bucket_of_close:
  assumes "0 \<le> q" "q \<le> 1" "\<bar>q - of_int n / 100\<bar> \<le> 2 * pow2 (- 24)" "0 \<le> n" "n \<le> 100"
  shows "sql_bucket (Fin q) = Some n" "condition_bucket (Fin q) = word_of_int n"
proof -
  from times_100_close [OF assms(1-3)] obtain r where
    r: "mul64 (Fin q) (Fin 100) = Fin r" "\<bar>r - of_int n\<bar> < 1 / 2" by blast
  from round_away_close [OF r(2)] have n: "round_away r = n" .
  show "sql_bucket (Fin q) = Some n"
    unfolding sql_bucket.simps r(1) using n assms by (simp add: sat64_def)
  have "clamp_condition01 (Fin q) = Fin q"
    using assms by (auto simp: clamp_condition01_def)
  then show "condition_bucket (Fin q) = word_of_int n"
    unfolding condition_bucket_def by (simp only: r(1) fround.simps n fval.simps floor_of_int)
qed

section \<open>Frame: item transactions and the other tables\<close>

text \<open>The tables an item transaction never writes: characters (wallets) and, for the inventory and
  world operations, the stashes.\<close>

definition same_others :: "database \<Rightarrow> database \<Rightarrow> bool" where
  "same_others d d' \<longleftrightarrow> d_chars d' = d_chars d \<and> d_stashes d' = d_stashes d \<and>
     d_stash_next d' = d_stash_next d \<and> d_audit d' = d_audit d"

interpretation others: tx_rel same_others
  by unfold_locales (auto simp: same_others_def)

lemma same_others_ops [simp]:
  "same_others d (sql_delete_inv i d)" "same_others d (map_inv i f d)"
  "same_others d (snd (insert_inv u s n c a sl d))" "same_others d (snd (insert_world l s n p w now d))"
  "same_others d (snd (delete_world i d))"
  by (simp_all add: same_others_def sql_delete_inv_def map_inv_def insert_inv_def insert_world_def delete_world_def)

lemma keeps_remove_loop: "others.keeps (remove_loop rs n rc)"
  by (induction rs arbitrary: n rc)
     (auto simp: Let_def intro!: others.keeps_bind others.keeps_ret others.keeps_exec)

lemma keeps_remove_inventory: "others.keeps (remove_inventory u s n pb)"
  unfolding remove_inventory_def Let_def
  by (intro others.keeps_bind others.keeps_query keeps_remove_loop others.keeps_ret)
     (auto intro: others.keeps_fail others.keeps_bind others.keeps_ret keeps_remove_loop)

lemma keeps_credit_inventory: "others.keeps (credit_inventory u s n b)"
  unfolding credit_inventory_def
  by (intro others.keeps_bind others.keeps_query)
     (auto split: option.splits intro!: others.keeps_exec others.keeps_bind others.keeps_query others.keeps_stmt)

lemma keeps_drop: "others.keeps (drop_item_to_world u l s n pos pb cap now)"
proof -
  have "others.keeps (drop_body u l s n pos pb cap now)"
    unfolding drop_body_def
    by (auto intro!: others.keeps_rules keeps_remove_inventory)
  then show ?thesis
    by (auto simp: drop_item_to_world_def intro: others.keeps_fail others.keeps_run)
qed

lemma keeps_pickup: "others.keeps (pickup_world_item u i)"
  unfolding pickup_world_item_def pickup_body_def
  by (intro others.keeps_run others.keeps_bind others.keeps_query)
     (auto split: option.splits intro!: others.keeps_rules keeps_credit_inventory)

lemma keeps_consume: "others.keeps (consume_item u s n)"
  unfolding consume_item_def
  by (auto intro!: others.keeps_rules keeps_remove_inventory)

lemmas keeps_inventory = keeps_remove_inventory keeps_credit_inventory keeps_drop keeps_pickup keeps_consume

section \<open>Properties\<close>

text \<open>C15: Dropping moves items and never makes any. When DropItemToWorld succeeds, the character
  held enough, exactly \<open>n\<close> copies left its stacks (the returned remainder is what it still
  holds), the world gained one stack of \<open>n\<close>, the number of items of the section over
  inventories, world and stashes is what it was, and no row of another character or section
  changed. When it fails, at whatever statement, nothing changed.\<close>

theorem drop_conserves:
  assumes "inv_ok d" and "drop_item_to_world u level s n pos pb cap now d fl = (r, d', fl')"
  shows "case r of
      Inl e \<Rightarrow> d' = d
    | Inr (i, rem, c) \<Rightarrow>
        1 \<le> n \<and> n \<le> held_total u s d \<and> held_total u s d' = held_total u s d - n \<and> rem = held_total u s d' \<and>
        world_total s d' = world_total s d + n \<and> item_total s d' = item_total s d \<and> inv_ok d' \<and>
        (\<forall>u' s'. (u', s') \<noteq> (u, s) \<longrightarrow> filter (owned u' s') (d_inv d') = filter (owned u' s') (d_inv d))"
proof (cases r)
  case (Inl e)
  with assms(2) have "d' = d"
    by (auto simp: drop_item_to_world_def fail_def dest: run_tx_atomic split: if_splits)
  with Inl show ?thesis by simp
next
  case (Inr x)
  then obtain i rem c where r: "r = Inr (i, rem, c)" by (cases x) auto
  from drop_success [OF assms(2) [unfolded r] assms(1)] obtain d1 where d1:
    "1 \<le> n" "n \<le> held_total u s d" "rem = held_total u s d - n" "inv_ok d1" "only_inv d d1"
    "held_total u s d1 = held_total u s d - n"
    "rows_total (\<lambda>r. r_section r = s) (d_inv d1) = rows_total (\<lambda>r. r_section r = s) (d_inv d) - n"
    "\<forall>P. count_blind P \<longrightarrow> (\<forall>r. P r \<longrightarrow> \<not> owned u s r) \<longrightarrow> filter P (d_inv d1) = filter P (d_inv d)"
    "d' = snd (insert_world level s n pos (clamp_condition01 c) now d1)" by blast
  note frame = only_inv_frame [OF d1(5)]
  have w: "world_total s d' = world_total s d + n"
    unfolding d1(9) world_total_insert by (simp add: world_total_def frame)
  have "filter (owned u' s') (d_inv d') = filter (owned u' s') (d_inv d)" if "(u', s') \<noteq> (u, s)" for u' s'
  proof -
    have "filter (owned u' s') (d_inv d1) = filter (owned u' s') (d_inv d)"
      using that by (intro d1(8) [rule_format]) (auto simp: owned_def)
    then show ?thesis by (simp add: d1(9))
  qed
  with d1 w show ?thesis unfolding r
    by (auto simp: item_total_def held_total_def stash_total_def frame inv_ok_def)
qed

definition demo_char :: char_row where
  "demo_char = \<lparr>c_level = ''l01_escape'', c_pos = (Fin 0, Fin 0, Fin 0), c_yaw = Fin 0, c_faction = ''stalker'',
     c_health = Fin 100, c_economy_tier = 1, c_rubles = 5000, c_play_time = 0, c_profile_rev = 1, c_dead = 0, c_created = 0, c_updated = 0\<rparr>"

definition demo_row :: "int \<Rightarrow> int \<Rightarrow> f64 \<Rightarrow> inv_row" where
  "demo_row i n c = \<lparr>r_id = i, r_uuid = ''u1'', r_section = ''bread'', r_count = n, r_condition = c,
     r_ammo = 0, r_slot = - 1\<rparr>"

definition demo_db :: "inv_row list \<Rightarrow> database" where
  "demo_db rs = \<lparr>d_inv = rs, d_inv_next = 10, d_world = [], d_world_next = 1, d_stashes = [],
     d_stash_next = 1, d_chars = (\<lambda>u. if u = ''u1'' then Some demo_char else None), d_audit = [],
     d_accounts = [\<lparr>a_uuid = ''u1'', a_hwid = '''', a_nickname = ''Stalker'', a_banned = 0, a_ban_reason = None,
       a_created = 0, a_last_seen = 0\<rparr>]\<rparr>"

lemma demo_db_ok: "inv_ok (demo_db [demo_row 1 30 (Fin 1)])"
  by (simp add: inv_ok_def demo_db_def demo_row_def)

lemmas demo_simps = drop_item_to_world_def run_tx_def drop_body_def remove_inventory_def held_rows_def
  owned_def preferred_def tx_defs Let_def sql_delete_inv_def map_inv_def insert_world_def
  clamp_condition01_def demo_db_def demo_row_def

theorem drop_conserves_witness:
  "\<exists>i rem c d'. drop_item_to_world ''u1'' ''l01_escape'' ''bread'' 12 (Fin 0, Fin 0, Fin 0) (- 1) 500 0
       (demo_db [demo_row 1 30 (Fin 1)]) [] = (Inr (i, rem, c), d', []) \<and> rem = 18 \<and> held_total ''u1'' ''bread'' d' = 18"
proof -
  obtain r d' fl' where e: "drop_item_to_world ''u1'' ''l01_escape'' ''bread'' 12 (Fin 0, Fin 0, Fin 0) (- 1) 500 0
       (demo_db [demo_row 1 30 (Fin 1)]) [] = (r, d', fl')" by (metis prod.exhaust)
  have c: "fl' = []" "r = Inr (1, 18, Fin 1)"
    using e by (auto simp: demo_simps)
  show ?thesis
    using drop_conserves [OF demo_db_ok e] e unfolding c
    by (auto simp: held_total_def demo_db_def demo_row_def owned_def)
qed

text \<open>Picking up moves items and never makes any. When PickupWorldItem succeeds the world row is
  gone and its stack went to the picker: the item count of its section is unchanged, or smaller
  by the stack when it was loaded as rounds into an ammo-bearing row; nothing of another section
  or another character changed. When it fails nothing changed.\<close>

theorem pickup_no_dupe:
  assumes "inv_ok d" and "world_ok d" and "pickup_world_item u i d fl = (r, d', fl')"
  shows "case r of
      Inl e \<Rightarrow> d' = d
    | Inr wi \<Rightarrow> wi \<in> set (d_world d) \<and> w_id wi = i \<and> i \<notin> w_id ` set (d_world d') \<and> inv_ok d' \<and>
        (item_total (w_section wi) d' = item_total (w_section wi) d \<or>
         item_total (w_section wi) d' = item_total (w_section wi) d - w_count wi) \<and>
        (\<forall>s. s \<noteq> w_section wi \<longrightarrow> item_total s d' = item_total s d) \<and>
        (\<forall>u' s'. (u', s') \<noteq> (u, w_section wi) \<longrightarrow>
           filter (owned u' s') (d_inv d') = filter (owned u' s') (d_inv d))"
proof (cases r)
  case (Inl e)
  with assms(3) have "d' = d" by (auto simp: pickup_world_item_def dest: run_tx_atomic)
  with Inl show ?thesis by simp
next
  case (Inr wi)
  let ?d1 = "d\<lparr>d_world := filter (\<lambda>x. w_id x \<noteq> i) (d_world d)\<rparr>"
  from pickup_success [OF assms(3) [unfolded Inr] assms(1,2)] obtain k where
    wi: "wi \<in> set (d_world d)" "w_id wi = i" and cr: "credited u (w_section wi) (w_count wi) k ?d1 d'"
    by auto
  have tot: "item_total s ?d1 = item_total s d - (if w_section wi = s then w_count wi else 0)" for s
    using world_total_delete [OF assms(2) wi(1), of s] wi(2)
    by (simp add: item_total_def stash_total_def)
  have k: "k = w_count wi \<or> k = 0" and f: "only_inv_ids ?d1 d'" and ok: "inv_ok d'"
    using cr by (auto simp: credited_def)
  have w: "d_world d' = filter (\<lambda>x. w_id x \<noteq> i) (d_world d)"
    using only_inv_ids_frame(1) [OF f] by simp
  have other: "filter (owned u' s') (d_inv d') = filter (owned u' s') (d_inv d)"
    if "(u', s') \<noteq> (u, w_section wi)" for u' s'
    using cr that by (auto simp: credited_def owned_def)
  show ?thesis unfolding Inr
    using wi ok w other k credited_item_total [OF cr] by (auto simp: tot)
qed

definition demo_world_db :: database where
  "demo_world_db = (demo_db [])\<lparr>d_world := [\<lparr>w_id = 1, w_level = ''l01_escape'', w_x = Fin 0, w_y = Fin 0, w_z = Fin 0,
     w_section = ''bread'', w_count = 3, w_condition = Fin 1, w_created = 0\<rparr>], d_world_next := 2\<rparr>"

theorem pickup_no_dupe_witness:
  "\<exists>wi d'. pickup_world_item ''u1'' 1 demo_world_db [] = (Inr wi, d', []) \<and> w_count wi = 3 \<and> d_world d' = []"
proof -
  have ok: "inv_ok demo_world_db" "world_ok demo_world_db"
    by (simp_all add: demo_world_db_def demo_db_def inv_ok_def world_ok_def)
  obtain r d' fl' where e: "pickup_world_item ''u1'' 1 demo_world_db [] = (r, d', fl')" by (metis prod.exhaust)
  have c: "fl' = []" "r = Inr (hd (d_world demo_world_db))" "d_world d' = []"
    using e by (auto simp: pickup_world_item_def pickup_body_def run_tx_def tx_defs credit_inventory_def
        delete_world_def insert_inv_def demo_world_db_def demo_db_def)
  have w: "w_count (hd (d_world demo_world_db)) = 3" by (simp add: demo_world_db_def)
  show ?thesis
    using pickup_no_dupe [OF ok e] e c w by auto
qed

text \<open>A world item is picked up at most once: after a successful pickup every later pickup of
  the same row, by anyone, reports ErrWorldItemNotFound (or the driver's own error) and changes
  nothing.\<close>

theorem pickup_at_most_once:
  assumes "inv_ok d" and "world_ok d" and "pickup_world_item u i d fl = (Inr wi, d', fl')"
  shows "\<exists>e fl''. pickup_world_item v i d' fl2 = (Inl e, d', fl'') \<and> (e = ErrWorldItemNotFound \<or> e = ErrSQL)"
proof -
  from pickup_success [OF assms(3,1,2)] obtain d1 k where
    "d1 = d\<lparr>d_world := filter (\<lambda>x. w_id x \<noteq> i) (d_world d)\<rparr>" "only_inv_ids d1 d'"
    by (auto simp: credited_def)
  then have "d_world d' = filter (\<lambda>x. w_id x \<noteq> i) (d_world d)" by (simp add: only_inv_ids_frame)
  then have gone: "List.find (\<lambda>w. w_id w = i) (d_world d') = None" by (auto simp: find_None_iff)
  have "\<exists>e fl''. pickup_body v i d' fl0 = (Inl e, d', fl'') \<and> (e = ErrWorldItemNotFound \<or> e = ErrSQL)" for fl0
    by (cases fl0) (auto simp: pickup_body_def tx_defs gone split: bool.splits)
  then show ?thesis
    unfolding pickup_world_item_def run_tx_def
    by (cases fl2) (auto simp: bind_def exec_def stmt_def split: bool.splits, (metis (no_types, lifting) fst_conv old.prod.case old.sum.simps(5))+)
qed

theorem pickup_at_most_once_witness:
  "\<exists>wi d' e fl''. pickup_world_item ''u1'' 1 demo_world_db [] = (Inr wi, d', []) \<and>
     pickup_world_item ''u2'' 1 d' [] = (Inl e, d', fl'')"
proof -
  have ok: "inv_ok demo_world_db" "world_ok demo_world_db"
    by (simp_all add: demo_world_db_def demo_db_def inv_ok_def world_ok_def)
  obtain r d' fl' where e: "pickup_world_item ''u1'' 1 demo_world_db [] = (r, d', fl')" by (metis prod.exhaust)
  have c: "fl' = []" "r = Inr (hd (d_world demo_world_db))"
    using e by (auto simp: pickup_world_item_def pickup_body_def run_tx_def tx_defs credit_inventory_def
        delete_world_def insert_inv_def demo_world_db_def demo_db_def)
  show ?thesis
    using pickup_at_most_once [OF ok e [unfolded c], of "''u2''" "[]"] e c by auto
qed

text \<open>Consumption removes exactly what was asked: on success the character held enough, holds
  \<open>n\<close> copies less (the returned remainder) and nothing else changed hands; with too little
  stock the error carries the true total and, as for any error, nothing changed.\<close>

theorem consume_exact:
  assumes "inv_ok d" and "consume_item u s n d fl = (r, d', fl')"
  shows "case r of
      Inl e \<Rightarrow> d' = d \<and> (\<forall>t. e = ErrInsufficientItems t \<longrightarrow> n \<le> 0 \<or> t = held_total u s d \<and> t < n)
    | Inr rem \<Rightarrow> rem = held_total u s d - n \<and> rem = held_total u s d' \<and> 0 \<le> rem \<and>
        item_total s d' = item_total s d - n \<and> inv_ok d' \<and> d_world d' = d_world d \<and>
        (\<forall>u' s'. (u', s') \<noteq> (u, s) \<longrightarrow> filter (owned u' s') (d_inv d') = filter (owned u' s') (d_inv d))"
proof (cases r)
  case (Inl e)
  then have d': "d' = d" using assms(2)
    by (auto simp: consume_item_def fail_def dest: run_tx_atomic split: if_splits)
  have loop: "fst (remove_loop rs m rc d0 f0) \<noteq> Inl (ErrInsufficientItems t)" for rs m rc d0 f0 t
    by (induction rs arbitrary: m rc d0 f0)
       (auto simp: ret_def bind_def exec_def stmt_def Let_def split: list.splits bool.splits if_splits sum.splits prod.splits)
  have "n \<le> 0 \<or> t = held_total u s d \<and> t < n" if "e = ErrInsufficientItems t" for t
    using assms(2) Inl that loop
    by (auto simp: consume_item_def run_tx_def bind_def exec_def query_def stmt_def ret_def fail_def
        remove_inventory_def Let_def held_rows_total
        split: list.splits bool.splits if_splits sum.splits prod.splits) (metis fst_conv)+
  with Inl d' show ?thesis by simp
next
  case (Inr rem)
  from assms(2) Inr have n: "1 \<le> n" by (auto simp: consume_item_def fail_def split: if_splits)
  with assms(2) Inr obtain fl0 fl1 tot c where
    rm: "remove_inventory u s n (- 1) d fl0 = (Inr (tot, c), d', fl1)" and rem: "rem = tot - n"
    by (auto simp: consume_item_def tx_Inr dest!: run_tx_Inr)
  note spec = remove_inventory_spec [OF rm assms(1)]
  have "filter (owned u' s') (d_inv d') = filter (owned u' s') (d_inv d)" if "(u', s') \<noteq> (u, s)" for u' s'
    using that n by (intro spec(7)) (auto simp: owned_def)
  with spec n rem only_inv_frame [OF spec(4)] show ?thesis unfolding Inr
    by (auto simp: item_total_def world_total_def stash_total_def)
qed

theorem consume_exact_witness:
  "\<exists>d' fl'. consume_item ''u1'' ''bread'' 31 (demo_db [demo_row 1 30 (Fin 1)]) [] =
     (Inl (ErrInsufficientItems 30), d', fl') \<and> d' = demo_db [demo_row 1 30 (Fin 1)]"
proof -
  obtain r d' fl' where e: "consume_item ''u1'' ''bread'' 31 (demo_db [demo_row 1 30 (Fin 1)]) [] = (r, d', fl')"
    by (metis prod.exhaust)
  have c: "r = Inl (ErrInsufficientItems 30)"
    using e by (auto simp: consume_item_def demo_simps)
  show ?thesis using consume_exact [OF demo_db_ok e] e unfolding c by auto
qed

text \<open>The 0-100 condition bucket survives storage: the REAL value \<open>bucket/100\<close> that a credit
  writes is found again under the same bucket by the SQL query, and read back through a Go
  \<open>float32\<close> it gives the same bucket to a later credit. Stacks of different buckets never merge
  by rounding.\<close>

theorem condition_bucket_roundtrip:
  assumes "uint b \<le> 100"
  shows "sql_bucket (rnd64 (of_int (uint b) / 100)) = Some (uint b) \<and>
    condition_bucket (f32_of (rnd64 (of_int (uint b) / 100))) = b"
proof -
  have n: "0 \<le> uint b" by simp
  from percent_close [OF n assms] obtain q where
    q: "rnd64 (of_int (uint b) / 100) = Fin q" "0 \<le> q" "q \<le> 1" "\<bar>q - of_int (uint b) / 100\<bar> \<le> pow2 (- 24)"
    by blast
  from unit_f32_close [OF q(2,3)] obtain r where
    r: "f32_of (Fin q) = Fin r" "0 \<le> r" "r \<le> 1" "\<bar>r - q\<bar> \<le> pow2 (- 24)" by blast
  have p: "0 < pow2 (- 24)" by simp
  have "\<bar>q - of_int (uint b) / 100\<bar> \<le> 2 * pow2 (- 24)" "\<bar>r - of_int (uint b) / 100\<bar> \<le> 2 * pow2 (- 24)"
    using q(4) r(4) p by linarith+
  with bucket_of_close(1) [OF q(2,3) _ n assms] bucket_of_close(2) [OF r(2,3) _ n assms]
  show ?thesis by (simp only: q(1) r(1) word_of_int_uint simp_thms)
qed

theorem condition_bucket_roundtrip_witness:
  "sql_bucket (rnd64 (of_int (uint (29 :: u8)) / 100)) = Some 29"
  using condition_bucket_roundtrip [of 29] by simp

text \<open>A removal that spans several stacks takes its condition from the first one only: a
  character with one bread at 100% and one at 25% who drops both as "100%" leaves one world
  stack of two in perfect condition. The comment on DropItemToWorld promises that a
  low-condition stack cannot be turned into a high-condition world item.\<close>

theorem drop_launders_condition:
  "(\<lambda>(r, d', _). (r, map (\<lambda>w. (w_count w, w_condition w)) (d_world d'), d_inv d'))
     (drop_item_to_world ''u1'' ''l01_escape'' ''bread'' 2 (Fin 0, Fin 0, Fin 0) 100 500 0
        (demo_db [demo_row 1 1 (Fin (1 / 4)), demo_row 2 1 (Fin 1)]) []) =
   (Inr (1, 0, Fin 1), [(2, Fin 1)], [])"
proof -
  have p: "sql_bucket (Fin 1) = Some 100" "sql_bucket (Fin (1 / 4)) = Some 25"
    by (simp_all add: sat64_def)
  show ?thesis by (simp add: demo_simps p del: sql_bucket.simps)
qed

end
