(* ===== verification/GoText.thy ===== *)
theory GoText
  imports Prelude
begin

text \<open>
  Go strings as byte strings: UTF-8 decoding as \<open>range\<close> and \<open>unicode/utf8\<close> do it (a byte
  that starts no valid encoding is a rune U+FFFD of its own), truncation at a rune boundary,
  and the string encoding of \<open>encoding/json\<close>. \<open>unicode.IsPrint\<close> of a code point past ASCII
  reads the Unicode tables; the definitions that use it take it as \<open>uprint\<close>.
\<close>

section \<open>Runes\<close>

definition cont_byte :: "nat \<Rightarrow> bool" where
  "cont_byte b \<longleftrightarrow> 128 \<le> b \<and> b \<le> 191"

text \<open>The well-formed encodings of one rune (no overlong form, no surrogate, at most U+10FFFF).\<close>

fun rune_ok :: "nat list \<Rightarrow> bool" where
  "rune_ok [a] = (a < 128)"
| "rune_ok [a, b] = (194 \<le> a \<and> a \<le> 223 \<and> cont_byte b)"
| "rune_ok [a, b, c] = (cont_byte c \<and>
     (a = 224 \<and> 160 \<le> b \<and> b \<le> 191 \<or> a = 237 \<and> 128 \<le> b \<and> b \<le> 159 \<or>
      225 \<le> a \<and> a \<le> 239 \<and> a \<noteq> 237 \<and> cont_byte b))"
| "rune_ok [a, b, c, d] = (cont_byte c \<and> cont_byte d \<and>
     (a = 240 \<and> 144 \<le> b \<and> b \<le> 191 \<or> a = 244 \<and> 128 \<le> b \<and> b \<le> 143 \<or>
      241 \<le> a \<and> a \<le> 243 \<and> cont_byte b))"
| "rune_ok _ = False"

definition chunk_ok :: "string \<Rightarrow> bool" where
  "chunk_ok s = rune_ok (map of_char s)"

definition rune_len :: "string \<Rightarrow> nat" where
  "rune_len s = (if chunk_ok (take 1 s) then 1 else if chunk_ok (take 2 s) then 2
     else if chunk_ok (take 3 s) then 3 else if chunk_ok (take 4 s) then 4 else 1)"

function runes :: "string \<Rightarrow> string list" where
  "runes [] = []"
| "runes (c # cs) = take (rune_len (c # cs)) (c # cs) # runes (drop (rune_len (c # cs)) (c # cs))"
  by pat_completeness auto
termination
  by (relation "measure length") (auto simp: rune_len_def)

definition valid_utf8 :: "string \<Rightarrow> bool" where
  "valid_utf8 s = list_all chunk_ok (runes s)"

fun code_point :: "nat list \<Rightarrow> nat" where
  "code_point [a] = a"
| "code_point [a, b] = (a - 192) * 64 + (b - 128)"
| "code_point [a, b, c] = (a - 224) * 4096 + (b - 128) * 64 + (c - 128)"
| "code_point [a, b, c, d] = (a - 240) * 262144 + (b - 128) * 4096 + (c - 128) * 64 + (d - 128)"
| "code_point _ = 65533"

definition rune_of :: "string \<Rightarrow> nat" where
  "rune_of c = (if chunk_ok c then code_point (map of_char c) else 65533)"

definition is_print :: "(nat \<Rightarrow> bool) \<Rightarrow> nat \<Rightarrow> bool" where
  "is_print uprint r = (if r < 128 then 32 \<le> r \<and> r \<le> 126 else uprint r)"

definition is_control :: "nat \<Rightarrow> bool" where
  "is_control r \<longleftrightarrow> r < 32 \<or> 127 \<le> r \<and> r < 160"

fun trim_invalid :: "nat \<Rightarrow> string \<Rightarrow> string" where
  "trim_invalid 0 s = []"
| "trim_invalid (Suc n) s = (if valid_utf8 (take (Suc n) s) then take (Suc n) s else trim_invalid n s)"

definition truncate_utf8 :: "string \<Rightarrow> int \<Rightarrow> string" where
  "truncate_utf8 s n = (if n \<le> 0 then [] else if int (length s) \<le> n then s else trim_invalid (nat n) s)"

section \<open>JSON strings\<close>

definition json_chunk :: "string \<Rightarrow> string" where
  "json_chunk c =
     (if \<not> chunk_ok c then CHR 0x5C # ''ufffd''
      else if length c = 1 then
        (let b = of_char (hd c) :: nat in
         if b = 34 \<or> b = 92 then [CHR 0x5C, hd c]
         else if b = 8 then CHR 0x5C # ''b'' else if b = 12 then CHR 0x5C # ''f''
         else if b = 10 then CHR 0x5C # ''n'' else if b = 13 then CHR 0x5C # ''r''
         else if b = 9 then CHR 0x5C # ''t''
         else if b < 32 \<or> b = 60 \<or> b = 62 \<or> b = 38
           then CHR 0x5C # ''u00'' @ [hex_char (b div 16), hex_char (b mod 16)]
         else c)
      else if rune_of c = 8232 then CHR 0x5C # ''u2028''
      else if rune_of c = 8233 then CHR 0x5C # ''u2029''
      else c)"

definition json_string :: "string \<Rightarrow> string" where
  "json_string s = CHR 0x22 # concat (map json_chunk (runes s)) @ [CHR 0x22]"

text \<open>What a string is after a round trip through \<open>json.Marshal\<close> and \<open>json.Unmarshal\<close>: each
  byte outside a valid encoding has become U+FFFD.\<close>

definition json_clean :: "string \<Rightarrow> string" where
  "json_clean s = concat (map (\<lambda>c. if chunk_ok c then c else [CHR 0xEF, CHR 0xBF, CHR 0xBD]) (runes s))"

section \<open>Lemmas\<close>

lemma concat_runes: "concat (runes s) = s"
  by (induction s rule: runes.induct) (simp_all only: runes.simps concat.simps append_take_drop_id)

lemma json_clean_valid: "valid_utf8 s \<Longrightarrow> json_clean s = s"
proof -
  assume "valid_utf8 s"
  then have "map (\<lambda>c. if chunk_ok c then c else [CHR 0xEF, CHR 0xBF, CHR 0xBD]) (runes s) = runes s"
    by (intro map_idI) (auto simp: valid_utf8_def list_all_iff)
  then show ?thesis by (simp add: json_clean_def concat_runes)
qed

lemma trim_invalid_spec:
  "valid_utf8 (trim_invalid n s) \<and> length (trim_invalid n s) \<le> n \<and> (\<exists>k. trim_invalid n s = take k s)"
proof (induction n)
  case 0
  show ?case by (auto simp: valid_utf8_def intro: exI [of _ 0])
next
  case (Suc n)
  then show ?case by auto
qed

lemma truncate_utf8_length: "0 \<le> n \<Longrightarrow> int (length (truncate_utf8 s n)) \<le> n"
  using trim_invalid_spec [of "nat n" s] by (auto simp: truncate_utf8_def)

lemma truncate_utf8_valid: "valid_utf8 s \<Longrightarrow> valid_utf8 (truncate_utf8 s n)"
  using trim_invalid_spec [of "nat n" s] by (auto simp: truncate_utf8_def valid_utf8_def)

lemma truncate_utf8_prefix: "\<exists>k. truncate_utf8 s n = take k s"
proof -
  have "s = take (length s) s" "[] = take 0 s" by simp_all
  with trim_invalid_spec [of "nat n" s] show ?thesis unfolding truncate_utf8_def by metis
qed

text \<open>An ASCII string is its own sequence of one-byte runes.\<close>

lemma runes_ascii: "\<forall>c\<in>set s. of_char c < (128::nat) \<Longrightarrow> runes s = map (\<lambda>c. [c]) s"
  by (induction s) (simp_all add: rune_len_def chunk_ok_def)

lemma valid_utf8_ascii: "\<forall>c\<in>set s. of_char c < (128::nat) \<Longrightarrow> valid_utf8 s"
  by (auto simp: valid_utf8_def runes_ascii list_all_iff chunk_ok_def)

end
