(* ===== verification/StashManager.thy ===== *)
theory StashManager
  imports Inventory GoText
begin

text \<open>
  World stashes: internal/game/stash_manager.go over the stash statements of
  internal/database/db.go. A stash's contents are the decoded \<open>StashItem\<close> array of its
  \<open>contents_json\<close> column; what is stored back is what the decoder will read again
  (\<open>json_clean\<close> of the section), and the length limit is taken on the encoded text.
  \<open>rmwMu\<close> and the single connection make each operation one step. \<open>configured\<close> says that the
  manager has a database.
\<close>

section \<open>The stash table\<close>

record stash_rec =
  sr_id :: u32
  sr_level :: string
  sr_pos :: "f32 \<times> f32 \<times> f32"
  sr_owner :: string
  sr_passcode :: string
  sr_contents :: contents
  sr_created :: int
  sr_updated :: int

definition coalesce :: "string option \<Rightarrow> string" where
  "coalesce x = (case x of None \<Rightarrow> '''' | Some s \<Rightarrow> s)"

text \<open>A row scans when its id fits the \<open>uint32\<close> field.\<close>

definition scan_stash :: "stash_row option \<Rightarrow> gerr + stash_rec" where
  "scan_stash row = (case row of
     None \<Rightarrow> Inl ErrNoRows
   | Some r \<Rightarrow> if s_id r < 0 \<or> 2 ^ 32 \<le> s_id r then Inl ErrSQL else
       Inr \<lparr>sr_id = word_of_int (s_id r), sr_level = s_level r, sr_pos = (s_x r, s_y r, s_z r),
            sr_owner = coalesce (s_owner r), sr_passcode = coalesce (s_passcode r),
            sr_contents = s_contents r, sr_created = s_created r, sr_updated = s_updated r\<rparr>)"

definition select_stash :: "(stash_row \<Rightarrow> bool) \<Rightarrow> stash_rec tx" where
  "select_stash P = stmt (\<lambda>d. (scan_stash (List.find P (d_stashes d)), d))"

definition db_get_stash :: "u32 \<Rightarrow> stash_rec tx" where
  "db_get_stash i = select_stash (\<lambda>r. s_id r = uint i)"

text \<open>The SQL equality of the position columns: a NaN argument is NULL and matches nothing.\<close>

definition stash_at :: "string \<Rightarrow> f32 \<times> f32 \<times> f32 \<Rightarrow> stash_row \<Rightarrow> bool" where
  "stash_at level p r \<longleftrightarrow> s_level r = level \<and> feq (s_x r) (fst p) \<and> feq (s_y r) (fst (snd p)) \<and> feq (s_z r) (snd (snd p))"

definition find_stash_at :: "string \<Rightarrow> f32 \<times> f32 \<times> f32 \<Rightarrow> stash_rec tx" where
  "find_stash_at level p = select_stash (stash_at level p)"

definition nan_pos :: "f32 \<times> f32 \<times> f32 \<Rightarrow> bool" where
  "nan_pos p \<longleftrightarrow> is_nan (fst p) \<or> is_nan (fst (snd p)) \<or> is_nan (snd (snd p))"

definition new_stash_row :: "int \<Rightarrow> string \<Rightarrow> f32 \<times> f32 \<times> f32 \<Rightarrow> contents \<Rightarrow> int \<Rightarrow> stash_row" where
  "new_stash_row i level p c now = \<lparr>s_id = i, s_level = level, s_x = fst p, s_y = fst (snd p),
     s_z = snd (snd p), s_owner = None, s_passcode = None, s_contents = c, s_created = now, s_updated = now\<rparr>"

text \<open>An \<open>INSERT\<close> takes the next key; the NOT NULL position columns refuse a NaN.\<close>

definition insert_stash :: "string \<Rightarrow> f32 \<times> f32 \<times> f32 \<Rightarrow> contents \<Rightarrow> int \<Rightarrow> database \<Rightarrow> (gerr + int) \<times> database" where
  "insert_stash level p c now d = (if nan_pos p then (Inl ErrSQL, d)
     else (Inr (d_stash_next d),
           d\<lparr>d_stashes := d_stashes d @ [new_stash_row (d_stash_next d) level p c now],
             d_stash_next := d_stash_next d + 1\<rparr>))"

definition try_select :: "(stash_row \<Rightarrow> bool) \<Rightarrow> (gerr + stash_rec) tx" where
  "try_select P d fl = (let (r, d', fl') = select_stash P d fl in (Inr r, d', fl'))"

definition found_or_insert :: "string \<Rightarrow> f32 \<times> f32 \<times> f32 \<Rightarrow> int \<Rightarrow> gerr + stash_rec \<Rightarrow> stash_rec tx" where
  "found_or_insert level p now found = (case found of
     Inr rec \<Rightarrow> ret rec
   | Inl e \<Rightarrow> if e \<noteq> ErrNoRows then fail e
       else bind (stmt (insert_stash level p (JItems []) now)) (\<lambda>i.
         ret \<lparr>sr_id = word_of_int i, sr_level = level, sr_pos = p, sr_owner = '''', sr_passcode = '''',
              sr_contents = JItems [], sr_created = now, sr_updated = now\<rparr>))"

definition find_or_create_stash_at :: "string \<Rightarrow> f32 \<times> f32 \<times> f32 \<Rightarrow> int \<Rightarrow> stash_rec tx" where
  "find_or_create_stash_at level p now =
     run_tx (bind (try_select (stash_at level p)) (found_or_insert level p now))"

definition map_stash :: "int \<Rightarrow> (stash_row \<Rightarrow> stash_row) \<Rightarrow> database \<Rightarrow> database" where
  "map_stash i f d = d\<lparr>d_stashes := map (\<lambda>r. if s_id r = i then f r else r) (d_stashes d)\<rparr>"

text \<open>\<open>INSERT \<dots> ON CONFLICT(stash_id) DO UPDATE\<close>. A new row with an explicit id stands at its
  place in key order and moves the counter past it.\<close>

fun insert_by_id :: "stash_row \<Rightarrow> stash_row list \<Rightarrow> stash_row list" where
  "insert_by_id r [] = [r]"
| "insert_by_id r (x # xs) = (if s_id r < s_id x then r # x # xs else x # insert_by_id r xs)"

definition upsert_stash :: "int \<Rightarrow> string \<Rightarrow> f32 \<times> f32 \<times> f32 \<Rightarrow> contents \<Rightarrow> int \<Rightarrow> database \<Rightarrow> (gerr + unit) \<times> database" where
  "upsert_stash i level p c now d =
     (if nan_pos p then (Inl ErrSQL, d)
      else if i \<in> s_id ` set (d_stashes d) then
        (Inr (), map_stash i (\<lambda>r. r\<lparr>s_level := level, s_x := fst p, s_y := fst (snd p), s_z := snd (snd p),
                                    s_contents := c, s_updated := now\<rparr>) d)
      else (Inr (), d\<lparr>d_stashes := insert_by_id (new_stash_row i level p c now) (d_stashes d),
                      d_stash_next := max (d_stash_next d) (i + 1)\<rparr>))"

definition or_empty_array :: "contents \<Rightarrow> contents" where
  "or_empty_array c = (if c = JEmpty then JItems [] else c)"

definition db_save_stash :: "u32 \<Rightarrow> string \<Rightarrow> f32 \<times> f32 \<times> f32 \<Rightarrow> contents \<Rightarrow> int \<Rightarrow> unit tx" where
  "db_save_stash i level p c now =
     (if i = 0 then bind (stmt (insert_stash level p (or_empty_array c) now)) (\<lambda>_. ret ())
      else stmt (upsert_stash (uint i) level p (or_empty_array c) now))"

definition db_update_stash_contents :: "u32 \<Rightarrow> contents \<Rightarrow> int \<Rightarrow> unit tx" where
  "db_update_stash_contents i c now = stmt (\<lambda>d.
     if uint i \<in> s_id ` set (d_stashes d)
     then (Inr (), map_stash (uint i) (\<lambda>r. r\<lparr>s_contents := or_empty_array c, s_updated := now\<rparr>) d)
     else (Inl ErrNoRows, d))"

section \<open>The manager\<close>

definition get_stash :: "bool \<Rightarrow> u32 \<Rightarrow> stash_rec tx" where
  "get_stash configured i d fl = (if \<not> configured then (Inl ErrDBNotConfigured, d, fl)
     else case db_get_stash i d fl of
            (Inl _, d', fl') \<Rightarrow> (Inl ErrStashNotFound, d', fl')
          | (Inr r, d', fl') \<Rightarrow> (Inr r, d', fl'))"

definition save_stash :: "bool \<Rightarrow> u32 \<Rightarrow> string \<Rightarrow> f32 \<times> f32 \<times> f32 \<Rightarrow> contents \<Rightarrow> int \<Rightarrow> unit tx" where
  "save_stash configured i level p c now =
     (if \<not> configured then fail ErrDBNotConfigured else db_save_stash i level p (or_empty_array c) now)"

definition find_world_stash :: "bool \<Rightarrow> string \<Rightarrow> f32 \<times> f32 \<times> f32 \<Rightarrow> stash_rec tx" where
  "find_world_stash configured level p d fl = (if \<not> configured then (Inl ErrDBNotConfigured, d, fl)
     else case find_stash_at level p d fl of
            (Inl e, d', fl') \<Rightarrow> (Inl (if e = ErrNoRows then ErrStashNotFound else e), d', fl')
          | (Inr r, d', fl') \<Rightarrow> (Inr r, d', fl'))"

definition find_or_create_world_stash :: "bool \<Rightarrow> string \<Rightarrow> f32 \<times> f32 \<times> f32 \<Rightarrow> int \<Rightarrow> stash_rec tx" where
  "find_or_create_world_stash configured level p now =
     (if \<not> configured then fail ErrDBNotConfigured else find_or_create_stash_at level p now)"

definition round_world_stash_coord :: "f32 \<Rightarrow> f32" where
  "round_world_stash_coord v = (if is_nan v \<or> is_inf v then Fin 0
     else f32_of (mul64 (ffloor (add64 (fdiv_const rnd64 v (1 / 2)) (Fin (1 / 2)))) (Fin (1 / 2))))"

definition max_stash_interact_distance :: f64 where
  "max_stash_interact_distance = Fin 5"

definition dist3 :: "f32 \<times> f32 \<times> f32 \<Rightarrow> f32 \<times> f32 \<times> f32 \<Rightarrow> f64" where
  "dist3 p q = (case (p, q) of ((px, py, pz), (qx, qy, qz)) \<Rightarrow>
     let dx = sub32 px qx; dy = sub32 py qy; dz = sub32 pz qz
     in fsqrt (add64 (add64 (mul64 dx dx) (mul64 dy dy)) (mul64 dz dz)))"

definition validate_access :: "stash_rec option \<Rightarrow> f32 \<times> f32 \<times> f32 \<Rightarrow> string \<Rightarrow> string \<Rightarrow> string \<Rightarrow> gerr option" where
  "validate_access stash player_pos player_level passcode requester = (case stash of
     None \<Rightarrow> Some ErrStashNotFound
   | Some s \<Rightarrow>
       if sr_owner s \<noteq> '''' \<and> sr_owner s \<noteq> requester then Some ErrStashAccessDenied
       else if sr_level s \<noteq> player_level then Some ErrStashWrongLevel
       else if flt max_stash_interact_distance (dist3 player_pos (sr_pos s)) then Some ErrStashTooFar
       else if sr_passcode s \<noteq> '''' \<and> passcode \<noteq> sr_passcode s then Some ErrStashWrongPasscode
       else None)"

definition parse_stash_items :: "contents \<Rightarrow> gerr + stash_item list" where
  "parse_stash_items c = (case c of JEmpty \<Rightarrow> Inr [] | JItems xs \<Rightarrow> Inr xs | JBad _ \<Rightarrow> Inl ErrJSON)"

fun find_stash_item :: "stash_item list \<Rightarrow> string \<Rightarrow> u8 \<Rightarrow> nat option" where
  "find_stash_item [] section cond = None"
| "find_stash_item (x # xs) section cond =
     (if si_section x = section \<and> si_condition x = cond then Some 0
      else map_option Suc (find_stash_item xs section cond))"

definition json_key :: "string \<Rightarrow> string" where
  "json_key k = CHR 0x22 # k @ CHR 0x22 # '':''"

definition json_item :: "stash_item \<Rightarrow> string" where
  "json_item x = ''{'' @ json_key ''section'' @ json_string (si_section x) @ '','' @
     json_key ''count'' @ itoa (si_count x) @
     (if si_condition x = 0 then '''' else '','' @ json_key ''condition'' @ itoa (uint (si_condition x))) @ ''}''"

fun json_join :: "string list \<Rightarrow> string" where
  "json_join [] = ''''"
| "json_join [s] = s"
| "json_join (s # t # r) = s @ '','' @ json_join (t # r)"

definition json_items :: "stash_item list \<Rightarrow> string" where
  "json_items xs = ''['' @ json_join (map json_item xs) @ '']''"

definition stored_items :: "stash_item list \<Rightarrow> contents" where
  "stored_items xs = JItems (map (\<lambda>x. x\<lparr>si_section := json_clean (si_section x)\<rparr>) xs)"

definition condition_to_wire :: "f32 \<Rightarrow> u8" where
  "condition_to_wire c = (let pct = mul64 c (Fin 100) in
     if is_nan pct \<or> flt pct (Fin 0) then 0
     else if flt (Fin 100) pct then 100
     else word_of_int \<lfloor>fval (fround pct)\<rfloor>)"

definition deposit_items :: "stash_item list \<Rightarrow> string \<Rightarrow> int \<Rightarrow> u8 \<Rightarrow> stash_item list" where
  "deposit_items items section count cond = (case find_stash_item items section cond of
     Some i \<Rightarrow> items[i := (items ! i)\<lparr>si_count := wrap64 (si_count (items ! i) + count)\<rparr>]
   | None \<Rightarrow> items @ [\<lparr>si_section = section, si_count = count, si_condition = cond\<rparr>])"

definition withdraw_items :: "stash_item list \<Rightarrow> nat \<Rightarrow> int \<Rightarrow> stash_item list" where
  "withdraw_items items i count = (let n = si_count (items ! i) - count in
     if n = 0 then take i items @ drop (i + 1) items
     else items[i := (items ! i)\<lparr>si_count := n\<rparr>])"

text \<open>\<open>SELECT level_name, contents_json \<dots> WHERE stash_id=?\<close> and the level check both moves share.\<close>

definition open_stash :: "u32 \<Rightarrow> string \<Rightarrow> contents tx" where
  "open_stash i level = bind (query (\<lambda>d. List.find (\<lambda>r. s_id r = uint i) (d_stashes d))) (\<lambda>row. case row of
     None \<Rightarrow> fail ErrStashNotFound
   | Some r \<Rightarrow> if s_level r \<noteq> level then fail ErrStashWrongLevel else ret (s_contents r))"

definition set_contents :: "u32 \<Rightarrow> stash_item list \<Rightarrow> int \<Rightarrow> unit tx" where
  "set_contents i items now = exec (map_stash (uint i) (\<lambda>r. r\<lparr>s_contents := stored_items items, s_updated := now\<rparr>))"

definition lift_res :: "gerr + 'a \<Rightarrow> 'a tx" where
  "lift_res r = (case r of Inl e \<Rightarrow> fail e | Inr x \<Rightarrow> ret x)"

definition deposit_body :: "u32 \<Rightarrow> string \<Rightarrow> string \<Rightarrow> string \<Rightarrow> int \<Rightarrow> int \<Rightarrow> int \<Rightarrow> u8 tx" where
  "deposit_body i owner level section count pb now =
     bind (open_stash i level) (\<lambda>contents.
     bind (remove_inventory owner section count pb) (\<lambda>(_, removed).
       let condition = condition_to_wire removed in
     bind (lift_res (parse_stash_items contents)) (\<lambda>items.
       let items' = deposit_items items section count condition in
       if 4096 < length (json_items items') \<or> 256 < length items' then fail ErrStashContentsTooLarge
       else bind (set_contents i items' now) (\<lambda>_. ret condition))))"

definition deposit_item :: "bool \<Rightarrow> u32 \<Rightarrow> string \<Rightarrow> string \<Rightarrow> string \<Rightarrow> int \<Rightarrow> int \<Rightarrow> int \<Rightarrow> u8 tx" where
  "deposit_item configured i owner level section count pb now =
     (if count < 1 \<or> 65535 < count then fail ErrInvalidStashCount
      else if pb < 0 \<or> 100 < pb then fail ErrInvalidItemCondition
      else if \<not> configured then fail ErrDBNotConfigured
      else run_tx (deposit_body i owner level section count pb now))"

definition withdraw_body :: "u32 \<Rightarrow> string \<Rightarrow> string \<Rightarrow> string \<Rightarrow> int \<Rightarrow> int \<Rightarrow> int \<Rightarrow> u8 tx" where
  "withdraw_body i owner level section count condition now =
     bind (open_stash i level) (\<lambda>contents.
     bind (lift_res (parse_stash_items contents)) (\<lambda>items.
       case find_stash_item items section (word_of_int condition) of
         None \<Rightarrow> fail ErrItemNotFoundStash
       | Some k \<Rightarrow>
           if si_count (items ! k) < count then fail ErrInsufficientCount
           else let bucket = si_condition (items ! k) in
             bind (set_contents i (withdraw_items items k count) now) (\<lambda>_.
             bind (credit_inventory owner section count bucket) (\<lambda>_. ret bucket))))"

definition withdraw_item :: "bool \<Rightarrow> u32 \<Rightarrow> string \<Rightarrow> string \<Rightarrow> string \<Rightarrow> int \<Rightarrow> int \<Rightarrow> int \<Rightarrow> u8 tx" where
  "withdraw_item configured i owner level section count condition now =
     (if count < 1 \<or> 65535 < count then fail ErrInvalidStashCount
      else if condition < 0 \<or> 100 < condition then fail ErrInvalidItemCondition
      else if \<not> configured then fail ErrDBNotConfigured
      else run_tx (withdraw_body i owner level section count condition now))"

section \<open>Invariant\<close>

definition contents_ok :: "contents \<Rightarrow> bool" where
  "contents_ok c \<longleftrightarrow> (case c of
     JItems xs \<Rightarrow> list_all (\<lambda>x. 0 \<le> si_count x \<and> valid_utf8 (si_section x)) xs | _ \<Rightarrow> True)"

definition stash_ok :: "database \<Rightarrow> bool" where
  "stash_ok d \<longleftrightarrow> sorted_wrt (<) (map s_id (d_stashes d)) \<and>
     (\<forall>r\<in>set (d_stashes d). s_id r < d_stash_next d \<and> contents_ok (s_contents r))"

definition tables_ok :: "database \<Rightarrow> bool" where
  "tables_ok d \<longleftrightarrow> inv_ok d \<and> world_ok d \<and> stash_ok d"

definition items_total :: "string \<Rightarrow> stash_item list \<Rightarrow> int" where
  "items_total s xs = sum_list (map si_count (filter (\<lambda>x. si_section x = s) xs))"

definition contents_total :: "string \<Rightarrow> contents \<Rightarrow> int" where
  "contents_total s c = (case c of JItems xs \<Rightarrow> items_total s xs | _ \<Rightarrow> 0)"

section \<open>Lemmas: contents\<close>

lemma items_total_simps [simp]:
  "items_total s [] = 0"
  "items_total s (x # xs) = (if si_section x = s then si_count x else 0) + items_total s xs"
  "items_total s (xs @ ys) = items_total s xs + items_total s ys"
  by (simp_all add: items_total_def)

lemma find_stash_item_Some:
  "find_stash_item xs s c = Some k \<Longrightarrow> k < length xs \<and> si_section (xs ! k) = s \<and> si_condition (xs ! k) = c"
  by (induction xs arbitrary: k) (auto split: if_splits)

lemma items_total_update:
  "k < length xs \<Longrightarrow> si_section y = si_section (xs ! k) \<Longrightarrow>
   items_total s (xs[k := y]) = items_total s xs +
     (if si_section (xs ! k) = s then si_count y - si_count (xs ! k) else 0)"
proof (induction xs arbitrary: k)
  case (Cons x xs)
  then show ?case by (cases k) auto
qed simp

lemma items_total_remove:
  "k < length xs \<Longrightarrow> items_total s (take k xs @ drop (k + 1) xs) =
     items_total s xs - (if si_section (xs ! k) = s then si_count (xs ! k) else 0)"
proof (induction xs arbitrary: k)
  case (Cons x xs)
  then show ?case by (cases k) auto
qed simp

lemma items_total_nonneg: "list_all (\<lambda>x. 0 \<le> si_count x) xs \<Longrightarrow> 0 \<le> items_total s xs"
  by (induction xs) auto

lemma items_total_ge_nth:
  "list_all (\<lambda>x. 0 \<le> si_count x) xs \<Longrightarrow> k < length xs \<Longrightarrow> si_section (xs ! k) = s \<Longrightarrow>
   si_count (xs ! k) \<le> items_total s xs"
proof (induction xs arbitrary: k)
  case (Cons x xs)
  then show ?case using items_total_nonneg [of xs s] by (cases k) fastforce+
qed simp

lemma contents_ok_JItems [simp]: "contents_ok (JItems xs) \<longleftrightarrow>
    list_all (\<lambda>x. 0 \<le> si_count x) xs \<and> list_all (\<lambda>x. valid_utf8 (si_section x)) xs"
  by (auto simp: contents_ok_def list_all_iff)

lemma stored_items_valid: "list_all (\<lambda>x. valid_utf8 (si_section x)) xs \<Longrightarrow> stored_items xs = JItems xs"
  by (auto simp: stored_items_def list_all_iff json_clean_valid intro!: map_idI)

lemma list_all_update: "list_all P xs \<Longrightarrow> P y \<Longrightarrow> list_all P (xs[k := y])"
  using set_update_subset_insert [of xs k y] by (auto simp: list_all_iff)

lemma list_all_take_drop: "list_all P xs \<Longrightarrow> list_all P (take k xs)" "list_all P xs \<Longrightarrow> list_all P (drop m xs)"
  by (auto simp: list_all_iff dest: in_set_takeD in_set_dropD)

lemma deposit_items_spec:
  assumes "list_all (\<lambda>x. 0 \<le> si_count x) xs" "0 \<le> n" "items_total s xs + n < 2 ^ 63"
  shows "items_total t (deposit_items xs s n c) = items_total t xs + (if t = s then n else 0)"
    "list_all (\<lambda>x. 0 \<le> si_count x) (deposit_items xs s n c)"
proof -
  have w: "wrap64 (si_count (xs ! k) + n) = si_count (xs ! k) + n \<and> 0 \<le> si_count (xs ! k)"
    if "find_stash_item xs s c = Some k" for k
    using find_stash_item_Some [OF that] items_total_ge_nth [OF assms(1), of k s] assms
    by (auto simp: in_int64_def list_all_length intro!: wrap64_id)
  then show "items_total t (deposit_items xs s n c) = items_total t xs + (if t = s then n else 0)"
    by (auto simp: deposit_items_def items_total_update split: option.splits dest!: find_stash_item_Some)
  show "list_all (\<lambda>x. 0 \<le> si_count x) (deposit_items xs s n c)"
    using w assms by (auto simp: deposit_items_def split: option.splits intro!: list_all_update)
qed

lemma deposit_items_valid:
  assumes "list_all (\<lambda>x. valid_utf8 (si_section x)) xs" "valid_utf8 s"
  shows "list_all (\<lambda>x. valid_utf8 (si_section x)) (deposit_items xs s n c)"
proof (cases "find_stash_item xs s c")
  case None
  with assms show ?thesis by (simp add: deposit_items_def)
next
  case (Some k)
  with assms find_stash_item_Some [OF Some] show ?thesis
    by (auto simp: deposit_items_def intro: list_all_update)
qed

lemma withdraw_items_spec:
  assumes "list_all (\<lambda>x. 0 \<le> si_count x) xs" "k < length xs" "n \<le> si_count (xs ! k)"
  shows "items_total t (withdraw_items xs k n) = items_total t xs - (if t = si_section (xs ! k) then n else 0)"
    "list_all (\<lambda>x. 0 \<le> si_count x) (withdraw_items xs k n)"
proof -
  show "items_total t (withdraw_items xs k n) = items_total t xs - (if t = si_section (xs ! k) then n else 0)"
  proof (cases "si_count (xs ! k) - n = 0")
    case True
    then show ?thesis using items_total_remove [OF assms(2), of t]
      by (simp add: withdraw_items_def Let_def)
  next
    case False
    then show ?thesis using assms(2) by (simp add: withdraw_items_def Let_def items_total_update)
  qed
  show "list_all (\<lambda>x. 0 \<le> si_count x) (withdraw_items xs k n)"
    using assms by (simp add: withdraw_items_def Let_def list_all_update list_all_take_drop)
qed

lemma withdraw_items_valid:
  assumes "list_all (\<lambda>x. valid_utf8 (si_section x)) xs" "k < length xs"
  shows "list_all (\<lambda>x. valid_utf8 (si_section x)) (withdraw_items xs k n)"
proof -
  have "valid_utf8 (si_section (xs ! k))" using assms by (simp add: list_all_length)
  with assms show ?thesis
    by (simp add: withdraw_items_def Let_def list_all_update list_all_take_drop)
qed

section \<open>Lemmas: the table\<close>

lemma stash_total_alt: "stash_total s d = sum_list (map (contents_total s \<circ> s_contents) (d_stashes d))"
  unfolding stash_total_def contents_total_def items_total_def
  by (intro arg_cong [where f = sum_list] map_cong refl) (simp split: contents.splits)

lemma sum_list_map_update:
  fixes g :: "'a \<Rightarrow> int" and h :: "'a \<Rightarrow> int"
  assumes "r \<in> set rs" "distinct (map h rs)"
  shows "sum_list (map g (map (\<lambda>x. if h x = h r then f x else x) rs)) = sum_list (map g rs) - g r + g (f r)"
  using assms
proof (induction rs)
  case (Cons x xs)
  show ?case
  proof (cases "h x = h r")
    case True
    with Cons.prems have "x = r" and "h r \<notin> h ` set xs" by (auto simp: image_iff)
    then have "map (\<lambda>x. if h x = h r then f x else x) xs = xs" by (intro map_idI) (metis imageI)
    with True \<open>x = r\<close> show ?thesis by (simp del: map_map)
  next
    case False
    with Cons show ?thesis by (auto simp del: map_map)
  qed
qed simp

lemma stash_total_set:
  assumes "stash_ok d" "r \<in> set (d_stashes d)" "s_id r = i"
  shows "stash_total s (map_stash i (\<lambda>r. r\<lparr>s_contents := c, s_updated := now\<rparr>) d) =
    stash_total s d - contents_total s (s_contents r) + contents_total s c"
proof -
  have "distinct (map s_id (d_stashes d))" using assms(1) by (simp add: stash_ok_def strict_sorted_iff)
  from sum_list_map_update [OF assms(2) this, of "contents_total s \<circ> s_contents"
      "\<lambda>r. r\<lparr>s_contents := c, s_updated := now\<rparr>"]
  show ?thesis by (simp add: stash_total_alt map_stash_def assms(3) del: map_map)
qed

lemma stash_ok_set:
  assumes "stash_ok d" "contents_ok c"
  shows "stash_ok (map_stash i (\<lambda>r. r\<lparr>s_contents := c, s_updated := now\<rparr>) d)"
proof -
  have "s_id \<circ> (\<lambda>r :: stash_row. if s_id r = i then r\<lparr>s_contents := c, s_updated := now\<rparr> else r) = s_id"
    by auto
  with assms show ?thesis by (auto simp: stash_ok_def map_stash_def)
qed

lemma map_stash_frame [simp]:
  "d_inv (map_stash i f d) = d_inv d" "d_inv_next (map_stash i f d) = d_inv_next d"
  "d_world (map_stash i f d) = d_world d" "d_world_next (map_stash i f d) = d_world_next d"
  "d_chars (map_stash i f d) = d_chars d" "d_stash_next (map_stash i f d) = d_stash_next d"
  "d_audit (map_stash i f d) = d_audit d"
  by (simp_all add: map_stash_def)

lemma map_stash_inv_ok [simp]: "inv_ok (map_stash i f d) = inv_ok d"
  and map_stash_world_ok [simp]: "world_ok (map_stash i f d) = world_ok d"
  and map_stash_held [simp]: "held_total u s (map_stash i f d) = held_total u s d"
  and map_stash_world [simp]: "world_total s (map_stash i f d) = world_total s d"
  by (simp_all add: inv_ok_def world_ok_def held_total_def world_total_def)

lemma open_stash_Inr:
  "open_stash i level d fl = (Inr c, d', fl') \<Longrightarrow>
   d' = d \<and> (\<exists>r. List.find (\<lambda>r. s_id r = uint i) (d_stashes d) = Some r \<and> s_level r = level \<and> s_contents r = c)"
  by (auto simp: open_stash_def tx_Inr split: option.splits if_splits)

lemma lift_res_Inr: "lift_res x d fl = (Inr y, d', fl') \<longleftrightarrow> x = Inr y \<and> d' = d \<and> fl' = fl"
  by (cases x) (auto simp: lift_res_def)

lemma parse_Inr: "parse_stash_items c = Inr xs \<Longrightarrow>
    contents_total s c = items_total s xs \<and>
    (contents_ok c \<longrightarrow> list_all (\<lambda>x. 0 \<le> si_count x) xs \<and> list_all (\<lambda>x. valid_utf8 (si_section x)) xs)"
  by (cases c) (auto simp: parse_stash_items_def contents_total_def)

lemma rows_total_nonneg: "inv_ok d \<Longrightarrow> 0 \<le> rows_total P (d_inv d)"
  by (force simp: inv_ok_def rows_total_def intro!: sum_list_nonneg)

lemma world_total_nonneg: "world_ok d \<Longrightarrow> 0 \<le> world_total s d"
  by (fastforce simp: world_ok_def world_total_def intro!: sum_list_nonneg)

lemma contents_total_le:
  assumes "stash_ok d" "r \<in> set (d_stashes d)"
  shows "contents_total s (s_contents r) \<le> stash_total s d"
proof -
  have "0 \<le> contents_total s (s_contents x)" if "x \<in> set (d_stashes d)" for x
    using assms(1) that items_total_nonneg
    by (fastforce simp: stash_ok_def contents_total_def split: contents.splits)
  then show ?thesis using member_le_sum_list [of "contents_total s (s_contents r)" "map (contents_total s \<circ> s_contents) (d_stashes d)"] assms(2)
    unfolding stash_total_alt by (auto simp: image_iff)
qed

lemma held_le_section: "inv_ok d \<Longrightarrow> held_total u s d \<le> rows_total (\<lambda>r. r_section r = s) (d_inv d)"
proof -
  have "rows_total (owned u s) rs \<le> rows_total (\<lambda>r. r_section r = s) rs" if "\<forall>r\<in>set rs. 1 \<le> r_count r" for rs
    using that by (induction rs) (auto simp: owned_def)
  then show "inv_ok d \<Longrightarrow> ?thesis" by (simp add: inv_ok_def held_total_def)
qed

section \<open>Lemmas: deposit and withdrawal\<close>

lemma map_stash_rows [simp]: "rows_total P (d_inv (map_stash i f d)) = rows_total P (d_inv d)"
  by simp

lemma only_inv_tables:
  assumes "only_inv d d'" "tables_ok d" "inv_ok d'"
  shows "tables_ok d'" "stash_total s d' = stash_total s d" "world_total s d' = world_total s d"
  using assms only_inv_frame [OF assms(1)]
  by (simp_all add: tables_ok_def world_ok_def stash_ok_def stash_total_def world_total_def)

lemma deposit_success:
  assumes "deposit_item cfg i u level s n pb now d fl = (Inr c, d', fl')"
    and "tables_ok d" "valid_utf8 s" "item_total s d < 2 ^ 63"
  shows "1 \<le> n \<and> n \<le> 65535 \<and> n \<le> held_total u s d \<and> held_total u s d' = held_total u s d - n \<and>
     stash_total s d' = stash_total s d + n \<and> tables_ok d' \<and>
     (\<forall>t. item_total t d' = item_total t d) \<and>
     (\<exists>r \<in> set (d_stashes d). s_id r = uint i \<and> s_level r = level) \<and>
     (\<forall>v t. (v, t) \<noteq> (u, s) \<longrightarrow> filter (owned v t) (d_inv d') = filter (owned v t) (d_inv d))"
proof -
  from assms(1) have n: "1 \<le> n" "n \<le> 65535" by (auto simp: deposit_item_def split: if_splits)
  from assms(1) obtain fl0 fl1 where "deposit_body i u level s n pb now d fl0 = (Inr c, d', fl1)"
    by (auto simp: deposit_item_def dest!: run_tx_Inr split: if_splits)
  then obtain r fl2 fl3 tot rc d1 xs where
    r: "List.find (\<lambda>r. s_id r = uint i) (d_stashes d) = Some r" "s_level r = level"
    and rm: "remove_inventory u s n pb d fl2 = (Inr (tot, rc), d1, fl3)"
    and ps: "parse_stash_items (s_contents r) = Inr xs"
    and d': "d' = map_stash (uint i) (\<lambda>r. r\<lparr>s_contents := stored_items (deposit_items xs s n c), s_updated := now\<rparr>) d1"
    by (auto simp: deposit_body_def tx_Inr Let_def lift_res_Inr set_contents_def split: if_splits dest!: open_stash_Inr)
  from r have rs: "r \<in> set (d_stashes d)" "s_id r = uint i" by (auto dest: find_SomeD)
  from assms(2) have ok: "inv_ok d" "world_ok d" "stash_ok d" by (auto simp: tables_ok_def)
  from n have "0 \<le> n" by simp
  note spec = remove_inventory_spec [OF rm ok(1) this]
  note t1 = only_inv_tables [OF spec(4) assms(2) spec(3)] and fr = only_inv_frame [OF spec(4)]
  have xs: "list_all (\<lambda>x. 0 \<le> si_count x) xs" "list_all (\<lambda>x. valid_utf8 (si_section x)) xs"
    using parse_Inr [OF ps] ok(3) rs by (auto simp: stash_ok_def)
  have "items_total s xs \<le> stash_total s d"
    using contents_total_le [OF ok(3) rs(1), of s] parse_Inr [OF ps, of s] by simp
  moreover have "n \<le> rows_total (\<lambda>r. r_section r = s) (d_inv d)"
    using spec(1,2) held_le_section [OF ok(1), of u s] by simp
  ultimately have bound: "items_total s xs + n < 2 ^ 63"
    using assms(4) world_total_nonneg [OF ok(2), of s] by (simp add: item_total_def)
  note dep = deposit_items_spec [OF xs(1) \<open>0 \<le> n\<close> bound] and val = deposit_items_valid [OF xs(2) assms(3)]
  have d'2: "d' = map_stash (uint i) (\<lambda>r. r\<lparr>s_contents := JItems (deposit_items xs s n c), s_updated := now\<rparr>) d1"
    unfolding d' using val by (simp add: stored_items_valid)
  have r1: "r \<in> set (d_stashes d1)" using rs(1) fr by simp
  have st: "stash_total t d' = stash_total t d + (if t = s then n else 0)" for t
    using stash_total_set [OF _ r1 rs(2)] t1 dep(1) parse_Inr [OF ps]
    by (simp add: d'2 tables_ok_def contents_total_def)
  have ok': "tables_ok d'"
    using t1 dep(2) val stash_ok_set [of d1] by (simp add: tables_ok_def d'2)
  have other: "filter P (d_inv d') = filter P (d_inv d)"
    if "count_blind P" "\<And>r. P r \<Longrightarrow> \<not> owned u s r" for P
    using spec(7) [OF that] by (simp add: d'2)
  have "rows_total (\<lambda>r. r_section r = t) (d_inv d') = rows_total (\<lambda>r. r_section r = t) (d_inv d) - (if t = s then n else 0)" for t
    using spec(6) other [of "\<lambda>r. r_section r = t"] by (auto simp: d'2 rows_total_def owned_def)
  moreover have "world_total t d' = world_total t d" for t by (simp add: d'2 t1)
  ultimately have "item_total t d' = item_total t d" for t by (simp add: item_total_def st)
  moreover have "filter (owned v t) (d_inv d') = filter (owned v t) (d_inv d)" if "(v, t) \<noteq> (u, s)" for v t
    using that by (intro other) (auto simp: owned_def)
  ultimately show ?thesis using n spec st ok' rs r(2) by (auto simp: d'2)
qed

lemma withdraw_success:
  assumes "withdraw_item cfg i u level s n cond now d fl = (Inr c, d', fl')"
    and "tables_ok d"
  shows "\<exists>k. 1 \<le> n \<and> n \<le> 65535 \<and> c = word_of_int cond \<and> n \<le> stash_total s d \<and>
     stash_total s d' = stash_total s d - n \<and> tables_ok d' \<and> (k = n \<or> k = 0) \<and>
     held_total u s d' = held_total u s d + k \<and> item_total s d' = item_total s d + k - n \<and>
     (\<forall>t. t \<noteq> s \<longrightarrow> item_total t d' = item_total t d) \<and>
     (\<forall>v t. (v, t) \<noteq> (u, s) \<longrightarrow> filter (owned v t) (d_inv d') = filter (owned v t) (d_inv d))"
proof -
  from assms(1) have n: "1 \<le> n" "n \<le> 65535" by (auto simp: withdraw_item_def split: if_splits)
  from assms(1) obtain fl0 fl1 where "withdraw_body i u level s n cond now d fl0 = (Inr c, d', fl1)"
    by (auto simp: withdraw_item_def dest!: run_tx_Inr split: if_splits)
  then obtain r fl2 fl3 xs j d1 where
    r: "List.find (\<lambda>r. s_id r = uint i) (d_stashes d) = Some r" "s_level r = level"
    and ps: "parse_stash_items (s_contents r) = Inr xs"
    and j: "find_stash_item xs s (word_of_int cond) = Some j" "n \<le> si_count (xs ! j)" "c = si_condition (xs ! j)"
    and d1: "d1 = map_stash (uint i) (\<lambda>r. r\<lparr>s_contents := stored_items (withdraw_items xs j n), s_updated := now\<rparr>) d"
    and cr: "credit_inventory u s n c d1 fl2 = (Inr (), d', fl3)"
    by (auto simp: withdraw_body_def tx_Inr Let_def lift_res_Inr set_contents_def
        split: option.splits if_splits dest!: open_stash_Inr)
  from r have rs: "r \<in> set (d_stashes d)" "s_id r = uint i" by (auto dest: find_SomeD)
  from assms(2) have ok: "inv_ok d" "world_ok d" "stash_ok d" by (auto simp: tables_ok_def)
  have xs: "list_all (\<lambda>x. 0 \<le> si_count x) xs" "list_all (\<lambda>x. valid_utf8 (si_section x)) xs"
    using parse_Inr [OF ps] ok(3) rs by (auto simp: stash_ok_def)
  note fd = find_stash_item_Some [OF j(1)]
  note wd = withdraw_items_spec [OF xs(1) conjunct1 [OF fd] j(2)]
    and val = withdraw_items_valid [OF xs(2) conjunct1 [OF fd], of n]
  have d1': "d1 = map_stash (uint i) (\<lambda>r. r\<lparr>s_contents := JItems (withdraw_items xs j n), s_updated := now\<rparr>) d"
    unfolding d1 using val by (simp add: stored_items_valid)
  have st1: "stash_total t d1 = stash_total t d - (if t = s then n else 0)" for t
    unfolding d1' stash_total_set [OF ok(3) rs] using wd(1) [of t] fd parse_Inr [OF ps, of t]
    by (simp add: contents_total_def [of _ "JItems _"])
  have ok1: "tables_ok d1"
    using ok wd(2) val stash_ok_set [of d] by (simp add: tables_ok_def d1')
  then have "inv_ok d1" by (simp add: tables_ok_def)
  from credit_inventory_spec [OF cr this n(1)] obtain k where k: "credited u s n k d1 d'" ..
  then have f: "only_inv_ids d1 d'" and kn: "k = n \<or> k = 0" by (simp_all add: credited_def)
  note fr = only_inv_ids_frame [OF f]
  have ok': "tables_ok d'" using k ok1 fr by (simp add: tables_ok_def credited_def world_ok_def stash_ok_def)
  have it1: "item_total t d1 = item_total t d - (if t = s then n else 0)" for t
    unfolding item_total_def st1 by (simp add: d1')
  have "n \<le> stash_total s d"
    using contents_total_le [OF ok(3) rs(1), of s] parse_Inr [OF ps, of s] fd j(2)
      items_total_ge_nth [OF xs(1), of j s] by simp
  moreover have "held_total u s d' = held_total u s d + k"
    using k by (simp add: credited_def held_total_def d1')
  moreover have "filter (owned v t) (d_inv d') = filter (owned v t) (d_inv d)" if "(v, t) \<noteq> (u, s)" for v t
    using k that by (auto simp: credited_def owned_def d1')
  moreover have "stash_total s d' = stash_total s d - n" by (simp add: stash_total_def fr st1 [of s, unfolded stash_total_def])
  ultimately show ?thesis using n j(3) fd ok' kn credited_item_total [OF k] it1
    by (intro exI [of _ k]) auto
qed

lemma deposit_fail: "deposit_item cfg i u level s n pb now d fl = (Inl e, d', fl') \<Longrightarrow> d' = d"
  by (auto simp: deposit_item_def dest: run_tx_atomic split: if_splits)

lemma withdraw_fail: "withdraw_item cfg i u level s n cond now d fl = (Inl e, d', fl') \<Longrightarrow> d' = d"
  by (auto simp: withdraw_item_def dest: run_tx_atomic split: if_splits)


section \<open>Lemmas: the coordinate grid\<close>

lemma rnd64_near:
  assumes "\<bar>q\<bar> \<le> pow2 (e + 53)" "- 1074 \<le> e" "e < 971"
  obtains r where "rnd64 q = Fin r" "\<bar>r - q\<bar> \<le> pow2 e"
  using that rnd64_fin [OF assms(1)] rnd_err [of q e 53 "- 1074"] assms by auto

lemma rnd64_grid: "\<bar>m\<bar> \<le> 2 ^ 53 \<Longrightarrow> rnd64 (of_int m * pow2 (- 1)) = Fin (of_int m * pow2 (- 1))"
proof -
  assume m: "\<bar>m\<bar> \<le> 2 ^ 53"
  from int_le_pow2 [OF this] have "\<bar>of_int m * pow2 (- 1)\<bar> \<le> pow2 53"
    by (simp add: abs_mult pow2_def)
  from rnd64_fin [OF this] repr_grid [of m 53 "- 1074" "- 1"] m show ?thesis by simp
qed

lemma rnd32_grid: "\<bar>m\<bar> \<le> 2 ^ 24 \<Longrightarrow> rnd32 (of_int m * pow2 (- 1)) = Fin (of_int m * pow2 (- 1))"
proof -
  assume m: "\<bar>m\<bar> \<le> 2 ^ 24"
  from int_le_pow2 [OF this] have "\<bar>of_int m * pow2 (- 1)\<bar> \<le> pow2 24"
    by (simp add: abs_mult pow2_def)
  from rnd32_fin [OF this] repr_grid [of m 24 "- 149" "- 1"] m show ?thesis by simp
qed

lemma half_pow2: "of_int m / 2 = (of_int m * pow2 (- 1) :: rat)"
  by (simp add: pow2_def)

lemma round_coord_of_floor:
  assumes "add64 (fdiv_const rnd64 (Fin q) (1 / 2)) (Fin (1 / 2)) = Fin b" "\<bar>\<lfloor>b\<rfloor>\<bar> \<le> 2 ^ 24"
  shows "round_world_stash_coord (Fin q) = Fin (of_int \<lfloor>b\<rfloor> / 2)"
proof -
  have "\<bar>\<lfloor>b\<rfloor>\<bar> \<le> 2 ^ 53" using assms(2) by simp
  then show ?thesis
    unfolding round_world_stash_coord_def assms(1)
    using rnd64_grid rnd32_grid [OF assms(2)] by (simp add: pow2_def)
qed

lemma round_coord_grid:
  assumes "\<bar>m\<bar> \<le> 2 ^ 24"
  shows "round_world_stash_coord (Fin (of_int m / 2)) = Fin (of_int m / 2)"
proof -
  have "\<bar>2 * m + 1\<bar> \<le> 2 ^ 53" "\<bar>m\<bar> \<le> 2 ^ 53" using assms by auto
  then have "add64 (fdiv_const rnd64 (Fin (of_int m / 2)) (1 / 2)) (Fin (1 / 2)) = Fin (of_int (2 * m + 1) * pow2 (- 1))"
    using rnd64_grid [of "2 * m + 1"] rnd64_int [of m] by (simp add: pow2_def add_divide_distrib)
  moreover have "\<lfloor>of_int (2 * m + 1) * pow2 (- 1)\<rfloor> = m"
    by (simp add: pow2_def floor_eq_iff)
  ultimately show ?thesis using round_coord_of_floor assms by simp
qed

lemma round_coord_near:
  assumes "\<bar>q\<bar> \<le> 2 ^ 22"
  shows "\<exists>m. round_world_stash_coord (Fin q) = Fin (of_int m / 2) \<and> \<bar>m\<bar> \<le> 2 ^ 24 \<and>
    \<bar>of_int m / 2 - q\<bar> \<le> 1 / 4 + pow2 (- 28)"
proof -
  have "\<bar>2 * q\<bar> \<le> pow2 (- 29 + 53)" using assms by (simp add: pow2_def abs_mult)
  from rnd64_near [OF this] obtain a where a: "rnd64 (2 * q) = Fin a" "\<bar>a - 2 * q\<bar> \<le> pow2 (- 29)"
    by auto
  have p: "pow2 (- 29) \<le> 1" "pow2 (- 28) \<le> 1" "pow2 (- 29) * 2 = pow2 (- 28)" by (simp_all add: pow2_def)
  have "\<bar>q\<bar> \<le> 4194304" using assms by simp
  with a(2) p have ab: "\<bar>a\<bar> \<le> 8388609" by linarith
  then have "\<bar>a + 1 / 2\<bar> \<le> pow2 (- 29 + 53)" by (simp add: pow2_def)
  from rnd64_near [OF this] obtain b where b: "rnd64 (a + 1 / 2) = Fin b" "\<bar>b - (a + 1 / 2)\<bar> \<le> pow2 (- 29)"
    by auto
  define m where "m = \<lfloor>b\<rfloor>"
  have m: "of_int m \<le> b" "b < of_int m + 1" using floor_correct [of b] by (simp_all add: m_def)
  have "of_int m \<le> (8388611 :: rat)" "- 8388611 \<le> (of_int m :: rat)" using m b(2) ab p(1) by linarith+
  then have "m \<le> 8388611" "- 8388611 \<le> m" by linarith+
  then have mb: "\<bar>m\<bar> \<le> 2 ^ 24" by simp
  have "add64 (fdiv_const rnd64 (Fin q) (1 / 2)) (Fin (1 / 2)) = Fin b"
    using a(1) b(1) by (simp add: mult.commute)
  from round_coord_of_floor [OF this] mb have "round_world_stash_coord (Fin q) = Fin (of_int m / 2)"
    by (simp add: m_def)
  moreover have "\<bar>of_int m / 2 - q\<bar> \<le> 1 / 4 + pow2 (- 28)"
    using m a(2) b(2) p by linarith
  ultimately show ?thesis using mb by blast
qed

section \<open>Properties\<close>

text \<open>C16: Depositing moves items and never makes any. When DepositItem succeeds, exactly \<open>n\<close> copies left
  the character's stacks and entered the contents of the stash, the item count of every section
  over inventories, world and stashes is what it was, nobody else's rows changed, and the tables
  stay well-formed; when it fails, at whatever statement, nothing changed.\<close>

theorem deposit_conserves:
  assumes "tables_ok d" and "valid_utf8 s" and "item_total s d < 2 ^ 63"
    and "deposit_item cfg i u level s n pb now d fl = (r, d', fl')"
  shows "case r of
      Inl e \<Rightarrow> d' = d
    | Inr c \<Rightarrow> 1 \<le> n \<and> n \<le> held_total u s d \<and> held_total u s d' = held_total u s d - n \<and>
        stash_total s d' = stash_total s d + n \<and> (\<forall>t. item_total t d' = item_total t d) \<and> tables_ok d' \<and>
        (\<forall>v t. (v, t) \<noteq> (u, s) \<longrightarrow> filter (owned v t) (d_inv d') = filter (owned v t) (d_inv d))"
proof (cases r)
  case (Inl e)
  with assms(4) show ?thesis by (auto dest: deposit_fail)
next
  case (Inr c)
  from deposit_success [OF assms(4) [unfolded Inr] assms(1-3)] Inr show ?thesis by simp
qed

definition demo_stash_db :: "stash_item list \<Rightarrow> inv_row list \<Rightarrow> database" where
  "demo_stash_db xs rs = (demo_db rs)\<lparr>d_stashes := [new_stash_row 1 ''l01_escape'' (Fin 0, Fin 0, Fin 0) (JItems xs) 0],
     d_stash_next := 2\<rparr>"

lemma valid_bread: "valid_utf8 ''bread''"
  by (intro valid_utf8_ascii) simp

lemma demo_stash_ok:
  "tables_ok (demo_stash_db [] [demo_row 1 30 (Fin 1)])"
  "tables_ok (demo_stash_db [\<lparr>si_section = ''bread'', si_count = 5, si_condition = 25\<rparr>] [])"
  by (simp_all add: tables_ok_def inv_ok_def world_ok_def stash_ok_def demo_stash_db_def demo_db_def
      demo_row_def new_stash_row_def valid_bread)

lemma condition_to_wire_full: "condition_to_wire (Fin 1) = 100"
  by (simp add: condition_to_wire_def)

lemma full_bucket: "sql_bucket (Fin 1) = Some 100"
  by (simp add: sat64_def)

lemma demo_json_short: "length (json_items [\<lparr>si_section = ''bread'', si_count = 12, si_condition = 100\<rparr>]) < 4096"
  by code_simp

theorem deposit_conserves_witness:
  "\<exists>d'. deposit_item True 1 ''u1'' ''l01_escape'' ''bread'' 12 100 7 (demo_stash_db [] [demo_row 1 30 (Fin 1)]) [] =
     (Inr 100, d', []) \<and> held_total ''u1'' ''bread'' d' = 18 \<and> stash_total ''bread'' d' = 12"
proof -
  let ?d = "demo_stash_db [] [demo_row 1 30 (Fin 1)]"
  obtain r d' fl' where e: "deposit_item True 1 ''u1'' ''l01_escape'' ''bread'' 12 100 7 ?d [] = (r, d', fl')"
    by (metis prod.exhaust)
  have h: "held_total ''u1'' ''bread'' ?d = 30" "stash_total ''bread'' ?d = 0" "item_total ''bread'' ?d = 30"
    by (simp_all add: held_total_def item_total_def world_total_def stash_total_def demo_stash_db_def demo_db_def
        demo_row_def owned_def new_stash_row_def)
  have c: "fl' = []" "r = Inr 100"
    using e demo_json_short
    by (auto simp: deposit_item_def deposit_body_def open_stash_def parse_stash_items_def lift_res_def
        deposit_items_def set_contents_def condition_to_wire_full full_bucket new_stash_row_def demo_stash_db_def demo_simps
        simp del: sql_bucket.simps)
  show ?thesis
    using deposit_conserves [OF demo_stash_ok(1) valid_bread _ e] e h unfolding c by auto
qed

text \<open>Withdrawing moves items and never makes any. When WithdrawItem succeeds the stash contents held
  the asked number in the asked condition bucket and lost exactly those; the character gained
  them (or, when the section is carried as loaded rounds, the item count dropped by \<open>n\<close>),
  every other section's count is unchanged and nobody else's rows changed; when it fails
  nothing changed.\<close>

theorem withdraw_no_dupe:
  assumes "tables_ok d" and "withdraw_item cfg i u level s n cond now d fl = (r, d', fl')"
  shows "case r of
      Inl e \<Rightarrow> d' = d
    | Inr c \<Rightarrow> 1 \<le> n \<and> c = word_of_int cond \<and> stash_total s d' = stash_total s d - n \<and> tables_ok d' \<and>
        (held_total u s d' = held_total u s d + n \<and> item_total s d' = item_total s d \<or>
         held_total u s d' = held_total u s d \<and> item_total s d' = item_total s d - n) \<and>
        (\<forall>t. t \<noteq> s \<longrightarrow> item_total t d' = item_total t d) \<and>
        (\<forall>v t. (v, t) \<noteq> (u, s) \<longrightarrow> filter (owned v t) (d_inv d') = filter (owned v t) (d_inv d))"
proof (cases r)
  case (Inl e)
  with assms(2) show ?thesis by (auto dest: withdraw_fail)
next
  case (Inr c)
  from withdraw_success [OF assms(2) [unfolded Inr] assms(1)] Inr show ?thesis by auto
qed

theorem withdraw_no_dupe_witness:
  "\<exists>d'. withdraw_item True 1 ''u1'' ''l01_escape'' ''bread'' 2 25 7
       (demo_stash_db [\<lparr>si_section = ''bread'', si_count = 5, si_condition = 25\<rparr>] []) [] = (Inr 25, d', []) \<and>
     stash_total ''bread'' d' = 3"
proof -
  let ?d = "demo_stash_db [\<lparr>si_section = ''bread'', si_count = 5, si_condition = 25\<rparr>] []"
  obtain r d' fl' where e: "withdraw_item True 1 ''u1'' ''l01_escape'' ''bread'' 2 25 7 ?d [] = (r, d', fl')"
    by (metis prod.exhaust)
  have h: "stash_total ''bread'' ?d = 5"
    by (simp add: stash_total_def demo_stash_db_def new_stash_row_def)
  have c: "fl' = []" "r = Inr 25"
    using e
    by (auto simp: withdraw_item_def withdraw_body_def open_stash_def parse_stash_items_def lift_res_def
        withdraw_items_def set_contents_def credit_inventory_def map_stash_def insert_inv_def
        new_stash_row_def demo_stash_db_def demo_simps)
  show ?thesis
    using withdraw_no_dupe [OF demo_stash_ok(2) e] e h unfolding c by auto
qed

text \<open>Rounding a coordinate onto the half-metre grid, done in float64 and narrowed to float32,
  gives a multiple of 1/2 within a quarter metre (and \<open>2^-28\<close> of rounding) of the input, and
  rounding the result again changes nothing, so the key a stash is stored under is the key that
  finds it.\<close>

theorem stash_grid_idempotent:
  assumes "\<bar>q\<bar> \<le> 2 ^ 22"
  shows "\<exists>m. round_world_stash_coord (Fin q) = Fin (of_int m / 2) \<and>
    \<bar>of_int m / 2 - q\<bar> \<le> 1 / 4 + pow2 (- 28) \<and>
    round_world_stash_coord (round_world_stash_coord (Fin q)) = round_world_stash_coord (Fin q)"
proof -
  from round_coord_near [OF assms] obtain m where
    m: "round_world_stash_coord (Fin q) = Fin (of_int m / 2)" "\<bar>m\<bar> \<le> 2 ^ 24"
       "\<bar>of_int m / 2 - q\<bar> \<le> 1 / 4 + pow2 (- 28)" by blast
  with round_coord_grid [OF m(2)] show ?thesis by metis
qed

theorem stash_grid_idempotent_witness:
  "\<exists>m. round_world_stash_coord (Fin (7 / 8)) = Fin (of_int m / 2)"
  using stash_grid_idempotent [of "7 / 8"] by auto


lemma feq_refl: "\<not> is_nan x \<Longrightarrow> feq x x"
  by (cases x) (auto simp: feq_def)

lemma try_select_eq:
  "try_select P d fl = (Inr (if fl = [] \<or> \<not> hd fl then scan_stash (List.find P (d_stashes d)) else Inl ErrSQL), d, tl fl)"
  by (cases fl) (auto simp: try_select_def select_stash_def stmt_def Let_def split: bool.splits)

lemma find_or_create_found:
  assumes "find_or_create_stash_at level p now d fl = (Inr rec, d', fl')"
    and "0 \<le> d_stash_next d" "d_stash_next d < 2 ^ 32"
  shows "\<exists>r. List.find (stash_at level p) (d_stashes d') = Some r \<and> word_of_int (s_id r) = sr_id rec \<and>
    0 \<le> s_id r \<and> s_id r < 2 ^ 32 \<and> (d' = d \<or> d_stashes d' = d_stashes d @ [r])"
proof -
  from assms(1) obtain fl0 fl1 where
    "bind (try_select (stash_at level p)) (found_or_insert level p now) d fl0 = (Inr rec, d', fl1)"
    unfolding find_or_create_stash_at_def by (blast dest!: run_tx_Inr)
  then obtain e fl2 where c: "found_or_insert level p now e d fl2 = (Inr rec, d', fl1)"
    and e: "e = scan_stash (List.find (stash_at level p) (d_stashes d)) \<or> e = Inl ErrSQL"
    by (auto simp: bind_Inr try_select_eq split: if_splits)
  show ?thesis
  proof (cases e)
    case (Inr x)
    with e c show ?thesis by (auto simp: found_or_insert_def scan_stash_def split: option.splits if_splits)
  next
    case (Inl g)
    with c have g: "g = ErrNoRows" by (auto simp: found_or_insert_def split: if_splits)
    with e Inl have none: "List.find (stash_at level p) (d_stashes d) = None"
      by (auto simp: scan_stash_def split: option.splits if_splits)
    let ?r = "new_stash_row (d_stash_next d) level p (JItems []) now"
    from c Inl g have i: "\<not> nan_pos p" "d_stashes d' = d_stashes d @ [?r]" "sr_id rec = word_of_int (d_stash_next d)"
      by (auto simp: found_or_insert_def tx_Inr insert_stash_def split: if_splits)
    then have "stash_at level p ?r" by (simp add: stash_at_def new_stash_row_def nan_pos_def feq_refl)
    moreover have "List.find P (xs @ [x]) = Some x" if "List.find P xs = None" "P x" for P :: "stash_row \<Rightarrow> bool" and xs x
      using that by (induction xs) (auto split: if_splits)
    ultimately show ?thesis using i none assms(2,3) by (simp add: new_stash_row_def)
  qed
qed

text \<open>One position key never materialises two stashes: once a store has resolved a stash at a key,
  every later store at that key resolves the same stash and inserts nothing, whatever statement
  of it fails.\<close>

theorem find_or_create_once:
  assumes "0 \<le> d_stash_next d" "d_stash_next d < 2 ^ 32"
    and "find_or_create_stash_at level p now d fl = (Inr rec, d', fl')"
    and "find_or_create_stash_at level p now' d' fl2 = (r, d'', fl2')"
  shows "d'' = d' \<and> (\<forall>rec'. r = Inr rec' \<longrightarrow> sr_id rec' = sr_id rec) \<and>
    length (d_stashes d') \<le> length (d_stashes d) + 1"
proof -
  from find_or_create_found [OF assms(3,1,2)] obtain row where
    row: "List.find (stash_at level p) (d_stashes d') = Some row" "word_of_int (s_id row) = sr_id rec"
      "0 \<le> s_id row" "s_id row < 2 ^ 32" "d' = d \<or> d_stashes d' = d_stashes d @ [row]" by blast
  have "d'' = d' \<and> (\<forall>rec'. r = Inr rec' \<longrightarrow> sr_id rec' = sr_id rec)"
  proof (cases r)
    case (Inl e)
    with assms(4) show ?thesis by (auto simp: find_or_create_stash_at_def dest: run_tx_atomic)
  next
    case (Inr x)
    with assms(4) obtain fl0 fl1 where
      "bind (try_select (stash_at level p)) (found_or_insert level p now') d' fl0 = (Inr x, d'', fl1)"
      unfolding find_or_create_stash_at_def by (blast dest!: run_tx_Inr)
    with row(1-4) Inr show ?thesis
      by (auto simp: bind_Inr try_select_eq found_or_insert_def scan_stash_def split: if_splits)
  qed
  moreover have "length (d_stashes d') \<le> length (d_stashes d) + 1"
    using row(5) by (elim disjE) simp_all
  ultimately show ?thesis by blast
qed

theorem find_or_create_once_witness:
  "\<exists>rec d'. find_or_create_stash_at ''l01_escape'' (Fin 1, Fin 2, Fin 3) 5 (demo_db []) [] = (Inr rec, d', []) \<and>
     snd (snd (find_or_create_stash_at ''l01_escape'' (Fin 1, Fin 2, Fin 3) 6 d' [])) = [] \<and>
     fst (snd (find_or_create_stash_at ''l01_escape'' (Fin 1, Fin 2, Fin 3) 6 d' [])) = d'"
proof -
  let ?p = "(Fin 1, Fin 2, Fin 3)"
  obtain r d' fl' where e: "find_or_create_stash_at ''l01_escape'' ?p 5 (demo_db []) [] = (r, d', fl')"
    by (metis prod.exhaust)
  then have c: "fl' = []" "\<exists>x. r = Inr x" "d_stashes d' = [new_stash_row 1 ''l01_escape'' ?p (JItems []) 5]"
    by (auto simp: find_or_create_stash_at_def run_tx_def tx_defs try_select_def found_or_insert_def select_stash_def scan_stash_def
        insert_stash_def nan_pos_def demo_db_def)
  obtain r2 d'' fl'' where e2: "find_or_create_stash_at ''l01_escape'' ?p 6 d' [] = (r2, d'', fl'')"
    by (metis prod.exhaust)
  have "fl'' = []"
    using e2 c(3) by (auto simp: find_or_create_stash_at_def run_tx_def tx_defs try_select_def found_or_insert_def select_stash_def
        scan_stash_def stash_at_def new_stash_row_def feq_def)
  moreover have "0 \<le> d_stash_next (demo_db [])" "d_stash_next (demo_db []) < 2 ^ 32" by (simp_all add: demo_db_def)
  ultimately show ?thesis
    using find_or_create_once [OF _ _ _ e2, of "demo_db []" 5 "[]" _ fl'] e e2 c by auto
qed


end
