(* ===== verification/Economy.thy ===== *)
theory Economy
  imports StashManager
begin

text \<open>
  The wallet: internal/game/economy.go over the \<open>rubles\<close> and \<open>economy_tier\<close> columns. Every
  operation that moves money is one transaction; the ones that also move items share the
  removal and credit of \<open>Inventory\<close>. Go's \<open>int\<close> balances wrap at 64 bits (\<open>wrap64\<close>);
  additions that SQLite performs are not bounded here.
\<close>

section \<open>The character row\<close>

definition update_char :: "string \<Rightarrow> (char_row \<Rightarrow> char_row) \<Rightarrow> database \<Rightarrow> (gerr + nat) \<times> database" where
  "update_char uuid f d = (case d_chars d uuid of
     None \<Rightarrow> (Inr 0, d)
   | Some c \<Rightarrow> (Inr 1, d\<lparr>d_chars := (d_chars d)(uuid \<mapsto> f c)\<rparr>))"

definition set_rubles :: "int \<Rightarrow> int \<Rightarrow> char_row \<Rightarrow> char_row" where
  "set_rubles n now c = c\<lparr>c_rubles := n, c_updated := now\<rparr>"

definition add_rubles :: "int \<Rightarrow> int \<Rightarrow> char_row \<Rightarrow> char_row" where
  "add_rubles n now c = c\<lparr>c_rubles := c_rubles c + n, c_updated := now\<rparr>"

definition select_rubles :: "string \<Rightarrow> int tx" where
  "select_rubles uuid = bind (query (\<lambda>d. d_chars d uuid)) (\<lambda>row. case row of
     None \<Rightarrow> fail ErrCharacterNotFound | Some c \<Rightarrow> ret (c_rubles c))"

section \<open>Operations\<close>

text \<open>A purchase the wallet cannot pay, and a sale of items not held, roll back and answer
  \<open>false\<close> without an error. The balance check has no sentinel of its own in the source:
  \<open>ErrInsufficientFunds\<close> stands for its early return.\<close>

fun no_funds :: "'a \<Rightarrow> gerr \<Rightarrow> 'a option" where
  "no_funds x e = (if e = ErrInsufficientFunds then Some x else None)"

fun no_items :: "'a \<Rightarrow> gerr \<Rightarrow> 'a option" where
  "no_items x (ErrInsufficientItems _) = Some x"
| "no_items x _ = None"

definition get_balance :: "bool \<Rightarrow> string \<Rightarrow> int tx" where
  "get_balance configured uuid = (if \<not> configured then fail ErrDBNotConfigured else select_rubles uuid)"

definition add_currency :: "bool \<Rightarrow> string \<Rightarrow> int \<Rightarrow> int \<Rightarrow> unit tx" where
  "add_currency configured uuid amount now =
     (if \<not> configured then fail ErrDBNotConfigured
      else run_tx (bind (select_rubles uuid) (\<lambda>rubles.
        let new_balance = wrap64 (rubles + amount) in
        if new_balance < 0 then fail ErrInsufficientFunds
        else bind (stmt (update_char uuid (set_rubles new_balance now))) (\<lambda>_. ret ()))))"

definition buy_item :: "bool \<Rightarrow> string \<Rightarrow> string \<Rightarrow> int \<Rightarrow> int \<Rightarrow> bool tx" where
  "buy_item configured uuid section price now =
     (if price < 0 then fail ErrNegativePrice
      else if \<not> configured then fail ErrDBNotConfigured
      else answer (no_funds False) (run_tx (bind (select_rubles uuid) (\<lambda>rubles.
        if rubles < price then fail ErrInsufficientFunds
        else bind (stmt (update_char uuid (set_rubles (rubles - price) now))) (\<lambda>_.
             bind (stmt (insert_inv uuid section 1 (Fin 1) 0 (- 1))) (\<lambda>_. ret True))))))"

definition sell_item :: "bool \<Rightarrow> string \<Rightarrow> string \<Rightarrow> int \<Rightarrow> int \<Rightarrow> bool tx" where
  "sell_item configured uuid section price now =
     (if price < 0 then fail ErrNegativePrice
      else if \<not> configured then fail ErrDBNotConfigured
      else answer (no_items False) (run_tx (bind (remove_inventory uuid section 1 (- 1)) (\<lambda>_.
        bind (stmt (update_char uuid (add_rubles price now))) (\<lambda>_. ret True)))))"

definition sell_items :: "bool \<Rightarrow> string \<Rightarrow> string \<Rightarrow> int \<Rightarrow> int \<Rightarrow> int \<Rightarrow> (u8 \<times> bool) tx" where
  "sell_items configured uuid section count price now =
     (if count \<le> 0 \<or> price \<le> 0 then ret (0, False)
      else if \<not> configured then fail ErrDBNotConfigured
      else answer (no_items (0, False)) (run_tx (bind (remove_inventory uuid section count (- 1)) (\<lambda>(_, cond).
        bind (stmt (update_char uuid (add_rubles price now))) (\<lambda>rows.
          if rows = 0 then fail ErrCharacterNotFound else ret (condition_to_wire cond, True))))))"

definition buy_items :: "bool \<Rightarrow> string \<Rightarrow> string \<Rightarrow> int \<Rightarrow> u8 \<Rightarrow> int \<Rightarrow> int \<Rightarrow> bool tx" where
  "buy_items configured uuid section count bucket price now =
     (if count \<le> 0 \<or> price \<le> 0 then ret False
      else if \<not> configured then fail ErrDBNotConfigured
      else answer (no_funds False) (run_tx (bind (select_rubles uuid) (\<lambda>rubles.
        if rubles < price then fail ErrInsufficientFunds
        else bind (stmt (update_char uuid (set_rubles (rubles - price) now))) (\<lambda>_.
             bind (credit_inventory uuid section count bucket) (\<lambda>_. ret True))))))"

definition get_tier :: "bool \<Rightarrow> string \<Rightarrow> int tx" where
  "get_tier configured uuid = (if \<not> configured then fail ErrDBNotConfigured
     else bind (query (\<lambda>d. d_chars d uuid)) (\<lambda>row. case row of
       None \<Rightarrow> fail ErrCharacterNotFound | Some c \<Rightarrow> ret (c_economy_tier c)))"

definition set_tier :: "bool \<Rightarrow> string \<Rightarrow> int \<Rightarrow> int \<Rightarrow> unit tx" where
  "set_tier configured uuid tier now = (if \<not> configured then fail ErrDBNotConfigured
     else bind (stmt (update_char uuid (\<lambda>c. c\<lparr>c_economy_tier := tier, c_updated := now\<rparr>))) (\<lambda>rows.
       if rows = 0 then fail ErrCharacterNotFound else ret ()))"

section \<open>Wallets\<close>

definition wallet :: "string \<Rightarrow> database \<Rightarrow> int" where
  "wallet uuid d = (case d_chars d uuid of None \<Rightarrow> 0 | Some c \<Rightarrow> c_rubles c)"

definition wallets_ok :: "database \<Rightarrow> bool" where
  "wallets_ok d \<longleftrightarrow> (\<forall>u c. d_chars d u = Some c \<longrightarrow> 0 \<le> c_rubles c)"

definition wallets_kept :: "database \<Rightarrow> database \<Rightarrow> bool" where
  "wallets_kept d d' \<longleftrightarrow> (wallets_ok d \<longrightarrow> wallets_ok d')"

interpretation wallets: tx_rel wallets_kept
  by unfold_locales (auto simp: wallets_kept_def)

text \<open>The money operations as one type of command, for properties of whole histories.\<close>

datatype money_op = AddCurrency string int | BuyItem string string int | SellItem string string int
  | SellItems string string int int | BuyItems string string int u8 int | SetTier string int

fun run_money :: "money_op \<Rightarrow> int \<Rightarrow> database \<Rightarrow> faults \<Rightarrow> database" where
  "run_money (AddCurrency u n) now d fl = db_of (add_currency True u n now d fl)"
| "run_money (BuyItem u s p) now d fl = db_of (buy_item True u s p now d fl)"
| "run_money (SellItem u s p) now d fl = db_of (sell_item True u s p now d fl)"
| "run_money (SellItems u s n p) now d fl = db_of (sell_items True u s n p now d fl)"
| "run_money (BuyItems u s n b p) now d fl = db_of (buy_items True u s n b p now d fl)"
| "run_money (SetTier u t) now d fl = db_of (set_tier True u t now d fl)"

fun run_history :: "(money_op \<times> int \<times> faults) list \<Rightarrow> database \<Rightarrow> database" where
  "run_history [] d = d"
| "run_history ((m, now, fl) # ms) d = run_history ms (run_money m now d fl)"

section \<open>Lemmas\<close>

lemma update_char_frame [simp]:
  "d_inv (snd (update_char u f d)) = d_inv d" "d_inv_next (snd (update_char u f d)) = d_inv_next d"
  "d_world (snd (update_char u f d)) = d_world d" "d_stashes (snd (update_char u f d)) = d_stashes d"
  "d_world_next (snd (update_char u f d)) = d_world_next d" "d_stash_next (snd (update_char u f d)) = d_stash_next d"
  by (simp_all add: update_char_def split: option.splits)

lemma update_char_dom [simp]: "(d_chars (snd (update_char u f d)) v = None) = (d_chars d v = None)"
  by (simp add: update_char_def split: option.splits)

lemma same_others_wallets: "same_others d d' \<Longrightarrow> wallets_kept d d'"
  by (simp add: same_others_def wallets_kept_def wallets_ok_def)

lemma wallets_keeps_others: "others.keeps m \<Longrightarrow> wallets.keeps m"
  by (simp add: others.keeps_def wallets.keeps_def same_others_wallets)

lemma wallets_keeps_set: "0 \<le> n \<Longrightarrow> wallets.keeps (stmt (update_char u (set_rubles n now)))"
  by (rule wallets.keeps_stmt)
     (auto simp: wallets_kept_def wallets_ok_def update_char_def set_rubles_def split: option.splits)

lemma wallets_keeps_add: "0 \<le> n \<Longrightarrow> wallets.keeps (stmt (update_char u (add_rubles n now)))"
  by (rule wallets.keeps_stmt)
     (fastforce simp: wallets_kept_def wallets_ok_def update_char_def add_rubles_def split: option.splits)

lemma wallets_keeps_select: "wallets.keeps (select_rubles u)"
  unfolding select_rubles_def
  by (intro wallets.keeps_bind wallets.keeps_query) (auto split: option.splits intro: wallets.keeps_fail wallets.keeps_ret)

lemma wallets_keeps_insert: "wallets.keeps (stmt (insert_inv u s n c a sl))"
  by (intro wallets_keeps_others others.keeps_stmt) simp

lemma wallets_keeps_remove: "wallets.keeps (remove_inventory u s n pb)"
  by (rule wallets_keeps_others [OF keeps_remove_inventory])
lemmas wallet_rules = wallets.keeps_answer wallets.keeps_run wallets.keeps_bind wallets.keeps_ret wallets.keeps_fail
  wallets_keeps_select wallets_keeps_set wallets_keeps_add wallets_keeps_insert wallets_keeps_remove
  wallets_keeps_others [OF keeps_credit_inventory]

lemma wallets_keeps_ops:
  "wallets.keeps (add_currency cfg u n now)" "wallets.keeps (buy_item cfg u s p now)"
  "wallets.keeps (sell_item cfg u s p now)" "wallets.keeps (sell_items cfg u s n p now)"
  "wallets.keeps (buy_items cfg u s n b p now)"
  unfolding add_currency_def buy_item_def sell_item_def sell_items_def buy_items_def Let_def
  by (auto intro!: wallet_rules split: option.splits)

lemma wallets_keeps_tier: "wallets.keeps (set_tier cfg u t now)"
  unfolding set_tier_def
  by (auto intro!: wallet_rules wallets.keeps_stmt
      simp: wallets_kept_def wallets_ok_def update_char_def split: option.splits)

lemma run_money_wallets: "wallets_ok d \<Longrightarrow> wallets_ok (run_money m now d fl)"
  using wallets.keepsD [OF wallets_keeps_ops(1)] wallets.keepsD [OF wallets_keeps_ops(2)]
    wallets.keepsD [OF wallets_keeps_ops(3)] wallets.keepsD [OF wallets_keeps_ops(4)]
    wallets.keepsD [OF wallets_keeps_ops(5)] wallets.keepsD [OF wallets_keeps_tier]
  by (cases m) (auto simp: wallets_kept_def)

lemma select_rubles_Inr: "select_rubles u d fl = (Inr n, d', fl') \<Longrightarrow>
    d' = d \<and> (\<exists>c. d_chars d u = Some c \<and> c_rubles c = n)"
  by (auto simp: select_rubles_def tx_Inr split: option.splits)

lemma inv_ok_update_char: "inv_ok (snd (update_char u f d)) = inv_ok d"
  by (simp add: inv_ok_def)

lemma update_char_item_total [simp]: "item_total s (snd (update_char u f d)) = item_total s d"
  by (simp add: item_total_def world_total_def stash_total_def)

section \<open>Properties\<close>

text \<open>No history of money operations, with whatever statements failing, takes a wallet below
  zero.\<close>

theorem wallets_never_negative:
  assumes "wallets_ok d"
  shows "wallets_ok (run_history ms d)"
  using assms by (induction ms arbitrary: d) (auto simp: run_money_wallets)

theorem wallets_never_negative_witness:
  "wallets_ok (run_history [(AddCurrency ''u1'' (- 9000), 0, []), (BuyItem ''u1'' ''bread'' 5000, 1, [False, True])] (demo_db []))"
  by (rule wallets_never_negative) (simp add: wallets_ok_def demo_db_def demo_char_def)

text \<open>C20: A purchase is a fair exchange. When BuyItems answers true the wallet held the price and pays
  exactly it, and the buyer's stacks gain exactly \<open>n\<close> items, or, where the section is carried as loaded rounds, one of
  the buyer's rows gains \<open>n\<close> rounds (up to 65535) and no other row changes; when it answers false or
  fails, nothing changed: money is never taken without the goods.\<close>

theorem buy_exact:
  assumes "inv_ok d" and "buy_items True u s n b p now d fl = (r, d', fl')"
  shows "case r of
      Inr True \<Rightarrow> 0 < p \<and> p \<le> wallet u d \<and> wallet u d' = wallet u d - p \<and>
        (\<forall>v. v \<noteq> u \<longrightarrow> d_chars d' v = d_chars d v) \<and> inv_ok d' \<and>
        (held_total u s d' = held_total u s d + n \<and> item_total s d' = item_total s d + n \<or>
         rounds_loaded u s n (d_inv d) (d_inv d') \<and> held_total u s d' = held_total u s d \<and> item_total s d' = item_total s d)
    | _ \<Rightarrow> d' = d"
proof (cases "r = Inr True")
  case False
  have "d' = d" if "r = Inr False"
    using assms(2) that
    by (auto simp: buy_items_def bind_Inr answer_Inr split: if_splits dest!: run_tx_Inr dest: run_tx_atomic)
  with False assms(2) show ?thesis
    by (auto simp: buy_items_def answer_Inl dest: run_tx_atomic split: sum.splits bool.splits if_splits)
next
  case True
  with assms(2) have np: "0 < n" "0 < p" by (auto simp: buy_items_def split: if_splits)
  from assms(2) True np obtain c fl2 fl3 d1 where
    c: "d_chars d u = Some c" "p \<le> c_rubles c"
    and d1: "d1 = snd (update_char u (set_rubles (c_rubles c - p) now) d)"
    and cr: "credit_inventory u s n b d1 fl2 = (Inr (), d', fl3)"
    by (auto simp: buy_items_def bind_Inr stmt_Inr answer_Inr split: if_splits dest!: run_tx_Inr select_rubles_Inr)
  have "inv_ok d1" using assms(1) by (simp add: d1 inv_ok_update_char)
  from credit_inventory_exact [OF cr this] np obtain k
    where k: "credited u s n k d1 d'" and g: "k = n \<or> rounds_loaded u s n (d_inv d) (d_inv d')" by (auto simp: d1)
  then have f: "only_inv_ids d1 d'" and kn: "k = n \<or> k = 0" and ok: "inv_ok d'" by (auto simp: credited_def)
  have h: "held_total u s d' = held_total u s d + k"
    using k by (simp add: credited_def held_total_def d1)
  have "d_chars d' = (d_chars d)(u \<mapsto> set_rubles (c_rubles c - p) now c)"
    using only_inv_ids_frame(5) [OF f] c by (simp add: d1 update_char_def)
  with True np c ok kn g h credited_item_total(1) [OF k] show ?thesis
    by (auto simp: wallet_def set_rubles_def d1)
qed

definition demo_buy :: "(gerr + bool) \<times> database \<times> faults" where
  "demo_buy = buy_items True ''u1'' ''bread'' 2 100 300 9 (demo_db [demo_row 1 30 (Fin 1)]) []"

theorem buy_exact_witness:
  "fst demo_buy = Inr True \<and> wallet ''u1'' (db_of demo_buy) = 4700"
proof -
  obtain r d' fl' where e: "demo_buy = (r, d', fl')" by (metis prod.exhaust)
  have r: "r = Inr True"
    using e full_bucket by (auto simp: demo_buy_def buy_items_def answer_def select_rubles_def update_char_def set_rubles_def
        credit_inventory_def demo_char_def demo_simps simp del: sql_bucket.simps)
  have w: "wallet ''u1'' (demo_db [demo_row 1 30 (Fin 1)]) = 5000"
    by (simp add: wallet_def demo_db_def demo_char_def)
  show ?thesis
    using buy_exact [OF demo_db_ok e [unfolded demo_buy_def]] w by (simp add: e r)
qed

text \<open>A sale is a fair exchange. When SellItems answers true the seller held the items, exactly
  \<open>n\<close> left its stacks and exactly the price entered its wallet; when it answers false or
  fails, nothing changed.\<close>

theorem sell_exact:
  assumes "inv_ok d" and "sell_items True u s n p now d fl = (r, d', fl')"
  shows "case r of
      Inr (_, True) \<Rightarrow> 0 < n \<and> n \<le> held_total u s d \<and> held_total u s d' = held_total u s d - n \<and>
        item_total s d' = item_total s d - n \<and> wallet u d' = wallet u d + p \<and>
        (\<forall>v. v \<noteq> u \<longrightarrow> d_chars d' v = d_chars d v) \<and> inv_ok d'
    | _ \<Rightarrow> d' = d"
proof (cases "\<exists>x. r = Inr (x, True)")
  case False
  have "d' = d" if "r = Inr (x, False)" for x
    using assms(2) that
    by (auto simp: sell_items_def bind_Inr answer_Inr split: if_splits dest!: run_tx_Inr dest: run_tx_atomic)
  with False assms(2) show ?thesis
    by (auto simp: sell_items_def answer_Inl dest: run_tx_atomic split: sum.splits bool.splits if_splits)
next
  case True
  then obtain x where r: "r = Inr (x, True)" ..next
  case True
  then obtain x where r: "r = Inr (x, True)" ..
  with assms(2) have np: "0 < n" "0 < p" by (auto simp: sell_items_def split: if_splits)
  from assms(2) r np obtain fl1 fl2 tot c d1 where
    rm: "remove_inventory u s n (- 1) d fl1 = (Inr (tot, c), d1, fl2)"
    and d': "d' = snd (update_char u (add_rubles p now) d1)" "d_chars d1 u \<noteq> None"
    by (auto simp: sell_items_def bind_Inr stmt_Inr answer_Inr update_char_def elim!: no_items.elims
        split: if_splits option.splits dest!: run_tx_Inr)
  from np have "0 \<le> n" by simp
  note spec = remove_inventory_spec [OF rm assms(1) this]
  note fr = only_inv_frame [OF spec(4)]
  have tot: "item_total s d1 = item_total s d - n"
    using spec(6) fr by (simp add: item_total_def world_total_def stash_total_def)
  have ch: "d_chars d' = (d_chars d)(u := map_option (add_rubles p now) (d_chars d u))" "d_chars d u \<noteq> None"
    using d' fr by (auto simp: update_char_def)
  have h: "held_total u s d' = held_total u s d - n" using spec(5) by (simp add: d'(1) held_total_def)
  show ?thesis
    using r np spec(1,2) h tot ch spec(3)
    by (auto simp: d'(1) inv_ok_update_char wallet_def add_rubles_def)
qed

definition demo_sell :: "(gerr + u8 \<times> bool) \<times> database \<times> faults" where
  "demo_sell = sell_items True ''u1'' ''bread'' 2 300 9 (demo_db [demo_row 1 30 (Fin 1)]) []"

theorem sell_exact_witness:
  "\<exists>x. fst demo_sell = Inr (x, True) \<and> wallet ''u1'' (db_of demo_sell) = 5300"
proof -
  obtain r d' fl' where e: "demo_sell = (r, d', fl')" by (metis prod.exhaust)
  have r: "\<exists>x. r = Inr (x, True)"
    using e full_bucket by (auto simp: demo_sell_def sell_items_def answer_def update_char_def add_rubles_def
        demo_char_def demo_simps simp del: sql_bucket.simps)
  have w: "wallet ''u1'' (demo_db [demo_row 1 30 (Fin 1)]) = 5000"
    by (simp add: wallet_def demo_db_def demo_char_def)
  show ?thesis
    using sell_exact [OF demo_db_ok e [unfolded demo_sell_def]] r w by (auto simp only: e fst_conv snd_conv) simp
qed

end
