(* ===== verification/Wire.thy ===== *)
theory Wire
  imports GoFloat
begin

text \<open>
  The wire format of internal/protocol: little-endian fields as \<open>encoding/binary\<close> writes and
  reads them. A struct is the list of its fields in declaration order, as the reflection of
  \<open>binary.Write\<close> sees it; a schema is the list of their types and is what \<open>binary.Read\<close> is
  driven by. A \<open>float32\<close> travels as its IEEE bits; NaN payloads and the sign of zero, which the
  value type does not carry, are the canonical ones.
\<close>

type_synonym bytes = "u8 list"

section \<open>Bytes and bits\<close>

definition byte_of :: "char \<Rightarrow> u8" where
  "byte_of c = word_of_nat (of_char c)"

definition char_of_byte :: "u8 \<Rightarrow> char" where
  "char_of_byte b = char_of (unat b)"

fun le_bytes :: "nat \<Rightarrow> nat \<Rightarrow> bytes" where
  "le_bytes 0 x = []"
| "le_bytes (Suc n) x = word_of_nat (x mod 256) # le_bytes n (x div 256)"

fun le_value :: "bytes \<Rightarrow> nat" where
  "le_value [] = 0"
| "le_value (b # bs) = unat b + 256 * le_value bs"

definition f32_bits_pos :: "rat \<Rightarrow> int" where
  "f32_bits_pos q = (let e = max (ilog2 q) (- 126); m = \<lfloor>q / pow2 (e - 23)\<rfloor>
     in (if m < 2 ^ 23 then 0 else e + 127) * 2 ^ 23 + m mod 2 ^ 23)"

fun f32_bits :: "f32 \<Rightarrow> u32" where
  "f32_bits FNaN = 0x7FC00000"
| "f32_bits (FInf s) = (if s then 0xFF800000 else 0x7F800000)"
| "f32_bits (Fin q) = (if q = 0 then 0 else if q < 0 then word_of_int (2 ^ 31 + f32_bits_pos (- q))
     else word_of_int (f32_bits_pos q))"

definition f32_mag :: "int \<Rightarrow> int \<Rightarrow> rat" where
  "f32_mag e f = (if e = 0 then of_int f * pow2 (- 149) else of_int (2 ^ 23 + f) * pow2 (e - 150))"

definition f32_frombits :: "u32 \<Rightarrow> f32" where
  "f32_frombits w = (let x = uint w; neg = 2 ^ 31 \<le> x; e = (x div 2 ^ 23) mod 256; f = x mod 2 ^ 23 in
     if e = 255 then (if f = 0 then FInf neg else FNaN)
     else Fin (if neg then - f32_mag e f else f32_mag e f))"

section \<open>Fields and structs\<close>

datatype field = U8 u8 | U16 u16 | U32 u32 | U64 u64 | F32 f32 | Bytes string

datatype field_type = TU8 | TU16 | TU32 | TU64 | TF32 | TBytes nat

fun type_size :: "field_type \<Rightarrow> nat" where
  "type_size TU8 = 1"
| "type_size TU16 = 2"
| "type_size TU32 = 4"
| "type_size TU64 = 8"
| "type_size TF32 = 4"
| "type_size (TBytes n) = n"

fun put_field :: "field \<Rightarrow> bytes" where
  "put_field (U8 b) = [b]"
| "put_field (U16 w) = le_bytes 2 (unat w)"
| "put_field (U32 w) = le_bytes 4 (unat w)"
| "put_field (U64 w) = le_bytes 8 (unat w)"
| "put_field (F32 x) = le_bytes 4 (unat (f32_bits x))"
| "put_field (Bytes s) = map byte_of s"

fun get_field :: "field_type \<Rightarrow> bytes \<Rightarrow> field" where
  "get_field TU8 bs = U8 (hd bs)"
| "get_field TU16 bs = U16 (word_of_nat (le_value bs))"
| "get_field TU32 bs = U32 (word_of_nat (le_value bs))"
| "get_field TU64 bs = U64 (word_of_nat (le_value bs))"
| "get_field TF32 bs = F32 (f32_frombits (word_of_nat (le_value bs)))"
| "get_field (TBytes n) bs = Bytes (map char_of_byte bs)"

fun field_ok :: "field_type \<Rightarrow> field \<Rightarrow> bool" where
  "field_ok TU8 (U8 _) = True"
| "field_ok TU16 (U16 _) = True"
| "field_ok TU32 (U32 _) = True"
| "field_ok TU64 (U64 _) = True"
| "field_ok TF32 (F32 x) = is_f32 x"
| "field_ok (TBytes n) (Bytes s) = (length s = n)"
| "field_ok _ _ = False"

definition put_struct :: "field list \<Rightarrow> bytes" where
  "put_struct fs = concat (map put_field fs)"

fun get_struct :: "field_type list \<Rightarrow> bytes \<Rightarrow> (field list \<times> bytes) option" where
  "get_struct [] bs = Some ([], bs)"
| "get_struct (t # ts) bs = (if length bs < type_size t then None else
     case get_struct ts (drop (type_size t) bs) of
       None \<Rightarrow> None
     | Some (fs, rest) \<Rightarrow> Some (get_field t (take (type_size t) bs) # fs, rest))"

definition struct_size :: "field_type list \<Rightarrow> nat" where
  "struct_size ts = sum_list (map type_size ts)"

section \<open>Lemmas\<close>

lemma length_le_bytes [simp]: "length (le_bytes n x) = n"
  by (induction n arbitrary: x) auto

lemma le_value_bytes: "le_value (le_bytes n x) = x mod 256 ^ n"
proof (induction n arbitrary: x)
  case (Suc n)
  have "unat (word_of_nat (x mod 256) :: u8) = x mod 256"
    by (simp add: unat_of_nat)
  then show ?case using Suc mod_mult2_eq [of x 256 "256 ^ n"] by simp
qed simp

lemma le_value_bytes_word:
  fixes w :: "'a::len word"
  assumes "2 ^ LENGTH('a) \<le> (256 ^ n :: nat)"
  shows "word_of_nat (le_value (le_bytes n (unat w))) = w"
proof -
  have "unat w < 256 ^ n" using assms unsigned_less [of w, where 'a = nat] by linarith
  then show ?thesis by (simp add: le_value_bytes)
qed

lemma char_of_byte_of [simp]: "char_of_byte (byte_of c) = c"
proof -
  have "of_char c < (256 :: nat)" by simp
  then have "unat (byte_of c) = of_char c" by (simp add: byte_of_def unat_of_nat)
  then show ?thesis by (simp add: char_of_byte_def)
qed

lemma map_char_of_byte_of [simp]: "map (char_of_byte \<circ> byte_of) s = s"
  by (induction s) auto

text \<open>The bits of a positive \<open>float32\<close> and back.\<close>

lemma repr_pos_int:
  assumes "repr p em q" "0 < q"
  shows "of_int \<lfloor>q / pow2 (ulp_exp p em q)\<rfloor> = q / pow2 (ulp_exp p em q)"
proof -
  have "q = of_int (round_even (q / pow2 (ulp_exp p em q))) * pow2 (ulp_exp p em q)"
    using assms rnd_eq [of q p em] by (simp add: repr_def)
  then have "q / pow2 (ulp_exp p em q) = of_int (round_even (q / pow2 (ulp_exp p em q)))"
    by (simp add: nonzero_divide_eq_eq)
  then show ?thesis by (metis floor_of_int)
qed

lemma f32_pos_roundtrip:
  assumes "repr 24 (- 149) q" "0 < q" "q < pow2 128"
  defines "x \<equiv> f32_bits_pos q"
  shows "0 \<le> x" "x < 255 * 2 ^ 23" "f32_mag (x div 2 ^ 23) (x mod 2 ^ 23) = q"
proof -
  define e where "e = max (ilog2 q) (- 126)"
  define m where "m = \<lfloor>q / pow2 (e - 23)\<rfloor>"
  have u: "ulp_exp 24 (- 149) q = e - 23" using assms(2) by (auto simp: ulp_exp_def e_def)
  have q: "q = of_int m * pow2 (e - 23)"
  proof -
    have "of_int m = q / pow2 (e - 23)" using repr_pos_int [OF assms(1,2)] by (simp only: u m_def)
    then show ?thesis by simp
  qed
  have qlt: "q < pow2 (ilog2 q + 1)" and qge: "pow2 (ilog2 q) \<le> q" using ilog2_bounds [OF assms(2)] by simp_all
  have "pow2 (ilog2 q) < pow2 128" using qge assms(3) by linarith
  then have e: "- 126 \<le> e" "e \<le> 127" by (simp_all add: e_def)
  have "q < pow2 (e + 1)" using qlt pow2_le_iff [of "ilog2 q + 1" "e + 1"] by (simp add: e_def less_le_trans)
  also have "pow2 (e + 1) = pow2 24 * pow2 (e - 23)" using pow2_add [of 24 "e - 23"] by (simp add: add.commute)
  finally have "of_int m < pow2 24" using q by simp
  also have "pow2 24 = of_int (2 ^ 24)" by (simp add: pow2_nat)
  finally have m1: "m < 2 ^ 24" by (simp only: of_int_less_iff)
  have m0: "0 \<le> m" using assms(2) by (simp add: m_def)
  have small: "e = - 126" if "m < 2 ^ 23"
  proof (rule ccontr)
    assume "e \<noteq> - 126"
    then have "e = ilog2 q" by (auto simp: e_def)
    then have "pow2 23 * pow2 (e - 23) \<le> q" using qge by (simp flip: pow2_add)
    then have "pow2 23 \<le> of_int m" using q by simp
    moreover have "pow2 23 = of_int (2 ^ 23)" by (simp add: pow2_nat)
    ultimately have "2 ^ 23 \<le> m" by (simp only: of_int_le_iff)
    with that show False by simp
  qed
  have x: "x = (if m < 2 ^ 23 then 0 else e + 127) * 2 ^ 23 + m mod 2 ^ 23"
    by (simp add: x_def f32_bits_pos_def Let_def e_def m_def)
  have r: "m mod 2 ^ 23 < 2 ^ 23" "0 \<le> m mod 2 ^ 23" by simp_all
  have d: "x div 2 ^ 23 = (if m < 2 ^ 23 then 0 else e + 127)" "x mod 2 ^ 23 = m mod 2 ^ 23"
    unfolding x using r by simp_all
  show "0 \<le> x" "x < 255 * 2 ^ 23" unfolding x using r e by auto
  show "f32_mag (x div 2 ^ 23) (x mod 2 ^ 23) = q"
  proof (cases "m < 2 ^ 23")
    case True
    then show ?thesis unfolding d f32_mag_def using q small [OF True] m0 by simp
  next
    case False
    then have "m mod 2 ^ 23 = m - 2 ^ 23" using m1 mod_pos_pos_trivial [of "m - 2 ^ 23" "2 ^ 23"]
      by (simp add: mod_diff_right_eq [symmetric])
    then show ?thesis unfolding d f32_mag_def using q False e by (simp add: algebra_simps)
  qed
qed

lemma div_255: "(x::int) < 255 * 2 ^ 23 \<Longrightarrow> x div 2 ^ 23 < 255"
  by (simp add: div_less_iff_less_mult)

lemma f32_bits_roundtrip: "is_f32 x \<Longrightarrow> f32_frombits (f32_bits x) = x"
proof (induction x rule: f32_bits.induct)
  case (3 q)
  have neg: "repr 24 (- 149) (- q)" if "repr 24 (- 149) q" using that by (simp add: repr_def rnd_neg)
  consider "q = 0" | "0 < q" | "0 < - q" by linarith
  then show ?case
  proof cases
    case 1
    then show ?thesis by (simp add: f32_frombits_def f32_mag_def)
  next
    case 2
    then have r: "repr 24 (- 149) q" "q < pow2 128" using 3 by (simp_all add: is_f32_def)
    note rt = f32_pos_roundtrip [OF r(1) 2 r(2)]
    then have "uint (word_of_int (f32_bits_pos q) :: u32) = f32_bits_pos q"
      by (simp add: uint_word_of_int)
    moreover have "f32_bits_pos q div 2 ^ 23 < 255" by (rule div_255 [OF rt(2)])
    moreover have "0 \<le> f32_bits_pos q div 2 ^ 23" using rt(1) by simp
    ultimately show ?thesis using 2 rt by (simp add: f32_frombits_def Let_def)
  next
    case 3
    then have r: "repr 24 (- 149) (- q)" "- q < pow2 128" using "3.prems" neg by (auto simp: is_f32_def)
    note rt = f32_pos_roundtrip [OF r(1) 3 r(2)]
    let ?b = "f32_bits_pos (- q)"
    have "uint (word_of_int (2 ^ 31 + ?b) :: u32) = 2 ^ 31 + ?b"
      using rt uint_word_of_int [of "2 ^ 31 + ?b", where 'a = 32] by (simp del: of_int_add)
    moreover have "((2 ^ 31 + ?b) div 2 ^ 23) mod 256 = ?b div 2 ^ 23"
    proof -
      have "(2 ^ 31 + ?b) div 2 ^ 23 = 256 + ?b div 2 ^ 23" by simp
      moreover have "?b div 2 ^ 23 < 255" by (rule div_255 [OF rt(2)])
      moreover have "0 \<le> ?b div 2 ^ 23" using rt(1) by simp
      ultimately show ?thesis by simp
    qed
    moreover have "(2 ^ 31 + ?b) mod 2 ^ 23 = ?b mod 2 ^ 23" by (simp add: mod_add_left_eq [symmetric])
    moreover have "?b div 2 ^ 23 < 255" by (rule div_255 [OF rt(2)])
    ultimately show ?thesis using 3 rt by (simp add: f32_frombits_def Let_def)
  qed
qed (simp_all add: f32_frombits_def)

lemma length_put_field: "field_ok t f \<Longrightarrow> length (put_field f) = type_size t"
  by (induction t f rule: field_ok.induct) auto

lemma get_put_field: "field_ok t f \<Longrightarrow> get_field t (put_field f) = f"
  by (induction t f rule: field_ok.induct) (simp_all add: le_value_bytes_word f32_bits_roundtrip)

lemma get_put_struct:
  "list_all2 field_ok ts fs \<Longrightarrow> get_struct ts (put_struct fs @ rest) = Some (fs, rest)"
proof (induction ts fs rule: list_all2_induct)
  case (Cons t ts f fs)
  then show ?case
    using length_put_field [OF Cons(1)] get_put_field [OF Cons(1)] by (simp add: put_struct_def)
qed (simp add: put_struct_def)

lemma length_put_struct: "list_all2 field_ok ts fs \<Longrightarrow> length (put_struct fs) = struct_size ts"
  by (induction ts fs rule: list_all2_induct) (simp_all add: put_struct_def struct_size_def length_put_field)

lemma get_struct_short: "length bs < struct_size ts \<Longrightarrow> get_struct ts bs = None"
proof (induction ts arbitrary: bs)
  case (Cons t ts)
  then show ?case using Cons.IH [of "drop (type_size t) bs"] by (auto simp: struct_size_def)
qed (simp add: struct_size_def)

end
