(* ===== verification/Packets.thy ===== *)
theory Packets
  imports Wire
begin

text \<open>
  The packets of internal/protocol/packets.go that the modelled handlers read or write. Each
  struct is a record with its fields in declaration order, a schema (what \<open>binary.Read\<close> is
  driven by), the field list that \<open>binary.Write\<close> encodes and the reader that rebuilds it; a
  fixed byte array is a string of that length. Signed fields are words read with \<open>sint\<close>.
  The packets with a counted array (inventory sync, snapshot, AI state, group state) have
  writers and readers of their own, as in the source.
\<close>

section \<open>Structs\<close>

fun as_u8 :: "field \<Rightarrow> u8" where
  "as_u8 (U8 b) = b"
| "as_u8 _ = 0"

fun as_u16 :: "field \<Rightarrow> u16" where
  "as_u16 (U16 w) = w"
| "as_u16 _ = 0"

fun as_u32 :: "field \<Rightarrow> u32" where
  "as_u32 (U32 w) = w"
| "as_u32 _ = 0"

fun as_f32 :: "field \<Rightarrow> f32" where
  "as_f32 (F32 x) = x"
| "as_f32 _ = Fin 0"

fun as_bytes :: "field \<Rightarrow> string" where
  "as_bytes (Bytes s) = s"
| "as_bytes _ = []"

definition read_struct :: "field_type list \<Rightarrow> (field list \<Rightarrow> 'a) \<Rightarrow> bytes \<Rightarrow> ('a \<times> bytes) option" where
  "read_struct schema f bs = map_option (\<lambda>(fs, rest). (f fs, rest)) (get_struct schema bs)"

lemma read_struct_put:
  "list_all2 field_ok ts fs \<Longrightarrow> read_struct ts f (put_struct fs @ rest) = Some (f fs, rest)"
  by (simp add: read_struct_def get_put_struct)

record packet_header =
  h_magic :: u16
  h_protocol :: u8
  h_flags :: u8
  h_seq :: u32
  h_opcode :: u16
  h_length :: u16

definition packet_header_schema :: "field_type list" where
  "packet_header_schema = [TU16, TU8, TU8, TU32, TU16, TU16]"

definition packet_header_fields :: "packet_header \<Rightarrow> field list" where
  "packet_header_fields p = [U16 (h_magic p), U8 (h_protocol p), U8 (h_flags p),
     U32 (h_seq p), U16 (h_opcode p), U16 (h_length p)]"

definition packet_header_of :: "field list \<Rightarrow> packet_header" where
  "packet_header_of fs = \<lparr>h_magic = as_u16 (fs ! 0), h_protocol = as_u8 (fs ! 1), h_flags = as_u8 (fs ! 2),
     h_seq = as_u32 (fs ! 3), h_opcode = as_u16 (fs ! 4), h_length = as_u16 (fs ! 5)\<rparr>"

definition read_packet_header :: "bytes \<Rightarrow> (packet_header \<times> bytes) option" where
  "read_packet_header = read_struct packet_header_schema packet_header_of"

record item_action =
  ia_action_id :: u32
  ia_action :: u8
  ia_item_id :: u32
  ia_section :: string
  ia_count :: u16
  ia_x :: f32
  ia_y :: f32
  ia_z :: f32
  ia_condition :: u8

definition item_action_schema :: "field_type list" where
  "item_action_schema = [TU32, TU8, TU32, TBytes 64, TU16, TF32, TF32, TF32, TU8]"

definition item_action_fields :: "item_action \<Rightarrow> field list" where
  "item_action_fields p = [U32 (ia_action_id p), U8 (ia_action p), U32 (ia_item_id p), Bytes (ia_section p), U16 (ia_count p),
     F32 (ia_x p), F32 (ia_y p), F32 (ia_z p), U8 (ia_condition p)]"

definition item_action_of :: "field list \<Rightarrow> item_action" where
  "item_action_of fs = \<lparr>ia_action_id = as_u32 (fs ! 0), ia_action = as_u8 (fs ! 1), ia_item_id = as_u32 (fs ! 2), ia_section = as_bytes (fs ! 3), ia_count = as_u16 (fs ! 4),
     ia_x = as_f32 (fs ! 5), ia_y = as_f32 (fs ! 6), ia_z = as_f32 (fs ! 7), ia_condition = as_u8 (fs ! 8)\<rparr>"

definition read_item_action :: "bytes \<Rightarrow> (item_action \<times> bytes) option" where
  "read_item_action = read_struct item_action_schema item_action_of"

record item_update =
  iu_action_id :: u32
  iu_result :: u8
  iu_action :: u8
  iu_item_id :: u32
  iu_count :: i16
  iu_section :: string
  iu_x :: f32
  iu_y :: f32
  iu_z :: f32
  iu_condition :: u8

definition item_update_schema :: "field_type list" where
  "item_update_schema = [TU32, TU8, TU8, TU32, TU16, TBytes 64, TF32, TF32, TF32, TU8]"

definition item_update_fields :: "item_update \<Rightarrow> field list" where
  "item_update_fields p = [U32 (iu_action_id p), U8 (iu_result p), U8 (iu_action p), U32 (iu_item_id p), U16 (iu_count p),
     Bytes (iu_section p), F32 (iu_x p), F32 (iu_y p), F32 (iu_z p), U8 (iu_condition p)]"

definition item_update_of :: "field list \<Rightarrow> item_update" where
  "item_update_of fs = \<lparr>iu_action_id = as_u32 (fs ! 0), iu_result = as_u8 (fs ! 1), iu_action = as_u8 (fs ! 2), iu_item_id = as_u32 (fs ! 3), iu_count = as_u16 (fs ! 4),
     iu_section = as_bytes (fs ! 5), iu_x = as_f32 (fs ! 6), iu_y = as_f32 (fs ! 7), iu_z = as_f32 (fs ! 8), iu_condition = as_u8 (fs ! 9)\<rparr>"

definition read_item_update :: "bytes \<Rightarrow> (item_update \<times> bytes) option" where
  "read_item_update = read_struct item_update_schema item_update_of"

record container_action =
  ca_action_id :: u32
  ca_container_id :: u32
  ca_action :: u8
  ca_section :: string
  ca_count :: u16
  ca_x :: f32
  ca_y :: f32
  ca_z :: f32
  ca_condition :: u8

definition container_action_schema :: "field_type list" where
  "container_action_schema = [TU32, TU32, TU8, TBytes 64, TU16, TF32, TF32, TF32, TU8]"

definition container_action_fields :: "container_action \<Rightarrow> field list" where
  "container_action_fields p = [U32 (ca_action_id p), U32 (ca_container_id p), U8 (ca_action p), Bytes (ca_section p), U16 (ca_count p),
     F32 (ca_x p), F32 (ca_y p), F32 (ca_z p), U8 (ca_condition p)]"

definition container_action_of :: "field list \<Rightarrow> container_action" where
  "container_action_of fs = \<lparr>ca_action_id = as_u32 (fs ! 0), ca_container_id = as_u32 (fs ! 1), ca_action = as_u8 (fs ! 2), ca_section = as_bytes (fs ! 3), ca_count = as_u16 (fs ! 4),
     ca_x = as_f32 (fs ! 5), ca_y = as_f32 (fs ! 6), ca_z = as_f32 (fs ! 7), ca_condition = as_u8 (fs ! 8)\<rparr>"

definition read_container_action :: "bytes \<Rightarrow> (container_action \<times> bytes) option" where
  "read_container_action = read_struct container_action_schema container_action_of"

record container_update =
  cu_action_id :: u32
  cu_result :: u8
  cu_action :: u8
  cu_container_id :: u32
  cu_count :: i16
  cu_section :: string
  cu_condition :: u8

definition container_update_schema :: "field_type list" where
  "container_update_schema = [TU32, TU8, TU8, TU32, TU16, TBytes 64, TU8]"

definition container_update_fields :: "container_update \<Rightarrow> field list" where
  "container_update_fields p = [U32 (cu_action_id p), U8 (cu_result p), U8 (cu_action p), U32 (cu_container_id p),
     U16 (cu_count p), Bytes (cu_section p), U8 (cu_condition p)]"

definition container_update_of :: "field list \<Rightarrow> container_update" where
  "container_update_of fs = \<lparr>cu_action_id = as_u32 (fs ! 0), cu_result = as_u8 (fs ! 1), cu_action = as_u8 (fs ! 2), cu_container_id = as_u32 (fs ! 3),
     cu_count = as_u16 (fs ! 4), cu_section = as_bytes (fs ! 5), cu_condition = as_u8 (fs ! 6)\<rparr>"

definition read_container_update :: "bytes \<Rightarrow> (container_update \<times> bytes) option" where
  "read_container_update = read_struct container_update_schema container_update_of"

record stash_action =
  sa_action_id :: u32
  sa_action :: u8
  sa_x :: f32
  sa_y :: f32
  sa_z :: f32
  sa_section :: string
  sa_count :: u16
  sa_condition :: u8

definition stash_action_schema :: "field_type list" where
  "stash_action_schema = [TU32, TU8, TF32, TF32, TF32, TBytes 64, TU16, TU8]"

definition stash_action_fields :: "stash_action \<Rightarrow> field list" where
  "stash_action_fields p = [U32 (sa_action_id p), U8 (sa_action p), F32 (sa_x p), F32 (sa_y p),
     F32 (sa_z p), Bytes (sa_section p), U16 (sa_count p), U8 (sa_condition p)]"

definition stash_action_of :: "field list \<Rightarrow> stash_action" where
  "stash_action_of fs = \<lparr>sa_action_id = as_u32 (fs ! 0), sa_action = as_u8 (fs ! 1), sa_x = as_f32 (fs ! 2), sa_y = as_f32 (fs ! 3),
     sa_z = as_f32 (fs ! 4), sa_section = as_bytes (fs ! 5), sa_count = as_u16 (fs ! 6), sa_condition = as_u8 (fs ! 7)\<rparr>"

definition read_stash_action :: "bytes \<Rightarrow> (stash_action \<times> bytes) option" where
  "read_stash_action = read_struct stash_action_schema stash_action_of"

record stash_result =
  st_action_id :: u32
  st_result :: u8
  st_action :: u8
  st_count :: i16
  st_section :: string
  st_condition :: u8

definition stash_result_schema :: "field_type list" where
  "stash_result_schema = [TU32, TU8, TU8, TU16, TBytes 64, TU8]"

definition stash_result_fields :: "stash_result \<Rightarrow> field list" where
  "stash_result_fields p = [U32 (st_action_id p), U8 (st_result p), U8 (st_action p),
     U16 (st_count p), Bytes (st_section p), U8 (st_condition p)]"

definition stash_result_of :: "field list \<Rightarrow> stash_result" where
  "stash_result_of fs = \<lparr>st_action_id = as_u32 (fs ! 0), st_result = as_u8 (fs ! 1), st_action = as_u8 (fs ! 2),
     st_count = as_u16 (fs ! 3), st_section = as_bytes (fs ! 4), st_condition = as_u8 (fs ! 5)\<rparr>"

definition read_stash_result :: "bytes \<Rightarrow> (stash_result \<times> bytes) option" where
  "read_stash_result = read_struct stash_result_schema stash_result_of"

record trade_action =
  ta_action_id :: u32
  ta_action :: u8
  ta_money_delta :: u32
  ta_section :: string
  ta_count :: u16
  ta_condition :: u8

definition trade_action_schema :: "field_type list" where
  "trade_action_schema = [TU32, TU8, TU32, TBytes 64, TU16, TU8]"

definition trade_action_fields :: "trade_action \<Rightarrow> field list" where
  "trade_action_fields p = [U32 (ta_action_id p), U8 (ta_action p), U32 (ta_money_delta p),
     Bytes (ta_section p), U16 (ta_count p), U8 (ta_condition p)]"

definition trade_action_of :: "field list \<Rightarrow> trade_action" where
  "trade_action_of fs = \<lparr>ta_action_id = as_u32 (fs ! 0), ta_action = as_u8 (fs ! 1), ta_money_delta = as_u32 (fs ! 2),
     ta_section = as_bytes (fs ! 3), ta_count = as_u16 (fs ! 4), ta_condition = as_u8 (fs ! 5)\<rparr>"

definition read_trade_action :: "bytes \<Rightarrow> (trade_action \<times> bytes) option" where
  "read_trade_action = read_struct trade_action_schema trade_action_of"

record trade_result =
  tr_action_id :: u32
  tr_result :: u8
  tr_action :: u8
  tr_money_delta :: i32
  tr_section :: string
  tr_condition :: u8

definition trade_result_schema :: "field_type list" where
  "trade_result_schema = [TU32, TU8, TU8, TU32, TBytes 64, TU8]"

definition trade_result_fields :: "trade_result \<Rightarrow> field list" where
  "trade_result_fields p = [U32 (tr_action_id p), U8 (tr_result p), U8 (tr_action p),
     U32 (tr_money_delta p), Bytes (tr_section p), U8 (tr_condition p)]"

definition trade_result_of :: "field list \<Rightarrow> trade_result" where
  "trade_result_of fs = \<lparr>tr_action_id = as_u32 (fs ! 0), tr_result = as_u8 (fs ! 1), tr_action = as_u8 (fs ! 2),
     tr_money_delta = as_u32 (fs ! 3), tr_section = as_bytes (fs ! 4), tr_condition = as_u8 (fs ! 5)\<rparr>"

definition read_trade_result :: "bytes \<Rightarrow> (trade_result \<times> bytes) option" where
  "read_trade_result = read_struct trade_result_schema trade_result_of"

record inv_item =
  ii_section :: string
  ii_count :: u16
  ii_condition :: u8
  ii_ammo :: u16
  ii_slot :: u8

definition inv_item_schema :: "field_type list" where
  "inv_item_schema = [TBytes 64, TU16, TU8, TU16, TU8]"

definition inv_item_fields :: "inv_item \<Rightarrow> field list" where
  "inv_item_fields p = [Bytes (ii_section p), U16 (ii_count p), U8 (ii_condition p),
     U16 (ii_ammo p), U8 (ii_slot p)]"

definition inv_item_of :: "field list \<Rightarrow> inv_item" where
  "inv_item_of fs = \<lparr>ii_section = as_bytes (fs ! 0), ii_count = as_u16 (fs ! 1), ii_condition = as_u8 (fs ! 2),
     ii_ammo = as_u16 (fs ! 3), ii_slot = as_u8 (fs ! 4)\<rparr>"

definition read_inv_item :: "bytes \<Rightarrow> (inv_item \<times> bytes) option" where
  "read_inv_item = read_struct inv_item_schema inv_item_of"

record snapshot_entry =
  se_session_id :: u32
  se_x :: f32
  se_y :: f32
  se_z :: f32
  se_yaw :: i16
  se_pitch :: i16
  se_anim_flags :: u8
  se_health :: u8

definition snapshot_entry_schema :: "field_type list" where
  "snapshot_entry_schema = [TU32, TF32, TF32, TF32, TU16, TU16, TU8, TU8]"

definition snapshot_entry_fields :: "snapshot_entry \<Rightarrow> field list" where
  "snapshot_entry_fields p = [U32 (se_session_id p), F32 (se_x p), F32 (se_y p), F32 (se_z p),
     U16 (se_yaw p), U16 (se_pitch p), U8 (se_anim_flags p), U8 (se_health p)]"

definition snapshot_entry_of :: "field list \<Rightarrow> snapshot_entry" where
  "snapshot_entry_of fs = \<lparr>se_session_id = as_u32 (fs ! 0), se_x = as_f32 (fs ! 1), se_y = as_f32 (fs ! 2), se_z = as_f32 (fs ! 3),
     se_yaw = as_u16 (fs ! 4), se_pitch = as_u16 (fs ! 5), se_anim_flags = as_u8 (fs ! 6), se_health = as_u8 (fs ! 7)\<rparr>"

definition read_snapshot_entry :: "bytes \<Rightarrow> (snapshot_entry \<times> bytes) option" where
  "read_snapshot_entry = read_struct snapshot_entry_schema snapshot_entry_of"

record ai_entry =
  ai_entity_id :: u32
  ai_x :: f32
  ai_y :: f32
  ai_z :: f32
  ai_yaw :: u16
  ai_anim :: u8

definition ai_entry_schema :: "field_type list" where
  "ai_entry_schema = [TU32, TF32, TF32, TF32, TU16, TU8]"

definition ai_entry_fields :: "ai_entry \<Rightarrow> field list" where
  "ai_entry_fields p = [U32 (ai_entity_id p), F32 (ai_x p), F32 (ai_y p),
     F32 (ai_z p), U16 (ai_yaw p), U8 (ai_anim p)]"

definition ai_entry_of :: "field list \<Rightarrow> ai_entry" where
  "ai_entry_of fs = \<lparr>ai_entity_id = as_u32 (fs ! 0), ai_x = as_f32 (fs ! 1), ai_y = as_f32 (fs ! 2),
     ai_z = as_f32 (fs ! 3), ai_yaw = as_u16 (fs ! 4), ai_anim = as_u8 (fs ! 5)\<rparr>"

definition read_ai_entry :: "bytes \<Rightarrow> (ai_entry \<times> bytes) option" where
  "read_ai_entry = read_struct ai_entry_schema ai_entry_of"

record group_member =
  gm_session_id :: u32
  gm_name :: string
  gm_faction :: string
  gm_is_leader :: u8

definition group_member_schema :: "field_type list" where
  "group_member_schema = [TU32, TBytes 32, TBytes 16, TU8]"

definition group_member_fields :: "group_member \<Rightarrow> field list" where
  "group_member_fields p = [U32 (gm_session_id p), Bytes (gm_name p),
     Bytes (gm_faction p), U8 (gm_is_leader p)]"

definition group_member_of :: "field list \<Rightarrow> group_member" where
  "group_member_of fs = \<lparr>gm_session_id = as_u32 (fs ! 0), gm_name = as_bytes (fs ! 1),
     gm_faction = as_bytes (fs ! 2), gm_is_leader = as_u8 (fs ! 3)\<rparr>"

definition read_group_member :: "bytes \<Rightarrow> (group_member \<times> bytes) option" where
  "read_group_member = read_struct group_member_schema group_member_of"

section \<open>Lemmas: structs\<close>

lemma packet_header_of_fields [simp]: "packet_header_of (packet_header_fields p) = p"
  by (simp add: packet_header_of_def packet_header_fields_def)

lemma read_packet_header_put: "list_all2 field_ok packet_header_schema (packet_header_fields p) \<Longrightarrow>
    read_packet_header (put_struct (packet_header_fields p) @ rest) = Some (p, rest)"
  by (simp add: read_packet_header_def read_struct_put)

lemma item_action_of_fields [simp]: "item_action_of (item_action_fields p) = p"
  by (simp add: item_action_of_def item_action_fields_def)

lemma read_item_action_put: "list_all2 field_ok item_action_schema (item_action_fields p) \<Longrightarrow>
    read_item_action (put_struct (item_action_fields p) @ rest) = Some (p, rest)"
  by (simp add: read_item_action_def read_struct_put)

lemma item_update_of_fields [simp]: "item_update_of (item_update_fields p) = p"
  by (simp add: item_update_of_def item_update_fields_def)

lemma read_item_update_put: "list_all2 field_ok item_update_schema (item_update_fields p) \<Longrightarrow>
    read_item_update (put_struct (item_update_fields p) @ rest) = Some (p, rest)"
  by (simp add: read_item_update_def read_struct_put)

lemma container_action_of_fields [simp]: "container_action_of (container_action_fields p) = p"
  by (simp add: container_action_of_def container_action_fields_def)

lemma read_container_action_put: "list_all2 field_ok container_action_schema (container_action_fields p) \<Longrightarrow>
    read_container_action (put_struct (container_action_fields p) @ rest) = Some (p, rest)"
  by (simp add: read_container_action_def read_struct_put)

lemma container_update_of_fields [simp]: "container_update_of (container_update_fields p) = p"
  by (simp add: container_update_of_def container_update_fields_def)

lemma read_container_update_put: "list_all2 field_ok container_update_schema (container_update_fields p) \<Longrightarrow>
    read_container_update (put_struct (container_update_fields p) @ rest) = Some (p, rest)"
  by (simp add: read_container_update_def read_struct_put)

lemma stash_action_of_fields [simp]: "stash_action_of (stash_action_fields p) = p"
  by (simp add: stash_action_of_def stash_action_fields_def)

lemma read_stash_action_put: "list_all2 field_ok stash_action_schema (stash_action_fields p) \<Longrightarrow>
    read_stash_action (put_struct (stash_action_fields p) @ rest) = Some (p, rest)"
  by (simp add: read_stash_action_def read_struct_put)

lemma stash_result_of_fields [simp]: "stash_result_of (stash_result_fields p) = p"
  by (simp add: stash_result_of_def stash_result_fields_def)

lemma read_stash_result_put: "list_all2 field_ok stash_result_schema (stash_result_fields p) \<Longrightarrow>
    read_stash_result (put_struct (stash_result_fields p) @ rest) = Some (p, rest)"
  by (simp add: read_stash_result_def read_struct_put)

lemma trade_action_of_fields [simp]: "trade_action_of (trade_action_fields p) = p"
  by (simp add: trade_action_of_def trade_action_fields_def)

lemma read_trade_action_put: "list_all2 field_ok trade_action_schema (trade_action_fields p) \<Longrightarrow>
    read_trade_action (put_struct (trade_action_fields p) @ rest) = Some (p, rest)"
  by (simp add: read_trade_action_def read_struct_put)

lemma trade_result_of_fields [simp]: "trade_result_of (trade_result_fields p) = p"
  by (simp add: trade_result_of_def trade_result_fields_def)

lemma read_trade_result_put: "list_all2 field_ok trade_result_schema (trade_result_fields p) \<Longrightarrow>
    read_trade_result (put_struct (trade_result_fields p) @ rest) = Some (p, rest)"
  by (simp add: read_trade_result_def read_struct_put)

lemma inv_item_of_fields [simp]: "inv_item_of (inv_item_fields p) = p"
  by (simp add: inv_item_of_def inv_item_fields_def)

lemma read_inv_item_put: "list_all2 field_ok inv_item_schema (inv_item_fields p) \<Longrightarrow>
    read_inv_item (put_struct (inv_item_fields p) @ rest) = Some (p, rest)"
  by (simp add: read_inv_item_def read_struct_put)

lemma snapshot_entry_of_fields [simp]: "snapshot_entry_of (snapshot_entry_fields p) = p"
  by (simp add: snapshot_entry_of_def snapshot_entry_fields_def)

lemma read_snapshot_entry_put: "list_all2 field_ok snapshot_entry_schema (snapshot_entry_fields p) \<Longrightarrow>
    read_snapshot_entry (put_struct (snapshot_entry_fields p) @ rest) = Some (p, rest)"
  by (simp add: read_snapshot_entry_def read_struct_put)

lemma ai_entry_of_fields [simp]: "ai_entry_of (ai_entry_fields p) = p"
  by (simp add: ai_entry_of_def ai_entry_fields_def)

lemma read_ai_entry_put: "list_all2 field_ok ai_entry_schema (ai_entry_fields p) \<Longrightarrow>
    read_ai_entry (put_struct (ai_entry_fields p) @ rest) = Some (p, rest)"
  by (simp add: read_ai_entry_def read_struct_put)

lemma group_member_of_fields [simp]: "group_member_of (group_member_fields p) = p"
  by (simp add: group_member_of_def group_member_fields_def)

lemma read_group_member_put: "list_all2 field_ok group_member_schema (group_member_fields p) \<Longrightarrow>
    read_group_member (put_struct (group_member_fields p) @ rest) = Some (p, rest)"
  by (simp add: read_group_member_def read_struct_put)

section \<open>Counted packets\<close>

record inventory_sync =
  is_count :: u8
  is_items :: "inv_item list"

record server_snapshot =
  ss_count :: u8
  ss_entries :: "snapshot_entry list"

record ai_state =
  ap_count :: u8
  ap_entries :: "ai_entry list"

record group_state =
  gs_count :: u8
  gs_members :: "group_member list"

datatype wire_error = ErrPayloadTooLarge | ErrPayloadExceedsMTU

datatype payload = PNone | PStruct "field list" | PInventory inventory_sync | PGroup group_state
  | PAI ai_state | PSnapshot server_snapshot

definition max_safe_udp :: nat where
  "max_safe_udp = 1200"

definition max_snapshot_entries :: nat where
  "max_snapshot_entries = 32"

definition max_group_members :: nat where
  "max_group_members = 8"

definition put_structs :: "('a \<Rightarrow> field list) \<Rightarrow> 'a list \<Rightarrow> bytes" where
  "put_structs flds xs = concat (map (put_struct \<circ> flds) xs)"

definition write_inventory_sync :: "inventory_sync \<Rightarrow> bytes" where
  "write_inventory_sync p = is_count p #
     put_structs inv_item_fields (take (min (unat (is_count p)) (length (is_items p))) (is_items p))"

definition write_group_state :: "group_state \<Rightarrow> bytes" where
  "write_group_state p = (let count = min (min (unat (gs_count p)) (length (gs_members p))) max_group_members
     in word_of_nat count # put_structs group_member_fields (take count (gs_members p)))"

definition write_ai_state :: "ai_state \<Rightarrow> wire_error + bytes" where
  "write_ai_state p = (let count = min (unat (ap_count p)) 32 in
     if max_safe_udp < 1 + count * 19 then Inl ErrPayloadExceedsMTU
     else Inr (word_of_nat count # put_structs ai_entry_fields (take count (ap_entries p))))"

text \<open>\<open>putHeader\<close> fills the twelve header bytes by hand; \<open>WritePacket\<close> encodes the struct.\<close>

definition put_header :: "u16 \<Rightarrow> u32 \<Rightarrow> u8 \<Rightarrow> u16 \<Rightarrow> bytes" where
  "put_header opcode seq flags len =
     le_bytes 2 0x5A4F @ [1] @ [flags] @ le_bytes 4 (unat seq) @ le_bytes 2 (unat opcode) @ le_bytes 2 (unat len)"

definition encode_snapshot_entry :: "snapshot_entry \<Rightarrow> bytes" where
  "encode_snapshot_entry e =
     le_bytes 4 (unat (se_session_id e)) @ le_bytes 4 (unat (f32_bits (se_x e))) @
     le_bytes 4 (unat (f32_bits (se_y e))) @ le_bytes 4 (unat (f32_bits (se_z e))) @
     le_bytes 2 (unat (se_yaw e)) @ le_bytes 2 (unat (se_pitch e)) @ [se_anim_flags e, se_health e]"

definition write_server_snapshot :: "u16 \<Rightarrow> u32 \<Rightarrow> u8 \<Rightarrow> server_snapshot option \<Rightarrow> wire_error + bytes" where
  "write_server_snapshot opcode seq flags snap =
     (let count = (case snap of None \<Rightarrow> 0 | Some p \<Rightarrow> min (unat (ss_count p)) (length (ss_entries p)));
          entries = (case snap of None \<Rightarrow> [] | Some p \<Rightarrow> take count (ss_entries p));
          len = 1 + count * 22
      in if max_safe_udp < len then Inl ErrPayloadExceedsMTU
         else if 65535 < len then Inl ErrPayloadTooLarge
         else Inr (put_header opcode seq flags (word_of_nat len) @ word_of_nat count #
                   concat (map encode_snapshot_entry entries)))"

definition payload_bytes :: "payload \<Rightarrow> wire_error + bytes" where
  "payload_bytes p = (case p of
     PNone \<Rightarrow> Inr []
   | PStruct fs \<Rightarrow> Inr (put_struct fs)
   | PInventory i \<Rightarrow> Inr (write_inventory_sync i)
   | PGroup g \<Rightarrow> Inr (write_group_state g)
   | PAI a \<Rightarrow> write_ai_state a
   | PSnapshot _ \<Rightarrow> Inr [])"

definition write_packet :: "u16 \<Rightarrow> u32 \<Rightarrow> u8 \<Rightarrow> payload \<Rightarrow> wire_error + bytes" where
  "write_packet opcode seq flags p = (case p of
     PSnapshot s \<Rightarrow> write_server_snapshot opcode seq flags (Some s)
   | _ \<Rightarrow> (case payload_bytes p of
       Inl e \<Rightarrow> Inl e
     | Inr buf \<Rightarrow>
         if max_safe_udp < length buf then Inl ErrPayloadExceedsMTU
         else if 65535 < length buf then Inl ErrPayloadTooLarge
         else Inr (put_struct (packet_header_fields \<lparr>h_magic = 0x5A4F, h_protocol = 1, h_flags = flags,
                h_seq = seq, h_opcode = opcode, h_length = word_of_nat (length buf)\<rparr>) @ buf)))"

text \<open>Readers: the count byte, then as many entries as it says, capped at the array.\<close>

fun read_n :: "(bytes \<Rightarrow> ('a \<times> bytes) option) \<Rightarrow> nat \<Rightarrow> bytes \<Rightarrow> 'a list option" where
  "read_n rd 0 bs = Some []"
| "read_n rd (Suc n) bs = (case rd bs of None \<Rightarrow> None
     | Some (x, rest) \<Rightarrow> map_option (\<lambda>xs. x # xs) (read_n rd n rest))"

definition read_counted :: "(bytes \<Rightarrow> ('a \<times> bytes) option) \<Rightarrow> nat \<Rightarrow> 'a \<Rightarrow> bytes \<Rightarrow> (u8 \<times> 'a list) option" where
  "read_counted rd cap zero bs = (case bs of [] \<Rightarrow> None | c # rest \<Rightarrow>
     let n = min (unat c) cap in map_option (\<lambda>xs. (c, xs @ replicate (cap - n) zero)) (read_n rd n rest))"

definition read_server_snapshot :: "snapshot_entry \<Rightarrow> bytes \<Rightarrow> server_snapshot option" where
  "read_server_snapshot zero bs = map_option (\<lambda>(c, xs). \<lparr>ss_count = c, ss_entries = xs\<rparr>)
     (read_counted read_snapshot_entry 32 zero bs)"

definition read_ai_state :: "ai_entry \<Rightarrow> bytes \<Rightarrow> ai_state option" where
  "read_ai_state zero bs = map_option (\<lambda>(c, xs). \<lparr>ap_count = c, ap_entries = xs\<rparr>)
     (read_counted read_ai_entry 32 zero bs)"

definition read_group_state :: "group_member \<Rightarrow> bytes \<Rightarrow> group_state option" where
  "read_group_state zero bs = map_option (\<lambda>(c, xs). \<lparr>gs_count = c, gs_members = xs\<rparr>)
     (read_counted read_group_member 8 zero bs)"

definition new_chat_text :: "u32 \<Rightarrow> string \<Rightarrow> field list" where
  "new_chat_text sender msg = (let m = take 255 msg in
     [U32 sender, U8 (word_of_nat (length m)), Bytes (m @ replicate (255 - length m) (CHR 0x00))])"

section \<open>Lemmas: counted packets\<close>

lemma put_header_struct:
  "put_header opcode seq flags len = put_struct (packet_header_fields
     \<lparr>h_magic = 0x5A4F, h_protocol = 1, h_flags = flags, h_seq = seq, h_opcode = opcode, h_length = len\<rparr>)"
  by (simp add: put_header_def put_struct_def packet_header_fields_def)

lemma encode_snapshot_entry_struct: "encode_snapshot_entry e = put_struct (snapshot_entry_fields e)"
  by (simp add: encode_snapshot_entry_def put_struct_def snapshot_entry_fields_def)

lemma read_n_put:
  assumes "\<And>x rest. x \<in> set xs \<Longrightarrow> rd (put_struct (flds x) @ rest) = Some (x, rest)"
  shows "read_n rd (length xs) (put_structs flds xs @ rest) = Some xs"
  using assms by (induction xs) (simp_all add: put_structs_def)

lemma read_counted_put:
  assumes "\<And>x rest. x \<in> set xs \<Longrightarrow> rd (put_struct (flds x) @ rest) = Some (x, rest)"
    and "length xs \<le> cap" "cap < 256"
  shows "read_counted rd cap zero (word_of_nat (length xs) # put_structs flds xs) =
    Some (word_of_nat (length xs), xs @ replicate (cap - length xs) zero)"
proof -
  have "unat (word_of_nat (length xs) :: u8) = length xs" using assms(2,3) by (simp add: unat_of_nat)
  then show ?thesis using assms(2) read_n_put [of xs rd flds "[]", OF assms(1)]
    by (simp add: read_counted_def Let_def)
qed

lemma header_read:
  "read_packet_header (put_struct (packet_header_fields h) @ rest) = Some (h, rest)"
  by (rule read_packet_header_put) (simp add: packet_header_schema_def packet_header_fields_def)

lemma length_put_structs:
  "(\<And>x. x \<in> set xs \<Longrightarrow> length (put_struct (flds x)) = n) \<Longrightarrow> length (put_structs flds xs) = length xs * n"
  by (induction xs) (simp_all add: put_structs_def)

definition valid_snapshot :: "server_snapshot \<Rightarrow> bool" where
  "valid_snapshot p \<longleftrightarrow> length (ss_entries p) = 32 \<and> unat (ss_count p) \<le> 32 \<and>
     (\<forall>e\<in>set (ss_entries p). is_f32 (se_x e) \<and> is_f32 (se_y e) \<and> is_f32 (se_z e))"

section \<open>Properties\<close>

text \<open>C36: A snapshot packet survives the wire: the bytes \<open>WritePacket\<close> emits carry a header that
  reads back with the opcode, sequence number, flags and the exact payload length, and the
  payload reads back to the same count and the same entries; the packet stays below the MTU
  with the longest snapshot.\<close>

theorem snapshot_roundtrip:
  assumes "valid_snapshot p"
  shows "\<exists>buf rest h. write_packet opcode seq flags (PSnapshot p) = Inr buf \<and> length buf \<le> 717 \<and>
    read_packet_header buf = Some (h, rest) \<and> h_magic h = 0x5A4F \<and> h_opcode h = opcode \<and> h_seq h = seq \<and>
    h_flags h = flags \<and> unat (h_length h) = length rest \<and>
    (\<exists>q. read_server_snapshot zero rest = Some q \<and> ss_count q = ss_count p \<and>
      take (unat (ss_count p)) (ss_entries q) = take (unat (ss_count p)) (ss_entries p))"
proof -
  let ?n = "unat (ss_count p)"
  let ?xs = "take ?n (ss_entries p)"
  let ?rest = "word_of_nat ?n # put_structs snapshot_entry_fields ?xs"
  let ?h = "\<lparr>h_magic = 0x5A4F, h_protocol = 1, h_flags = flags, h_seq = seq, h_opcode = opcode,
     h_length = word_of_nat (1 + ?n * 22)\<rparr>"
  from assms have n: "?n \<le> 32" "length (ss_entries p) = 32" "length ?xs = ?n"
    by (auto simp: valid_snapshot_def)
  have ok: "list_all2 field_ok snapshot_entry_schema (snapshot_entry_fields e)" if "e \<in> set ?xs" for e
    using assms that by (auto simp: valid_snapshot_def snapshot_entry_schema_def snapshot_entry_fields_def dest: in_set_takeD)
  have "length (put_struct (snapshot_entry_fields e)) = 22" if "e \<in> set ?xs" for e
    using length_put_struct [OF ok [OF that]] by (simp add: struct_size_def snapshot_entry_schema_def)
  then have len: "length ?rest = 1 + ?n * 22"
    using length_put_structs [of ?xs snapshot_entry_fields 22] n by simp
  have w: "write_packet opcode seq flags (PSnapshot p) = Inr (put_struct (packet_header_fields ?h) @ ?rest)"
    using n by (simp add: write_packet_def write_server_snapshot_def max_safe_udp_def Let_def put_header_struct
        put_structs_def encode_snapshot_entry_struct [abs_def] comp_def)
  have "length (put_struct (packet_header_fields ?h)) = 12"
    using length_put_struct [of packet_header_schema "packet_header_fields ?h"]
    by (simp add: packet_header_schema_def packet_header_fields_def struct_size_def)
  moreover have "unat (h_length ?h) = length ?rest"
    using n(1) unfolding len packet_header.simps unat_of_nat by (subst mod_less) simp_all
  moreover have "read_server_snapshot zero ?rest = Some \<lparr>ss_count = ss_count p, ss_entries = ?xs @ replicate (32 - ?n) zero\<rparr>"
    using read_counted_put [of ?xs read_snapshot_entry snapshot_entry_fields 32 zero] read_snapshot_entry_put [OF ok] n
    by (simp add: read_server_snapshot_def)
  ultimately show ?thesis
    using w header_read [of ?h ?rest] len n
    by (intro exI [of _ "put_struct (packet_header_fields ?h) @ ?rest"] exI [of _ ?rest] exI [of _ ?h]) simp
qed

definition demo_entry :: "u32 \<Rightarrow> snapshot_entry" where
  "demo_entry i = \<lparr>se_session_id = i, se_x = Fin 12, se_y = Fin 0, se_z = Fin (- 7), se_yaw = - 90, se_pitch = 3,
     se_anim_flags = 2, se_health = 80\<rparr>"

definition demo_snapshot :: server_snapshot where
  "demo_snapshot = \<lparr>ss_count = 2, ss_entries = demo_entry 7 # demo_entry 9 # replicate 30 (demo_entry 0)\<rparr>"

lemma is_f32_int: "\<bar>m\<bar> \<le> 2 ^ 24 \<Longrightarrow> is_f32 (Fin (of_int m))"
proof -
  assume m: "\<bar>m\<bar> \<le> 2 ^ 24"
  from int_le_pow2 [OF this] have "\<bar>of_int m\<bar> < pow2 128"
    using pow2_less_iff [of "int 24" 128] by linarith
  with rnd_int [of m 24 "- 149"] m show ?thesis by (simp add: is_f32_def repr_def)
qed

theorem snapshot_roundtrip_witness:
  "\<exists>buf rest h q. write_packet 0x11 5 2 (PSnapshot demo_snapshot) = Inr buf \<and> read_packet_header buf = Some (h, rest) \<and>
     h_opcode h = 0x11 \<and> read_server_snapshot (demo_entry 0) rest = Some q \<and> ss_count q = 2"
proof -
  have "is_f32 (Fin 12)" "is_f32 (Fin 0)" "is_f32 (Fin (- 7))"
    using is_f32_int [of 12] is_f32_int [of 0] is_f32_int [of "- 7"] by simp_all
  then have "valid_snapshot demo_snapshot"
    by (auto simp: valid_snapshot_def demo_snapshot_def demo_entry_def)
  from snapshot_roundtrip [OF this, of "0x11" 5 2 "demo_entry 0"] show ?thesis
    by (auto simp: demo_snapshot_def)
qed


end
