(* ===== verification/ItemLedger.thy ===== *)
theory ItemLedger
  imports Packets GoText
begin

text \<open>
  The ActionID ledger of internal/game/item_ledger.go. Each session has four fixed rings of
  the last 256 results (item, container, stash, trade), one shared floor (the last recorded
  ActionID) and one rolling one-second window. A ring is the Go array with its write position
  and fill count; what it means is the list of the last 256 results, newest first, and the
  interface \<open>result_cache\<close> states that meaning once for the four of them. The window is an
  interface too (\<open>rolling_window\<close>), shared with the chat and damage budgets.
\<close>

section \<open>Rings\<close>

record 'p ring =
  rg_cells :: "(u32 \<times> 'p) list"
  rg_pos :: nat
  rg_len :: nat

definition cache_size :: nat where
  "cache_size = 256"

definition new_ring :: "'p \<Rightarrow> 'p ring" where
  "new_ring z = \<lparr>rg_cells = replicate cache_size (0, z), rg_pos = 0, rg_len = 0\<rparr>"

definition ring_lookup :: "u32 \<Rightarrow> 'p ring \<Rightarrow> 'p option" where
  "ring_lookup a r = map_option snd (List.find (\<lambda>e. fst e = a) (take (rg_len r) (rg_cells r)))"

definition ring_record :: "u32 \<Rightarrow> 'p \<Rightarrow> 'p ring \<Rightarrow> 'p ring" where
  "ring_record a p r = \<lparr>rg_cells = (rg_cells r)[rg_pos r := (a, p)],
     rg_pos = (rg_pos r + 1) mod cache_size,
     rg_len = (if rg_len r < cache_size then rg_len r + 1 else rg_len r)\<rparr>"

section \<open>The session state\<close>

record action_state =
  last_action_id :: u32
  has_last :: bool
  item_ring :: "item_update ring"
  container_ring :: "container_update ring"
  stash_ring :: "stash_result ring"
  trade_ring :: "trade_result ring"
  rate :: "gotime list"

definition zero_section :: string where
  "zero_section = replicate 64 (CHR 0x00)"

definition zero_item_update :: item_update where
  "zero_item_update = \<lparr>iu_action_id = 0, iu_result = 0, iu_action = 0, iu_item_id = 0, iu_count = 0,
     iu_section = zero_section, iu_x = Fin 0, iu_y = Fin 0, iu_z = Fin 0, iu_condition = 0\<rparr>"

definition zero_container_update :: container_update where
  "zero_container_update = \<lparr>cu_action_id = 0, cu_result = 0, cu_action = 0, cu_container_id = 0, cu_count = 0,
     cu_section = zero_section, cu_condition = 0\<rparr>"

definition zero_stash_result :: stash_result where
  "zero_stash_result = \<lparr>st_action_id = 0, st_result = 0, st_action = 0, st_count = 0,
     st_section = zero_section, st_condition = 0\<rparr>"

definition zero_trade_result :: trade_result where
  "zero_trade_result = \<lparr>tr_action_id = 0, tr_result = 0, tr_action = 0, tr_money_delta = 0,
     tr_section = zero_section, tr_condition = 0\<rparr>"

definition new_action_state :: action_state where
  "new_action_state = \<lparr>last_action_id = 0, has_last = False, item_ring = new_ring zero_item_update,
     container_ring = new_ring zero_container_update, stash_ring = new_ring zero_stash_result,
     trade_ring = new_ring zero_trade_result, rate = []\<rparr>"

definition record_floor :: "u32 \<Rightarrow> action_state \<Rightarrow> action_state" where
  "record_floor a st = st\<lparr>last_action_id := a, has_last := True\<rparr>"

record ledger =
  lg_sessions :: "u32 \<Rightarrow> action_state option"
  lg_max_per_s :: f64

definition new_ledger :: "f64 \<Rightarrow> ledger" where
  "new_ledger m = \<lparr>lg_sessions = Map.empty, lg_max_per_s = (if fle m (Fin 0) then Fin 5 else m)\<rparr>"

definition state_of :: "u32 \<Rightarrow> ledger \<Rightarrow> action_state" where
  "state_of sid l = (case lg_sessions l sid of None \<Rightarrow> new_action_state | Some st \<Rightarrow> st)"

definition put_state :: "u32 \<Rightarrow> action_state \<Rightarrow> ledger \<Rightarrow> ledger" where
  "put_state sid st l = l\<lparr>lg_sessions := (lg_sessions l)(sid \<mapsto> st)\<rparr>"

section \<open>Operations\<close>

definition lookup_item :: "u32 \<Rightarrow> u32 \<Rightarrow> ledger \<Rightarrow> item_update option" where
  "lookup_item sid a l = (case lg_sessions l sid of None \<Rightarrow> None | Some st \<Rightarrow> ring_lookup a (item_ring st))"

definition is_stale :: "u32 \<Rightarrow> u32 \<Rightarrow> ledger \<Rightarrow> bool" where
  "is_stale sid a l = (case lg_sessions l sid of None \<Rightarrow> False
     | Some st \<Rightarrow> has_last st \<and> a \<le> last_action_id st)"

definition allowed_per_window :: "f64 \<Rightarrow> int" where
  "allowed_per_window m = (let n = \<lfloor>fval (ffloor m)\<rfloor> in if n < 1 then 1 else n)"

text \<open>The rolling window: drop what is not after \<open>now - 1s\<close>, then admit below the limit.\<close>

definition window_admit :: "int \<Rightarrow> gotime \<Rightarrow> gotime list \<Rightarrow> bool \<times> gotime list" where
  "window_admit limit now ts = (let kept = filter (\<lambda>t. now - second < t) ts in
     if limit \<le> int (length kept) then (False, kept) else (True, kept @ [now]))"

definition allow_action :: "u32 \<Rightarrow> gotime \<Rightarrow> ledger \<Rightarrow> bool \<times> ledger" where
  "allow_action sid now l = (let st = state_of sid l;
       (ok, ts) = window_admit (allowed_per_window (lg_max_per_s l)) now (rate st)
     in (ok, put_state sid (st\<lparr>rate := ts\<rparr>) l))"

definition record_item :: "u32 \<Rightarrow> u32 \<Rightarrow> item_update \<Rightarrow> ledger \<Rightarrow> ledger" where
  "record_item sid a p l = (let st = record_floor a (state_of sid l)
     in put_state sid (st\<lparr>item_ring := ring_record a p (item_ring st)\<rparr>) l)"

definition lookup_container :: "u32 \<Rightarrow> u32 \<Rightarrow> ledger \<Rightarrow> container_update option" where
  "lookup_container sid a l = (case lg_sessions l sid of None \<Rightarrow> None | Some st \<Rightarrow> ring_lookup a (container_ring st))"

definition record_container :: "u32 \<Rightarrow> u32 \<Rightarrow> container_update \<Rightarrow> ledger \<Rightarrow> ledger" where
  "record_container sid a p l = (let st = record_floor a (state_of sid l)
     in put_state sid (st\<lparr>container_ring := ring_record a p (container_ring st)\<rparr>) l)"

definition lookup_stash :: "u32 \<Rightarrow> u32 \<Rightarrow> ledger \<Rightarrow> stash_result option" where
  "lookup_stash sid a l = (case lg_sessions l sid of None \<Rightarrow> None | Some st \<Rightarrow> ring_lookup a (stash_ring st))"

definition record_stash :: "u32 \<Rightarrow> u32 \<Rightarrow> stash_result \<Rightarrow> ledger \<Rightarrow> ledger" where
  "record_stash sid a p l = (let st = record_floor a (state_of sid l)
     in put_state sid (st\<lparr>stash_ring := ring_record a p (stash_ring st)\<rparr>) l)"

definition lookup_trade :: "u32 \<Rightarrow> u32 \<Rightarrow> ledger \<Rightarrow> trade_result option" where
  "lookup_trade sid a l = (case lg_sessions l sid of None \<Rightarrow> None | Some st \<Rightarrow> ring_lookup a (trade_ring st))"

definition record_trade :: "u32 \<Rightarrow> u32 \<Rightarrow> trade_result \<Rightarrow> ledger \<Rightarrow> ledger" where
  "record_trade sid a p l = (let st = record_floor a (state_of sid l)
     in put_state sid (st\<lparr>trade_ring := ring_record a p (trade_ring st)\<rparr>) l)"

definition remove_ledger :: "u32 \<Rightarrow> ledger \<Rightarrow> ledger" where
  "remove_ledger sid l = l\<lparr>lg_sessions := (lg_sessions l)(sid := None)\<rparr>"

section \<open>Validation helpers\<close>

definition valid_item_section :: "(nat \<Rightarrow> bool) \<Rightarrow> string \<Rightarrow> bool" where
  "valid_item_section uprint s \<longleftrightarrow> s \<noteq> [] \<and> length s \<le> 63 \<and> valid_utf8 s \<and>
     list_all (\<lambda>c. is_print uprint (rune_of c) \<and> \<not> is_control (rune_of c)) (runes s)"

definition clamp_item_coord :: "f32 \<Rightarrow> f32" where
  "clamp_item_coord v = (if is_nan v \<or> is_inf v then Fin 0
     else if flt (Fin 10000) v then Fin 10000
     else if flt v (Fin (- 10000)) then Fin (- 10000) else v)"

definition clamp_count_to_int16 :: "int \<Rightarrow> i16" where
  "clamp_count_to_int16 n = word_of_int (max (- 32768) (min 32767 n))"

section \<open>The interface of a result cache\<close>

text \<open>
  \<open>hist s\<close> is what the cache \<open>s\<close> remembers, newest first. While the recorded ids are distinct,
  a lookup is a lookup in the history, and a record pushes onto it and drops the 257th.
\<close>

locale result_cache =
  fixes lookup :: "u32 \<Rightarrow> 's \<Rightarrow> 'p option"
    and store :: "u32 \<Rightarrow> 'p \<Rightarrow> 's \<Rightarrow> 's"
    and ok :: "'s \<Rightarrow> bool"
    and hist :: "'s \<Rightarrow> (u32 \<times> 'p) list"
  assumes lookup_hist: "ok s \<Longrightarrow> distinct (map fst (hist s)) \<Longrightarrow> lookup a s = map_of (hist s) a"
    and store_ok: "ok s \<Longrightarrow> ok (store a p s)"
    and store_hist: "ok s \<Longrightarrow> hist (store a p s) = take 256 ((a, p) # hist s)"
    and hist_bound: "ok s \<Longrightarrow> length (hist s) \<le> 256"
begin

fun store_all :: "(u32 \<times> 'p) list \<Rightarrow> 's \<Rightarrow> 's" where
  "store_all [] s = s"
| "store_all ((a, p) # es) s = store_all es (store a p s)"

lemma store_all_hist:
  assumes "ok s"
  shows "ok (store_all es s) \<and> hist (store_all es s) = take 256 (rev es @ hist s)"
  using assms
proof (induction es s rule: store_all.induct)
  case (1 s)
  then show ?case using hist_bound by simp
next
  case (2 a p es s)
  have "take 256 (rev es @ take 256 ((a, p) # hist s)) = take 256 (rev es @ (a, p) # hist s)"
    by (simp add: take_append take_Cons')
  with 2 show ?case by (simp add: store_ok store_hist)
qed

text \<open>A result is echoed until 256 newer ones have been stored.\<close>

lemma echo:
  assumes "ok s" "distinct (map fst (rev es @ (a, p) # hist s))" "length es < 256"
  shows "lookup a (store_all es (store a p s)) = Some p"
proof -
  let ?h = "take 256 (rev es @ (a, p) # hist s)"
  have h: "hist (store_all es (store a p s)) = ?h" "ok (store_all es (store a p s))"
    using store_all_hist [OF assms(1), of "(a, p) # es"] by simp_all
  have d: "distinct (map fst ?h)" using distinct_take [OF assms(2), of 256] by (simp only: take_map)
  have "?h = rev es @ (a, p) # take (255 - length es) (hist s)"
    using assms(3) by (auto simp: take_Cons' diff_diff_left)
  moreover have "a \<notin> fst ` set es" using assms(2) by auto
  then have "map_of (rev es) a = None" by (simp add: map_of_eq_None_iff)
  ultimately have "map_of ?h a = Some p" by (simp add: map_add_def split: option.splits)
  with lookup_hist [OF h(2)] d h(1) show ?thesis by simp
qed

lemma evicted:
  assumes "ok s" "distinct (map fst (rev es @ hist s))" "length es = 256" "a \<notin> fst ` set es"
  shows "lookup a (store_all es s) = None"
proof -
  have h: "hist (store_all es s) = rev es" "ok (store_all es s)"
    using store_all_hist [OF assms(1), of es] assms(3) by simp_all
  have "map_of (rev es) a = None" using assms(4) by (simp add: map_of_eq_None_iff)
  with lookup_hist [OF h(2)] h(1) assms(2) show ?thesis by simp
qed

end

section \<open>The ring implements it\<close>

definition ring_ok :: "'p ring \<Rightarrow> bool" where
  "ring_ok r \<longleftrightarrow> length (rg_cells r) = 256 \<and> rg_len r \<le> 256 \<and> rg_pos r < 256 \<and>
     (rg_len r < 256 \<longrightarrow> rg_pos r = rg_len r)"

definition ring_hist :: "'p ring \<Rightarrow> (u32 \<times> 'p) list" where
  "ring_hist r = (if rg_len r < 256 then rev (take (rg_pos r) (rg_cells r))
     else rev (take (rg_pos r) (rg_cells r)) @ rev (drop (rg_pos r) (rg_cells r)))"

lemma map_of_find: "map_option snd (List.find (\<lambda>e. fst e = a) xs) = map_of xs a"
  by (induction xs) auto

lemma map_of_permute: "distinct (map fst xs) \<Longrightarrow> set xs = set ys \<Longrightarrow> distinct (map fst ys) \<Longrightarrow> map_of xs = map_of ys"
  by (metis map_of_inject_set)

lemma ring_hist_set: "ring_ok r \<Longrightarrow> set (ring_hist r) = set (take (rg_len r) (rg_cells r))"
proof -
  have "set (take k xs) \<union> set (drop k xs) = set xs" for k and xs :: "(u32 \<times> 'a) list"
    by (metis append_take_drop_id set_append)
  then show "ring_ok r \<Longrightarrow> ?thesis" by (auto simp: ring_ok_def ring_hist_def)
qed

lemma ring_hist_length: "ring_ok r \<Longrightarrow> length (ring_hist r) = rg_len r"
  by (auto simp: ring_ok_def ring_hist_def)

lemma ring_hist_le: "ring_ok r \<Longrightarrow> length (ring_hist r) \<le> 256"
  using ring_hist_length [of r] by (simp add: ring_ok_def)

lemma ring_lookup_hist:
  assumes "ring_ok r" "distinct (map fst (ring_hist r))"
  shows "ring_lookup a r = map_of (ring_hist r) a"
proof -
  let ?c = "take (rg_len r) (rg_cells r)"
  have "distinct (map fst ?c)"
  proof (cases "rg_len r < 256")
    case True
    then show ?thesis using assms by (simp add: ring_ok_def ring_hist_def rev_map [symmetric])
  next
    case False
    then have "map fst (ring_hist r) = rev (take (rg_pos r) (map fst (rg_cells r))) @ rev (drop (rg_pos r) (map fst (rg_cells r)))"
      by (simp add: ring_hist_def rev_map take_map drop_map)
    moreover have "distinct xs" if "distinct (rev (take k xs) @ rev (drop k xs))" for k and xs :: "u32 list"
    proof -
      from that have "distinct (take k xs @ drop k xs)" by (simp del: append_take_drop_id)
      then show ?thesis by simp
    qed
    ultimately have "distinct (map fst (rg_cells r))" using assms(2) by metis
    then show ?thesis by (metis distinct_take take_map)
  qed
  from map_of_permute [OF this ring_hist_set [OF assms(1), symmetric] assms(2)] show ?thesis
    by (simp add: ring_lookup_def map_of_find)
qed

lemma ring_record_ok: "ring_ok r \<Longrightarrow> ring_ok (ring_record a p r)"
  by (auto simp: ring_ok_def ring_record_def cache_size_def)

lemma ring_record_hist:
  assumes "ring_ok r"
  shows "ring_hist (ring_record a p r) = take 256 ((a, p) # ring_hist r)"
proof -
  let ?c = "rg_cells r" and ?i = "rg_pos r"
  from assms have c: "length ?c = 256" "?i < 256" by (simp_all add: ring_ok_def)
  have up: "take (?i + 1) (?c[?i := (a, p)]) = take ?i ?c @ [(a, p)]"
    using c by (simp add: take_Suc_conv_app_nth)
  consider (partly) "rg_len r < 255" | (last) "rg_len r = 255" | (full) "rg_len r = 256"
    using assms by (fastforce simp: ring_ok_def)
  then show ?thesis
  proof cases
    case partly
    then show ?thesis using assms up
      by (simp add: ring_hist_def ring_record_def ring_ok_def cache_size_def)
  next
    case last
    then have "?i = 255" using assms by (simp add: ring_ok_def)
    moreover have "drop 0 (?c[255 := (a, p)]) = take 255 ?c @ [(a, p)]"
      using up c \<open>?i = 255\<close> by simp
    ultimately show ?thesis using last c
      by (simp add: ring_hist_def ring_record_def cache_size_def)
  next
    case full
    have drp: "drop (?i + 1) (?c[?i := (a, p)]) = drop (?i + 1) ?c"
      by simp
    have split: "drop ?i ?c = ?c ! ?i # drop (?i + 1) ?c" using c by (simp add: Cons_nth_drop_Suc)
    have h: "take 256 ((a, p) # ring_hist r) = (a, p) # rev (take ?i ?c) @ rev (drop (?i + 1) ?c)"
      using full c by (simp add: ring_hist_def split)
    show ?thesis
    proof (cases "?i = 255")
      case True
      have "?c[255 := (a, p)] = take 255 ?c @ [(a, p)]" using up c True by simp
      with True full c h show ?thesis
        by (simp add: ring_hist_def ring_record_def cache_size_def)
    next
      case False
      with c have "(?i + 1) mod 256 = ?i + 1" by simp
      with full c h up drp show ?thesis
        by (simp add: ring_hist_def ring_record_def cache_size_def)
    qed
  qed
qed

lemma new_ring_ok: "ring_ok (new_ring z)" and new_ring_hist: "ring_hist (new_ring z) = []"
  by (simp_all add: ring_ok_def new_ring_def cache_size_def ring_hist_def)

section \<open>The ledger provides four caches\<close>

definition ledger_ok :: "u32 \<Rightarrow> ledger \<Rightarrow> bool" where
  "ledger_ok sid l \<longleftrightarrow> (let st = state_of sid l in ring_ok (item_ring st) \<and> ring_ok (container_ring st) \<and>
     ring_ok (stash_ring st) \<and> ring_ok (trade_ring st))"

definition item_hist :: "u32 \<Rightarrow> ledger \<Rightarrow> (u32 \<times> item_update) list" where
  "item_hist sid l = ring_hist (item_ring (state_of sid l))"

definition container_hist :: "u32 \<Rightarrow> ledger \<Rightarrow> (u32 \<times> container_update) list" where
  "container_hist sid l = ring_hist (container_ring (state_of sid l))"

definition stash_hist :: "u32 \<Rightarrow> ledger \<Rightarrow> (u32 \<times> stash_result) list" where
  "stash_hist sid l = ring_hist (stash_ring (state_of sid l))"

definition trade_hist :: "u32 \<Rightarrow> ledger \<Rightarrow> (u32 \<times> trade_result) list" where
  "trade_hist sid l = ring_hist (trade_ring (state_of sid l))"

lemma state_of_put [simp]: "state_of sid (put_state sid' st l) = (if sid = sid' then st else state_of sid l)"
  by (simp add: state_of_def put_state_def)

lemma ring_lookup_new [simp]: "ring_lookup a (new_ring z) = None"
  by (simp add: ring_lookup_def new_ring_def)

lemma lookup_state_of:
  "lookup_item sid a l = ring_lookup a (item_ring (state_of sid l))"
  "lookup_container sid a l = ring_lookup a (container_ring (state_of sid l))"
  "lookup_stash sid a l = ring_lookup a (stash_ring (state_of sid l))"
  "lookup_trade sid a l = ring_lookup a (trade_ring (state_of sid l))"
  by (simp_all add: lookup_item_def lookup_container_def lookup_stash_def lookup_trade_def state_of_def
      new_action_state_def split: option.splits)

lemmas record_defs = record_item_def record_container_def record_stash_def record_trade_def record_floor_def Let_def
lemmas hist_defs = item_hist_def container_hist_def stash_hist_def trade_hist_def

lemma ledger_ok_record:
  "ledger_ok sid l \<Longrightarrow> ledger_ok sid (record_item sid a p l)"
  "ledger_ok sid l \<Longrightarrow> ledger_ok sid (record_container sid a q l)"
  "ledger_ok sid l \<Longrightarrow> ledger_ok sid (record_stash sid a r l)"
  "ledger_ok sid l \<Longrightarrow> ledger_ok sid (record_trade sid a t l)"
  by (simp_all add: ledger_ok_def record_defs ring_record_ok)

interpretation items: result_cache "lookup_item sid" "record_item sid" "ledger_ok sid" "item_hist sid" for sid
  by unfold_locales
     (simp_all add: ledger_ok_record lookup_state_of ring_lookup_hist ledger_ok_def hist_defs record_defs
       ring_record_hist ring_hist_le ring_record_ok)

interpretation containers: result_cache "lookup_container sid" "record_container sid" "ledger_ok sid" "container_hist sid" for sid
  by unfold_locales
     (simp_all add: ledger_ok_record lookup_state_of ring_lookup_hist ledger_ok_def hist_defs record_defs
       ring_record_hist ring_hist_le ring_record_ok)

interpretation stashes: result_cache "lookup_stash sid" "record_stash sid" "ledger_ok sid" "stash_hist sid" for sid
  by unfold_locales
     (simp_all add: ledger_ok_record lookup_state_of ring_lookup_hist ledger_ok_def hist_defs record_defs
       ring_record_hist ring_hist_le ring_record_ok)

interpretation trades: result_cache "lookup_trade sid" "record_trade sid" "ledger_ok sid" "trade_hist sid" for sid
  by unfold_locales
     (simp_all add: ledger_ok_record lookup_state_of ring_lookup_hist ledger_ok_def hist_defs record_defs
       ring_record_hist ring_hist_le ring_record_ok)

lemma ledger_ok_new: "ledger_ok sid (new_ledger m)"
  by (simp add: ledger_ok_def state_of_def new_ledger_def new_action_state_def new_ring_ok)

section \<open>The interface of a rolling window\<close>

locale rolling_window =
  fixes admit :: "gotime \<Rightarrow> 's \<Rightarrow> bool \<times> 's"
    and times :: "'s \<Rightarrow> gotime list"
    and limit :: int and span :: int
  assumes admit_iff: "fst (admit now s) \<longleftrightarrow> int (length (filter (\<lambda>t. now - span < t) (times s))) < limit"
    and admit_times: "times (snd (admit now s)) =
      filter (\<lambda>t. now - span < t) (times s) @ (if fst (admit now s) then [now] else [])"
begin

fun admitted :: "gotime list \<Rightarrow> 's \<Rightarrow> gotime list" where
  "admitted [] s = []"
| "admitted (n # ns) s = (if fst (admit n s) then [n] else []) @ admitted ns (snd (admit n s))"

definition in_window :: "gotime \<Rightarrow> gotime list \<Rightarrow> nat" where
  "in_window T ts = length (filter (\<lambda>t. T - span < t \<and> t \<le> T) ts)"

lemma in_window_append [simp]: "in_window T (xs @ ys) = in_window T xs + in_window T ys"
  by (simp add: in_window_def)

lemma in_window_later: "\<forall>t\<in>set ts. T < t \<Longrightarrow> in_window T ts = 0"
  by (force simp: in_window_def filter_empty_conv)

lemma in_window_filter: "n \<le> T \<Longrightarrow> in_window T (filter (\<lambda>t. n - span < t) ts) = in_window T ts"
  unfolding in_window_def filter_filter by (rule arg_cong [where f = length], rule filter_cong) auto

lemma in_window_filter_le: "in_window T (filter P ts) \<le> in_window T ts"
  unfolding in_window_def filter_filter
  by (induction ts) auto

lemma in_window_le: "in_window T ts \<le> length ts"
  by (simp add: in_window_def)

lemma admitted_set: "set (admitted ns s) \<subseteq> set ns"
  by (induction ns s rule: admitted.induct) auto

lemma window_bound_step:
  assumes "\<And>T. int (in_window T (times s)) \<le> limit"
  shows "int (in_window T (times (snd (admit n s)))) \<le> limit"
proof (cases "fst (admit n s)")
  case False
  then show ?thesis
    using in_window_filter_le [of T "\<lambda>t. n - span < t" "times s"] assms [of T] by (simp add: admit_times)
next
  case True
  let ?k = "filter (\<lambda>t. n - span < t) (times s)"
  show ?thesis
  proof (cases "n \<le> T")
    case True
    have "int (in_window T (?k @ [n])) \<le> int (length ?k) + 1"
      using in_window_le [of T "?k @ [n]"] by simp
    also have "\<dots> \<le> limit" using \<open>fst (admit n s)\<close> by (simp add: admit_iff)
    finally show ?thesis using \<open>fst (admit n s)\<close> by (simp add: admit_times)
  next
    case False
    then have "in_window T [n] = 0" by (simp add: in_window_def)
    then show ?thesis using \<open>fst (admit n s)\<close> in_window_filter_le [of T "\<lambda>t. n - span < t" "times s"] assms [of T]
      by (simp add: admit_times)
  qed
qed

lemma window_bound:
  assumes "\<And>T. int (in_window T (times s)) \<le> limit" "sorted ns"
  shows "int (in_window T (times s @ admitted ns s)) \<le> limit"
  using assms
proof (induction ns arbitrary: s)
  case (Cons n ns)
  let ?s = "snd (admit n s)" and ?k = "filter (\<lambda>t. n - span < t) (times s)"
  from Cons.prems have later: "\<forall>t\<in>set ns. n \<le> t" by simp
  show ?case
  proof (cases "n \<le> T")
    case True
    have "int (in_window T (times ?s @ admitted ns ?s)) \<le> limit"
      using Cons.prems by (intro Cons.IH window_bound_step) auto
    moreover have "in_window T ?k = in_window T (times s)" using True by (rule in_window_filter)
    ultimately show ?thesis by (simp add: admit_times split: if_splits)
  next
    case False
    have "in_window T (admitted (n # ns) s) = 0"
      using admitted_set [of "n # ns" s] later False by (intro in_window_later) force
    with Cons.prems(1) show ?thesis by simp
  qed
qed simp

end

lemma fst_allow_action: "fst (allow_action sid now l) \<longleftrightarrow>
    int (length (filter (\<lambda>t. now - second < t) (rate (state_of sid l)))) < allowed_per_window (lg_max_per_s l)"
  by (auto simp: allow_action_def window_admit_def Let_def split: prod.splits)

lemma allow_action_rate: "rate (state_of sid (snd (allow_action sid now l))) =
    filter (\<lambda>t. now - second < t) (rate (state_of sid l)) @ (if fst (allow_action sid now l) then [now] else [])"
  by (auto simp: allow_action_def window_admit_def Let_def split: prod.splits)

lemma allow_action_max [simp]: "lg_max_per_s (snd (allow_action sid now l)) = lg_max_per_s l"
  by (auto simp: allow_action_def put_state_def Let_def split: prod.splits)

text \<open>The window of one session of a ledger: the ledger with its budget fixed.\<close>

definition admit_fixed :: "f64 \<Rightarrow> u32 \<Rightarrow> gotime \<Rightarrow> ledger \<Rightarrow> bool \<times> ledger" where
  "admit_fixed m sid now l = allow_action sid now (l\<lparr>lg_max_per_s := m\<rparr>)"

lemma state_of_budget [simp]: "state_of sid (l\<lparr>lg_max_per_s := m\<rparr>) = state_of sid l"
  by (simp add: state_of_def)

interpretation actions: rolling_window "admit_fixed m sid" "\<lambda>l. rate (state_of sid l)" "allowed_per_window m" second
  for m sid
  by unfold_locales (simp_all add: admit_fixed_def fst_allow_action allow_action_rate)

section \<open>Properties\<close>

fun record_items :: "u32 \<Rightarrow> (u32 \<times> item_update) list \<Rightarrow> ledger \<Rightarrow> ledger" where
  "record_items sid [] l = l"
| "record_items sid ((a, p) # es) l = record_items sid es (record_item sid a p l)"

lemma record_items_store: "record_items sid es l = items.store_all sid es l"
  by (induction es arbitrary: l) auto

text \<open>C37: A replayed action is answered from the cache: after the result of an ActionID is recorded and
  fewer than 256 others follow it (distinct ids), a lookup of that id echoes exactly that
  result; with 256 others it is gone. The ring with its wrapping write position behaves as
  the list of the last 256 results.\<close>

theorem replay_echo:
  assumes "ledger_ok sid l" and "distinct (map fst (rev es @ (a, p) # item_hist sid l))"
  shows "(length es < 256 \<longrightarrow> lookup_item sid a (record_items sid es (record_item sid a p l)) = Some p) \<and>
    (length es = 256 \<longrightarrow> lookup_item sid a (record_items sid es (record_item sid a p l)) = None)"
proof -
  consider "length es < 256" | "length es = 256" | "256 < length es" by linarith
  then show ?thesis
  proof cases
    case 1
    with items.echo [OF assms] show ?thesis by (simp add: record_items_store)
  next
    case 2
    let ?l = "record_item sid a p l"
    have "item_hist sid ?l = take 256 ((a, p) # item_hist sid l)" using assms(1) by (rule items.store_hist)
    then have "rev es @ item_hist sid ?l = take (length es + 256) (rev es @ (a, p) # item_hist sid l)"
      by simp
    then have "map fst (rev es @ item_hist sid ?l) = take (length es + 256) (map fst (rev es @ (a, p) # item_hist sid l))"
      by (simp only: take_map)
    then have "distinct (map fst (rev es @ item_hist sid ?l))"
      using distinct_take [OF assms(2)] by (simp only:)
    moreover have "a \<notin> fst ` set es" using assms(2) by auto
    ultimately show ?thesis
      using items.evicted [of sid ?l es a] items.store_ok [OF assms(1)] 2 by (simp add: record_items_store)
  qed simp
qed

definition demo_result :: "u32 \<Rightarrow> item_update" where
  "demo_result a = zero_item_update\<lparr>iu_action_id := a, iu_result := 0, iu_count := - 3\<rparr>"

theorem replay_echo_witness:
  "lookup_item 7 41 (record_items 7 [(42, demo_result 42), (43, demo_result 43)]
     (record_item 7 41 (demo_result 41) (new_ledger (Fin 5)))) = Some (demo_result 41)"
proof -
  have "item_hist 7 (new_ledger (Fin 5)) = []"
    by (simp add: item_hist_def state_of_def new_ledger_def new_action_state_def new_ring_hist)
  then show ?thesis
    using replay_echo [OF ledger_ok_new [of 7 "Fin 5"], where es = "[(42, demo_result 42), (43, demo_result 43)]"
        and a = 41 and p = "demo_result 41"]
    by simp
qed

fun allowed_times :: "u32 \<Rightarrow> gotime list \<Rightarrow> ledger \<Rightarrow> gotime list" where
  "allowed_times sid [] l = []"
| "allowed_times sid (n # ns) l =
     (if fst (allow_action sid n l) then [n] else []) @ allowed_times sid ns (snd (allow_action sid n l))"

lemma allowed_times_admitted: "allowed_times sid ns l = actions.admitted (lg_max_per_s l) sid ns l"
proof (induction ns arbitrary: l)
  case (Cons n ns)
  have "admit_fixed (lg_max_per_s l) sid n l = allow_action sid n l" by (simp add: admit_fixed_def)
  with Cons [of "snd (allow_action sid n l)"] show ?case by simp
qed simp

text \<open>The action budget holds over every window, not only over aligned seconds: whatever times a new
  session's actions arrive at, in order, no second-long interval admits more than the budget
  (\<open>floor(maxPerS)\<close>, at least one).\<close>

theorem action_rate_bounded:
  assumes "sorted ns" and "lg_sessions l sid = None"
  shows "int (length (filter (\<lambda>t. T - second < t \<and> t \<le> T) (allowed_times sid ns l))) \<le>
    allowed_per_window (lg_max_per_s l)"
proof -
  have r: "rate (state_of sid l) = []" using assms(2) by (simp add: state_of_def new_action_state_def)
  have "0 \<le> allowed_per_window (lg_max_per_s l)" by (simp add: allowed_per_window_def Let_def)
  then have "int (actions.in_window T (rate (state_of sid l) @ actions.admitted (lg_max_per_s l) sid ns l))
      \<le> allowed_per_window (lg_max_per_s l)"
    using assms(1) by (intro actions.window_bound) (simp_all add: r actions.in_window_def)
  then show ?thesis by (simp add: r actions.in_window_def allowed_times_admitted)
qed

theorem action_rate_bounded_witness:
  "length (filter (\<lambda>t. 900000000 - second < t \<and> t \<le> 900000000)
     (allowed_times 3 [0, 100000000, 200000000, 300000000, 400000000] (new_ledger (Fin 2)))) \<le> 2"
  using action_rate_bounded [of "[0, 100000000, 200000000, 300000000, 400000000]" "new_ledger (Fin 2)" 3 900000000]
  by (simp add: new_ledger_def allowed_per_window_def)

end
