(* ===== verification/Sessions.thy ===== *)
theory Sessions
  imports NetAddr GoText ItemLedger
begin

text \<open>
  Player sessions and their index: internal/network/session.go. Sessions are Go pointers that
  the server shares, so a heap maps a pointer to the session it points to and the manager
  holds pointers: the map by id, the map by address text and the cached list that \<open>GetAll\<close>
  returns. Ranging over \<open>sessions\<close> takes the visiting order as an argument. \<open>lower\<close> is
  \<open>strings.ToLower\<close> and \<open>fold_eq\<close> is \<open>strings.EqualFold\<close>, whose Unicode tables are not
  written out; what the lemmas use of them is a hypothesis there.
\<close>

record player_session =
  p_id :: u32
  p_account :: string
  p_name :: string
  p_addr :: "udp_addr option"
  p_level :: string
  p_pos :: "f32 \<times> f32 \<times> f32"
  p_rot :: "f32 \<times> f32"
  p_vel :: "f32 \<times> f32 \<times> f32"
  p_health :: f32
  p_anim_flags :: u8
  p_gvid :: u16
  p_visual :: string
  p_has_visual :: bool
  p_in_safe_zone :: bool
  p_safe_zone_id :: string
  p_last_seen :: gotime
  p_last_sequence :: u32
  p_last_ai_sent :: gotime
  p_token :: u64
  p_dirty :: bool
  p_last_checkpoint :: gotime
  p_in_combat_until :: gotime
  p_chat_times :: "gotime list"
  p_pending_create :: bool
  p_faction :: string
  p_enter_level :: string
  p_enter_rev :: u64
  p_visual_rev :: u64
  p_inv_synced_level :: string

section \<open>One session\<close>

definition allow_chat :: "gotime \<Rightarrow> player_session \<Rightarrow> bool \<times> player_session" where
  "allow_chat now s = (let kept = filter (\<lambda>t. now - 5 * second < t) (p_chat_times s) in
     if 5 \<le> length kept then (False, s\<lparr>p_chat_times := kept\<rparr>)
     else (True, s\<lparr>p_chat_times := kept @ [now]\<rparr>))"

definition mark_dirty :: "player_session \<Rightarrow> player_session" where
  "mark_dirty s = s\<lparr>p_dirty := True\<rparr>"

definition set_combat :: "gotime \<Rightarrow> duration \<Rightarrow> player_session \<Rightarrow> player_session" where
  "set_combat now d s = s\<lparr>p_in_combat_until := now + d\<rparr>"

definition is_in_combat :: "gotime \<Rightarrow> player_session \<Rightarrow> bool" where
  "is_in_combat now s \<longleftrightarrow> now < p_in_combat_until s"

section \<open>The manager\<close>

type_synonym ptr = nat
type_synonym heap = "ptr \<Rightarrow> player_session"

record session_manager =
  sm_sessions :: "u32 \<Rightarrow> ptr option"
  sm_by_addr :: "string \<Rightarrow> ptr option"
  sm_cached :: "ptr list"

definition new_session_manager :: session_manager where
  "new_session_manager = \<lparr>sm_sessions = Map.empty, sm_by_addr = Map.empty, sm_cached = []\<rparr>"

definition sess_count :: "session_manager \<Rightarrow> nat" where
  "sess_count sm = card (dom (sm_sessions sm))"

definition update_cache :: "u32 list \<Rightarrow> session_manager \<Rightarrow> session_manager" where
  "update_cache order sm = sm\<lparr>sm_cached := map (\<lambda>i. the (sm_sessions sm i)) (filter (\<lambda>i. sm_sessions sm i \<noteq> None) order)\<rparr>"

definition drop_addr :: "udp_addr option \<Rightarrow> session_manager \<Rightarrow> session_manager" where
  "drop_addr a sm = (case a of None \<Rightarrow> sm | Some x \<Rightarrow> sm\<lparr>sm_by_addr := (sm_by_addr sm)(addr_string x := None)\<rparr>)"

definition put_addr :: "udp_addr option \<Rightarrow> ptr \<Rightarrow> session_manager \<Rightarrow> session_manager" where
  "put_addr a p sm = (case a of None \<Rightarrow> sm | Some x \<Rightarrow> sm\<lparr>sm_by_addr := (sm_by_addr sm)(addr_string x \<mapsto> p)\<rparr>)"

definition add_session :: "heap \<Rightarrow> u32 list \<Rightarrow> ptr \<Rightarrow> session_manager \<Rightarrow> session_manager" where
  "add_session h order p sm =
     (let s = h p;
          sm1 = (case sm_sessions sm (p_id s) of None \<Rightarrow> sm | Some q \<Rightarrow> drop_addr (p_addr (h q)) sm);
          sm2 = sm1\<lparr>sm_sessions := (sm_sessions sm1)(p_id s \<mapsto> p)\<rparr>
      in update_cache order (put_addr (p_addr s) p sm2))"

text \<open>The two eviction loops of \<open>TryAddCapped\<close>: sessions of the same address leave the id map only,
  sessions of the same account leave both maps.\<close>

fun evict_addr :: "heap \<Rightarrow> u32 \<Rightarrow> string \<Rightarrow> u32 list \<Rightarrow> session_manager \<times> ptr list \<Rightarrow> session_manager \<times> ptr list" where
  "evict_addr h sid a [] r = r"
| "evict_addr h sid a (i # is) (sm, ev) = (case sm_sessions sm i of
     None \<Rightarrow> evict_addr h sid a is (sm, ev)
   | Some q \<Rightarrow>
       if i = sid then evict_addr h sid a is (sm, ev)
       else (case p_addr (h q) of
         None \<Rightarrow> evict_addr h sid a is (sm, ev)
       | Some x \<Rightarrow>
           if addr_string x = a then evict_addr h sid a is (sm\<lparr>sm_sessions := (sm_sessions sm)(i := None)\<rparr>, ev @ [q])
           else evict_addr h sid a is (sm, ev)))"

fun evict_account :: "heap \<Rightarrow> u32 \<Rightarrow> string \<Rightarrow> u32 list \<Rightarrow> session_manager \<times> ptr list \<Rightarrow> session_manager \<times> ptr list" where
  "evict_account h sid acc [] r = r"
| "evict_account h sid acc (i # is) (sm, ev) = (case sm_sessions sm i of
     None \<Rightarrow> evict_account h sid acc is (sm, ev)
   | Some q \<Rightarrow>
       if i \<noteq> sid \<and> p_account (h q) = acc
       then evict_account h sid acc is
              (drop_addr (p_addr (h q)) (sm\<lparr>sm_sessions := (sm_sessions sm)(i := None)\<rparr>), ev @ [q])
       else evict_account h sid acc is (sm, ev))"

definition addr_pass :: "heap \<Rightarrow> u32 list \<Rightarrow> ptr \<Rightarrow> session_manager \<Rightarrow> session_manager \<times> ptr list" where
  "addr_pass h order p sm = (case p_addr (h p) of
     None \<Rightarrow> (sm, [])
   | Some x \<Rightarrow> if sm_by_addr sm (addr_string x) \<noteq> None
       then evict_addr h (p_id (h p)) (addr_string x) order (sm, []) else (sm, []))"

definition account_pass :: "heap \<Rightarrow> u32 list \<Rightarrow> ptr \<Rightarrow> session_manager \<times> ptr list \<Rightarrow> session_manager \<times> ptr list" where
  "account_pass h order p r = (if p_account (h p) \<noteq> ''''
     then evict_account h (p_id (h p)) (p_account (h p)) order r else r)"

definition try_add_capped :: "heap \<Rightarrow> u32 list \<Rightarrow> u32 list \<Rightarrow> u32 list \<Rightarrow> ptr option \<Rightarrow> int \<Rightarrow> session_manager
    \<Rightarrow> session_manager \<times> ptr list \<times> bool" where
  "try_add_capped h order1 order2 order3 np maxn sm = (case np of
     None \<Rightarrow> (sm, [], False)
   | Some p \<Rightarrow>
       (let s = h p; (sm2, ev2) = account_pass h order2 p (addr_pass h order1 p sm)
        in if 0 < maxn \<and> maxn \<le> int (sess_count sm2) \<and> sm_sessions sm2 (p_id s) = None then (sm2, ev2, False)
           else
             let (sm3, ev3) = (case sm_sessions sm2 (p_id s) of
                   None \<Rightarrow> (sm2, ev2)
                 | Some q \<Rightarrow> if q \<noteq> p then (drop_addr (p_addr (h q)) sm2, ev2 @ [q]) else (sm2, ev2));
                 sm4 = sm3\<lparr>sm_sessions := (sm_sessions sm3)(p_id s \<mapsto> p)\<rparr>
             in (update_cache order3 (put_addr (p_addr s) p sm4), ev3, True)))"
definition remove_session :: "heap \<Rightarrow> u32 list \<Rightarrow> u32 \<Rightarrow> session_manager \<Rightarrow> session_manager" where
  "remove_session h order i sm = (case sm_sessions sm i of
     None \<Rightarrow> sm
   | Some q \<Rightarrow> update_cache order (drop_addr (p_addr (h q)) (sm\<lparr>sm_sessions := (sm_sessions sm)(i := None)\<rparr>)))"

definition get_by_id :: "u32 \<Rightarrow> session_manager \<Rightarrow> ptr option" where
  "get_by_id i sm = sm_sessions sm i"

definition get_by_addr :: "string \<Rightarrow> session_manager \<Rightarrow> ptr option" where
  "get_by_addr a sm = sm_by_addr sm a"

definition get_by_name :: "(string \<Rightarrow> string \<Rightarrow> bool) \<Rightarrow> heap \<Rightarrow> string \<Rightarrow> session_manager \<Rightarrow> ptr option" where
  "get_by_name fold_eq h name sm = (if name = '''' then None
     else List.find (\<lambda>p. fold_eq (p_name (h p)) name) (sm_cached sm))"

definition get_all :: "session_manager \<Rightarrow> ptr list" where
  "get_all sm = sm_cached sm"

text \<open>The suffix loop has no bound of its own: \<open>fuel\<close> counts the candidates it may try.\<close>

definition name_candidate :: "string \<Rightarrow> nat \<Rightarrow> string" where
  "name_candidate base n = (let suffix = CHR ''~'' # itoa (int n)
     in truncate_utf8 base (31 - int (length suffix)) @ suffix)"

fun name_loop :: "(string \<Rightarrow> string) \<Rightarrow> string list \<Rightarrow> string \<Rightarrow> nat \<Rightarrow> nat \<Rightarrow> string option" where
  "name_loop lower taken base n 0 = None"
| "name_loop lower taken base n (Suc fuel) =
     (if lower (name_candidate base n) \<notin> set taken then Some (name_candidate base n)
      else name_loop lower taken base (n + 1) fuel)"

definition taken_names :: "(string \<Rightarrow> string) \<Rightarrow> heap \<Rightarrow> u32 list \<Rightarrow> ptr \<Rightarrow> session_manager \<Rightarrow> string list" where
  "taken_names lower h order p sm = map (\<lambda>i. lower (p_name (h (the (sm_sessions sm i)))))
     (filter (\<lambda>i. sm_sessions sm i \<noteq> None \<and> sm_sessions sm i \<noteq> Some p) order)"

definition unique_name :: "(string \<Rightarrow> string) \<Rightarrow> string list \<Rightarrow> string \<Rightarrow> nat \<Rightarrow> string option" where
  "unique_name lower taken name fuel = (let base = (if name = '''' then ''Stalker'' else name) in
     if lower base \<notin> set taken then Some base else name_loop lower taken base 2 fuel)"

definition ensure_unique_name :: "(string \<Rightarrow> string) \<Rightarrow> u32 list \<Rightarrow> nat \<Rightarrow> ptr option \<Rightarrow> session_manager \<Rightarrow> heap \<Rightarrow> heap option" where
  "ensure_unique_name lower order fuel np sm h = (case np of
     None \<Rightarrow> Some h
   | Some p \<Rightarrow> map_option (\<lambda>nm. h(p := (h p)\<lparr>p_name := nm\<rparr>))
       (unique_name lower (taken_names lower h order p sm) (p_name (h p)) fuel))"

section \<open>The invariant\<close>

text \<open>
  The id map is keyed by the sessions' ids; live sessions have different addresses and different
  accounts; the address index holds exactly the live sessions that have an address; the cache
  lists exactly the live sessions.
\<close>

definition addr_key :: "player_session \<Rightarrow> string option" where
  "addr_key s = map_option addr_string (p_addr s)"

definition keyed :: "heap \<Rightarrow> session_manager \<Rightarrow> bool" where
  "keyed h sm \<longleftrightarrow> finite (dom (sm_sessions sm)) \<and> (\<forall>i p. sm_sessions sm i = Some p \<longrightarrow> p_id (h p) = i)"

definition index_ok :: "heap \<Rightarrow> session_manager \<Rightarrow> bool" where
  "index_ok h sm \<longleftrightarrow> (\<forall>a p. sm_by_addr sm a = Some p \<longleftrightarrow>
     sm_sessions sm (p_id (h p)) = Some p \<and> addr_key (h p) = Some a)"

definition accounts_ok :: "heap \<Rightarrow> session_manager \<Rightarrow> bool" where
  "accounts_ok h sm \<longleftrightarrow> (\<forall>i j p q. sm_sessions sm i = Some p \<longrightarrow> sm_sessions sm j = Some q \<longrightarrow>
     p_account (h p) = p_account (h q) \<longrightarrow> p_account (h p) \<noteq> '''' \<longrightarrow> i = j)"

definition cache_ok :: "session_manager \<Rightarrow> bool" where
  "cache_ok sm \<longleftrightarrow> set (sm_cached sm) = ran (sm_sessions sm)"

definition sm_ok :: "heap \<Rightarrow> session_manager \<Rightarrow> bool" where
  "sm_ok h sm \<longleftrightarrow> keyed h sm \<and> index_ok h sm \<and> accounts_ok h sm \<and> cache_ok sm"

section \<open>Lemmas: the index\<close>

definition live :: "heap \<Rightarrow> session_manager \<Rightarrow> ptr \<Rightarrow> bool" where
  "live h sm p \<longleftrightarrow> sm_sessions sm (p_id (h p)) = Some p"

definition index_but :: "string option \<Rightarrow> heap \<Rightarrow> session_manager \<Rightarrow> bool" where
  "index_but k h sm \<longleftrightarrow> (\<forall>a p. Some a \<noteq> k \<longrightarrow>
     (sm_by_addr sm a = Some p \<longleftrightarrow> live h sm p \<and> addr_key (h p) = Some a))"

lemma index_ok_but: "index_ok h sm \<longleftrightarrow> index_but None h sm"
  by (simp add: index_ok_def index_but_def live_def)

lemma index_but_weaken: "index_but None h sm \<Longrightarrow> index_but k h sm"
  by (simp add: index_but_def)

definition forget :: "heap \<Rightarrow> u32 \<Rightarrow> ptr \<Rightarrow> session_manager \<Rightarrow> session_manager" where
  "forget h i q sm = drop_addr (p_addr (h q)) (sm\<lparr>sm_sessions := (sm_sessions sm)(i := None)\<rparr>)"

lemma forget_sessions [simp]: "sm_sessions (forget h i q sm) = (sm_sessions sm)(i := None)"
  by (simp add: forget_def drop_addr_def split: option.splits)

lemma forget_cached [simp]: "sm_cached (forget h i q sm) = sm_cached sm"
  by (simp add: forget_def drop_addr_def split: option.splits)

lemma forget_by_addr: "sm_by_addr (forget h i q sm) a = (if addr_key (h q) = Some a then None else sm_by_addr sm a)"
  by (simp add: forget_def drop_addr_def addr_key_def split: option.splits)

lemma keyed_forget: "keyed h sm \<Longrightarrow> keyed h (forget h i q sm)"
  by (auto simp: keyed_def)

lemma keyed_live: "keyed h sm \<Longrightarrow> sm_sessions sm i = Some p \<Longrightarrow> live h sm p \<and> i = p_id (h p)"
  by (auto simp: keyed_def live_def)

text \<open>Forgetting a live session keeps the index exact outside \<open>k\<close>.\<close>

lemma index_forget:
  assumes "keyed h sm" "index_but k h sm" "sm_sessions sm i = Some q"
  shows "index_but k h (forget h i q sm)"
  unfolding index_but_def
proof (intro allI impI)
  fix a p assume a: "Some a \<noteq> k"
  have q: "live h sm q" "i = p_id (h q)" using keyed_live [OF assms(1,3)] by simp_all
  have "live h (forget h i q sm) p \<longleftrightarrow> live h sm p \<and> p_id (h p) \<noteq> i" by (auto simp: live_def)
  moreover have "p = q" if "live h sm p" "p_id (h p) = i" using that assms(3) by (simp add: live_def)
  moreover have "p = q" if "live h sm p" "addr_key (h p) = Some a" "addr_key (h q) = Some a"
  proof -
    from that a assms(2) have "sm_by_addr sm a = Some p" by (simp add: index_but_def)
    moreover from that q a assms(2) have "sm_by_addr sm a = Some q" by (simp add: index_but_def)
    ultimately show ?thesis by simp
  qed
  ultimately show "sm_by_addr (forget h i q sm) a = Some p \<longleftrightarrow>
      live h (forget h i q sm) p \<and> addr_key (h p) = Some a"
    using assms(2) a q(2) by (auto simp: forget_by_addr index_but_def)
qed

text \<open>Putting a session whose address no live session has makes the index exact.\<close>

lemma index_put:
  assumes "index_but (addr_key (h p)) h sm" "sm_sessions sm (p_id (h p)) = None" "\<not> live h sm p"
    and "\<And>q. live h sm q \<Longrightarrow> addr_key (h q) \<noteq> addr_key (h p) \<or> addr_key (h p) = None"
  shows "index_ok h (put_addr (p_addr (h p)) p (sm\<lparr>sm_sessions := (sm_sessions sm)(p_id (h p) \<mapsto> p)\<rparr>))"
    (is "index_ok h ?sm")
  unfolding index_ok_def
proof (intro allI)
  fix a r
  have by_addr: "sm_by_addr ?sm a = (if addr_key (h p) = Some a then Some p else sm_by_addr sm a)"
    by (simp add: put_addr_def addr_key_def split: option.splits)
  have sess: "sm_sessions ?sm = (sm_sessions sm)(p_id (h p) \<mapsto> p)"
    by (simp add: put_addr_def split: option.splits)
  show "sm_by_addr ?sm a = Some r \<longleftrightarrow> sm_sessions ?sm (p_id (h r)) = Some r \<and> addr_key (h r) = Some a"
  proof (cases "addr_key (h p) = Some a")
    case True
    have "r = p" if "sm_sessions ?sm (p_id (h r)) = Some r" "addr_key (h r) = Some a"
    proof (rule ccontr)
      assume "r \<noteq> p"
      with that(1) have "live h sm r" by (auto simp: sess live_def split: if_splits)
      with assms(4) that(2) True show False by auto
    qed
    with True show ?thesis by (auto simp: by_addr sess)
  next
    case False
    then have "sm_by_addr sm a = Some r \<longleftrightarrow> live h sm r \<and> addr_key (h r) = Some a"
      using assms(1) by (simp add: index_but_def)
    with False assms(2) show ?thesis by (auto simp: by_addr sess live_def split: if_splits)
  qed
qed

lemma put_addr_cached [simp]: "sm_cached (put_addr a p sm) = sm_cached sm"
  and put_addr_sessions [simp]: "sm_sessions (put_addr a p sm) = sm_sessions sm"
  and drop_addr_sessions [simp]: "sm_sessions (drop_addr a sm) = sm_sessions sm"
  and drop_addr_cached [simp]: "sm_cached (drop_addr a sm) = sm_cached sm"
  by (simp_all add: put_addr_def drop_addr_def split: option.splits)

lemma update_cache_ok: "dom (sm_sessions sm) \<subseteq> set order \<Longrightarrow> cache_ok (update_cache order sm)"
  by (force simp: cache_ok_def update_cache_def ran_def image_iff)

lemma update_cache_fields [simp]:
  "sm_sessions (update_cache order sm) = sm_sessions sm" "sm_by_addr (update_cache order sm) = sm_by_addr sm"
  by (simp_all add: update_cache_def)

lemma update_cache_inv [simp]:
  "index_ok h (update_cache order sm) = index_ok h sm" "keyed h (update_cache order sm) = keyed h sm"
  "accounts_ok h (update_cache order sm) = accounts_ok h sm"
  by (simp_all add: index_ok_def keyed_def accounts_ok_def)

section \<open>Lemmas: evictions\<close>

definition shrunk :: "session_manager \<Rightarrow> session_manager \<Rightarrow> ptr list \<Rightarrow> ptr list \<Rightarrow> bool" where
  "shrunk sm sm' ev ev' \<longleftrightarrow> sm_cached sm' = sm_cached sm \<and> sm_sessions sm' \<subseteq>\<^sub>m sm_sessions sm \<and>
     set ev' = set ev \<union> {q. \<exists>i. sm_sessions sm i = Some q \<and> sm_sessions sm' i = None} \<and>
     (dom (sm_sessions sm') = dom (sm_sessions sm) \<longrightarrow> sm' = sm \<and> ev' = ev)"

lemma shrunk_refl [simp]: "shrunk sm sm ev ev"
  by (auto simp: shrunk_def)

lemma map_leD: "m \<subseteq>\<^sub>m n \<Longrightarrow> m k = Some v \<Longrightarrow> n k = Some v"
  by (metis domI map_le_def)

lemma shrunk_trans:
  assumes "shrunk sm sm1 ev ev1" "shrunk sm1 sm2 ev1 ev2"
  shows "shrunk sm sm2 ev ev2"
proof -
  let ?S = "sm_sessions sm" and ?S1 = "sm_sessions sm1" and ?S2 = "sm_sessions sm2"
  from assms have le: "?S1 \<subseteq>\<^sub>m ?S" "?S2 \<subseteq>\<^sub>m ?S1" by (simp_all add: shrunk_def)
  have "?S i = Some q \<and> ?S2 i = None \<longleftrightarrow>
      ?S i = Some q \<and> ?S1 i = None \<or> ?S1 i = Some q \<and> ?S2 i = None" for q i
    using map_leD [OF le(1), of i] map_leD [OF le(2), of i] by (cases "?S1 i"; cases "?S2 i"; cases "?S i") auto
  then have "(\<exists>i. ?S i = Some q \<and> ?S2 i = None) \<longleftrightarrow>
      (\<exists>i. ?S i = Some q \<and> ?S1 i = None) \<or> (\<exists>i. ?S1 i = Some q \<and> ?S2 i = None)" for q
    by blast
  then have "set ev2 = set ev \<union> {q. \<exists>i. ?S i = Some q \<and> ?S2 i = None}"
    using assms by (auto simp: shrunk_def)
  moreover have "sm2 = sm \<and> ev2 = ev" if "dom ?S2 = dom ?S"
  proof -
    have "dom ?S1 = dom ?S" using that map_le_implies_dom_le [OF le(1)] map_le_implies_dom_le [OF le(2)] by blast
    then have "sm1 = sm \<and> ev1 = ev" using assms(1) by (simp add: shrunk_def)
    with that assms(2) show ?thesis by (simp add: shrunk_def)
  qed
  moreover have "?S2 \<subseteq>\<^sub>m ?S" "sm_cached sm2 = sm_cached sm"
    using assms map_le_trans [OF le(2,1)] by (simp_all add: shrunk_def)
  ultimately show ?thesis unfolding shrunk_def by blast
qed

lemma shrunk_drop:
  assumes "sm_sessions sm i = Some q" "sm_sessions sm' = (sm_sessions sm)(i := None)" "sm_cached sm' = sm_cached sm"
  shows "shrunk sm sm' ev (ev @ [q])"
proof -
  have "dom (sm_sessions sm') \<noteq> dom (sm_sessions sm)" using assms by auto
  with assms show ?thesis by (auto simp: shrunk_def map_le_def)
qed

lemma evict_addr_shrunk: "shrunk sm (fst (evict_addr h sid a is (sm, ev))) ev (snd (evict_addr h sid a is (sm, ev)))"
proof (induction "is" arbitrary: sm ev)
  case (Cons i "is")
  show ?case
  proof (cases "sm_sessions sm i")
    case (Some q)
    let ?sm = "sm\<lparr>sm_sessions := (sm_sessions sm)(i := None)\<rparr>"
    have "shrunk sm ?sm ev (ev @ [q])" using Some by (intro shrunk_drop) simp_all
    from shrunk_trans [OF this Cons.IH] Cons.IH Some show ?thesis by (simp split: option.splits)
  qed (use Cons in simp)
qed simp

lemma evict_addr_sessions:
  "sm_sessions (fst (evict_addr h sid a is (sm, ev))) i =
     (case sm_sessions sm i of None \<Rightarrow> None
      | Some q \<Rightarrow> if i \<in> set is \<and> i \<noteq> sid \<and> addr_key (h q) = Some a then None else Some q)"
proof (induction "is" arbitrary: sm ev)
  case (Cons j "is")
  then show ?case by (auto simp: addr_key_def split: option.splits)
qed (simp split: option.splits)

lemma evict_addr_by_addr: "sm_by_addr (fst (evict_addr h sid a is (sm, ev))) = sm_by_addr sm"
proof (induction "is" arbitrary: sm ev)
  case (Cons j "is")
  then show ?case by (auto split: option.splits)
qed simp

lemma keyed_shrunk: "shrunk sm sm' ev ev' \<Longrightarrow> keyed h sm \<Longrightarrow> keyed h sm'"
  unfolding shrunk_def keyed_def by (metis finite_subset map_leD map_le_implies_dom_le)

lemma accounts_shrunk: "shrunk sm sm' ev ev' \<Longrightarrow> accounts_ok h sm \<Longrightarrow> accounts_ok h sm'"
  unfolding shrunk_def accounts_ok_def by (metis map_leD)

lemma evict_account_step:
  "evict_account h sid acc (i # is) (sm, ev) = (case sm_sessions sm i of
     None \<Rightarrow> evict_account h sid acc is (sm, ev)
   | Some q \<Rightarrow> if i \<noteq> sid \<and> p_account (h q) = acc then evict_account h sid acc is (forget h i q sm, ev @ [q])
       else evict_account h sid acc is (sm, ev))"
  by (simp add: forget_def split: option.splits)

declare evict_account.simps(2) [simp del]

lemma evict_account_shrunk: "shrunk sm (fst (evict_account h sid acc is (sm, ev))) ev (snd (evict_account h sid acc is (sm, ev)))"
proof (induction "is" arbitrary: sm ev)
  case (Cons i "is")
  show ?case
  proof (cases "sm_sessions sm i")
    case (Some q)
    have "shrunk sm (forget h i q sm) ev (ev @ [q])" using Some by (intro shrunk_drop) simp_all
    from shrunk_trans [OF this Cons.IH] Cons.IH Some show ?thesis by (simp add: evict_account_step)
  qed (use Cons in \<open>simp add: evict_account_step\<close>)
qed simp

lemma evict_account_sessions:
  "sm_sessions (fst (evict_account h sid acc is (sm, ev))) i =
     (case sm_sessions sm i of None \<Rightarrow> None
      | Some q \<Rightarrow> if i \<in> set is \<and> i \<noteq> sid \<and> p_account (h q) = acc then None else Some q)"
proof (induction "is" arbitrary: sm ev)
  case (Cons j "is")
  then show ?case by (auto simp: evict_account_step split: option.splits)
qed (simp split: option.splits)

lemma evict_account_index:
  "keyed h sm \<Longrightarrow> index_but k h sm \<Longrightarrow> index_but k h (fst (evict_account h sid acc is (sm, ev)))"
proof (induction "is" arbitrary: sm ev)
  case (Cons j "is")
  then show ?case
    using index_forget [of h sm k j] keyed_forget [of h sm j] by (auto simp: evict_account_step split: option.splits)
qed simp

section \<open>Lemmas: admission\<close>

definition place :: "heap \<Rightarrow> u32 list \<Rightarrow> ptr \<Rightarrow> session_manager \<Rightarrow> session_manager" where
  "place h order p sm = (let s = h p;
       sm3 = (case sm_sessions sm (p_id s) of None \<Rightarrow> sm | Some q \<Rightarrow> forget h (p_id s) q sm)
     in update_cache order (put_addr (p_addr s) p (sm3\<lparr>sm_sessions := (sm_sessions sm3)(p_id s \<mapsto> p)\<rparr>)))"

lemma try_add_capped_eq:
  assumes "p \<notin> ran (sm_sessions sm)" "addr_pass h o1 p sm = (sm1, ev1)"
    and "account_pass h o2 p (sm1, ev1) = (sm2, ev2)" "shrunk sm sm2 [] ev2"
  shows "try_add_capped h o1 o2 o3 (Some p) maxn sm =
    (if 0 < maxn \<and> maxn \<le> int (sess_count sm2) \<and> sm_sessions sm2 (p_id (h p)) = None then (sm2, ev2, False)
     else (place h o3 p sm2,
           (case sm_sessions sm2 (p_id (h p)) of None \<Rightarrow> ev2 | Some q \<Rightarrow> ev2 @ [q]), True))"
proof -
  have np: "q \<noteq> p" if "sm_sessions sm2 i = Some q" for i q
    using that assms(1,4) by (auto simp: shrunk_def ran_def dest: map_leD)
  have fg: "drop_addr (p_addr (h q)) sm2\<lparr>sm_sessions := (sm_sessions sm2)(i \<mapsto> p)\<rparr> =
      forget h i q sm2\<lparr>sm_sessions := (sm_sessions sm2)(i \<mapsto> p)\<rparr>" for i q
    by (simp add: forget_def drop_addr_def split: option.splits)
  show ?thesis
  proof (cases "sm_sessions sm2 (p_id (h p))")
    case None
    then show ?thesis by (simp add: try_add_capped_def Let_def assms(2,3) place_def)
  next
    case (Some q)
    with np fg show ?thesis by (simp add: try_add_capped_def Let_def assms(2,3) place_def)
  qed
qed
lemma addr_pass_spec:
  assumes "sm_ok h sm" "dom (sm_sessions sm) \<subseteq> set o1" "addr_pass h o1 p sm = (sm1, ev1)"
  shows "shrunk sm sm1 [] ev1" "index_but (addr_key (h p)) h sm1"
    "\<And>i q. sm_sessions sm1 i = Some q \<Longrightarrow> i \<noteq> p_id (h p) \<Longrightarrow> addr_key (h q) \<noteq> addr_key (h p) \<or> addr_key (h p) = None"
proof -
  have ix: "index_but None h sm" and ky: "keyed h sm" using assms(1) by (simp_all add: sm_ok_def index_ok_but)
  show "shrunk sm sm1 [] ev1"
    using assms(3) evict_addr_shrunk [of sm h "p_id (h p)" _ o1 "[]"]
    by (auto simp: addr_pass_def split: option.splits if_splits) (metis fst_conv snd_conv)
  show "index_but (addr_key (h p)) h sm1"
  proof (cases "p_addr (h p)")
    case None
    with assms(3) ix show ?thesis by (auto simp: addr_pass_def index_but_weaken)
  next
    case (Some x)
    show ?thesis
    proof (cases "sm_by_addr sm (addr_string x) = None")
      case True
      with Some assms(3) ix show ?thesis by (auto simp: addr_pass_def index_but_weaken)
    next
      case False
      with Some assms(3) have e: "(sm1, ev1) = evict_addr h (p_id (h p)) (addr_string x) o1 (sm, [])"
        by (simp add: addr_pass_def)
      have b: "sm_by_addr sm1 = sm_by_addr sm" using evict_addr_by_addr [of h _ _ o1 sm "[]"] by (metis e fst_conv)
      have "live h sm1 r \<longleftrightarrow> live h sm r" if "addr_key (h r) \<noteq> Some (addr_string x)" for r
        using that evict_addr_sessions [of h "p_id (h p)" "addr_string x" o1 sm "[]" "p_id (h r)"]
        by (auto simp: live_def e [symmetric] split: option.splits if_splits)
      with ix b Some show ?thesis by (auto simp: index_but_def addr_key_def)
    qed
  qed
  show "addr_key (h q) \<noteq> addr_key (h p) \<or> addr_key (h p) = None"
    if "sm_sessions sm1 i = Some q" "i \<noteq> p_id (h p)" for i q
  proof (cases "p_addr (h p)")
    case None
    then show ?thesis by (simp add: addr_key_def)
  next
    case (Some x)
    show ?thesis
    proof (cases "sm_by_addr sm (addr_string x) = None")
      case True
      with Some assms(3) have "sm1 = sm" by (simp add: addr_pass_def)
      have "sm_by_addr sm (addr_string x) = Some q \<longleftrightarrow> live h sm q \<and> addr_key (h q) = Some (addr_string x)"
        using ix by (simp add: index_but_def)
      with that(1) keyed_live [OF ky, of i q] True Some \<open>sm1 = sm\<close> show ?thesis
        by (simp add: addr_key_def)
    next
      case False
      with Some assms(3) have e: "(sm1, ev1) = evict_addr h (p_id (h p)) (addr_string x) o1 (sm, [])"
        by (simp add: addr_pass_def)
      then show ?thesis
        using that evict_addr_sessions [of h "p_id (h p)" "addr_string x" o1 sm "[]" i] assms(2) Some
        by (auto simp: e [symmetric] addr_key_def split: option.splits if_splits)
    qed
  qed
qed

lemma account_pass_spec:
  assumes "keyed h sm1" "index_but k h sm1" "dom (sm_sessions sm1) \<subseteq> set o2"
    and "account_pass h o2 p (sm1, ev1) = (sm2, ev2)"
  shows "shrunk sm1 sm2 ev1 ev2" "index_but k h sm2"
    "\<And>i q. sm_sessions sm2 i = Some q \<Longrightarrow> i \<noteq> p_id (h p) \<Longrightarrow> p_account (h q) \<noteq> p_account (h p) \<or> p_account (h p) = ''''"
proof -
  show "shrunk sm1 sm2 ev1 ev2"
    using assms(4) evict_account_shrunk [of sm1 h "p_id (h p)" "p_account (h p)" o2 ev1]
    by (auto simp: account_pass_def split: if_splits)
  show "index_but k h sm2"
    using assms(4) evict_account_index [OF assms(1,2), of "p_id (h p)" "p_account (h p)" o2 ev1] assms(2)
    by (auto simp: account_pass_def split: if_splits)
  show "p_account (h q) \<noteq> p_account (h p) \<or> p_account (h p) = ''''"
    if "sm_sessions sm2 i = Some q" "i \<noteq> p_id (h p)" for i q
  proof (cases "p_account (h p) = ''''")
    case False
    then have "sm2 = fst (evict_account h (p_id (h p)) (p_account (h p)) o2 (sm1, ev1))"
      using assms(4) by (simp add: account_pass_def)
    then show ?thesis
      using that evict_account_sessions [of h "p_id (h p)" "p_account (h p)" o2 sm1 ev1 i] assms(3)
      by (auto split: option.splits if_splits)
  qed simp
qed

lemma place_spec:
  assumes "keyed h sm2" "index_but (addr_key (h p)) h sm2" "accounts_ok h sm2" "p \<notin> ran (sm_sessions sm2)"
    and addr: "\<And>i q. sm_sessions sm2 i = Some q \<Longrightarrow> i \<noteq> p_id (h p) \<Longrightarrow> addr_key (h q) \<noteq> addr_key (h p) \<or> addr_key (h p) = None"
    and acct: "\<And>i q. sm_sessions sm2 i = Some q \<Longrightarrow> i \<noteq> p_id (h p) \<Longrightarrow> p_account (h q) \<noteq> p_account (h p) \<or> p_account (h p) = ''''"
    and "insert (p_id (h p)) (dom (sm_sessions sm2)) \<subseteq> set o3"
  shows "sm_ok h (place h o3 p sm2)" "sm_sessions (place h o3 p sm2) = (sm_sessions sm2)(p_id (h p) \<mapsto> p)"
proof -
  define sm3 where "sm3 = (case sm_sessions sm2 (p_id (h p)) of None \<Rightarrow> sm2 | Some q \<Rightarrow> forget h (p_id (h p)) q sm2)"
  have s3: "sm_sessions sm3 = (sm_sessions sm2)(p_id (h p) := None)"
    by (auto simp: sm3_def fun_upd_idem split: option.splits)
  have i3: "index_but (addr_key (h p)) h sm3"
    using assms(2) index_forget [OF assms(1,2)] by (auto simp: sm3_def split: option.splits)
  have pl: "place h o3 p sm2 = update_cache o3 (put_addr (p_addr (h p)) p (sm3\<lparr>sm_sessions := (sm_sessions sm3)(p_id (h p) \<mapsto> p)\<rparr>))"
    by (simp add: place_def Let_def sm3_def)
  show sess: "sm_sessions (place h o3 p sm2) = (sm_sessions sm2)(p_id (h p) \<mapsto> p)"
    by (simp add: pl s3)
  have "index_ok h (place h o3 p sm2)"
    unfolding pl update_cache_inv
  proof (rule index_put [OF i3])
    show "sm_sessions sm3 (p_id (h p)) = None" by (simp add: s3)
    show "\<not> live h sm3 p" by (simp add: live_def s3)
    show "addr_key (h q) \<noteq> addr_key (h p) \<or> addr_key (h p) = None" if "live h sm3 q" for q
      using that addr [of "p_id (h q)" q] by (auto simp: live_def s3 split: if_splits)
  qed
  moreover have "keyed h (place h o3 p sm2)" using assms(1) by (auto simp: keyed_def sess)
  moreover have "accounts_ok h (place h o3 p sm2)"
    using assms(3) acct by (auto simp: accounts_ok_def sess split: if_splits)
  moreover have "cache_ok (place h o3 p sm2)"
    unfolding pl using assms(7) by (intro update_cache_ok) (auto simp: s3)
  ultimately show "sm_ok h (place h o3 p sm2)" by (simp add: sm_ok_def)
qed

section \<open>Properties\<close>

text \<open>C17: Admission keeps the session index exact and the server full at most. From a consistent
  manager at or below the cap, TryAddCapped with a fresh session leaves it consistent (ids,
  addresses, accounts and the cached list agree, no two live sessions share an address or an
  account) and at or below the cap, for every order the maps are visited in; the evicted
  list is exactly the sessions that are no longer live, and a refusal changes nothing.\<close>

theorem admission_consistent:
  assumes "sm_ok h sm" and "p \<notin> ran (sm_sessions sm)"
    and "dom (sm_sessions sm) \<subseteq> set o1" "dom (sm_sessions sm) \<subseteq> set o2"
    and "insert (p_id (h p)) (dom (sm_sessions sm)) \<subseteq> set o3"
    and "0 < maxn \<longrightarrow> int (sess_count sm) \<le> maxn"
    and "try_add_capped h o1 o2 o3 (Some p) maxn sm = (sm', ev, added)"
  shows "sm_ok h sm' \<and> (0 < maxn \<longrightarrow> int (sess_count sm') \<le> maxn) \<and>
    (added \<longrightarrow> sm_sessions sm' (p_id (h p)) = Some p) \<and> (\<not> added \<longrightarrow> sm' = sm \<and> ev = []) \<and>
    set ev = ran (sm_sessions sm) - ran (sm_sessions sm')"
proof -
  obtain sm1 ev1 where a1: "addr_pass h o1 p sm = (sm1, ev1)" by fastforce
  obtain sm2 ev2 where a2: "account_pass h o2 p (sm1, ev1) = (sm2, ev2)" by fastforce
  note p1 = addr_pass_spec [OF assms(1,3) a1]
  have k: "keyed h sm" "accounts_ok h sm" using assms(1) by (simp_all add: sm_ok_def)
  then have k1: "keyed h sm1" "accounts_ok h sm1" using keyed_shrunk accounts_shrunk p1(1) by blast+
  have "dom (sm_sessions sm1) \<subseteq> set o2"
    using p1(1) assms(4) map_le_implies_dom_le by (fastforce simp: shrunk_def)
  note p2 = account_pass_spec [OF k1(1) p1(2) this a2]
  have sh: "shrunk sm sm2 [] ev2" using shrunk_trans p1(1) p2(1) by blast
  then have le: "sm_sessions sm2 \<subseteq>\<^sub>m sm_sessions sm" and dom: "dom (sm_sessions sm2) \<subseteq> dom (sm_sessions sm)"
    using map_le_implies_dom_le [of "sm_sessions sm2" "sm_sessions sm"] by (simp_all add: shrunk_def)
  have k2: "keyed h sm2" "accounts_ok h sm2" using keyed_shrunk accounts_shrunk sh k by blast+
  have le1: "sm_sessions sm2 \<subseteq>\<^sub>m sm_sessions sm1" using p2(1) by (simp add: shrunk_def)
  have addr: "addr_key (h q) \<noteq> addr_key (h p) \<or> addr_key (h p) = None"
    if "sm_sessions sm2 i = Some q" "i \<noteq> p_id (h p)" for i q
    using p1(3) [OF map_leD [OF le1 that(1)] that(2)] .
  have fresh: "p \<notin> ran (sm_sessions sm2)" using assms(2) le by (auto simp: ran_def dest: map_leD)
  have o3: "insert (p_id (h p)) (dom (sm_sessions sm2)) \<subseteq> set o3" using assms(5) dom by auto
  note pl = place_spec [OF k2(1) p2(2) k2(2) fresh addr p2(3) o3]
  have fin: "finite (dom (sm_sessions sm))" using k by (simp add: keyed_def)
  have ev2: "set ev2 = {q. \<exists>i. sm_sessions sm i = Some q \<and> sm_sessions sm2 i = None}"
    using sh by (auto simp: shrunk_def)
  have inj: "i = j" if "sm_sessions sm i = Some q" "sm_sessions sm j = Some q" for i j q
    using that k(1) by (auto simp: keyed_def)
  note eq = try_add_capped_eq [OF assms(2) a1 a2 sh, of o3 maxn, unfolded assms(7)]
  show ?thesis
  proof (cases "0 < maxn \<and> maxn \<le> int (sess_count sm2) \<and> sm_sessions sm2 (p_id (h p)) = None")
    case True
    with assms(6) have "card (dom (sm_sessions sm)) \<le> card (dom (sm_sessions sm2))"
      by (simp add: sess_count_def)
    with card_seteq [OF fin dom] have "sm2 = sm \<and> ev2 = []" using sh by (simp add: shrunk_def)
    with True eq assms(1,6) show ?thesis by simp
  next
    case False
    then have r: "sm' = place h o3 p sm2" "added"
        "ev = (case sm_sessions sm2 (p_id (h p)) of None \<Rightarrow> ev2 | Some q \<Rightarrow> ev2 @ [q])"
      using eq unfolding if_not_P [OF False] prod.inject by simp_all
    have "set ev = ran (sm_sessions sm) - ran (sm_sessions sm')"
    proof (intro equalityI subsetI)
      fix q assume "q \<in> set ev"
      then obtain i where i: "sm_sessions sm i = Some q" "sm_sessions sm2 i = None \<or> i = p_id (h p)"
        using ev2 le by (auto simp: r(3) split: option.splits dest: map_leD)
      have "q \<notin> ran (sm_sessions sm')"
      proof
        assume "q \<in> ran (sm_sessions sm')"
        then obtain j where j: "((sm_sessions sm2)(p_id (h p) \<mapsto> p)) j = Some q" by (auto simp: r(1) pl(2) ran_def)
        have "q \<noteq> p" using i(1) assms(2) by (auto simp: ran_def)
        with j have "sm_sessions sm2 j = Some q" "j \<noteq> p_id (h p)" by (simp_all split: if_splits)
        with inj [OF i(1) map_leD [OF le]] i(2) show False by auto
      qed
      with i show "q \<in> ran (sm_sessions sm) - ran (sm_sessions sm')" by (auto simp: ran_def)
    next
      fix q assume "q \<in> ran (sm_sessions sm) - ran (sm_sessions sm')"
      then obtain i where i: "sm_sessions sm i = Some q" "sm_sessions sm' i \<noteq> Some q" by (auto simp: ran_def)
      then have "sm_sessions sm2 i = None \<or> (i = p_id (h p) \<and> sm_sessions sm2 i = Some q)"
        using map_leD [OF le, of i] by (cases "sm_sessions sm2 i") (auto simp: r(1) pl(2) split: if_splits)
      with i(1) ev2 show "q \<in> set ev" by (auto simp: r(3) split: option.splits)
    qed
    moreover have "int (sess_count sm') \<le> maxn" if "0 < maxn"
    proof -
      have c: "card (dom (sm_sessions sm2)) \<le> card (dom (sm_sessions sm))" using card_mono [OF fin dom] .
      have "finite (dom (sm_sessions sm2))" using fin dom finite_subset by blast
      then show ?thesis using False that c assms(6)
        by (auto simp: sess_count_def r(1) pl(2) card_insert_if split: if_splits)
    qed
    ultimately show ?thesis using r(1,2) pl by simp
  qed
qed

definition demo_session :: "u32 \<Rightarrow> string \<Rightarrow> int \<Rightarrow> player_session" where
  "demo_session i acc prt = \<lparr>p_id = i, p_account = acc, p_name = ''Stalker'', p_addr = Some \<lparr>ip = [10, 0, 0, 1], port = prt, zone = ''''\<rparr>,
     p_level = ''l01_escape'', p_pos = (Fin 0, Fin 0, Fin 0), p_rot = (Fin 0, Fin 0), p_vel = (Fin 0, Fin 0, Fin 0),
     p_health = Fin 100, p_anim_flags = 0, p_gvid = 0, p_visual = zero_section, p_has_visual = False, p_in_safe_zone = False,
     p_safe_zone_id = '''', p_last_seen = 0, p_last_sequence = 0, p_last_ai_sent = 0, p_token = 0, p_dirty = False,
     p_last_checkpoint = 0, p_in_combat_until = 0, p_chat_times = [], p_pending_create = False, p_faction = ''stalker'',
     p_enter_level = '''', p_enter_rev = 0, p_visual_rev = 0, p_inv_synced_level = ''''\<rparr>"

definition demo_heap :: heap where
  "demo_heap q = (if q = 0 then demo_session 1 ''u1'' 4000 else demo_session 2 ''u1'' 5000)"

lemma demo_heap_fields:
  "p_id (demo_heap q) = (if q = 0 then 1 else 2)" "p_account (demo_heap q) = ''u1''"
  "p_addr (demo_heap q) = Some \<lparr>ip = [10, 0, 0, 1], port = (if q = 0 then 4000 else 5000), zone = ''''\<rparr>"
  by (simp_all add: demo_heap_def demo_session_def)

theorem admission_consistent_witness:
  "\<exists>sm ev. try_add_capped demo_heap [1] [1] [1, 2] (Some 1) 1
     (add_session demo_heap [1] 0 new_session_manager) = (sm, ev, True) \<and> sm_ok demo_heap sm \<and> sess_count sm \<le> 1"
proof -
  let ?sm = "add_session demo_heap [1] 0 new_session_manager"
  let ?a = "addr_string \<lparr>ip = [10, 0, 0, 1], port = 4000, zone = ''''\<rparr>"
  have s: "sm_sessions ?sm = [1 \<mapsto> 0]" and b: "sm_by_addr ?sm = [?a \<mapsto> 0]" and c: "sm_cached ?sm = [0]"
    by (simp_all add: add_session_def new_session_manager_def demo_heap_fields update_cache_def put_addr_def)
  have "index_ok demo_heap ?sm"
    unfolding index_ok_def s b by (simp add: demo_heap_fields addr_key_def)
  moreover have "keyed demo_heap ?sm" "accounts_ok demo_heap ?sm" "cache_ok ?sm"
    unfolding keyed_def accounts_ok_def cache_ok_def s c by (simp_all add: demo_heap_fields)
  ultimately have ok: "sm_ok demo_heap ?sm" by (simp add: sm_ok_def)
  obtain sm ev added where e: "try_add_capped demo_heap [1] [1] [1, 2] (Some 1) 1 ?sm = (sm, ev, added)"
    by (metis prod.exhaust)
  have r: "sm_ok demo_heap sm \<and> (added \<longrightarrow> sm_sessions sm 2 = Some 1) \<and> (\<not> added \<longrightarrow> sm = ?sm \<and> ev = []) \<and>
      set ev = {0} - ran (sm_sessions sm)" "sess_count sm \<le> 1"
    using admission_consistent [OF ok _ _ _ _ _ e] by (auto simp: s sess_count_def demo_heap_fields)
  obtain sm1 ev1 where a: "addr_pass demo_heap [1] 1 ?sm = (sm1, ev1)" by fastforce
  have "shrunk ?sm sm1 [] ev1" by (rule addr_pass_spec(1) [OF ok _ a]) (simp add: s)
  then have "sm_sessions sm1 \<subseteq>\<^sub>m sm_sessions ?sm" by (simp add: shrunk_def)
  from map_leD [OF this] have dm: "i = 1" if "sm_sessions sm1 i = Some q" for i q
    using that unfolding s by (metis fun_upd_apply option.distinct(1))
  obtain sm2 ev2 where ac: "account_pass demo_heap [1] 1 (sm1, ev1) = (sm2, ev2)" by fastforce
  have "sm_sessions sm2 = Map.empty"
  proof
    fix i show "sm_sessions sm2 i = None"
    using evict_account_sessions [of demo_heap 2 "''u1''" "[1]" sm1 ev1 i] ac dm [of i]
    by (cases "sm_sessions sm1 i") (auto simp: account_pass_def demo_heap_fields)
  qed
  then have "sess_count sm2 = 0" by (simp add: sess_count_def)
  moreover have "shrunk sm1 sm2 ev1 ev2"
    using evict_account_shrunk [of sm1 demo_heap 2 "''u1''" "[1]" ev1] ac
    by (simp add: account_pass_def demo_heap_fields)
  from shrunk_trans [OF \<open>shrunk ?sm sm1 [] ev1\<close> this] have "shrunk ?sm sm2 [] ev2" .
  ultimately have z: "sess_count sm2 = 0" "shrunk ?sm sm2 [] ev2" by simp_all
  have "1 \<notin> ran (sm_sessions ?sm)" unfolding s by simp
  note eq = try_add_capped_eq [OF this a ac z(2), of "[1, 2]" 1]
  have "\<not> (0 < (1 :: int) \<and> 1 \<le> int (sess_count sm2) \<and> sm_sessions sm2 (p_id (demo_heap 1)) = None)"
    by (simp add: z(1))
  from eq [unfolded if_not_P [OF this] e prod.inject] have added: "added" by simp
  show ?thesis
    by (intro exI [of _ sm] exI [of _ ev]) (simp only: e added r simp_thms)
qed
section \<open>Unique names\<close>

text \<open>What the suffix loop relies on: lower-casing works rune by rune and leaves a suffix of ASCII
  characters that are not capital letters as it is.\<close>

definition keeps_suffix :: "(string \<Rightarrow> string) \<Rightarrow> bool" where
  "keeps_suffix lower \<longleftrightarrow> (\<forall>x d. (\<forall>c\<in>set d. of_char c < (128::nat) \<and> \<not> (65 \<le> (of_char c :: nat) \<and> (of_char c :: nat) \<le> 90)) \<longrightarrow>
     lower (x @ d) = lower x @ d)"

lemma name_loop_None: "name_loop lower taken base n fuel = None \<Longrightarrow> k < fuel \<Longrightarrow> lower (name_candidate base (n + k)) \<in> set taken"
proof (induction fuel arbitrary: n k)
  case (Suc fuel)
  then have a: "lower (name_candidate base n) \<in> set taken" "name_loop lower taken base (Suc n) fuel = None"
    by (auto split: if_splits)
  show ?case
  proof (cases k)
    case 0
    with a show ?thesis by simp
  next
    case (Suc j)
    with Suc.prems Suc.IH [OF a(2), of j] show ?thesis by simp
  qed
qed simp

lemma name_loop_Some: "name_loop lower taken base n fuel = Some nm \<Longrightarrow>
    lower nm \<notin> set taken \<and> (\<exists>k<fuel. nm = name_candidate base (n + k))"
proof (induction fuel arbitrary: n)
  case (Suc fuel)
  show ?case
  proof (cases "lower (name_candidate base n) \<notin> set taken")
    case True
    with Suc.prems show ?thesis by (auto intro: exI [of _ 0])
  next
    case False
    with Suc.prems Suc.IH [of "Suc n"] obtain k where "k < fuel" "nm = name_candidate base (Suc n + k)" "lower nm \<notin> set taken"
      by auto
    then show ?thesis by (auto intro!: exI [of _ "Suc k"])
  qed
qed simp

lemma tilde_not_digit: "CHR ''~'' \<notin> set (itoa (int n))"
proof
  assume "CHR ''~'' \<in> set (itoa (int n))"
  from itoa_nat_chars [OF _ this] show False by simp
qed

lemma lower_candidate:
  assumes "keeps_suffix lower"
  shows "\<exists>x. lower (name_candidate base n) = x @ CHR ''~'' # itoa (int n)"
proof -
  let ?d = "CHR ''~'' # itoa (int n)"
  have "of_char c < (128::nat) \<and> \<not> (65 \<le> (of_char c :: nat) \<and> (of_char c :: nat) \<le> 90)" if "c \<in> set ?d" for c
    using that itoa_nat_chars [of "int n" c] by auto
  then show ?thesis using assms by (auto simp: keeps_suffix_def name_candidate_def Let_def)
qed

lemma tilde_split:
  assumes "x @ CHR ''~'' # s = y @ CHR ''~'' # t" "CHR ''~'' \<notin> set s" "CHR ''~'' \<notin> set t"
  shows "s = t"
proof -
  have tw: "takeWhile (\<lambda>c. c \<noteq> CHR ''~'') (rev (x @ CHR ''~'' # s)) = rev s" if "CHR ''~'' \<notin> set s" for x s
  proof -
    have "takeWhile (\<lambda>c. c \<noteq> CHR ''~'') (rev s @ CHR ''~'' # rev x) = rev s"
      using that by (subst takeWhile_append2) auto
    then show ?thesis by simp
  qed
  from tw [OF assms(2), of x] tw [OF assms(3), of y] assms(1) have "rev s = rev t" by (simp del: rev_append)
  then show ?thesis by simp
qed

lemma name_loop_total:
  assumes "keeps_suffix lower" "length taken < fuel"
  shows "\<exists>nm. name_loop lower taken base n fuel = Some nm"
proof (rule ccontr)
  assume "\<not> ?thesis"
  then have none: "name_loop lower taken base n fuel = None" by simp
  let ?f = "\<lambda>k. lower (name_candidate base (n + k))"
  have "inj_on ?f {..<fuel}"
  proof (rule inj_onI)
    fix i j assume "?f i = ?f j"
    with lower_candidate [OF assms(1), of base "n + i"] lower_candidate [OF assms(1), of base "n + j"]
    have "itoa (int (n + i)) = itoa (int (n + j))" using tilde_split tilde_not_digit by metis
    then have "int (n + i) = int (n + j)" by (intro itoa_nat_inj) simp_all
    then show "i = j" by simp
  qed
  moreover have "?f ` {..<fuel} \<subseteq> set taken" using name_loop_None [OF none] by auto
  ultimately have "card {..<fuel} \<le> card (set taken)" by (intro card_inj_on_le) auto
  with card_length [of taken] assms(2) show False by simp
qed

lemma length_nat_digits: "n < 10 ^ k \<Longrightarrow> 1 \<le> k \<Longrightarrow> length (nat_digits n) \<le> k"
proof (induction n arbitrary: k rule: nat_digits.induct)
  case (1 n)
  show ?case
  proof (cases "n < 10")
    case True
    with "1.prems" show ?thesis by (subst nat_digits.simps) simp
  next
    case False
    then have "k \<noteq> 1" using "1.prems" by auto
    then obtain j where j: "k = Suc j" "1 \<le> j" using "1.prems"(2) by (cases k) auto
    have "n div 10 < 10 ^ j" using "1.prems"(1) j by (simp add: div_less_iff_less_mult mult.commute)
    from "1.IH" [OF False this j(2)] False show ?thesis by (subst nat_digits.simps) (simp add: j)
  qed
qed

lemma candidate_length:
  assumes "n < 10 ^ 30"
  shows "length (name_candidate base n) \<le> 31"
proof -
  have "length (itoa (int n)) \<le> 30" using length_nat_digits [OF assms] by (simp add: itoa_def)
  then have "length (truncate_utf8 base (31 - int (length (CHR ''~'' # itoa (int n))))) + length (CHR ''~'' # itoa (int n)) \<le> 31"
    using truncate_utf8_length [of "31 - int (length (CHR ''~'' # itoa (int n)))" base] by simp
  then show ?thesis by (simp add: name_candidate_def Let_def)
qed

text \<open>C38: The suffix loop ends and gives a unique name. With one candidate more than there are other
  sessions the loop has found a free one; the session's new name differs, case-insensitively,
  from the name of every other live session, fits the 31 bytes of the wire field when the old
  one did, and nothing else in any session changed.\<close>

theorem unique_name_terminates:
  assumes "keeps_suffix lower" and "dom (sm_sessions sm) \<subseteq> set order"
    and "length order < fuel" "fuel < 10 ^ 29" "length (p_name (h p)) \<le> 31"
  shows "\<exists>nm. ensure_unique_name lower order fuel (Some p) sm h = Some (h(p := (h p)\<lparr>p_name := nm\<rparr>)) \<and>
    length nm \<le> 31 \<and> (\<forall>i q. sm_sessions sm i = Some q \<longrightarrow> q \<noteq> p \<longrightarrow> lower (p_name (h q)) \<noteq> lower nm)"
proof -
  let ?taken = "taken_names lower h order p sm" and ?base = "if p_name (h p) = '''' then ''Stalker'' else p_name (h p)"
  have len: "length ?taken < fuel"
    using length_filter_le [of "\<lambda>i. sm_sessions sm i \<noteq> None \<and> sm_sessions sm i \<noteq> Some p" order] assms(3)
    by (simp add: taken_names_def del: length_filter_le)
  obtain nm where nm: "unique_name lower ?taken (p_name (h p)) fuel = Some nm"
    using name_loop_total [OF assms(1) len, of ?base 2]
    by (cases "lower ?base \<notin> set ?taken") (auto simp: unique_name_def Let_def simp del: if_image_distrib)
  have cand: "\<exists>k<fuel. x = name_candidate b (2 + k)" "lower x \<notin> set ?taken"
    if "name_loop lower ?taken b 2 fuel = Some x" for b x
    using name_loop_Some [OF that] by auto
  have free: "lower nm \<notin> set ?taken"
    using nm cand(2) by (auto simp: unique_name_def Let_def split: if_splits)
  have "length (name_candidate b (2 + k)) \<le> 31" if "k < fuel" for b k
    using that assms(4) by (intro candidate_length) simp
  then have "length nm \<le> 31"
    using nm cand(1) assms(5) by (auto simp: unique_name_def Let_def split: if_splits)
  moreover have "lower (p_name (h q)) \<in> set ?taken" if "sm_sessions sm i = Some q" "q \<noteq> p" for i q
    using that assms(2) by (force simp: taken_names_def)
  ultimately show ?thesis using nm free by (auto simp: ensure_unique_name_def) metis
qed

lemma keeps_suffix_ascii: "keeps_suffix (map lower_char)"
  by (auto simp: keeps_suffix_def lower_char_def Let_def intro!: map_idI)

theorem unique_name_terminates_witness:
  "\<exists>nm. ensure_unique_name (map lower_char) [1, 2] 3 (Some 1)
     \<lparr>sm_sessions = [1 \<mapsto> 0, 2 \<mapsto> 1], sm_by_addr = Map.empty, sm_cached = []\<rparr> demo_heap =
       Some (demo_heap(1 := (demo_heap 1)\<lparr>p_name := nm\<rparr>)) \<and> map lower_char nm \<noteq> ''stalker''"
proof -
  let ?sm = "\<lparr>sm_sessions = [1 \<mapsto> 0, 2 \<mapsto> 1], sm_by_addr = Map.empty, sm_cached = []\<rparr>"
  have n: "p_name (demo_heap q) = ''Stalker''" for q by (simp add: demo_heap_def demo_session_def)
  have "\<exists>nm. ensure_unique_name (map lower_char) [1, 2] 3 (Some 1) ?sm demo_heap =
      Some (demo_heap(1 := (demo_heap 1)\<lparr>p_name := nm\<rparr>)) \<and> length nm \<le> 31 \<and>
      (\<forall>i q. sm_sessions ?sm i = Some q \<longrightarrow> q \<noteq> 1 \<longrightarrow> map lower_char (p_name (demo_heap q)) \<noteq> map lower_char nm)"
    by (rule unique_name_terminates [OF keeps_suffix_ascii]) (simp_all add: n)
  then obtain nm where nm: "ensure_unique_name (map lower_char) [1, 2] 3 (Some 1) ?sm demo_heap =
      Some (demo_heap(1 := (demo_heap 1)\<lparr>p_name := nm\<rparr>))"
    "\<forall>i q. sm_sessions ?sm i = Some q \<longrightarrow> q \<noteq> 1 \<longrightarrow> map lower_char (p_name (demo_heap q)) \<noteq> map lower_char nm" by blast
  have "map lower_char (p_name (demo_heap 0)) \<noteq> map lower_char nm"
    by (rule nm(2) [rule_format, of 1]) simp_all
  moreover have "map lower_char (p_name (demo_heap 0)) = ''stalker''"
    unfolding n by code_simp
  ultimately show ?thesis using nm(1) by (intro exI [of _ nm]) simp
qed

definition chat_span :: duration where
  "chat_span = 5 * second"

interpretation chat: rolling_window allow_chat p_chat_times 5 chat_span
  by unfold_locales (auto simp: allow_chat_def chat_span_def Let_def)

fun chat_allowed :: "gotime list \<Rightarrow> player_session \<Rightarrow> gotime list" where
  "chat_allowed [] s = []"
| "chat_allowed (n # ns) s = (if fst (allow_chat n s) then [n] else []) @ chat_allowed ns (snd (allow_chat n s))"

text \<open>No five-second interval lets more than five chat messages of a session through, whenever
  they come.\<close>

theorem chat_rate_bounded:
  assumes "sorted ns" and "p_chat_times s = []"
  shows "length (filter (\<lambda>t. T - 5 * second < t \<and> t \<le> T) (chat_allowed ns s)) \<le> 5"
proof -
  have eq: "chat_allowed ns s = chat.admitted ns s" for s by (induction ns arbitrary: s) auto
  have "int (chat.in_window T (p_chat_times s @ chat.admitted ns s)) \<le> 5"
    using assms by (intro chat.window_bound) (simp_all add: chat.in_window_def)
  then show ?thesis by (simp only: eq assms(2) chat.in_window_def append_Nil) (simp add: chat_span_def)
qed

theorem chat_rate_bounded_witness:
  "length (filter (\<lambda>t. 6 - 5 * second < t \<and> t \<le> 6) (chat_allowed [0, 1, 2, 3, 4, 5, 6] (demo_session 1 ''u1'' 4000))) \<le> 5"
  by (rule chat_rate_bounded) (simp_all add: demo_session_def)


end
