(* ===== verification/PlayerGroups.thy ===== *)
theory PlayerGroups
  imports Sessions
begin

text \<open>
  Player groups: the \<open>GroupManager\<close> of internal/game/groups.go. Groups, the membership index and
  the pending invitations are three maps under one mutex; each operation is one step. The
  invariant ties the index to the rosters, and holds in every state reachable by the
  operations while fewer than \<open>2^32\<close> groups have been created (the id counter is a
  \<open>uint32\<close>).
\<close>

record group =
  g_id :: u32
  g_leader :: u32
  g_members :: "u32 list"

record group_invite =
  gi_inviter :: u32
  gi_target :: u32
  gi_target_name :: string
  gi_expires :: gotime

record group_manager =
  gm_groups :: "u32 \<Rightarrow> group option"
  gm_membership :: "u32 \<Rightarrow> u32 option"
  gm_invites :: "u32 \<Rightarrow> group_invite option"
  gm_next_id :: u32
  gm_max_members :: int
  gm_invite_ttl :: duration

datatype group_err = ErrGroupFull | ErrGroupNoInvite | ErrGroupAlreadyIn | ErrGroupSelfInvite | ErrGroupInvitePending

definition new_group_manager :: "int \<Rightarrow> duration \<Rightarrow> group_manager" where
  "new_group_manager max_members ttl =
     (let m = (if max_members \<le> 0 then 4 else max_members);
          m' = (if 8 < m then 8 else m)
      in \<lparr>gm_groups = Map.empty, gm_membership = Map.empty, gm_invites = Map.empty, gm_next_id = 0,
          gm_max_members = m', gm_invite_ttl = (if ttl \<le> 0 then 60 * second else ttl)\<rparr>)"

section \<open>Operations\<close>

definition invite :: "gotime \<Rightarrow> player_session option \<Rightarrow> player_session option \<Rightarrow> group_manager
    \<Rightarrow> group_err option \<times> group_manager" where
  "invite now inviter target gm = (case (inviter, target) of
     (Some i, Some t) \<Rightarrow>
       if p_id i = 0 \<or> p_id t = 0 \<or> p_id i = p_id t then (Some ErrGroupSelfInvite, gm)
       else if (case gm_invites gm (p_id t) of None \<Rightarrow> False | Some e \<Rightarrow> now < gi_expires e)
         then (Some ErrGroupInvitePending, gm)
       else (None, gm\<lparr>gm_invites := (gm_invites gm)(p_id t \<mapsto>
               \<lparr>gi_inviter = p_id i, gi_target = p_id t, gi_target_name = p_name t,
                gi_expires = now + gm_invite_ttl gm\<rparr>)\<rparr>)
   | _ \<Rightarrow> (Some ErrGroupNoInvite, gm))"

definition invite_for :: "u32 \<Rightarrow> group_manager \<Rightarrow> group_invite option" where
  "invite_for sid gm = gm_invites gm sid"

definition decline :: "player_session option \<Rightarrow> group_manager \<Rightarrow> group_invite option \<times> group_manager" where
  "decline target gm = (case target of
     None \<Rightarrow> (None, gm)
   | Some t \<Rightarrow> (case gm_invites gm (p_id t) of
       None \<Rightarrow> (None, gm)
     | Some ginv \<Rightarrow> (Some ginv, gm\<lparr>gm_invites := (gm_invites gm)(p_id t := None)\<rparr>)))"

definition ensure_group :: "u32 \<Rightarrow> group_manager \<Rightarrow> u32 \<times> group_manager" where
  "ensure_group inviter gm = (case gm_membership gm inviter of
     Some gid \<Rightarrow> (gid, gm)
   | None \<Rightarrow> (let gid = gm_next_id gm + 1 in
       (gid, gm\<lparr>gm_next_id := gid,
                gm_groups := (gm_groups gm)(gid \<mapsto> \<lparr>g_id = gid, g_leader = inviter, g_members = [inviter]\<rparr>),
                gm_membership := (gm_membership gm)(inviter \<mapsto> gid)\<rparr>)))"

definition accept :: "gotime \<Rightarrow> player_session option \<Rightarrow> group_manager \<Rightarrow> (group_err + u32) \<times> group_manager" where
  "accept now target gm = (case target of
     None \<Rightarrow> (Inl ErrGroupNoInvite, gm)
   | Some t \<Rightarrow> (let tid = p_id t in case gm_invites gm tid of
       None \<Rightarrow> (Inl ErrGroupNoInvite, gm)
     | Some ginv \<Rightarrow>
         let gm1 = gm\<lparr>gm_invites := (gm_invites gm)(tid := None)\<rparr> in
         if gi_expires ginv < now then (Inl ErrGroupNoInvite, gm1)
         else if gm_membership gm1 tid \<noteq> None then (Inl ErrGroupAlreadyIn, gm1)
         else let (gid, gm2) = ensure_group (gi_inviter ginv) gm1 in
           (case gm_groups gm2 gid of
              None \<Rightarrow> (Inl ErrGroupNoInvite, gm2)
            | Some g \<Rightarrow>
                if gm_max_members gm2 \<le> int (length (g_members g)) then (Inl ErrGroupFull, gm2)
                else (Inr gid, gm2\<lparr>gm_groups := (gm_groups gm2)(gid \<mapsto> g\<lparr>g_members := g_members g @ [tid]\<rparr>),
                                   gm_membership := (gm_membership gm2)(tid \<mapsto> gid)\<rparr>))))"

definition leave :: "player_session option \<Rightarrow> group_manager \<Rightarrow> (u32 \<times> u32 list \<times> bool) \<times> group_manager" where
  "leave s gm = (case s of
     None \<Rightarrow> ((0, [], False), gm)
   | Some p \<Rightarrow> (let sid = p_id p in case gm_membership gm sid of
       None \<Rightarrow> ((0, [], False), gm)
     | Some gid \<Rightarrow>
         let gm1 = gm\<lparr>gm_membership := (gm_membership gm)(sid := None)\<rparr> in
         (case gm_groups gm gid of
            None \<Rightarrow> ((gid, [sid], True), gm1)
          | Some g \<Rightarrow>
              let remaining = filter (\<lambda>m. m \<noteq> sid) (g_members g) in
              ((gid, g_members g, True),
               if g_leader g = sid \<or> length remaining \<le> 1
               then gm1\<lparr>gm_membership := map_drop (gm_membership gm1) (\<lambda>m. m \<in> set remaining),
                        gm_groups := (gm_groups gm1)(gid := None)\<rparr>
               else gm1\<lparr>gm_groups := (gm_groups gm1)(gid \<mapsto> g\<lparr>g_members := remaining\<rparr>)\<rparr>))))"

definition group_id_of :: "u32 \<Rightarrow> group_manager \<Rightarrow> u32 option" where
  "group_id_of sid gm = gm_membership gm sid"

definition members :: "u32 \<Rightarrow> group_manager \<Rightarrow> u32 list" where
  "members gid gm = (case gm_groups gm gid of None \<Rightarrow> [] | Some g \<Rightarrow> g_members g)"

definition member_sessions :: "u32 \<Rightarrow> session_manager \<Rightarrow> group_manager \<Rightarrow> ptr list" where
  "member_sessions gid sm gm = List.map_filter (\<lambda>i. get_by_id i sm) (members gid gm)"

definition is_same_group :: "u32 \<Rightarrow> u32 \<Rightarrow> group_manager option \<Rightarrow> bool" where
  "is_same_group a b gmo = (case gmo of None \<Rightarrow> False
     | Some gm \<Rightarrow> a \<noteq> 0 \<and> b \<noteq> 0 \<and> (case (gm_membership gm a, gm_membership gm b) of
         (Some ga, Some gb) \<Rightarrow> ga = gb | _ \<Rightarrow> False))"

text \<open>\<open>copyNulTerm\<close> into a fixed array of \<open>n\<close> zero bytes: truncated at a rune boundary so that a
  NUL remains.\<close>

definition copy_nul_term :: "nat \<Rightarrow> string \<Rightarrow> string" where
  "copy_nul_term n src = (if n = 0 then [] else
     let s = (if n - 1 < length src then truncate_utf8 src (int n - 1) else src)
     in s @ replicate (n - length s) (CHR 0x00))"

definition zero_member :: group_member where
  "zero_member = \<lparr>gm_session_id = 0, gm_name = replicate 32 (CHR 0x00), gm_faction = replicate 16 (CHR 0x00), gm_is_leader = 0\<rparr>"

definition member_entry :: "heap \<Rightarrow> u32 \<Rightarrow> ptr \<Rightarrow> group_member" where
  "member_entry h leader p = \<lparr>gm_session_id = p_id (h p), gm_name = copy_nul_term 32 (p_name (h p)),
     gm_faction = copy_nul_term 16 (p_faction (h p)), gm_is_leader = (if p_id (h p) = leader then 1 else 0)\<rparr>"

definition empty_group_state :: group_state where
  "empty_group_state = \<lparr>gs_count = 0, gs_members = replicate 8 zero_member\<rparr>"

definition state_payload :: "heap \<Rightarrow> session_manager \<Rightarrow> u32 \<Rightarrow> group_manager \<Rightarrow> group_state" where
  "state_payload h sm gid gm = (if gid = 0 then empty_group_state else case gm_groups gm gid of
     None \<Rightarrow> empty_group_state
   | Some g \<Rightarrow>
       let es = take 8 (List.map_filter (\<lambda>i. map_option (member_entry h (g_leader g)) (get_by_id i sm)) (g_members g))
       in \<lparr>gs_count = word_of_nat (length es), gs_members = es @ replicate (8 - length es) zero_member\<rparr>)"

definition group_tick :: "gotime \<Rightarrow> u32 list \<Rightarrow> group_manager \<Rightarrow> group_manager" where
  "group_tick now order gm = gm\<lparr>gm_invites := delete_where (\<lambda>_ ginv. gi_expires ginv < now) order (gm_invites gm)\<rparr>"

definition forget_session :: "u32 \<Rightarrow> u32 list \<Rightarrow> group_manager \<Rightarrow> group_manager" where
  "forget_session sid order gm = (if sid = 0 then gm else
     gm\<lparr>gm_invites := delete_where (\<lambda>i ginv. i = sid \<or> gi_inviter ginv = sid) order (gm_invites gm)\<rparr>)"

section \<open>Steps and the invariant\<close>

inductive group_step :: "group_manager \<Rightarrow> group_manager \<Rightarrow> bool" where
  step_invite: "group_step gm (snd (invite now i t gm))"
| step_decline: "group_step gm (snd (decline t gm))"
| step_accept: "group_step gm (snd (accept now t gm))"
| step_leave: "group_step gm (snd (leave s gm))"
| step_tick: "is_order (gm_invites gm) order \<Longrightarrow> group_step gm (group_tick now order gm)"
| step_forget: "is_order (gm_invites gm) order \<Longrightarrow> group_step gm (forget_session sid order gm)"

inductive group_reach :: "int \<Rightarrow> duration \<Rightarrow> nat \<Rightarrow> group_manager \<Rightarrow> bool" for m ttl where
  reach_new: "group_reach m ttl 0 (new_group_manager m ttl)"
| reach_step: "group_reach m ttl n gm \<Longrightarrow> group_step gm gm' \<Longrightarrow> group_reach m ttl (Suc n) gm'"

inductive_cases group_stepE: "group_step gm gm'"

text \<open>
  A roster lists distinct sessions, its leader among them, within the cap; the index maps a
  session to a group exactly when the group's roster lists it.
\<close>

definition roster_ok :: "group_manager \<Rightarrow> u32 \<Rightarrow> group \<Rightarrow> bool" where
  "roster_ok gm gid g \<longleftrightarrow> g_id g = gid \<and> g_leader g \<in> set (g_members g) \<and> distinct (g_members g) \<and>
     int (length (g_members g)) \<le> gm_max_members gm \<and> (2 \<le> gm_max_members gm \<longrightarrow> 2 \<le> length (g_members g))"

definition index_exact :: "group_manager \<Rightarrow> bool" where
  "index_exact gm \<longleftrightarrow> (\<forall>sid gid. gm_membership gm sid = Some gid \<longleftrightarrow>
     (\<exists>g. gm_groups gm gid = Some g \<and> sid \<in> set (g_members g)))"

definition invites_ok :: "group_manager \<Rightarrow> bool" where
  "invites_ok gm \<longleftrightarrow> (\<forall>t ginv. gm_invites gm t = Some ginv \<longrightarrow>
     gi_target ginv = t \<and> gi_inviter ginv \<noteq> t \<and> gi_inviter ginv \<noteq> 0 \<and> t \<noteq> 0)"

definition groups_ok :: "nat \<Rightarrow> group_manager \<Rightarrow> bool" where
  "groups_ok n gm \<longleftrightarrow> index_exact gm \<and> invites_ok gm \<and> 1 \<le> gm_max_members gm \<and> gm_max_members gm \<le> 8 \<and>
     unat (gm_next_id gm) \<le> n \<and>
     (\<forall>gid g. gm_groups gm gid = Some g \<longrightarrow> roster_ok gm gid g \<and> gid \<le> gm_next_id gm \<and> gid \<noteq> 0)"

section \<open>Lemmas\<close>

lemma groups_ok_new: "groups_ok 0 (new_group_manager m ttl)"
  by (auto simp: groups_ok_def new_group_manager_def index_exact_def invites_ok_def Let_def)

lemma groups_ok_mono: "groups_ok n gm \<Longrightarrow> n \<le> m \<Longrightarrow> groups_ok m gm"
  by (auto simp: groups_ok_def)

text \<open>An operation on the invitations alone keeps the invariant when the invitations it leaves are
  well-formed.\<close>

lemma groups_ok_invites:
  assumes "groups_ok n gm" "invites_ok (gm\<lparr>gm_invites := iv\<rparr>)"
  shows "groups_ok n (gm\<lparr>gm_invites := iv\<rparr>)"
  using assms by (simp add: groups_ok_def index_exact_def roster_ok_def)

lemma invites_ok_sub: "invites_ok gm \<Longrightarrow> (\<And>t ginv. iv t = Some ginv \<Longrightarrow> gm_invites gm t = Some ginv) \<Longrightarrow>
    invites_ok (gm\<lparr>gm_invites := iv\<rparr>)"
  unfolding invites_ok_def by simp blast

lemma groups_ok_sub: "groups_ok n gm \<Longrightarrow> (\<And>t ginv. iv t = Some ginv \<Longrightarrow> gm_invites gm t = Some ginv) \<Longrightarrow>
    groups_ok n (gm\<lparr>gm_invites := iv\<rparr>)"
  by (intro groups_ok_invites invites_ok_sub) (auto simp: groups_ok_def)

lemma delete_where_sub: "is_order m ks \<Longrightarrow> delete_where P ks m k = Some v \<Longrightarrow> m k = Some v"
  by (simp add: delete_where_order split: option.splits if_splits)

lemma groups_ok_invite: "groups_ok n gm \<Longrightarrow> groups_ok n (snd (invite now i t gm))"
  by (cases i; cases t)
     (auto simp: invite_def intro!: groups_ok_invites, auto simp: groups_ok_def invites_ok_def)

lemma groups_ok_decline: "groups_ok n gm \<Longrightarrow> groups_ok n (snd (decline t gm))"
  by (auto simp: decline_def split: option.splits if_splits intro!: groups_ok_sub)

lemma groups_ok_tick: "groups_ok n gm \<Longrightarrow> is_order (gm_invites gm) order \<Longrightarrow> groups_ok n (group_tick now order gm)"
  unfolding group_tick_def by (rule groups_ok_sub) (auto dest: delete_where_sub)

lemma groups_ok_forget: "groups_ok n gm \<Longrightarrow> is_order (gm_invites gm) order \<Longrightarrow> groups_ok n (forget_session sid order gm)"
  unfolding forget_session_def by (auto intro!: groups_ok_sub dest: delete_where_sub)

lemma groups_ok_drop_invite: "groups_ok n gm \<Longrightarrow> groups_ok n (gm\<lparr>gm_invites := (gm_invites gm)(t := None)\<rparr>)"
  by (rule groups_ok_sub) (auto split: if_splits)

lemma index_exactD: "index_exact gm \<Longrightarrow> gm_membership gm sid = Some gid \<longleftrightarrow>
    (\<exists>g. gm_groups gm gid = Some g \<and> sid \<in> set (g_members g))"
  by (simp add: index_exact_def)

lemma next_id_fresh:
  assumes "groups_ok n gm" "n < 2 ^ 32 - 1"
  shows "gm_groups gm (gm_next_id gm + 1) = None" "gm_next_id gm < gm_next_id gm + 1"
    "unat (gm_next_id gm + 1) \<le> Suc n" "gm_next_id gm + 1 \<noteq> 0"
proof -
  have b: "unat (gm_next_id gm) < 2 ^ 32 - 1" using assms by (simp add: groups_ok_def)
  then have u: "unat (gm_next_id gm + 1) = unat (gm_next_id gm) + 1"
    by (simp add: unat_word_ariths)
  then show l: "gm_next_id gm < gm_next_id gm + 1" by (simp add: word_less_nat_alt)
  show "unat (gm_next_id gm + 1) \<le> Suc n" using u assms by (simp add: groups_ok_def)
  show "gm_groups gm (gm_next_id gm + 1) = None"
    using assms(1) l unfolding groups_ok_def by (metis leD not_None_eq)
  show "gm_next_id gm + 1 \<noteq> 0" using l by auto
qed

lemma new_group_ok:
  assumes "groups_ok n gm" "n < 2 ^ 32 - 1" "distinct ms" "leader \<in> set ms"
    and "\<And>s. s \<in> set ms \<Longrightarrow> gm_membership gm s = None"
    and "int (length ms) \<le> gm_max_members gm" "2 \<le> gm_max_members gm \<Longrightarrow> 2 \<le> length ms"
    and mm: "mm = (\<lambda>s. if s \<in> set ms then Some (gm_next_id gm + 1) else gm_membership gm s)"
  shows "groups_ok (Suc n) (gm\<lparr>gm_next_id := gm_next_id gm + 1,
     gm_groups := (gm_groups gm)(gm_next_id gm + 1 \<mapsto> \<lparr>g_id = gm_next_id gm + 1, g_leader = leader, g_members = ms\<rparr>),
     gm_membership := mm\<rparr>)"
    (is "groups_ok _ ?gm")
proof -
  note fresh = next_id_fresh [OF assms(1,2)]
  let ?gid = "gm_next_id gm + 1"
  have ix: "index_exact gm" using assms(1) by (simp add: groups_ok_def)
  have no: "gm_membership gm s \<noteq> Some ?gid" for s
    using index_exactD [OF ix, of s ?gid] fresh(1) by simp
  have "index_exact ?gm"
    unfolding index_exact_def
  proof (intro allI)
    fix sid gid
    show "gm_membership ?gm sid = Some gid \<longleftrightarrow> (\<exists>g. gm_groups ?gm gid = Some g \<and> sid \<in> set (g_members g))"
    proof (cases "gid = ?gid")
      case True
      then show ?thesis using no by (simp add: mm)
    next
      case False
      then show ?thesis using index_exactD [OF ix, of sid gid] assms(5) by (auto simp: mm)
    qed
  qed
  moreover have "roster_ok ?gm gid g \<and> gid \<le> ?gid \<and> gid \<noteq> 0" if "gm_groups ?gm gid = Some g" for gid g
  proof (cases "gid = ?gid")
    case True
    with that assms(3,4,6,7) fresh(4) show ?thesis by (auto simp: roster_ok_def)
  next
    case False
    with that have "gm_groups gm gid = Some g" by simp
    with assms(1) have "roster_ok gm gid g" "gid \<le> gm_next_id gm" "gid \<noteq> 0" by (auto simp: groups_ok_def)
    with fresh(2) show ?thesis by (auto simp: roster_ok_def)
  qed
  ultimately show ?thesis
    using assms(1) fresh(3) by (simp add: groups_ok_def invites_ok_def)
qed

lemma add_member_ok:
  assumes "groups_ok n gm" "gm_groups gm gid = Some g" "gm_membership gm t = None"
    and "int (length (g_members g)) < gm_max_members gm"
  shows "groups_ok n (gm\<lparr>gm_groups := (gm_groups gm)(gid \<mapsto> g\<lparr>g_members := g_members g @ [t]\<rparr>),
     gm_membership := (gm_membership gm)(t \<mapsto> gid)\<rparr>)" (is "groups_ok _ ?gm")
proof -
  have ix: "index_exact gm" and ro: "roster_ok gm gid g" using assms(1,2) by (auto simp: groups_ok_def)
  have notin: "t \<notin> set (g_members g')" if "gm_groups gm gid' = Some g'" for gid' g'
    using index_exactD [OF ix, of t gid'] that assms(3) by auto
  have "index_exact ?gm"
    unfolding index_exact_def
  proof (intro allI)
    fix sid gid'
    show "gm_membership ?gm sid = Some gid' \<longleftrightarrow> (\<exists>g'. gm_groups ?gm gid' = Some g' \<and> sid \<in> set (g_members g'))"
      using index_exactD [OF ix, of sid gid'] assms(2) notin by (cases "sid = t"; cases "gid' = gid") auto
  qed
  moreover have "roster_ok ?gm gid' g' \<and> gid' \<le> gm_next_id gm \<and> gid' \<noteq> 0" if "gm_groups ?gm gid' = Some g'" for gid' g'
  proof (cases "gid' = gid")
    case True
    have "gid \<le> gm_next_id gm \<and> gid \<noteq> 0" using assms(1,2) by (auto simp: groups_ok_def)
    with True that ro notin [OF assms(2)] assms(4) show ?thesis by (auto simp: roster_ok_def)
  next
    case False
    with that assms(1) show ?thesis by (auto simp: roster_ok_def groups_ok_def)
  qed
  ultimately show ?thesis using assms(1) by (simp add: groups_ok_def invites_ok_def)
qed

lemma groups_ok_accept:
  assumes "groups_ok n gm" "n < 2 ^ 32 - 1"
  shows "groups_ok (Suc n) (snd (accept now t gm))"
proof (cases t)
  case None
  with assms show ?thesis by (simp add: accept_def groups_ok_mono)
next
  case (Some s)
  let ?t = "p_id s"
  show ?thesis
  proof (cases "gm_invites gm ?t")
    case None
    with Some assms show ?thesis by (simp add: accept_def groups_ok_mono)
  next
    case inv: (Some v)
    let ?gm1 = "gm\<lparr>gm_invites := (gm_invites gm)(?t := None)\<rparr>"
    have ok1: "groups_ok n ?gm1" using assms(1) by (rule groups_ok_drop_invite)
    then have ok1': "groups_ok (Suc n) ?gm1" by (rule groups_ok_mono) simp
    show ?thesis
    proof (cases "gi_expires v < now \<or> gm_membership gm ?t \<noteq> None")
      case True
      with Some inv ok1' show ?thesis by (auto simp: accept_def Let_def)
    next
      case False
      then have nt: "gm_membership ?gm1 ?t = None" by simp
      have ne: "gi_inviter v \<noteq> ?t" using assms(1) inv by (auto simp: groups_ok_def invites_ok_def)
      show ?thesis
      proof (cases "gm_membership gm (gi_inviter v)")
        case (Some gid)
        then obtain g where g: "gm_groups ?gm1 gid = Some g"
          using index_exactD [of gm "gi_inviter v" gid] assms(1) by (auto simp: groups_ok_def)
        have "accept now t gm = (if gm_max_members gm \<le> int (length (g_members g)) then (Inl ErrGroupFull, ?gm1)
            else (Inr gid, ?gm1\<lparr>gm_groups := (gm_groups ?gm1)(gid \<mapsto> g\<lparr>g_members := g_members g @ [?t]\<rparr>),
               gm_membership := (gm_membership ?gm1)(?t \<mapsto> gid)\<rparr>))"
          using \<open>t = Some s\<close> inv False Some g by (simp add: accept_def Let_def ensure_group_def)
        then show ?thesis
          using ok1' groups_ok_mono [OF add_member_ok [OF ok1 g nt], of "Suc n"] by simp
      next
        case None
        let ?g = "gm_next_id gm + 1"
        have r: "accept now t gm = (let
            gm2 = ?gm1\<lparr>gm_next_id := ?g, gm_groups := (gm_groups gm)(?g \<mapsto> \<lparr>g_id = ?g, g_leader = gi_inviter v, g_members = [gi_inviter v]\<rparr>),
                        gm_membership := (gm_membership gm)(gi_inviter v \<mapsto> ?g)\<rparr>
          in if gm_max_members gm \<le> 1 then (Inl ErrGroupFull, gm2)
             else (Inr ?g, gm2\<lparr>gm_groups := (gm_groups gm2)(?g \<mapsto> \<lparr>g_id = ?g, g_leader = gi_inviter v, g_members = [gi_inviter v, ?t]\<rparr>),
                     gm_membership := (gm_membership gm2)(?t \<mapsto> ?g)\<rparr>))"
          using \<open>t = Some s\<close> inv False None by (simp add: accept_def Let_def ensure_group_def)
        have max1: "1 \<le> gm_max_members gm" using assms(1) by (simp add: groups_ok_def)
        show ?thesis
        proof (cases "gm_max_members gm \<le> 1")
          case True
          have "(gm_membership gm)(gi_inviter v \<mapsto> ?g) =
              (\<lambda>x. if x \<in> set [gi_inviter v] then Some (gm_next_id ?gm1 + 1) else gm_membership ?gm1 x)"
            by auto
          from new_group_ok [OF ok1 assms(2) _ _ _ _ _ this, of "gi_inviter v"] True max1 None
          show ?thesis by (simp add: r Let_def)
        next
          case False
          have mm: "(gm_membership gm)(gi_inviter v \<mapsto> ?g, ?t \<mapsto> ?g) =
              (\<lambda>x. if x \<in> set [gi_inviter v, ?t] then Some (gm_next_id ?gm1 + 1) else gm_membership ?gm1 x)"
            by auto
          have "\<And>s. s \<in> set [gi_inviter v, ?t] \<Longrightarrow> gm_membership ?gm1 s = None"
            using None nt by auto
          from new_group_ok [OF ok1 assms(2) _ _ this _ _ mm, of "gi_inviter v"] False ne
          show ?thesis by (simp add: r Let_def)
        qed
      qed
    qed
  qed
qed

lemma groups_ok_drop:
  assumes "groups_ok n gm" "index_exact (gm\<lparr>gm_membership := ms, gm_groups := (gm_groups gm)(gid := None)\<rparr>)"
  shows "groups_ok n (gm\<lparr>gm_membership := ms, gm_groups := (gm_groups gm)(gid := None)\<rparr>)"
  using assms by (simp add: groups_ok_def invites_ok_def roster_ok_def)

lemma groups_ok_shrink:
  assumes "groups_ok n gm" "gm_groups gm gid = Some g" "roster_ok gm gid g'"
    and "index_exact (gm\<lparr>gm_membership := ms, gm_groups := (gm_groups gm)(gid \<mapsto> g')\<rparr>)"
  shows "groups_ok n (gm\<lparr>gm_membership := ms, gm_groups := (gm_groups gm)(gid \<mapsto> g')\<rparr>)"
  using assms by (simp add: groups_ok_def invites_ok_def roster_ok_def)

lemma groups_ok_leave:
  assumes "groups_ok n gm"
  shows "groups_ok n (snd (leave s gm))"
proof (cases s)
  case None
  with assms show ?thesis by (simp add: leave_def)
next
  case (Some p)
  let ?s = "p_id p"
  have ix: "index_exact gm" using assms by (simp add: groups_ok_def)
  show ?thesis
  proof (cases "gm_membership gm ?s")
    case None
    with Some assms show ?thesis by (simp add: leave_def)
  next
    case m: (Some gid)
    then obtain g where g: "gm_groups gm gid = Some g" "?s \<in> set (g_members g)"
      using index_exactD [OF ix] by auto
    have ro: "roster_ok gm gid g" using assms g(1) by (auto simp: groups_ok_def)
    have other: "sid \<notin> set (g_members g')" if "gm_groups gm gid' = Some g'" "gid' \<noteq> gid" "sid \<in> set (g_members g)" for gid' g' sid
      using index_exactD [OF ix, of sid gid] index_exactD [OF ix, of sid gid'] that g(1) by auto
    let ?rem = "filter (\<lambda>m. m \<noteq> ?s) (g_members g)"
    show ?thesis
    proof (cases "g_leader g = ?s \<or> length ?rem \<le> 1")
      case True
      let ?gm = "gm\<lparr>gm_membership := map_drop ((gm_membership gm)(?s := None)) (\<lambda>m. m \<in> set ?rem),
          gm_groups := (gm_groups gm)(gid := None)\<rparr>"
      have "index_exact ?gm"
        unfolding index_exact_def
      proof (intro allI)
        fix sid gid'
        show "gm_membership ?gm sid = Some gid' \<longleftrightarrow> (\<exists>g'. gm_groups ?gm gid' = Some g' \<and> sid \<in> set (g_members g'))"
        proof (cases "sid \<in> set (g_members g)")
          case True
          then have "gm_groups gm gid' = Some g' \<Longrightarrow> gid' \<noteq> gid \<Longrightarrow> sid \<notin> set (g_members g')" for g'
            using other by blast
          with True show ?thesis by auto
        next
          case False
          then have "sid \<noteq> ?s" using g(2) by auto
          with False index_exactD [OF ix, of sid gid'] g(1) show ?thesis
            by (cases "gid' = gid") (simp_all add: map_drop_def)
        qed
      qed
      then have "groups_ok n ?gm" using assms groups_ok_drop [of n gm] by blast
      moreover have "snd (leave s gm) = ?gm"
        using True m g \<open>s = Some p\<close> by (simp add: leave_def Let_def)
      ultimately show ?thesis by (simp only:)
    next
      case False
      let ?gm = "gm\<lparr>gm_membership := (gm_membership gm)(?s := None),
          gm_groups := (gm_groups gm)(gid \<mapsto> g\<lparr>g_members := ?rem\<rparr>)\<rparr>"
      have "index_exact ?gm"
        unfolding index_exact_def
      proof (intro allI)
        fix sid gid'
        show "gm_membership ?gm sid = Some gid' \<longleftrightarrow> (\<exists>g'. gm_groups ?gm gid' = Some g' \<and> sid \<in> set (g_members g'))"
        proof (cases "sid = ?s")
          case True
          then show ?thesis using other [of gid' _ sid] g by (cases "gid' = gid") auto
        next
          case False
          with index_exactD [OF ix, of sid gid'] g(1) show ?thesis by (cases "gid' = gid") simp_all
        qed
      qed
      moreover have "roster_ok gm gid (g\<lparr>g_members := ?rem\<rparr>)"
      proof -
        have "length ?rem \<le> length (g_members g)" by (rule length_filter_le)
        moreover have "2 \<le> length ?rem" "g_leader g \<noteq> ?s" using False by auto
        ultimately show ?thesis using ro unfolding roster_ok_def by (auto simp del: length_filter_le)
      qed
      ultimately have "groups_ok n ?gm" using assms g(1) groups_ok_shrink [of n gm] by blast
      moreover have "snd (leave s gm) = ?gm"
        using False m g \<open>s = Some p\<close> by (simp add: leave_def Let_def)
      ultimately show ?thesis by (simp only:)
    qed
  qed
qed

lemma group_step_ok: "group_step gm gm' \<Longrightarrow> groups_ok n gm \<Longrightarrow> n < 2 ^ 32 - 1 \<Longrightarrow> groups_ok (Suc n) gm'"
  by (erule group_stepE)
     (use groups_ok_mono [of n _ "Suc n"] in \<open>simp_all add: groups_ok_invite groups_ok_decline groups_ok_accept
       groups_ok_leave groups_ok_tick groups_ok_forget\<close>)

lemma group_reach_ok: "group_reach m ttl n gm \<Longrightarrow> n < 2 ^ 32 \<Longrightarrow> groups_ok n gm"
  by (induction rule: group_reach.induct) (auto simp: groups_ok_new intro: group_step_ok)

section \<open>Properties\<close>

text \<open>C18: The party state never goes wrong. After any interleaving of fewer than \<open>2^32\<close> invitations,
  acceptances, declines, departures, expiry sweeps and disconnect cleanups, a session is in
  the index under a group exactly when that group's roster lists it; every roster has distinct
  members with the leader among them, at most the cap, and (cap at least 2) never a single
  member; no invitation is from a session to itself.\<close>

theorem groups_invariant:
  assumes "group_reach m ttl n gm" and "n < 2 ^ 32"
  shows "(\<forall>sid gid. gm_membership gm sid = Some gid \<longleftrightarrow>
        (\<exists>g. gm_groups gm gid = Some g \<and> sid \<in> set (g_members g))) \<and>
    (\<forall>gid g. gm_groups gm gid = Some g \<longrightarrow> g_id g = gid \<and> g_leader g \<in> set (g_members g) \<and>
        distinct (g_members g) \<and> int (length (g_members g)) \<le> gm_max_members gm \<and>
        (2 \<le> gm_max_members gm \<longrightarrow> 2 \<le> length (g_members g))) \<and>
    (\<forall>t v. gm_invites gm t = Some v \<longrightarrow> gi_target v = t \<and> gi_inviter v \<noteq> t) \<and> gm_max_members gm \<le> 8"
  using group_reach_ok [OF assms]
  by (simp add: groups_ok_def index_exact_def invites_ok_def roster_ok_def)

definition demo_accept :: "int \<Rightarrow> (group_err + u32) \<times> group_manager" where
  "demo_accept cap = accept 20 (Some (demo_session 9 ''u9'' 9000))
     (snd (invite 10 (Some (demo_session 7 ''u7'' 7000)) (Some (demo_session 9 ''u9'' 9000)) (new_group_manager cap 60000)))"

theorem groups_invariant_witness:
  "gm_membership (snd (demo_accept 4)) 9 = Some 1 \<and> gm_membership (snd (demo_accept 4)) 7 = Some 1 \<and>
     (\<exists>g. gm_groups (snd (demo_accept 4)) 1 = Some g \<and> 9 \<in> set (g_members g) \<and> distinct (g_members g))"
proof -
  have "group_reach 4 60000 (Suc (Suc 0)) (snd (demo_accept 4))"
    unfolding demo_accept_def by (rule reach_step [OF reach_step [OF reach_new step_invite] step_accept])
  note inv = groups_invariant [OF this, simplified]
  have g: "gm_groups (snd (demo_accept 4)) 1 = Some \<lparr>g_id = 1, g_leader = 7, g_members = [7, 9]\<rparr>"
    by (simp add: demo_accept_def accept_def invite_def new_group_manager_def ensure_group_def demo_session_def Let_def)
  then have "gm_membership (snd (demo_accept 4)) 9 = Some 1" "gm_membership (snd (demo_accept 4)) 7 = Some 1"
    using inv by simp_all
  with g show ?thesis by simp
qed

text \<open>With a cap of one, accepting answers ErrGroupFull but has already created the inviter's group
  and consumed the invitation: the inviter is left in a group of one, which blocks it from
  accepting anyone else's invitation. (The configuration's default is 4.)\<close>

theorem full_group_leaves_singleton:
  "fst (demo_accept 1) = Inl ErrGroupFull \<and> gm_invites (snd (demo_accept 1)) 9 = None \<and>
   gm_membership (snd (demo_accept 1)) 7 = Some 1 \<and>
   map_option g_members (gm_groups (snd (demo_accept 1)) 1) = Some [7]"
  by (simp add: demo_accept_def accept_def invite_def new_group_manager_def ensure_group_def demo_session_def Let_def)


end
