(* ===== verification/SpatialGrid.thy ===== *)
theory SpatialGrid
  imports GoFloat
begin

text \<open>
  The spatial index: internal/game/spatial_grid.go. The three maps of the grid are HOL maps, a
  cell's \<open>map[uint32]struct{}\<close> is a set. Ranging over a cell takes its visiting order
  (\<open>ro\<close>, one list per cell). The cell size is the finite positive \<open>float32\<close> the constructor
  leaves; \<open>int32(f)\<close> of a value outside the type gives the minimum, as the amd64
  instruction does (the language leaves it open).
\<close>

type_synonym grid_key = "int \<times> int"

record grid =
  cell_size :: rat
  cells :: "grid_key \<Rightarrow> u32 set option"
  entity_positions :: "u32 \<Rightarrow> grid_key option"
  entity_coords :: "u32 \<Rightarrow> (f32 \<times> f32) option"

section \<open>Operations\<close>

definition new_grid :: "rat \<Rightarrow> grid" where
  "new_grid sz = \<lparr>cell_size = (if sz \<le> 0 then 64 else sz), cells = Map.empty,
     entity_positions = Map.empty, entity_coords = Map.empty\<rparr>"

definition int32_of :: "f64 \<Rightarrow> int" where
  "int32_of x = (case x of Fin q \<Rightarrow> if - (2 ^ 31) \<le> \<lfloor>q\<rfloor> \<and> \<lfloor>q\<rfloor> < 2 ^ 31 then \<lfloor>q\<rfloor> else - (2 ^ 31)
     | _ \<Rightarrow> - (2 ^ 31))"

definition cell_of :: "rat \<Rightarrow> f32 \<Rightarrow> int" where
  "cell_of sz v = int32_of (ffloor (fdiv_const rnd32 v sz))"

definition cell_key :: "grid \<Rightarrow> f32 \<Rightarrow> f32 \<Rightarrow> grid_key" where
  "cell_key g x z = (cell_of (cell_size g) x, cell_of (cell_size g) z)"

definition cell_delete :: "grid_key \<Rightarrow> u32 \<Rightarrow> (grid_key \<Rightarrow> u32 set option) \<Rightarrow> (grid_key \<Rightarrow> u32 set option)" where
  "cell_delete k i cs = (case cs k of
     None \<Rightarrow> cs
   | Some c \<Rightarrow> if c - {i} = {} then cs(k := None) else cs(k \<mapsto> c - {i}))"

definition cell_add :: "grid_key \<Rightarrow> u32 \<Rightarrow> (grid_key \<Rightarrow> u32 set option) \<Rightarrow> (grid_key \<Rightarrow> u32 set option)" where
  "cell_add k i cs = cs(k \<mapsto> insert i (case cs k of None \<Rightarrow> {} | Some c \<Rightarrow> c))"

definition place_entity :: "u32 \<Rightarrow> f32 \<Rightarrow> f32 \<Rightarrow> grid \<Rightarrow> grid" where
  "place_entity i x z g = (let k = cell_key g x z in
     g\<lparr>cells := cell_add k i (cells g), entity_positions := (entity_positions g)(i \<mapsto> k),
       entity_coords := (entity_coords g)(i \<mapsto> (x, z))\<rparr>)"

definition grid_insert :: "u32 \<Rightarrow> f32 \<Rightarrow> f32 \<Rightarrow> grid \<Rightarrow> grid" where
  "grid_insert i x z g = place_entity i x z (case entity_positions g i of
     None \<Rightarrow> g
   | Some k \<Rightarrow> g\<lparr>cells := cell_delete k i (cells g)\<rparr>)"

definition grid_remove :: "u32 \<Rightarrow> grid \<Rightarrow> grid" where
  "grid_remove i g = (case entity_positions g i of
     None \<Rightarrow> g
   | Some k \<Rightarrow> g\<lparr>cells := cell_delete k i (cells g), entity_positions := (entity_positions g)(i := None),
                 entity_coords := (entity_coords g)(i := None)\<rparr>)"

definition grid_update :: "u32 \<Rightarrow> f32 \<Rightarrow> f32 \<Rightarrow> grid \<Rightarrow> grid" where
  "grid_update i x z g = (case entity_positions g i of
     None \<Rightarrow> place_entity i x z g
   | Some old \<Rightarrow>
       let k = cell_key g x z;
           g1 = (if old \<noteq> k
                 then g\<lparr>cells := cell_add k i (cell_delete old i (cells g)),
                        entity_positions := (entity_positions g)(i \<mapsto> k)\<rparr>
                 else g)
       in g1\<lparr>entity_coords := (entity_coords g1)(i \<mapsto> (x, z))\<rparr>)"

definition in_radius :: "f32 \<Rightarrow> f32 \<Rightarrow> f32 \<Rightarrow> f32 \<times> f32 \<Rightarrow> bool" where
  "in_radius x z radius p = (let dx = sub32 (fst p) x; dz = sub32 (snd p) z
     in fle (add32 (mul32 dx dx) (mul32 dz dz)) (mul32 radius radius))"

definition cell_hits :: "(grid_key \<Rightarrow> u32 list) \<Rightarrow> grid \<Rightarrow> f32 \<Rightarrow> f32 \<Rightarrow> f32 \<Rightarrow> grid_key \<Rightarrow> u32 list" where
  "cell_hits ro g x z radius k = (case cells g k of
     None \<Rightarrow> []
   | Some c \<Rightarrow> filter (\<lambda>i. case entity_coords g i of None \<Rightarrow> False | Some p \<Rightarrow> in_radius x z radius p) (ro k))"

definition get_neighbors :: "(grid_key \<Rightarrow> u32 list) \<Rightarrow> grid \<Rightarrow> f32 \<Rightarrow> f32 \<Rightarrow> f32 \<Rightarrow> u32 list" where
  "get_neighbors ro g x z radius = (if flt radius (Fin 0) then [] else
     let lo = \<lambda>v. cell_of (cell_size g) (sub32 v radius); hi = \<lambda>v. cell_of (cell_size g) (add32 v radius)
     in concat (map (\<lambda>cx. concat (map (\<lambda>cz. cell_hits ro g x z radius (cx, cz)) [lo z .. hi z])) [lo x .. hi x]))"

definition grid_count :: "grid \<Rightarrow> nat" where
  "grid_count g = card (dom (entity_positions g))"

definition grid_clear :: "grid \<Rightarrow> grid" where
  "grid_clear g = g\<lparr>cells := Map.empty, entity_positions := Map.empty, entity_coords := Map.empty\<rparr>"

definition get_position :: "u32 \<Rightarrow> grid \<Rightarrow> f32 \<times> f32 \<times> bool" where
  "get_position i g = (case entity_coords g i of None \<Rightarrow> (Fin 0, Fin 0, False) | Some (x, z) \<Rightarrow> (x, z, True))"

definition grid_contains :: "u32 \<Rightarrow> grid \<Rightarrow> bool" where
  "grid_contains i g \<longleftrightarrow> entity_positions g i \<noteq> None"

section \<open>The invariant\<close>

text \<open>
  Every tracked entity is in exactly one cell, the cell of its coordinates, and no cell is
  empty; the two entity maps track the same ids.
\<close>

definition in_cell :: "(grid_key \<Rightarrow> u32 set option) \<Rightarrow> grid_key \<Rightarrow> u32 \<Rightarrow> bool" where
  "in_cell cs k i \<longleftrightarrow> (\<exists>c. cs k = Some c \<and> i \<in> c)"

definition cells_exact :: "grid \<Rightarrow> bool" where
  "cells_exact g \<longleftrightarrow> (\<forall>k i. in_cell (cells g) k i \<longleftrightarrow> entity_positions g i = Some k)"

definition keys_exact :: "grid \<Rightarrow> bool" where
  "keys_exact g \<longleftrightarrow> (\<forall>i. entity_positions g i = map_option (\<lambda>(x, z). cell_key g x z) (entity_coords g i))"

definition grid_ok :: "grid \<Rightarrow> bool" where
  "grid_ok g \<longleftrightarrow> cells_exact g \<and> keys_exact g \<and> {} \<notin> ran (cells g) \<and> 0 < cell_size g"

definition cell_order :: "grid \<Rightarrow> (grid_key \<Rightarrow> u32 list) \<Rightarrow> bool" where
  "cell_order g ro \<longleftrightarrow> (\<forall>k c. cells g k = Some c \<longrightarrow> distinct (ro k) \<and> set (ro k) = c)"

inductive grid_reach :: "rat \<Rightarrow> grid \<Rightarrow> bool" for sz where
  grid_new: "grid_reach sz (new_grid sz)"
| grid_ins: "grid_reach sz g \<Longrightarrow> grid_reach sz (grid_insert i x z g)"
| grid_upd: "grid_reach sz g \<Longrightarrow> grid_reach sz (grid_update i x z g)"
| grid_rem: "grid_reach sz g \<Longrightarrow> grid_reach sz (grid_remove i g)"
| grid_clr: "grid_reach sz g \<Longrightarrow> grid_reach sz (grid_clear g)"

section \<open>Lemmas\<close>

lemma cell_delete_mem: "in_cell (cell_delete k i cs) k' j \<longleftrightarrow> in_cell cs k' j \<and> \<not> (k' = k \<and> j = i)"
  by (auto simp: in_cell_def cell_delete_def split: option.splits)

lemma cell_add_mem: "in_cell (cell_add k i cs) k' j \<longleftrightarrow> in_cell cs k' j \<or> k' = k \<and> j = i"
  by (auto simp: in_cell_def cell_add_def split: option.splits)

lemma cell_delete_ne: "{} \<notin> ran cs \<Longrightarrow> {} \<notin> ran (cell_delete k i cs)"
  by (auto simp: cell_delete_def ran_def split: option.splits)

lemma cell_add_ne: "{} \<notin> ran cs \<Longrightarrow> {} \<notin> ran (cell_add k i cs)"
  by (auto simp: cell_add_def ran_def split: option.splits if_splits)

lemmas cell_rules = cell_delete_mem cell_add_mem cell_delete_ne cell_add_ne

lemma cell_key_frame [simp]:
  "cell_key (cells_update f g) = cell_key g" "cell_key (entity_positions_update f' g) = cell_key g"
  "cell_key (entity_coords_update f'' g) = cell_key g"
  by (intro ext, simp add: cell_key_def)+


lemma grid_okI:
  assumes "\<And>k i. in_cell (cells g) k i \<longleftrightarrow> entity_positions g i = Some k"
    and "\<And>i. entity_positions g i = map_option (\<lambda>(x, z). cell_key g x z) (entity_coords g i)"
    and "{} \<notin> ran (cells g)" "0 < cell_size g"
  shows "grid_ok g"
  using assms by (simp add: grid_ok_def cells_exact_def keys_exact_def)

lemma grid_okD:
  assumes "grid_ok g"
  shows "in_cell (cells g) k i \<longleftrightarrow> entity_positions g i = Some k"
    and "entity_positions g i = map_option (\<lambda>(x, z). cell_key g x z) (entity_coords g i)"
    and "{} \<notin> ran (cells g)" "0 < cell_size g"
  using assms unfolding grid_ok_def cells_exact_def keys_exact_def by blast+

lemma grid_ok_new: "grid_ok (new_grid sz)"
  by (rule grid_okI) (simp_all add: new_grid_def in_cell_def)

lemma grid_ok_clear: "grid_ok g \<Longrightarrow> grid_ok (grid_clear g)"
  by (rule grid_okI) (simp_all add: grid_clear_def in_cell_def grid_ok_def)

lemma grid_ok_remove: "grid_ok g \<Longrightarrow> grid_ok (grid_remove i g)"
proof (cases "entity_positions g i")
  case (Some k)
  assume ok: "grid_ok g"
  note rules = grid_okD [OF ok]
  show ?thesis
  proof (rule grid_okI)
    show "in_cell (cells (grid_remove i g)) k' j \<longleftrightarrow> entity_positions (grid_remove i g) j = Some k'" for k' j
      using Some rules(1) [of k' j] rules(1) [of k i] by (auto simp: grid_remove_def cell_rules)
    show "entity_positions (grid_remove i g) j = map_option (\<lambda>(x, z). cell_key (grid_remove i g) x z) (entity_coords (grid_remove i g) j)" for j
      using Some rules(2) [of j] by (simp add: grid_remove_def)
  qed (use Some rules(3,4) in \<open>simp_all add: grid_remove_def cell_delete_ne\<close>)
qed (simp add: grid_remove_def)

text \<open>Moving an entity: out of its old cell, if any, and into the one of its new coordinates.\<close>

lemma grid_ok_move:
  assumes "grid_ok g" "cs = (case entity_positions g i of None \<Rightarrow> cells g | Some k \<Rightarrow> cell_delete k i (cells g))"
    and "k = cell_key g x z"
  shows "grid_ok (g\<lparr>cells := cell_add k i cs, entity_positions := (entity_positions g)(i \<mapsto> k),
     entity_coords := (entity_coords g)(i \<mapsto> (x, z))\<rparr>)"
proof (rule grid_okI)
  note ok = grid_okD [OF assms(1)]
  have cs: "in_cell cs k' j \<longleftrightarrow> entity_positions g j = Some k' \<and> j \<noteq> i" for k' j
    using ok(1) by (cases "entity_positions g i") (auto simp: assms(2) cell_rules)
  show "in_cell (cells (g\<lparr>cells := cell_add k i cs, entity_positions := (entity_positions g)(i \<mapsto> k),
     entity_coords := (entity_coords g)(i \<mapsto> (x, z))\<rparr>)) k' j \<longleftrightarrow> entity_positions (g\<lparr>cells := cell_add k i cs, entity_positions := (entity_positions g)(i \<mapsto> k),
     entity_coords := (entity_coords g)(i \<mapsto> (x, z))\<rparr>) j = Some k'" for k' j
    using cs by (auto simp: cell_rules)
qed (use grid_okD [OF assms(1)] in \<open>auto simp: assms(2,3) cell_rules split: option.split\<close>)

lemma grid_ok_insert: "grid_ok g \<Longrightarrow> grid_ok (grid_insert i x z g)"
  using grid_ok_move [of g "case entity_positions g i of None \<Rightarrow> cells g | Some k \<Rightarrow> cell_delete k i (cells g)" i]
  by (cases "entity_positions g i") (simp_all add: grid_insert_def place_entity_def Let_def)

lemma grid_ok_coords:
  assumes "grid_ok g" "entity_positions g i = Some (cell_key g x z)"
  shows "grid_ok (g\<lparr>entity_coords := (entity_coords g)(i \<mapsto> (x, z))\<rparr>)"
  by (rule grid_okI) (use assms grid_okD [OF assms(1)] in auto)

lemma grid_ok_update: "grid_ok g \<Longrightarrow> grid_ok (grid_update i x z g)"
  using grid_ok_move [of g "case entity_positions g i of None \<Rightarrow> cells g | Some k \<Rightarrow> cell_delete k i (cells g)" i]
  by (cases "entity_positions g i") (auto simp: grid_update_def place_entity_def Let_def intro: grid_ok_coords)

lemma grid_reach_ok: "grid_reach sz g \<Longrightarrow> grid_ok g"
  by (induction rule: grid_reach.induct)
     (simp_all add: grid_ok_new grid_ok_insert grid_ok_update grid_ok_remove grid_ok_clear)

text \<open>The cell of a coordinate is monotone while it stays inside \<open>int32\<close>.\<close>

lemma rnd32_bounded: "\<bar>q\<bar> \<le> 2 ^ 24 \<Longrightarrow> rnd32 q = Fin (rnd 24 (- 149) q) \<and> \<bar>rnd 24 (- 149) q\<bar> \<le> 2 ^ 24"
proof -
  assume q: "\<bar>q\<bar> \<le> 2 ^ 24"
  have p: "(2 ^ 24 :: rat) = pow2 24" by (simp add: pow2_def)
  have i: "rnd 24 (- 149) (of_int (2 ^ 24)) = (2 ^ 24 :: rat)" "rnd 24 (- 149) (of_int (- (2 ^ 24))) = - (2 ^ 24 :: rat)"
    using rnd_int [of "2 ^ 24" 24 "- 149"] rnd_int [of "- (2 ^ 24)" 24 "- 149"] by simp_all
  have "rnd 24 (- 149) q \<le> rnd 24 (- 149) (of_int (2 ^ 24))" "rnd 24 (- 149) (of_int (- (2 ^ 24))) \<le> rnd 24 (- 149) q"
    using q by (auto intro!: rnd_mono)
  then have "\<bar>rnd 24 (- 149) q\<bar> \<le> 2 ^ 24" unfolding i by linarith
  moreover have "rnd32 q = Fin (rnd 24 (- 149) q)" using q p by (intro rnd32_fin [of _ 24]) simp_all
  ultimately show ?thesis by simp
qed

lemma cell_of_fin:
  assumes "\<bar>q\<bar> \<le> 2 ^ 24" "1 \<le> s"
  shows "cell_of s (Fin q) = \<lfloor>rnd 24 (- 149) (q / s)\<rfloor>"
proof -
  have "\<bar>q / s\<bar> \<le> \<bar>q\<bar>" using assms(2) by (simp add: abs_divide divide_le_eq_1 pos_divide_le_eq mult_left_le_one_le)
     (metis abs_ge_zero mult_left_mono mult.right_neutral)
  then have b: "\<bar>q / s\<bar> \<le> 2 ^ 24" using assms(1) by linarith
  note r = rnd32_bounded [OF b]
  let ?f = "\<lfloor>rnd 24 (- 149) (q / s)\<rfloor>"
  have "- (2 ^ 24) \<le> ?f" "?f \<le> 2 ^ 24"
    using r by (simp_all add: le_floor_iff floor_le_iff) linarith+
  then show ?thesis using r by (simp add: cell_of_def int32_of_def)
qed

lemma cell_of_mono:
  assumes "a \<le> b" "\<bar>a\<bar> \<le> 2 ^ 24" "\<bar>b\<bar> \<le> 2 ^ 24" "1 \<le> s"
  shows "cell_of s (Fin a) \<le> cell_of s (Fin b)"
  using assms by (simp add: cell_of_fin) (intro floor_mono rnd_mono divide_right_mono, simp_all)

lemma cell_hits_set:
  assumes "grid_ok g" "cell_order g ro"
  shows "set (cell_hits ro g x z r k) = {i. entity_positions g i = Some k \<and>
           (\<exists>p. entity_coords g i = Some p \<and> in_radius x z r p)}"
    and "distinct (cell_hits ro g x z r k)"
proof -
  note ok = grid_okD(1) [OF assms(1)]
  have ex: "i \<in> c \<longleftrightarrow> entity_positions g i = Some k" if "cells g k = Some c" for c i
    using ok [of k i] that by (simp add: in_cell_def)
  have no: "entity_positions g i \<noteq> Some k" if "cells g k = None" for i
    using ok [of k i] that by (simp add: in_cell_def)
  have ro: "distinct (ro k) \<and> set (ro k) = c" if "cells g k = Some c" for c
    using assms(2) that unfolding cell_order_def by blast
  show "set (cell_hits ro g x z r k) = {i. entity_positions g i = Some k \<and>
           (\<exists>p. entity_coords g i = Some p \<and> in_radius x z r p)}"
  proof (cases "cells g k")
    case None
    with no show ?thesis by (simp add: cell_hits_def)
  next
    case (Some c)
    with ex [OF Some] ro [OF Some] show ?thesis by (auto simp: cell_hits_def split: option.splits)
  qed
  show "distinct (cell_hits ro g x z r k)"
    using ro by (auto simp: cell_hits_def split: option.splits)
qed

lemma distinct_concat_map:
  "distinct ks \<Longrightarrow> (\<And>k. k \<in> set ks \<Longrightarrow> distinct (f k)) \<Longrightarrow>
   (\<And>k k'. k \<in> set ks \<Longrightarrow> k' \<in> set ks \<Longrightarrow> k \<noteq> k' \<Longrightarrow> set (f k) \<inter> set (f k') = {}) \<Longrightarrow>
   distinct (concat (map f ks))"
  by (induction ks) auto

lemma get_neighbors_set:
  assumes "grid_ok g" "cell_order g ro" "\<not> flt r (Fin 0)"
  shows "set (get_neighbors ro g x z r) = {i. \<exists>cx cz p. entity_positions g i = Some (cx, cz) \<and>
      cell_of (cell_size g) (sub32 x r) \<le> cx \<and> cx \<le> cell_of (cell_size g) (add32 x r) \<and>
      cell_of (cell_size g) (sub32 z r) \<le> cz \<and> cz \<le> cell_of (cell_size g) (add32 z r) \<and>
      entity_coords g i = Some p \<and> in_radius x z r p}"
    and "distinct (get_neighbors ro g x z r)"
proof -
  note hits = cell_hits_set [OF assms(1,2)]
  show "set (get_neighbors ro g x z r) = {i. \<exists>cx cz p. entity_positions g i = Some (cx, cz) \<and>
      cell_of (cell_size g) (sub32 x r) \<le> cx \<and> cx \<le> cell_of (cell_size g) (add32 x r) \<and>
      cell_of (cell_size g) (sub32 z r) \<le> cz \<and> cz \<le> cell_of (cell_size g) (add32 z r) \<and>
      entity_coords g i = Some p \<and> in_radius x z r p}"
    using assms(3) by (auto simp: get_neighbors_def Let_def hits(1))
  have row: "set (concat (map (\<lambda>cz. cell_hits ro g x z r (cx, cz)) zs)) \<subseteq> {i. \<exists>cz. entity_positions g i = Some (cx, cz)}"
    for cx zs by (auto simp: hits(1))
  have "distinct (concat (map (\<lambda>cz. cell_hits ro g x z r (cx, cz)) [lo .. hi]))" for cx lo hi
    by (intro distinct_concat_map) (auto simp: hits)
  then show "distinct (get_neighbors ro g x z r)"
    using assms(3) row unfolding get_neighbors_def Let_def
    by (auto intro!: distinct_concat_map simp: hits)
qed

lemma key_in_box:
  assumes "\<bar>x\<bar> \<le> 2 ^ 20" "0 \<le> r" "r \<le> 2 ^ 20" "1 \<le> s"
    and "fle (sub32 (Fin x) (Fin r)) (Fin a)" "fle (Fin a) (add32 (Fin x) (Fin r))"
  shows "cell_of s (sub32 (Fin x) (Fin r)) \<le> cell_of s (Fin a) \<and> cell_of s (Fin a) \<le> cell_of s (add32 (Fin x) (Fin r))"
proof -
  have b: "\<bar>x + - r\<bar> \<le> 2 ^ 24" "\<bar>x + r\<bar> \<le> 2 ^ 24" using assms(1-3) by (simp_all add: abs_le_iff)
  note lo = rnd32_bounded [OF b(1)] and hi = rnd32_bounded [OF b(2)]
  have eqs: "sub32 (Fin x) (Fin r) = Fin (rnd 24 (- 149) (x + - r))" "add32 (Fin x) (Fin r) = Fin (rnd 24 (- 149) (x + r))"
    using lo hi by (simp_all add: fsub_def)
  then have le: "rnd 24 (- 149) (x + - r) \<le> a" "a \<le> rnd 24 (- 149) (x + r)" using assms(5,6) by simp_all
  then have "\<bar>a\<bar> \<le> 2 ^ 24" using lo hi by linarith
  then show ?thesis using le lo hi assms(4) by (simp add: eqs cell_of_mono del: fadd.simps)
qed

lemma grid_reach_size: "grid_reach sz g \<Longrightarrow> 0 < sz \<Longrightarrow> cell_size g = sz"
  by (induction rule: grid_reach.induct)
     (simp_all add: new_grid_def grid_insert_def grid_update_def grid_remove_def grid_clear_def place_entity_def Let_def
       split: option.split)

definition in_square :: "rat \<Rightarrow> rat \<Rightarrow> rat \<Rightarrow> rat \<times> rat \<Rightarrow> bool" where
  "in_square x z r p \<longleftrightarrow>
     fle (sub32 (Fin x) (Fin r)) (Fin (fst p)) \<and> fle (Fin (fst p)) (add32 (Fin x) (Fin r)) \<and>
     fle (sub32 (Fin z) (Fin r)) (Fin (snd p)) \<and> fle (Fin (snd p)) (add32 (Fin z) (Fin r))"

text \<open>Rounding is monotone: a float32 coordinate really inside the square is inside the rounded one. An
  entity outside the real square is another matter: with cells of 64 and a query of radius 130 around
  \<open>x = - 66 - 2 ^ -17\<close>, the difference to an entity at 64 is rounded down to 130 and passes the distance
  test, but the square ends below 64 and the entity's cell is not searched.\<close>

definition really_inside :: "rat \<Rightarrow> rat \<Rightarrow> rat \<Rightarrow> rat \<times> rat \<Rightarrow> bool" where
  "really_inside x z r p \<longleftrightarrow> rnd32 (fst p) = Fin (fst p) \<and> rnd32 (snd p) = Fin (snd p) \<and>
     \<bar>fst p - x\<bar> \<le> r \<and> \<bar>snd p - z\<bar> \<le> r"

lemma inside_bounds:
  assumes "rnd32 a = Fin a" "\<bar>a - x\<bar> \<le> r" "\<bar>x\<bar> \<le> 2 ^ 20" "r \<le> 2 ^ 20"
  shows "fle (sub32 (Fin x) (Fin r)) (Fin a)" "fle (Fin a) (add32 (Fin x) (Fin r))"
proof -
  have b: "\<bar>a\<bar> \<le> 2 ^ 24" "\<bar>x - r\<bar> \<le> 2 ^ 24" "\<bar>x + r\<bar> \<le> 2 ^ 24" using assms(2-4) by simp_all
  have a: "rnd 24 (- 149) a = a" using rnd32_bounded [OF b(1)] assms(1) by simp
  have "rnd 24 (- 149) (x - r) \<le> rnd 24 (- 149) a" "rnd 24 (- 149) a \<le> rnd 24 (- 149) (x + r)"
    using assms(2) by (auto intro!: rnd_mono)
  then show "fle (sub32 (Fin x) (Fin r)) (Fin a)" "fle (Fin a) (add32 (Fin x) (Fin r))"
    using rnd32_bounded [OF b(2)] rnd32_bounded [OF b(3)] by (simp_all add: a fsub_def)
qed

lemma really_inside_square:
  "really_inside x z r p \<Longrightarrow> \<bar>x\<bar> \<le> 2 ^ 20 \<Longrightarrow> \<bar>z\<bar> \<le> 2 ^ 20 \<Longrightarrow> r \<le> 2 ^ 20 \<Longrightarrow> in_square x z r p"
  unfolding really_inside_def in_square_def using inside_bounds by blast

section \<open>Properties\<close>

text \<open>C14: The index answers a range query as a scan of all entities in the square would. In every reachable grid,
  for a centre and a radius up to 2^20, GetNeighbors lists each id once; an entity in the queried square (in the
  square as the code computes it in float32, which holds every float32 position really within the radius on both
  axes) is listed exactly when its float32 distance test passes; nothing is listed that is not tracked or fails the
  test. Any visiting order of the cells gives the same set.\<close>

theorem neighbors_exact:
  assumes "grid_reach sz g" and "cell_order g ro" and "1 \<le> sz"
    and "\<bar>x\<bar> \<le> 2 ^ 20" and "\<bar>z\<bar> \<le> 2 ^ 20" and "0 \<le> r" and "r \<le> 2 ^ 20"
  shows "distinct (get_neighbors ro g (Fin x) (Fin z) (Fin r)) \<and>
    (\<forall>i a b. entity_coords g i = Some (Fin a, Fin b) \<longrightarrow> in_square x z r (a, b) \<or> really_inside x z r (a, b) \<longrightarrow>
       (i \<in> set (get_neighbors ro g (Fin x) (Fin z) (Fin r)) \<longleftrightarrow> in_radius (Fin x) (Fin z) (Fin r) (Fin a, Fin b))) \<and>
    (\<forall>i\<in>set (get_neighbors ro g (Fin x) (Fin z) (Fin r)).
       \<exists>p. entity_coords g i = Some p \<and> in_radius (Fin x) (Fin z) (Fin r) p)"
proof -
  have ok: "grid_ok g" using assms(1) by (rule grid_reach_ok)
  have cs: "cell_size g = sz" using assms(1,3) by (intro grid_reach_size) simp_all
  have nr: "\<not> flt (Fin r) (Fin 0)" using assms(6) by simp
  note res = get_neighbors_set [OF ok assms(2) nr, of "Fin x" "Fin z"]
  have "i \<in> set (get_neighbors ro g (Fin x) (Fin z) (Fin r)) \<longleftrightarrow> in_radius (Fin x) (Fin z) (Fin r) (Fin a, Fin b)"
    if "entity_coords g i = Some (Fin a, Fin b)" "in_square x z r (a, b) \<or> really_inside x z r (a, b)" for i a b
  proof -
    have "in_square x z r (a, b)" using that(2) assms(4,5,7) by (auto intro: really_inside_square)
    moreover have "entity_positions g i = Some (cell_of sz (Fin a), cell_of sz (Fin b))"
      using grid_okD(2) [OF ok, of i] that(1) by (simp add: cell_key_def cs)
    moreover note key_in_box [OF assms(4,6,7,3), of a] key_in_box [OF assms(5,6,7,3), of b]
    ultimately show ?thesis using that by (simp add: res(1) cs in_square_def)
  qed
  then show ?thesis using res by auto
qed

definition demo_grid :: grid where
  "demo_grid = grid_update 7 (Fin 30) (Fin 40) (grid_insert 9 (Fin 500) (Fin 0) (new_grid 64))"

definition demo_order :: "grid_key \<Rightarrow> u32 list" where
  "demo_order k = (case cells demo_grid k of None \<Rightarrow> [] | Some c \<Rightarrow> sorted_list_of_set c)"

lemma rnd32_neg_numeral [simp]: "numeral n \<le> (2 ^ 24 :: int) \<Longrightarrow> rnd32 (- numeral n) = Fin (- numeral n)"
  using rnd32_int [of "- numeral n"] by simp

theorem neighbors_exact_witness:
  "7 \<in> set (get_neighbors demo_order demo_grid (Fin 0) (Fin 0) (Fin 220)) \<and>
   9 \<notin> set (get_neighbors demo_order demo_grid (Fin 0) (Fin 0) (Fin 220))"
proof -
  have "grid_reach 64 demo_grid" unfolding demo_grid_def by (intro grid_reach.intros)
  moreover have "cell_order demo_grid demo_order"
    by (simp add: cell_order_def demo_order_def)
  ultimately have n: "\<forall>i a b. entity_coords demo_grid i = Some (Fin a, Fin b) \<longrightarrow>
        in_square 0 0 220 (a, b) \<or> really_inside 0 0 220 (a, b) \<longrightarrow>
       (i \<in> set (get_neighbors demo_order demo_grid (Fin 0) (Fin 0) (Fin 220)) \<longleftrightarrow> in_radius (Fin 0) (Fin 0) (Fin 220) (Fin a, Fin b))"
    "\<forall>i\<in>set (get_neighbors demo_order demo_grid (Fin 0) (Fin 0) (Fin 220)).
       \<exists>p. entity_coords demo_grid i = Some p \<and> in_radius (Fin 0) (Fin 0) (Fin 220) p"
    using neighbors_exact [of 64 demo_grid demo_order 0 0 220] by simp_all
  have c: "entity_coords demo_grid 7 = Some (Fin 30, Fin 40)" "entity_coords demo_grid 9 = Some (Fin 500, Fin 0)"
    by (simp_all add: demo_grid_def grid_update_def grid_insert_def place_entity_def new_grid_def Let_def)
  have "really_inside 0 0 220 (30, 40)" by (simp add: really_inside_def)
  moreover have "in_radius (Fin 0) (Fin 0) (Fin 220) (Fin 30, Fin 40)" by (simp add: in_radius_def fsub_def)
  moreover have "\<not> in_radius (Fin 0) (Fin 0) (Fin 220) (Fin 500, Fin 0)" by (simp add: in_radius_def fsub_def)
  ultimately show ?thesis using n(1) [rule_format, OF c(1)] n(2) c(2) by fastforce
qed

end
