(* ===== verification/ServerConfig.thy ===== *)
theory ServerConfig
  imports GoFloat
begin

text \<open>
  The configuration: internal/config/config.go. A pointer field is an option (an omitted key is
  \<open>None\<close>), a \<open>nil\<close> configuration is \<open>None\<close>. Reading the file and decoding the YAML are not
  modelled: \<open>validate\<close> starts from the decoded record.
\<close>

record config =
  cf_port :: int
  cf_tick_rate_hz :: int
  cf_max_players :: int
  cf_db_path :: string
  cf_log_level :: string
  cf_emission_interval_min :: int
  cf_admin_pipe :: string
  cf_server_name :: string
  cf_map_name :: string
  cf_mode :: int
  cf_locked :: bool
  cf_group_max_players :: int
  cf_invite_ttl_sec :: int
  cf_session_timeout_sec :: int
  cf_damage_budget_per_s :: f64
  cf_item_rate_per_s :: f64
  cf_ai_enabled :: "bool option"
  cf_ai_online_radius :: f64
  cf_ai_enter_radius :: f64
  cf_ai_leave_radius :: f64
  cf_ai_max_entities :: int
  cf_ai_combat_enabled :: "bool option"
  cf_ai_aggro_radius :: f64
  cf_ai_attack_range :: f64
  cf_ai_attack_cooldown_ms :: int
  cf_ai_melee_damage :: f64
  cf_ai_corpse_seconds :: int
  cf_ai_patrol_resume_s :: int
  cf_los_enabled :: "bool option"
  cf_los_data_dir :: string
  cf_world_item_ttl_min :: "int option"
  cf_world_item_max_per_level :: int
  cf_trade_max_money_delta :: int

datatype config_error = BadPort int | BadTickRate int | BadMaxPlayers int

section \<open>Accessors\<close>

definition world_item_ttl_minutes :: "config option \<Rightarrow> int" where
  "world_item_ttl_minutes c = (case c of None \<Rightarrow> 60 | Some k \<Rightarrow>
     (case cf_world_item_ttl_min k of None \<Rightarrow> 60 | Some m \<Rightarrow> m))"

definition ai_enabled_or_default :: "config option \<Rightarrow> bool" where
  "ai_enabled_or_default c = (case c of None \<Rightarrow> True | Some k \<Rightarrow>
     (case cf_ai_enabled k of None \<Rightarrow> True | Some b \<Rightarrow> b))"

definition ai_combat_enabled_or_default :: "config option \<Rightarrow> bool" where
  "ai_combat_enabled_or_default c = (case c of None \<Rightarrow> True | Some k \<Rightarrow>
     (case cf_ai_combat_enabled k of None \<Rightarrow> True | Some b \<Rightarrow> b))"

definition los_enabled_or_default :: "config option \<Rightarrow> bool" where
  "los_enabled_or_default c = (case c of None \<Rightarrow> True | Some k \<Rightarrow>
     (case cf_los_enabled k of None \<Rightarrow> True | Some b \<Rightarrow> b))"

definition los_data_dir_or_default :: "config option \<Rightarrow> string" where
  "los_data_dir_or_default c = (case c of None \<Rightarrow> ''zone_los'' | Some k \<Rightarrow>
     if cf_los_data_dir k = '''' then ''zone_los'' else cf_los_data_dir k)"

definition trade_max_money_delta_or_default :: "config option \<Rightarrow> int" where
  "trade_max_money_delta_or_default c = (case c of None \<Rightarrow> 200000 | Some k \<Rightarrow>
     if cf_trade_max_money_delta k \<le> 0 then 200000 else cf_trade_max_money_delta k)"

section \<open>Defaults and validation\<close>

definition def_text :: "string \<Rightarrow> string \<Rightarrow> string" where
  "def_text d s = (if s = '''' then d else s)"

definition def_int :: "int \<Rightarrow> int \<Rightarrow> int" where
  "def_int d n = (if n \<le> 0 then d else n)"

definition def_float :: "f64 \<Rightarrow> f64 \<Rightarrow> f64" where
  "def_float d x = (if fle x (Fin 0) then d else x)"

definition radius_default :: "f64 \<Rightarrow> f64 \<Rightarrow> f64" where
  "radius_default online d = (if \<not> feq online (Fin 220) then online else d)"

definition set_defaults :: "config \<Rightarrow> config" where
  "set_defaults c =
     (let group = def_int 4 (cf_group_max_players c);
          timeout = def_int 30 (cf_session_timeout_sec c);
          online = def_float (Fin 220) (cf_ai_online_radius c);
          enter = def_float (radius_default online (Fin 180)) (cf_ai_enter_radius c);
          leave = def_float (radius_default online (Fin 220)) (cf_ai_leave_radius c)
      in c\<lparr>cf_db_path := def_text ''zone_world.db'' (cf_db_path c),
           cf_log_level := def_text ''info'' (cf_log_level c),
           cf_emission_interval_min := def_int 120 (cf_emission_interval_min c),
           cf_server_name := def_text ''Zone Online'' (cf_server_name c),
           cf_map_name := def_text ''l01_escape'' (cf_map_name c),
           cf_group_max_players := (if 8 < group then 8 else group),
           cf_invite_ttl_sec := def_int 60 (cf_invite_ttl_sec c),
           cf_session_timeout_sec := (if timeout < 5 then 5 else timeout),
           cf_damage_budget_per_s := def_float (Fin 400) (cf_damage_budget_per_s c),
           cf_item_rate_per_s := def_float (Fin 5) (cf_item_rate_per_s c),
           cf_ai_online_radius := online,
           cf_ai_enter_radius := enter,
           cf_ai_leave_radius := (if flt leave enter then enter else leave),
           cf_ai_max_entities := def_int 64 (cf_ai_max_entities c),
           cf_ai_aggro_radius := def_float (Fin 40) (cf_ai_aggro_radius c),
           cf_ai_attack_range := def_float (Fin 2) (cf_ai_attack_range c),
           cf_ai_attack_cooldown_ms := def_int 1500 (cf_ai_attack_cooldown_ms c),
           cf_ai_melee_damage := def_float (Fin 10) (cf_ai_melee_damage c),
           cf_ai_corpse_seconds := def_int 5 (cf_ai_corpse_seconds c),
           cf_ai_patrol_resume_s := def_int 10 (cf_ai_patrol_resume_s c),
           cf_los_data_dir := def_text ''zone_los'' (cf_los_data_dir c),
           cf_world_item_max_per_level := def_int 500 (cf_world_item_max_per_level c),
           cf_trade_max_money_delta := def_int 200000 (cf_trade_max_money_delta c)\<rparr>)"

definition validate :: "config \<Rightarrow> config_error option \<times> config" where
  "validate c0 = (let c = set_defaults c0 in
     (if cf_port c < 1 \<or> 65535 < cf_port c then Some (BadPort (cf_port c))
      else if cf_tick_rate_hz c < 1 \<or> 240 < cf_tick_rate_hz c then Some (BadTickRate (cf_tick_rate_hz c))
      else if cf_max_players c \<le> 0 then Some (BadMaxPlayers (cf_max_players c))
      else None, c))"

section \<open>Lemmas\<close>

lemma def_int_pos: "0 < d \<Longrightarrow> 0 < def_int d n"
  by (simp add: def_int_def)

lemma def_int_idem [simp]: "def_int d (def_int d n) = def_int d n"
  by (simp add: def_int_def)

lemma def_text_idem [simp]: "def_text d (def_text d s) = def_text d s"
  by (simp add: def_text_def)

lemma def_float_idem [simp]: "def_float d (def_float d x) = def_float d x"
  by (simp add: def_float_def)

lemma def_float_pos: "flt (Fin 0) d \<Longrightarrow> is_nan x \<or> flt (Fin 0) (def_float d x)"
  by (cases x) (auto simp: def_float_def)

section \<open>Properties\<close>

text \<open>A configuration that passes Validate is usable: the port, tick rate and player cap are in
  range, the group cap is between one and the eight members the wire format can carry, the
  session timeout is at least five seconds, every counted limit is positive, the leave radius is
  not below the enter radius, and validating it again changes nothing.\<close>

theorem validated_config_in_range:
  assumes "validate c0 = (None, c)"
  shows "1 \<le> cf_port c \<and> cf_port c \<le> 65535 \<and> 1 \<le> cf_tick_rate_hz c \<and> cf_tick_rate_hz c \<le> 240 \<and>
    0 < cf_max_players c \<and> 1 \<le> cf_group_max_players c \<and> cf_group_max_players c \<le> 8 \<and>
    5 \<le> cf_session_timeout_sec c \<and> 0 < cf_invite_ttl_sec c \<and> 0 < cf_world_item_max_per_level c \<and>
    0 < cf_trade_max_money_delta c \<and> 0 < cf_ai_max_entities c \<and> \<not> flt (cf_ai_leave_radius c) (cf_ai_enter_radius c) \<and>
    validate c = (None, c)"
proof -
  from assms have c: "c = set_defaults c0" and r: "1 \<le> cf_port c" "cf_port c \<le> 65535" "1 \<le> cf_tick_rate_hz c"
    "cf_tick_rate_hz c \<le> 240" "0 < cf_max_players c"
    by (auto simp: validate_def Let_def split: if_splits)
  have nr: "\<not> flt x x" for x by (cases x) auto
  have le: "\<not> flt (if flt a b then b else a) b" for a b using nr by simp
  let ?online = "def_float (Fin 220) (cf_ai_online_radius c0)"
  let ?enter = "def_float (radius_default ?online (Fin 180)) (cf_ai_enter_radius c0)"
  let ?leave = "def_float (radius_default ?online (Fin 220)) (cf_ai_leave_radius c0)"
  have onl: "\<not> fle ?online (Fin 0)" by (simp add: def_float_def)
  have e: "\<not> fle ?enter (Fin 0)" "\<not> fle ?leave (Fin 0)"
    using onl by (simp_all add: def_float_def radius_default_def)
  have l: "\<not> fle (if flt ?leave ?enter then ?enter else ?leave) (Fin 0)" using e by simp
  have idem: "set_defaults c = c"
    using e l onl le
    by (simp add: c set_defaults_def Let_def) (auto simp: def_float_def def_int_def)
  show ?thesis
    using r le [of ?leave ?enter] by (simp add: validate_def idem) (simp add: c set_defaults_def Let_def def_int_def)
qed

definition demo_config :: config where
  "demo_config = \<lparr>cf_port = 7777, cf_tick_rate_hz = 30, cf_max_players = 48, cf_db_path = [], cf_log_level = [],
     cf_emission_interval_min = 0, cf_admin_pipe = [], cf_server_name = [], cf_map_name = [], cf_mode = 0,
     cf_locked = False, cf_group_max_players = 20, cf_invite_ttl_sec = 0, cf_session_timeout_sec = 2,
     cf_damage_budget_per_s = Fin 0, cf_item_rate_per_s = Fin 0, cf_ai_enabled = None, cf_ai_online_radius = Fin 0,
     cf_ai_enter_radius = Fin 300, cf_ai_leave_radius = Fin 0, cf_ai_max_entities = 0, cf_ai_combat_enabled = None,
     cf_ai_aggro_radius = Fin 0, cf_ai_attack_range = Fin 0, cf_ai_attack_cooldown_ms = 0, cf_ai_melee_damage = Fin 0,
     cf_ai_corpse_seconds = 0, cf_ai_patrol_resume_s = 0, cf_los_enabled = None, cf_los_data_dir = [],
     cf_world_item_ttl_min = None, cf_world_item_max_per_level = 0, cf_trade_max_money_delta = 0\<rparr>"

theorem validated_config_in_range_witness:
  "cf_group_max_players (snd (validate demo_config)) \<le> 8 \<and> 5 \<le> cf_session_timeout_sec (snd (validate demo_config)) \<and>
   validate (snd (validate demo_config)) = (None, snd (validate demo_config))"
proof -
  have "validate demo_config = (None, snd (validate demo_config))"
    by (simp add: validate_def set_defaults_def demo_config_def Let_def)
  from validated_config_in_range [OF this] show ?thesis by blast
qed

end
