(* ===== verification/Server.thy ===== *)
theory Server
  imports AckQueue Economy PlayerGroups SpatialGrid ServerConfig
begin

text \<open>
  The server's state and its sending side: the \<open>Server\<close> struct of internal/game/server.go as one
  record, \<open>SendToSession\<close>, the inventory, wallet and world-item synchronisation, audit rows
  and the item broadcasts.

  A handler is a function from server to server. What Go reads from outside during one handler is
  the environment: one instant (\<open>time.Now()\<close> is read several times within a handler; the model
  reads one value), the Unicode print table, the visiting order of the grid cells and the text of
  a driver error. The managers that \<open>NewServer\<close> always builds are plain fields; the database and
  the configuration may be \<open>nil\<close> and are options. The stash and economy managers hold the
  same database as the server. \<open>sv_out\<close> logs the packets handed to the socket, in order; the
  bytes of one are \<open>write_packet\<close> of its fields. Logging is left out.
\<close>

record env =
  en_now :: gotime
  en_uprint :: "nat \<Rightarrow> bool"
  en_cell_order :: "grid_key \<Rightarrow> u32 list"
  en_sql_text :: string

record sent =
  snt_to :: udp_addr
  snt_opcode :: u16
  snt_flags :: u8
  snt_seq :: u32
  snt_payload :: payload

record server =
  sv_cfg :: "config option"
  sv_db :: "database option"
  sv_faults :: faults
  sv_heap :: heap
  sv_sessions :: session_manager
  sv_grid :: grid
  sv_ledger :: ledger
  sv_groups :: group_manager
  sv_acks :: ack_queue
  sv_seq :: u32
  sv_online :: bool
  sv_out :: "sent list"

type_synonym handler = "server \<Rightarrow> server"

definition unix :: "env \<Rightarrow> int" where
  "unix env = en_now env div second"

text \<open>The opcodes and result codes the handlers use.\<close>

definition flag_reliable :: u8 where "flag_reliable = 1"
definition op_inventory_sync :: u16 where "op_inventory_sync = 0x76"
definition op_chat_text :: u16 where "op_chat_text = 0x60"
definition op_group_invite_notify :: u16 where "op_group_invite_notify = 0x78"
definition op_group_state :: u16 where "op_group_state = 0x7A"
definition op_item_update :: u16 where "op_item_update = 0x7E"
definition op_container_update :: u16 where "op_container_update = 0x80"
definition op_stash_result :: u16 where "op_stash_result = 0x82"
definition op_trade_result :: u16 where "op_trade_result = 0x84"
definition op_wallet_update :: u16 where "op_wallet_update = 0x85"

definition result_ok :: u8 where "result_ok = 0"
definition result_rejected :: u8 where "result_rejected = 1"
definition result_corrected :: u8 where "result_corrected = 2"

section \<open>Sending\<close>

unbundle bit_operations_syntax

definition send_to_session :: "env \<Rightarrow> u16 \<Rightarrow> u8 \<Rightarrow> payload \<Rightarrow> ptr \<Rightarrow> handler" where
  "send_to_session env opcode flags payload p sv = (case p_addr (sv_heap sv p) of
     None \<Rightarrow> sv
   | Some a \<Rightarrow> if \<not> sv_online sv then sv else
       let seq = sv_seq sv + 1; sv1 = sv\<lparr>sv_seq := seq\<rparr> in
       (case write_packet opcode seq flags payload of
          Inl _ \<Rightarrow> sv1
        | Inr data \<Rightarrow> sv1\<lparr>
            sv_acks := (if flags AND flag_reliable \<noteq> 0 then enqueue (en_now env) seq (Some a) data (sv_acks sv) else sv_acks sv),
            sv_out := sv_out sv @ [\<lparr>snt_to = a, snt_opcode = opcode, snt_flags = flags, snt_seq = seq, snt_payload = payload\<rparr>]\<rparr>))"

definition reply :: "env \<Rightarrow> u16 \<Rightarrow> field list \<Rightarrow> ptr \<Rightarrow> handler" where
  "reply env opcode fs = send_to_session env opcode flag_reliable (PStruct fs)"

definition send_all :: "(ptr \<Rightarrow> handler) \<Rightarrow> ptr list \<Rightarrow> handler" where
  "send_all f ps sv = fold f ps sv"

section \<open>The database\<close>

definition with_db :: "'a tx \<Rightarrow> server \<Rightarrow> (gerr + 'a) \<times> server" where
  "with_db m sv = (case sv_db sv of
     None \<Rightarrow> (Inl ErrDBNotConfigured, sv)
   | Some d \<Rightarrow> (case m d (sv_faults sv) of (r, d', fl') \<Rightarrow> (r, sv\<lparr>sv_db := Some d', sv_faults := fl'\<rparr>)))"

definition audit :: "env \<Rightarrow> string \<Rightarrow> string \<Rightarrow> string \<Rightarrow> handler" where
  "audit env uuid event detail sv = snd (with_db (insert_audit (unix env) uuid event detail) sv)"

text \<open>The texts of audit details: \<open>key=value\<close> pairs, errors by their messages.\<close>

definition kv :: "string \<Rightarrow> string \<Rightarrow> string" where
  "kv k v = k @ ''='' @ v"

fun join_sp :: "string list \<Rightarrow> string" where
  "join_sp [] = ''''"
| "join_sp [s] = s"
| "join_sp (s # t # r) = s @ '' '' @ join_sp (t # r)"

definition utoa :: "'a::len word \<Rightarrow> string" where
  "utoa w = itoa (uint w)"

fun gerr_text :: "env \<Rightarrow> gerr \<Rightarrow> string" where
  "gerr_text env ErrSQL = en_sql_text env"
| "gerr_text env ErrJSON = en_sql_text env"
| "gerr_text env ErrNoRows = ''sql: no rows in result set''"
| "gerr_text env (ErrInsufficientItems _) = ''insufficient items''"
| "gerr_text env ErrWorldItemNotFound = ''world item not found''"
| "gerr_text env ErrWorldItemLimit = ''world item limit reached''"
| "gerr_text env ErrCharacterNotFound = ''character not found''"
| "gerr_text env ErrInsufficientFunds = ''insufficient funds''"
| "gerr_text env ErrNegativePrice = ''price cannot be negative''"
| "gerr_text env ErrDBNotConfigured = ''database not configured''"
| "gerr_text env ErrStashNotFound = ''stash not found''"
| "gerr_text env ErrItemNotFoundStash = ''item not found in stash''"
| "gerr_text env ErrInsufficientCount = ''insufficient item count in stash''"
| "gerr_text env ErrStashAccessDenied = ''stash access denied''"
| "gerr_text env ErrStashWrongLevel = ''player on wrong level for stash''"
| "gerr_text env ErrStashTooFar = ''player too far from stash''"
| "gerr_text env ErrStashWrongPasscode = ''invalid stash passcode''"
| "gerr_text env ErrInvalidStashCount = ''invalid stash count''"
| "gerr_text env ErrInvalidItemCondition = ''invalid item condition''"
| "gerr_text env ErrStashContentsTooLarge = ''stash contents too large''"
| "gerr_text env ErrInvalidFaction = ''invalid faction''"
| "gerr_text env ErrInvalidLoadout = ''invalid loadout''"

section \<open>Inventory synchronisation\<close>

definition fixed_bytes :: "nat \<Rightarrow> string \<Rightarrow> string" where
  "fixed_bytes n s = take n s @ replicate (n - length s) (CHR 0x00)"

definition zero_inv_item :: inv_item where
  "zero_inv_item = \<lparr>ii_section = replicate 64 (CHR 0x00), ii_count = 0, ii_condition = 0, ii_ammo = 0, ii_slot = 0\<rparr>"

definition clamp_int :: "int \<Rightarrow> int \<Rightarrow> int \<Rightarrow> int" where
  "clamp_int lo hi n = (if n < lo then lo else if hi < n then hi else n)"

definition sync_condition :: "f32 \<Rightarrow> u8" where
  "sync_condition c = (let x = mul64 c (Fin 100); x = (if flt x (Fin 0) then Fin 0 else x);
       x = (if flt (Fin 100) x then Fin 100 else x) in word_of_int \<lfloor>fval (fround x)\<rfloor>)"

definition sync_entry :: "inv_row \<Rightarrow> inv_item" where
  "sync_entry r = \<lparr>ii_section = fixed_bytes 64 (r_section r), ii_count = word_of_int (clamp_int 1 65535 (r_count r)),
     ii_condition = sync_condition (f32_of (r_condition r)), ii_ammo = word_of_int (clamp_int 0 65535 (r_ammo r)),
     ii_slot = word_of_int (clamp_int (- 128) 127 (r_slot r))\<rparr>"

definition sync_payload :: "inv_row list \<Rightarrow> payload" where
  "sync_payload rs = PInventory \<lparr>is_count = word_of_nat (length rs),
     is_items = map sync_entry rs @ replicate (16 - length rs) zero_inv_item\<rparr>"

fun sync_chunks :: "inv_row list \<Rightarrow> inv_row list list" where
  "sync_chunks [] = []"
| "sync_chunks (r # rs) = take 16 (r # rs) # sync_chunks (drop 15 rs)"

definition send_inventory_sync :: "env \<Rightarrow> ptr \<Rightarrow> server \<Rightarrow> bool \<times> server" where
  "send_inventory_sync env p sv = (let uuid = p_account (sv_heap sv p) in
     if sv_db sv = None \<or> uuid = '''' then (False, sv)
     else (case with_db (get_character_inventory uuid) sv of
        (Inl _, sv1) \<Rightarrow> (False, sv1)
      | (Inr rows, sv1) \<Rightarrow>
          (True, if rows = [] then send_to_session env op_inventory_sync flag_reliable (sync_payload []) p sv1
                 else fold (\<lambda>c. send_to_session env op_inventory_sync flag_reliable (sync_payload c) p) (sync_chunks rows) sv1)))"

definition upd_session :: "ptr \<Rightarrow> (player_session \<Rightarrow> player_session) \<Rightarrow> handler" where
  "upd_session p f sv = sv\<lparr>sv_heap := (sv_heap sv)(p := f (sv_heap sv p))\<rparr>"

definition sync_inventory_for_level :: "env \<Rightarrow> ptr \<Rightarrow> handler" where
  "sync_inventory_for_level env p sv =
     (let s = sv_heap sv p; level = (if p_level s = '''' then ''l01_escape'' else p_level s) in
      if p_inv_synced_level s = level then sv
      else (case send_inventory_sync env p sv of
         (ok, sv1) \<Rightarrow> if ok then upd_session p (\<lambda>s. s\<lparr>p_inv_synced_level := level\<rparr>) sv1 else sv1))"

definition force_inventory_sync :: "env \<Rightarrow> ptr \<Rightarrow> handler" where
  "force_inventory_sync env p sv =
     sync_inventory_for_level env p (upd_session p (\<lambda>s. s\<lparr>p_inv_synced_level := ''''\<rparr>) sv)"

definition send_wallet_update :: "env \<Rightarrow> ptr \<Rightarrow> handler" where
  "send_wallet_update env p sv = (let uuid = p_account (sv_heap sv p) in
     if sv_db sv = None \<or> uuid = '''' then sv
     else (case with_db (get_balance True uuid) sv of
        (Inl _, sv1) \<Rightarrow> sv1
      | (Inr balance, sv1) \<Rightarrow> reply env op_wallet_update [U32 (word_of_int (clamp_int 0 (2 ^ 32 - 1) balance))] p sv1))"

section \<open>Configured limits\<close>

definition world_item_max_per_level :: "server \<Rightarrow> int" where
  "world_item_max_per_level sv = (case sv_cfg sv of None \<Rightarrow> 500 | Some c \<Rightarrow>
     if cf_world_item_max_per_level c \<le> 0 then 500 else cf_world_item_max_per_level c)"

definition world_item_ttl :: "server \<Rightarrow> duration" where
  "world_item_ttl sv = (case sv_cfg sv of None \<Rightarrow> 60 * (60 * second) | Some c \<Rightarrow>
     let minutes = world_item_ttl_minutes (Some c) in if minutes \<le> 0 then 0 else wrap64 (minutes * (60 * second)))"

definition session_timeout :: "server \<Rightarrow> duration" where
  "session_timeout sv = (let sec = (case sv_cfg sv of None \<Rightarrow> 30 | Some c \<Rightarrow>
       if 0 < cf_session_timeout_sec c
       then if cf_session_timeout_sec c < 5 then 5 else cf_session_timeout_sec c else 30)
     in wrap64 (sec * second))"

section \<open>World items\<close>

definition aoi_radius :: f32 where
  "aoi_radius = Fin 220"

definition world_item_update :: "u8 \<Rightarrow> i16 \<Rightarrow> u32 \<Rightarrow> world_item \<Rightarrow> item_update" where
  "world_item_update action count action_id w = \<lparr>iu_action_id = action_id, iu_result = result_ok, iu_action = action,
     iu_item_id = word_of_int (w_id w), iu_count = count, iu_section = copy_nul_term 64 (w_section w),
     iu_x = w_x w, iu_y = w_y w, iu_z = w_z w, iu_condition = condition_to_wire (w_condition w)\<rparr>"

definition send_item_update :: "env \<Rightarrow> item_update \<Rightarrow> ptr \<Rightarrow> handler" where
  "send_item_update env u = reply env op_item_update (item_update_fields u)"

definition send_world_items_in_aoi :: "env \<Rightarrow> ptr \<Rightarrow> handler" where
  "send_world_items_in_aoi env p sv = (let s = sv_heap sv p in
     if sv_db sv = None \<or> p_account s = '''' \<or> p_level s = '''' then sv
     else (case with_db (get_world_items_by_level (p_level s)) sv of
        (Inl _, sv1) \<Rightarrow> sv1
      | (Inr items, sv1) \<Rightarrow> fold (\<lambda>w sv. if flt aoi_radius (dist3 (w_x w, w_y w, w_z w) (p_pos s)) then sv
            else send_item_update env (world_item_update 1 (clamp_count_to_int16 (w_count w)) 0 w) p sv) items sv1))"

definition broadcast_world_item_removal :: "env \<Rightarrow> world_item \<Rightarrow> handler" where
  "broadcast_world_item_removal env w sv =
     send_all (send_item_update env (world_item_update 2 0 0 w))
       (filter (\<lambda>p. p_level (sv_heap sv p) = w_level w) (get_all (sv_sessions sv))) sv"

definition sweep_world_items :: "env \<Rightarrow> duration \<Rightarrow> handler" where
  "sweep_world_items env ttl sv = (if sv_db sv = None \<or> ttl \<le> 0 then sv
     else (case with_db (delete_world_items_older_than ((en_now env - ttl) div second)) sv of
        (Inl _, sv1) \<Rightarrow> sv1
      | (Inr expired, sv1) \<Rightarrow> fold (broadcast_world_item_removal env) expired sv1))"

text \<open>\<open>broadcastItemUpdate\<close>: to the actor, then to the sessions of the level in range, by a scan
  while the actor is not in the grid and by the grid index otherwise.\<close>

definition scan_targets :: "ptr \<Rightarrow> string \<Rightarrow> f32 \<Rightarrow> f32 \<Rightarrow> server \<Rightarrow> ptr list" where
  "scan_targets sender level x z sv = filter (\<lambda>q. let s = sv_heap sv q in
       p_id s \<noteq> p_id (sv_heap sv sender) \<and> p_level s = level \<and>
       (let dx = sub32 (fst (p_pos s)) x; dz = sub32 (snd (snd (p_pos s))) z
        in fle (add32 (mul32 dx dx) (mul32 dz dz)) (mul32 aoi_radius aoi_radius)))
     (get_all (sv_sessions sv))"

definition grid_targets :: "env \<Rightarrow> ptr \<Rightarrow> string \<Rightarrow> f32 \<Rightarrow> f32 \<Rightarrow> server \<Rightarrow> ptr list" where
  "grid_targets env sender level x z sv =
     filter (\<lambda>q. p_level (sv_heap sv q) = level)
       (List.map_filter (\<lambda>i. if i = p_id (sv_heap sv sender) then None else get_by_id i (sv_sessions sv))
          (get_neighbors (en_cell_order env) (sv_grid sv) x z aoi_radius))"

definition broadcast_item_update :: "env \<Rightarrow> ptr \<Rightarrow> string \<Rightarrow> f32 \<Rightarrow> f32 \<Rightarrow> item_update \<Rightarrow> handler" where
  "broadcast_item_update env sender level x z u sv =
     (let sv1 = send_item_update env u sender sv in
      send_all (send_item_update env u)
        (if \<not> grid_contains (p_id (sv_heap sv sender)) (sv_grid sv)
         then scan_targets sender level x z sv1 else grid_targets env sender level x z sv1) sv1)"

section \<open>What handlers do to the tables\<close>

text \<open>
  A relation on the tables that every transaction keeps, and that an audit row keeps, holds
  between the tables before and after a handler built from those transactions: \<open>moves\<close> lifts
  the relation to servers, and its rules follow the shape of the handlers (one for sending, one
  for a transaction and its two branches, one for each synchronisation).
\<close>

lemma send_to_session_frame [simp]:
  "sv_db (send_to_session env oc fl pl p sv) = sv_db sv"
  "sv_heap (send_to_session env oc fl pl p sv) = sv_heap sv"
  "sv_sessions (send_to_session env oc fl pl p sv) = sv_sessions sv"
  "sv_ledger (send_to_session env oc fl pl p sv) = sv_ledger sv"
  "sv_groups (send_to_session env oc fl pl p sv) = sv_groups sv"
  "sv_grid (send_to_session env oc fl pl p sv) = sv_grid sv"
  "sv_cfg (send_to_session env oc fl pl p sv) = sv_cfg sv"
  by (simp_all add: send_to_session_def Let_def split: option.split sum.split)

lemma reply_frame [simp]:
  "sv_db (reply env oc fs p sv) = sv_db sv" "sv_heap (reply env oc fs p sv) = sv_heap sv"
  "sv_sessions (reply env oc fs p sv) = sv_sessions sv" "sv_ledger (reply env oc fs p sv) = sv_ledger sv"
  "sv_groups (reply env oc fs p sv) = sv_groups sv" "sv_cfg (reply env oc fs p sv) = sv_cfg sv"
  by (simp_all add: reply_def)

lemma send_item_update_frame [simp]:
  "sv_db (send_item_update env u p sv) = sv_db sv" "sv_heap (send_item_update env u p sv) = sv_heap sv"
  "sv_sessions (send_item_update env u p sv) = sv_sessions sv" "sv_ledger (send_item_update env u p sv) = sv_ledger sv"
  by (simp_all add: send_item_update_def)

lemma fold_frame: "(\<And>x sv. f (g x sv) = f sv) \<Longrightarrow> f (fold g xs sv) = f sv"
  by (induction xs arbitrary: sv) simp_all

lemma send_all_frame [simp]:
  "sv_db (send_all (send_item_update env u) ps sv) = sv_db sv"
  "sv_heap (send_all (send_item_update env u) ps sv) = sv_heap sv"
  "sv_sessions (send_all (send_item_update env u) ps sv) = sv_sessions sv"
  "sv_ledger (send_all (send_item_update env u) ps sv) = sv_ledger sv"
  by (simp_all add: send_all_def fold_frame)

lemma broadcast_item_update_frame [simp]:
  "sv_db (broadcast_item_update env p l x z u sv) = sv_db sv"
  "sv_heap (broadcast_item_update env p l x z u sv) = sv_heap sv"
  "sv_sessions (broadcast_item_update env p l x z u sv) = sv_sessions sv"
  "sv_ledger (broadcast_item_update env p l x z u sv) = sv_ledger sv"
  by (simp_all add: broadcast_item_update_def Let_def)

lemma upd_session_frame [simp]:
  "sv_db (upd_session p f sv) = sv_db sv" "sv_sessions (upd_session p f sv) = sv_sessions sv"
  "sv_ledger (upd_session p f sv) = sv_ledger sv"
  by (simp_all add: upd_session_def)

lemma with_db_frame:
  assumes "with_db m sv = (r, sv')"
  shows "sv_heap sv' = sv_heap sv" "sv_sessions sv' = sv_sessions sv" "sv_ledger sv' = sv_ledger sv"
    "sv_cfg sv' = sv_cfg sv" "sv_acks sv' = sv_acks sv" "sv_out sv' = sv_out sv"
  using assms by (auto simp: with_db_def split: option.splits prod.splits)

locale quiet_rel = tx_rel +
  assumes R_audit: "R d (d\<lparr>d_audit := x\<rparr>)"
begin

definition moves :: "server \<Rightarrow> server \<Rightarrow> bool" where
  "moves sv sv' \<longleftrightarrow> rel_option R (sv_db sv) (sv_db sv')"

lemma moves_refl: "moves sv sv"
  by (cases "sv_db sv") (simp_all add: moves_def R_refl)

lemma moves_trans: "moves a b \<Longrightarrow> moves b c \<Longrightarrow> moves a c"
  unfolding moves_def by (auto simp: option_rel_Some1 option_rel_Some2 elim!: option.rel_cases intro: R_trans)

lemma moves_same: "sv_db y = sv_db x \<Longrightarrow> moves a x \<Longrightarrow> moves a y"
  by (simp add: moves_def)

lemma moves_db: "keeps m \<Longrightarrow> moves a b \<Longrightarrow> moves a (snd (with_db m b))"
proof -
  assume m: "keeps m" "moves a b"
  have "moves b (snd (with_db m b))"
    using m(1) unfolding keeps_def moves_def
    by (auto simp: with_db_def split: option.split prod.split) (metis fst_conv snd_conv)
  with m(2) show ?thesis by (rule moves_trans)
qed

lemma moves_case:
  assumes "keeps m" "moves a b" "\<And>e sv. moves a sv \<Longrightarrow> moves a (F e sv)" "\<And>x sv. moves a sv \<Longrightarrow> moves a (G x sv)"
  shows "moves a (case with_db m b of (r, sv) \<Rightarrow> (case r of Inl e \<Rightarrow> F e sv | Inr x \<Rightarrow> G x sv))"
  using moves_db [OF assms(1,2)] assms(3,4) by (auto split: prod.split sum.split)

lemma moves_if: "(P \<Longrightarrow> moves a x) \<Longrightarrow> (\<not> P \<Longrightarrow> moves a y) \<Longrightarrow> moves a (if P then x else y)"
  by simp

lemma moves_prod: "(\<And>x y. moves a (f x y)) \<Longrightarrow> moves a (case z of (x, y) \<Rightarrow> f x y)"
  by (cases z) simp

lemma moves_opt: "moves a x \<Longrightarrow> (\<And>v. z = Some v \<Longrightarrow> moves a (f v)) \<Longrightarrow> moves a (case z of None \<Rightarrow> x | Some v \<Rightarrow> f v)"
  by (cases z) simp_all

lemma moves_fold: "(\<And>x sv. moves a sv \<Longrightarrow> moves a (g x sv)) \<Longrightarrow> moves a b \<Longrightarrow> moves a (fold g xs b)"
  by (induction xs arbitrary: b) simp_all

lemma moves_audit: "moves a b \<Longrightarrow> moves a (audit env u e t b)"
proof -
  have "keeps (insert_audit n u e t)" for n
    unfolding insert_audit_def by (rule keeps_exec) (rule R_audit)
  then show "moves a b \<Longrightarrow> ?thesis" unfolding audit_def by (intro moves_db)
qed

lemma moves_inventory_sync: "moves a b \<Longrightarrow> moves a (snd (send_inventory_sync env p b))"
proof -
  assume b: "moves a b"
  have k: "keeps (get_character_inventory u)" for u unfolding get_character_inventory_def by (rule keeps_query)
  have "moves a (snd (with_db (get_character_inventory (p_account (sv_heap b p))) b))" using k b by (rule moves_db)
  with b show ?thesis
    unfolding send_inventory_sync_def Let_def
    by (auto split: prod.split sum.split intro!: moves_fold intro: moves_same)
qed

lemma moves_force_sync: "moves a b \<Longrightarrow> moves a (force_inventory_sync env p b)"
proof -
  assume b: "moves a b"
  let ?b = "upd_session p (\<lambda>s. s\<lparr>p_inv_synced_level := ''''\<rparr>) b"
  have "moves a ?b" using b by (rule moves_same [rotated]) simp
  then show ?thesis
    using moves_inventory_sync [of a ?b env p]
    unfolding force_inventory_sync_def sync_inventory_for_level_def Let_def
    by (auto split: prod.split intro: moves_same [of "upd_session _ _ _"])
qed

lemma moves_wallet: "moves a b \<Longrightarrow> moves a (send_wallet_update env p b)"
proof -
  assume b: "moves a b"
  have "keeps (get_balance c u)" for c u
    unfolding get_balance_def select_rubles_def
    by (auto intro!: keeps_fail keeps_bind keeps_query keeps_ret split: option.split)
  then have "moves a (snd (with_db (get_balance True (p_account (sv_heap b p))) b))" using b by (rule moves_db)
  with b show ?thesis
    unfolding send_wallet_update_def Let_def
    by (auto split: prod.split sum.split intro: moves_same)
qed

lemmas moves_sends = moves_same [OF send_to_session_frame(1)] moves_same [OF reply_frame(1)]
  moves_same [OF send_item_update_frame(1)] moves_same [OF broadcast_item_update_frame(1)] moves_same [OF upd_session_frame(1)]

lemmas moves_rules = moves_sends moves_audit moves_force_sync moves_wallet moves_if moves_prod moves_opt

end

section \<open>A server to evaluate\<close>

definition demo_env :: "int \<Rightarrow> env" where
  "demo_env t = \<lparr>en_now = t * second, en_uprint = (\<lambda>_. False), en_cell_order = (\<lambda>_. []), en_sql_text = ''disk I/O error''\<rparr>"

text \<open>One player, account \<open>u1\<close>, session 1, at 10.0.0.1:4000.\<close>

definition demo_endpoint :: udp_addr where
  "demo_endpoint = \<lparr>ip = [10, 0, 0, 1], port = 4000, zone = ''''\<rparr>"

definition demo_server :: "database \<Rightarrow> server" where
  "demo_server d = \<lparr>sv_cfg = None, sv_db = Some d, sv_faults = [], sv_heap = demo_heap,
     sv_sessions = add_session demo_heap [1] 0 new_session_manager, sv_grid = new_grid 64, sv_ledger = new_ledger (Fin 5),
     sv_groups = new_group_manager 8 (120 * second), sv_acks = new_ack_queue [], sv_seq = 0, sv_online = True, sv_out = []\<rparr>"

lemma demo_lookup: "get_by_addr (addr_string demo_endpoint) (sv_sessions (demo_server d)) = Some 0"
  by (simp add: demo_server_def demo_endpoint_def get_by_addr_def add_session_def new_session_manager_def
      demo_heap_fields update_cache_def put_addr_def)

lemma demo_server_fields:
  "sv_db (demo_server d) = Some d" "sv_faults (demo_server d) = []" "sv_heap (demo_server d) = demo_heap"
  "sv_ledger (demo_server d) = new_ledger (Fin 5)" "sv_cfg (demo_server d) = None"
  by (simp_all add: demo_server_def)

end
