(* ===== verification/ItemHandlers.thy ===== *)
theory ItemHandlers
  imports Server
begin

text \<open>
  The item, container, stash and trade handlers: \<open>handleItemAction\<close> and its helpers of
  internal/game/item_ledger.go, container_ledger.go and stash_trade_ledger.go, whole: decoding,
  the shared ledger's replay, staleness and rate checks, validation, the transaction, the reply,
  the broadcast and the audit row.
\<close>

section \<open>Shared steps\<close>

definition record_ledger :: "(ledger \<Rightarrow> ledger) \<Rightarrow> handler" where
  "record_ledger f sv = sv\<lparr>sv_ledger := f (sv_ledger sv)\<rparr>"

definition take_budget :: "env \<Rightarrow> u32 \<Rightarrow> server \<Rightarrow> bool \<times> server" where
  "take_budget env sid sv = (case allow_action sid (en_now env) (sv_ledger sv) of (ok, l) \<Rightarrow> (ok, sv\<lparr>sv_ledger := l\<rparr>))"

definition audit_kv :: "env \<Rightarrow> string \<Rightarrow> string \<Rightarrow> (string \<times> string) list \<Rightarrow> handler" where
  "audit_kv env uuid event pairs = audit env uuid event (join_sp (map (\<lambda>(k, v). kv k v) pairs))"

fun insufficient :: "gerr \<Rightarrow> bool" where
  "insufficient (ErrInsufficientItems _) = True"
| "insufficient _ = False"

fun held_of :: "gerr \<Rightarrow> int" where
  "held_of (ErrInsufficientItems n) = n"
| "held_of _ = 0"

section \<open>Item actions\<close>

definition item_result :: "item_action \<Rightarrow> u8 \<Rightarrow> item_update" where
  "item_result pkt result = zero_item_update\<lparr>iu_action_id := ia_action_id pkt, iu_result := result,
     iu_action := ia_action pkt, iu_section := ia_section pkt\<rparr>"

definition reject_item :: "env \<Rightarrow> ptr \<Rightarrow> item_action \<Rightarrow> handler" where
  "reject_item env p pkt = send_item_update env (item_result pkt result_rejected) p"

definition record_reply :: "env \<Rightarrow> ptr \<Rightarrow> item_update \<Rightarrow> handler" where
  "record_reply env p u sv = send_item_update env u p
     (record_ledger (record_item (p_id (sv_heap sv p)) (iu_action_id u) u) sv)"

definition drop_update :: "item_action \<Rightarrow> string \<Rightarrow> f32 \<times> f32 \<times> f32 \<Rightarrow> int \<Rightarrow> f32 \<Rightarrow> item_update" where
  "drop_update pkt section pos new_id cond = \<lparr>iu_action_id = ia_action_id pkt, iu_result = result_ok, iu_action = 1,
     iu_item_id = word_of_int new_id, iu_count = clamp_count_to_int16 (- uint (ia_count pkt)),
     iu_section = copy_nul_term 64 section, iu_x = fst pos, iu_y = fst (snd pos), iu_z = snd (snd pos),
     iu_condition = condition_to_wire cond\<rparr>"

definition handle_item_drop :: "env \<Rightarrow> ptr \<Rightarrow> string \<Rightarrow> string \<Rightarrow> string \<Rightarrow> item_action \<Rightarrow> handler" where
  "handle_item_drop env p uuid level section pkt sv =
     (if ia_count pkt = 0 then force_inventory_sync env p (reject_item env p pkt sv)
      else
        let pos = (clamp_item_coord (ia_x pkt), clamp_item_coord (ia_y pkt), clamp_item_coord (ia_z pkt));
            pb = min (uint (ia_condition pkt)) 100
        in case with_db (drop_item_to_world uuid level section (uint (ia_count pkt)) pos pb
                (world_item_max_per_level sv) (unix env)) sv of
          (Inl e, sv1) \<Rightarrow>
            let u = (if insufficient e
                     then (item_result pkt result_corrected)\<lparr>iu_count := clamp_count_to_int16 (- held_of e)\<rparr>
                     else item_result pkt result_rejected);
                sv2 = record_reply env p u sv1;
                sv3 = (if insufficient e then sv2 else force_inventory_sync env p sv2)
            in audit_kv env uuid ''item_drop_rejected'' [(''action_id'', utoa (ia_action_id pkt)), (''section'', section),
                 (''count'', utoa (ia_count pkt)), (''err'', gerr_text env e)] sv3
        | (Inr (new_id, _, cond), sv1) \<Rightarrow>
            let u = drop_update pkt section pos new_id cond;
                sv2 = record_ledger (record_item (p_id (sv_heap sv1 p)) (ia_action_id pkt) u) sv1;
                sv3 = broadcast_item_update env p level (fst pos) (snd (snd pos)) u sv2
            in audit_kv env uuid ''item_drop'' [(''action_id'', utoa (ia_action_id pkt)), (''section'', section),
                 (''count'', utoa (ia_count pkt)), (''world_item'', itoa new_id)] sv3)"

definition rejected_item_pickup :: "env \<Rightarrow> ptr \<Rightarrow> string \<Rightarrow> item_action \<Rightarrow> string \<Rightarrow> handler" where
  "rejected_item_pickup env p uuid pkt cause sv =
     audit_kv env uuid ''item_pickup_rejected'' [(''action_id'', utoa (ia_action_id pkt)),
         (''world_item'', utoa (ia_item_id pkt)), (''err'', cause)]
       (force_inventory_sync env p (record_reply env p (item_result pkt result_rejected) sv))"

definition pickup_range :: f64 where
  "pickup_range = Fin 3"

definition handle_item_pickup :: "env \<Rightarrow> ptr \<Rightarrow> string \<Rightarrow> string \<Rightarrow> f32 \<times> f32 \<times> f32 \<Rightarrow> item_action \<Rightarrow> handler" where
  "handle_item_pickup env p uuid level player_pos pkt sv =
     (if ia_item_id pkt = 0 then reject_item env p pkt sv
      else case with_db (get_world_item (uint (ia_item_id pkt))) sv of
        (Inl e, sv1) \<Rightarrow> rejected_item_pickup env p uuid pkt (gerr_text env e) sv1
      | (Inr wi, sv1) \<Rightarrow>
          if w_level wi \<noteq> level
          then rejected_item_pickup env p uuid pkt
                 (''level mismatch: item='' @ w_level wi @ '' picker='' @ level) sv1
          else if flt pickup_range (dist3 (w_x wi, w_y wi, w_z wi) player_pos)
          then rejected_item_pickup env p uuid pkt ''out of pickup range'' sv1
          else (case with_db (pickup_world_item uuid (uint (ia_item_id pkt))) sv1 of
            (Inl e, sv2) \<Rightarrow> rejected_item_pickup env p uuid pkt (gerr_text env e) sv2
          | (Inr w, sv2) \<Rightarrow>
              let u = world_item_update 2 (clamp_count_to_int16 (w_count w)) (ia_action_id pkt) w;
                  sv3 = record_ledger (record_item (p_id (sv_heap sv2 p)) (ia_action_id pkt) u) sv2;
                  sv4 = broadcast_item_update env p level (w_x w) (w_z w) u sv3
              in audit_kv env uuid ''item_pickup'' [(''action_id'', utoa (ia_action_id pkt)), (''section'', w_section w),
                   (''count'', itoa (w_count w)), (''world_item'', itoa (w_id w))] sv4))"

text \<open>The correction of a rejected consume or deposit: the number the character really holds, when
  that query succeeds.\<close>

definition correction :: "string \<Rightarrow> string \<Rightarrow> server \<Rightarrow> i16 \<times> server" where
  "correction uuid section sv = (case with_db (available_item_count uuid section) sv of
     (Inl _, sv1) \<Rightarrow> (0, sv1) | (Inr n, sv1) \<Rightarrow> (clamp_count_to_int16 (- n), sv1))"

definition handle_item_consume :: "env \<Rightarrow> ptr \<Rightarrow> string \<Rightarrow> string \<Rightarrow> item_action \<Rightarrow> handler" where
  "handle_item_consume env p uuid section pkt sv =
     (if ia_count pkt = 0
      then force_inventory_sync env p (record_reply env p (item_result pkt result_rejected) sv)
      else case with_db (consume_item uuid section (uint (ia_count pkt))) sv of
        (Inl e, sv1) \<Rightarrow>
          let (u, sv2) = (if insufficient e then case correction uuid section sv1 of
                  (n, sv2) \<Rightarrow> ((item_result pkt result_corrected)\<lparr>iu_count := n\<rparr>, sv2)
                else (item_result pkt result_rejected, sv1));
              sv3 = record_reply env p u sv2;
              sv4 = (if insufficient e then sv3 else force_inventory_sync env p sv3)
          in audit_kv env uuid ''item_consume_rejected'' [(''action_id'', utoa (ia_action_id pkt)), (''section'', section),
               (''count'', utoa (ia_count pkt)), (''err'', gerr_text env e)] sv4
      | (Inr _, sv1) \<Rightarrow>
          let u = (item_result pkt result_ok)\<lparr>iu_count := clamp_count_to_int16 (- uint (ia_count pkt)),
                     iu_condition := ia_condition pkt\<rparr>
          in audit_kv env uuid ''item_consume'' [(''action_id'', utoa (ia_action_id pkt)), (''section'', section),
               (''count'', utoa (ia_count pkt))] (record_reply env p u sv1))"

definition apply_item_action :: "env \<Rightarrow> ptr \<Rightarrow> item_action \<Rightarrow> handler" where
  "apply_item_action env p pkt sv =
     (let s = sv_heap sv p; section = null_term_string (ia_section pkt) in
      if p_account s = '''' \<or> sv_db sv = None then reject_item env p pkt sv
      else if \<not> valid_item_section (en_uprint env) section
        then force_inventory_sync env p (reject_item env p pkt sv)
      else if ia_action pkt = 1 then handle_item_drop env p (p_account s) (p_level s) section pkt sv
      else if ia_action pkt = 3 then handle_item_consume env p (p_account s) section pkt sv
      else handle_item_pickup env p (p_account s) (p_level s) (p_pos s) pkt sv)"

definition item_action_packet :: "env \<Rightarrow> ptr \<Rightarrow> item_action \<Rightarrow> handler" where
  "item_action_packet env p pkt sv = (let sid = p_id (sv_heap sv p) in
     if ia_action pkt \<noteq> 1 \<and> ia_action pkt \<noteq> 2 \<and> ia_action pkt \<noteq> 3 then reject_item env p pkt sv
     else case lookup_item sid (ia_action_id pkt) (sv_ledger sv) of
       Some cached \<Rightarrow> send_item_update env cached p sv
     | None \<Rightarrow>
         if is_stale sid (ia_action_id pkt) (sv_ledger sv)
         then force_inventory_sync env p (reject_item env p pkt sv)
         else (case take_budget env sid sv of (ok, sv1) \<Rightarrow>
           if \<not> ok then reject_item env p pkt sv1 else apply_item_action env p pkt sv1))"

definition handle_item_action :: "env \<Rightarrow> udp_addr \<Rightarrow> bytes \<Rightarrow> handler" where
  "handle_item_action env addr buf sv = (case read_item_action buf of
     None \<Rightarrow> sv
   | Some (pkt, _) \<Rightarrow> (case get_by_addr (addr_string addr) (sv_sessions sv) of
       None \<Rightarrow> sv
     | Some p \<Rightarrow> item_action_packet env p pkt sv))"

section \<open>Container actions\<close>

definition container_result :: "container_action \<Rightarrow> u8 \<Rightarrow> i16 \<Rightarrow> container_update" where
  "container_result pkt result count = \<lparr>cu_action_id = ca_action_id pkt, cu_result = result, cu_action = ca_action pkt,
     cu_container_id = ca_container_id pkt, cu_count = count, cu_section = ca_section pkt, cu_condition = ca_condition pkt\<rparr>"

definition reply_container :: "env \<Rightarrow> container_update \<Rightarrow> ptr \<Rightarrow> handler" where
  "reply_container env u = reply env op_container_update (container_update_fields u)"

definition record_reply_container :: "env \<Rightarrow> ptr \<Rightarrow> container_update \<Rightarrow> handler" where
  "record_reply_container env p u sv = reply_container env u p
     (record_ledger (record_container (p_id (sv_heap sv p)) (cu_action_id u) u) sv)"

definition reject_container :: "env \<Rightarrow> ptr \<Rightarrow> container_action \<Rightarrow> handler" where
  "reject_container env p pkt = record_reply_container env p (container_result pkt result_rejected 0)"

definition container_detail :: "container_action \<Rightarrow> string \<Rightarrow> (string \<times> string) list" where
  "container_detail pkt section = [(''action_id'', utoa (ca_action_id pkt)), (''container'', utoa (ca_container_id pkt)),
     (''section'', section), (''count'', utoa (ca_count pkt))]"

definition container_deposit :: "env \<Rightarrow> ptr \<Rightarrow> string \<Rightarrow> string \<Rightarrow> string \<Rightarrow> container_action \<Rightarrow> handler" where
  "container_deposit env p uuid level section pkt sv =
     (case with_db (deposit_item True (ca_container_id pkt) uuid level section (uint (ca_count pkt))
             (uint (ca_condition pkt)) (unix env)) sv of
        (Inl e, sv1) \<Rightarrow>
          let (u, sv2) = (if insufficient e then case correction uuid section sv1 of
                  (n, sv2) \<Rightarrow> (container_result pkt result_corrected n, sv2)
                else (container_result pkt result_rejected 0, sv1));
              sv3 = record_reply_container env p u sv2;
              sv4 = (if insufficient e then sv3 else force_inventory_sync env p sv3)
          in audit_kv env uuid ''item_deposit_rejected'' (container_detail pkt section @ [(''err'', gerr_text env e)]) sv4
      | (Inr bucket, sv1) \<Rightarrow>
          audit_kv env uuid ''item_deposit'' (container_detail pkt section)
            (record_reply_container env p ((container_result pkt result_ok
               (clamp_count_to_int16 (- uint (ca_count pkt))))\<lparr>cu_condition := bucket\<rparr>) sv1))"

definition container_withdraw :: "env \<Rightarrow> ptr \<Rightarrow> string \<Rightarrow> string \<Rightarrow> string \<Rightarrow> container_action \<Rightarrow> handler" where
  "container_withdraw env p uuid level section pkt sv =
     (case with_db (withdraw_item True (ca_container_id pkt) uuid level section (uint (ca_count pkt))
             (uint (ca_condition pkt)) (unix env)) sv of
        (Inl e, sv1) \<Rightarrow> reject_container env p pkt
          (audit_kv env uuid ''item_withdraw_rejected'' (container_detail pkt section @ [(''err'', gerr_text env e)]) sv1)
      | (Inr bucket, sv1) \<Rightarrow>
          audit_kv env uuid ''item_withdraw'' (container_detail pkt section)
            (record_reply_container env p ((container_result pkt result_ok
               (clamp_count_to_int16 (uint (ca_count pkt))))\<lparr>cu_condition := bucket\<rparr>) sv1))"

definition apply_container_action :: "env \<Rightarrow> ptr \<Rightarrow> container_action \<Rightarrow> handler" where
  "apply_container_action env p pkt sv =
     (let s = sv_heap sv p; uuid = p_account s; level = p_level s; section = null_term_string (ca_section pkt) in
      if uuid = '''' \<or> sv_db sv = None then reject_container env p pkt sv
      else if \<not> valid_item_section (en_uprint env) section then reject_container env p pkt sv
      else if ca_count pkt = 0 then reject_container env p pkt sv
      else case with_db (db_get_stash (ca_container_id pkt)) sv of
        (Inl _, sv1) \<Rightarrow> reject_container env p pkt
          (audit_kv env uuid ''item_container_rejected'' (container_detail pkt section @ [(''err'', ''stash not found'')]) sv1)
      | (Inr rec, sv1) \<Rightarrow> (case validate_access (Some rec) (p_pos s) level '''' uuid of
          Some e \<Rightarrow> reject_container env p pkt
            (audit_kv env uuid ''item_container_rejected'' (container_detail pkt section @ [(''err'', gerr_text env e)]) sv1)
        | None \<Rightarrow> if ca_action pkt = 1 then container_deposit env p uuid level section pkt sv1
                  else container_withdraw env p uuid level section pkt sv1))"

definition container_action_packet :: "env \<Rightarrow> ptr \<Rightarrow> container_action \<Rightarrow> handler" where
  "container_action_packet env p pkt sv = (let sid = p_id (sv_heap sv p) in
     if ca_action pkt \<noteq> 1 \<and> ca_action pkt \<noteq> 2 then reject_container env p pkt sv
     else case lookup_container sid (ca_action_id pkt) (sv_ledger sv) of
       Some cached \<Rightarrow> reply_container env cached p sv
     | None \<Rightarrow>
         if is_stale sid (ca_action_id pkt) (sv_ledger sv) then reject_container env p pkt sv
         else (case take_budget env sid sv of (ok, sv1) \<Rightarrow>
           if \<not> ok then reject_container env p pkt sv1 else apply_container_action env p pkt sv1))"

definition handle_container_action :: "env \<Rightarrow> udp_addr \<Rightarrow> bytes \<Rightarrow> handler" where
  "handle_container_action env addr buf sv = (case read_container_action buf of
     None \<Rightarrow> sv
   | Some (pkt, _) \<Rightarrow> (case get_by_addr (addr_string addr) (sv_sessions sv) of
       None \<Rightarrow> sv
     | Some p \<Rightarrow> container_action_packet env p pkt sv))"

section \<open>Stash actions\<close>

definition stash_reply :: "stash_action \<Rightarrow> u8 \<Rightarrow> i16 \<Rightarrow> u8 \<Rightarrow> stash_result" where
  "stash_reply pkt result count cond = \<lparr>st_action_id = sa_action_id pkt, st_result = result, st_action = sa_action pkt,
     st_count = count, st_section = sa_section pkt, st_condition = cond\<rparr>"

definition reply_stash_result :: "env \<Rightarrow> stash_result \<Rightarrow> ptr \<Rightarrow> handler" where
  "reply_stash_result env u = reply env op_stash_result (stash_result_fields u)"

definition record_reply_stash :: "env \<Rightarrow> ptr \<Rightarrow> stash_result \<Rightarrow> handler" where
  "record_reply_stash env p u sv = reply_stash_result env u p
     (record_ledger (record_stash (p_id (sv_heap sv p)) (st_action_id u) u) sv)"

definition reject_stash :: "env \<Rightarrow> ptr \<Rightarrow> stash_action \<Rightarrow> u8 \<Rightarrow> i16 \<Rightarrow> handler" where
  "reject_stash env p pkt result count sv = send_wallet_update env p (force_inventory_sync env p
     (record_reply_stash env p (stash_reply pkt result count (sa_condition pkt)) sv))"

definition stash_rejected :: "env \<Rightarrow> ptr \<Rightarrow> string \<Rightarrow> stash_action \<Rightarrow> (string \<times> string) list \<Rightarrow> handler" where
  "stash_rejected env p uuid pkt detail sv =
     audit_kv env uuid ''stash_rejected'' detail (reject_stash env p pkt result_rejected 0 sv)"

definition stash_detail :: "stash_action \<Rightarrow> string \<Rightarrow> u32 option \<Rightarrow> (string \<times> string) list" where
  "stash_detail pkt section stash = (''action_id'', utoa (sa_action_id pkt)) #
     (case stash of None \<Rightarrow> [] | Some i \<Rightarrow> [(''stash'', utoa i)]) @
     [(''section'', section), (''count'', utoa (sa_count pkt))]"

definition stash_store :: "env \<Rightarrow> ptr \<Rightarrow> string \<Rightarrow> string \<Rightarrow> string \<Rightarrow> f32 \<times> f32 \<times> f32 \<Rightarrow> stash_action \<Rightarrow> handler" where
  "stash_store env p uuid level section key pkt sv =
     (case with_db (find_or_create_world_stash True level key (unix env)) sv of
        (Inl e, sv1) \<Rightarrow> stash_rejected env p uuid pkt (stash_detail pkt section None @ [(''err'', gerr_text env e)]) sv1
      | (Inr rec, sv1) \<Rightarrow> (case validate_access (Some rec) (p_pos (sv_heap sv p)) level '''' uuid of
          Some e \<Rightarrow> stash_rejected env p uuid pkt (stash_detail pkt section (Some (sr_id rec)) @ [(''err'', gerr_text env e)]) sv1
        | None \<Rightarrow> (case with_db (deposit_item True (sr_id rec) uuid level section (uint (sa_count pkt))
                        (uint (sa_condition pkt)) (unix env)) sv1 of
            (Inl e, sv2) \<Rightarrow>
              let sv3 = (if insufficient e then case correction uuid section sv2 of
                           (n, sv3) \<Rightarrow> reject_stash env p pkt result_corrected n sv3
                         else reject_stash env p pkt result_rejected 0 sv2)
              in audit_kv env uuid ''stash_rejected'' (stash_detail pkt section (Some (sr_id rec)) @ [(''err'', gerr_text env e)]) sv3
          | (Inr bucket, sv2) \<Rightarrow>
              audit_kv env uuid ''stash_store'' (stash_detail pkt section (Some (sr_id rec)))
                (record_reply_stash env p (stash_reply pkt result_ok (clamp_count_to_int16 (- uint (sa_count pkt))) bucket) sv2))))"

definition stash_take :: "env \<Rightarrow> ptr \<Rightarrow> string \<Rightarrow> string \<Rightarrow> string \<Rightarrow> f32 \<times> f32 \<times> f32 \<Rightarrow> stash_action \<Rightarrow> handler" where
  "stash_take env p uuid level section key pkt sv =
     (case with_db (find_world_stash True level key) sv of
        (Inl e, sv1) \<Rightarrow> stash_rejected env p uuid pkt (stash_detail pkt section None @ [(''err'', gerr_text env e)]) sv1
      | (Inr rec, sv1) \<Rightarrow> (case validate_access (Some rec) (p_pos (sv_heap sv p)) level '''' uuid of
          Some e \<Rightarrow> stash_rejected env p uuid pkt (stash_detail pkt section (Some (sr_id rec)) @ [(''err'', gerr_text env e)]) sv1
        | None \<Rightarrow> (case with_db (withdraw_item True (sr_id rec) uuid level section (uint (sa_count pkt))
                        (uint (sa_condition pkt)) (unix env)) sv1 of
            (Inl e, sv2) \<Rightarrow> stash_rejected env p uuid pkt (stash_detail pkt section (Some (sr_id rec)) @ [(''err'', gerr_text env e)]) sv2
          | (Inr bucket, sv2) \<Rightarrow>
              audit_kv env uuid ''stash_take'' (stash_detail pkt section (Some (sr_id rec)))
                (record_reply_stash env p (stash_reply pkt result_ok (clamp_count_to_int16 (uint (sa_count pkt))) bucket) sv2))))"

definition stash_key :: "stash_action \<Rightarrow> f32 \<times> f32 \<times> f32" where
  "stash_key pkt = (round_world_stash_coord (clamp_item_coord (sa_x pkt)),
     round_world_stash_coord (clamp_item_coord (sa_y pkt)), round_world_stash_coord (clamp_item_coord (sa_z pkt)))"

definition apply_stash_action :: "env \<Rightarrow> ptr \<Rightarrow> stash_action \<Rightarrow> handler" where
  "apply_stash_action env p pkt sv =
     (let s = sv_heap sv p; uuid = p_account s; level = p_level s; section = null_term_string (sa_section pkt);
          key = stash_key pkt in
      if uuid = '''' \<or> sv_db sv = None then reject_stash env p pkt result_rejected 0 sv
      else if \<not> valid_item_section (en_uprint env) section \<or> sa_count pkt = 0
        then reject_stash env p pkt result_rejected 0 sv
      else if flt max_stash_interact_distance (dist3 key (p_pos s))
        then stash_rejected env p uuid pkt [(''action_id'', utoa (sa_action_id pkt)), (''action'', utoa (sa_action pkt)),
               (''section'', section), (''count'', utoa (sa_count pkt)), (''err'', ''too far'')] sv
      else if sa_action pkt = 1 then stash_store env p uuid level section key pkt sv
      else stash_take env p uuid level section key pkt sv)"

definition stash_action_packet :: "env \<Rightarrow> ptr \<Rightarrow> stash_action \<Rightarrow> handler" where
  "stash_action_packet env p pkt sv = (let sid = p_id (sv_heap sv p) in
     if sa_action pkt \<noteq> 1 \<and> sa_action pkt \<noteq> 2 then reject_stash env p pkt result_rejected 0 sv
     else case lookup_stash sid (sa_action_id pkt) (sv_ledger sv) of
       Some cached \<Rightarrow> send_wallet_update env p (reply_stash_result env cached p sv)
     | None \<Rightarrow>
         if is_stale sid (sa_action_id pkt) (sv_ledger sv) then reject_stash env p pkt result_rejected 0 sv
         else (case take_budget env sid sv of (ok, sv1) \<Rightarrow>
           if \<not> ok then reject_stash env p pkt result_rejected 0 sv1 else apply_stash_action env p pkt sv1))"

definition handle_stash_action :: "env \<Rightarrow> udp_addr \<Rightarrow> bytes \<Rightarrow> handler" where
  "handle_stash_action env addr buf sv = (case read_stash_action buf of
     None \<Rightarrow> sv
   | Some (pkt, _) \<Rightarrow> (case get_by_addr (addr_string addr) (sv_sessions sv) of
       None \<Rightarrow> sv
     | Some p \<Rightarrow> stash_action_packet env p pkt sv))"

section \<open>Trade actions\<close>

definition trade_reply :: "trade_action \<Rightarrow> u8 \<Rightarrow> int \<Rightarrow> u8 \<Rightarrow> trade_result" where
  "trade_reply pkt result delta cond = \<lparr>tr_action_id = ta_action_id pkt, tr_result = result, tr_action = ta_action pkt,
     tr_money_delta = word_of_int delta, tr_section = ta_section pkt, tr_condition = cond\<rparr>"

definition reply_trade_result :: "env \<Rightarrow> trade_result \<Rightarrow> ptr \<Rightarrow> handler" where
  "reply_trade_result env u = reply env op_trade_result (trade_result_fields u)"

definition record_reply_trade :: "env \<Rightarrow> ptr \<Rightarrow> trade_result \<Rightarrow> handler" where
  "record_reply_trade env p u sv = send_wallet_update env p (reply_trade_result env u p
     (record_ledger (record_trade (p_id (sv_heap sv p)) (tr_action_id u) u) sv))"

definition reject_trade :: "env \<Rightarrow> ptr \<Rightarrow> trade_action \<Rightarrow> string \<Rightarrow> handler" where
  "reject_trade env p pkt reason sv =
     (let sv1 = record_reply_trade env p (trade_reply pkt result_rejected 0 (ta_condition pkt)) sv;
          uuid = p_account (sv_heap sv1 p)
      in if uuid \<noteq> '''' \<and> reason \<noteq> '''' then
           audit_kv env uuid ''trade_rejected'' [(''action_id'', utoa (ta_action_id pkt)), (''action'', utoa (ta_action pkt)),
             (''section'', null_term_string (ta_section pkt)), (''count'', utoa (ta_count pkt)),
             (''money'', utoa (ta_money_delta pkt)), (''err'', reason)] sv1
         else sv1)"

definition trade_max_money_delta :: "server \<Rightarrow> int" where
  "trade_max_money_delta sv = trade_max_money_delta_or_default (sv_cfg sv)"

definition trade_detail :: "trade_action \<Rightarrow> string \<Rightarrow> int \<Rightarrow> bool \<Rightarrow> (string \<times> string) list" where
  "trade_detail pkt section delta capped = [(''action_id'', utoa (ta_action_id pkt)), (''section'', section),
     (''count'', utoa (ta_count pkt)), (''money'', itoa delta), (''capped'', if capped then ''true'' else ''false'')]"

definition trade_sell :: "env \<Rightarrow> ptr \<Rightarrow> string \<Rightarrow> string \<Rightarrow> int \<Rightarrow> bool \<Rightarrow> trade_action \<Rightarrow> handler" where
  "trade_sell env p uuid section delta capped pkt sv =
     (case with_db (sell_items True uuid section (uint (ta_count pkt)) delta (unix env)) sv of
        (Inl e, sv1) \<Rightarrow> reject_trade env p pkt (''sell error: '' @ gerr_text env e) sv1
      | (Inr (cond, sold), sv1) \<Rightarrow>
          if \<not> sold then reject_trade env p pkt ''item not held'' sv1
          else audit_kv env uuid ''trade_sell'' (trade_detail pkt section delta capped)
                 (record_reply_trade env p (trade_reply pkt (if capped then result_corrected else result_ok) delta cond) sv1))"

definition trade_buy :: "env \<Rightarrow> ptr \<Rightarrow> string \<Rightarrow> string \<Rightarrow> int \<Rightarrow> bool \<Rightarrow> trade_action \<Rightarrow> handler" where
  "trade_buy env p uuid section delta capped pkt sv =
     (let cond = (if 100 < ta_condition pkt then 100 else ta_condition pkt) in
      case with_db (buy_items True uuid section (uint (ta_count pkt)) cond delta (unix env)) sv of
        (Inl e, sv1) \<Rightarrow> reject_trade env p pkt (''buy error: '' @ gerr_text env e) sv1
      | (Inr bought, sv1) \<Rightarrow>
          if \<not> bought then reject_trade env p pkt ''insufficient funds'' sv1
          else audit_kv env uuid ''trade_buy'' (trade_detail pkt section delta capped)
                 (record_reply_trade env p (trade_reply pkt (if capped then result_corrected else result_ok) (- delta) cond) sv1))"

definition apply_trade_action :: "env \<Rightarrow> ptr \<Rightarrow> trade_action \<Rightarrow> handler" where
  "apply_trade_action env p pkt sv =
     (let uuid = p_account (sv_heap sv p); section = null_term_string (ta_section pkt);
          asked = uint (ta_money_delta pkt); cap = trade_max_money_delta sv;
          capped = cap < asked; delta = (if capped then cap else asked) in
      if uuid = '''' \<or> sv_db sv = None then reject_trade env p pkt ''session not ready'' sv
      else if \<not> valid_item_section (en_uprint env) section then reject_trade env p pkt ''invalid section'' sv
      else if ta_count pkt = 0 then reject_trade env p pkt ''zero count'' sv
      else if ta_money_delta pkt = 0 then reject_trade env p pkt ''zero money delta'' sv
      else if ta_action pkt = 2 then trade_sell env p uuid section delta capped pkt sv
      else trade_buy env p uuid section delta capped pkt sv)"

definition trade_action_packet :: "env \<Rightarrow> ptr \<Rightarrow> trade_action \<Rightarrow> handler" where
  "trade_action_packet env p pkt sv = (let sid = p_id (sv_heap sv p) in
     if ta_action pkt \<noteq> 1 \<and> ta_action pkt \<noteq> 2 then reject_trade env p pkt ''invalid action'' sv
     else case lookup_trade sid (ta_action_id pkt) (sv_ledger sv) of
       Some cached \<Rightarrow> send_wallet_update env p (reply_trade_result env cached p sv)
     | None \<Rightarrow>
         if is_stale sid (ta_action_id pkt) (sv_ledger sv) then reject_trade env p pkt ''stale action id'' sv
         else (case take_budget env sid sv of (ok, sv1) \<Rightarrow>
           if \<not> ok then reject_trade env p pkt ''rate limited'' sv1 else apply_trade_action env p pkt sv1))"

definition handle_trade_action :: "env \<Rightarrow> udp_addr \<Rightarrow> bytes \<Rightarrow> handler" where
  "handle_trade_action env addr buf sv = (case read_trade_action buf of
     None \<Rightarrow> sv
   | Some (pkt, _) \<Rightarrow> (case get_by_addr (addr_string addr) (sv_sessions sv) of
       None \<Rightarrow> sv
     | Some p \<Rightarrow> trade_action_packet env p pkt sv))"

section \<open>Lemmas: what a packet does to the tables\<close>

lemma valid_section_utf8: "valid_item_section up s \<Longrightarrow> valid_utf8 s"
  by (simp add: valid_item_section_def)

lemma take_budget_frame:
  assumes "take_budget env sid sv = (ok, sv')"
  shows "sv_db sv' = sv_db sv" "sv_heap sv' = sv_heap sv" "sv_sessions sv' = sv_sessions sv"
  using assms by (auto simp: take_budget_def split: prod.splits)

lemma record_ledger_frame [simp]:
  "sv_db (record_ledger f sv) = sv_db sv" "sv_heap (record_ledger f sv) = sv_heap sv"
  "sv_sessions (record_ledger f sv) = sv_sessions sv" "sv_ledger (record_ledger f sv) = f (sv_ledger sv)"
  by (simp_all add: record_ledger_def)

context tx_rel
begin

lemma keeps_select_stash: "keeps (select_stash P)"
  unfolding select_stash_def by (rule keeps_stmt) (simp add: R_refl)

lemma keeps_create:
  assumes "\<And>d. R d (snd (insert_stash l key (JItems []) now d))"
  shows "keeps (find_or_create_world_stash cfg l key now)"
proof -
  have "keeps (try_select P)" for P
    using keeps_select_stash [of P]
    unfolding keeps_def by (auto simp: try_select_def split: prod.split) (metis fst_conv snd_conv)
  moreover have "keeps (found_or_insert l key now r)" for r
    unfolding found_or_insert_def
    using assms by (cases r) (auto intro!: keeps_ret keeps_fail keeps_bind keeps_stmt)
  ultimately show ?thesis
    unfolding find_or_create_world_stash_def find_or_create_stash_at_def
    by (auto intro!: keeps_fail keeps_run keeps_bind)
qed

end

locale item_rel = quiet_rel +
  assumes drop: "valid_utf8 s \<Longrightarrow> keeps (drop_item_to_world u l s n pos pb cap now)"
    and consume: "keeps (consume_item u s n)"
    and pickup: "keeps (pickup_world_item u i)"
    and deposit: "valid_utf8 s \<Longrightarrow> keeps (deposit_item cfg sid u l s n pb now)"
    and withdraw: "keeps (withdraw_item cfg sid u l s n cnd now)"
    and create: "keeps (find_or_create_world_stash cfg l key now)"
begin

lemma reads:
  "keeps (db_get_stash i)" "keeps (find_world_stash cfg l key)" "keeps (get_world_item j)" "keeps (available_item_count u s)"
proof -
  show "keeps (db_get_stash i)" by (simp add: db_get_stash_def keeps_select_stash)
  show "keeps (find_world_stash cfg l key)"
    using keeps_select_stash [of "stash_at l key"] unfolding keeps_def
    by (auto simp: find_world_stash_def find_stash_at_def R_refl split: prod.split sum.split) (metis fst_conv snd_conv)+
  show "keeps (get_world_item j)"
    unfolding get_world_item_def by (intro keeps_bind keeps_query) (auto intro: keeps_fail keeps_ret split: option.split)
  show "keeps (available_item_count u s)" unfolding available_item_count_def by (rule keeps_query)
qed

lemmas moves_ledger = moves_same [OF record_ledger_frame(1)]

lemma moves_budget: "moves a b \<Longrightarrow> (\<And>ok sv. moves a sv \<Longrightarrow> sv_heap sv = sv_heap b \<Longrightarrow> moves a (F ok sv)) \<Longrightarrow>
    moves a (case take_budget env sid b of (ok, sv) \<Rightarrow> F ok sv)"
proof -
  assume b: "moves a b" and F: "\<And>ok sv. moves a sv \<Longrightarrow> sv_heap sv = sv_heap b \<Longrightarrow> moves a (F ok sv)"
  obtain ok sv where e: "take_budget env sid b = (ok, sv)" by (rule prod.exhaust)
  have "moves a sv" using take_budget_frame(1) [OF e] b by (rule moves_same)
  with F take_budget_frame(2) [OF e] e show ?thesis by simp
qed

lemma moves_tuple: "moves a (snd z) \<Longrightarrow> (\<And>x y. moves a y \<Longrightarrow> moves a (f x y)) \<Longrightarrow> moves a (case z of (x, y) \<Rightarrow> f x y)"
  by (cases z) simp

lemma moves_correction: "moves a b \<Longrightarrow> moves a (snd (correction u s b))"
proof -
  assume b: "moves a b"
  have "moves a (snd (with_db (available_item_count u s) b))" using reads(4) b by (rule moves_db)
  then show ?thesis
    by (cases "with_db (available_item_count u s) b"; cases "fst (with_db (available_item_count u s) b)")
       (simp_all add: correction_def)
qed

lemma moves_corrected:
  "moves a b \<Longrightarrow> moves a (snd (if P then case correction u s b of (n, sv) \<Rightarrow> (g n, sv) else (y, b)))"
  using moves_correction [of a b u s] by (simp add: split_def)

lemmas move = moves_rules moves_ledger

lemma moves_replies:
  assumes "moves a b"
  shows "moves a (record_reply env p u b)" "moves a (reject_item env p pkt b)" "moves a (audit_kv env q e t b)"
    "moves a (record_reply_container env p cu b)" "moves a (reject_container env p cpkt b)"
    "moves a (record_reply_stash env p su b)" "moves a (reject_stash env p spkt r n b)"
    "moves a (stash_rejected env p q spkt t b)" "moves a (reply_container env cu p b)" "moves a (reply_stash_result env su p b)"
  using assms
  by (auto simp: record_reply_def reject_item_def audit_kv_def record_reply_container_def reject_container_def
      record_reply_stash_def reject_stash_def stash_rejected_def reply_container_def reply_stash_result_def intro!: move)

lemma moves_drop: "valid_utf8 s \<Longrightarrow> moves a b \<Longrightarrow> moves a (handle_item_drop env p u l s pkt b)"
  unfolding handle_item_drop_def Let_def
  by (intro moves_if moves_case moves_replies move drop) assumption+

lemma moves_pickup: "moves a b \<Longrightarrow> moves a (handle_item_pickup env p u l pos pkt b)"
  unfolding handle_item_pickup_def Let_def rejected_item_pickup_def
  by (intro moves_if moves_case moves_replies move pickup reads) assumption+

lemma moves_consume: "moves a b \<Longrightarrow> moves a (handle_item_consume env p u s pkt b)"
  unfolding handle_item_consume_def Let_def
  by (intro moves_if moves_case moves_tuple moves_corrected moves_replies(1,2,3) moves_force_sync consume) assumption+

lemma moves_deposit: "valid_utf8 s \<Longrightarrow> moves a b \<Longrightarrow> moves a (container_deposit env p u l s pkt b)"
  unfolding container_deposit_def Let_def
  by (intro moves_if moves_case moves_tuple moves_corrected moves_replies(3,4,5) moves_force_sync deposit) assumption+

lemma moves_withdraw: "moves a b \<Longrightarrow> moves a (container_withdraw env p u l s pkt b)"
  unfolding container_withdraw_def
  by (intro moves_case moves_replies move withdraw) assumption+

lemma moves_store: "valid_utf8 s \<Longrightarrow> moves a b \<Longrightarrow> moves a (stash_store env p u l s key pkt b)"
  unfolding stash_store_def Let_def
  by (intro moves_opt moves_if moves_case moves_tuple moves_correction moves_replies(3,6,7,8) create deposit) assumption+

lemma moves_take: "moves a b \<Longrightarrow> moves a (stash_take env p u l s key pkt b)"
  unfolding stash_take_def
  by (intro moves_opt moves_case moves_replies(3,6,8) reads withdraw) assumption+

lemma moves_item_packet: "moves sv (item_action_packet env p pkt sv)"
  unfolding item_action_packet_def apply_item_action_def Let_def
  by (intro moves_if moves_opt moves_budget moves_replies move moves_drop moves_pickup moves_consume moves_refl)
     (auto dest: valid_section_utf8 intro: moves_refl)

lemma moves_container_packet: "moves sv (container_action_packet env p pkt sv)"
  unfolding container_action_packet_def apply_container_action_def Let_def
  by (intro moves_if moves_opt moves_budget moves_case moves_replies moves_deposit moves_withdraw moves_refl reads)
     (auto dest: valid_section_utf8 intro: moves_refl)

lemma moves_stash_packet: "moves sv (stash_action_packet env p pkt sv)"
  unfolding stash_action_packet_def apply_stash_action_def Let_def
  by (intro moves_if moves_opt moves_budget moves_replies moves_wallet moves_store moves_take moves_refl)
     (auto dest: valid_section_utf8 intro: moves_refl)

lemma moves_handlers:
  "moves sv (handle_item_action env addr buf sv)" "moves sv (handle_container_action env addr buf sv)"
  "moves sv (handle_stash_action env addr buf sv)"
  by (simp_all add: handle_item_action_def handle_container_action_def handle_stash_action_def
      moves_refl moves_item_packet moves_container_packet moves_stash_packet split: option.split)

end

text \<open>With the two trades as well, the interface covers all four kinds of action packet.\<close>

locale trade_rel = item_rel +
  assumes sell: "keeps (sell_items cfg u s n p now)"
    and buy: "keeps (buy_items cfg u s n b p now)"
begin

lemma moves_trade_replies:
  assumes "moves a b"
  shows "moves a (record_reply_trade env p tu b)" "moves a (reject_trade env p tpkt t b)" "moves a (reply_trade_result env tu p b)"
  using assms
  by (auto simp: record_reply_trade_def reject_trade_def reply_trade_result_def Let_def intro!: move moves_replies(3))

lemma moves_sell: "moves a b \<Longrightarrow> moves a (trade_sell env p u s n c pkt b)"
  unfolding trade_sell_def
  by (intro moves_case moves_prod moves_if moves_trade_replies moves_replies(3) sell) assumption+

lemma moves_buy: "moves a b \<Longrightarrow> moves a (trade_buy env p u s n c pkt b)"
  unfolding trade_buy_def Let_def
  by (intro moves_case moves_if moves_trade_replies moves_replies(3) buy) assumption+

lemma moves_trade_packet: "moves sv (trade_action_packet env p pkt sv)"
  unfolding trade_action_packet_def apply_trade_action_def Let_def
  by (intro moves_if moves_opt moves_budget moves_trade_replies moves_wallet moves_sell moves_buy moves_refl)
     (auto intro: moves_refl)

lemma moves_trade: "moves sv (handle_trade_action env addr buf sv)"
  by (simp add: handle_trade_action_def moves_refl moves_trade_packet split: option.split)

end

section \<open>A packet to deliver\<close>

definition demo_action :: "u8 \<Rightarrow> u32 \<Rightarrow> item_action" where
  "demo_action act a = \<lparr>ia_action_id = a, ia_action = act, ia_item_id = 0, ia_section = fixed_bytes 64 ''bread'',
     ia_count = 12, ia_x = Fin 0, ia_y = Fin 0, ia_z = Fin 0, ia_condition = 100\<rparr>"

definition demo_bytes :: "u8 \<Rightarrow> u32 \<Rightarrow> bytes" where
  "demo_bytes act a = put_struct (item_action_fields (demo_action act a))"

lemma demo_bytes_read: "read_item_action (demo_bytes act a) = Some (demo_action act a, [])"
proof -
  have "list_all2 field_ok item_action_schema (item_action_fields (demo_action act a))"
    using is_f32_int [of 0] by (simp add: demo_action_def item_action_fields_def item_action_schema_def fixed_bytes_def)
  from read_item_action_put [OF this, of "[]"] show ?thesis by (simp add: demo_bytes_def)
qed

end
