(* ===== verification/NoDupe.thy ===== *)
theory NoDupe
  imports ItemHandlers
begin

text \<open>
  The item economy as a whole: the interface \<open>item_rel\<close> of the handlers interpreted on the
  relation "the tables stay well-formed and no section's item count grows". What the transactions promise one by one becomes a
  statement about every sequence of client packets, decodable or not, with any statement of any
  transaction failing.
\<close>

section \<open>No item is made\<close>

definition healthy :: "database \<Rightarrow> bool" where
  "healthy d \<longleftrightarrow> tables_ok d \<and> (\<forall>s. item_total s d < 2 ^ 63)"

definition no_gain :: "database \<Rightarrow> database \<Rightarrow> bool" where
  "no_gain d d' \<longleftrightarrow> (healthy d \<longrightarrow> tables_ok d' \<and> (\<forall>s. item_total s d' \<le> item_total s d))"

lemma no_gain_healthy: "no_gain d d' \<Longrightarrow> healthy d \<Longrightarrow> healthy d'"
  unfolding no_gain_def healthy_def by (meson order.strict_trans1)

interpretation nodupe: tx_rel no_gain
proof
  show "no_gain d d" for d by (simp add: no_gain_def healthy_def)
  show "no_gain a b \<Longrightarrow> no_gain b c \<Longrightarrow> no_gain a c" for a b c
    using no_gain_healthy [of a b] unfolding no_gain_def by (meson order_trans)
qed

lemma no_gain_tx:
  assumes "\<And>d fl x d' fl'. healthy d \<Longrightarrow> m d fl = (Inr x, d', fl') \<Longrightarrow> no_gain d d'"
    and "\<And>d fl e d' fl'. m d fl = (Inl e, d', fl') \<Longrightarrow> d' = d"
  shows "nodupe.keeps m"
  unfolding nodupe.keeps_def
proof (intro allI)
  fix d fl
  obtain r d' fl' where e: "m d fl = (r, d', fl')" by (metis prod.exhaust)
  show "no_gain d (db_of (m d fl))"
  proof (cases r)
    case (Inl x)
    with e assms(2) [of d fl] show ?thesis by (simp add: nodupe.R_refl)
  next
    case (Inr x)
    with e assms(1) [of d fl] show ?thesis by (cases "healthy d") (simp_all add: no_gain_def)
  qed
qed

lemma no_gainI: "tables_ok d' \<Longrightarrow> (\<And>s. item_total s d' \<le> item_total s d) \<Longrightarrow> no_gain d d'"
  by (simp add: no_gain_def)

lemma removed_total:
  assumes "remove_inventory u s n pb d fl = (Inr (tot, c), d', fl')" "inv_ok d" "0 \<le> n"
  shows "rows_total (\<lambda>r. r_section r = t) (d_inv d') = rows_total (\<lambda>r. r_section r = t) (d_inv d) - (if t = s then n else 0)"
  using remove_inventory_spec(6) [OF assms] remove_inventory_spec(7) [OF assms, of "\<lambda>r. r_section r = t"]
  by (auto simp: owned_def intro: filter_rows_total)

lemma no_gain_drop: "nodupe.keeps (drop_item_to_world u l s n pos pb cap now)"
proof (rule no_gain_tx)
  fix d fl x d' fl'
  assume ok: "healthy d" and run: "drop_item_to_world u l s n pos pb cap now d fl = (Inr x, d', fl')"
  obtain i rem c where x: "x = (i, rem, c)" by (cases x) auto
  from ok have t: "inv_ok d" "world_ok d" "stash_ok d" by (simp_all add: healthy_def tables_ok_def)
  from drop_success [OF run [unfolded x] t(1)] obtain d1 where d1: "1 \<le> n" "inv_ok d1" "only_inv d d1"
    "rows_total (\<lambda>r. r_section r = s) (d_inv d1) = rows_total (\<lambda>r. r_section r = s) (d_inv d) - n"
    "\<forall>P. count_blind P \<longrightarrow> (\<forall>r. P r \<longrightarrow> \<not> owned u s r) \<longrightarrow> filter P (d_inv d1) = filter P (d_inv d)"
    "d' = snd (insert_world l s n pos (clamp_condition01 c) now d1)" by blast
  have t1: "tables_ok d1" using only_inv_tables(1) [OF d1(3)] ok d1(2) by (simp add: healthy_def)
  then have "tables_ok d'"
    using d1(1) world_ok_insert [of d1 n] by (simp add: d1(6) tables_ok_def inv_ok_def stash_ok_def insert_world_def)
  moreover have "item_total t d' = item_total t d" for t
  proof -
    have "filter (\<lambda>r. r_section r = t) (d_inv d1) = filter (\<lambda>r. r_section r = t) (d_inv d)" if "t \<noteq> s"
      using d1(5) that by (auto simp: owned_def)
    then have "rows_total (\<lambda>r. r_section r = t) (d_inv d') = rows_total (\<lambda>r. r_section r = t) (d_inv d) - (if t = s then n else 0)"
      using d1(4) by (auto simp: d1(6) intro: filter_rows_total)
    moreover have "world_total t d' = world_total t d + (if t = s then n else 0)"
      using only_inv_tables(3) [OF d1(3) _ d1(2)] ok
      by (cases "t = s") (simp_all add: d1(6) world_total_insert healthy_def)
    moreover have "stash_total t d' = stash_total t d"
      using only_inv_tables(2) [OF d1(3) _ d1(2)] ok by (simp add: d1(6) stash_total_def healthy_def)
    ultimately show ?thesis by (simp add: item_total_def)
  qed
  ultimately show "no_gain d d'" by (simp add: no_gainI)
qed (auto simp: drop_item_to_world_def dest: run_tx_atomic split: if_splits)

lemma no_gain_consume: "nodupe.keeps (consume_item u s n)"
proof (rule no_gain_tx)
  fix d fl x d' fl'
  assume ok: "healthy d" and run: "consume_item u s n d fl = (Inr x, d', fl')"
  from run have n: "1 \<le> n" by (auto simp: consume_item_def split: if_splits)
  with run obtain fl0 fl1 tot c where rm: "remove_inventory u s n (- 1) d fl0 = (Inr (tot, c), d', fl1)"
    by (auto simp: consume_item_def tx_Inr dest!: run_tx_Inr)
  from ok have t: "inv_ok d" "tables_ok d" by (simp_all add: healthy_def tables_ok_def)
  from n have "0 \<le> n" by simp
  note spec = remove_inventory_spec [OF rm t(1) this] and tot = removed_total [OF rm t(1) \<open>0 \<le> n\<close>]
  note tab = only_inv_tables [OF spec(4) t(2) spec(3)]
  show "no_gain d d'"
    using n by (intro no_gainI tab(1)) (simp add: item_total_def tab tot)
qed (auto simp: consume_item_def dest: run_tx_atomic split: if_splits)

lemma no_gain_pickup: "nodupe.keeps (pickup_world_item u i)"
proof (rule no_gain_tx)
  fix d fl wi d' fl'
  assume ok: "healthy d" and run: "pickup_world_item u i d fl = (Inr wi, d', fl')"
  from ok have t: "inv_ok d" "world_ok d" "stash_ok d" by (simp_all add: healthy_def tables_ok_def)
  let ?d1 = "d\<lparr>d_world := filter (\<lambda>x. w_id x \<noteq> i) (d_world d)\<rparr>"
  from pickup_success [OF run t(1,2)] obtain k where
    wi: "wi \<in> set (d_world d)" "w_id wi = i" and cr: "credited u (w_section wi) (w_count wi) k ?d1 d'" by auto
  have w: "1 \<le> w_count wi" using t(2) wi by (auto simp: world_ok_def)
  have k: "k = w_count wi \<or> k = 0" and f: "only_inv_ids ?d1 d'" and okd: "inv_ok d'"
    using cr by (auto simp: credited_def)
  note fr = only_inv_ids_frame [OF f]
  have "tables_ok d'"
    using okd t fr by (auto simp: tables_ok_def world_ok_def stash_ok_def intro: sorted_wrt_filter_map)
  moreover have "item_total s d' \<le> item_total s d" for s
  proof -
    have "item_total s ?d1 = item_total s d - (if w_section wi = s then w_count wi else 0)"
      using world_total_delete [OF t(2) wi(1), of s] wi(2) by (simp add: item_total_def stash_total_def)
    with credited_item_total [OF cr] k w show ?thesis by (cases "s = w_section wi") auto
  qed
  ultimately show "no_gain d d'" by (rule no_gainI)
qed (auto simp: pickup_world_item_def dest: run_tx_atomic)

lemma no_gain_deposit: "valid_utf8 s \<Longrightarrow> nodupe.keeps (deposit_item cfg i u l s n pb now)"
proof (rule no_gain_tx)
  fix d fl x d' fl'
  assume s: "valid_utf8 s" and ok: "healthy d" and run: "deposit_item cfg i u l s n pb now d fl = (Inr x, d', fl')"
  from deposit_success [OF run _ s] ok show "no_gain d d'" by (simp add: healthy_def no_gainI)
qed (auto dest: deposit_fail)

lemma no_gain_withdraw: "nodupe.keeps (withdraw_item cfg i u l s n cnd now)"
proof (rule no_gain_tx)
  fix d fl x d' fl'
  assume ok: "healthy d" and run: "withdraw_item cfg i u l s n cnd now d fl = (Inr x, d', fl')"
  from ok have t: "tables_ok d" by (simp add: healthy_def)
  from withdraw_success [OF run t] obtain k where k: "1 \<le> n" "tables_ok d'" "k = n \<or> k = 0"
    "item_total s d' = item_total s d + k - n" "\<forall>t. t \<noteq> s \<longrightarrow> item_total t d' = item_total t d" by blast
  then have "item_total t d' \<le> item_total t d" for t by (cases "t = s") auto
  with k(2) show "no_gain d d'" by (rule no_gainI)
qed (auto dest: withdraw_fail)

lemma no_gain_insert_stash: "no_gain d (snd (insert_stash l key (JItems []) now d))"
proof -
  have "stash_ok d \<Longrightarrow> stash_ok (snd (insert_stash l key (JItems []) now d))"
    by (fastforce simp: insert_stash_def stash_ok_def new_stash_row_def sorted_wrt_append)
  moreover have "stash_total s (snd (insert_stash l key (JItems []) now d)) = stash_total s d" for s
    by (simp add: insert_stash_def stash_total_def new_stash_row_def)
  ultimately show ?thesis
    by (auto simp: no_gain_def healthy_def tables_ok_def insert_stash_def inv_ok_def world_ok_def item_total_def world_total_def)
qed

interpretation nodupe: item_rel no_gain
proof
  show "no_gain d (d\<lparr>d_audit := x\<rparr>)" for d x
    by (auto simp: no_gain_def healthy_def tables_ok_def inv_ok_def world_ok_def stash_ok_def item_total_def
        world_total_def stash_total_def)
qed (simp_all add: no_gain_drop no_gain_consume no_gain_pickup no_gain_deposit no_gain_withdraw nodupe.keeps_create no_gain_insert_stash)

section \<open>Packets in sequence\<close>

datatype item_packet = ItemPacket bytes | ContainerPacket bytes | StashPacket bytes

fun deliver :: "env \<times> udp_addr \<times> item_packet \<Rightarrow> handler" where
  "deliver (env, a, ItemPacket b) sv = handle_item_action env a b sv"
| "deliver (env, a, ContainerPacket b) sv = handle_container_action env a b sv"
| "deliver (env, a, StashPacket b) sv = handle_stash_action env a b sv"

lemma deliver_moves: "nodupe.moves sv (deliver p sv)"
  by (cases "(p, sv)" rule: deliver.cases) (simp_all add: nodupe.moves_handlers)

lemma deliver_all_moves: "nodupe.moves sv (fold deliver ps sv)"
  by (induction ps arbitrary: sv) (auto intro: nodupe.moves_refl nodupe.moves_trans [OF deliver_moves])

section \<open>Properties\<close>

text \<open>C1: No sequence of item, container and stash packets duplicates an item. Whatever bytes
  arrive from whatever addresses, retransmitted or forged, and whichever SQL statements fail, the
  tables stay well-formed and no section's item count over all inventories, the world and the
  stashes ever grows.\<close>

theorem packets_never_duplicate:
  assumes "sv_db sv = Some d" and "tables_ok d" and "\<forall>s. item_total s d < 2 ^ 63"
  shows "\<exists>d'. sv_db (fold deliver ps sv) = Some d' \<and> tables_ok d' \<and> (\<forall>s. item_total s d' \<le> item_total s d)"
proof -
  have "rel_option no_gain (Some d) (sv_db (fold deliver ps sv))"
    using deliver_all_moves [of sv ps] by (simp add: nodupe.moves_def assms(1))
  then obtain d' where "sv_db (fold deliver ps sv) = Some d'" "no_gain d d'"
    by (auto simp: option_rel_Some1)
  with assms(2,3) show ?thesis by (auto simp: no_gain_def healthy_def)
qed

theorem packets_never_duplicate_witness:
  "\<exists>d'. sv_db (fold deliver [(demo_env 1, demo_endpoint, ItemPacket (demo_bytes 1 1)),
      (demo_env 2, demo_endpoint, ItemPacket (demo_bytes 1 1)), (demo_env 3, demo_endpoint, StashPacket [1, 2])]
      (demo_server (demo_stash_db [] [demo_row 1 30 (Fin 1)]))) = Some d' \<and> item_total ''bread'' d' \<le> 30"
proof -
  let ?d = "demo_stash_db [] [demo_row 1 30 (Fin 1)]"
  have t: "item_total s ?d = (if s = ''bread'' then 30 else 0)" for s
    by (simp add: item_total_def world_total_def stash_total_def demo_stash_db_def demo_db_def demo_row_def new_stash_row_def)
  have db: "sv_db (demo_server ?d) = Some ?d" by (simp add: demo_server_def)
  have "\<forall>s. item_total s ?d < 2 ^ 63" by (simp add: t)
  from packets_never_duplicate [OF db demo_stash_ok(1) this] obtain d' where
    "sv_db (fold deliver [(demo_env 1, demo_endpoint, ItemPacket (demo_bytes 1 1)),
      (demo_env 2, demo_endpoint, ItemPacket (demo_bytes 1 1)), (demo_env 3, demo_endpoint, StashPacket [1, 2])]
      (demo_server ?d)) = Some d'" "\<forall>s. item_total s d' \<le> item_total s ?d" by blast
  then show ?thesis by (metis t)
qed

end
