(* ===== verification/TradePackets.thy ===== *)
theory TradePackets
  imports ItemHandlers
begin

text \<open>
  Money over whole packet histories: the handlers' interface with trades interpreted on the
  relation that keeps every wallet from going negative.
\<close>

lemma wallets_keeps_same: "(\<And>d. d_chars (snd (f d)) = d_chars d) \<Longrightarrow> wallets.keeps (stmt f)"
  by (rule wallets.keeps_stmt) (simp add: wallets_kept_def wallets_ok_def)

lemma wallets_keeps_open: "wallets.keeps (open_stash i l)"
  unfolding open_stash_def
  by (intro wallets.keeps_bind wallets.keeps_query) (auto split: option.split intro: wallets.keeps_fail wallets.keeps_ret)

lemma wallets_keeps_lift: "wallets.keeps (lift_res r)"
  by (cases r) (simp_all add: lift_res_def wallets.keeps_fail wallets.keeps_ret)

lemma wallets_keeps_contents: "wallets.keeps (set_contents i xs now)"
  unfolding set_contents_def
  by (intro wallets.keeps_exec) (simp add: wallets_kept_def wallets_ok_def map_stash_def)

lemma wallets_keeps_deposit: "wallets.keeps (deposit_item cfg i u l s n pb now)"
proof -
  have "wallets.keeps (deposit_body i u l s n pb now)"
    unfolding deposit_body_def Let_def
    by (auto intro!: wallets.keeps_bind wallets_keeps_open wallets_keeps_remove wallets_keeps_lift wallets.keeps_fail
        wallets_keeps_contents wallets.keeps_ret split: prod.split)
  then show ?thesis unfolding deposit_item_def by (simp add: wallets.keeps_fail wallets.keeps_run)
qed

lemma wallets_keeps_withdraw: "wallets.keeps (withdraw_item cfg i u l s n c now)"
proof -
  have "wallets.keeps (withdraw_body i u l s n c now)"
    unfolding withdraw_body_def Let_def
    by (auto intro!: wallets.keeps_bind wallets_keeps_open wallets_keeps_lift wallets.keeps_fail wallets_keeps_contents
        wallets.keeps_ret wallets_keeps_others [OF keeps_credit_inventory] split: option.split)
  then show ?thesis unfolding withdraw_item_def by (simp add: wallets.keeps_fail wallets.keeps_run)
qed

interpretation wallets: trade_rel wallets_kept
proof
  show "wallets_kept d (d\<lparr>d_audit := x\<rparr>)" for d x by (simp add: wallets_kept_def wallets_ok_def)
  show "wallets.keeps (find_or_create_world_stash cfg l key now)" for cfg l key now
    by (rule wallets.keeps_create) (simp add: wallets_kept_def wallets_ok_def insert_stash_def)
qed (simp_all add: wallets_keeps_others keeps_inventory wallets_keeps_deposit wallets_keeps_withdraw wallets_keeps_ops)

section \<open>Packets in sequence\<close>

datatype action_packet = ActItem bytes | ActContainer bytes | ActStash bytes | ActTrade bytes

fun receive :: "env \<times> udp_addr \<times> action_packet \<Rightarrow> handler" where
  "receive (env, a, ActItem b) sv = handle_item_action env a b sv"
| "receive (env, a, ActContainer b) sv = handle_container_action env a b sv"
| "receive (env, a, ActStash b) sv = handle_stash_action env a b sv"
| "receive (env, a, ActTrade b) sv = handle_trade_action env a b sv"

lemma receive_moves: "wallets.moves sv (receive p sv)"
  by (cases "(p, sv)" rule: receive.cases) (simp_all add: wallets.moves_handlers wallets.moves_trade)

lemma receive_all_moves: "wallets.moves sv (fold receive ps sv)"
  by (induction ps arbitrary: sv) (auto intro: wallets.moves_refl wallets.moves_trans [OF receive_moves])

section \<open>Properties\<close>

text \<open>C3: No sequence of action packets of any kind, trades included, whatever their bytes, their
  prices and the SQL statements that fail, drives a wallet below zero.\<close>

theorem packets_never_overdraw:
  assumes "sv_db sv = Some d" and "wallets_ok d"
  shows "\<exists>d'. sv_db (fold receive ps sv) = Some d' \<and> wallets_ok d'"
proof -
  have "rel_option wallets_kept (Some d) (sv_db (fold receive ps sv))"
    using receive_all_moves [of sv ps] by (simp add: wallets.moves_def assms(1))
  then show ?thesis using assms(2) by (auto simp: option_rel_Some1 wallets_kept_def)
qed

theorem packets_never_overdraw_witness:
  "\<exists>d'. sv_db (fold receive [(demo_env 1, demo_endpoint, ActTrade (replicate 80 2)), (demo_env 2, demo_endpoint, ActItem [1])]
     (demo_server (demo_db []))) = Some d' \<and> wallets_ok d'"
  by (rule packets_never_overdraw [OF demo_server_fields(1)]) (simp add: wallets_ok_def demo_db_def demo_char_def)

end
