(* ===== verification/ExactlyOnce.thy ===== *)
theory ExactlyOnce
  imports TradePackets
begin

text \<open>
  Retransmission. The client resends a reliable packet until it sees the answer, so a handler may
  run many times on the same bytes, with any other action packets in between. The relation "inventories,
  world, stashes and characters are the same" is another instance of the handlers' interface. A
  second frame, \<open>aged k n\<close>, follows the item ring of session \<open>k\<close> through every handler: at most
  \<open>n\<close> results were pushed. As the ring holds 256 results, an applied action is echoed, not applied
  again, until 256 newer item actions of its own session have been answered.
\<close>

definition same_items :: "database \<Rightarrow> database \<Rightarrow> bool" where
  "same_items d d' \<longleftrightarrow> d_inv d' = d_inv d \<and> d_world d' = d_world d \<and> d_stashes d' = d_stashes d \<and> d_chars d' = d_chars d"

interpretation quiet: quiet_rel same_items
  by unfold_locales (simp_all add: same_items_def)

definition item_tables :: "server \<Rightarrow> (inv_row list \<times> world_item list \<times> stash_row list \<times> (string \<Rightarrow> char_row option)) option" where
  "item_tables sv = map_option (\<lambda>d. (d_inv d, d_world d, d_stashes d, d_chars d)) (sv_db sv)"

lemma quiet_tables: "quiet.moves sv sv' \<longleftrightarrow> item_tables sv' = item_tables sv"
  by (cases "sv_db sv"; cases "sv_db sv'") (auto simp: quiet.moves_def item_tables_def same_items_def)

section \<open>Frames\<close>

lemma with_db_snd [simp]:
  "sv_heap (snd (with_db m sv)) = sv_heap sv" "sv_sessions (snd (with_db m sv)) = sv_sessions sv"
  "sv_ledger (snd (with_db m sv)) = sv_ledger sv"
  using with_db_frame [of m sv "fst (with_db m sv)" "snd (with_db m sv)"] by simp_all

lemma audit_frame [simp]:
  "sv_heap (audit_kv env u e t sv) = sv_heap sv" "sv_sessions (audit_kv env u e t sv) = sv_sessions sv"
  "sv_ledger (audit_kv env u e t sv) = sv_ledger sv"
  by (simp_all add: audit_kv_def audit_def)

lemma inventory_sync_frame [simp]:
  "sv_heap (snd (send_inventory_sync env p sv)) = sv_heap sv"
  "sv_sessions (snd (send_inventory_sync env p sv)) = sv_sessions sv"
  "sv_ledger (snd (send_inventory_sync env p sv)) = sv_ledger sv"
  using with_db_snd [of "get_character_inventory (p_account (sv_heap sv p))" sv]
  by (auto simp: send_inventory_sync_def Let_def fold_frame simp del: with_db_snd split: prod.split sum.split)

lemma force_sync_frame [simp]:
  "p_id (sv_heap (force_inventory_sync env p sv) q) = p_id (sv_heap sv q)"
  "sv_sessions (force_inventory_sync env p sv) = sv_sessions sv"
  "sv_ledger (force_inventory_sync env p sv) = sv_ledger sv"
proof -
  let ?b = "upd_session p (\<lambda>s. s\<lparr>p_inv_synced_level := ''''\<rparr>) sv"
  have id: "p_id (sv_heap (upd_session p (\<lambda>s. s\<lparr>p_inv_synced_level := l\<rparr>) x) q) = p_id (sv_heap x q)" for l x q
    by (simp add: upd_session_def)
  obtain ok c where c: "send_inventory_sync env p ?b = (ok, c)" by (rule prod.exhaust)
  have f: "sv_heap c = sv_heap ?b" "sv_sessions c = sv_sessions ?b" "sv_ledger c = sv_ledger ?b"
    using inventory_sync_frame [of env p ?b] by (simp_all add: c)
  show "p_id (sv_heap (force_inventory_sync env p sv) q) = p_id (sv_heap sv q)"
    "sv_sessions (force_inventory_sync env p sv) = sv_sessions sv"
    "sv_ledger (force_inventory_sync env p sv) = sv_ledger sv"
    by (simp_all add: force_inventory_sync_def sync_inventory_for_level_def Let_def c f id)
qed

lemma wallet_frame [simp]:
  "sv_heap (send_wallet_update env p sv) = sv_heap sv" "sv_sessions (send_wallet_update env p sv) = sv_sessions sv"
  "sv_ledger (send_wallet_update env p sv) = sv_ledger sv"
  using with_db_snd [of "get_balance True (p_account (sv_heap sv p))" sv]
  by (auto simp: send_wallet_update_def Let_def simp del: with_db_snd split: prod.split sum.split)

section \<open>A recorded result is found\<close>

lemma ring_lookup_None: "ring_ok r \<Longrightarrow> ring_lookup a r = None \<longleftrightarrow> a \<notin> fst ` set (ring_hist r)"
  using ring_hist_set [of r] by (auto simp: ring_lookup_def find_None_iff image_iff)

lemma hist_lookup:
  "ledger_ok sid l \<Longrightarrow> lookup_item sid a l \<noteq> None \<longleftrightarrow> a \<in> fst ` set (item_hist sid l)"
  "ledger_ok sid l \<Longrightarrow> lookup_container sid a l = None \<longleftrightarrow> a \<notin> fst ` set (container_hist sid l)"
  by (simp_all add: lookup_state_of ledger_ok_def Let_def hist_defs ring_lookup_None del: not_None_eq)

text \<open>The action's result is the newest one in the session's cache.\<close>

definition answered :: "u32 \<Rightarrow> u32 \<Rightarrow> ledger \<Rightarrow> bool" where
  "answered sid a l \<longleftrightarrow> (\<exists>u h. item_hist sid l = (a, u) # h)"

lemma record_found: "ledger_ok sid l \<Longrightarrow> answered sid a (record_item sid a u l)"
  using items.store_hist [of sid l a u] by (simp add: answered_def)

lemma budget_ledger_ok: "take_budget env sid sv = (ok, sv') \<Longrightarrow> ledger_ok s (sv_ledger sv) \<Longrightarrow> ledger_ok s (sv_ledger sv')"
  by (auto simp: take_budget_def allow_action_def Let_def ledger_ok_def split: prod.splits)

section \<open>Item actions\<close>

text \<open>Either the tables are what they were, or the action's result is in the cache.\<close>

definition settled :: "u32 \<Rightarrow> u32 \<Rightarrow> server \<Rightarrow> server \<Rightarrow> bool" where
  "settled sid a sv sv' \<longleftrightarrow> quiet.moves sv sv' \<or> answered sid a (sv_ledger sv')"

definition only_sync :: "server \<Rightarrow> server \<Rightarrow> bool" where
  "only_sync sv sv' \<longleftrightarrow> sv_sessions sv' = sv_sessions sv \<and> (\<forall>p. p_id (sv_heap sv' p) = p_id (sv_heap sv p))"

lemma tx_failed_quiet:
  assumes "with_db m sv = (Inl e, sv')" "\<And>d fl e d' fl'. m d fl = (Inl e, d', fl') \<Longrightarrow> d' = d"
  shows "quiet.moves sv sv'"
proof (cases "sv_db sv")
  case None
  with assms(1) show ?thesis by (simp add: with_db_def quiet.moves_refl)
next
  case (Some d)
  obtain r d' fl' where m: "m d (sv_faults sv) = (r, d', fl')" by (metis prod.exhaust)
  with assms(1) Some have "r = Inl e" "sv_db sv' = Some d'" by (auto simp: with_db_def)
  moreover have "d' = d" using assms(2) m calculation(1) by blast
  ultimately show ?thesis using Some by (simp add: quiet_tables item_tables_def)
qed

lemmas quiet_replies = quiet.moves_sends quiet.moves_audit quiet.moves_force_sync quiet.moves_wallet

lemma quiet_ledger: "quiet.moves a b \<Longrightarrow> quiet.moves a (record_ledger f b)"
  by (rule quiet.moves_same [OF record_ledger_frame(1)])

lemma quiet_item_replies:
  assumes "quiet.moves a b"
  shows "quiet.moves a (reject_item env p pkt b)" "quiet.moves a (record_reply env p u b)"
    "quiet.moves a (audit_kv env q e kvs b)" "quiet.moves a (rejected_item_pickup env p q pkt t b)"
  using assms
  by (simp_all add: reject_item_def record_reply_def audit_kv_def rejected_item_pickup_def quiet_replies quiet_ledger)

lemma settled_quiet: "quiet.moves sv sv' \<Longrightarrow> settled sid a sv sv'"
  by (simp add: settled_def)

lemma settled_found: "answered sid a (sv_ledger sv') \<Longrightarrow> settled sid a sv sv'"
  by (simp add: settled_def)

lemma record_reply_found: "ledger_ok (p_id (sv_heap sv p)) (sv_ledger sv) \<Longrightarrow>
    answered (p_id (sv_heap sv p)) (iu_action_id u) (sv_ledger (record_reply env p u sv))"
  by (simp add: record_reply_def record_found)

lemma rejected_pickup_found: "ledger_ok (p_id (sv_heap sv p)) (sv_ledger sv) \<Longrightarrow>
    answered (p_id (sv_heap sv p)) (ia_action_id pkt) (sv_ledger (rejected_item_pickup env p q pkt t sv))"
  by (simp add: rejected_item_pickup_def record_reply_def item_result_def record_found)

lemma settled_drop:
  assumes "ledger_ok (p_id (sv_heap sv p)) (sv_ledger sv)"
  shows "settled (p_id (sv_heap sv p)) (ia_action_id pkt) sv (handle_item_drop env p u l s pkt sv)"
proof (cases "ia_count pkt = 0")
  case True
  then show ?thesis
    by (simp add: handle_item_drop_def settled_quiet quiet_item_replies quiet_replies quiet.moves_refl)
next
  case False
  define m where "m = drop_item_to_world u l s (uint (ia_count pkt))
     (clamp_item_coord (ia_x pkt), clamp_item_coord (ia_y pkt), clamp_item_coord (ia_z pkt))
     (min (uint (ia_condition pkt)) 100) (world_item_max_per_level sv) (unix env)"
  obtain r sv1 where w: "with_db m sv = (r, sv1)" by (rule prod.exhaust)
  note fr = with_db_frame [OF w]
  show ?thesis
  proof (cases r)
    case (Inl e)
    have "quiet.moves sv sv1"
      by (rule tx_failed_quiet [OF w [unfolded Inl]])
         (auto simp: m_def drop_item_to_world_def dest: run_tx_atomic split: if_splits)
    then show ?thesis
      using False w unfolding Inl handle_item_drop_def Let_def m_def
      by (auto intro!: settled_quiet quiet_item_replies quiet_replies)
  next
    case (Inr x)
    obtain i rem c where x: "x = (i, rem, c)" by (cases x) auto
    show ?thesis
      using False w fr assms unfolding Inr x handle_item_drop_def Let_def m_def
      by (auto intro!: settled_found simp: record_found)
  qed
qed

lemma settled_pickup:
  assumes "ledger_ok (p_id (sv_heap sv p)) (sv_ledger sv)"
  shows "settled (p_id (sv_heap sv p)) (ia_action_id pkt) sv (handle_item_pickup env p u l pos pkt sv)"
proof (cases "ia_item_id pkt = 0")
  case True
  then show ?thesis by (simp add: handle_item_pickup_def settled_quiet quiet_item_replies quiet.moves_refl)
next
  case False
  obtain r sv1 where g: "with_db (get_world_item (uint (ia_item_id pkt))) sv = (r, sv1)" by (rule prod.exhaust)
  obtain r2 sv2 where k: "with_db (pickup_world_item u (uint (ia_item_id pkt))) sv1 = (r2, sv2)" by (rule prod.exhaust)
  have f: "answered (p_id (sv_heap sv p)) (ia_action_id pkt) (sv_ledger (rejected_item_pickup env p u pkt t sv1))"
    "answered (p_id (sv_heap sv p)) (ia_action_id pkt) (sv_ledger (rejected_item_pickup env p u pkt t sv2))" for t
    using rejected_pickup_found [of sv1 p pkt env u t] rejected_pickup_found [of sv2 p pkt env u t] assms
    by (simp_all add: with_db_frame [OF g] with_db_frame [OF k])
  have c: "ledger_ok (p_id (sv_heap sv2 p)) (sv_ledger sv2)" "p_id (sv_heap sv2 p) = p_id (sv_heap sv p)"
    using assms by (simp_all add: with_db_frame [OF g] with_db_frame [OF k])
  show ?thesis
    using False g k f record_found [OF c(1)] unfolding handle_item_pickup_def Let_def
    by (cases r; cases r2) (simp_all add: settled_found c(2))
qed

lemma settled_consume:
  assumes "ledger_ok (p_id (sv_heap sv p)) (sv_ledger sv)"
  shows "settled (p_id (sv_heap sv p)) (ia_action_id pkt) sv (handle_item_consume env p u s pkt sv)"
proof (cases "ia_count pkt = 0")
  case True
  then show ?thesis
    by (simp add: handle_item_consume_def settled_quiet quiet_item_replies quiet_replies quiet.moves_refl)
next
  case False
  obtain r sv1 where w: "with_db (consume_item u s (uint (ia_count pkt))) sv = (r, sv1)" by (rule prod.exhaust)
  obtain n sv2 where c: "correction u s sv1 = (n, sv2)" by (rule prod.exhaust)
  have "sv_ledger sv2 = sv_ledger sv1" "sv_heap sv2 = sv_heap sv1"
    using c with_db_snd [of "available_item_count u s" sv1]
    by (auto simp: correction_def simp del: with_db_snd split: prod.splits sum.splits)
  with w c with_db_frame [OF w] assms False show ?thesis
    unfolding handle_item_consume_def Let_def
    by (auto split: sum.split intro!: settled_found record_reply_found
        simp: record_reply_def record_found item_result_def)
qed

lemma settled_apply:
  assumes "ledger_ok (p_id (sv_heap sv p)) (sv_ledger sv)"
  shows "settled (p_id (sv_heap sv p)) (ia_action_id pkt) sv (apply_item_action env p pkt sv)"
  unfolding apply_item_action_def Let_def
  by (simp add: settled_drop settled_pickup settled_consume assms settled_quiet quiet_item_replies quiet_replies
      quiet.moves_refl)

lemma settled_packet:
  assumes "ledger_ok (p_id (sv_heap sv p)) (sv_ledger sv)"
  shows "settled (p_id (sv_heap sv p)) (ia_action_id pkt) sv (item_action_packet env p pkt sv)"
proof -
  obtain ok sv1 where b: "take_budget env (p_id (sv_heap sv p)) sv = (ok, sv1)" by (rule prod.exhaust)
  note fr = take_budget_frame [OF b]
  have q: "quiet.moves sv sv1" by (rule quiet.moves_same [OF fr(1) quiet.moves_refl])
  have "settled (p_id (sv_heap sv p)) (ia_action_id pkt) sv1 (apply_item_action env p pkt sv1)"
    using settled_apply [of sv1 p pkt env] budget_ledger_ok [OF b assms] fr(2) by simp
  then have "settled (p_id (sv_heap sv p)) (ia_action_id pkt) sv (apply_item_action env p pkt sv1)"
    using quiet.moves_trans [OF q] by (auto simp: settled_def)
  then show ?thesis
    using b q unfolding item_action_packet_def Let_def
    by (auto split: option.split
        intro!: settled_quiet quiet_item_replies quiet_replies quiet.moves_refl simp: send_item_update_def)
qed

text \<open>A cached action is echoed: the tables and the cache stay.\<close>

lemma packet_echo:
  assumes "lookup_item (p_id (sv_heap sv p)) (ia_action_id pkt) (sv_ledger sv) \<noteq> None"
  shows "item_tables (item_action_packet env p pkt sv) = item_tables sv"
    "sv_ledger (item_action_packet env p pkt sv) = sv_ledger sv"
    "sv_heap (item_action_packet env p pkt sv) = sv_heap sv"
    "sv_sessions (item_action_packet env p pkt sv) = sv_sessions sv"
  using assms by (auto simp: item_action_packet_def Let_def item_tables_def reject_item_def)

section \<open>The item ring through a handler\<close>

named_theorems aged_intros \<open>a step pushes at most so many results\<close>

definition aged :: "u32 \<Rightarrow> nat \<Rightarrow> server \<Rightarrow> server \<Rightarrow> bool" where
  "aged k n a b \<longleftrightarrow> sv_sessions b = sv_sessions a \<and> (\<forall>p. p_id (sv_heap b p) = p_id (sv_heap a p)) \<and>
     (ledger_ok k (sv_ledger a) \<longrightarrow> ledger_ok k (sv_ledger b) \<and>
       (\<exists>xs. length xs \<le> n \<and> item_hist k (sv_ledger b) = take 256 (xs @ item_hist k (sv_ledger a))))"

lemma hist_full: "ledger_ok k l \<Longrightarrow> take 256 (item_hist k l) = item_hist k l"
  using items.hist_bound [of k l] by simp

lemma aged_refl [simp, aged_intros]: "aged k n a a"
  by (auto simp: aged_def hist_full intro!: exI [of _ "[]"])

lemma aged_trans: "aged k m a b \<Longrightarrow> aged k n b c \<Longrightarrow> aged k (m + n) a c"
proof -
  have "take 256 (ys @ take 256 (xs @ h)) = take 256 ((ys @ xs) @ h)" for xs ys and h :: "(u32 \<times> item_update) list"
    by (cases "length ys \<le> 256") (simp_all add: min_def)
  moreover have "length xs \<le> m \<Longrightarrow> length ys \<le> n \<Longrightarrow> length (ys @ xs) \<le> m + n" for xs ys :: "(u32 \<times> item_update) list"
    by simp
  ultimately show "aged k m a b \<Longrightarrow> aged k n b c \<Longrightarrow> ?thesis" unfolding aged_def by metis
qed

lemma aged_weaken: "aged k 0 a b \<Longrightarrow> aged k n a b"
  by (auto simp: aged_def intro!: exI [of _ "[]"])

lemma aged_same:
  assumes "sv_sessions c = sv_sessions b" "\<And>p. p_id (sv_heap c p) = p_id (sv_heap b p)"
    and "ledger_ok k (sv_ledger b) \<Longrightarrow> ledger_ok k (sv_ledger c) \<and> item_hist k (sv_ledger c) = item_hist k (sv_ledger b)"
    and "aged k n a b"
  shows "aged k n a c"
  using assms unfolding aged_def by metis

lemma aged_if [aged_intros]: "(P \<Longrightarrow> aged k n a x) \<Longrightarrow> (\<not> P \<Longrightarrow> aged k n a y) \<Longrightarrow> aged k n a (if P then x else y)"
  by simp

lemma aged_opt [aged_intros]: "aged k n a x \<Longrightarrow> (\<And>v. aged k n a (f v)) \<Longrightarrow> aged k n a (case z of None \<Rightarrow> x | Some v \<Rightarrow> f v)"
  by (cases z) simp_all

lemma aged_prod: "(\<And>x y. aged k n a (f x y)) \<Longrightarrow> aged k n a (case z of (x, y) \<Rightarrow> f x y)"
  by (cases z) simp

text \<open>What comes before the first recorded result pushes nothing.\<close>

lemma aged_case [aged_intros]:
  assumes "aged k 0 a b" "\<And>e sv. aged k 0 a sv \<Longrightarrow> aged k n a (F e sv)" "\<And>x sv. aged k 0 a sv \<Longrightarrow> aged k n a (G x sv)"
  shows "aged k n a (case with_db m b of (r, sv) \<Rightarrow> (case r of Inl e \<Rightarrow> F e sv | Inr x \<Rightarrow> G x sv))"
  using aged_same [OF with_db_snd(2) _ _ assms(1), of m] assms(2,3) by (auto split: prod.split sum.split)

lemma aged_tuple [aged_intros]:
  "aged k 0 a (snd z) \<Longrightarrow> (\<And>x y. aged k 0 a y \<Longrightarrow> aged k n a (f x y)) \<Longrightarrow> aged k n a (case z of (x, y) \<Rightarrow> f x y)"
  by (cases z) simp

lemma aged_correction: "aged k n a b \<Longrightarrow> aged k n a (snd (correction u s b))"
  by (rule aged_same) (auto simp: correction_def simp del: with_db_snd dest: with_db_frame split: prod.split sum.split)

lemma aged_corrected [aged_intros]:
  "aged k n a b \<Longrightarrow> aged k n a (snd (if P then case correction u s b of (i, sv) \<Rightarrow> (g i, sv) else (y, b)))"
  using aged_correction [of k n a b u s] by (simp add: split_def)

lemma aged_budget [aged_intros]:
  assumes "aged k 0 a b" "\<And>ok sv. aged k 0 a sv \<Longrightarrow> aged k n a (F ok sv)"
  shows "aged k n a (case take_budget env sid b of (ok, sv) \<Rightarrow> F ok sv)"
proof -
  obtain ok sv where t: "take_budget env sid b = (ok, sv)" by (rule prod.exhaust)
  have "item_hist k (sv_ledger sv) = item_hist k (sv_ledger b)"
    using t by (auto simp: take_budget_def allow_action_def Let_def item_hist_def split: prod.splits)
  with assms(1) have "aged k 0 a sv"
    using take_budget_frame [OF t] budget_ledger_ok [OF t] by (intro aged_same [OF _ _ _ assms(1)]) auto
  with assms(2) t show ?thesis by simp
qed

lemma aged_sends [aged_intros]:
  assumes "aged k n a b"
  shows "aged k n a (send_item_update env u p b)" "aged k n a (force_inventory_sync env p b)" "aged k n a (audit_kv env q e t b)"
    "aged k n a (send_wallet_update env p b)" "aged k n a (broadcast_item_update env p l x z u b)" "aged k n a (reject_item env p pkt b)"
    "aged k n a (reply_container env cu p b)" "aged k n a (reply_stash_result env su p b)" "aged k n a (reply_trade_result env tu p b)"
  by (rule aged_same [OF _ _ _ assms]; simp add: reject_item_def reply_container_def reply_stash_result_def reply_trade_result_def)+

text \<open>A recorded result is pushed, unless it belongs to another session.\<close>

lemma aged_record [aged_intros]:
  assumes "aged k 0 a b"
  shows "aged k 1 a (record_ledger (record_item sid i u) b)"
proof -
  have "aged k 1 b (record_ledger (record_item sid i u) b)"
  proof (cases "sid = k")
    case True
    then show ?thesis using items.store_hist [of k "sv_ledger b" i u] ledger_ok_record(1) [of k "sv_ledger b" i u]
      by (auto simp: aged_def intro!: exI [of _ "[(i, u)]"])
  next
    case False
    have "aged k 1 b b" by simp
    then show ?thesis
      by (rule aged_same [rotated -1]) (use False in \<open>simp_all add: item_hist_def ledger_ok_def record_defs\<close>)
  qed
  from aged_trans [OF assms this] show ?thesis by simp
qed

lemma aged_record_other:
  "aged k 0 a b \<Longrightarrow> sid \<noteq> k \<Longrightarrow> aged k 0 a (record_ledger (record_item sid i u) b)"
  by (rule aged_same) (simp_all add: item_hist_def ledger_ok_def record_defs)

lemma aged_record_replies [aged_intros]:
  assumes "aged k 0 a b"
  shows "aged k 1 a (record_reply env p u b)" "aged k 1 a (rejected_item_pickup env p q pkt t b)"
  using assms unfolding record_reply_def rejected_item_pickup_def by (intro aged_intros, assumption)+

lemma aged_id: "aged k n a b \<Longrightarrow> p_id (sv_heap b p) = p_id (sv_heap a p)"
  by (simp add: aged_def)

lemma aged_other_replies:
  assumes "aged k 0 a b" "p_id (sv_heap a p) \<noteq> k"
  shows "aged k 0 a (record_reply env p u b)" "aged k 0 a (rejected_item_pickup env p q pkt t b)"
    "aged k 0 a (record_ledger (record_item (p_id (sv_heap b p)) i u) b)"
  using assms aged_id [OF assms(1), of p] unfolding rejected_item_pickup_def record_reply_def
  by (auto intro!: aged_sends aged_record_other)

text \<open>The other three rings leave the item ring alone.\<close>

lemma aged_other_records [aged_intros]:
  assumes "aged k n a b"
  shows "aged k n a (record_ledger (record_container sid i cu) b)" "aged k n a (record_ledger (record_stash sid i su) b)"
    "aged k n a (record_ledger (record_trade sid i tu) b)"
  by (rule aged_same [OF _ _ _ assms]; auto simp: item_hist_def ledger_ok_def record_defs ring_record_ok)+

lemma aged_answers [aged_intros]:
  assumes "aged k n a b"
  shows "aged k n a (record_reply_container env p cu b)" "aged k n a (reject_container env p cpkt b)"
    "aged k n a (record_reply_stash env p su b)" "aged k n a (reject_stash env p spkt r c b)"
    "aged k n a (stash_rejected env p q spkt t b)" "aged k n a (record_reply_trade env p tu b)" "aged k n a (reject_trade env p tpkt x b)"
  using assms
  by (auto simp: record_reply_container_def reject_container_def record_reply_stash_def reject_stash_def stash_rejected_def
      record_reply_trade_def reject_trade_def Let_def intro!: aged_intros)

section \<open>Action packets\<close>

lemma aged_item_packet: "aged k 1 sv (item_action_packet env p pkt sv)"
  unfolding item_action_packet_def apply_item_action_def handle_item_drop_def handle_item_pickup_def
    handle_item_consume_def Let_def
  by (intro aged_budget aged_intros aged_prod) (assumption | rule aged_refl | erule aged_weaken)+

lemma aged_other_item_packet: "p_id (sv_heap sv p) \<noteq> k \<Longrightarrow> aged k 0 sv (item_action_packet env p pkt sv)"
  unfolding item_action_packet_def apply_item_action_def handle_item_drop_def handle_item_pickup_def
    handle_item_consume_def Let_def
  by (intro aged_budget aged_if aged_opt aged_case aged_tuple aged_corrected aged_sends aged_other_replies aged_prod)
     (assumption | rule aged_refl)+

lemma aged_container_packet: "aged k 0 sv (container_action_packet env p pkt sv)"
  unfolding container_action_packet_def apply_container_action_def container_deposit_def container_withdraw_def Let_def
  by (intro aged_intros) (assumption | rule aged_refl)+

lemma aged_stash_packet: "aged k 0 sv (stash_action_packet env p pkt sv)"
  unfolding stash_action_packet_def apply_stash_action_def stash_store_def stash_take_def Let_def
  by (intro aged_intros aged_correction) (assumption | rule aged_refl)+

lemma aged_trade_packet: "aged k 0 sv (trade_action_packet env p pkt sv)"
  unfolding trade_action_packet_def apply_trade_action_def trade_sell_def trade_buy_def Let_def
  by (intro aged_budget aged_intros aged_prod) (assumption | rule aged_refl)+

text \<open>The id of the session an address belongs to, and the item packets that come from a session.\<close>

definition sender :: "udp_addr \<Rightarrow> server \<Rightarrow> u32 option" where
  "sender a sv = map_option (\<lambda>p. p_id (sv_heap sv p)) (get_by_addr (addr_string a) (sv_sessions sv))"

fun item_packet_of :: "u32 option \<Rightarrow> server \<Rightarrow> env \<times> udp_addr \<times> action_packet \<Rightarrow> bool" where
  "item_packet_of k sv (env, a, ActItem b) = (sender a sv = k)"
| "item_packet_of k sv _ = False"

lemma aged_sender: "aged k n a b \<Longrightarrow> sender x b = sender x a"
  by (simp add: aged_def sender_def)

lemma item_packet_of_aged: "aged k n a b \<Longrightarrow> item_packet_of s b e = item_packet_of s a e"
  by (cases "(s, b, e)" rule: item_packet_of.cases) (simp_all add: aged_sender)

lemma aged_receive: "aged k (if item_packet_of (Some k) sv e then 1 else 0) sv (receive e sv)"
proof (cases "(e, sv)" rule: receive.cases)
  case (1 env a b sv')
  then show ?thesis
    using aged_item_packet [of k] aged_other_item_packet [of _ _ k]
    by (auto simp: handle_item_action_def sender_def split: option.split)
qed (auto simp: handle_container_action_def handle_stash_action_def handle_trade_action_def
    aged_container_packet aged_stash_packet aged_trade_packet split: option.split)

lemma aged_receives: "aged k (length (filter (item_packet_of (Some k) sv) es)) sv (fold receive es sv)"
proof (induction es arbitrary: sv)
  case (Cons e es)
  let ?n = "if item_packet_of (Some k) sv e then 1 else 0"
  note st = aged_receive [of k sv e]
  have "filter (item_packet_of (Some k) (receive e sv)) es = filter (item_packet_of (Some k) sv) es"
    by (rule filter_cong [OF refl item_packet_of_aged [OF st]])
  with aged_trans [OF st Cons.IH [of "receive e sv"]] show ?case by (cases "item_packet_of (Some k) sv e") simp_all
qed simp

section \<open>Properties\<close>

text \<open>An answered action is still in the cache while fewer than 256 results have been pushed onto it.\<close>

lemma still_cached:
  assumes "answered k i (sv_ledger a)" "ledger_ok k (sv_ledger a)" "aged k n a b" "n < 256"
  shows "lookup_item k i (sv_ledger b) \<noteq> None"
proof -
  obtain xs where b: "ledger_ok k (sv_ledger b)" "length xs \<le> n" "item_hist k (sv_ledger b) = take 256 (xs @ item_hist k (sv_ledger a))"
    using assms(2,3) by (auto simp: aged_def)
  obtain u h where "item_hist k (sv_ledger a) = (i, u) # h" using assms(1) by (auto simp: answered_def)
  then have "item_hist k (sv_ledger b) = xs @ (i, u) # take (255 - length xs) h"
    using b(2,3) assms(4) by (simp add: take_Cons')
  then have "i \<in> fst ` set (item_hist k (sv_ledger b))" by simp
  with hist_lookup(1) [OF b(1)] show ?thesis by blast
qed

text \<open>C2: A retransmitted item action is applied at most once. Whatever bytes an item packet holds and whatever the first
  delivery did: if it changed the inventories, the world, the stashes or the characters, then delivering the same bytes
  again changes none of them, at any later time at which fewer than 256 further item packets of the same session have
  arrived. In between any action packets of any sessions may come, the same bytes among them. (With 256 newer results
  the ring has forgotten the action; the floor, which can go back, does not replace it.)\<close>

theorem retransmissions_apply_once:
  assumes "\<forall>sid. ledger_ok sid (sv_ledger sv)"
    and "length (filter (item_packet_of (sender addr sv) sv) es) < 256"
  shows "let sv1 = handle_item_action env addr buf sv; sv2 = fold receive es sv1 in
    item_tables sv1 = item_tables sv \<or> item_tables (handle_item_action env' addr buf sv2) = item_tables sv2"
proof (cases "read_item_action buf")
  case None
  then show ?thesis by (simp add: handle_item_action_def)
next
  case (Some pr)
  obtain pkt rest where r: "read_item_action buf = Some (pkt, rest)" using Some by (cases pr) simp
  show ?thesis
  proof (cases "get_by_addr (addr_string addr) (sv_sessions sv)")
    case None
    with r show ?thesis by (simp add: handle_item_action_def)
  next
    case (Some p)
    let ?sv1 = "item_action_packet env p pkt sv" and ?k = "p_id (sv_heap sv p)"
    have h: "handle_item_action env addr buf sv = ?sv1" using r Some by (simp add: handle_item_action_def)
    have k: "sender addr sv = Some ?k" using Some by (simp add: sender_def)
    note a1 = aged_item_packet [of ?k sv env p pkt]
    have "filter (item_packet_of (Some ?k) ?sv1) es = filter (item_packet_of (sender addr sv) sv) es"
      unfolding k by (rule filter_cong [OF refl item_packet_of_aged [OF a1]])
    then have n: "length (filter (item_packet_of (Some ?k) ?sv1) es) < 256" using assms(2) by simp
    note a2 = aged_receives [of ?k ?sv1 es]
    have "settled ?k (ia_action_id pkt) sv ?sv1" using assms by (intro settled_packet) simp
    then consider "item_tables ?sv1 = item_tables sv" | "answered ?k (ia_action_id pkt) (sv_ledger ?sv1)"
      by (auto simp: settled_def quiet_tables)
    then show ?thesis
    proof cases
      case 1
      then show ?thesis by (simp add: h)
    next
      case 2
      have "ledger_ok ?k (sv_ledger ?sv1)" using a1 assms(1) by (simp add: aged_def)
      note c = still_cached [OF 2 this a2 n]
      have "get_by_addr (addr_string addr) (sv_sessions (fold receive es ?sv1)) = Some p" "p_id (sv_heap (fold receive es ?sv1) p) = ?k"
        using a1 a2 Some by (simp_all add: aged_def)
      then show ?thesis using packet_echo(1) [of "fold receive es ?sv1" p pkt env'] c r by (simp add: h handle_item_action_def [of env'])
    qed
  qed
qed

lemma demo_consume: "consume_item ''u1'' ''bread'' 12 (demo_db [demo_row 1 30 (Fin 1)]) [] =
    (Inr 18, demo_db [demo_row 1 18 (Fin 1)], [])"
  by (simp add: consume_item_def demo_simps)

text \<open>Twelve loaves are eaten once, though the packet comes three times, with a trade in between.\<close>

definition demo_between :: "(env \<times> udp_addr \<times> action_packet) list" where
  "demo_between = [(demo_env 2, demo_endpoint, ActItem (demo_bytes 3 7)), (demo_env 3, demo_endpoint, ActTrade (replicate 80 2))]"

theorem retransmissions_apply_once_witness:
  "let sv = demo_server (demo_db [demo_row 1 30 (Fin 1)]);
       sv1 = handle_item_action (demo_env 1) demo_endpoint (demo_bytes 3 7) sv; sv2 = fold receive demo_between sv1
   in item_tables sv1 \<noteq> item_tables sv \<and> item_tables (handle_item_action (demo_env 9) demo_endpoint (demo_bytes 3 7) sv2) = item_tables sv2"
proof -
  let ?sv = "demo_server (demo_db [demo_row 1 30 (Fin 1)])"
  let ?sv1 = "handle_item_action (demo_env 1) demo_endpoint (demo_bytes 3 7) ?sv"
  have "\<forall>sid. ledger_ok sid (sv_ledger ?sv)"
    by (simp add: demo_server_def new_ledger_def ledger_ok_def state_of_def new_action_state_def new_ring_ok Let_def)
  moreover have "length (filter P demo_between) < 256" for P by (simp add: demo_between_def)
  ultimately have once: "item_tables ?sv1 = item_tables ?sv \<or>
      item_tables (handle_item_action (demo_env 9) demo_endpoint (demo_bytes 3 7) (fold receive demo_between ?sv1)) = item_tables (fold receive demo_between ?sv1)"
    using retransmissions_apply_once [where env = "demo_env 1" and buf = "demo_bytes 3 7"] unfolding Let_def by blast
  obtain ok l where b: "take_budget (demo_env 1) 1 ?sv = (True, ?sv\<lparr>sv_ledger := l\<rparr>)"
    by (simp add: take_budget_def allow_action_def demo_server_def new_ledger_def state_of_def new_action_state_def
        window_admit_def allowed_per_window_def Let_def)
  let ?b = "?sv\<lparr>sv_ledger := l\<rparr>" and ?sv2 = "?sv\<lparr>sv_ledger := l, sv_db := Some (demo_db [demo_row 1 18 (Fin 1)])\<rparr>"
  have sec: "null_term_string (fixed_bytes 64 ''bread'') = ''bread''" "valid_item_section (en_uprint (demo_env 1)) ''bread''"
    by code_simp+
  have w: "with_db (consume_item ''u1'' ''bread'' 12) ?b = (Inr 18, ?sv2)"
    using demo_consume by (simp add: with_db_def demo_server_fields)
  have a: "ia_action (demo_action 3 7) = 3" "ia_action_id (demo_action 3 7) = 7" "ia_count (demo_action 3 7) = 12"
    "ia_section (demo_action 3 7) = fixed_bytes 64 ''bread''" by (simp_all add: demo_action_def)
  have "?sv1 = apply_item_action (demo_env 1) 0 (demo_action 3 7) ?b"
    using b by (simp add: handle_item_action_def demo_bytes_read demo_lookup item_action_packet_def a
        demo_server_fields demo_heap_fields lookup_item_def is_stale_def new_ledger_def)
  also have "quiet.moves ?sv2 \<dots>"
    using w sec by (simp add: apply_item_action_def Let_def a demo_heap_fields handle_item_consume_def
        demo_server_fields quiet_item_replies quiet.moves_refl)
  finally have t: "item_tables ?sv1 = Some (d_inv (demo_db [demo_row 1 18 (Fin 1)]), [], [], d_chars (demo_db []))"
    by (simp add: quiet_tables item_tables_def demo_db_def)
  have "item_tables ?sv1 \<noteq> item_tables ?sv"
    unfolding t by (simp add: item_tables_def demo_server_fields demo_db_def demo_row_def)
  with once show ?thesis unfolding Let_def by blast
qed

section \<open>The floor\<close>

text \<open>C40: The shared floor is not monotonic. When a session sends a container action under an ActionID \<open>b\<close> that is
  stale and not in the container cache, the rejection is recorded and puts the floor back to \<open>b\<close>: every greater
  ActionID \<open>a\<close> that was stale (an item action used it, say) and that the container cache does not hold is then
  neither stale nor cached, so the container handler accepts it although it was used. The comments call the floor
  monotonic and promise that no opcode can replay another's ActionIDs.\<close>

theorem floor_not_monotonic:
  assumes "k = p_id (sv_heap sv p)" "ledger_ok k (sv_ledger sv)" "is_stale k a (sv_ledger sv)" "b < a"
    and "ca_action_id pkt = b" "lookup_container k b (sv_ledger sv) = None" "lookup_container k a (sv_ledger sv) = None"
  shows "let l' = sv_ledger (container_action_packet env p pkt sv) in
    is_stale k b (sv_ledger sv) \<and> \<not> is_stale k a l' \<and> lookup_container k a l' = None"
proof -
  let ?u = "container_result pkt result_rejected 0" and ?l = "sv_ledger sv"
  have b: "is_stale k b ?l" using assms(3,4) by (auto simp: is_stale_def split: option.splits)
  then have "container_action_packet env p pkt sv = reject_container env p pkt sv"
    using assms(1,5,6) by (simp add: container_action_packet_def Let_def)
  then have l: "sv_ledger (container_action_packet env p pkt sv) = record_container k b ?u ?l"
    using assms(1,5) by (simp add: reject_container_def record_reply_container_def reply_container_def reply_def container_result_def)
  have "\<not> is_stale k a (record_container k b ?u ?l)" using assms(4) by (simp add: is_stale_def record_defs put_state_def)
  moreover have "lookup_container k a (record_container k b ?u ?l) = None"
    using assms(2,4,7) containers.store_hist [OF assms(2), of b ?u]
    by (simp add: hist_lookup(2) [OF ledger_ok_record(2)] hist_lookup(2)) (auto dest: in_set_takeD)
  ultimately show ?thesis using b by (simp add: l)
qed

text \<open>Item action 9 was answered; container action 3 comes late, and container action 9 is then not refused.\<close>

definition demo_used :: server where
  "demo_used = (demo_server (demo_db []))\<lparr>sv_ledger := record_item 1 9 (demo_result 9) (new_ledger (Fin 5))\<rparr>"

definition demo_late :: container_action where
  "demo_late = \<lparr>ca_action_id = 3, ca_container_id = 1, ca_action = 1, ca_section = [], ca_count = 1,
     ca_x = Fin 0, ca_y = Fin 0, ca_z = Fin 0, ca_condition = 0\<rparr>"

theorem floor_not_monotonic_witness:
  "let l' = sv_ledger (container_action_packet (demo_env 1) 0 demo_late demo_used) in
    is_stale 1 9 (sv_ledger demo_used) \<and> \<not> is_stale 1 9 l' \<and> lookup_container 1 9 l' = None"
proof -
  have k: "p_id (sv_heap demo_used 0) = 1" by (simp add: demo_used_def demo_server_fields demo_heap_fields)
  have l: "sv_ledger demo_used = record_item 1 9 (demo_result 9) (new_ledger (Fin 5))" by (simp add: demo_used_def)
  have ok: "ledger_ok 1 (sv_ledger demo_used)" unfolding l by (intro ledger_ok_record ledger_ok_new)
  have c: "is_stale 1 9 (sv_ledger demo_used)" "lookup_container 1 3 (sv_ledger demo_used) = None"
    "lookup_container 1 9 (sv_ledger demo_used) = None"
    unfolding l by (simp_all add: record_defs is_stale_def put_state_def lookup_container_def
      state_of_def new_ledger_def new_action_state_def ring_lookup_def new_ring_def)
  show ?thesis using floor_not_monotonic [OF k [symmetric] ok c(1) _ _ c(2,3), of demo_late "demo_env 1"] c(1)
    by (simp add: demo_late_def Let_def)
qed

end
