(* ===== verification/Emission.thy ===== *)
theory Emission
  imports GoFloat
begin

text \<open>
  Zone emissions: the state machine of internal/game/emission.go. \<open>Tick\<close> answers what it
  broadcasts, if anything: the phase and the timer in seconds; sending it to the sessions is
  \<open>emission_broadcast\<close> of the server theories. Every operation is one critical section.
\<close>

record emission =
  em_state :: u8
  em_next :: gotime
  em_dormant :: duration
  em_warning :: duration
  em_active :: duration
  em_clear :: duration
  em_forced :: bool

section \<open>Operations\<close>

abbreviation st_dormant :: u8 where "st_dormant \<equiv> 0"
abbreviation st_warning :: u8 where "st_warning \<equiv> 1"
abbreviation st_active :: u8 where "st_active \<equiv> 2"
abbreviation st_clear :: u8 where "st_clear \<equiv> 3"

definition new_emission :: "gotime \<Rightarrow> duration list \<Rightarrow> emission" where
  "new_emission now ds = (let dormant = (case ds of [] \<Rightarrow> 1800 * second | d # _ \<Rightarrow> if 0 < d then d else 1800 * second)
     in \<lparr>em_state = st_dormant, em_next = now + dormant, em_dormant = dormant, em_warning = 60 * second,
         em_active = 120 * second, em_clear = 30 * second, em_forced = False\<rparr>)"

definition time_until_next :: "gotime \<Rightarrow> emission \<Rightarrow> duration" where
  "time_until_next now e = (let rem = time_sub (em_next e) now in if rem < 0 then 0 else rem)"

definition set_dormant_duration :: "gotime \<Rightarrow> duration \<Rightarrow> emission \<Rightarrow> emission" where
  "set_dormant_duration now d e = (if d \<le> 0 then e
     else let e1 = e\<lparr>em_dormant := d\<rparr> in if em_state e1 = st_dormant then e1\<lparr>em_next := now + d\<rparr> else e1)"

definition set_warning_duration :: "duration \<Rightarrow> emission \<Rightarrow> emission" where
  "set_warning_duration d e = (if 0 < d then e\<lparr>em_warning := d\<rparr> else e)"

definition set_active_duration :: "duration \<Rightarrow> emission \<Rightarrow> emission" where
  "set_active_duration d e = (if 0 < d then e\<lparr>em_active := d\<rparr> else e)"

definition set_clear_duration :: "duration \<Rightarrow> emission \<Rightarrow> emission" where
  "set_clear_duration d e = (if 0 < d then e\<lparr>em_clear := d\<rparr> else e)"

definition force_emission :: "gotime \<Rightarrow> emission \<Rightarrow> emission" where
  "force_emission now e = e\<lparr>em_state := st_warning, em_next := now + em_warning e, em_forced := True\<rparr>"

text \<open>\<open>uint32(d.Seconds())\<close>: the whole seconds and the nanoseconds are added as floats.\<close>

definition seconds_u32 :: "duration \<Rightarrow> u32" where
  "seconds_u32 d = word_of_int \<lfloor>fval (add64 (rnd64 (of_int (d div second))) (fdiv_const rnd64 (Fin (of_int (d mod second))) 1000000000))\<rfloor>"

definition next_phase :: "emission \<Rightarrow> u8 \<times> duration" where
  "next_phase e = (if em_state e = st_dormant then (st_warning, em_warning e)
     else if em_state e = st_warning then (st_active, em_active e)
     else if em_state e = st_active then (st_clear, em_clear e)
     else (st_dormant, em_dormant e))"

definition emission_tick :: "gotime \<Rightarrow> emission \<Rightarrow> emission \<times> (u8 \<times> u32) option" where
  "emission_tick now e =
     (if em_forced e then
        let e1 = e\<lparr>em_forced := False\<rparr>;
            rem = (if now < em_next e1 then seconds_u32 (time_sub (em_next e1) now) else 0);
            rem = (if rem = 0 \<and> 0 < em_warning e1 then seconds_u32 (em_warning e1) else rem)
        in (e1, Some (em_state e1, rem))
      else if now < em_next e then (e, None)
      else case next_phase e of (st, d) \<Rightarrow>
        (e\<lparr>em_state := st, em_next := now + d\<rparr>, Some (st, seconds_u32 d)))"

section \<open>Histories\<close>

datatype em_event = ETick gotime | EForce gotime | ESetDormant gotime duration
  | ESetWarning duration | ESetActive duration | ESetClear duration

fun em_apply :: "em_event \<Rightarrow> emission \<Rightarrow> emission" where
  "em_apply (ETick t) e = fst (emission_tick t e)"
| "em_apply (EForce t) e = force_emission t e"
| "em_apply (ESetDormant t d) e = set_dormant_duration t d e"
| "em_apply (ESetWarning d) e = set_warning_duration d e"
| "em_apply (ESetActive d) e = set_active_duration d e"
| "em_apply (ESetClear d) e = set_clear_duration d e"

definition em_run :: "em_event list \<Rightarrow> emission \<Rightarrow> emission" where
  "em_run evs e = fold em_apply evs e"

text \<open>The event that starts a warning, with the time it happens at.\<close>

fun starts_warning :: "em_event \<Rightarrow> gotime \<Rightarrow> bool" where
  "starts_warning (ETick t) t' \<longleftrightarrow> t' = t"
| "starts_warning (EForce t) t' \<longleftrightarrow> t' = t"
| "starts_warning _ t' \<longleftrightarrow> False"

text \<open>Ticks that each come exactly when the phase is over, with what they broadcast.\<close>

fun due_ticks :: "nat \<Rightarrow> emission \<Rightarrow> emission \<times> (u8 \<times> u32) list" where
  "due_ticks 0 e = (e, [])"
| "due_ticks (Suc n) e = (case emission_tick (em_next e) e of (e1, out) \<Rightarrow>
     (case due_ticks n e1 of (e2, outs) \<Rightarrow> (e2, (case out of None \<Rightarrow> [] | Some o1 \<Rightarrow> [o1]) @ outs)))"

definition phase_timer :: "emission \<Rightarrow> u8 \<Rightarrow> u32" where
  "phase_timer e st = seconds_u32 (if st = st_dormant then em_dormant e else if st = st_warning then em_warning e
     else if st = st_active then em_active e else em_clear e)"

section \<open>Lemmas\<close>

text \<open>A ghost for the proofs: while the phase is the warning, the last event that set it. It is
  what \<open>em_next\<close> was computed from, and nothing has changed it since.\<close>

definition warned :: "em_event list \<Rightarrow> emission \<Rightarrow> gotime \<Rightarrow> bool" where
  "warned evs e0 nxt \<longleftrightarrow> (\<exists>pre ev post t. evs = pre @ ev # post \<and> starts_warning ev t \<and>
     nxt = t + em_warning (em_run pre e0) \<and>
     (\<forall>p q. post = p @ q \<longrightarrow> em_state (em_run (pre @ ev # p) e0) = st_warning))"

lemma em_run_snoc: "em_run (evs @ [ev]) e = em_apply ev (em_run evs e)"
  by (simp add: em_run_def)

lemma warned_start:
  assumes "starts_warning ev t" "em_next (em_apply ev (em_run evs e0)) = t + em_warning (em_run evs e0)"
    "em_state (em_apply ev (em_run evs e0)) = st_warning"
  shows "warned (evs @ [ev]) e0 (em_next (em_run (evs @ [ev]) e0))"
  unfolding warned_def
  by (intro exI [of _ evs] exI [of _ ev] exI [of _ "[]"] exI [of _ t]) (use assms in \<open>simp add: em_run_snoc\<close>)

lemma warned_keep:
  assumes "warned evs e0 n" "em_state (em_run (evs @ [ev]) e0) = st_warning"
  shows "warned (evs @ [ev]) e0 n"
proof -
  from assms(1) obtain pre e post t where w: "evs = pre @ e # post" "starts_warning e t"
    "n = t + em_warning (em_run pre e0)"
    "\<And>p q. post = p @ q \<Longrightarrow> em_state (em_run (pre @ e # p) e0) = st_warning" by (auto simp: warned_def)
  have "em_state (em_run (pre @ e # p) e0) = st_warning" if "post @ [ev] = p @ q" for p q
  proof (cases q rule: rev_cases)
    case Nil
    with that assms(2) w(1) show ?thesis by simp
  next
    case (snoc q' y)
    with that w(4) [of p q'] show ?thesis by simp
  qed
  with w(1-3) show ?thesis
    unfolding warned_def by (intro exI [of _ pre] exI [of _ e] exI [of _ "post @ [ev]"] exI [of _ t]) simp
qed

lemma em_apply_warning:
  assumes "em_state (em_apply ev e) = st_warning"
  shows "em_state e = st_warning \<and> em_next (em_apply ev e) = em_next e \<or>
    (\<exists>t. starts_warning ev t \<and> em_next (em_apply ev e) = t + em_warning e)"
  using assms
  by (cases ev) (auto simp: emission_tick_def next_phase_def force_emission_def set_dormant_duration_def
      set_warning_duration_def set_active_duration_def set_clear_duration_def Let_def split: if_splits)

lemma run_warned:
  assumes "em_state e0 \<noteq> st_warning" "em_state (em_run evs e0) = st_warning"
  shows "warned evs e0 (em_next (em_run evs e0))"
  using assms(2)
proof (induction evs rule: rev_induct)
  case Nil
  with assms(1) show ?case by (simp add: em_run_def)
next
  case (snoc ev evs)
  from em_apply_warning [OF snoc.prems [unfolded em_run_snoc]] show ?case
  proof (elim disjE conjE exE)
    assume "em_state (em_run evs e0) = st_warning" and n: "em_next (em_apply ev (em_run evs e0)) = em_next (em_run evs e0)"
    then show ?thesis using warned_keep [OF snoc.IH snoc.prems] by (simp add: em_run_snoc)
  next
    fix t assume "starts_warning ev t" "em_next (em_apply ev (em_run evs e0)) = t + em_warning (em_run evs e0)"
    with snoc.prems show ?thesis by (intro warned_start) (simp_all add: em_run_snoc)
  qed
qed

definition em_ok :: "emission \<Rightarrow> bool" where
  "em_ok e \<longleftrightarrow> em_state e \<in> {0, 1, 2, 3} \<and> 0 < em_dormant e \<and> 0 < em_warning e \<and> 0 < em_active e \<and> 0 < em_clear e"

lemma em_ok_apply: "em_ok e \<Longrightarrow> em_ok (em_apply ev e)"
  by (cases ev) (auto simp: em_ok_def emission_tick_def next_phase_def force_emission_def set_dormant_duration_def
      set_warning_duration_def set_active_duration_def set_clear_duration_def Let_def)

lemma em_ok_run: "em_ok e \<Longrightarrow> em_ok (em_run evs e)"
  by (induction evs rule: rev_induct) (simp_all add: em_run_snoc em_ok_apply, simp add: em_run_def)

lemma em_ok_new: "em_ok (new_emission now ds)"
  by (simp add: em_ok_def new_emission_def Let_def second_def split: list.split)

section \<open>Properties\<close>

text \<open>C35: The wave never comes unannounced. If, after any history of ticks, forced emissions and
  setting changes, a tick at \<open>now\<close> starts the lethal phase, then an earlier event at some time
  \<open>t\<close> started the warning, the warning duration in force at that event has fully passed by
  \<open>now\<close>, and the phase was the warning at every moment in between.\<close>

theorem wave_is_announced:
  assumes "em_state (em_run evs (new_emission t0 ds)) \<noteq> st_active"
    and "em_state (fst (emission_tick now (em_run evs (new_emission t0 ds)))) = st_active"
  shows "\<exists>pre ev post t. evs = pre @ ev # post \<and> starts_warning ev t \<and>
    t + em_warning (em_run pre (new_emission t0 ds)) \<le> now \<and>
    (\<forall>p q. post = p @ q \<longrightarrow> em_state (em_run (pre @ ev # p) (new_emission t0 ds)) = st_warning)"
proof -
  let ?init = "new_emission t0 ds" and ?e = "em_run evs (new_emission t0 ds)"
  from assms have w: "em_state ?e = st_warning" "em_next ?e \<le> now"
    unfolding emission_tick_def next_phase_def by (auto split: if_splits simp: Let_def simp del: new_emission_def)
  have s0: "em_state ?init \<noteq> st_warning" by (simp add: new_emission_def Let_def)
  from run_warned [OF s0 w(1)] w(2) show ?thesis unfolding warned_def by metis
qed

theorem wave_is_announced_witness:
  "let e = em_run [EForce 5, ETick 6] (new_emission 0 [])
   in em_state e = st_warning \<and> em_state (fst (emission_tick (70 * second) e)) = st_active \<and>
      (\<exists>pre ev post t. [EForce 5, ETick 6] = pre @ ev # post \<and> starts_warning ev t \<and>
         t + em_warning (em_run pre (new_emission 0 [])) \<le> 70 * second)"
proof -
  let ?e = "em_run [EForce 5, ETick 6] (new_emission 0 [])"
  have e: "em_state ?e = st_warning" "em_state (fst (emission_tick (70 * second) ?e)) = st_active"
    by (simp_all add: em_run_def new_emission_def force_emission_def emission_tick_def next_phase_def Let_def second_def)
  with wave_is_announced [of "[EForce 5, ETick 6]" 0 "[]" "70 * second"] show ?thesis by fastforce
qed

text \<open>The machine turns. From any state the operations can produce, with no forced broadcast
  pending, four ticks that each come when the phase is over bring the same phase back, after
  broadcasting the three phases between, in order, each once and each with its own timer.\<close>

theorem emission_cycle:
  assumes "e = em_run evs (new_emission t0 ds)" and "\<not> em_forced e"
  shows "case due_ticks 4 e of (e', outs) \<Rightarrow>
    e' = e\<lparr>em_next := em_next e + em_dormant e + em_warning e + em_active e + em_clear e\<rparr> \<and>
    map fst outs = map (\<lambda>k. word_of_nat ((unat (em_state e) + k) mod 4)) [1, 2, 3, 4] \<and>
    (\<forall>o1\<in>set outs. snd o1 = phase_timer e (fst o1))"
proof -
  have st: "em_state e = 0 \<or> em_state e = 1 \<or> em_state e = 2 \<or> em_state e = 3"
    using em_ok_run [OF em_ok_new] assms(1) by (simp add: em_ok_def)
  have tick: "emission_tick t x = (case next_phase x of (s, d) \<Rightarrow>
      (x\<lparr>em_state := s, em_next := t + d\<rparr>, Some (s, seconds_u32 d)))" if "\<not> em_forced x" "em_next x \<le> t" for t x
    using that by (simp add: emission_tick_def)
  have four: "due_ticks 4 e = due_ticks (Suc (Suc (Suc (Suc 0)))) e" by (simp add: eval_nat_numeral)
  from st show ?thesis
    by (elim disjE) (simp_all add: four tick assms(2) next_phase_def phase_timer_def)
qed

theorem emission_cycle_witness:
  "case due_ticks 4 (new_emission 0 []) of (e', outs) \<Rightarrow>
    em_next e' = 3810 * second \<and> map fst outs = [1, 2, 3, 0]"
proof -
  have "new_emission 0 [] = em_run [] (new_emission 0 [])" "\<not> em_forced (new_emission 0 [])"
    by (simp_all add: em_run_def new_emission_def Let_def)
  from emission_cycle [OF this] show ?thesis
    by (auto simp: new_emission_def Let_def second_def split: prod.splits)
qed

end
