(* ===== verification/Factions.thy ===== *)
theory Factions
  imports Prelude
begin

text \<open>
  Faction relations: internal/database/faction_relations.go and internal/game/faction_relations.go.
  \<open>strings.ToLower\<close> reads the Unicode tables past ASCII and is the parameter \<open>lower\<close>;
  \<open>strings.TrimSpace\<close> is written out (the encodings of the 25 white-space code points). The
  \<open>faction_relations\<close> table is a list of rows with the key (faction, other); \<open>faults\<close> says
  which statement of the seeding transaction fails, if any.
\<close>

section \<open>Names\<close>

text \<open>The UTF-8 encodings of the code points with the property White_Space.\<close>

definition space_encodings :: "nat list list" where
  "space_encodings = [[9], [10], [11], [12], [13], [32], [0xC2, 0x85], [0xC2, 0xA0], [0xE1, 0x9A, 0x80],
     [0xE2, 0x80, 0x80], [0xE2, 0x80, 0x81], [0xE2, 0x80, 0x82], [0xE2, 0x80, 0x83], [0xE2, 0x80, 0x84],
     [0xE2, 0x80, 0x85], [0xE2, 0x80, 0x86], [0xE2, 0x80, 0x87], [0xE2, 0x80, 0x88], [0xE2, 0x80, 0x89],
     [0xE2, 0x80, 0x8A], [0xE2, 0x80, 0xA8], [0xE2, 0x80, 0xA9], [0xE2, 0x80, 0xAF], [0xE2, 0x81, 0x9F], [0xE3, 0x80, 0x80]]"

text \<open>Dropping leading encodings, each counted down by the fuel (one per byte is enough).\<close>

fun strip_front :: "nat list list \<Rightarrow> nat \<Rightarrow> string \<Rightarrow> string" where
  "strip_front encs 0 s = s"
| "strip_front encs (Suc n) s = (case List.find (\<lambda>e. take (length e) s = map char_of e) encs of
     None \<Rightarrow> s
   | Some e \<Rightarrow> strip_front encs n (drop (length e) s))"

definition trim_space :: "string \<Rightarrow> string" where
  "trim_space s = (let t = strip_front space_encodings (length s) s
     in rev (strip_front (map rev space_encodings) (length t) (rev t)))"

definition trim_prefix :: "string \<Rightarrow> string \<Rightarrow> string" where
  "trim_prefix p s = (if take (length p) s = p then drop (length p) s else s)"

definition normalize_faction :: "(string \<Rightarrow> string) \<Rightarrow> string \<Rightarrow> string" where
  "normalize_faction lower f = trim_prefix ''actor_'' (lower (trim_space f))"

definition same_faction :: "(string \<Rightarrow> string) \<Rightarrow> string \<Rightarrow> string \<Rightarrow> bool" where
  "same_faction lower a b = (let a = normalize_faction lower a; b = normalize_faction lower b in
     if a = [] \<or> b = [] then False else a = b)"

section \<open>The matrix\<close>

type_synonym relation = "string \<times> string \<times> int"
type_synonym relations = "string \<Rightarrow> (string \<Rightarrow> int option) option"

definition default_relation_pairs :: "relation list" where
  "default_relation_pairs = [(''stalker'', ''bandit'', - 2000), (''stalker'', ''dolg'', 0), (''stalker'', ''freedom'', 0),
   (''stalker'', ''csky'', 0), (''stalker'', ''ecolog'', 0), (''stalker'', ''killer'', - 2000),
   (''stalker'', ''army'', - 2000), (''stalker'', ''monolith'', - 2000), (''stalker'', ''renegade'', - 2000),
   (''stalker'', ''greh'', - 2000), (''stalker'', ''zombied'', - 2000), (''stalker'', ''isg'', - 2000),
   (''bandit'', ''dolg'', - 2000), (''bandit'', ''freedom'', 0), (''bandit'', ''csky'', - 2000),
   (''bandit'', ''ecolog'', - 2000), (''bandit'', ''killer'', 0), (''bandit'', ''army'', - 2000),
   (''bandit'', ''monolith'', - 2000), (''bandit'', ''renegade'', 300), (''bandit'', ''greh'', - 2000),
   (''bandit'', ''zombied'', - 2000), (''bandit'', ''isg'', - 2000), (''dolg'', ''freedom'', - 2000),
   (''dolg'', ''csky'', 0), (''dolg'', ''ecolog'', 0), (''dolg'', ''killer'', - 2000), (''dolg'', ''army'', 0),
   (''dolg'', ''monolith'', - 2000), (''dolg'', ''renegade'', - 2000), (''dolg'', ''greh'', - 2000),
   (''dolg'', ''zombied'', - 2000), (''dolg'', ''isg'', - 2000), (''freedom'', ''csky'', 0),
   (''freedom'', ''ecolog'', 0), (''freedom'', ''killer'', 0), (''freedom'', ''army'', - 2000),
   (''freedom'', ''monolith'', - 2000), (''freedom'', ''renegade'', - 2000), (''freedom'', ''greh'', - 2000),
   (''freedom'', ''zombied'', - 2000), (''freedom'', ''isg'', - 2000), (''csky'', ''ecolog'', 0),
   (''csky'', ''killer'', 0), (''csky'', ''army'', - 2000), (''csky'', ''monolith'', - 2000),
   (''csky'', ''renegade'', - 2000), (''csky'', ''greh'', - 2000), (''csky'', ''zombied'', - 2000),
   (''csky'', ''isg'', - 2000), (''ecolog'', ''killer'', 0), (''ecolog'', ''army'', 0),
   (''ecolog'', ''monolith'', - 2000), (''ecolog'', ''renegade'', - 2000), (''ecolog'', ''greh'', - 2000),
   (''ecolog'', ''zombied'', - 2000), (''ecolog'', ''isg'', - 2000), (''killer'', ''army'', - 2000),
   (''killer'', ''monolith'', - 2000), (''killer'', ''renegade'', - 2000), (''killer'', ''greh'', - 2000),
   (''killer'', ''zombied'', - 2000), (''killer'', ''isg'', 0), (''army'', ''monolith'', - 2000),
   (''army'', ''renegade'', - 2000), (''army'', ''greh'', - 2000), (''army'', ''zombied'', - 2000),
   (''army'', ''isg'', - 2000), (''monolith'', ''renegade'', - 2000), (''monolith'', ''greh'', 300),
   (''monolith'', ''zombied'', 300), (''monolith'', ''isg'', - 2000), (''renegade'', ''greh'', - 2000),
   (''renegade'', ''zombied'', - 2000), (''renegade'', ''isg'', - 2000), (''greh'', ''zombied'', 300),
   (''greh'', ''isg'', - 2000), (''isg'', ''zombied'', - 2000)]"

definition default_faction_relations :: "relation list" where
  "default_faction_relations = concat (map (\<lambda>(a, b, v). [(a, b, v), (b, a, v)]) default_relation_pairs)"

definition put_relation :: "string \<Rightarrow> string \<Rightarrow> int \<Rightarrow> relations \<Rightarrow> relations" where
  "put_relation a b v m = m(a \<mapsto> ((case m a of None \<Rightarrow> Map.empty | Some r \<Rightarrow> r)(b \<mapsto> v)))"

definition add_default :: "(string \<Rightarrow> string) \<Rightarrow> relation \<Rightarrow> relations \<Rightarrow> relations" where
  "add_default lower r m = (case r of (f, g, v) \<Rightarrow>
     let a = normalize_faction lower f; b = normalize_faction lower g in
     if a = [] \<or> b = [] then m else put_relation b a v (put_relation a b v m))"

definition relation_map_from_defaults :: "(string \<Rightarrow> string) \<Rightarrow> relations" where
  "relation_map_from_defaults lower = fold (add_default lower) default_faction_relations Map.empty"

definition relation_between :: "(string \<Rightarrow> string) \<Rightarrow> relations \<Rightarrow> string \<Rightarrow> string \<Rightarrow> int" where
  "relation_between lower m a b = (let a = normalize_faction lower a; b = normalize_faction lower b in
     case m a of None \<Rightarrow> 0 | Some r \<Rightarrow> (case r b of None \<Rightarrow> 0 | Some v \<Rightarrow> v))"

section \<open>The table\<close>

definition insert_relation :: "relation \<Rightarrow> relation list \<Rightarrow> relation list" where
  "insert_relation r rows = (if (fst r, fst (snd r)) \<in> (\<lambda>x. (fst x, fst (snd x))) ` set rows then rows else rows @ [r])"

definition normalize_row :: "(string \<Rightarrow> string) \<Rightarrow> relation \<Rightarrow> relation" where
  "normalize_row lower r = (case r of (f, g, v) \<Rightarrow> (normalize_faction lower f, normalize_faction lower g, v))"

definition keyed_row :: "relation \<Rightarrow> bool" where
  "keyed_row r \<longleftrightarrow> fst r \<noteq> [] \<and> fst (snd r) \<noteq> []"

text \<open>The seeding transaction: begin, prepare, one insert per row, commit. \<open>fails k\<close> says whether
  the \<open>k\<close>-th of these fails; on a failure everything is rolled back.\<close>

definition seed_faction_relations :: "(string \<Rightarrow> string) \<Rightarrow> (nat \<Rightarrow> bool) \<Rightarrow> relation list \<Rightarrow> bool \<times> relation list" where
  "seed_faction_relations lower fails rows =
     (let rs = filter keyed_row (map (normalize_row lower) default_faction_relations) in
      if list_ex fails [0..<length rs + 3] then (False, rows) else (True, fold insert_relation rs rows))"

definition load_faction_relations :: "(string \<Rightarrow> string) \<Rightarrow> (nat \<Rightarrow> bool) \<Rightarrow> bool \<Rightarrow> relation list \<Rightarrow> relations option \<times> relation list" where
  "load_faction_relations lower fails query_fails rows =
     (case seed_faction_relations lower fails rows of (ok, rows1) \<Rightarrow>
        if \<not> ok \<or> query_fails then (None, rows1)
        else (Some (fold (\<lambda>(f, g, v). put_relation f g v) (filter keyed_row (map (normalize_row lower) rows1)) Map.empty), rows1))"

section \<open>Lemmas\<close>

definition cell :: "relations \<Rightarrow> string \<Rightarrow> string \<Rightarrow> int option" where
  "cell m a b = (case m a of None \<Rightarrow> None | Some r \<Rightarrow> r b)"

lemma cell_put: "cell (put_relation a b v m) x y = (if x = a \<and> y = b then Some v else cell m x y)"
  by (auto simp: cell_def put_relation_def split: option.split)

lemma relation_between_cell: "relation_between lower m a b =
    (case cell m (normalize_faction lower a) (normalize_faction lower b) of None \<Rightarrow> 0 | Some v \<Rightarrow> v)"
  by (auto simp: relation_between_def cell_def Let_def split: option.split)

lemma cell_put_both: "cell (put_relation b a v (put_relation a b v m)) p q =
      (if p = a \<and> q = b \<or> p = b \<and> q = a then Some v else cell m p q)"
  unfolding cell_put by (cases "p = b"; cases "q = a"; cases "p = a"; cases "q = b") simp_all

lemma cell_add_default:
  assumes "\<And>x y. cell m x y = cell m y x"
  shows "cell (add_default lower r m) x y = cell (add_default lower r m) y x"
proof -
  obtain f g v where r: "r = (f, g, v)" by (metis prod.exhaust)
  define a where "a = normalize_faction lower f"
  define b where "b = normalize_faction lower g"
  have swap: "x = a \<and> y = b \<or> x = b \<and> y = a \<longleftrightarrow> y = a \<and> x = b \<or> y = b \<and> x = a" by blast
  have sym: "cell (put_relation b a v (put_relation a b v m)) x y = cell (put_relation b a v (put_relation a b v m)) y x"
    unfolding cell_put_both swap assms [of x y] ..
  have e: "add_default lower r m = (if a = [] \<or> b = [] then m else put_relation b a v (put_relation a b v m))"
    unfolding add_default_def r a_def b_def Let_def prod.case ..
  show ?thesis
  proof (cases "a = [] \<or> b = []")
    case True
    then show ?thesis unfolding e using assms by simp
  next
    case False
    then show ?thesis unfolding e if_not_P [OF False] by (rule_tac sym)
  qed
qed

lemma cell_defaults_sym: "cell (relation_map_from_defaults lower) x y = cell (relation_map_from_defaults lower) y x"
proof -
  have "(\<And>x y. cell m x y = cell m y x) \<Longrightarrow> cell (fold (add_default lower) rs m) x y = cell (fold (add_default lower) rs m) y x" for rs m
    by (induction rs arbitrary: m x y) (simp_all add: cell_add_default)
  from this [of Map.empty] show ?thesis by (simp add: relation_map_from_defaults_def cell_def)
qed

definition row_key :: "relation \<Rightarrow> string \<times> string" where
  "row_key r = (fst r, fst (snd r))"

lemma insert_relation_key: "insert_relation r rows = (if row_key r \<in> row_key ` set rows then rows else rows @ [r])"
  by (auto simp: insert_relation_def row_key_def)

lemma fold_insert_relation:
  "\<exists>ext. fold insert_relation rs rows = rows @ ext \<and> set ext \<subseteq> set rs"
proof (induction rs arbitrary: rows)
  case (Cons r rs)
  from Cons.IH [of "insert_relation r rows"] obtain ext where
    e: "fold insert_relation rs (insert_relation r rows) = insert_relation r rows @ ext" "set ext \<subseteq> set rs" by blast
  show ?case
  proof (cases "row_key r \<in> row_key ` set rows")
    case True
    then have "insert_relation r rows = rows" by (simp add: insert_relation_key)
    with e show ?thesis by (intro exI [of _ ext]) auto
  next
    case False
    then have "insert_relation r rows = rows @ [r]" by (simp add: insert_relation_key)
    with e show ?thesis by (intro exI [of _ "r # ext"]) auto
  qed
qed simp

lemma fold_insert_keys: "row_key ` set (fold insert_relation rs rows) = row_key ` set rows \<union> row_key ` set rs"
  by (induction rs arbitrary: rows) (auto simp: insert_relation_key)

lemma fold_insert_present: "row_key ` set rs \<subseteq> row_key ` set rows \<Longrightarrow> fold insert_relation rs rows = rows"
  by (induction rs arbitrary: rows) (auto simp: insert_relation_key)

section \<open>Properties\<close>

text \<open>Relations are mutual: in the built-in matrix the relation of \<open>a\<close> to \<open>b\<close> is that of \<open>b\<close>
  to \<open>a\<close>, whatever spelling (case, spaces, the \<open>actor_\<close> prefix) either name has.\<close>

lemma default_relations_mutual:
  "relation_between lower (relation_map_from_defaults lower) a b = relation_between lower (relation_map_from_defaults lower) b a"
  using cell_defaults_sym by (simp add: relation_between_cell)

text \<open>Seeding completes the table and never overwrites it. After a successful seeding every row
  that was there is still there, in place and with its value (operator edits win), every default
  pair has a row, and seeding again changes nothing; a failing statement leaves the table as it
  was.\<close>

theorem seed_keeps_edits:
  "case seed_faction_relations lower fails rows of (ok, rows') \<Rightarrow>
     if ok then (\<exists>new. rows' = rows @ new \<and> set new \<subseteq> set (map (normalize_row lower) default_faction_relations)) \<and>
       (\<forall>r\<in>set default_faction_relations. keyed_row (normalize_row lower r) \<longrightarrow>
          row_key (normalize_row lower r) \<in> row_key ` set rows') \<and>
       seed_faction_relations lower (\<lambda>_. False) rows' = (True, rows')
     else rows' = rows"
proof -
  let ?rs = "filter keyed_row (map (normalize_row lower) default_faction_relations)"
  obtain new where n: "fold insert_relation ?rs rows = rows @ new" "set new \<subseteq> set ?rs"
    using fold_insert_relation by blast
  have k: "row_key ` set (rows @ new) = row_key ` set rows \<union> row_key ` set ?rs"
    using fold_insert_keys [of ?rs rows] n(1) by simp
  then have again: "fold insert_relation ?rs (rows @ new) = rows @ new" by (intro fold_insert_present) simp
  show ?thesis
  proof (cases "list_ex fails [0..<length ?rs + 3]")
    case True
    then show ?thesis by (simp add: seed_faction_relations_def Let_def)
  next
    case False
    have r: "row_key (normalize_row lower r) \<in> row_key ` set (rows @ new)"
      if "r \<in> set default_faction_relations" "keyed_row (normalize_row lower r)" for r
      unfolding k using that by auto
    have s: "set new \<subseteq> set (map (normalize_row lower) default_faction_relations)" using n(2) by auto
    have e: "seed_faction_relations lower fails rows = (True, rows @ new)"
      "seed_faction_relations lower (\<lambda>_. False) (rows @ new) = (True, rows @ new)"
      using False by (simp_all only: seed_faction_relations_def Let_def n(1) again if_False) (simp add: list_ex_iff)
    show ?thesis unfolding e prod.case using r s e(2) by auto
  qed
qed

theorem seed_keeps_edits_witness:
  "case seed_faction_relations (\<lambda>s. s) (\<lambda>_. False) [(''stalker'', ''bandit'', 300)] of (ok, rows') \<Rightarrow>
     ok \<and> hd rows' = (''stalker'', ''bandit'', 300) \<and> (''bandit'', ''stalker'') \<in> row_key ` set rows'"
proof -
  let ?d = "(''bandit'', ''stalker'', - 2000 :: int)"
  obtain ok rows' where e: "seed_faction_relations (\<lambda>s. s) (\<lambda>_. False) [(''stalker'', ''bandit'', 300)] = (ok, rows')"
    by fastforce
  have ok: "ok" using e by (auto simp: seed_faction_relations_def Let_def list_ex_iff)
  have normal: "normalize_faction (\<lambda>s. s) ''bandit'' = ''bandit''" "normalize_faction (\<lambda>s. s) ''stalker'' = ''stalker''"
    by code_simp+
  have d: "?d \<in> set default_faction_relations" "normalize_row (\<lambda>s. s) ?d = ?d" "keyed_row ?d"
    by (simp add: default_faction_relations_def default_relation_pairs_def)
       (simp_all add: normalize_row_def keyed_row_def normal)
  from seed_keeps_edits [where lower = "\<lambda>s. s" and fails = "\<lambda>_. False" and rows = "[(''stalker'', ''bandit'', 300)]"] ok
  have c: "(\<exists>new. rows' = [(''stalker'', ''bandit'', 300)] @ new)"
    "\<forall>r\<in>set default_faction_relations. keyed_row (normalize_row (\<lambda>s. s) r) \<longrightarrow>
       row_key (normalize_row (\<lambda>s. s) r) \<in> row_key ` set rows'"
    unfolding e by auto
  have "row_key ?d \<in> row_key ` set rows'" using c(2) d by metis
  then show ?thesis unfolding e using c(1) ok by (auto simp: row_key_def)
qed

end
