(* ===== verification/Damage.thy ===== *)
theory Damage
  imports PlayerGroups StashManager Factions
begin

text \<open>
  Combat damage between players and against AI puppets: internal/game/damage.go. Sessions are
  shared through the heap; the clock of the budget and of \<open>SetCombat\<close> is one \<open>now\<close>. The
  line-of-sight checker is a function the server sets (\<open>los\<close>, absent when \<open>None\<close>); a reason
  is its text. The budget is a map from attacker to the accepted hits of the window.
\<close>

record damage_notify =
  dn_target :: u32
  dn_attacker :: u32
  dn_damage :: f32
  dn_bone :: u8

type_synonym los_check = "string \<Rightarrow> f32 \<times> f32 \<times> f32 \<Rightarrow> f32 \<times> f32 \<times> f32 \<Rightarrow> bool"

record damage_handler =
  dm_max_range :: f32
  dm_max_per_hit :: f32
  dm_per_s :: f64
  dm_budget :: "u32 \<Rightarrow> (gotime \<times> f64) list option"

section \<open>Operations\<close>

definition new_damage_handler :: damage_handler where
  "new_damage_handler = \<lparr>dm_max_range = Fin 300, dm_max_per_hit = Fin 150, dm_per_s = Fin 400, dm_budget = Map.empty\<rparr>"

definition set_damage_budget_per_s :: "f64 \<Rightarrow> damage_handler \<Rightarrow> damage_handler" where
  "set_damage_budget_per_s v dh = dh\<lparr>dm_per_s := v\<rparr>"

definition set_max_range :: "f32 \<Rightarrow> damage_handler \<Rightarrow> damage_handler" where
  "set_max_range r dh = dh\<lparr>dm_max_range := r\<rparr>"

definition set_max_damage_per_hit :: "f32 \<Rightarrow> damage_handler \<Rightarrow> damage_handler" where
  "set_max_damage_per_hit d dh = dh\<lparr>dm_max_per_hit := d\<rparr>"

definition clear_budget :: "u32 \<Rightarrow> damage_handler \<Rightarrow> damage_handler" where
  "clear_budget sid dh = dh\<lparr>dm_budget := (dm_budget dh)(sid := None)\<rparr>"

definition kept_spends :: "gotime \<Rightarrow> u32 \<Rightarrow> damage_handler \<Rightarrow> (gotime \<times> f64) list" where
  "kept_spends now i dh = filter (\<lambda>e. now - second < fst e) (case dm_budget dh i of None \<Rightarrow> [] | Some es \<Rightarrow> es)"

definition total_spent :: "(gotime \<times> f64) list \<Rightarrow> f64" where
  "total_spent es = fold (\<lambda>e s. add64 s (snd e)) es (Fin 0)"

definition charge_budget :: "gotime \<Rightarrow> u32 \<Rightarrow> f64 \<Rightarrow> damage_handler \<Rightarrow> (f64 \<times> bool) \<times> damage_handler" where
  "charge_budget now i amount dh =
     (let kept = kept_spends now i dh; remaining = sub64 (dm_per_s dh) (total_spent kept) in
      if fle remaining (Fin 0) then ((Fin 0, False), dh\<lparr>dm_budget := (dm_budget dh)(i \<mapsto> kept)\<rparr>)
      else let a = (if flt remaining amount then remaining else amount)
           in ((a, True), dh\<lparr>dm_budget := (dm_budget dh)(i \<mapsto> kept @ [(now, a)])\<rparr>))"

definition player_dist :: "f32 \<times> f32 \<times> f32 \<Rightarrow> f32 \<times> f32 \<times> f32 \<Rightarrow> f32" where
  "player_dist a b = f32_of (dist3 a b)"

definition or_default :: "f32 \<Rightarrow> f32 \<Rightarrow> f32" where
  "or_default v d = (if fle v (Fin 0) then d else v)"

text \<open>The damage value: a reason to reject it, or the damage clamped per hit and by the budget.\<close>

definition damage_value :: "gotime \<Rightarrow> u32 \<Rightarrow> f32 \<Rightarrow> damage_handler \<Rightarrow> (string + f32) \<times> damage_handler" where
  "damage_value now i dmg dh =
     (if fle dmg (Fin 0) \<or> is_nan dmg \<or> is_inf dmg then (Inl ''invalid damage value'', dh)
      else if flt (Fin 250) dmg then (Inl ''damage exceeds sanity ceiling'', dh)
      else let cap = or_default (dm_max_per_hit dh) (Fin 150); amount = (if flt cap dmg then cap else dmg) in
        if flt (Fin 0) (dm_per_s dh) then
          (case charge_budget now i amount dh of ((charged, ok), dh1) \<Rightarrow>
             if \<not> ok \<or> fle charged (Fin 0) then (Inl ''damage budget exceeded'', dh1) else (Inr (f32_of charged), dh1))
        else (Inr amount, dh))"

definition damage_gate :: "(string \<Rightarrow> string) \<Rightarrow> group_manager option \<Rightarrow> los_check option \<Rightarrow>
    player_session \<Rightarrow> player_session \<Rightarrow> damage_notify \<Rightarrow> damage_handler \<Rightarrow> string option" where
  "damage_gate lower groups los a t dmg dh =
     (if p_level a \<noteq> p_level t then Some ''cross-level damage rejected''
      else if dn_attacker dmg \<noteq> p_id a \<or> dn_target dmg \<noteq> p_id t then Some ''session mismatch''
      else if p_id a = p_id t then Some ''self damage rejected''
      else if p_in_safe_zone a \<or> p_in_safe_zone t then Some ''safe zone immunity''
      else if is_same_group (p_id a) (p_id t) groups then Some ''same group friendly fire''
      else if same_faction lower (p_faction a) (p_faction t) then Some ''same faction friendly fire''
      else if flt (or_default (dm_max_range dh) (Fin 300)) (player_dist (p_pos a) (p_pos t)) then Some ''attack out of range''
      else if (case los of None \<Rightarrow> False | Some f \<Rightarrow> \<not> f (p_level t) (p_pos a) (p_pos t)) then Some ''no line of sight''
      else None)"

definition wound :: "f32 \<Rightarrow> player_session \<Rightarrow> player_session" where
  "wound x s = (let h = sub32 (p_health s) x in s\<lparr>p_health := (if flt h (Fin 0) then Fin 0 else h), p_dirty := True\<rparr>)"

definition validate_and_apply_damage :: "gotime \<Rightarrow> (string \<Rightarrow> string) \<Rightarrow> group_manager option \<Rightarrow> los_check option \<Rightarrow>
    ptr option \<Rightarrow> ptr option \<Rightarrow> damage_notify option \<Rightarrow> heap \<times> damage_handler \<Rightarrow> (string + f32) \<times> heap \<times> damage_handler" where
  "validate_and_apply_damage now lower groups los attacker target dmg st = (case st of (h, dh) \<Rightarrow>
     (case (attacker, target) of
        (Some a, Some t) \<Rightarrow>
          (case dmg of None \<Rightarrow> (Inl ''nil damage payload'', h, dh)
           | Some dmg \<Rightarrow>
             (case damage_gate lower groups los (h a) (h t) dmg dh of
                Some reason \<Rightarrow> (Inl reason, h, dh)
              | None \<Rightarrow>
                (case damage_value now (p_id (h a)) (dn_damage dmg) dh of
                   (Inl reason, dh1) \<Rightarrow> (Inl reason, h, dh1)
                 | (Inr x, dh1) \<Rightarrow>
                     let h1 = h(a := set_combat now (30 * second) (h a));
                         h2 = h1(t := set_combat now (30 * second) (h1 t))
                     in (Inr x, h2(t := wound x (h2 t)), dh1))))
      | _ \<Rightarrow> (Inl ''nil session'', h, dh)))"

definition puppet_gate :: "los_check option \<Rightarrow> player_session \<Rightarrow> string \<Rightarrow> f32 \<times> f32 \<times> f32 \<Rightarrow> damage_notify \<Rightarrow>
    damage_handler \<Rightarrow> string option" where
  "puppet_gate los a level pos dmg dh =
     (if p_level a \<noteq> level then Some ''cross-level damage rejected''
      else if dn_attacker dmg \<noteq> p_id a then Some ''session mismatch''
      else if p_in_safe_zone a then Some ''safe zone immunity''
      else if flt (or_default (dm_max_range dh) (Fin 300)) (player_dist (p_pos a) pos) then Some ''attack out of range''
      else if (case los of None \<Rightarrow> False | Some f \<Rightarrow> \<not> f level (p_pos a) pos) then Some ''no line of sight''
      else None)"

definition validate_and_apply_puppet_damage :: "gotime \<Rightarrow> los_check option \<Rightarrow> ptr option \<Rightarrow> string \<Rightarrow> f32 \<times> f32 \<times> f32 \<Rightarrow>
    damage_notify option \<Rightarrow> heap \<times> damage_handler \<Rightarrow> (string + f32) \<times> heap \<times> damage_handler" where
  "validate_and_apply_puppet_damage now los attacker level pos dmg st = (case st of (h, dh) \<Rightarrow>
     (case (attacker, dmg) of
        (None, _) \<Rightarrow> (Inl ''nil session'', h, dh)
      | (Some a, None) \<Rightarrow> (Inl ''nil damage payload'', h, dh)
      | (Some a, Some dmg) \<Rightarrow>
          (case puppet_gate los (h a) level pos dmg dh of
             Some reason \<Rightarrow> (Inl reason, h, dh)
           | None \<Rightarrow>
             (case damage_value now (p_id (h a)) (dn_damage dmg) dh of
                (Inl reason, dh1) \<Rightarrow> (Inl reason, h, dh1)
              | (Inr x, dh1) \<Rightarrow> (Inr x, h(a := set_combat now (30 * second) (h a)), dh1)))))"

section \<open>Exact sums\<close>

text \<open>
  The budget adds \<open>float64\<close> amounts. Amounts that are multiples of \<open>2^-40\<close> (every \<open>float32\<close> of
  at least \<open>2^-17\<close> is one) and stay below 8192 in sum are added without rounding.
\<close>

definition on_grid :: "rat \<Rightarrow> bool" where
  "on_grid q \<longleftrightarrow> (\<exists>m. q = of_int m * pow2 (- 40))"

lemma on_grid_add: "on_grid a \<Longrightarrow> on_grid b \<Longrightarrow> on_grid (a + b)"
proof -
  assume "on_grid a" "on_grid b"
  then obtain m n where "a = of_int m * pow2 (- 40)" "b = of_int n * pow2 (- 40)" by (auto simp: on_grid_def)
  then have "a + b = of_int (m + n) * pow2 (- 40)" by (simp add: distrib_right)
  then show ?thesis unfolding on_grid_def by blast
qed

lemma on_grid_neg: "on_grid a \<Longrightarrow> on_grid (- a)"
proof -
  assume "on_grid a"
  then obtain m where "a = of_int m * pow2 (- 40)" by (auto simp: on_grid_def)
  then have "- a = of_int (- m) * pow2 (- 40)" by simp
  then show ?thesis unfolding on_grid_def by blast
qed

lemma on_grid_int: "on_grid (of_int n)"
proof -
  have "(of_int n :: rat) = of_int (n * 2 ^ 40) * pow2 (- 40)" by (simp add: pow2_def)
  then show ?thesis unfolding on_grid_def by blast
qed

lemma rnd64_on_grid: "on_grid q \<Longrightarrow> \<bar>q\<bar> \<le> 8192 \<Longrightarrow> rnd64 q = Fin q"
proof -
  assume q: "on_grid q" "\<bar>q\<bar> \<le> 8192"
  then obtain m where m: "q = of_int m * pow2 (- 40)" by (auto simp: on_grid_def)
  have "\<bar>of_int m\<bar> \<le> (8192 * 2 ^ 40 :: rat)" using q(2) by (simp add: m abs_mult pow2_def field_simps)
  then have "(of_int \<bar>m\<bar> :: rat) \<le> of_int (2 ^ 53)" by simp
  then have "\<bar>m\<bar> \<le> 2 ^ 53" by (simp only: of_int_le_iff)
  then have "rnd 53 (- 1074) q = q" unfolding m by (intro repr_grid) simp_all
  moreover have "\<bar>q\<bar> \<le> pow2 13" using q(2) by (simp add: pow2_def)
  ultimately show ?thesis using rnd64_fin [of q 13] by simp
qed

definition amount :: "gotime \<times> f64 \<Rightarrow> rat" where
  "amount e = fval (snd e)"

definition spends_ok :: "rat \<Rightarrow> (gotime \<times> f64) list \<Rightarrow> bool" where
  "spends_ok B es \<longleftrightarrow> (\<forall>e\<in>set es. snd e = Fin (amount e) \<and> on_grid (amount e) \<and> 0 \<le> amount e) \<and> sum_list (map amount es) \<le> B"

lemma spends_ok_sum: "spends_ok B es \<Longrightarrow> 0 \<le> sum_list (map amount es)"
  by (auto simp: spends_ok_def intro!: sum_list_nonneg)

lemma sum_filter_le: "(\<forall>e\<in>set es. 0 \<le> amount e) \<Longrightarrow> sum_list (map amount (filter P es)) \<le> sum_list (map amount es)"
  by (induction es) auto

lemma spends_ok_filter: "spends_ok B es \<Longrightarrow> spends_ok B (filter P es)"
  using sum_filter_le [of es P] by (auto simp: spends_ok_def)

lemma fold_spent:
  assumes "\<forall>e\<in>set es. snd e = Fin (amount e) \<and> on_grid (amount e) \<and> 0 \<le> amount e"
    and "on_grid s" "0 \<le> s" "s + sum_list (map amount es) \<le> 8192"
  shows "fold (\<lambda>e s. add64 s (snd e)) es (Fin s) = Fin (s + sum_list (map amount es)) \<and> on_grid (s + sum_list (map amount es))"
  using assms
proof (induction es arbitrary: s)
  case (Cons e es)
  have e: "snd e = Fin (amount e)" "on_grid (amount e)" "0 \<le> amount e" using Cons.prems(1) by simp_all
  have "0 \<le> sum_list (map amount es)" using Cons.prems(1) by (auto intro!: sum_list_nonneg)
  with Cons.prems e have g: "on_grid (s + amount e)" "0 \<le> s + amount e" "s + amount e \<le> 8192"
    by (simp_all add: on_grid_add)
  then have "add64 (Fin s) (snd e) = Fin (s + amount e)" by (simp add: e rnd64_on_grid)
  with Cons.IH [of "s + amount e"] Cons.prems g show ?case by (simp add: add.assoc)
qed simp

lemma total_spent_exact:
  assumes "spends_ok B es" "B \<le> 8192"
  shows "total_spent es = Fin (sum_list (map amount es))" "on_grid (sum_list (map amount es))"
  using fold_spent [of es 0] assms on_grid_int [of 0] by (auto simp: spends_ok_def total_spent_def)

lemma charge_exact:
  assumes "dm_per_s dh = Fin B" "on_grid B" "0 < B" "B \<le> 8192"
    and "spends_ok B (kept_spends now i dh)" "on_grid a" "0 \<le> a"
  shows "charge_budget now i (Fin a) dh = (let S = sum_list (map amount (kept_spends now i dh)) in
     if B \<le> S then ((Fin 0, False), dh\<lparr>dm_budget := (dm_budget dh)(i \<mapsto> kept_spends now i dh)\<rparr>)
     else ((Fin (min a (B - S)), True), dh\<lparr>dm_budget := (dm_budget dh)(i \<mapsto> kept_spends now i dh @ [(now, Fin (min a (B - S)))])\<rparr>))"
proof -
  let ?k = "kept_spends now i dh"
  let ?S = "sum_list (map amount ?k)"
  note t = total_spent_exact [OF assms(5,4)]
  have "0 \<le> ?S" "?S \<le> B" using assms(5) spends_ok_sum by (auto simp: spends_ok_def)
  then have "rnd64 (B - ?S) = Fin (B - ?S)"
    using assms on_grid_add [OF assms(2) on_grid_neg [OF t(2)]] by (intro rnd64_on_grid) simp_all
  then have "sub64 (dm_per_s dh) (total_spent ?k) = Fin (B - ?S)" by (simp add: assms(1) t(1) fsub_def)
  then show ?thesis by (simp add: charge_budget_def Let_def min_def)
qed

section \<open>The budget over a history\<close>

fun accepted :: "u32 \<Rightarrow> (gotime \<times> rat) list \<Rightarrow> damage_handler \<Rightarrow> (gotime \<times> f64) list" where
  "accepted i [] dh = []"
| "accepted i ((t, a) # hs) dh = (case charge_budget t i (Fin a) dh of ((x, ok), dh1) \<Rightarrow>
     (if ok then [(t, x)] else []) @ accepted i hs dh1)"

definition spent_in :: "gotime \<Rightarrow> (gotime \<times> f64) list \<Rightarrow> rat" where
  "spent_in T es = sum_list (map amount (filter (\<lambda>e. T - second < fst e \<and> fst e \<le> T) es))"

definition entries :: "u32 \<Rightarrow> damage_handler \<Rightarrow> (gotime \<times> f64) list" where
  "entries i dh = (case dm_budget dh i of None \<Rightarrow> [] | Some es \<Rightarrow> es)"

lemma spent_in_append: "spent_in T (xs @ ys) = spent_in T xs + spent_in T ys"
  by (simp add: spent_in_def)

lemma spent_in_later: "\<forall>e\<in>set es. T < fst e \<Longrightarrow> spent_in T es = 0"
proof -
  assume "\<forall>e\<in>set es. T < fst e"
  then have "filter (\<lambda>e. T - second < fst e \<and> fst e \<le> T) es = []" by (force simp: filter_empty_conv)
  then show ?thesis by (simp add: spent_in_def)
qed

lemma spent_in_kept: "t \<le> T \<Longrightarrow> spent_in T (filter (\<lambda>e. t - second < fst e) es) = spent_in T es"
  unfolding spent_in_def filter_filter by (rule arg_cong [where f = "\<lambda>x. sum_list (map amount x)"], rule filter_cong) auto

lemma accepted_times: "e \<in> set (accepted i hs dh) \<Longrightarrow> fst e \<in> fst ` set hs"
proof (induction i hs dh rule: accepted.induct)
  case (2 i t a hs dh)
  obtain x ok dh1 where c: "charge_budget t i (Fin a) dh = ((x, ok), dh1)" by (metis prod.exhaust)
  have "e \<in> set (accepted i hs dh1) \<Longrightarrow> fst e \<in> fst ` set hs" by (rule "2.IH") (simp_all add: c)
  with "2.prems" show ?case by (auto simp: c split: if_splits)
qed simp

text \<open>A charge keeps the recorded spends exact and within the budget, and charges a positive grid amount.\<close>

lemma charge_keeps:
  assumes B: "dm_per_s dh = Fin B" "on_grid B" "0 < B" "B \<le> 8192" and a: "on_grid a" "0 \<le> a"
    and es: "spends_ok B (entries i dh)" and c: "charge_budget t i (Fin a) dh = ((x, ok), dh1)"
  shows "dm_per_s dh1 = Fin B" "dm_max_per_hit dh1 = dm_max_per_hit dh" "spends_ok B (entries i dh1)"
    "entries i dh1 = kept_spends t i dh @ (if ok then [(t, x)] else [])"
    "ok \<Longrightarrow> \<exists>y. x = Fin y \<and> on_grid y \<and> y \<le> a \<and> (0 < a \<longrightarrow> 0 < y)"
proof -
  let ?k = "kept_spends t i dh"
  let ?S = "sum_list (map amount ?k)"
  have "?k = filter (\<lambda>e. t - second < fst e) (entries i dh)" by (simp add: kept_spends_def entries_def)
  then have k: "spends_ok B ?k" using spends_ok_filter [OF es] by simp
  note r = charge_exact [OF B k a, unfolded Let_def] c
  have S: "0 \<le> ?S" using spends_ok_sum [OF k] .
  have g: "on_grid (B - ?S)" using on_grid_add [OF B(2) on_grid_neg [OF total_spent_exact(2) [OF k B(4)]]] by simp
  show "dm_per_s dh1 = Fin B" "dm_max_per_hit dh1 = dm_max_per_hit dh"
    using r B(1) by (auto split: if_splits)
  show e: "entries i dh1 = ?k @ (if ok then [(t, x)] else [])"
    using r by (auto simp: entries_def split: if_splits)
  have y: "x = Fin (min a (B - ?S)) \<and> ?S < B" if ok
    using r that by (auto split: if_splits)
  then show "ok \<Longrightarrow> \<exists>y. x = Fin y \<and> on_grid y \<and> y \<le> a \<and> (0 < a \<longrightarrow> 0 < y)"
    using a g by (auto simp: min_def)
  show "spends_ok B (entries i dh1)"
    unfolding e using k a g y S by (cases ok) (auto simp: spends_ok_def amount_def min_def)
qed

lemma budget_bound:
  assumes "dm_per_s dh = Fin B" "on_grid B" "0 < B" "B \<le> 8192"
    and "sorted (map fst hs)" "\<forall>h\<in>set hs. on_grid (snd h) \<and> 0 \<le> snd h" and "spends_ok B (entries i dh)"
  shows "spent_in T (entries i dh @ accepted i hs dh) \<le> B"
  using assms
proof (induction hs arbitrary: dh)
  case Nil
  have "spent_in T (entries i dh) \<le> sum_list (map amount (entries i dh))"
    unfolding spent_in_def using Nil(7) by (intro sum_filter_le) (simp add: spends_ok_def)
  with Nil(7) show ?case by (simp add: spends_ok_def)
next
  case (Cons h hs)
  obtain t a where h: "h = (t, a)" by (cases h)
  obtain x ok dh1 where c: "charge_budget t i (Fin a) dh = ((x, ok), dh1)" by (metis prod.exhaust)
  have a: "on_grid a" "0 \<le> a" and later: "\<forall>h\<in>set hs. t \<le> fst h" using Cons.prems(5,6) by (auto simp: h)
  note k = charge_keeps [OF Cons.prems(1-4) a Cons.prems(7) c]
  let ?new = "if ok then [(t, x)] else []"
  have acc: "accepted i (h # hs) dh = ?new @ accepted i hs dh1" by (simp add: h c)
  have IH: "spent_in T (entries i dh1 @ accepted i hs dh1) \<le> B"
    using Cons.prems k by (intro Cons.IH) simp_all
  show ?case
  proof (cases "t \<le> T")
    case True
    have "kept_spends t i dh = filter (\<lambda>e. t - second < fst e) (entries i dh)" by (simp add: kept_spends_def entries_def)
    then have "spent_in T (kept_spends t i dh) = spent_in T (entries i dh)" using spent_in_kept [OF True] by simp
    with IH show ?thesis unfolding acc k(4) by (simp add: spent_in_append)
  next
    case False
    have "T < fst e" if "e \<in> set (accepted i (h # hs) dh)" for e
      using accepted_times [OF that] later False by (auto simp: h)
    then have "\<forall>e\<in>set (accepted i (h # hs) dh). T < fst e" by blast
    then have "spent_in T (accepted i (h # hs) dh) = 0" by (rule spent_in_later)
    moreover have "spent_in T (entries i dh) \<le> B"
    proof -
      have "spent_in T (entries i dh) \<le> sum_list (map amount (entries i dh))"
        unfolding spent_in_def using Cons.prems(7) by (intro sum_filter_le) (simp add: spends_ok_def)
      with Cons.prems(7) show ?thesis by (simp add: spends_ok_def)
    qed
    ultimately show ?thesis by (simp add: spent_in_append)
  qed
qed

section \<open>The applied damage\<close>

text \<open>What a sequence of claimed hits of one attacker takes from its targets: the amounts \<open>damage_value\<close> answers.\<close>

fun applied_hits :: "u32 \<Rightarrow> (gotime \<times> f32) list \<Rightarrow> damage_handler \<Rightarrow> (gotime \<times> f32) list" where
  "applied_hits i [] dh = []"
| "applied_hits i ((t, d) # hs) dh = (case damage_value t i d dh of
     (Inl _, dh1) \<Rightarrow> applied_hits i hs dh1
   | (Inr x, dh1) \<Rightarrow> (t, x) # applied_hits i hs dh1)"

text \<open>The amounts charged for them: valid damage, clamped per hit.\<close>

definition claim_of :: "rat \<Rightarrow> gotime \<times> f32 \<Rightarrow> (gotime \<times> rat) option" where
  "claim_of c h = (if snd h = Fin (fval (snd h)) \<and> 0 < fval (snd h) \<and> fval (snd h) \<le> 250
     then Some (fst h, min c (fval (snd h))) else None)"

definition hit_cap :: "damage_handler \<Rightarrow> rat" where
  "hit_cap dh = fval (or_default (dm_max_per_hit dh) (Fin 150))"

lemma hit_cap_pos: "dm_max_per_hit dh = Fin c \<Longrightarrow> 0 < hit_cap dh"
  by (simp add: hit_cap_def or_default_def)

lemma damage_value_claim:
  assumes "dm_max_per_hit dh = Fin c" "dm_per_s dh = Fin B" "0 < B"
  shows "claim_of (hit_cap dh) (t, d) = None \<Longrightarrow> \<exists>m. damage_value t i d dh = (Inl m, dh)"
    "claim_of (hit_cap dh) (t, d) = Some (t', a) \<Longrightarrow> t' = t \<and> 0 < a \<and> damage_value t i d dh =
      (case charge_budget t i (Fin a) dh of ((charged, ok), dh1) \<Rightarrow>
         if \<not> ok \<or> fle charged (Fin 0) then (Inl ''damage budget exceeded'', dh1) else (Inr (f32_of charged), dh1))"
proof -
  have cap: "or_default (Fin c) (Fin 150) = Fin (hit_cap dh)" using assms(1) by (simp add: hit_cap_def or_default_def)
  have "(if flt (Fin (hit_cap dh)) (Fin q) then Fin (hit_cap dh) else Fin q) = Fin (min (hit_cap dh) q)" for q
    by (simp add: min_def)
  then show "claim_of (hit_cap dh) (t, d) = None \<Longrightarrow> \<exists>m. damage_value t i d dh = (Inl m, dh)"
    "claim_of (hit_cap dh) (t, d) = Some (t', a) \<Longrightarrow> t' = t \<and> 0 < a \<and> damage_value t i d dh =
      (case charge_budget t i (Fin a) dh of ((charged, ok), dh1) \<Rightarrow>
         if \<not> ok \<or> fle charged (Fin 0) then (Inl ''damage budget exceeded'', dh1) else (Inr (f32_of charged), dh1))"
    using assms hit_cap_pos [OF assms(1)]
    by (cases d; auto simp: claim_of_def damage_value_def cap split: if_splits)+
qed

text \<open>Narrowing to \<open>float32\<close> changes a charge by at most half a unit of its last place.\<close>

lemma rnd_rel:
  assumes "pow2 (em + p - 1) \<le> q"
  shows "rnd p em q \<le> q + q * pow2 (- p)"
proof -
  have q: "0 < q" using assms pow2_pos [of "em + p - 1"] by linarith
  have "pow2 (em + p - 1) < pow2 (ilog2 q + 1)" using assms ilog2_bounds(2) [OF q] by linarith
  then have u: "ulp_exp p em q = ilog2 q - (p - 1)" using q by (simp add: ulp_exp_def)
  have "rnd p em q - q = (of_int (round_even (q / pow2 (ulp_exp p em q))) - q / pow2 (ulp_exp p em q)) * pow2 (ulp_exp p em q)"
    using q by (simp add: rnd_eq left_diff_distrib)
  also have "\<dots> \<le> 1 / 2 * pow2 (ulp_exp p em q)"
    by (intro mult_right_mono abs_le_D1 [OF round_even_err]) simp
  also have "\<dots> = pow2 (- p) * pow2 (ilog2 q)" unfolding u using pow2_Suc [of "ilog2 q - p"]
    by (simp add: algebra_simps flip: pow2_add)
  also have "\<dots> \<le> pow2 (- p) * q" using ilog2_bounds(1) [OF q] by simp
  finally show ?thesis by (simp add: mult.commute)
qed

lemma narrowed:
  assumes "on_grid y" "0 < y" "y \<le> 8192"
  shows "fval (f32_of (Fin y)) \<le> y + y / 2 ^ 24"
proof -
  obtain m where m: "y = of_int m * pow2 (- 40)" using assms(1) by (auto simp: on_grid_def)
  then have "0 < of_int m * pow2 (- 40)" using assms(2) by simp
  then have "0 < (of_int m :: rat)" using pow2_pos zero_less_mult_pos2 by blast
  then have "1 \<le> m" by simp
  then have "1 * pow2 (- 40) \<le> y" unfolding m by (intro mult_right_mono) simp_all
  then have "pow2 (- 40) \<le> y" by simp
  then have "pow2 (- 126) \<le> y" using pow2_mono [of "- 126" "- 40"] by linarith
  then have "rnd 24 (- 149) y \<le> y + y * pow2 (- 24)" using rnd_rel [of "- 149" 24 y] by simp
  moreover have "rnd32 y = Fin (rnd 24 (- 149) y)"
    using assms(2,3) by (intro rnd32_fin [of _ 13]) (simp_all add: pow2_def)
  ultimately show ?thesis by (simp add: pow2_def)
qed

lemma applied_bound:
  assumes "dm_max_per_hit dh = Fin c" "dm_per_s dh = Fin B" "on_grid B" "0 < B" "B \<le> 8192"
    and "\<forall>h\<in>set hs. on_grid (fval (snd h))" "on_grid (hit_cap dh)" "spends_ok B (entries i dh)"
  shows "spent_in T (applied_hits i hs dh) \<le> (1 + 1 / 2 ^ 24) * spent_in T (accepted i (List.map_filter (claim_of (hit_cap dh)) hs) dh)"
  using assms
proof (induction hs arbitrary: dh)
  case Nil
  then show ?case by (simp add: spent_in_def map_filter_def)
next
  case (Cons h hs)
  obtain t d where h: "h = (t, d)" by (cases h)
  note dv = damage_value_claim [OF Cons.prems(1,2,4), of t d]
  show ?case
  proof (cases "claim_of (hit_cap dh) (t, d)")
    case None
    with dv(1) obtain m where "damage_value t i d dh = (Inl m, dh)" by blast
    with Cons.IH [OF Cons.prems(1-5) _ Cons.prems(7,8)] Cons.prems(6) None show ?thesis
      by (simp add: h map_filter_simps)
  next
    case (Some ta)
    then obtain a where s: "claim_of (hit_cap dh) (t, d) = Some (t, a)" using dv(2) by (metis prod.exhaust)
    note v = dv(2) [OF s, where i = i]
    have a: "on_grid a" using s Cons.prems(6,7) by (auto simp: h claim_of_def min_def split: if_splits)
    obtain x ok dh1 where ch: "charge_budget t i (Fin a) dh = ((x, ok), dh1)" by (metis prod.exhaust)
    have a0: "0 \<le> a" using v by simp
    note k = charge_keeps [OF Cons.prems(2-5) a a0 Cons.prems(8) ch]
    have cap: "hit_cap dh1 = hit_cap dh" by (simp add: hit_cap_def k(2))
    have IH: "spent_in T (applied_hits i hs dh1) \<le> (1 + 1 / 2 ^ 24) * spent_in T (accepted i (List.map_filter (claim_of (hit_cap dh)) hs) dh1)"
      using Cons.IH [of dh1] Cons.prems k cap by simp
    show ?thesis
    proof (cases ok)
      case False
      with IH v ch s show ?thesis by (simp add: h map_filter_simps)
    next
      case True
      then obtain y where y: "x = Fin y" "on_grid y" "y \<le> a" "0 < y" using k(5) v by auto
      have "y \<le> 250" using y(3) s by (auto simp: claim_of_def split: if_splits)
      then have n: "fval (f32_of x) \<le> (1 + 1 / 2 ^ 24) * y" using narrowed [OF y(2,4)] by (simp add: y(1) algebra_simps)
      have "applied_hits i (h # hs) dh = (t, f32_of x) # applied_hits i hs dh1" using v ch True y by (simp add: h)
      moreover have "accepted i (List.map_filter (claim_of (hit_cap dh)) (h # hs)) dh =
          (t, x) # accepted i (List.map_filter (claim_of (hit_cap dh)) hs) dh1"
        using ch True by (simp add: h s map_filter_simps)
      moreover have "spent_in T ((t, z) # es) = (if T - second < t \<and> t \<le> T then fval z else 0) + spent_in T es" for z es
        by (simp add: spent_in_def amount_def)
      ultimately show ?thesis using IH n y(1) by (simp add: distrib_left)
    qed
  qed
qed

section \<open>One hit\<close>

lemma damage_value_Inr:
  assumes "damage_value now i dmg dh = (Inr x, dh')"
  shows "\<exists>q. dmg = Fin q \<and> 0 < q \<and> q \<le> 250"
  using assms by (cases dmg) (auto simp: damage_value_def Let_def split: if_splits)

lemma hit_Inr:
  assumes "validate_and_apply_damage now lower groups los attacker target dmg (h, dh) = (Inr x, h', dh')"
  obtains a t d where "attacker = Some a" "target = Some t" "dmg = Some d" "damage_gate lower groups los (h a) (h t) d dh = None"
    "damage_value now (p_id (h a)) (dn_damage d) dh = (Inr x, dh')"
    "h' = (h(a := set_combat now (30 * second) (h a)))(t := wound x (set_combat now (30 * second) ((h(a := set_combat now (30 * second) (h a))) t)))"
  using assms unfolding validate_and_apply_damage_def
  by (auto simp: Let_def split: option.splits sum.splits prod.splits)

lemma hit_Inl: "validate_and_apply_damage now lower groups los attacker target dmg (h, dh) = (Inl r, h', dh') \<Longrightarrow> h' = h"
  unfolding validate_and_apply_damage_def
  by (auto simp: Let_def split: option.splits sum.splits prod.splits)

lemma gate_None:
  assumes "damage_gate lower groups los a t d dh = None"
  shows "p_level a = p_level t" "dn_attacker d = p_id a" "dn_target d = p_id t" "p_id a \<noteq> p_id t"
    "\<not> p_in_safe_zone a" "\<not> p_in_safe_zone t" "\<not> is_same_group (p_id a) (p_id t) groups"
    "\<not> same_faction lower (p_faction a) (p_faction t)"
    "\<not> flt (or_default (dm_max_range dh) (Fin 300)) (player_dist (p_pos a) (p_pos t))"
    "\<forall>f. los = Some f \<longrightarrow> f (p_level t) (p_pos a) (p_pos t)"
  using assms by (auto simp: damage_gate_def split: if_splits option.splits)

section \<open>Properties\<close>

text \<open>C21: The damage budget bounds every second. Whatever hits an attacker's packets claim, at
  whatever times (in order), the damage \<open>damage_value\<close> lets it apply within any one-second interval adds up to
  at most the budget and the 2^-24th part of it that the narrowing of the clamped amounts to \<open>float32\<close> can add, also
  across the aligned seconds; for budgets up to 8192 and claimed amounts, budget and per-hit limit on the
  \<open>2^-40\<close> grid (as every \<open>float32\<close> of at least \<open>2^-17\<close> is), where \<open>float64\<close> sums are exact.\<close>

theorem damage_budget_bounded:
  assumes "dm_per_s dh = Fin B" and "on_grid B" and "0 < B" and "B \<le> 8192" and "dm_budget dh i = None"
    and "dm_max_per_hit dh = Fin c" and "on_grid (hit_cap dh)"
    and "sorted (map fst hs)" and "\<forall>h\<in>set hs. on_grid (fval (snd h))"
  shows "spent_in T (applied_hits i hs dh) \<le> B + B / 2 ^ 24"
proof -
  let ?f = "claim_of (hit_cap dh)"
  have e: "entries i dh = []" using assms(5) by (simp add: entries_def)
  then have ok: "spends_ok B (entries i dh)" using assms(3) by (simp add: spends_ok_def)
  have s: "sorted (map fst (List.map_filter ?f hs))"
    using assms(8)
  proof (induction hs)
    case (Cons h hs)
    have "fst ` set (List.map_filter ?f hs) \<subseteq> fst ` set hs"
      by (force simp: map_filter_def claim_of_def split: if_splits)
    moreover have "fst p = fst h" if "?f h = Some p" for p using that by (auto simp: claim_of_def split: if_splits)
    ultimately show ?case using Cons by (cases "?f h") (fastforce simp: map_filter_simps)+
  qed (simp add: map_filter_simps)
  have g: "\<forall>h\<in>set (List.map_filter ?f hs). on_grid (snd h) \<and> 0 \<le> snd h"
    using assms(7,9) hit_cap_pos [OF assms(6)] by (auto simp: map_filter_def claim_of_def min_def split: if_splits)
  have "spent_in T (applied_hits i hs dh) \<le> (1 + 1 / 2 ^ 24) * spent_in T (accepted i (List.map_filter ?f hs) dh)"
    by (rule applied_bound [OF assms(6,1-4,9,7) ok])
  also have "\<dots> \<le> (1 + 1 / 2 ^ 24) * B"
    using budget_bound [OF assms(1-4) s g ok, of T] by (intro mult_left_mono) (simp_all add: e)
  finally show ?thesis by (simp add: algebra_simps)
qed

lemma on_grid_numeral: "on_grid (numeral n)" "on_grid 0"
  using on_grid_int [of "numeral n"] on_grid_int [of 0] by simp_all

theorem damage_budget_bounded_witness:
  "spent_in 900000000 (applied_hits 1 [(0, Fin 150), (100000000, Fin 150), (200000000, Fin 150), (300000000, Fin 150)] new_damage_handler)
     \<le> 400 + 400 / 2 ^ 24"
  using damage_budget_bounded [of new_damage_handler 400 1 150
    "[(0, Fin 150), (100000000, Fin 150), (200000000, Fin 150), (300000000, Fin 150)]" 900000000]
  by (simp add: new_damage_handler_def on_grid_numeral hit_cap_def or_default_def)

text \<open>C22: Damage is only dealt through every gate. A hit is applied only between two sessions of one
  level that the packet names, neither in a safe zone, not the same player, group or faction, not
  farther apart than the configured range (300 when none is set), with a clear line of sight when there is a checker and a finite positive damage of at most 250; it
  marks both in combat, takes the applied amount from the target (not below zero) and changes no
  other session. A rejected hit changes no session.\<close>

theorem damage_is_gated:
  assumes "validate_and_apply_damage now lower groups los (Some a) (Some t) (Some d) (h, dh) = (r, h', dh')"
  shows "case r of
      Inl reason \<Rightarrow> h' = h
    | Inr x \<Rightarrow> p_level (h a) = p_level (h t) \<and> dn_attacker d = p_id (h a) \<and> dn_target d = p_id (h t) \<and> a \<noteq> t \<and>
        \<not> p_in_safe_zone (h a) \<and> \<not> p_in_safe_zone (h t) \<and> \<not> is_same_group (p_id (h a)) (p_id (h t)) groups \<and>
        \<not> same_faction lower (p_faction (h a)) (p_faction (h t)) \<and>
        \<not> flt (or_default (dm_max_range dh) (Fin 300)) (player_dist (p_pos (h a)) (p_pos (h t))) \<and>
        (\<forall>f. los = Some f \<longrightarrow> f (p_level (h t)) (p_pos (h a)) (p_pos (h t))) \<and>
        (\<exists>q. dn_damage d = Fin q \<and> 0 < q \<and> q \<le> 250) \<and>
        h' a = set_combat now (30 * second) (h a) \<and>
        h' t = wound x (set_combat now (30 * second) (h t)) \<and> \<not> flt (p_health (h' t)) (Fin 0) \<and>
        (\<forall>p. p \<noteq> a \<longrightarrow> p \<noteq> t \<longrightarrow> h' p = h p)"
proof (cases r)
  case (Inl reason)
  with hit_Inl assms show ?thesis by auto
next
  case (Inr x)
  from assms [unfolded Inr] obtain a1 t1 d1 where e: "Some a = Some a1" "Some t = Some t1" "Some d = Some d1"
    and g1: "damage_gate lower groups los (h a1) (h t1) d1 dh = None"
    and v1: "damage_value now (p_id (h a1)) (dn_damage d1) dh = (Inr x, dh')"
    and h1: "h' = (h(a1 := set_combat now (30 * second) (h a1)))(t1 := wound x (set_combat now (30 * second) ((h(a1 := set_combat now (30 * second) (h a1))) t1)))"
    by (rule hit_Inr)
  from e have "a1 = a" "t1 = t" "d1 = d" by simp_all
  note g = g1 [unfolded this] and v = v1 [unfolded this] and h' = h1 [unfolded this]
  note gate = gate_None [OF g]
  have at: "a \<noteq> t" using gate(4) by auto
  have "\<not> flt (p_health (wound x s)) (Fin 0)" for s by (simp add: wound_def Let_def)
  with gate at damage_value_Inr [OF v] show ?thesis
    unfolding Inr by (simp add: h')
qed

definition demo_fight :: "player_session \<Rightarrow> heap" where
  "demo_fight t = (\<lambda>q. if q = 0 then (demo_session 1 ''u1'' 4000)\<lparr>p_faction := ''bandit''\<rparr> else t)"

theorem damage_is_gated_witness:
  "let d = \<lparr>dn_target = 2, dn_attacker = 1, dn_damage = Fin 200, dn_bone = 0\<rparr>; h = demo_fight (demo_session 2 ''u2'' 5000)
   in case validate_and_apply_damage 0 (map lower_char) None None (Some 0) (Some 1) (Some d) (h, new_damage_handler) of
        (r, h', dh') \<Rightarrow> r = Inr (Fin 150) \<and> \<not> p_in_safe_zone (h 1) \<and> \<not> flt (p_health (h' 1)) (Fin 0)"
proof -
  let ?d = "\<lparr>dn_target = 2, dn_attacker = 1, dn_damage = Fin 200, dn_bone = 0\<rparr>" and ?h = "demo_fight (demo_session 2 ''u2'' 5000)"
  obtain r h' dh' where e: "validate_and_apply_damage 0 (map lower_char) None None (Some 0) (Some 1) (Some ?d) (?h, new_damage_handler) = (r, h', dh')"
    by (metis prod.exhaust)
  have q: "sqrt_rnd 0 = 0" by code_simp
  have f: "same_faction (map lower_char) ''bandit'' ''stalker'' = False" by code_simp
  have "fst (validate_and_apply_damage 0 (map lower_char) None None (Some 0) (Some 1) (Some ?d) (?h, new_damage_handler)) = Inr (Fin 150)"
    by (simp add: validate_and_apply_damage_def damage_gate_def damage_value_def charge_budget_def kept_spends_def total_spent_def
        or_default_def player_dist_def dist3_def is_same_group_def f q demo_fight_def demo_session_def new_damage_handler_def Let_def fsub_def)
  with e have r: "r = Inr (Fin 150)" by simp
  have "\<not> p_in_safe_zone (?h 1)" "\<not> flt (p_health (h' 1)) (Fin 0)"
    using damage_is_gated [OF e] unfolding r sum.case by blast+
  then show ?thesis unfolding Let_def e prod.case r by blast
qed

end
