(* ===== verification/SafeZones.thy ===== *)
theory SafeZones
  imports GoFloat
begin

text \<open>
  Safe zones: internal/game/safezone.go. The in-memory table is a list that loading replaces as a
  whole; the \<open>safe_zones\<close> table is a list of rows with the key \<open>zone_id\<close>, its REAL columns
  \<open>float64\<close> values that a scan narrows to \<open>float32\<close>. \<open>fails k\<close> says whether the \<open>k\<close>-th
  statement of the seeding transaction fails.
\<close>

record safe_zone =
  z_id :: string
  z_level :: string
  z_x :: f32
  z_y :: f32
  z_z :: f32
  z_radius :: f32
  z_height :: f32

text \<open>A composite literal of the source: decimal constants rounded to \<open>float32\<close>.\<close>

definition zone :: "string \<Rightarrow> string \<Rightarrow> rat \<Rightarrow> rat \<Rightarrow> rat \<Rightarrow> rat \<Rightarrow> rat \<Rightarrow> safe_zone" where
  "zone i l x y z r h = \<lparr>z_id = i, z_level = l, z_x = rnd32 x, z_y = rnd32 y, z_z = rnd32 z,
     z_radius = rnd32 r, z_height = rnd32 h\<rparr>"

definition default_safe_zones :: "safe_zone list" where
  "default_safe_zones = [
    zone ''sz_cordon_rookie'' ''l01_escape'' (- 2113 / 10) (- 101 / 5) (- 729 / 5) 65 20,
    zone ''sz_cordon_farm'' ''l01_escape'' (162 / 5) (31 / 10) (751 / 5) 50 20,
    zone ''sz_garbage_flea'' ''l02_garbage'' (- 177 / 2) (- 1 / 2) (- 41 / 5) 45 20,
    zone ''sz_rostok_bar'' ''l05_bar_rostok'' (61 / 2) (1 / 2) (691 / 5) 120 20,
    zone ''sz_darkvalley_base'' ''l04_darkvalley'' 122 (6 / 5) (- 521 / 2) 80 20,
    zone ''sz_agroprom_camp'' ''l03_agroprom'' (- 751 / 5) (27 / 5) (- 40) 55 20,
    zone ''sz_warehouses_base'' ''l07_military'' (- 77 / 5) (- 26 / 5) (1103 / 5) 110 20,
    zone ''sz_yantar_bunker'' ''l08_yantar'' (164 / 5) (- 23 / 2) (- 1351 / 5) 45 20,
    zone ''sz_deadcity_base'' ''l09_deadcity'' 5 (21 / 10) (61 / 2) 75 20,
    zone ''sz_swamp_clearsky'' ''k00_marsh'' (- 701 / 5) (3 / 2) (- 305) 85 20,
    zone ''sz_zaton_skadovsk'' ''zaton'' (225 / 2) (- 9 / 2) (1823 / 10) 65 20,
    zone ''sz_jupiter_yanov'' ''jupiter'' (- 40) (7 / 2) 220 75 20]"

section \<open>The lookup\<close>

definition inside_zone :: "f32 \<Rightarrow> f32 \<Rightarrow> f32 \<Rightarrow> safe_zone \<Rightarrow> bool" where
  "inside_zone x y z sz \<longleftrightarrow> (let dx = sub32 x (z_x sz); dz = sub32 z (z_z sz) in
     fle (add32 (mul32 dx dx) (mul32 dz dz)) (mul32 (z_radius sz) (z_radius sz)) \<and>
     fle (fabs (sub32 y (z_y sz))) (fdiv_const rnd64 (z_height sz) 2))"

definition check_safe_zone :: "safe_zone list \<Rightarrow> f32 \<Rightarrow> f32 \<Rightarrow> f32 \<Rightarrow> string \<Rightarrow> safe_zone option" where
  "check_safe_zone zones x y z level = List.find (\<lambda>sz. z_level sz = level \<and> inside_zone x y z sz) zones"

section \<open>Seeding and loading\<close>

definition insert_zone :: "safe_zone \<Rightarrow> safe_zone list \<Rightarrow> safe_zone list" where
  "insert_zone sz rows = (if z_id sz \<in> z_id ` set rows then rows else rows @ [sz])"

definition seed_safe_zones :: "(nat \<Rightarrow> bool) \<Rightarrow> safe_zone list \<Rightarrow> bool \<times> safe_zone list" where
  "seed_safe_zones fails rows = (if list_ex fails [0..<length default_safe_zones + 3] then (False, rows)
     else (True, fold insert_zone default_safe_zones rows))"

definition scan_zone :: "safe_zone \<Rightarrow> safe_zone" where
  "scan_zone r = r\<lparr>z_x := f32_of (z_x r), z_y := f32_of (z_y r), z_z := f32_of (z_z r),
     z_radius := f32_of (z_radius r), z_height := f32_of (z_height r)\<rparr>"

text \<open>Loading: the answer, the table in memory and the rows. \<open>reads_fail\<close> says whether one of the
  two queries fails.\<close>

definition load_safe_zones :: "(nat \<Rightarrow> bool) \<Rightarrow> bool \<times> bool \<Rightarrow> safe_zone list option \<Rightarrow> safe_zone list \<Rightarrow>
    bool \<times> safe_zone list \<times> safe_zone list option" where
  "load_safe_zones fails reads_fail db zones = (case db of
     None \<Rightarrow> (True, zones, None)
   | Some rows \<Rightarrow> if fst reads_fail then (False, zones, db) else
       (case (if rows = [] then seed_safe_zones fails rows else (True, rows)) of
          (ok, rows1) \<Rightarrow> if \<not> ok \<or> snd reads_fail then (False, zones, Some rows1)
            else (True, map scan_zone rows1, Some rows1)))"

section \<open>Lemmas\<close>

lemma default_ids_distinct: "distinct (map z_id default_safe_zones)"
  by (simp add: default_safe_zones_def zone_def)

lemma fold_insert_zone: "distinct (map z_id (rows @ zs)) \<Longrightarrow> fold insert_zone zs rows = rows @ zs"
proof (induction zs arbitrary: rows)
  case (Cons z zs)
  then have "z_id z \<notin> z_id ` set rows" by auto
  then have "insert_zone z rows = rows @ [z]" by (simp add: insert_zone_def)
  with Cons show ?case by simp
qed simp

lemma f32_of_rnd32: "f32_of (rnd32 q) = rnd32 q"
  by (simp add: rnd32_def fin_or_inf_def rnd_idem)

lemma scan_zone_default: "sz \<in> set default_safe_zones \<Longrightarrow> scan_zone sz = sz"
  by (auto simp: default_safe_zones_def scan_zone_def zone_def f32_of_rnd32)

section \<open>Properties\<close>

text \<open>A new server protects the built-in zones: loading from an empty table seeds it and puts
  exactly the default zones in memory, the same values after their trip through the REAL columns;
  a later load returns them again without seeding, and a failing statement leaves the zones in
  memory as they were.\<close>

lemma fresh_load_is_default:
  "case load_safe_zones fails reads (Some []) zones of (ok, zones', db) \<Rightarrow>
     if ok then zones' = default_safe_zones \<and> db = Some default_safe_zones \<and>
       (\<forall>f. load_safe_zones f (False, False) db zones = (True, default_safe_zones, db))
     else zones' = zones"
proof -
  have "fold insert_zone default_safe_zones [] = default_safe_zones"
    using fold_insert_zone [of "[]" default_safe_zones] default_ids_distinct by simp
  moreover have "map scan_zone default_safe_zones = default_safe_zones"
    by (simp add: map_idI scan_zone_default)
  moreover have "default_safe_zones \<noteq> []" by (simp add: default_safe_zones_def)
  ultimately show ?thesis
    by (cases reads) (auto simp: load_safe_zones_def seed_safe_zones_def split: if_splits)
qed

end
