(* ===== verification/Sleepers.thy ===== *)
theory Sleepers
  imports Sessions
begin

text \<open>
  Sleepers: internal/game/sleeper_manager.go. A player who disconnects outside a safe zone or in
  combat leaves a proxy behind. Sleepers are Go pointers that two maps share and that
  \<open>Tick\<close> compares, so the manager holds a heap of them and the maps hold keys of the heap.
  Ranging over \<open>sleepers\<close> takes the visiting order; the callbacks of \<open>Tick\<close> are returned
  as the lists of sleepers they are made with, in the order of the calls.
\<close>

record sleeper =
  sl_id :: u32
  sl_account :: string
  sl_faction :: string
  sl_pos :: "f32 \<times> f32 \<times> f32"
  sl_rot :: "f32 \<times> f32"
  sl_health :: f32
  sl_level :: string
  sl_expires :: gotime
  sl_dead :: bool

record sleeper_manager =
  slm_sleepers :: "u32 \<Rightarrow> nat option"
  slm_by_account :: "string \<Rightarrow> nat option"
  slm_heap :: "nat \<Rightarrow> sleeper"
  slm_fresh :: nat
  slm_seq :: u32

section \<open>Operations\<close>

definition zero_sleeper :: sleeper where
  "zero_sleeper = \<lparr>sl_id = 0, sl_account = [], sl_faction = [], sl_pos = (Fin 0, Fin 0, Fin 0), sl_rot = (Fin 0, Fin 0),
     sl_health = Fin 0, sl_level = [], sl_expires = 0, sl_dead = False\<rparr>"

definition new_sleeper_manager :: sleeper_manager where
  "new_sleeper_manager = \<lparr>slm_sleepers = Map.empty, slm_by_account = Map.empty, slm_heap = (\<lambda>_. zero_sleeper),
     slm_fresh = 0, slm_seq = 0\<rparr>"

text \<open>The search for a free id. It does not end when every id is taken: then it is \<open>None\<close>.\<close>

partial_function (option) free_id :: "(u32 \<Rightarrow> nat option) \<Rightarrow> u32 \<Rightarrow> u32 option" where
  "free_id m s = (if m (s + 1) = None then Some (s + 1) else free_id m (s + 1))"

definition drop_account :: "string \<Rightarrow> sleeper_manager \<Rightarrow> sleeper_manager" where
  "drop_account a m = (if a = [] then m else case slm_by_account m a of
     None \<Rightarrow> m
   | Some p \<Rightarrow> m\<lparr>slm_sleepers := (slm_sleepers m)(sl_id (slm_heap m p) := None),
                  slm_by_account := (slm_by_account m)(a := None)\<rparr>)"

definition drop_id :: "u32 \<Rightarrow> sleeper_manager \<Rightarrow> sleeper_manager" where
  "drop_id i m = (case slm_sleepers m i of
     None \<Rightarrow> m
   | Some p \<Rightarrow> let a = sl_account (slm_heap m p); m1 = m\<lparr>slm_sleepers := (slm_sleepers m)(i := None)\<rparr> in
       if a = [] then m1 else m1\<lparr>slm_by_account := (slm_by_account m1)(a := None)\<rparr>)"

definition put_sleeper :: "sleeper \<Rightarrow> sleeper_manager \<Rightarrow> sleeper_manager" where
  "put_sleeper s m = m\<lparr>slm_heap := (slm_heap m)(slm_fresh m := s), slm_fresh := slm_fresh m + 1,
     slm_sleepers := (slm_sleepers m)(sl_id s \<mapsto> slm_fresh m),
     slm_by_account := (if sl_account s = [] then slm_by_account m else (slm_by_account m)(sl_account s \<mapsto> slm_fresh m))\<rparr>"

definition sleeper_of :: "gotime \<Rightarrow> duration \<Rightarrow> u32 \<Rightarrow> player_session \<Rightarrow> sleeper" where
  "sleeper_of now d i s = \<lparr>sl_id = i, sl_account = p_account s, sl_faction = p_faction s, sl_pos = p_pos s,
     sl_rot = p_rot s, sl_health = p_health s, sl_level = p_level s, sl_expires = now + d, sl_dead = False\<rparr>"

text \<open>\<open>None\<close>: the call does not return.\<close>

definition create_sleeper :: "gotime \<Rightarrow> duration \<Rightarrow> player_session option \<Rightarrow> sleeper_manager \<Rightarrow>
    (nat option \<times> sleeper_manager) option" where
  "create_sleeper now d sess m = (case sess of
     None \<Rightarrow> Some (None, m)
   | Some s \<Rightarrow>
       (case (if p_id s \<noteq> 0 then Some (p_id s, m)
              else map_option (\<lambda>i. (i, m\<lparr>slm_seq := i\<rparr>)) (free_id (slm_sleepers m) (slm_seq m))) of
          None \<Rightarrow> None
        | Some (i, m1) \<Rightarrow>
            let m2 = drop_id i (drop_account (p_account s) m1)
            in Some (Some (slm_fresh m2), put_sleeper (sleeper_of now d i s) m2)))"

definition get_sleeper :: "u32 \<Rightarrow> sleeper_manager \<Rightarrow> nat option" where
  "get_sleeper i m = slm_sleepers m i"

definition get_sleeper_by_account :: "string \<Rightarrow> sleeper_manager \<Rightarrow> nat option" where
  "get_sleeper_by_account a m = slm_by_account m a"

text \<open>Deleting the entry of a pointer that was found under an id.\<close>

definition forget_sleeper :: "u32 \<Rightarrow> nat \<Rightarrow> sleeper_manager \<Rightarrow> sleeper_manager" where
  "forget_sleeper i p m = (let m1 = m\<lparr>slm_sleepers := (slm_sleepers m)(i := None)\<rparr>; a = sl_account (slm_heap m p) in
     if a \<noteq> [] \<and> slm_by_account m1 a = Some p then m1\<lparr>slm_by_account := (slm_by_account m1)(a := None)\<rparr> else m1)"

definition remove_sleeper :: "u32 \<Rightarrow> sleeper_manager \<Rightarrow> nat option \<times> sleeper_manager" where
  "remove_sleeper i m = (case slm_sleepers m i of None \<Rightarrow> (None, m) | Some p \<Rightarrow> (Some p, forget_sleeper i p m))"

definition hurt :: "f32 \<Rightarrow> sleeper \<Rightarrow> sleeper" where
  "hurt damage s = (let s1 = (if flt (Fin 0) damage then s\<lparr>sl_health := sub32 (sl_health s) damage\<rparr> else s) in
     if fle (sl_health s1) (Fin 0) then s1\<lparr>sl_health := Fin 0, sl_dead := True\<rparr> else s1)"

definition apply_sleeper_damage :: "u32 \<Rightarrow> f32 \<Rightarrow> sleeper_manager \<Rightarrow> (f32 \<times> bool) \<times> sleeper_manager" where
  "apply_sleeper_damage i damage m = (case slm_sleepers m i of
     None \<Rightarrow> ((Fin 0, False), m)
   | Some p \<Rightarrow> let s = slm_heap m p in
       if sl_dead s then ((Fin 0, True), m)
       else let s1 = hurt damage s in ((sl_health s1, sl_dead s1), m\<lparr>slm_heap := (slm_heap m)(p := s1)\<rparr>))"

definition sleeper_expired :: "gotime \<Rightarrow> sleeper \<Rightarrow> bool" where
  "sleeper_expired now s \<longleftrightarrow> sl_expires s < now \<or> now = sl_expires s"

fun sleeper_loop :: "gotime \<Rightarrow> u32 list \<Rightarrow> sleeper_manager \<Rightarrow> nat list \<times> nat list \<times> sleeper_manager" where
  "sleeper_loop now [] m = ([], [], m)"
| "sleeper_loop now (i # ks) m = (case slm_sleepers m i of
     None \<Rightarrow> sleeper_loop now ks m
   | Some p \<Rightarrow> let s = slm_heap m p in
       if sl_dead s then (case sleeper_loop now ks (forget_sleeper i p m) of (ds, es, m') \<Rightarrow> (p # ds, es, m'))
       else if sleeper_expired now s then (case sleeper_loop now ks (forget_sleeper i p m) of (ds, es, m') \<Rightarrow> (ds, p # es, m'))
       else sleeper_loop now ks m)"

text \<open>The deaths called back, the expiries called back and the manager after.\<close>

definition sleeper_tick :: "gotime \<Rightarrow> u32 list \<Rightarrow> sleeper_manager \<Rightarrow> nat list \<times> nat list \<times> sleeper_manager" where
  "sleeper_tick now ro m = sleeper_loop now ro m"

definition all_sleepers :: "u32 list \<Rightarrow> sleeper_manager \<Rightarrow> nat list" where
  "all_sleepers ro m = List.map_filter (slm_sleepers m) ro"

definition sleeper_count :: "sleeper_manager \<Rightarrow> nat" where
  "sleeper_count m = card (dom (slm_sleepers m))"

section \<open>The invariant\<close>

text \<open>Both maps hold the same sleepers: each under its id, and each that has an account under it.\<close>

definition sleepers_ok :: "sleeper_manager \<Rightarrow> bool" where
  "sleepers_ok m \<longleftrightarrow>
     (\<forall>i p. slm_sleepers m i = Some p \<longrightarrow> sl_id (slm_heap m p) = i \<and> p < slm_fresh m \<and>
        (sl_account (slm_heap m p) \<noteq> [] \<longrightarrow> slm_by_account m (sl_account (slm_heap m p)) = Some p)) \<and>
     (\<forall>a p. slm_by_account m a = Some p \<longrightarrow> a \<noteq> [] \<and> sl_account (slm_heap m p) = a \<and>
        slm_sleepers m (sl_id (slm_heap m p)) = Some p)"

inductive sleeper_reach :: "sleeper_manager \<Rightarrow> bool" where
  new_manager: "sleeper_reach new_sleeper_manager"
| create: "sleeper_reach m \<Longrightarrow> create_sleeper now d sess m = Some (r, m') \<Longrightarrow> sleeper_reach m'"
| remove: "sleeper_reach m \<Longrightarrow> sleeper_reach (snd (remove_sleeper i m))"
| damage: "sleeper_reach m \<Longrightarrow> sleeper_reach (snd (apply_sleeper_damage i x m))"
| tick: "sleeper_reach m \<Longrightarrow> is_order (slm_sleepers m) ro \<Longrightarrow> sleeper_reach (snd (snd (sleeper_tick now ro m)))"

lemma sleepers_okD:
  assumes "sleepers_ok m"
  shows "slm_sleepers m i = Some p \<Longrightarrow> sl_id (slm_heap m p) = i \<and> p < slm_fresh m"
    "slm_sleepers m i = Some p \<Longrightarrow> sl_account (slm_heap m p) \<noteq> [] \<Longrightarrow> slm_by_account m (sl_account (slm_heap m p)) = Some p"
    "slm_by_account m a = Some p \<Longrightarrow> a \<noteq> [] \<and> sl_account (slm_heap m p) = a \<and> slm_sleepers m (sl_id (slm_heap m p)) = Some p"
  using assms by (simp_all add: sleepers_ok_def)

lemma ok_new: "sleepers_ok new_sleeper_manager"
  by (simp add: sleepers_ok_def new_sleeper_manager_def)

text \<open>All four ways of dropping an entry are the same removal from both maps.\<close>

definition drop_entry :: "u32 \<Rightarrow> nat \<Rightarrow> sleeper_manager \<Rightarrow> sleeper_manager" where
  "drop_entry i p m = m\<lparr>slm_sleepers := (slm_sleepers m)(i := None),
     slm_by_account := (if sl_account (slm_heap m p) = [] then slm_by_account m
                        else (slm_by_account m)(sl_account (slm_heap m p) := None))\<rparr>"

lemma ok_drop_entry:
  assumes "sleepers_ok m" "slm_sleepers m i = Some p"
  shows "sleepers_ok (drop_entry i p m)"
proof -
  note ok = sleepers_okD [OF assms(1)]
  let ?a = "sl_account (slm_heap m p)"
  have x: "sl_id (slm_heap m q) = j \<and> q < slm_fresh m \<and> (sl_account (slm_heap m q) \<noteq> [] \<longrightarrow>
      slm_by_account (drop_entry i p m) (sl_account (slm_heap m q)) = Some q)"
    if j: "slm_sleepers m j = Some q" "j \<noteq> i" for j q
  proof -
    have ne: "q \<noteq> p" using ok(1) [OF j(1)] ok(1) [OF assms(2)] j(2) by metis
    have "sl_account (slm_heap m q) \<noteq> ?a" if "sl_account (slm_heap m q) \<noteq> []"
      using ne that ok(2) [OF j(1)] ok(2) [OF assms(2)] by (metis option.inject)
    then show ?thesis using ok(1) [OF j(1)] ok(2) [OF j(1)] unfolding drop_entry_def by auto
  qed
  have y: "c \<noteq> [] \<and> sl_account (slm_heap m q) = c \<and> slm_sleepers (drop_entry i p m) (sl_id (slm_heap m q)) = Some q"
    if c: "slm_by_account m c = Some q" "?a = [] \<or> c \<noteq> ?a" for c q
  proof -
    from ok(3) [OF c(1)] have q: "c \<noteq> []" "sl_account (slm_heap m q) = c" "slm_sleepers m (sl_id (slm_heap m q)) = Some q" by simp_all
    have "sl_id (slm_heap m q) \<noteq> i"
    proof
      assume "sl_id (slm_heap m q) = i"
      with q(3) assms(2) have "q = p" by simp
      with c(2) q show False by simp
    qed
    with q show ?thesis by (simp add: drop_entry_def)
  qed
  have s: "slm_heap (drop_entry i p m) = slm_heap m" "slm_fresh (drop_entry i p m) = slm_fresh m"
    "slm_sleepers (drop_entry i p m) = (slm_sleepers m)(i := None)" by (simp_all add: drop_entry_def)
  have n: "slm_by_account (drop_entry i p m) c = Some q \<Longrightarrow> slm_by_account m c = Some q \<and> (?a = [] \<or> c \<noteq> ?a)" for c q
    by (auto simp: drop_entry_def split: if_splits)
  show ?thesis
    unfolding sleepers_ok_def s(1,2)
  proof (intro conjI allI impI)
    fix j q assume "slm_sleepers (drop_entry i p m) j = Some q"
    then have "slm_sleepers m j = Some q" "j \<noteq> i" by (auto simp: s(3) split: if_splits)
    note x [OF this]
    then show "sl_id (slm_heap m q) = j" "q < slm_fresh m"
      "sl_account (slm_heap m q) \<noteq> [] \<Longrightarrow> slm_by_account (drop_entry i p m) (sl_account (slm_heap m q)) = Some q" by simp_all
  next
    fix c q assume "slm_by_account (drop_entry i p m) c = Some q"
    note y [OF n [OF this, THEN conjunct1] n [OF this, THEN conjunct2]]
    then show "c \<noteq> []" "sl_account (slm_heap m q) = c"
      "slm_sleepers (drop_entry i p m) (sl_id (slm_heap m q)) = Some q" by simp_all
  qed
qed

lemma drop_account_entry: "sleepers_ok m \<Longrightarrow> drop_account a m = m \<or>
    (\<exists>i p. slm_sleepers m i = Some p \<and> drop_account a m = drop_entry i p m)"
  using sleepers_okD(3) [of m a]
  by (cases "a = []"; cases "slm_by_account m a") (auto simp: drop_account_def drop_entry_def)

lemma drop_id_entry: "drop_id i m = m \<or> (\<exists>p. slm_sleepers m i = Some p \<and> drop_id i m = drop_entry i p m)"
  by (cases "slm_sleepers m i") (auto simp: drop_id_def drop_entry_def Let_def)

lemma forget_entry: "sleepers_ok m \<Longrightarrow> slm_sleepers m i = Some p \<Longrightarrow> forget_sleeper i p m = drop_entry i p m"
  using sleepers_okD(2) [of m i p] by (auto simp: forget_sleeper_def drop_entry_def Let_def)

lemma ok_drop_account: "sleepers_ok m \<Longrightarrow> sleepers_ok (drop_account a m)"
  using drop_account_entry [of m a] by (auto simp: ok_drop_entry)

lemma ok_drop_id: "sleepers_ok m \<Longrightarrow> sleepers_ok (drop_id i m)"
  using drop_id_entry [of i m] by (auto simp: ok_drop_entry)

lemma drop_account_absent: "slm_by_account (drop_account a m) a = None \<or> a = []"
  by (auto simp: drop_account_def split: option.split)

lemma drop_id_absent: "slm_sleepers (drop_id i m) i = None"
  by (simp add: drop_id_def Let_def split: option.split)

lemma drop_id_by_account: "slm_by_account m a = None \<Longrightarrow> slm_by_account (drop_id i m) a = None"
  by (simp add: drop_id_def Let_def split: option.split)

lemma ok_put:
  assumes "sleepers_ok m" "slm_sleepers m (sl_id s) = None" "sl_account s = [] \<or> slm_by_account m (sl_account s) = None"
  shows "sleepers_ok (put_sleeper s m)"
proof -
  note ok = sleepers_okD [OF assms(1)]
  let ?m = "put_sleeper s m" and ?f = "slm_fresh m"
  have h: "slm_heap ?m ?f = s" "\<And>p. p \<noteq> ?f \<Longrightarrow> slm_heap ?m p = slm_heap m p" "slm_fresh ?m = ?f + 1"
    "slm_sleepers ?m = (slm_sleepers m)(sl_id s \<mapsto> ?f)"
    "slm_by_account ?m = (if sl_account s = [] then slm_by_account m else (slm_by_account m)(sl_account s \<mapsto> ?f))"
    by (simp_all add: put_sleeper_def)
  have a: "sl_id (slm_heap ?m p) = i \<and> p < slm_fresh ?m \<and>
      (sl_account (slm_heap ?m p) \<noteq> [] \<longrightarrow> slm_by_account ?m (sl_account (slm_heap ?m p)) = Some p)"
    if "slm_sleepers ?m i = Some p" for i p
  proof (cases "i = sl_id s")
    case True
    with that show ?thesis by (auto simp: h)
  next
    case False
    with that have p: "slm_sleepers m i = Some p" by (simp add: h)
    then have "p \<noteq> ?f" using ok(1) by fastforce
    moreover have "sl_account (slm_heap m p) \<noteq> sl_account s" if "sl_account (slm_heap m p) \<noteq> []"
      using ok(2) [OF p that] assms(3) that by auto
    ultimately show ?thesis using ok(1,2) [OF p] by (auto simp: h)
  qed
  have b: "c \<noteq> [] \<and> sl_account (slm_heap ?m p) = c \<and> slm_sleepers ?m (sl_id (slm_heap ?m p)) = Some p"
    if "slm_by_account ?m c = Some p" for c p
  proof (cases "sl_account s \<noteq> [] \<and> c = sl_account s")
    case True
    with that show ?thesis by (auto simp: h)
  next
    case False
    with that have p: "slm_by_account m c = Some p" by (auto simp: h split: if_splits)
    from ok(3) [OF p] have q: "slm_sleepers m (sl_id (slm_heap m p)) = Some p" by simp
    then have "p \<noteq> ?f" using ok(1) by fastforce
    with ok(3) [OF p] q assms(2) show ?thesis by (auto simp: h)
  qed
  show ?thesis unfolding sleepers_ok_def using a b by blast
qed

lemma create_cases:
  assumes "create_sleeper now d sess m = Some (r, m')"
  obtains "m' = m" "r = None"
  | s i m1 where "sess = Some s" "m1 = m \<or> m1 = m\<lparr>slm_seq := i\<rparr>" "p_id s \<noteq> 0 \<Longrightarrow> i = p_id s"
      "m' = put_sleeper (sleeper_of now d i s) (drop_id i (drop_account (p_account s) m1))"
      "r = Some (slm_fresh (drop_id i (drop_account (p_account s) m1)))"
  using assms by (auto simp: create_sleeper_def Let_def split: option.splits if_splits)

lemma ok_create: "sleepers_ok m \<Longrightarrow> create_sleeper now d sess m = Some (r, m') \<Longrightarrow> sleepers_ok m'"
proof (erule create_cases, simp)
  fix s i m1
  assume ok: "sleepers_ok m" and m1: "m1 = m \<or> m1 = m\<lparr>slm_seq := i\<rparr>"
    and m': "m' = put_sleeper (sleeper_of now d i s) (drop_id i (drop_account (p_account s) m1))"
  have "sleepers_ok (m\<lparr>slm_seq := i\<rparr>) = sleepers_ok m" by (simp add: sleepers_ok_def)
  with ok m1 have "sleepers_ok m1" by metis
  then have k: "sleepers_ok (drop_id i (drop_account (p_account s) m1))" by (intro ok_drop_id ok_drop_account)
  have "p_account s = [] \<or> slm_by_account (drop_id i (drop_account (p_account s) m1)) (p_account s) = None"
    using drop_account_absent [of "p_account s" m1] drop_id_by_account by metis
  then show "sleepers_ok m'"
    unfolding m' by (intro ok_put k) (simp_all add: sleeper_of_def drop_id_absent)
qed

lemma ok_forget: "sleepers_ok m \<Longrightarrow> slm_sleepers m i = Some p \<Longrightarrow> sleepers_ok (forget_sleeper i p m)"
  by (simp add: forget_entry ok_drop_entry)

lemma ok_remove: "sleepers_ok m \<Longrightarrow> sleepers_ok (snd (remove_sleeper i m))"
  by (auto simp: remove_sleeper_def ok_forget split: option.split)

lemma hurt_frame [simp]: "sl_id (hurt x s) = sl_id s" "sl_account (hurt x s) = sl_account s" "sl_expires (hurt x s) = sl_expires s"
  by (simp_all add: hurt_def Let_def)

lemma ok_damage: "sleepers_ok m \<Longrightarrow> sleepers_ok (snd (apply_sleeper_damage i x m))"
proof -
  assume ok: "sleepers_ok m"
  have h: "sl_id (slm_heap (snd (apply_sleeper_damage i x m)) p) = sl_id (slm_heap m p)"
    "sl_account (slm_heap (snd (apply_sleeper_damage i x m)) p) = sl_account (slm_heap m p)" for p
    by (simp_all add: apply_sleeper_damage_def Let_def split: option.split)
  have "slm_sleepers (snd (apply_sleeper_damage i x m)) = slm_sleepers m"
    "slm_by_account (snd (apply_sleeper_damage i x m)) = slm_by_account m"
    "slm_fresh (snd (apply_sleeper_damage i x m)) = slm_fresh m"
    by (simp_all add: apply_sleeper_damage_def Let_def split: option.split)
  with ok show ?thesis by (simp add: sleepers_ok_def h)
qed

lemma ok_loop: "sleepers_ok m \<Longrightarrow> sleepers_ok (snd (snd (sleeper_loop now ks m)))"
proof (induction now ks m rule: sleeper_loop.induct)
  case (2 now i ks m)
  show ?case
  proof (cases "slm_sleepers m i")
    case None
    with 2 show ?thesis by simp
  next
    case (Some p)
    note ok_forget [OF "2.prems" Some]
    with 2 Some show ?thesis by (simp add: Let_def split_def)
  qed
qed simp

lemma reach_ok: "sleeper_reach m \<Longrightarrow> sleepers_ok m"
  by (induction rule: sleeper_reach.induct)
     (auto simp: ok_new sleeper_tick_def intro: ok_create ok_remove ok_damage ok_loop)

section \<open>What a tick does\<close>

definition gone :: "gotime \<Rightarrow> sleeper_manager \<Rightarrow> nat \<Rightarrow> bool" where
  "gone now m p \<longleftrightarrow> sl_dead (slm_heap m p) \<or> sleeper_expired now (slm_heap m p)"

definition called :: "(sleeper \<Rightarrow> bool) \<Rightarrow> u32 list \<Rightarrow> sleeper_manager \<Rightarrow> nat list" where
  "called P ks m = filter (\<lambda>p. P (slm_heap m p)) (List.map_filter (slm_sleepers m) ks)"

lemma forget_frame [simp]:
  "slm_heap (forget_sleeper i p m) = slm_heap m" "slm_sleepers (forget_sleeper i p m) = (slm_sleepers m)(i := None)"
  by (simp_all add: forget_sleeper_def Let_def)

lemma map_filter_upd: "i \<notin> set ks \<Longrightarrow> List.map_filter (f(i := None)) ks = List.map_filter f ks"
  by (induction ks) (auto simp: map_filter_simps split: option.split)

definition left_after :: "gotime \<Rightarrow> u32 list \<Rightarrow> sleeper_manager \<Rightarrow> u32 \<Rightarrow> nat option" where
  "left_after now ks m i = (case slm_sleepers m i of None \<Rightarrow> None
     | Some p \<Rightarrow> if i \<in> set ks \<and> gone now m p then None else Some p)"

lemma called_Cons: "called P (i # ks) m = (case slm_sleepers m i of None \<Rightarrow> called P ks m
    | Some p \<Rightarrow> if P (slm_heap m p) then p # called P ks m else called P ks m)"
  by (simp add: called_def map_filter_simps split: option.split)

lemma called_forget: "i \<notin> set ks \<Longrightarrow> called P ks (forget_sleeper i p m) = called P ks m"
  by (simp add: called_def map_filter_upd)

lemma left_none: "slm_sleepers m i = None \<Longrightarrow> left_after now (i # ks) m = left_after now ks m"
  by (rule ext) (auto simp: left_after_def split: option.split)

lemma left_stays: "slm_sleepers m i = Some p \<Longrightarrow> \<not> gone now m p \<Longrightarrow> left_after now (i # ks) m = left_after now ks m"
  by (rule ext) (auto simp: left_after_def split: option.split)

lemma left_gone:
  assumes "slm_sleepers m i = Some p" "gone now m p"
  shows "left_after now ks (forget_sleeper i p m) = left_after now (i # ks) m"
  using assms by (intro ext) (simp add: left_after_def gone_def split: option.split)

lemma loop_exact:
  assumes "distinct ks" "sleeper_loop now ks m = (ds, es, m')"
  shows "ds = called sl_dead ks m \<and> es = called (\<lambda>s. \<not> sl_dead s \<and> sleeper_expired now s) ks m \<and>
    slm_heap m' = slm_heap m \<and> slm_sleepers m' = left_after now ks m"
  using assms
proof (induction ks arbitrary: m ds es m')
  case Nil
  have "left_after now [] m = slm_sleepers m" by (rule ext) (simp add: left_after_def split: option.split)
  with Nil show ?case by (simp add: called_def map_filter_simps)
next
  case (Cons i ks)
  have d: "distinct ks" "i \<notin> set ks" using Cons.prems(1) by simp_all
  show ?case
  proof (cases "slm_sleepers m i")
    case None
    with Cons.prems(2) have "sleeper_loop now ks m = (ds, es, m')" by simp
    from Cons.IH [OF d(1) this] None show ?thesis by (simp add: called_Cons left_none)
  next
    case (Some p)
    show ?thesis
    proof (cases "gone now m p")
      case True
      obtain a b n where f: "sleeper_loop now ks (forget_sleeper i p m) = (a, b, n)" by (metis prod.exhaust)
      have o: "ds = (if sl_dead (slm_heap m p) then p # a else a)" "es = (if sl_dead (slm_heap m p) then b else p # b)" "m' = n"
        using Cons.prems(2) Some f True by (auto simp: gone_def Let_def split: if_splits)
      from Cons.IH [OF d(1) f] Some o True d(2) show ?thesis
        by (auto simp: called_Cons called_forget left_gone gone_def)
    next
      case False
      then have "sleeper_loop now ks m = (ds, es, m')" using Cons.prems(2) Some by (simp add: gone_def Let_def)
      from Cons.IH [OF d(1) this] Some False show ?thesis by (simp add: called_Cons left_stays) (simp add: gone_def)
    qed
  qed
qed

lemma free_id_step: "m (s + 1) \<noteq> None \<Longrightarrow> free_id m s = free_id m (s + 1)"
  by (subst free_id.simps) (rule if_not_P)

lemma free_id_shift: "(\<forall>k<n. m (s + 1 + of_nat k) \<noteq> None) \<Longrightarrow> free_id m s = free_id m (s + of_nat n)"
proof (induction n arbitrary: s)
  case (Suc n)
  have "m (s + 1 + of_nat 0) \<noteq> None" using Suc.prems by blast
  then have "free_id m s = free_id m (s + 1)" by (intro free_id_step) simp
  also have "\<dots> = free_id m (s + 1 + of_nat n)"
  proof (rule Suc.IH, intro allI impI)
    fix k assume "k < n"
    with Suc.prems have "m (s + 1 + of_nat (Suc k)) \<noteq> None" by blast
    then show "m (s + 1 + 1 + of_nat k) \<noteq> None" by (simp add: algebra_simps)
  qed
  finally show ?case by (simp add: algebra_simps)
qed simp

section \<open>A manager to evaluate\<close>

text \<open>One sleeper of session 1, expiring at 9, already dead.\<close>

definition demo_sleepers :: sleeper_manager where
  "demo_sleepers = snd (apply_sleeper_damage 1 (Fin 150)
     (put_sleeper (sleeper_of 2 7 1 (demo_session 1 ''u1'' 4000)) (drop_id 1 (drop_account ''u1'' new_sleeper_manager))))"

lemma demo_sleepers_reach: "sleeper_reach demo_sleepers"
proof -
  have "create_sleeper 2 7 (Some (demo_session 1 ''u1'' 4000)) new_sleeper_manager = Some (Some 0,
     put_sleeper (sleeper_of 2 7 1 (demo_session 1 ''u1'' 4000)) (drop_id 1 (drop_account ''u1'' new_sleeper_manager)))"
    by (simp add: create_sleeper_def demo_session_def new_sleeper_manager_def drop_account_def drop_id_def Let_def)
  from create [OF new_manager this] show ?thesis unfolding demo_sleepers_def by (rule damage)
qed

lemma demo_sleepers_maps: "slm_sleepers demo_sleepers = [1 \<mapsto> 0]" "sl_dead (slm_heap demo_sleepers 0)"
  by (simp_all add: demo_sleepers_def apply_sleeper_damage_def put_sleeper_def drop_id_def drop_account_def
      new_sleeper_manager_def sleeper_of_def demo_session_def hurt_def fsub_def Let_def)

section \<open>Properties\<close>

text \<open>C33: Sleepers stay consistent: in every state the manager can reach, the two maps agree, so a
  sleeper is found by its account exactly when it is found by its id, and no account ever has two
  sleepers in the world.\<close>

theorem one_sleeper_per_account:
  assumes "sleeper_reach m"
  shows "sleepers_ok m \<and> (\<forall>i j p q. slm_sleepers m i = Some p \<longrightarrow> slm_sleepers m j = Some q \<longrightarrow>
    sl_account (slm_heap m p) = sl_account (slm_heap m q) \<longrightarrow> sl_account (slm_heap m p) \<noteq> [] \<longrightarrow> i = j)"
proof -
  have ok: "sleepers_ok m" using assms by (rule reach_ok)
  have "i = j" if "slm_sleepers m i = Some p" "slm_sleepers m j = Some q"
    "sl_account (slm_heap m p) = sl_account (slm_heap m q)" "sl_account (slm_heap m p) \<noteq> []" for i j p q
  proof -
    have "Some p = Some q"
      using sleepers_okD(2) [OF ok that(1)] sleepers_okD(2) [OF ok that(2)] that(3,4) by metis
    then show ?thesis using sleepers_okD(1) [OF ok that(1)] sleepers_okD(1) [OF ok that(2)] by simp
  qed
  with ok show ?thesis by blast
qed

theorem one_sleeper_per_account_witness:
  "sleepers_ok demo_sleepers \<and> slm_sleepers demo_sleepers 1 = Some 0"
  using one_sleeper_per_account [OF demo_sleepers_reach] by (simp add: demo_sleepers_maps)

text \<open>C34: A tick settles every sleeper once. For every visiting order, the death callback runs for
  exactly the dead sleepers and the expiry callback for exactly the living ones whose time has
  come, each once; exactly those leave the manager, by both maps, and no sleeper changes.\<close>

theorem sleeper_tick_exact:
  assumes "sleeper_reach m" and "is_order (slm_sleepers m) ro" and "sleeper_tick now ro m = (deaths, expired, m')"
  shows "set deaths = {p. \<exists>i. slm_sleepers m i = Some p \<and> sl_dead (slm_heap m p)} \<and>
    set expired = {p. \<exists>i. slm_sleepers m i = Some p \<and> \<not> sl_dead (slm_heap m p) \<and> sl_expires (slm_heap m p) \<le> now} \<and>
    distinct (deaths @ expired) \<and> slm_heap m' = slm_heap m \<and> sleepers_ok m' \<and>
    (\<forall>i p. slm_sleepers m' i = Some p \<longleftrightarrow> slm_sleepers m i = Some p \<and> \<not> sl_dead (slm_heap m p) \<and> now < sl_expires (slm_heap m p))"
proof -
  have d: "distinct ro" and o: "\<And>i. i \<in> set ro \<longleftrightarrow> slm_sleepers m i \<noteq> None"
    using assms(2) by (auto simp: is_order_def)
  have r: "deaths = called sl_dead ro m" "expired = called (\<lambda>s. \<not> sl_dead s \<and> sleeper_expired now s) ro m"
    "slm_heap m' = slm_heap m" "slm_sleepers m' = left_after now ro m"
    using loop_exact [OF d assms(3) [unfolded sleeper_tick_def]] by simp_all
  have ex: "sleeper_expired now s \<longleftrightarrow> sl_expires s \<le> now" for s by (auto simp: sleeper_expired_def)
  have ok: "sleepers_ok m" using assms(1) by (rule reach_ok)
  have mf: "set (List.map_filter (slm_sleepers m) ro) = {p. \<exists>i. slm_sleepers m i = Some p}"
    using o by (force simp: map_filter_def)
  have "inj_on (\<lambda>i. the (slm_sleepers m i)) (set (filter (\<lambda>i. slm_sleepers m i \<noteq> None) ro))"
  proof (rule inj_onI)
    fix i j assume "i \<in> set (filter (\<lambda>i. slm_sleepers m i \<noteq> None) ro)" "j \<in> set (filter (\<lambda>i. slm_sleepers m i \<noteq> None) ro)"
      and e: "the (slm_sleepers m i) = the (slm_sleepers m j)"
    then obtain p q where pq: "slm_sleepers m i = Some p" "slm_sleepers m j = Some q" by auto
    with e sleepers_okD(1) [OF ok pq(1)] sleepers_okD(1) [OF ok pq(2)] show "i = j" by simp
  qed
  then have dm: "distinct (List.map_filter (slm_sleepers m) ro)"
    using d by (simp add: map_filter_def distinct_map comp_def)
  have s: "set deaths = {p. \<exists>i. slm_sleepers m i = Some p \<and> sl_dead (slm_heap m p)}"
    "set expired = {p. \<exists>i. slm_sleepers m i = Some p \<and> \<not> sl_dead (slm_heap m p) \<and> sl_expires (slm_heap m p) \<le> now}"
    using r mf by (auto simp: called_def ex)
  have "distinct (deaths @ expired)" using r dm by (auto simp: called_def)
  moreover have "sleepers_ok m'"
    using ok_loop [OF ok, of now ro] assms(3) by (simp add: sleeper_tick_def)
  moreover have "\<forall>i p. slm_sleepers m' i = Some p \<longleftrightarrow> slm_sleepers m i = Some p \<and> \<not> sl_dead (slm_heap m p) \<and> now < sl_expires (slm_heap m p)"
    using r o by (auto simp: left_after_def gone_def ex split: option.split)
  ultimately show ?thesis using s r by blast
qed

theorem sleeper_tick_exact_witness:
  "case sleeper_tick 5 [1] demo_sleepers of (deaths, expired, m') \<Rightarrow> set deaths = {0} \<and> expired = [] \<and> slm_sleepers m' 1 = None"
proof -
  obtain ds es m' where t: "sleeper_tick 5 [1] demo_sleepers = (ds, es, m')" by (metis prod.exhaust)
  have "is_order (slm_sleepers demo_sleepers) [1]" by (auto simp: is_order_def demo_sleepers_maps split: if_splits)
  note e = sleeper_tick_exact [OF demo_sleepers_reach this t]
  have "set ds = {0}" using e by (auto simp: demo_sleepers_maps split: if_splits)
  moreover have "set es = {}" using e by (auto simp: demo_sleepers_maps split: if_splits)
  moreover have "slm_sleepers m' 1 \<noteq> Some p" for p using e by (auto simp: demo_sleepers_maps)
  ultimately show ?thesis by (simp add: t not_Some_eq [symmetric] del: not_Some_eq)
qed

text \<open>The id search ends. As long as not every one of the \<open>2^32\<close> ids is taken, creating a
  sleeper for a session without an id finds one that is free.\<close>

theorem free_id_ends:
  assumes "m i = None"
  shows "\<exists>j. free_id m s = Some j \<and> m j = None"
proof -
  let ?P = "\<lambda>k. m (s + 1 + of_nat k) = None"
  have "s + 1 + of_nat (unat (i - s - 1)) = i" by simp
  then have ex: "?P (unat (i - s - 1))" using assms by simp
  define n where "n = (LEAST k. ?P k)"
  have n: "?P n" unfolding n_def by (rule LeastI [of ?P, OF ex])
  have "\<forall>k<n. m (s + 1 + of_nat k) \<noteq> None" unfolding n_def using not_less_Least by blast
  then have "free_id m s = free_id m (s + of_nat n)" by (rule free_id_shift)
  also have "\<dots> = Some (s + of_nat n + 1)" using n by (subst free_id.simps) (simp add: algebra_simps)
  finally show ?thesis using n by (simp add: algebra_simps)
qed

theorem free_id_ends_witness: "\<exists>j. free_id [1 \<mapsto> 0, 2 \<mapsto> 1] 0 = Some j \<and> j \<noteq> 1 \<and> j \<noteq> 2"
  using free_id_ends [of "[1 \<mapsto> 0, 2 \<mapsto> 1]" 7 0] by (auto split: if_splits)

end
