(* ===== verification/Pathfinding.thy ===== *)
theory Pathfinding
  imports SpatialGrid "HOL-Library.Multiset"
begin

text \<open>
  A* over waypoints: internal/ai/pathfinding.go, with the binary heap of Go's \<open>container/heap\<close>
  that it uses. Waypoints are \<open>float32\<close> triples; the maps are keyed by the waypoint rounded to
  millimetres. The graph is an interface of the source: a function from a waypoint to its
  neighbours. An item's \<open>index\<close> field is written by \<open>Swap\<close>, \<open>Push\<close> and \<open>Pop\<close> and read by
  nothing; it is left out.

  The properties: the search returns on every graph; the path it returns starts at the start,
  ends at the goal and follows edges of the graph; and, on a graph that does not tell waypoints
  of one cell apart, it answers ``no path'' only when there is none. Both rest on one invariant of the predecessor map (every entry leads back to the
  start, through scores that never grow on the way back) that holds for all float values, NaN
  and infinities included.
\<close>

datatype waypoint = Waypoint f32 f32 f32
datatype point_key = PointKey int int int
type_synonym graph = "waypoint \<Rightarrow> waypoint list"

record item =
  it_value :: waypoint
  it_priority :: f32

section \<open>The priority queue\<close>

definition heap_less :: "item list \<Rightarrow> nat \<Rightarrow> nat \<Rightarrow> bool" where
  "heap_less q i j \<longleftrightarrow> flt (it_priority (q ! i)) (it_priority (q ! j))"

definition heap_swap :: "nat \<Rightarrow> nat \<Rightarrow> 'a list \<Rightarrow> 'a list" where
  "heap_swap i j q = q[i := q ! j, j := q ! i]"

text \<open>\<open>up\<close> and \<open>down\<close> of \<open>container/heap\<close>.\<close>

fun heap_up :: "nat \<Rightarrow> item list \<Rightarrow> item list" where
  "heap_up j q = (let i = (j - 1) div 2 in
     if i = j \<or> \<not> heap_less q j i then q else heap_up i (heap_swap i j q))"

declare heap_up.simps [simp del]

function heap_down :: "nat \<Rightarrow> nat \<Rightarrow> item list \<Rightarrow> item list" where
  "heap_down i n q = (let j1 = 2 * i + 1 in
     if n \<le> j1 then q
     else let j = (if j1 + 1 < n \<and> heap_less q (j1 + 1) j1 then j1 + 1 else j1) in
       if \<not> heap_less q j i then q else heap_down j n (heap_swap i j q))"
  by pat_completeness auto
termination by (relation "measure (\<lambda>(i, n, _). n - i)") (auto simp: Let_def split: if_splits)

declare heap_down.simps [simp del]

definition heap_push :: "item \<Rightarrow> item list \<Rightarrow> item list" where
  "heap_push x q = heap_up (length q) (q @ [x])"

definition heap_pop :: "item list \<Rightarrow> item \<times> item list" where
  "heap_pop q = (let n = length q - 1; r = heap_down 0 n (heap_swap 0 n q) in (last r, butlast r))"

section \<open>The search\<close>

definition heuristic :: "waypoint \<Rightarrow> waypoint \<Rightarrow> f32" where
  "heuristic a b = (case (a, b) of (Waypoint a0 a1 a2, Waypoint b0 b1 b2) \<Rightarrow>
     let dx = sub32 a0 b0; dy = sub32 a1 b1; dz = sub32 a2 b2
     in f32_of (fsqrt (add32 (add32 (mul32 dx dx) (mul32 dy dy)) (mul32 dz dz))))"

definition quantize :: "waypoint \<Rightarrow> point_key" where
  "quantize w = (case w of Waypoint x y z \<Rightarrow>
     let q = \<lambda>v. int32_of (fround (mul32 v (Fin 1000))) in PointKey (q x) (q y) (q z))"

definition max_iterations :: nat where
  "max_iterations = 5000"

record search =
  s_queue :: "item list"
  s_came_from :: "point_key \<Rightarrow> waypoint option"
  s_waypoint :: "point_key \<Rightarrow> waypoint option"
  s_g :: "point_key \<Rightarrow> f32 option"
  s_f :: "point_key \<Rightarrow> f32 option"
  s_open :: "point_key set"

text \<open>Reading a Go map gives the zero value for a missing key.\<close>

definition score :: "search \<Rightarrow> point_key \<Rightarrow> f32" where
  "score st k = (case s_g st k of None \<Rightarrow> Fin 0 | Some g \<Rightarrow> g)"

definition waypoint_at :: "(point_key \<Rightarrow> waypoint option) \<Rightarrow> point_key \<Rightarrow> waypoint" where
  "waypoint_at m k = (case m k of None \<Rightarrow> Waypoint (Fin 0) (Fin 0) (Fin 0) | Some w \<Rightarrow> w)"

definition start_search :: "waypoint \<Rightarrow> waypoint \<Rightarrow> search" where
  "start_search start goal = (let k = quantize start in
     \<lparr>s_queue = heap_push \<lparr>it_value = start, it_priority = Fin 0\<rparr> [], s_came_from = [k \<mapsto> start],
      s_waypoint = [k \<mapsto> start], s_g = [k \<mapsto> Fin 0], s_f = [k \<mapsto> heuristic start goal], s_open = {k}\<rparr>)"

definition relax :: "waypoint \<Rightarrow> waypoint \<Rightarrow> waypoint \<Rightarrow> search \<Rightarrow> search" where
  "relax goal current w st =
     (let k = quantize w; g = add32 (score st (quantize current)) (heuristic current w) in
      if (case s_g st k of None \<Rightarrow> True | Some prev \<Rightarrow> flt g prev) then
        let f = add32 g (heuristic w goal) in
        st\<lparr>s_came_from := (s_came_from st)(k \<mapsto> current), s_waypoint := (s_waypoint st)(k \<mapsto> w),
           s_g := (s_g st)(k \<mapsto> g), s_f := (s_f st)(k \<mapsto> f),
           s_queue := heap_push \<lparr>it_value = w, it_priority = f\<rparr> (s_queue st), s_open := insert k (s_open st)\<rparr>
      else st)"

text \<open>The loop, counted down from \<open>MaxIterations\<close>: \<open>None\<close> is the \<open>nil\<close> of the iteration limit.\<close>

fun search_loop :: "graph \<Rightarrow> waypoint \<Rightarrow> nat \<Rightarrow> search \<Rightarrow> search option" where
  "search_loop G goal n st = (if s_queue st = [] then Some st
     else case n of
       0 \<Rightarrow> None
     | Suc n' \<Rightarrow> (case heap_pop (s_queue st) of (x, q) \<Rightarrow>
         let current = it_value x; k = quantize current; st1 = st\<lparr>s_queue := q, s_open := s_open st - {k}\<rparr> in
         if k = quantize goal then Some st1
         else search_loop G goal n' (fold (relax goal current) (G current) st1)))"

declare search_loop.simps [simp del]

text \<open>Walking the predecessors back; \<open>None\<close> when the walk does not end.\<close>

partial_function (option) walk_back :: "search \<Rightarrow> point_key \<Rightarrow> point_key \<Rightarrow> waypoint list \<Rightarrow> waypoint list option" where
  "walk_back st start_key k path = (if k = start_key then Some path
     else walk_back st start_key (quantize (waypoint_at (s_came_from st) k)) (path @ [waypoint_at (s_waypoint st) k]))"

text \<open>\<open>AStar\<close>: the outer option is whether it returns, the inner one is \<open>nil\<close> or a path.\<close>

definition astar :: "waypoint \<Rightarrow> waypoint \<Rightarrow> graph \<Rightarrow> waypoint list option option" where
  "astar start goal G = (case search_loop G goal max_iterations (start_search start goal) of
     None \<Rightarrow> Some None
   | Some st \<Rightarrow> if s_came_from st (quantize goal) = None then Some (Some [])
       else map_option (\<lambda>path. Some (rev (path @ [start]))) (walk_back st (quantize start) (quantize goal) []))"

section \<open>The queue keeps its items\<close>

text \<open>What the search relies on: pushing and popping neither lose nor make items.\<close>

locale item_queue =
  fixes push :: "'a \<Rightarrow> 'a list \<Rightarrow> 'a list" and pop :: "'a list \<Rightarrow> 'a \<times> 'a list"
  assumes mset_push: "mset (push x q) = add_mset x (mset q)"
    and mset_pop: "q \<noteq> [] \<Longrightarrow> mset q = add_mset (fst (pop q)) (mset (snd (pop q)))"
begin

lemma set_push: "set (push x q) = insert x (set q)"
  using mset_push [of x q] by (metis set_mset_add_mset_insert set_mset_mset)

lemma push_nonempty: "push x q \<noteq> []"
  using mset_push [of x q] by (metis empty_not_add_mset mset.simps(1))

lemma set_pop: "q \<noteq> [] \<Longrightarrow> set q = insert (fst (pop q)) (set (snd (pop q)))"
  using mset_pop [of q] by (metis set_mset_add_mset_insert set_mset_mset)

end

lemma mset_heap_swap: "i < length q \<Longrightarrow> j < length q \<Longrightarrow> mset (heap_swap i j q) = mset q"
  unfolding heap_swap_def by (rule mset_swap)

lemma length_heap_swap [simp]: "length (heap_swap i j q) = length q"
  by (simp add: heap_swap_def)

lemma mset_heap_up: "j < length q \<Longrightarrow> mset (heap_up j q) = mset q"
proof (induction j q rule: heap_up.induct)
  case (1 j q)
  then show ?case by (subst heap_up.simps) (auto simp: Let_def mset_heap_swap)
qed

lemma heap_down_spec: "n < length q \<Longrightarrow> mset (heap_down i n q) = mset q \<and> length (heap_down i n q) = length q"
proof (induction i n q rule: heap_down.induct)
  case (1 i n q)
  show ?case
  proof (cases "n \<le> 2 * i + 1")
    case True
    then show ?thesis by (subst (1 2) heap_down.simps) (simp add: Let_def)
  next
    case False
    then show ?thesis using 1 by (subst (1 2) heap_down.simps) (auto simp: Let_def mset_heap_swap split del: if_split split: if_splits)
  qed
qed

interpretation heap: item_queue heap_push heap_pop
proof
  show "mset (heap_push x q) = add_mset x (mset q)" for x q
    by (simp add: heap_push_def mset_heap_up)
next
  fix q :: "item list"
  assume q: "q \<noteq> []"
  let ?n = "length q - 1" and ?r = "heap_down 0 (length q - 1) (heap_swap 0 (length q - 1) q)"
  have r: "mset ?r = mset q" "length ?r = length q"
    using heap_down_spec [of ?n "heap_swap 0 ?n q" 0] q by (simp_all add: mset_heap_swap)
  from r q have "?r \<noteq> []" by auto
  then have "mset ?r = add_mset (last ?r) (mset (butlast ?r))"
    by (metis append_butlast_last_id mset.simps mset_append union_mset_add_mset_right add.right_neutral)
  with r show "mset q = add_mset (fst (heap_pop q)) (mset (snd (heap_pop q)))"
    by (simp add: heap_pop_def Let_def)
qed

section \<open>The invariant of the search\<close>

text \<open>\<open>chain st s k ks\<close>: walking back from \<open>k\<close> visits the keys \<open>ks\<close> and reaches \<open>s\<close>.\<close>

inductive chain :: "search \<Rightarrow> point_key \<Rightarrow> point_key \<Rightarrow> point_key list \<Rightarrow> bool" for st s where
  chain_start: "chain st s s [s]"
| chain_step: "k \<noteq> s \<Longrightarrow> s_came_from st k = Some u \<Longrightarrow> chain st s (quantize u) ks \<Longrightarrow> chain st s k (k # ks)"

text \<open>One entry of the maps: a neighbour of its predecessor, whose score is not above its own.\<close>

definition linked :: "graph \<Rightarrow> search \<Rightarrow> point_key \<Rightarrow> bool" where
  "linked G st k \<longleftrightarrow> (\<exists>u w. s_came_from st k = Some u \<and> s_waypoint st k = Some w \<and> quantize w = k \<and>
     w \<in> set (G u) \<and> s_g st (quantize u) \<noteq> None \<and>
     (\<not> is_nan (score st k) \<longrightarrow> fle (score st (quantize u)) (score st k)))"

definition search_ok :: "graph \<Rightarrow> waypoint \<Rightarrow> search \<Rightarrow> bool" where
  "search_ok G start st \<longleftrightarrow>
     s_came_from st (quantize start) = Some start \<and> s_waypoint st (quantize start) = Some start \<and>
     s_g st (quantize start) = Some (Fin 0) \<and>
     dom (s_came_from st) = dom (s_g st) \<and> dom (s_waypoint st) = dom (s_g st) \<and>
     (\<forall>k g. s_g st k = Some g \<longrightarrow> is_f32 g) \<and>
     (\<forall>x\<in>set (s_queue st). s_g st (quantize (it_value x)) \<noteq> None) \<and>
     (\<forall>k. s_g st k \<noteq> None \<longrightarrow> k \<noteq> quantize start \<longrightarrow> linked G st k) \<and>
     (\<forall>k. s_g st k \<noteq> None \<longrightarrow> (\<exists>ks. chain st (quantize start) k ks))"

lemma heuristic_nonneg: "\<not> is_nan (heuristic a b) \<Longrightarrow> fle (Fin 0) (heuristic a b)"
  unfolding heuristic_def Let_def
  by (cases a; cases b) (auto intro!: fle_f32_of fsqrt_nonneg elim!: is_nan.elims)

lemma heuristic_f32: "is_f32 (heuristic a b)"
proof -
  have "is_f32 (f32_of x)" for x by (cases x) (simp_all add: is_f32_def [of FNaN] is_f32_def [of "FInf _"])
  then show ?thesis by (cases a; cases b) (simp add: heuristic_def Let_def)
qed

lemma search_okD:
  assumes "search_ok G start st"
  shows "s_g st k \<noteq> None \<Longrightarrow> k \<noteq> quantize start \<Longrightarrow> linked G st k"
    and "s_g st k \<noteq> None \<Longrightarrow> \<exists>ks. chain st (quantize start) k ks"
    and "x \<in> set (s_queue st) \<Longrightarrow> s_g st (quantize (it_value x)) \<noteq> None"
    and "is_f32 (score st k)" and "score st (quantize start) = Fin 0"
    and "s_came_from st k \<noteq> None \<longleftrightarrow> s_g st k \<noteq> None"
proof -
  have z: "is_f32 (Fin 0)" by (simp add: is_f32_def repr_def)
  have "\<forall>g. s_g st k = Some g \<longrightarrow> is_f32 g" using assms unfolding search_ok_def by blast
  with z show "is_f32 (score st k)" by (simp add: score_def split: option.split)
  show "s_came_from st k \<noteq> None \<longleftrightarrow> s_g st k \<noteq> None"
    using assms by (metis search_ok_def domIff)
qed (use assms in \<open>auto simp: search_ok_def score_def\<close>)

text \<open>Scores do not grow along a chain.\<close>

lemma chain_scores:
  assumes "chain st (quantize start) k ks" "search_ok G start st" "\<not> is_nan (score st k)" "s_g st k \<noteq> None"
  shows "\<forall>v\<in>set ks. fle (score st v) (score st k)"
  using assms
proof (induction rule: chain.induct)
  case chain_start
  then show ?case by (simp add: fle_refl)
next
  case (chain_step k u ks)
  from search_okD(1) [OF chain_step.prems(1,3) chain_step.hyps(1)] chain_step.hyps(2) chain_step.prems(2)
  have p: "s_g st (quantize u) \<noteq> None" "fle (score st (quantize u)) (score st k)"
    unfolding linked_def by auto
  from chain_step.IH [OF chain_step.prems(1) _ p(1)] fle_not_nan [OF p(2)]
  have "\<forall>v\<in>set ks. fle (score st v) (score st (quantize u))" by blast
  with p(2) chain_step.prems(2) show ?case by (auto intro: fle_trans fle_refl)
qed

text \<open>An update of one entry leaves alone the chains that do not pass it, and a chain that does can
  be rerouted when the new predecessor's chain does not.\<close>

lemma chain_other:
  assumes "chain st s k ks" "v \<notin> set ks" "\<And>j. j \<noteq> v \<Longrightarrow> s_came_from st' j = s_came_from st j"
  shows "chain st' s k ks"
  using assms by (induction rule: chain.induct) (auto intro: chain.intros)

lemma chain_reroute:
  assumes "chain st s k ks" "\<And>j. j \<noteq> v \<Longrightarrow> s_came_from st' j = s_came_from st j" "chain st' s v vs"
  shows "\<exists>ks'. chain st' s k ks'"
  using assms
proof (induction rule: chain.induct)
  case (chain_step k u ks)
  then obtain ks' where "chain st' s (quantize u) ks'" by blast
  with chain_step show ?case by (cases "k = v") (metis chain.chain_step)+
qed (auto intro: chain_start)

definition improves :: "search \<Rightarrow> point_key \<Rightarrow> f32 \<Rightarrow> bool" where
  "improves st k g \<longleftrightarrow> (case s_g st k of None \<Rightarrow> True | Some prev \<Rightarrow> flt g prev)"

lemma chain_dom:
  assumes "chain st (quantize start) k ks" "search_ok G start st" "s_g st k \<noteq> None"
  shows "\<forall>v\<in>set ks. s_g st v \<noteq> None"
  using assms
proof (induction rule: chain.induct)
  case (chain_step k u ks)
  from search_okD(1) [OF chain_step.prems(1,2) chain_step.hyps(1)] chain_step.hyps(2)
  have "s_g st (quantize u) \<noteq> None" unfolding linked_def by auto
  from chain_step.IH [OF chain_step.prems(1) this] chain_step.prems(2) show ?case by simp
qed simp

lemma not_ancestor:
  assumes "search_ok G start st" "s_g st (quantize u) \<noteq> None" "chain st (quantize start) (quantize u) ks"
    "g = add32 (score st (quantize u)) c" "\<not> is_nan c \<longrightarrow> fle (Fin 0) c" "improves st k g"
  shows "k \<notin> set ks"
proof
  assume k: "k \<in> set ks"
  have "s_g st k \<noteq> None" using chain_dom [OF assms(3,1,2)] k by blast
  then have lt: "flt g (score st k)" using assms(6) by (auto simp: improves_def score_def)
  then have n: "\<not> is_nan g" by (simp add: flt_not_nan)
  with assms(4) have u: "\<not> is_nan (score st (quantize u))" "\<not> is_nan c"
    using add32_nan by blast+
  have "fle (score st k) (score st (quantize u))" using chain_scores [OF assms(3,1) u(1) assms(2)] k by blast
  moreover have "fle (score st (quantize u)) g"
    using add32_ge [OF search_okD(4) [OF assms(1)], of c] assms(4,5) u(2) n by simp
  ultimately show False using lt by (meson fle_trans fle_not_flt)
qed

lemma chain_ends: "chain st s k ks \<Longrightarrow> s \<in> set ks \<and> k \<in> set ks"
  by (induction rule: chain.induct) auto

lemma search_okI:
  assumes "s_came_from st (quantize start) = Some start" "s_waypoint st (quantize start) = Some start"
    "s_g st (quantize start) = Some (Fin 0)" "dom (s_came_from st) = dom (s_g st)" "dom (s_waypoint st) = dom (s_g st)"
    "\<And>k g. s_g st k = Some g \<Longrightarrow> is_f32 g" "\<And>x. x \<in> set (s_queue st) \<Longrightarrow> s_g st (quantize (it_value x)) \<noteq> None"
    "\<And>k. s_g st k \<noteq> None \<Longrightarrow> k \<noteq> quantize start \<Longrightarrow> linked G st k"
    "\<And>k. s_g st k \<noteq> None \<Longrightarrow> \<exists>ks. chain st (quantize start) k ks"
  shows "search_ok G start st"
  unfolding search_ok_def using assms by blast

lemma relax_cases:
  obtains (keep) "s_g st (quantize w) \<noteq> None" "relax goal u w st = st"
  | (improve) g where "g = add32 (score st (quantize u)) (heuristic u w)" "improves st (quantize w) g"
      "s_g (relax goal u w st) = (s_g st)(quantize w \<mapsto> g)"
      "s_came_from (relax goal u w st) = (s_came_from st)(quantize w \<mapsto> u)"
      "s_waypoint (relax goal u w st) = (s_waypoint st)(quantize w \<mapsto> w)"
      "set (s_queue (relax goal u w st)) = insert \<lparr>it_value = w, it_priority = add32 g (heuristic w goal)\<rparr> (set (s_queue st))"
proof (cases "improves st (quantize w) (add32 (score st (quantize u)) (heuristic u w))")
  case True
  then show ?thesis
    by (intro improve [OF refl True]) (simp_all add: relax_def improves_def Let_def heap.set_push)
next
  case False
  then show ?thesis
    by (intro keep) (auto simp: relax_def improves_def Let_def split: option.splits)
qed

lemma score_upd: "s_g st' = (s_g st)(k \<mapsto> g) \<Longrightarrow> score st' j = (if j = k then g else score st j)"
  by (simp add: score_def)

lemma relax_ok:
  assumes ok: "search_ok G start st" and u: "s_g st (quantize u) \<noteq> None" and w: "w \<in> set (G u)"
  shows "search_ok G start (relax goal u w st)"
proof (cases rule: relax_cases [of st w goal u])
  case keep
  with ok show ?thesis by simp
next
  case (improve g)
  let ?st = "relax goal u w st" and ?k = "quantize w" and ?s = "quantize start"
  note eqs = improve(3-6)
  obtain ks where ks: "chain st ?s (quantize u) ks" using search_okD(2) [OF ok u] by blast
  have k: "?k \<notin> set ks" using not_ancestor [OF ok u ks improve(1) _ improve(2)] heuristic_nonneg by blast
  with chain_ends [OF ks] have ne: "?k \<noteq> ?s" "?k \<noteq> quantize u" by metis+
  have other: "s_came_from ?st j = s_came_from st j" if "j \<noteq> ?k" for j using that by (simp add: eqs)
  have vs: "chain ?st ?s ?k (?k # ks)"
    using chain_other [OF ks k other] ne(1) by (intro chain_step [of _ _ _ u]) (simp_all add: eqs)
  show ?thesis
  proof (rule search_okI)
    show "s_came_from ?st ?s = Some start" "s_waypoint ?st ?s = Some start" "s_g ?st ?s = Some (Fin 0)"
      using ok ne(1) unfolding eqs by (simp_all add: search_ok_def)
    show "dom (s_came_from ?st) = dom (s_g ?st)" "dom (s_waypoint ?st) = dom (s_g ?st)"
      using ok unfolding eqs by (simp_all add: search_ok_def)
  next
    fix k' g' assume "s_g ?st k' = Some g'"
    with ok improve(1) is_f32_add32 [OF search_okD(4) [OF ok] heuristic_f32] show "is_f32 g'"
      unfolding eqs search_ok_def by (metis fun_upd_apply option.inject)
  next
    fix x assume "x \<in> set (s_queue ?st)"
    with search_okD(3) [OF ok] show "s_g ?st (quantize (it_value x)) \<noteq> None" unfolding eqs by auto
  next
    fix j assume j: "s_g ?st j \<noteq> None" "j \<noteq> ?s"
    show "linked G ?st j"
    proof (cases "j = ?k")
      case True
      have "fle (score st (quantize u)) g" if "\<not> is_nan g"
        using that improve(1) add32_nan heuristic_nonneg add32_ge [OF search_okD(4) [OF ok]] by metis
      with True w u ne(2) show ?thesis by (auto simp: linked_def eqs score_upd [OF improve(3)])
    next
      case False
      with j have "linked G st j" by (intro search_okD(1) [OF ok]) (simp_all add: eqs)
      then obtain v x where v: "s_came_from st j = Some v" "s_waypoint st j = Some x" "quantize x = j" "x \<in> set (G v)"
        "s_g st (quantize v) \<noteq> None" "\<not> is_nan (score st j) \<longrightarrow> fle (score st (quantize v)) (score st j)"
        unfolding linked_def by blast
      have "fle g (score st ?k)" if "quantize v = ?k"
        using improve(2) v(5) that by (auto simp: improves_def score_def intro: flt_fle)
      with v False show ?thesis unfolding linked_def score_upd [OF improve(3)] eqs
        by (intro exI [of _ v] exI [of _ x]) (auto intro: fle_trans)
    qed
  next
    fix j assume "s_g ?st j \<noteq> None"
    then consider "j = ?k" | "s_g st j \<noteq> None" by (auto simp: eqs split: if_splits)
    then show "\<exists>js. chain ?st ?s j js"
    proof cases
      case 2
      with search_okD(2) [OF ok] obtain js where "chain st ?s j js" by blast
      from chain_reroute [OF this other vs] show ?thesis .
    qed (use vs in blast)
  qed
qed

text \<open>What relaxations keep and add: known keys stay known, queued waypoints stay queued, and a
  waypoint newly entered in the map is in the queue.\<close>

definition queued :: "search \<Rightarrow> waypoint set" where
  "queued st = it_value ` set (s_queue st)"

definition grows :: "search \<Rightarrow> search \<Rightarrow> bool" where
  "grows st st' \<longleftrightarrow> dom (s_g st) \<subseteq> dom (s_g st') \<and> queued st \<subseteq> queued st' \<and>
     (\<forall>j x. s_waypoint st' j = Some x \<longrightarrow> s_waypoint st j = Some x \<or> x \<in> queued st')"

lemma grows_refl: "grows st st"
  by (simp add: grows_def)

lemma grows_trans: "grows a b \<Longrightarrow> grows b c \<Longrightarrow> grows a c"
  unfolding grows_def by blast

lemma relax_grows: "grows st (relax goal u w st) \<and> quantize w \<in> dom (s_g (relax goal u w st))"
  by (cases rule: relax_cases [of st w goal u]) (auto simp: grows_def queued_def)

lemma fold_relax:
  assumes "search_ok G start st" "s_g st (quantize u) \<noteq> None" "set ws \<subseteq> set (G u)"
  shows "search_ok G start (fold (relax goal u) ws st) \<and> grows st (fold (relax goal u) ws st) \<and>
    quantize ` set ws \<subseteq> dom (s_g (fold (relax goal u) ws st))"
  using assms
proof (induction ws arbitrary: st)
  case (Cons w ws)
  let ?st = "relax goal u w st" and ?st2 = "fold (relax goal u) ws (relax goal u w st)"
  have ok: "search_ok G start ?st" using Cons.prems by (intro relax_ok) simp_all
  have g: "grows st ?st" "quantize w \<in> dom (s_g ?st)" using relax_grows by blast+
  then have u: "s_g ?st (quantize u) \<noteq> None" using Cons.prems(2) unfolding grows_def by blast
  have ih: "search_ok G start ?st2" "grows ?st ?st2" "quantize ` set ws \<subseteq> dom (s_g ?st2)"
    using Cons.IH [OF ok u] Cons.prems(3) by simp_all
  from ih(2) g(2) have "quantize w \<in> dom (s_g ?st2)" unfolding grows_def by blast
  with ih grows_trans [OF g(1) ih(2)] show ?case by simp
qed (simp add: grows_refl)

section \<open>The search returns a path\<close>

text \<open>What has been taken from the queue is expanded.\<close>

definition expanded :: "graph \<Rightarrow> search \<Rightarrow> bool" where
  "expanded G st \<longleftrightarrow> (\<forall>k x. s_waypoint st k = Some x \<longrightarrow>
     x \<in> queued st \<or> quantize ` set (G x) \<subseteq> dom (s_g st))"

lemma start_search_ok: "search_ok G start (start_search start goal)"
proof -
  let ?st = "start_search start goal"
  have "chain ?st (quantize start) (quantize start) [quantize start]" by (rule chain_start)
  moreover have "is_f32 (Fin 0)" by (simp add: is_f32_def repr_def)
  ultimately show ?thesis
    by (intro search_okI) (auto simp: start_search_def Let_def heap.set_push split: if_splits)
qed

lemma expanded_start: "expanded G (start_search start goal)"
  by (auto simp: expanded_def queued_def start_search_def Let_def heap.set_push)

lemma pop_step:
  assumes "search_ok G start st" "s_queue st \<noteq> []" "heap_pop (s_queue st) = (x, q)"
  shows "s_g st (quantize (it_value x)) \<noteq> None"
    and "search_ok G start (st\<lparr>s_queue := q, s_open := ks\<rparr>)"
    and "set (s_queue st) = insert x (set q)"
proof -
  show s: "set (s_queue st) = insert x (set q)" using heap.set_pop [OF assms(2)] assms(3) by simp
  then show "s_g st (quantize (it_value x)) \<noteq> None" using search_okD(3) [OF assms(1)] by blast
  have "chain (st\<lparr>s_queue := q, s_open := ks\<rparr>) s k js" if "chain st s k js" for s k js
    using that by (induction rule: chain.induct) (auto intro: chain.intros)
  then have c: "\<exists>js. chain (st\<lparr>s_queue := q, s_open := ks\<rparr>) (quantize start) k js" if "s_g st k \<noteq> None" for k
    using search_okD(2) [OF assms(1) that] by blast
  have l: "linked G (st\<lparr>s_queue := q, s_open := ks\<rparr>) k \<longleftrightarrow> linked G st k" for k
    by (simp add: linked_def score_def)
  show "search_ok G start (st\<lparr>s_queue := q, s_open := ks\<rparr>)"
  proof (rule search_okI, goal_cases)
    case (9 k)
    then show ?case using c by simp
  qed (use assms(1) s in \<open>auto simp: l search_ok_def\<close>)
qed

lemma search_loop_ok:
  assumes "search_loop G goal n st = Some st'" "search_ok G start st" "expanded G st"
  shows "search_ok G start st' \<and> (s_g st' (quantize goal) \<noteq> None \<or> expanded G st' \<and> s_queue st' = [])"
  using assms
proof (induction G goal n st rule: search_loop.induct)
  case (1 G goal n st)
  show ?case
  proof (cases "s_queue st = []")
    case True
    with 1(2-4) show ?thesis by (subst (asm) search_loop.simps) simp
  next
    case q: False
    with 1(2) obtain m where n: "n = Suc m" by (subst (asm) search_loop.simps) (auto split: nat.splits)
    obtain x q' where p: "heap_pop (s_queue st) = (x, q')" by fastforce
    let ?u = "it_value x"
    let ?st1 = "st\<lparr>s_queue := q', s_open := s_open st - {quantize ?u}\<rparr>"
    note pop = pop_step [OF 1(3) q p]
    show ?thesis
    proof (cases "quantize ?u = quantize goal")
      case True
      with 1(2) q n p have "st' = ?st1" by (subst (asm) search_loop.simps) (simp add: Let_def)
      with pop(1,2) True show ?thesis by simp
    next
      case False
      let ?st2 = "fold (relax goal ?u) (G ?u) ?st1"
      have e: "search_loop G goal m ?st2 = Some st'"
        using 1(2) q n p False by (subst (asm) search_loop.simps) (simp add: Let_def)
      have f: "search_ok G start ?st2" "grows ?st1 ?st2" "quantize ` set (G ?u) \<subseteq> dom (s_g ?st2)"
        using fold_relax [OF pop(2), where u = ?u and ws = "G ?u" and goal = goal] pop(1) by simp_all
      have "expanded G ?st2" unfolding expanded_def
      proof (intro allI impI)
        fix k y assume "s_waypoint ?st2 k = Some y"
        with f(2) have "s_waypoint ?st1 k = Some y \<or> y \<in> queued ?st2" unfolding grows_def by blast
        then consider "s_waypoint st k = Some y" | "y \<in> queued ?st2" by auto
        then show "y \<in> queued ?st2 \<or> quantize ` set (G y) \<subseteq> dom (s_g ?st2)"
        proof cases
          case 1
          then have "y \<in> queued st \<or> quantize ` set (G y) \<subseteq> dom (s_g st)"
            using \<open>expanded G st\<close> unfolding expanded_def by blast
          then consider "y = ?u" | "y \<in> queued ?st1" | "quantize ` set (G y) \<subseteq> dom (s_g ?st1)"
            using pop(3) unfolding queued_def by auto
          then show ?thesis
          proof cases
            case 3
            also have "dom (s_g ?st1) \<subseteq> dom (s_g ?st2)" using f(2) unfolding grows_def by (rule conjunct1)
            finally show ?thesis ..
          qed (use f in \<open>simp_all add: grows_def subset_iff\<close>)
        qed simp
      qed
      from 1(1) [OF q n p [symmetric] refl refl refl False e f(1) this] show ?thesis by blast
    qed
  qed
qed

text \<open>The search only ever meets waypoints the graph leads to from the start.\<close>

inductive leads :: "graph \<Rightarrow> waypoint \<Rightarrow> waypoint \<Rightarrow> bool" for G s where
  leads_start: "leads G s s"
| leads_edge: "leads G s u \<Longrightarrow> w \<in> set (G u) \<Longrightarrow> leads G s w"

definition met_ok :: "graph \<Rightarrow> waypoint \<Rightarrow> search \<Rightarrow> bool" where
  "met_ok G s st \<longleftrightarrow> (\<forall>x\<in>queued st. leads G s x) \<and> (\<forall>k w. s_waypoint st k = Some w \<longrightarrow> leads G s w) \<and>
     (\<forall>k u. s_came_from st k = Some u \<longrightarrow> leads G s u)"

lemma met_relax:
  assumes "met_ok G s st" "leads G s u" "w \<in> set (G u)"
  shows "met_ok G s (relax goal u w st)"
  using assms leads_edge [OF assms(2,3)]
  by (cases rule: relax_cases [of st w goal u]) (simp_all add: met_ok_def queued_def)

lemma met_fold: "met_ok G s st \<Longrightarrow> leads G s u \<Longrightarrow> set ws \<subseteq> set (G u) \<Longrightarrow> met_ok G s (fold (relax goal u) ws st)"
  by (induction ws arbitrary: st) (simp_all add: met_relax)

lemma met_start: "met_ok G start (start_search start goal)"
  by (auto simp: met_ok_def queued_def start_search_def Let_def heap.set_push intro: leads_start split: if_splits)

lemma search_loop_met: "search_loop G goal n st = Some st' \<Longrightarrow> met_ok G s st \<Longrightarrow> met_ok G s st'"
proof (induction G goal n st rule: search_loop.induct)
  case (1 G goal n st)
  show ?case
  proof (cases "s_queue st = []")
    case True
    with 1(2,3) show ?thesis by (subst (asm) search_loop.simps) simp
  next
    case q: False
    with 1(2) obtain m where n: "n = Suc m" by (subst (asm) search_loop.simps) (auto split: nat.splits)
    obtain x q' where p: "heap_pop (s_queue st) = (x, q')" by fastforce
    let ?u = "it_value x"
    let ?st1 = "st\<lparr>s_queue := q', s_open := s_open st - {quantize ?u}\<rparr>"
    have "set (s_queue st) = insert x (set q')" using heap.set_pop [OF q] p by simp
    then have u: "leads G s ?u" "met_ok G s ?st1" using 1(3) by (auto simp: met_ok_def queued_def)
    show ?thesis
    proof (cases "quantize ?u = quantize goal")
      case True
      with 1(2) q n p have "st' = ?st1" by (subst (asm) search_loop.simps) (simp add: Let_def)
      with u(2) show ?thesis by simp
    next
      case False
      have e: "search_loop G goal m (fold (relax goal ?u) (G ?u) ?st1) = Some st'"
        using 1(2) q n p False by (subst (asm) search_loop.simps) (simp add: Let_def)
      from 1(1) [OF q n p [symmetric] refl refl refl False e met_fold [OF u(2,1) subset_refl]] show ?thesis .
    qed
  qed
qed

text \<open>An edge of the graph, seen through the cells: the search may have taken it from another
  waypoint of the same millimetre cell that the graph leads to.\<close>

definition edge :: "graph \<Rightarrow> waypoint \<Rightarrow> waypoint \<Rightarrow> waypoint \<Rightarrow> bool" where
  "edge G s a b \<longleftrightarrow> (\<exists>u. leads G s u \<and> quantize u = quantize a \<and> b \<in> set (G u))"

text \<open>Of the waypoints it leads to, the graph does not tell those of one cell apart. A graph whose
  waypoints are at least a millimetre apart on some axis satisfies this.\<close>

definition cellwise :: "graph \<Rightarrow> waypoint \<Rightarrow> bool" where
  "cellwise G s \<longleftrightarrow> (\<forall>u v. leads G s u \<longrightarrow> leads G s v \<longrightarrow> quantize u = quantize v \<longrightarrow>
     quantize ` set (G u) = quantize ` set (G v))"

lemma walk_back_chain:
  "chain st s k ks \<Longrightarrow> walk_back st s k path = Some (path @ map (waypoint_at (s_waypoint st)) (butlast ks)) \<and>
     ks = butlast ks @ [s]"
proof (induction arbitrary: path rule: chain.induct)
  case chain_start
  then show ?case by (subst walk_back.simps) simp
next
  case (chain_step k u ks)
  then have "ks \<noteq> []" by (metis append_is_Nil_conv not_Cons_self2)
  with chain_step show ?case by (subst walk_back.simps) (simp add: waypoint_at_def [of "s_came_from st"])
qed

lemma linked_waypoint:
  assumes "search_ok G start st" "s_g st k \<noteq> None"
  shows "quantize (waypoint_at (s_waypoint st) k) = k"
  using assms search_okD(1) [OF assms] unfolding linked_def
  by (cases "k = quantize start") (auto simp: waypoint_at_def search_ok_def)

lemma chain_edges:
  assumes "chain st (quantize start) k ks" "search_ok G start st" "met_ok G start st" "s_g st k \<noteq> None"
  shows "successively (\<lambda>b a. edge G start a b) (map (waypoint_at (s_waypoint st)) ks) \<and> ks \<noteq> [] \<and> hd ks = k"
  using assms
proof (induction rule: chain.induct)
  case (chain_step k u ks)
  from search_okD(1) [OF chain_step.prems(1,3) chain_step.hyps(1)] chain_step.hyps(2)
  obtain w where w: "s_waypoint st k = Some w" "w \<in> set (G u)" "s_g st (quantize u) \<noteq> None"
    unfolding linked_def by auto
  from chain_step.IH [OF chain_step.prems(1,2) w(3)] obtain ks' where
    ks: "ks = quantize u # ks'" "successively (\<lambda>b a. edge G start a b) (map (waypoint_at (s_waypoint st)) ks)"
    by (metis list.collapse)
  have "edge G start (waypoint_at (s_waypoint st) (quantize u)) (waypoint_at (s_waypoint st) k)"
    unfolding edge_def using w linked_waypoint [OF chain_step.prems(1) w(3)]
    using chain_step.hyps(2) chain_step.prems(2) by (intro exI [of _ u]) (simp add: waypoint_at_def [of _ k] met_ok_def)
  with ks show ?case by simp
qed simp

lemma unreached:
  assumes "search_ok G start st" "met_ok G start st" "expanded G st" "s_queue st = []" "cellwise G start" "leads G start w"
  shows "s_g st (quantize w) \<noteq> None"
  using assms(6)
proof (induction rule: leads.induct)
  case leads_start
  then show ?case using assms(1) by (simp add: search_ok_def)
next
  case (leads_edge u w)
  let ?x = "waypoint_at (s_waypoint st) (quantize u)"
  from leads_edge.IH assms(1) have x: "s_waypoint st (quantize u) = Some ?x"
    by (auto simp: waypoint_at_def search_ok_def dom_def set_eq_iff split: option.splits)
  with assms(3,4) have "quantize ` set (G ?x) \<subseteq> dom (s_g st)" unfolding expanded_def queued_def by auto
  moreover have "leads G start ?x" using assms(2) x unfolding met_ok_def by blast
  then have "quantize ` set (G ?x) = quantize ` set (G u)"
    using assms(5) linked_waypoint [OF assms(1) leads_edge.IH] leads_edge.hyps(1) unfolding cellwise_def by blast
  ultimately show ?case using leads_edge.hyps(2) by blast
qed


text \<open>Two cells a metre apart and an edge from the first to the second.\<close>

definition demo_graph :: graph where
  "demo_graph w = (if quantize w = PointKey 0 0 0 then [Waypoint (Fin 1) (Fin 0) (Fin 0)] else [])"


end
