(* ===== verification/Squads.thy ===== *)
theory Squads
  imports Pathfinding
begin

text \<open>
  AI squads: internal/ai/squad_manager.go, puppet.go and combat.go. A squad is a record, the
  manager maps an id to its squad (a squad is reached only through the manager; what other code
  keeps of one is its id, which never changes). The zero \<open>time.Time\<close> is \<open>None\<close>. \<open>math.Cos\<close>,
  \<open>math.Sin\<close> and \<open>math.Atan2\<close> are the functions of a record of parameters: only the direction a
  squad faces and the points of a generated loop depend on them.

  The properties: a melee swing only ever comes from a living squad that may fight, at a hostile
  target of its level within reach, and a squad's swings are at least the cooldown apart; a dead
  squad stays where it is until the corpse delay has passed and is then released, once.
\<close>

type_synonym vec3 = "f32 \<times> f32 \<times> f32"

record trig =
  tg_cos :: "f64 \<Rightarrow> f64"
  tg_sin :: "f64 \<Rightarrow> f64"
  tg_atan2 :: "f64 \<Rightarrow> f64 \<Rightarrow> f64"

datatype ai_state = AIdle | APatrol | AAttack | AFlee | ADead | AAlert | AChase

abbreviation anim_idle :: u8 where "anim_idle \<equiv> 0"
abbreviation anim_walk :: u8 where "anim_walk \<equiv> 1"
abbreviation anim_run :: u8 where "anim_run \<equiv> 2"
abbreviation anim_attack :: u8 where "anim_attack \<equiv> 3"
abbreviation anim_death :: u8 where "anim_death \<equiv> 4"

record squad =
  sq_id :: u32
  sq_dbid :: int
  sq_level :: string
  sq_pos :: vec3
  sq_state :: ai_state
  sq_health :: f32
  sq_faction :: string
  sq_puppet :: bool
  sq_label :: string
  sq_section :: string
  sq_patrol_radius :: f32
  sq_walk :: f32
  sq_run :: f32
  sq_yaw :: f32
  sq_anim :: u8
  sq_online :: bool
  sq_loop :: "waypoint list"
  sq_loop_index :: int
  sq_last_step :: "gotime option"
  sq_run_until :: "gotime option"
  sq_target :: u32
  sq_last_attack :: "gotime option"
  sq_alert_until :: "gotime option"
  sq_dead_since :: "gotime option"

record squad_manager =
  sqm_squads :: "u32 \<Rightarrow> squad option"
  sqm_next_id :: u32
  sqm_corpse_delay :: duration

section \<open>The manager\<close>

definition new_squad_manager :: squad_manager where
  "new_squad_manager = \<lparr>sqm_squads = Map.empty, sqm_next_id = 1, sqm_corpse_delay = 0\<rparr>"

definition upd_squad :: "u32 \<Rightarrow> squad \<Rightarrow> squad_manager \<Rightarrow> squad_manager" where
  "upd_squad i s m = m\<lparr>sqm_squads := (sqm_squads m)(i \<mapsto> s)\<rparr>"

definition despawn_squad :: "u32 \<Rightarrow> squad_manager \<Rightarrow> squad_manager" where
  "despawn_squad i m = m\<lparr>sqm_squads := (sqm_squads m)(i := None)\<rparr>"

definition get_squad :: "u32 \<Rightarrow> squad_manager \<Rightarrow> squad option" where
  "get_squad i m = sqm_squads m i"

definition set_squad_state :: "u32 \<Rightarrow> ai_state \<Rightarrow> squad_manager \<Rightarrow> squad_manager" where
  "set_squad_state i st m = (case sqm_squads m i of None \<Rightarrow> m | Some s \<Rightarrow> upd_squad i (s\<lparr>sq_state := st\<rparr>) m)"

definition set_corpse_delay :: "duration \<Rightarrow> squad_manager \<Rightarrow> squad_manager" where
  "set_corpse_delay d m = m\<lparr>sqm_corpse_delay := d\<rparr>"

record puppet_state =
  ps_id :: u32
  ps_label :: string
  ps_section :: string
  ps_faction :: string
  ps_level :: string
  ps_pos :: vec3
  ps_yaw :: f32
  ps_anim :: u8
  ps_state :: ai_state
  ps_online :: bool
  ps_health :: f32

definition puppet_state_of :: "squad \<Rightarrow> puppet_state" where
  "puppet_state_of s = \<lparr>ps_id = sq_id s, ps_label = sq_label s, ps_section = sq_section s, ps_faction = sq_faction s,
     ps_level = sq_level s, ps_pos = sq_pos s, ps_yaw = sq_yaw s, ps_anim = sq_anim s, ps_state = sq_state s,
     ps_online = sq_online s, ps_health = sq_health s\<rparr>"

definition get_puppet_state :: "u32 \<Rightarrow> squad_manager \<Rightarrow> puppet_state option" where
  "get_puppet_state i m = (case sqm_squads m i of None \<Rightarrow> None
     | Some s \<Rightarrow> if sq_puppet s then Some (puppet_state_of s) else None)"

text \<open>The remaining health, whether it died, whether the hit counted.\<close>

definition apply_puppet_damage :: "u32 \<Rightarrow> f32 \<Rightarrow> squad_manager \<Rightarrow> (f32 \<times> bool \<times> bool) \<times> squad_manager" where
  "apply_puppet_damage i damage m = (let damage = (if flt damage (Fin 0) then Fin 0 else damage) in
     case sqm_squads m i of
       None \<Rightarrow> ((Fin 0, False, False), m)
     | Some s \<Rightarrow>
         if \<not> sq_puppet s \<or> sq_state s = ADead then ((Fin 0, False, False), m)
         else let h = sub32 (sq_health s) damage in
           if fle h (Fin 0)
           then ((Fin 0, True, True), upd_squad i (s\<lparr>sq_health := Fin 0, sq_state := ADead, sq_target := 0\<rparr>) m)
           else ((h, False, True), upd_squad i (s\<lparr>sq_health := h\<rparr>) m))"

section \<open>Puppets\<close>

record puppet_def =
  pd_dbid :: int
  pd_label :: string
  pd_section :: string
  pd_faction :: string
  pd_level :: string
  pd_spawn :: vec3
  pd_patrol_radius :: f32
  pd_walk :: f32
  pd_run :: f32
  pd_loop :: "waypoint list"

definition clamp_f32 :: "f32 \<Rightarrow> f32 \<Rightarrow> f32 \<Rightarrow> f32" where
  "clamp_f32 v lo hi = (if flt v lo then lo else if flt hi v then hi else v)"

text \<open>The untyped constant \<open>2 * math.Pi\<close>, rounded to \<open>float64\<close>.\<close>

definition two_pi :: f64 where
  "two_pi = Fin (7074237752028440 / 2 ^ 50)"

definition loop_angle :: "int \<Rightarrow> int \<Rightarrow> f64" where
  "loop_angle i points = fdiv rnd64 (mul64 two_pi (rnd64 (of_int i))) (rnd64 (of_int points))"

definition circle_loop :: "trig \<Rightarrow> vec3 \<Rightarrow> f32 \<Rightarrow> int \<Rightarrow> waypoint list" where
  "circle_loop tg spawn radius points = (case spawn of (x, y, z) \<Rightarrow>
     let points = (if points < 3 then 3 else points) in
     map (\<lambda>i. Waypoint (add32 x (mul32 radius (f32_of (tg_cos tg (loop_angle i points))))) y
            (add32 z (mul32 radius (f32_of (tg_sin tg (loop_angle i points)))))) [0..points - 1])"

definition register_puppet :: "trig \<Rightarrow> puppet_def \<Rightarrow> squad_manager \<Rightarrow> squad \<times> squad_manager" where
  "register_puppet tg d m =
     (let radius = (if fle (pd_patrol_radius d) (Fin 0) then Fin 32 else pd_patrol_radius d);
          radius = clamp_f32 radius (Fin 5) (Fin 200);
          walk = (if fle (pd_walk d) (Fin 0) then Fin (3 / 2) else pd_walk d);
          run = (if fle (pd_run d) (Fin 0) then Fin 3 else pd_run d);
          lp = (if length (pd_loop d) < 2 then circle_loop tg (pd_spawn d) radius 12 else pd_loop d);
          i = sqm_next_id m;
          s = \<lparr>sq_id = i, sq_dbid = pd_dbid d, sq_level = pd_level d, sq_pos = pd_spawn d, sq_state = APatrol,
               sq_health = Fin 100, sq_faction = pd_faction d, sq_puppet = True, sq_label = pd_label d,
               sq_section = pd_section d, sq_patrol_radius = radius, sq_walk = walk, sq_run = run, sq_yaw = Fin 0,
               sq_anim = anim_idle, sq_online = False, sq_loop = lp, sq_loop_index = 0, sq_last_step = None,
               sq_run_until = None, sq_target = 0, sq_last_attack = None, sq_alert_until = None, sq_dead_since = None\<rparr>
      in (s, upd_squad i s (m\<lparr>sqm_next_id := i + 1\<rparr>)))"

section \<open>The combat machine\<close>

record combat_params =
  cp_aggro :: f32
  cp_range :: f32
  cp_cooldown :: duration
  cp_damage :: f32
  cp_resume :: duration

definition with_defaults :: "combat_params \<Rightarrow> combat_params" where
  "with_defaults p = \<lparr>cp_aggro = (if fle (cp_aggro p) (Fin 0) then Fin 40 else cp_aggro p),
     cp_range = (if fle (cp_range p) (Fin 0) then Fin 2 else cp_range p),
     cp_cooldown = (if cp_cooldown p \<le> 0 then 1500 * millisecond else cp_cooldown p),
     cp_damage = (if fle (cp_damage p) (Fin 0) then Fin 10 else cp_damage p),
     cp_resume = (if cp_resume p \<le> 0 then 10 * second else cp_resume p)\<rparr>"

record combat_target =
  ct_id :: u32
  ct_level :: string
  ct_pos :: vec3
  ct_faction :: string

record combat_step =
  cs_enabled :: bool
  cs_params :: combat_params
  cs_hostile :: "(string \<Rightarrow> string \<Rightarrow> bool) option"
  cs_gate :: "(squad \<Rightarrow> bool) option"
  cs_targets :: "combat_target list"

record attack_event =
  ev_squad :: u32
  ev_target :: u32
  ev_damage :: f32
  ev_pos :: vec3
  ev_level :: string
  ev_faction :: string

text \<open>What one step of the machine does: whether it owns the movement, the squad, its swings.\<close>

type_synonym step_result = "bool \<times> squad \<times> attack_event list"

definition dist_sq3 :: "vec3 \<Rightarrow> vec3 \<Rightarrow> f32" where
  "dist_sq3 a b = (case (a, b) of ((a0, a1, a2), (b0, b1, b2)) \<Rightarrow>
     let dx = sub32 a0 b0; dy = sub32 a1 b1; dz = sub32 a2 b2
     in add32 (add32 (mul32 dx dx) (mul32 dy dy)) (mul32 dz dz))"

definition is_hostile :: "(string \<Rightarrow> string \<Rightarrow> bool) option \<Rightarrow> squad \<Rightarrow> combat_target \<Rightarrow> bool" where
  "is_hostile h s t \<longleftrightarrow> (case h of None \<Rightarrow> True | Some f \<Rightarrow> f (sq_faction s) (ct_faction t))"

definition target_for :: "combat_target list \<Rightarrow> string \<Rightarrow> u32 \<Rightarrow> combat_target option" where
  "target_for ts level i = List.find (\<lambda>t. ct_id t = i \<and> ct_level t = level) ts"

definition find_target :: "combat_target list \<Rightarrow> string \<Rightarrow> u32 \<Rightarrow> combat_target option" where
  "find_target ts level i = (if i = 0 then None else target_for ts level i)"

fun nearest_loop :: "squad \<Rightarrow> f32 \<Rightarrow> (string \<Rightarrow> string \<Rightarrow> bool) option \<Rightarrow> combat_target list \<Rightarrow>
    (combat_target \<times> f32) option \<Rightarrow> combat_target option" where
  "nearest_loop s radius_sq h [] best = map_option fst best"
| "nearest_loop s radius_sq h (t # ts) best =
     (if ct_level t \<noteq> sq_level s \<or> \<not> is_hostile h s t then nearest_loop s radius_sq h ts best
      else let d = dist_sq3 (sq_pos s) (ct_pos t) in
        if flt radius_sq d then nearest_loop s radius_sq h ts best
        else nearest_loop s radius_sq h ts
               (case best of None \<Rightarrow> Some (t, d) | Some (b, bd) \<Rightarrow> if flt d bd then Some (t, d) else best))"

definition nearest_hostile :: "squad \<Rightarrow> combat_target list \<Rightarrow> f32 \<Rightarrow> (string \<Rightarrow> string \<Rightarrow> bool) option \<Rightarrow> combat_target option" where
  "nearest_hostile s ts radius h = nearest_loop s (mul32 radius radius) h ts None"

definition face_target :: "trig \<Rightarrow> vec3 \<Rightarrow> squad \<Rightarrow> squad" where
  "face_target tg pos s = (let dx = sub32 (fst pos) (fst (sq_pos s)); dz = sub32 (snd (snd pos)) (snd (snd (sq_pos s))) in
     if feq dx (Fin 0) \<and> feq dz (Fin 0) then s else s\<lparr>sq_yaw := f32_of (tg_atan2 tg dx dz)\<rparr>)"

definition step_alert :: "gotime \<Rightarrow> combat_params \<Rightarrow> squad \<Rightarrow> step_result" where
  "step_alert now p s = (True, s\<lparr>sq_target := 0, sq_state := AAlert, sq_alert_until := Some (now + cp_resume p),
     sq_anim := anim_idle\<rparr>, [])"

text \<open>Facing the target and swinging when the cooldown is over: the same lines in both branches.\<close>

definition swing :: "trig \<Rightarrow> gotime \<Rightarrow> combat_params \<Rightarrow> combat_target \<Rightarrow> squad \<Rightarrow> step_result" where
  "swing tg now p t s = (let s1 = (face_target tg (ct_pos t) s)\<lparr>sq_anim := anim_attack\<rparr> in
     if (case sq_last_attack s1 of None \<Rightarrow> True | Some l \<Rightarrow> cp_cooldown p \<le> time_sub now l)
     then (True, s1\<lparr>sq_last_attack := Some now\<rparr>,
           [\<lparr>ev_squad = sq_id s1, ev_target = ct_id t, ev_damage = cp_damage p, ev_pos = sq_pos s1,
             ev_level = sq_level s1, ev_faction = sq_faction s1\<rparr>])
     else (True, s1, []))"

definition step_chase :: "trig \<Rightarrow> gotime \<Rightarrow> combat_params \<Rightarrow> combat_target option \<Rightarrow> f64 \<Rightarrow> squad \<Rightarrow> step_result" where
  "step_chase tg now p target dt s = (case target of
     None \<Rightarrow> step_alert now p s
   | Some t \<Rightarrow> (case (ct_pos t, sq_pos s) of ((t0, t1, t2), (s0, s1, s2)) \<Rightarrow>
       let dx = sub32 t0 s0; dy = sub32 t1 s1; dz = sub32 t2 s2;
           dist_sq = add32 (add32 (mul32 dx dx) (mul32 dy dy)) (mul32 dz dz)
       in if fle dist_sq (mul32 (cp_range p) (cp_range p)) then swing tg now p t (s\<lparr>sq_state := AAttack\<rparr>)
          else let r = (face_target tg (ct_pos t) s)\<lparr>sq_anim := anim_run\<rparr>;
                   speed = (if fle (sq_run r) (Fin 0) then Fin 3 else sq_run r) in
            if flt (Fin 0) dt then
              let dist = f32_of (fsqrt dist_sq); len = f32_of (mul64 speed dt);
                  len = (if flt dist len then dist else len);
                  move = \<lambda>c d. add32 c (mul32 (fdiv rnd32 d dist) len)
              in (True, r\<lparr>sq_pos := (move s0 dx, move s1 dy, move s2 dz)\<rparr>, [])
            else (True, r, [])))"

definition may_fight :: "combat_step \<Rightarrow> squad \<Rightarrow> bool" where
  "may_fight step s \<longleftrightarrow> (case cs_gate step of None \<Rightarrow> True | Some f \<Rightarrow> f s)"

text \<open>The idle and patrol case: chase the nearest hostile target, in the same step.\<close>

definition acquire :: "trig \<Rightarrow> gotime \<Rightarrow> combat_step \<Rightarrow> combat_params \<Rightarrow> f64 \<Rightarrow> squad \<Rightarrow> step_result" where
  "acquire tg now step p dt s = (case nearest_hostile s (cs_targets step) (cp_aggro p) (cs_hostile step) of
     None \<Rightarrow> (False, s, [])
   | Some best \<Rightarrow> let s1 = s\<lparr>sq_target := ct_id best, sq_state := AChase\<rparr> in
       step_chase tg now p (target_for (cs_targets step) (sq_level s1) (sq_target s1)) dt s1)"

definition step_combat :: "trig \<Rightarrow> gotime \<Rightarrow> combat_step \<Rightarrow> f64 \<Rightarrow> squad \<Rightarrow> step_result" where
  "step_combat tg now step dt s =
     (let p = with_defaults (cs_params step) in
      if \<not> may_fight step s then (False, s\<lparr>sq_target := 0, sq_state := APatrol\<rparr>, [])
      else
        let target = find_target (cs_targets step) (sq_level s) (sq_target s);
            hostile = (case target of None \<Rightarrow> False | Some t \<Rightarrow> is_hostile (cs_hostile step) s t)
        in case sq_state s of
             AIdle \<Rightarrow> acquire tg now step p dt s
           | APatrol \<Rightarrow> acquire tg now step p dt s
           | AAlert \<Rightarrow>
               if hostile \<and> fle (dist_sq3 (sq_pos s) (ct_pos (the target))) (mul32 (cp_aggro p) (cp_aggro p))
               then step_chase tg now p target dt (s\<lparr>sq_target := ct_id (the target), sq_state := AChase\<rparr>)
               else (True, (if (case sq_alert_until s of None \<Rightarrow> False | Some u \<Rightarrow> u \<le> now)
                       then s\<lparr>sq_state := APatrol, sq_target := 0, sq_alert_until := None\<rparr> else s)\<lparr>sq_anim := anim_idle\<rparr>, [])
           | AChase \<Rightarrow> if \<not> hostile then step_alert now p s else step_chase tg now p target dt s
           | AAttack \<Rightarrow>
               if \<not> hostile then step_alert now p s
               else if flt (mul32 (cp_range p) (cp_range p)) (dist_sq3 (sq_pos s) (ct_pos (the target)))
               then step_chase tg now p target dt (s\<lparr>sq_state := AChase\<rparr>)
               else swing tg now p (the target) s
           | _ \<Rightarrow> (False, s, []))"


section \<open>The puppet tick\<close>

text \<open>\<open>d.Seconds()\<close>: whole seconds and nanoseconds are added as floats; both are truncated towards
  zero.\<close>

definition seconds_f64 :: "duration \<Rightarrow> f64" where
  "seconds_f64 d = (let f = \<lambda>n. add64 (rnd64 (of_int (n div second))) (fdiv_const rnd64 (Fin (of_int (n mod second))) 1000000000)
     in if d < 0 then fneg (f (- d)) else f d)"

definition apply_puppet_step :: "trig \<Rightarrow> gotime \<Rightarrow> f64 \<Rightarrow> squad \<Rightarrow> squad" where
  "apply_puppet_step tg now dt s =
     (if sq_loop s = [] then s\<lparr>sq_anim := anim_idle\<rparr>
      else if sq_state s = ADead then s\<lparr>sq_anim := anim_death\<rparr>
      else if fle dt (Fin 0) then s\<lparr>sq_anim := anim_idle\<rparr>
      else
        let using_run = (case sq_run_until s of None \<Rightarrow> False | Some u \<Rightarrow> now < u \<and> flt (Fin 0) (sq_run s));
            speed = (if using_run then sq_run s else sq_walk s);
            speed = (if fle speed (Fin 0) then Fin (3 / 2) else speed);
            n = int (length (sq_loop s));
            i = (if sq_loop_index s < 0 \<or> n \<le> sq_loop_index s then 0 else sq_loop_index s)
        in case (sq_loop s ! nat i, sq_pos s) of (Waypoint t0 t1 t2, (s0, s1, s2)) \<Rightarrow>
          let dx = sub32 t0 s0; dy = sub32 t1 s1; dz = sub32 t2 s2;
              dist_sq = add32 (add32 (mul32 dx dx) (mul32 dy dy)) (mul32 dz dz)
          in if flt dist_sq (rnd32 (1 / 1000000))
             then s\<lparr>sq_loop_index := (i + 1) mod n, sq_anim := anim_idle\<rparr>
             else
               let len = f32_of (mul64 speed dt); dist = f32_of (fsqrt dist_sq);
                   move = \<lambda>c d. add32 c (mul32 (fdiv rnd32 d dist) len);
                   r = (if fle dist len then s\<lparr>sq_pos := (t0, t1, t2), sq_loop_index := (i + 1) mod n\<rparr>
                        else s\<lparr>sq_pos := (move s0 dx, move s1 dy, move s2 dz), sq_loop_index := i\<rparr>)
               in r\<lparr>sq_yaw := f32_of (tg_atan2 tg dx dz), sq_anim := (if using_run then anim_run else anim_walk)\<rparr>)"

definition corpse_delay_or_default :: "squad_manager \<Rightarrow> duration" where
  "corpse_delay_or_default m = (if 0 < sqm_corpse_delay m then sqm_corpse_delay m else 5 * second)"

text \<open>A living squad: combat if it is enabled and owns the step, else the patrol step.\<close>

definition live_step :: "trig \<Rightarrow> gotime \<Rightarrow> combat_step \<Rightarrow> f64 \<Rightarrow> squad \<Rightarrow> squad \<times> attack_event list" where
  "live_step tg now step dt s =
     (if cs_enabled step then (case step_combat tg now step dt s of
          (True, s1, evs) \<Rightarrow> (s1, evs)
        | (False, s1, evs) \<Rightarrow> (apply_puppet_step tg now dt s1, evs))
      else (apply_puppet_step tg now dt s, []))"

definition online_dt :: "gotime \<Rightarrow> squad \<Rightarrow> f64" where
  "online_dt now s = (case sq_last_step s of None \<Rightarrow> Fin 0
     | Some l \<Rightarrow> let dt = seconds_f64 (time_sub now l) in
         if flt dt (Fin 0) then Fin 0 else if flt (Fin (1 / 4)) dt then Fin (1 / 4) else dt)"

text \<open>The body of the loop for one puppet: \<open>None\<close> when it is despawned.\<close>

definition tick_squad :: "trig \<Rightarrow> gotime \<Rightarrow> (u32 \<Rightarrow> bool) \<Rightarrow> combat_step \<Rightarrow> duration \<Rightarrow> squad \<Rightarrow> squad option \<times> attack_event list" where
  "tick_squad tg now online step delay s =
     (let s = s\<lparr>sq_online := online (sq_id s)\<rparr> in
      if sq_state s = ADead then
        let since = (case sq_dead_since s of None \<Rightarrow> now | Some t \<Rightarrow> t);
            s1 = apply_puppet_step tg now (Fin 0) (s\<lparr>sq_dead_since := Some since\<rparr>)
        in (if delay \<le> time_sub now since then None else Some s1, [])
      else if sq_online s then
        (case live_step tg now step (online_dt now s) (s\<lparr>sq_last_step := Some now\<rparr>) of (s1, evs) \<Rightarrow> (Some s1, evs))
      else (case sq_last_step s of
          None \<Rightarrow> (Some (apply_puppet_step tg now (Fin 0) (s\<lparr>sq_last_step := Some now\<rparr>)), [])
        | Some l \<Rightarrow>
            let elapsed = seconds_f64 (time_sub now l) in
            if flt elapsed (Fin 1) then
              (case live_step tg now step (Fin 0) s of (s1, evs) \<Rightarrow> (Some s1, evs))
            else
              let elapsed = (if flt (Fin 2) elapsed then Fin 2 else elapsed) in
              (case live_step tg now step elapsed (s\<lparr>sq_last_step := Some now\<rparr>) of (s1, evs) \<Rightarrow> (Some s1, evs))))"

fun tick_puppets_loop :: "trig \<Rightarrow> gotime \<Rightarrow> (u32 \<Rightarrow> bool) \<Rightarrow> combat_step \<Rightarrow> u32 list \<Rightarrow> squad_manager \<Rightarrow>
    squad_manager \<times> u32 list \<times> attack_event list" where
  "tick_puppets_loop tg now online step [] m = (m, [], [])"
| "tick_puppets_loop tg now online step (i # ks) m = (case sqm_squads m i of
     None \<Rightarrow> tick_puppets_loop tg now online step ks m
   | Some s \<Rightarrow> if \<not> sq_puppet s then tick_puppets_loop tg now online step ks m
       else (case tick_squad tg now online step (corpse_delay_or_default m) s of
           (r, evs) \<Rightarrow> (case tick_puppets_loop tg now online step ks (m\<lparr>sqm_squads := (sqm_squads m)(i := r)\<rparr>) of
              (m', ds, evs') \<Rightarrow> (m', (if r = None then [i] else []) @ ds, evs @ evs'))))"

text \<open>\<open>TickPuppetsWithCombat\<close> and \<open>TickPuppets\<close>; ranging over the squads takes the visiting order.\<close>

definition tick_puppets_with_combat :: "trig \<Rightarrow> gotime \<Rightarrow> (u32 \<Rightarrow> bool) \<Rightarrow> combat_step \<Rightarrow> u32 list \<Rightarrow> squad_manager \<Rightarrow>
    squad_manager \<times> u32 list \<times> attack_event list" where
  "tick_puppets_with_combat tg now online step ro m = tick_puppets_loop tg now online step ro m"

definition no_combat :: combat_step where
  "no_combat = \<lparr>cs_enabled = False, cs_params = \<lparr>cp_aggro = Fin 0, cp_range = Fin 0, cp_cooldown = 0, cp_damage = Fin 0,
     cp_resume = 0\<rparr>, cs_hostile = None, cs_gate = None, cs_targets = []\<rparr>"

definition tick_puppets :: "trig \<Rightarrow> gotime \<Rightarrow> (u32 \<Rightarrow> bool) \<Rightarrow> u32 list \<Rightarrow> squad_manager \<Rightarrow> squad_manager \<times> u32 list" where
  "tick_puppets tg now online ro m = (case tick_puppets_loop tg now online no_combat ro m of (m', ds, _) \<Rightarrow> (m', ds))"

definition snapshot_puppets :: "u32 list \<Rightarrow> squad_manager \<Rightarrow> puppet_state list" where
  "snapshot_puppets ro m = List.map_filter (\<lambda>i. get_puppet_state i m) ro"

definition puppet_count :: "u32 list \<Rightarrow> squad_manager \<Rightarrow> nat" where
  "puppet_count ro m = length (filter (\<lambda>i. case sqm_squads m i of None \<Rightarrow> False | Some s \<Rightarrow> sq_puppet s) ro)"

definition set_puppet_run :: "u32 \<Rightarrow> gotime option \<Rightarrow> squad_manager \<Rightarrow> squad_manager" where
  "set_puppet_run i until m = (case sqm_squads m i of None \<Rightarrow> m
     | Some s \<Rightarrow> if sq_puppet s then upd_squad i (s\<lparr>sq_run_until := until\<rparr>) m else m)"

definition set_puppet_position :: "u32 \<Rightarrow> vec3 \<Rightarrow> squad_manager \<Rightarrow> bool \<times> squad_manager" where
  "set_puppet_position i pos m = (case sqm_squads m i of None \<Rightarrow> (False, m)
     | Some s \<Rightarrow> if sq_puppet s then (True, upd_squad i (s\<lparr>sq_pos := pos\<rparr>) m) else (False, m))"


section \<open>One tick, squad by squad\<close>

text \<open>What a tick makes of one entry of the map, and the swings that come from it.\<close>

definition visited :: "trig \<Rightarrow> gotime \<Rightarrow> (u32 \<Rightarrow> bool) \<Rightarrow> combat_step \<Rightarrow> squad_manager \<Rightarrow> u32 \<Rightarrow> squad option" where
  "visited tg now online step m i = (case sqm_squads m i of None \<Rightarrow> None
     | Some s \<Rightarrow> if sq_puppet s then fst (tick_squad tg now online step (corpse_delay_or_default m) s) else Some s)"

definition swings_of :: "trig \<Rightarrow> gotime \<Rightarrow> (u32 \<Rightarrow> bool) \<Rightarrow> combat_step \<Rightarrow> squad_manager \<Rightarrow> u32 \<Rightarrow> attack_event list" where
  "swings_of tg now online step m i = (case sqm_squads m i of None \<Rightarrow> []
     | Some s \<Rightarrow> if sq_puppet s then snd (tick_squad tg now online step (corpse_delay_or_default m) s) else [])"

lemma visited_other: "i \<noteq> j \<Longrightarrow> visited tg now online step (m\<lparr>sqm_squads := (sqm_squads m)(i := r)\<rparr>) j = visited tg now online step m j"
  "i \<noteq> j \<Longrightarrow> swings_of tg now online step (m\<lparr>sqm_squads := (sqm_squads m)(i := r)\<rparr>) j = swings_of tg now online step m j"
  by (simp_all add: visited_def swings_of_def corpse_delay_or_default_def split: option.split)

lemma tick_puppets_loop_spec:
  "distinct ks \<Longrightarrow> tick_puppets_loop tg now online step ks m =
     (m\<lparr>sqm_squads := (\<lambda>j. if j \<in> set ks then visited tg now online step m j else sqm_squads m j)\<rparr>,
      filter (\<lambda>j. sqm_squads m j \<noteq> None \<and> visited tg now online step m j = None) ks,
      concat (map (swings_of tg now online step m) ks))"
proof (induction ks arbitrary: m)
  case (Cons i ks)
  show ?case
  proof (cases "\<exists>s. sqm_squads m i = Some s \<and> sq_puppet s")
    case False
    then have v: "visited tg now online step m i = sqm_squads m i" "swings_of tg now online step m i = []"
      by (auto simp: visited_def swings_of_def split: option.splits)
    from False have "tick_puppets_loop tg now online step (i # ks) m = tick_puppets_loop tg now online step ks m"
      by (auto split: option.split)
    with Cons v show ?thesis by (auto simp: fun_eq_iff)
  next
    case True
    then obtain s where s: "sqm_squads m i = Some s" "sq_puppet s" by blast
    let ?m = "m\<lparr>sqm_squads := (sqm_squads m)(i := visited tg now online step m i)\<rparr>"
    have i: "i \<notin> set ks" using Cons.prems by simp
    have c: "filter (\<lambda>j. sqm_squads ?m j \<noteq> None \<and> visited tg now online step ?m j = None) ks =
        filter (\<lambda>j. sqm_squads m j \<noteq> None \<and> visited tg now online step m j = None) ks"
      "map (swings_of tg now online step ?m) ks = map (swings_of tg now online step m) ks"
    proof -
      have o: "i \<noteq> j" if "j \<in> set ks" for j using i that by blast
      show "filter (\<lambda>j. sqm_squads ?m j \<noteq> None \<and> visited tg now online step ?m j = None) ks =
          filter (\<lambda>j. sqm_squads m j \<noteq> None \<and> visited tg now online step m j = None) ks"
        by (rule filter_cong [OF refl]) (auto simp: visited_other dest: o)
      show "map (swings_of tg now online step ?m) ks = map (swings_of tg now online step m) ks"
        by (rule map_cong [OF refl]) (simp only: visited_other(2) [OF o])
    qed
    have e: "(\<lambda>j. if j \<in> set ks then visited tg now online step ?m j else sqm_squads ?m j) =
        (\<lambda>j. if j \<in> set (i # ks) then visited tg now online step m j else sqm_squads m j)"
    proof
      show "(if j \<in> set ks then visited tg now online step ?m j else sqm_squads ?m j) =
          (if j \<in> set (i # ks) then visited tg now online step m j else sqm_squads m j)" for j
        using i visited_other(1) [of i j] by (cases "i = j") auto
    qed
    have ih: "tick_puppets_loop tg now online step ks ?m =
        (m\<lparr>sqm_squads := (\<lambda>j. if j \<in> set (i # ks) then visited tg now online step m j else sqm_squads m j)\<rparr>,
         filter (\<lambda>j. sqm_squads m j \<noteq> None \<and> visited tg now online step m j = None) ks,
         concat (map (swings_of tg now online step m) ks))"
      using Cons.IH [of ?m] Cons.prems unfolding c e by simp
    have "tick_puppets_loop tg now online step (i # ks) m = (case tick_puppets_loop tg now online step ks ?m of
        (m', ds, evs) \<Rightarrow> (m', (if visited tg now online step m i = None then [i] else []) @ ds, swings_of tg now online step m i @ evs))"
      using s by (simp add: visited_def swings_of_def split: prod.split)
    then show ?thesis unfolding ih using s(1) by simp
  qed
qed simp

lemma tick_result:
  assumes "distinct ks" "tick_puppets_with_combat tg now online step ks m = (m', ds, evs)"
  shows "m' = m\<lparr>sqm_squads := (\<lambda>j. if j \<in> set ks then visited tg now online step m j else sqm_squads m j)\<rparr>"
    "ds = filter (\<lambda>j. sqm_squads m j \<noteq> None \<and> visited tg now online step m j = None) ks"
    "evs = concat (map (swings_of tg now online step m) ks)"
  using assms(2) tick_puppets_loop_spec [OF assms(1), of tg now online step m] by (simp_all add: tick_puppets_with_combat_def)

section \<open>Swings\<close>

text \<open>A swing that may happen: of a living squad, at a target of its level that is hostile and not
  out of reach, at the squad's position, with the configured damage, the cooldown being over.\<close>

definition fair_swing :: "gotime \<Rightarrow> combat_step \<Rightarrow> squad \<Rightarrow> attack_event \<Rightarrow> bool" where
  "fair_swing now step s e \<longleftrightarrow> (let p = with_defaults (cs_params step) in
     cs_enabled step \<and> sq_state s \<noteq> ADead \<and> ev_squad e = sq_id s \<and> ev_pos e = sq_pos s \<and> ev_level e = sq_level s \<and>
     ev_damage e = cp_damage p \<and>
     (case sq_last_attack s of None \<Rightarrow> True | Some l \<Rightarrow> cp_cooldown p \<le> time_sub now l) \<and>
     (\<exists>t\<in>set (cs_targets step). ct_id t = ev_target e \<and> ct_level t = sq_level s \<and> is_hostile (cs_hostile step) s t \<and>
        \<not> flt (mul32 (cp_range p) (cp_range p)) (dist_sq3 (sq_pos s) (ct_pos t))))"

text \<open>What one step of the machine promises of its result.\<close>

definition swing_ok :: "gotime \<Rightarrow> combat_step \<Rightarrow> squad \<Rightarrow> squad \<times> attack_event list \<Rightarrow> bool" where
  "swing_ok now step s r \<longleftrightarrow> (case r of (s', evs) \<Rightarrow> sq_id s' = sq_id s \<and>
     (evs = [] \<and> sq_last_attack s' = sq_last_attack s \<or>
      (\<exists>e. evs = [e] \<and> fair_swing now step s e \<and> sq_last_attack s' = Some now)))"

lemma face_target_frame [simp]:
  "sq_id (face_target tg p s) = sq_id s" "sq_pos (face_target tg p s) = sq_pos s" "sq_level (face_target tg p s) = sq_level s"
  "sq_faction (face_target tg p s) = sq_faction s" "sq_last_attack (face_target tg p s) = sq_last_attack s"
  "sq_state (face_target tg p s) = sq_state s"
  by (simp_all add: face_target_def Let_def)

lemma apply_puppet_step_frame [simp]:
  "sq_id (apply_puppet_step tg now dt s) = sq_id s" "sq_last_attack (apply_puppet_step tg now dt s) = sq_last_attack s"
  "sq_state (apply_puppet_step tg now dt s) = sq_state s" "sq_puppet (apply_puppet_step tg now dt s) = sq_puppet s"
  "sq_dead_since (apply_puppet_step tg now dt s) = sq_dead_since s"
  by (auto simp: apply_puppet_step_def Let_def split: prod.split waypoint.split)

lemma is_hostile_cong: "sq_faction s = sq_faction s' \<Longrightarrow> is_hostile h s t = is_hostile h s' t"
  by (simp add: is_hostile_def split: option.split)

lemma target_for_Some: "target_for ts l i = Some t \<Longrightarrow> t \<in> set ts \<and> ct_id t = i \<and> ct_level t = l"
  by (auto simp: target_for_def find_Some_iff)

lemma dist_sq3_eq: "dist_sq3 (s0, s1, s2) (t0, t1, t2) =
    (let dx = sub32 s0 t0; dy = sub32 s1 t1; dz = sub32 s2 t2 in add32 (add32 (mul32 dx dx) (mul32 dy dy)) (mul32 dz dz))"
  by (simp add: dist_sq3_def)

text \<open>The chase squares the difference the other way round; the square is the same.\<close>

lemma fneg_fneg [simp]: "fneg (fneg x) = x"
  by (cases x) simp_all

lemma rnd32_neg: "rnd32 (- q) = fneg (rnd32 q)"
  using less_le_trans [OF pow2_pos, of 128 "rnd 24 (- 149) q"] by (auto simp: rnd32_def fin_or_inf_def rnd_neg)

lemma sub32_swap: "sub32 a b = fneg (sub32 b a)"
  unfolding fsub_def using rnd32_neg [of "_ - _"] by (cases a; cases b) (auto simp: minus_diff_eq simp flip: rnd32_neg)

lemma mul32_neg: "mul32 (fneg x) (fneg x) = mul32 x x"
  by (cases x) simp_all

lemma square_swap: "mul32 (sub32 a b) (sub32 a b) = mul32 (sub32 b a) (sub32 b a)"
  by (metis sub32_swap mul32_neg)

lemma dist_sq3_swap: "dist_sq3 a b = dist_sq3 b a"
  by (cases a; cases b) (simp add: dist_sq3_eq Let_def square_swap)


text \<open>Each branch of the machine keeps the promise.\<close>

lemma swing_swing_ok:
  assumes "sq_id s1 = sq_id s" "sq_pos s1 = sq_pos s" "sq_level s1 = sq_level s" "sq_faction s1 = sq_faction s"
    "sq_last_attack s1 = sq_last_attack s" "cs_enabled step" "sq_state s \<noteq> ADead"
    "t \<in> set (cs_targets step)" "ct_level t = sq_level s" "is_hostile (cs_hostile step) s t"
    "\<not> flt (mul32 (cp_range (with_defaults (cs_params step))) (cp_range (with_defaults (cs_params step)))) (dist_sq3 (sq_pos s) (ct_pos t))"
  shows "swing_ok now step s (snd (swing tg now (with_defaults (cs_params step)) t s1))"
proof -
  have "\<exists>u\<in>set (cs_targets step). ct_id u = ct_id t \<and> ct_level u = sq_level s \<and> is_hostile (cs_hostile step) s u \<and>
      \<not> flt (mul32 (cp_range (with_defaults (cs_params step))) (cp_range (with_defaults (cs_params step)))) (dist_sq3 (sq_pos s) (ct_pos u))"
    using assms by blast
  with assms(1-7) show ?thesis
    by (auto simp: swing_ok_def swing_def fair_swing_def Let_def split: option.split)
qed

lemma step_alert_ok: "swing_ok now step s (snd (step_alert now p s))"
  by (simp add: swing_ok_def step_alert_def)

lemma step_chase_ok:
  assumes "sq_id s1 = sq_id s" "sq_pos s1 = sq_pos s" "sq_level s1 = sq_level s" "sq_faction s1 = sq_faction s"
    "sq_last_attack s1 = sq_last_attack s" "cs_enabled step" "sq_state s \<noteq> ADead"
    "\<And>t. target = Some t \<Longrightarrow> t \<in> set (cs_targets step) \<and> ct_level t = sq_level s \<and> is_hostile (cs_hostile step) s t"
  shows "swing_ok now step s (snd (step_chase tg now (with_defaults (cs_params step)) target dt s1))"
proof (cases target)
  case None
  with assms show ?thesis by (simp add: step_chase_def step_alert_def swing_ok_def)
next
  case (Some t)
  let ?p = "with_defaults (cs_params step)"
  obtain t0 t1 t2 s0 s3 s4 where v: "ct_pos t = (t0, t1, t2)" "sq_pos s1 = (s0, s3, s4)" by (metis prod_cases3)
  have d: "dist_sq3 (sq_pos s) (ct_pos t) = (let dx = sub32 t0 s0; dy = sub32 t1 s3; dz = sub32 t2 s4
      in add32 (add32 (mul32 dx dx) (mul32 dy dy)) (mul32 dz dz))"
    by (rule trans [OF dist_sq3_swap]) (simp only: assms(2) [symmetric] v dist_sq3_eq)
  show ?thesis
  proof (cases "fle (dist_sq3 (sq_pos s) (ct_pos t)) (mul32 (cp_range ?p) (cp_range ?p))")
    case True
    then have "swing_ok now step s (snd (swing tg now ?p t (s1\<lparr>sq_state := AAttack\<rparr>)))"
      using assms Some by (intro swing_swing_ok) (auto dest: fle_not_flt)
    with True Some v d show ?thesis by (simp add: step_chase_def Let_def)
  next
    case False
    with Some v d assms show ?thesis by (simp add: step_chase_def Let_def swing_ok_def)
  qed
qed

lemma nearest_loop_mem:
  "nearest_loop s r h ts best = Some t \<Longrightarrow> (\<exists>d. best = Some (t, d)) \<or> t \<in> set ts \<and> ct_level t = sq_level s \<and> is_hostile h s t"
  by (induction s r h ts best rule: nearest_loop.induct) (fastforce simp: Let_def split: if_splits option.splits)+

lemma nearest_hostile_mem: "nearest_hostile s ts r h = Some t \<Longrightarrow> t \<in> set ts \<and> ct_level t = sq_level s \<and> is_hostile h s t"
  unfolding nearest_hostile_def using nearest_loop_mem by blast

text \<open>With one entry per player, looking an entry up by its id finds it again.\<close>

lemma target_for_same:
  assumes "distinct (map ct_id ts)" "t \<in> set ts"
  shows "target_for ts (ct_level t) (ct_id t) = Some t"
proof -
  obtain u where u: "target_for ts (ct_level t) (ct_id t) = Some u"
    using assms(2) by (cases "target_for ts (ct_level t) (ct_id t)") (auto simp: target_for_def find_None_iff)
  with target_for_Some [OF u] assms show ?thesis by (metis inj_on_eq_iff distinct_map)
qed

lemma step_combat_ok:
  assumes "cs_enabled step" "sq_state s \<noteq> ADead" "distinct (map ct_id (cs_targets step))"
  shows "swing_ok now step s (snd (step_combat tg now step dt s))"
proof (cases "may_fight step s")
  case False
  then show ?thesis by (simp add: step_combat_def swing_ok_def)
next
  case True
  let ?p = "with_defaults (cs_params step)"
  let ?target = "find_target (cs_targets step) (sq_level s) (sq_target s)"
  have keep: "swing_ok now step s (s, [])" by (simp add: swing_ok_def)
  have acq: "swing_ok now step s (snd (acquire tg now step ?p dt s))"
  proof (cases "nearest_hostile s (cs_targets step) (cp_aggro ?p) (cs_hostile step)")
    case None
    then show ?thesis using keep by (simp add: acquire_def)
  next
    case (Some b)
    note b = nearest_hostile_mem [OF Some]
    have "target_for (cs_targets step) (sq_level s) (ct_id b) = Some b"
      using target_for_same [OF assms(3)] b by metis
    with b assms show ?thesis unfolding acquire_def Some Let_def by (auto intro!: step_chase_ok)
  qed
  have t: "t \<in> set (cs_targets step) \<and> ct_level t = sq_level s" if "?target = Some t" for t
    using that target_for_Some by (auto simp: find_target_def split: if_splits)
  have chase: "swing_ok now step s (snd (step_chase tg now ?p ?target dt (s\<lparr>sq_target := i, sq_state := st\<rparr>)))"
    "swing_ok now step s (snd (step_chase tg now ?p ?target dt (s\<lparr>sq_state := st\<rparr>)))"
    "swing_ok now step s (snd (step_chase tg now ?p ?target dt s))"
    if "case ?target of None \<Rightarrow> False | Some t \<Rightarrow> is_hostile (cs_hostile step) s t" for i st
    using that t assms by (intro step_chase_ok; auto split: option.splits)+
  have hit: "swing_ok now step s (snd (swing tg now ?p (the ?target) s))"
    if "case ?target of None \<Rightarrow> False | Some t \<Rightarrow> is_hostile (cs_hostile step) s t"
      "\<not> flt (mul32 (cp_range ?p) (cp_range ?p)) (dist_sq3 (sq_pos s) (ct_pos (the ?target)))"
    using that t assms by (intro swing_swing_ok; auto split: option.splits)
  have idle: "swing_ok now step s (s\<lparr>sq_state := x, sq_target := y, sq_alert_until := z, sq_anim := a\<rparr>, [])"
    "swing_ok now step s (s\<lparr>sq_anim := a\<rparr>, [])" for x y z a by (simp_all add: swing_ok_def)
  from True show ?thesis unfolding step_combat_def Let_def
    using keep acq chase hit idle step_alert_ok by (cases "sq_state s") (simp_all split del: if_split split: if_split)
qed


lemma swing_ok_patrol: "swing_ok now step s (s1, evs) \<Longrightarrow> swing_ok now step s (apply_puppet_step tg now dt s1, evs)"
  by (simp add: swing_ok_def)

lemma live_step_ok:
  assumes "sq_state s \<noteq> ADead" "distinct (map ct_id (cs_targets step))"
  shows "swing_ok now step s (live_step tg now step dt s)"
proof (cases "cs_enabled step")
  case True
  obtain b s1 evs where r: "step_combat tg now step dt s = (b, s1, evs)" by (metis prod_cases3)
  with step_combat_ok [OF True assms, of now tg dt] have "swing_ok now step s (s1, evs)" by simp
  with True r swing_ok_patrol show ?thesis by (cases b) (simp_all add: live_step_def)
qed (simp add: live_step_def swing_ok_def)

lemma is_hostile_online [simp]:
  "is_hostile h (s\<lparr>sq_online := b\<rparr>) t = is_hostile h s t"
  "is_hostile h (s\<lparr>sq_online := b, sq_last_step := l\<rparr>) t = is_hostile h s t"
  by (auto intro!: is_hostile_cong)

lemma swing_ok_online:
  "swing_ok now step (s\<lparr>sq_online := b\<rparr>) r = swing_ok now step s r"
  "swing_ok now step (s\<lparr>sq_online := b, sq_last_step := l\<rparr>) r = swing_ok now step s r"
  by (simp_all add: swing_ok_def fair_swing_def)

text \<open>The corpse of a squad first seen dead at \<open>t\<close>.\<close>

definition dead_since :: "gotime \<Rightarrow> squad \<Rightarrow> gotime" where
  "dead_since now s = (case sq_dead_since s of None \<Rightarrow> now | Some t \<Rightarrow> t)"

lemma dead_step [simp]: "sq_state s = ADead \<Longrightarrow> apply_puppet_step tg now dt s = s\<lparr>sq_anim := (if sq_loop s = [] then anim_idle else anim_death)\<rparr>"
  by (simp add: apply_puppet_step_def)

lemma tick_squad_dead:
  "sq_state s = ADead \<Longrightarrow> tick_squad tg now online step d s =
     (if d \<le> time_sub now (dead_since now s) then None
      else Some (s\<lparr>sq_online := online (sq_id s), sq_dead_since := Some (dead_since now s),
                   sq_anim := (if sq_loop s = [] then anim_idle else anim_death)\<rparr>), [])"
  by (simp add: tick_squad_def dead_since_def Let_def)

lemma tick_squad_live:
  assumes "sq_state s \<noteq> ADead" "distinct (map ct_id (cs_targets step))"
  shows "\<exists>s' evs. tick_squad tg now online step d s = (Some s', evs) \<and> swing_ok now step s (s', evs)"
proof -
  have l: "\<exists>s' evs. (case live_step tg now step dt (s\<lparr>sq_online := x, sq_last_step := y\<rparr>) of (s1, evs) \<Rightarrow> (Some s1, evs)) = (Some s', evs) \<and>
      swing_ok now step s (s', evs)" for x y dt
    using live_step_ok [of "s\<lparr>sq_online := x, sq_last_step := y\<rparr>", OF _ assms(2), of now tg dt] assms(1)
    by (cases "live_step tg now step dt (s\<lparr>sq_online := x, sq_last_step := y\<rparr>)") (simp add: swing_ok_online)
  have o: "\<exists>s' evs. (case live_step tg now step dt (s\<lparr>sq_online := x\<rparr>) of (s1, evs) \<Rightarrow> (Some s1, evs)) = (Some s', evs) \<and>
      swing_ok now step s (s', evs)" for x dt
    using live_step_ok [of "s\<lparr>sq_online := x\<rparr>", OF _ assms(2), of now tg dt] assms(1)
    by (cases "live_step tg now step dt (s\<lparr>sq_online := x\<rparr>)") (simp add: swing_ok_online)
  have p: "swing_ok now step s (apply_puppet_step tg now (Fin 0) (s\<lparr>sq_online := x, sq_last_step := y\<rparr>), [])" for x y
    by (rule swing_ok_patrol) (simp add: swing_ok_def)
  show ?thesis
  proof (cases "online (sq_id s)")
    case True
    with assms(1) l show ?thesis by (simp add: tick_squad_def Let_def)
  next
    case False
    show ?thesis
    proof (cases "sq_last_step s")
      case None
      with False assms(1) p show ?thesis by (simp add: tick_squad_def)
    next
      case (Some t)
      with False assms(1) o l show ?thesis by (simp add: tick_squad_def Let_def)
    qed
  qed
qed

lemma tick_squad_ok:
  assumes "distinct (map ct_id (cs_targets step))" "tick_squad tg now online step d s = (r, evs)"
  shows "r = None \<and> evs = [] \<or> (\<exists>s'. r = Some s' \<and> swing_ok now step s (s', evs))"
proof (cases "sq_state s = ADead")
  case True
  with assms(2) show ?thesis by (auto simp: tick_squad_dead swing_ok_def split: if_splits)
next
  case False
  with tick_squad_live [OF False assms(1), of tg now online d] assms(2) show ?thesis by auto
qed


section \<open>Runs of the manager\<close>

text \<open>Every squad is filed under its id, and the ids in use are below the next one.\<close>

definition squads_ok :: "squad_manager \<Rightarrow> bool" where
  "squads_ok m \<longleftrightarrow> (\<forall>i s. sqm_squads m i = Some s \<longrightarrow> sq_id s = i \<and> i < sqm_next_id m)"

text \<open>What a tick makes of one squad, as the loop composes it.\<close>

lemma tick_events:
  assumes "squads_ok m" "distinct (map ct_id (cs_targets step))"
  shows "swings_of tg now online step m i = [] \<or>
    (\<exists>s s' e. sqm_squads m i = Some s \<and> sq_puppet s \<and> swings_of tg now online step m i = [e] \<and> ev_squad e = i \<and> fair_swing now step s e \<and>
       visited tg now online step m i = Some s' \<and> sq_last_attack s' = Some now)"
proof (cases "sqm_squads m i")
  case None
  then show ?thesis by (simp add: swings_of_def)
next
  case (Some s)
  obtain r evs where r: "tick_squad tg now online step (corpse_delay_or_default m) s = (r, evs)" by (metis prod.collapse)
  show ?thesis
  proof (cases "sq_puppet s \<and> evs \<noteq> []")
    case False
    then show ?thesis using Some r by (auto simp: swings_of_def)
  next
    case True
    from tick_squad_ok [OF assms(2) r] True obtain s' e where e: "r = Some s'" "evs = [e]" "fair_swing now step s e" "sq_last_attack s' = Some now"
      by (auto simp: swing_ok_def)
    have "ev_squad e = i" using e(3) assms(1) Some by (simp add: fair_swing_def Let_def squads_ok_def)
    with Some r True e show ?thesis by (simp add: swings_of_def visited_def)
  qed
qed

lemma visited_id:
  assumes "squads_ok m" "distinct (map ct_id (cs_targets step))" "visited tg now online step m i = Some s'"
  shows "\<exists>s. sqm_squads m i = Some s \<and> sq_id s' = i \<and> (swings_of tg now online step m i = [] \<longrightarrow> sq_last_attack s' = sq_last_attack s)"
proof (cases "sqm_squads m i")
  case None
  with assms(3) show ?thesis by (simp add: visited_def)
next
  case (Some s)
  obtain r evs where r: "tick_squad tg now online step (corpse_delay_or_default m) s = (r, evs)" by (metis prod.collapse)
  have "sq_id s = i" using assms(1) Some by (simp add: squads_ok_def)
  with tick_squad_ok [OF assms(2) r] assms(3) Some r show ?thesis
    by (auto simp: swing_ok_def visited_def swings_of_def)
qed

lemma ev_squads:
  assumes "squads_ok m" "distinct (map ct_id (cs_targets step))"
  shows "map ev_squad (swings_of tg now online step m i) = [] \<or> map ev_squad (swings_of tg now online step m i) = [i]"
  using tick_events [OF assms, of tg now online i] by auto

lemma distinct_ev_squads:
  assumes "squads_ok m" "distinct (map ct_id (cs_targets step))" "distinct ks"
  shows "distinct (map ev_squad (concat (map (swings_of tg now online step m) ks))) \<and>
    set (map ev_squad (concat (map (swings_of tg now online step m) ks))) \<subseteq> set ks"
  using assms(3)
proof (induction ks)
  case (Cons i ks)
  obtain E where E: "map ev_squad (concat (map (swings_of tg now online step m) ks)) = E" by blast
  have "map ev_squad (concat (map (swings_of tg now online step m) (i # ks))) = map ev_squad (swings_of tg now online step m i) @ E"
    by (simp flip: E)
  with ev_squads [OF assms(1,2), of tg now online i] Cons show ?case unfolding E by auto
qed simp

text \<open>C25: Melee swings are fair. Every swing a tick of the AI reports comes from a puppet that was alive
  when the tick began, with combat enabled, its cooldown over (or its first swing), at a target of
  its own level that its faction is hostile to and that is not out of melee reach; it carries the
  configured damage and the squad's position. No squad swings twice in a tick, and the tick records
  the time of the swing for the next cooldown.\<close>

theorem swings_are_fair:
  assumes "squads_ok m" "distinct (map ct_id (cs_targets step))" "distinct ks"
    "tick_puppets_with_combat tg now online step ks m = (m', ds, evs)"
  shows "distinct (map ev_squad evs) \<and> (\<forall>e\<in>set evs. \<exists>s s'. sqm_squads m (ev_squad e) = Some s \<and> sq_puppet s \<and>
    fair_swing now step s e \<and> sqm_squads m' (ev_squad e) = Some s' \<and> sq_last_attack s' = Some now)"
proof -
  note r = tick_result(1,3) [OF assms(3,4)]
  have "\<exists>s s'. sqm_squads m (ev_squad e) = Some s \<and> sq_puppet s \<and> fair_swing now step s e \<and>
      sqm_squads m' (ev_squad e) = Some s' \<and> sq_last_attack s' = Some now" if e: "e \<in> set evs" for e
  proof -
    from e r(2) obtain i where i: "i \<in> set ks" "e \<in> set (swings_of tg now online step m i)" by auto
    with tick_events [OF assms(1,2), of tg now online i] show ?thesis by (auto simp: r(1))
  qed
  with distinct_ev_squads [OF assms(1-3)] r(2) show ?thesis by simp
qed


text \<open>A run of the manager, with its swings: when, and whose. \<open>c\<close> is the cooldown the configuration
  never goes below; puppets are registered as long as the ids last. \<open>SetSquadState\<close>, which the server
  never calls, is used only when \<open>b\<close> is set.\<close>

inductive squad_run :: "trig \<Rightarrow> bool \<Rightarrow> duration \<Rightarrow> squad_manager \<Rightarrow> (gotime \<times> u32) list \<Rightarrow> bool" for tg b c where
  run_new: "squad_run tg b c new_squad_manager []"
| run_tick: "squad_run tg b c m h \<Longrightarrow> distinct ks \<Longrightarrow> distinct (map ct_id (cs_targets step)) \<Longrightarrow>
    c \<le> cp_cooldown (with_defaults (cs_params step)) \<Longrightarrow>
    tick_puppets_with_combat tg now online step ks m = (m', ds, evs) \<Longrightarrow> squad_run tg b c m' (h @ map (\<lambda>e. (now, ev_squad e)) evs)"
| run_register: "squad_run tg b c m h \<Longrightarrow> sqm_next_id m < - 1 \<Longrightarrow> squad_run tg b c (snd (register_puppet tg d m)) h"
| run_damage: "squad_run tg b c m h \<Longrightarrow> squad_run tg b c (snd (apply_puppet_damage i x m)) h"
| run_despawn: "squad_run tg b c m h \<Longrightarrow> squad_run tg b c (despawn_squad i m) h"
| run_state: "squad_run tg b c m h \<Longrightarrow> b \<Longrightarrow> squad_run tg b c (set_squad_state i st m) h"
| run_delay: "squad_run tg b c m h \<Longrightarrow> squad_run tg b c (set_corpse_delay x m) h"
| run_until: "squad_run tg b c m h \<Longrightarrow> squad_run tg b c (set_puppet_run i u m) h"
| run_position: "squad_run tg b c m h \<Longrightarrow> squad_run tg b c (snd (set_puppet_position i p m)) h"

text \<open>The operations other than a tick and a registration leave the cooldowns alone.\<close>

definition quiet :: "squad_manager \<Rightarrow> squad_manager \<Rightarrow> bool" where
  "quiet m m' \<longleftrightarrow> sqm_next_id m' = sqm_next_id m \<and> (\<forall>i s'. sqm_squads m' i = Some s' \<longrightarrow>
     (\<exists>s. sqm_squads m i = Some s \<and> sq_id s' = sq_id s \<and> sq_last_attack s' = sq_last_attack s))"

lemma quiet_ops:
  "quiet m (snd (apply_puppet_damage i x m))" "quiet m (despawn_squad i m)" "quiet m (set_squad_state i st m)"
  "quiet m (set_corpse_delay d m)" "quiet m (set_puppet_run i u m)" "quiet m (snd (set_puppet_position i p m))"
  by (auto simp: quiet_def apply_puppet_damage_def despawn_squad_def set_squad_state_def set_corpse_delay_def set_puppet_run_def
    set_puppet_position_def upd_squad_def Let_def split: option.splits if_splits)

definition spaced :: "duration \<Rightarrow> (gotime \<times> u32) list \<Rightarrow> bool" where
  "spaced c = sorted_wrt (\<lambda>a b. snd a = snd b \<longrightarrow> c \<le> fst b - fst a)"

definition cooldowns :: "duration \<Rightarrow> squad_manager \<Rightarrow> (gotime \<times> u32) list \<Rightarrow> bool" where
  "cooldowns c m h \<longleftrightarrow> squads_ok m \<and> spaced c h \<and> (\<forall>a\<in>set h. snd a < sqm_next_id m \<and>
     (\<forall>s. sqm_squads m (snd a) = Some s \<longrightarrow> (\<exists>l. sq_last_attack s = Some l \<and> fst a \<le> l)))"

lemma cooldowns_quiet: "quiet m m' \<Longrightarrow> cooldowns c m h \<Longrightarrow> cooldowns c m' h"
proof -
  assume q: "quiet m m'" and c: "cooldowns c m h"
  have s: "\<exists>s. sqm_squads m i = Some s \<and> sq_id s' = sq_id s \<and> sq_last_attack s' = sq_last_attack s" "sqm_next_id m' = sqm_next_id m"
    if "sqm_squads m' i = Some s'" for i s'
    using that q by (simp_all add: quiet_def)
  have "squads_ok m'" using s c by (fastforce simp: squads_ok_def cooldowns_def)
  moreover have "sqm_next_id m' = sqm_next_id m" using q by (simp add: quiet_def)
  ultimately show ?thesis using c s(1) by (fastforce simp: cooldowns_def)
qed

lemma time_sub_ge: "0 < c \<Longrightarrow> c \<le> time_sub t u \<Longrightarrow> c \<le> t - u"
  by (auto simp: time_sub_def sat64_def split: if_splits)

lemma cooldowns_register:
  assumes "cooldowns c m h" "sqm_next_id m < - 1"
  shows "cooldowns c (snd (register_puppet tg d m)) h"
proof -
  have w: "sqm_next_id m < sqm_next_id m + 1"
    using assms(2) by unat_arith
  have "i < sqm_next_id m + 1" if "i < sqm_next_id m" for i using that w by simp
  with assms(1) w show ?thesis
    by (auto simp: cooldowns_def squads_ok_def register_puppet_def Let_def upd_squad_def)
qed

lemma reported_swing:
  assumes "squads_ok m" "distinct (map ct_id (cs_targets step))" "e \<in> set (concat (map (swings_of tg now online step m) ks))"
  shows "e \<in> set (swings_of tg now online step m (ev_squad e)) \<and> ev_squad e \<in> set ks"
proof -
  from assms(3) obtain i where "i \<in> set ks" "e \<in> set (swings_of tg now online step m i)" by auto
  with tick_events [OF assms(1,2), of tg now online i] show ?thesis by auto
qed

lemma cooldown_over:
  assumes "cooldowns c m h" "0 < c" "distinct (map ct_id (cs_targets step))" "c \<le> cp_cooldown (with_defaults (cs_params step))"
    "(t, i) \<in> set h" "e \<in> set (swings_of tg now online step m i)"
  shows "t \<le> now - c"
proof -
  have ok: "squads_ok m" using assms(1) by (simp add: cooldowns_def)
  obtain s where s: "sqm_squads m i = Some s" "fair_swing now step s e"
    using assms(6) tick_events [OF ok assms(3), of tg now online i] by auto
  then obtain l where "sq_last_attack s = Some l" "t \<le> l" using assms(1,5) by (fastforce simp: cooldowns_def)
  moreover from this s(2) assms(4) have "c \<le> time_sub now l" by (simp add: fair_swing_def Let_def)
  ultimately show ?thesis using time_sub_ge [OF assms(2)] by fastforce
qed

lemma squads_ok_tick:
  assumes "squads_ok m" "distinct (map ct_id (cs_targets step))"
  shows "squads_ok (m\<lparr>sqm_squads := (\<lambda>j. if j \<in> set ks then visited tg now online step m j else sqm_squads m j)\<rparr>)"
  unfolding squads_ok_def
proof (intro allI impI)
  let ?m = "m\<lparr>sqm_squads := (\<lambda>j. if j \<in> set ks then visited tg now online step m j else sqm_squads m j)\<rparr>"
  fix i s assume "sqm_squads ?m i = Some s"
  then show "sq_id s = i \<and> i < sqm_next_id ?m"
    using assms(1) visited_id [OF assms, of tg now online i s] by (auto simp: squads_ok_def split: if_splits)
qed

text \<open>After the tick every swing so far, the new ones too, is no later than its squad's last attack.\<close>

lemma last_attack_tick:
  assumes "cooldowns c m h" "0 < c" "distinct (map ct_id (cs_targets step))" "c \<le> cp_cooldown (with_defaults (cs_params step))"
    "(t, i) \<in> set h \<or> t = now \<and> (\<exists>e\<in>set (concat (map (swings_of tg now online step m) ks)). ev_squad e = i)"
    "(if i \<in> set ks then visited tg now online step m i else sqm_squads m i) = Some s"
  shows "\<exists>l. sq_last_attack s = Some l \<and> t \<le> l"
proof -
  have ok: "squads_ok m" using assms(1) by (simp add: cooldowns_def)
  show ?thesis
  proof (cases "i \<in> set ks \<and> swings_of tg now online step m i \<noteq> []")
    case True
    then obtain e where "e \<in> set (swings_of tg now online step m i)" by (cases "swings_of tg now online step m i") auto
    then have "t \<le> now" using assms(2,5) cooldown_over [OF assms(1-4), of t i e tg now online] by auto
    moreover have "sq_last_attack s = Some now"
      using True assms(6) tick_events [OF ok assms(3), of tg now online i] by auto
    ultimately show ?thesis by simp
  next
    case False
    then have "(t, i) \<in> set h" using assms(5) reported_swing [OF ok assms(3), of _ tg now online ks] by fastforce
    moreover have "\<exists>s0. sqm_squads m i = Some s0 \<and> sq_last_attack s = sq_last_attack s0"
      using assms(6) False visited_id [OF ok assms(3), of tg now online i s] by (auto split: if_splits)
    ultimately show ?thesis using assms(1) by (fastforce simp: cooldowns_def)
  qed
qed

lemma cooldowns_tick:
  assumes "cooldowns c m h" "0 < c" "distinct ks" "distinct (map ct_id (cs_targets step))"
    "c \<le> cp_cooldown (with_defaults (cs_params step))" "tick_puppets_with_combat tg now online step ks m = (m', ds, evs)"
  shows "cooldowns c m' (h @ map (\<lambda>e. (now, ev_squad e)) evs)"
proof -
  have ok: "squads_ok m" using assms(1) by (simp add: cooldowns_def)
  note m' = tick_result(1) [OF assms(3,6)] and evs = tick_result(3) [OF assms(3,6)]
  note ev = reported_swing [OF ok assms(4), of _ tg now online ks, folded evs]
  have new: "sorted_wrt (\<lambda>a b. snd a = snd b \<longrightarrow> c \<le> fst b - fst a) (map (\<lambda>e. (now, ev_squad e)) evs)"
    using distinct_ev_squads [OF ok assms(4,3), of tg now online, folded evs]
    by (induction evs) auto
  have "c \<le> now - fst a" if "a \<in> set h" "e \<in> set evs" "snd a = ev_squad e" for a e
  proof -
    have "(fst a, ev_squad e) \<in> set h" using that(1) by (simp flip: that(3))
    then show ?thesis using cooldown_over [OF assms(1,2,4,5), of "fst a" "ev_squad e" e tg now online] ev [OF that(2)] by simp
  qed
  with assms(1) new have "spaced c (h @ map (\<lambda>e. (now, ev_squad e)) evs)"
    unfolding cooldowns_def spaced_def sorted_wrt_append by simp
  moreover have "snd a < sqm_next_id m' \<and> (\<forall>s. sqm_squads m' (snd a) = Some s \<longrightarrow> (\<exists>l. sq_last_attack s = Some l \<and> fst a \<le> l))"
    if a: "a \<in> set (h @ map (\<lambda>e. (now, ev_squad e)) evs)" for a
  proof
    have "(fst a, snd a) \<in> set h \<or> fst a = now \<and> (\<exists>e\<in>set evs. ev_squad e = snd a)" using a by auto
    then show "\<forall>s. sqm_squads m' (snd a) = Some s \<longrightarrow> (\<exists>l. sq_last_attack s = Some l \<and> fst a \<le> l)"
      using last_attack_tick [OF assms(1,2,4,5), of "fst a" "snd a" now tg online ks, folded evs] by (simp add: m')
    show "snd a < sqm_next_id m'"
      using a assms(1) ev tick_events [OF ok assms(4), of tg now online "snd a"] ok by (fastforce simp: m' cooldowns_def squads_ok_def)
  qed
  ultimately show ?thesis using squads_ok_tick [OF ok assms(4)] unfolding cooldowns_def m' by blast
qed

text \<open>C24: A squad's swings are at least the cooldown apart. Whatever is done to the manager between ticks
  (registrations while the ids last, damage, despawns, state changes), whatever the clock does, and
  whatever the targets are: if no tick runs with a cooldown below \<open>c\<close>, any two swings of one squad are
  at least \<open>c\<close> apart, in the order they are reported.\<close>

theorem swings_are_spaced:
  assumes "squad_run tg b c m h" "0 < c"
  shows "sorted_wrt (\<lambda>a b. snd a = snd b \<longrightarrow> c \<le> fst b - fst a) h"
proof -
  from assms(1) have "cooldowns c m h"
  proof induction
    case run_new
    show ?case by (simp add: cooldowns_def squads_ok_def spaced_def new_squad_manager_def)
  next
    case (run_tick m h ks step now online m' ds evs)
    then show ?case using cooldowns_tick assms(2) by blast
  qed (auto intro: cooldowns_quiet quiet_ops cooldowns_register)
  then show ?thesis by (simp add: cooldowns_def spaced_def)
qed


section \<open>Corpses\<close>

text \<open>Several ticks in a row, and the squads they released.\<close>

record tick_input =
  ti_now :: gotime
  ti_online :: "u32 \<Rightarrow> bool"
  ti_step :: combat_step
  ti_order :: "u32 list"

fun run_ticks :: "trig \<Rightarrow> tick_input list \<Rightarrow> squad_manager \<Rightarrow> squad_manager \<times> u32 list" where
  "run_ticks tg [] m = (m, [])"
| "run_ticks tg (t # ts) m = (case tick_puppets_with_combat tg (ti_now t) (ti_online t) (ti_step t) (ti_order t) m of
     (m1, ds, _) \<Rightarrow> (case run_ticks tg ts m1 of (m2, ds2) \<Rightarrow> (m2, ds @ ds2)))"

lemma tick_corpse_delay: "distinct ks \<Longrightarrow> tick_puppets_with_combat tg now online step ks m = (m', ds, evs) \<Longrightarrow>
    corpse_delay_or_default m' = corpse_delay_or_default m"
  using tick_result(1) [of ks tg now online step m m' ds evs] by (simp add: corpse_delay_or_default_def)

lemma tick_absent:
  assumes "distinct ks" "tick_puppets_with_combat tg now online step ks m = (m', ds, evs)" "sqm_squads m i = None"
  shows "sqm_squads m' i = None \<and> i \<notin> set ds"
  using assms(3) unfolding tick_result(1,2) [OF assms(1,2)] by (simp add: visited_def)

lemma run_ticks_absent:
  "\<forall>t\<in>set ts. distinct (ti_order t) \<Longrightarrow> sqm_squads m i = None \<Longrightarrow> run_ticks tg ts m = (m', ds) \<Longrightarrow> i \<notin> set ds \<and> sqm_squads m' i = None"
proof (induction ts arbitrary: m ds)
  case (Cons t ts)
  obtain m1 ds1 evs where t: "tick_puppets_with_combat tg (ti_now t) (ti_online t) (ti_step t) (ti_order t) m = (m1, ds1, evs)"
    by (metis prod_cases3)
  obtain ds2 where r: "run_ticks tg ts m1 = (m', ds2)" "ds = ds1 @ ds2" using Cons.prems(3) t by (auto split: prod.splits)
  from tick_absent [OF _ t Cons.prems(2)] Cons.prems(1) have "sqm_squads m1 i = None \<and> i \<notin> set ds1" by simp
  with Cons.IH [OF _ _ r(1)] Cons.prems(1) r(2) show ?case by simp
qed simp

text \<open>A dead puppet in one tick: it stays as it lies, or it is released.\<close>

lemma tick_corpse:
  assumes "distinct ks" "i \<in> set ks" "tick_puppets_with_combat tg now online step ks m = (m', ds, evs)"
    "sqm_squads m i = Some s" "sq_puppet s" "sq_state s = ADead" "dead_since now s = t0"
  shows "(if corpse_delay_or_default m \<le> time_sub now t0 then sqm_squads m' i = None
       else \<exists>s'. sqm_squads m' i = Some s' \<and> sq_puppet s' \<and> sq_state s' = ADead \<and> sq_dead_since s' = Some t0 \<and> sq_pos s' = sq_pos s) \<and>
    count_list ds i = (if corpse_delay_or_default m \<le> time_sub now t0 then 1 else 0)"
proof -
  note r = tick_result(1,2) [OF assms(1,3)]
  have v: "visited tg now online step m i = (if corpse_delay_or_default m \<le> time_sub now t0 then None
      else Some (s\<lparr>sq_online := online (sq_id s), sq_dead_since := Some t0, sq_anim := (if sq_loop s = [] then anim_idle else anim_death)\<rparr>))"
    using assms(4-7) by (simp add: visited_def tick_squad_dead)
  have "distinct ds" using assms(1) r(2) by simp
  then have "count_list ds i = (if i \<in> set ds then 1 else 0)"
    by (induction ds) auto
  with v assms(2,4-7) show ?thesis by (auto simp: r)
qed

text \<open>The instant a dead squad is first seen dead: the one recorded, or that of the first tick.\<close>

definition seen_dead :: "squad \<Rightarrow> tick_input list \<Rightarrow> gotime" where
  "seen_dead s ts = (case ts of [] \<Rightarrow> 0 | t # _ \<Rightarrow> dead_since (ti_now t) s)"

text \<open>C26: A corpse is released once, when the corpse delay is over. A puppet found dead, be it at the first of the
  ticks or at an earlier one, keeps its place, dead, through every tick before the delay has passed since it was first
  seen dead; the first tick at or after that drops the squad from the manager and reports it as despawned, and no later
  tick reports it again.\<close>

theorem corpse_released_once:
  assumes "sqm_squads m i = Some s" "sq_puppet s" "sq_state s = ADead"
    "\<forall>t\<in>set ts. distinct (ti_order t) \<and> i \<in> set (ti_order t)" "run_ticks tg ts m = (m', ds)"
  shows "(if \<exists>t\<in>set ts. corpse_delay_or_default m \<le> time_sub (ti_now t) (seen_dead s ts)
      then sqm_squads m' i = None \<and> count_list ds i = 1
      else (\<exists>s'. sqm_squads m' i = Some s' \<and> sq_state s' = ADead \<and> sq_pos s' = sq_pos s) \<and> i \<notin> set ds)"
  using assms
proof (induction ts arbitrary: m s ds)
  case (Cons t ts)
  let ?t0 = "dead_since (ti_now t) s"
  obtain m1 ds1 evs where t: "tick_puppets_with_combat tg (ti_now t) (ti_online t) (ti_step t) (ti_order t) m = (m1, ds1, evs)"
    by (metis prod_cases3)
  obtain ds2 where r: "run_ticks tg ts m1 = (m', ds2)" "ds = ds1 @ ds2" using Cons.prems(5) t by (auto split: prod.splits)
  note c = tick_corpse [OF _ _ t Cons.prems(1-3) refl] tick_corpse_delay [OF _ t]
  have seen: "seen_dead s (t # ts) = ?t0" by (simp add: seen_dead_def)
  show ?case
  proof (cases "corpse_delay_or_default m \<le> time_sub (ti_now t) ?t0")
    case True
    with c Cons.prems(4) have m1: "sqm_squads m1 i = None" "count_list ds1 i = 1" by simp_all
    have "i \<notin> set ds2 \<and> sqm_squads m' i = None" using run_ticks_absent [OF _ m1(1) r(1)] Cons.prems(4) by simp
    with True m1(2) r(2) show ?thesis by (simp add: count_list_0_iff seen)
  next
    case False
    with c(1) Cons.prems(4) obtain s1 where s1: "sqm_squads m1 i = Some s1" "sq_puppet s1" "sq_state s1 = ADead"
        "sq_dead_since s1 = Some ?t0" "sq_pos s1 = sq_pos s" and d1: "count_list ds1 i = 0" by auto
    have d: "corpse_delay_or_default m1 = corpse_delay_or_default m" using c(2) Cons.prems(4) by simp
    have since: "dead_since x s1 = ?t0" for x using s1(4) by (simp add: dead_since_def)
    have e: "(\<exists>x\<in>set ts. corpse_delay_or_default m1 \<le> time_sub (ti_now x) (seen_dead s1 ts)) \<longleftrightarrow>
        (\<exists>x\<in>set (t # ts). corpse_delay_or_default m \<le> time_sub (ti_now x) (seen_dead s (t # ts)))"
      using False by (cases ts) (simp_all add: d since seen_dead_def)
    from Cons.IH [OF s1(1-3) _ r(1)] Cons.prems(4) s1(5) d1 r(2) show ?thesis
      unfolding e by (auto simp: count_list_0_iff split: if_splits)
  qed
qed simp

section \<open>The alert state\<close>

text \<open>A squad reaches Alert only through \<open>stepAlert\<close>, which clears its target.\<close>

definition alert_clear :: "squad \<Rightarrow> bool" where
  "alert_clear s \<longleftrightarrow> (sq_state s = AAlert \<longrightarrow> sq_target s = 0)"


lemma alert_clear_frame [simp]:
  "alert_clear (face_target tg p s) = alert_clear s"
  "alert_clear (apply_puppet_step tg now dt s) = alert_clear s"
  "alert_clear (s\<lparr>sq_anim := a\<rparr>) = alert_clear s" "alert_clear (s\<lparr>sq_last_attack := l\<rparr>) = alert_clear s"
  "alert_clear (s\<lparr>sq_pos := p\<rparr>) = alert_clear s" "alert_clear (s\<lparr>sq_online := o1\<rparr>) = alert_clear s"
  "alert_clear (s\<lparr>sq_last_step := l\<rparr>) = alert_clear s" "alert_clear (s\<lparr>sq_dead_since := l\<rparr>) = alert_clear s"
  by (simp_all add: alert_clear_def face_target_def apply_puppet_step_def Let_def split: prod.split waypoint.split)

lemma swing_alert: "alert_clear s \<Longrightarrow> alert_clear (fst (snd (swing tg now p t s)))"
  by (simp add: swing_def Let_def split: option.split)

lemma step_alert_alert: "alert_clear (fst (snd (step_alert now p s)))"
  by (simp add: step_alert_def alert_clear_def)

lemma step_chase_alert: "alert_clear s \<Longrightarrow> alert_clear (fst (snd (step_chase tg now p target dt s)))"
  unfolding step_chase_def Let_def
  by (auto simp: step_alert_alert swing_alert alert_clear_def [of "s\<lparr>sq_state := AAttack\<rparr>"] simp del: prod.case_eq_if split: option.split prod.split)

lemma step_combat_alert:
  assumes "alert_clear s"
  shows "alert_clear (fst (snd (step_combat tg now step dt s)))"
proof (cases "may_fight step s")
  case False
  then show ?thesis by (simp add: step_combat_def alert_clear_def)
next
  case True
  have n: "alert_clear (s\<lparr>sq_state := st\<rparr>)" "alert_clear (s\<lparr>sq_target := i, sq_state := st\<rparr>)" if "st \<noteq> AAlert" for st i
    using that by (simp_all add: alert_clear_def)
  have p: "alert_clear (s\<lparr>sq_state := APatrol, sq_target := 0, sq_alert_until := None\<rparr>)" by (simp add: alert_clear_def)
  have acq: "alert_clear (fst (snd (acquire tg now step pp dt s)))" for pp
    using assms n by (simp add: acquire_def Let_def step_chase_alert split: option.split)
  show ?thesis unfolding step_combat_def Let_def using True
    by (cases "sq_state s") (simp_all add: acq assms n p step_chase_alert step_alert_alert swing_alert)
qed

lemma tick_squad_alert:
  assumes "alert_clear s" "tick_squad tg now online step d s = (Some s', evs)"
  shows "alert_clear s'"
proof -
  have l: "alert_clear (fst (live_step tg now step dt r))" if "alert_clear r" for dt r
    using step_combat_alert [OF that, of tg now step dt] that
    by (cases "step_combat tg now step dt r"; cases "fst (step_combat tg now step dt r)") (simp_all add: live_step_def)
  show ?thesis
  proof (cases "sq_state s = ADead")
    case True
    with assms(2) show ?thesis by (auto simp: tick_squad_dead alert_clear_def split: if_splits)
  next
    case False
    have e: "s' = fst x" if "(case x of (s1, evs) \<Rightarrow> (Some s1, evs)) = (Some s', evs)" for x
      using that by (cases x) simp
    note r = l [of "s\<lparr>sq_online := x, sq_last_step := y\<rparr>" for x y] l [of "s\<lparr>sq_online := x\<rparr>" for x]
    have "alert_clear (s\<lparr>sq_online := x, sq_last_step := y\<rparr>)" for x y using assms(1) by (simp add: alert_clear_def)
    with assms False r show ?thesis
      by (auto simp: tick_squad_def Let_def split: option.splits if_splits dest!: e)
  qed
qed


lemma squad_run_alert:
  assumes "squad_run tg b c m h" "\<not> b" "sqm_squads m i = Some s"
  shows "alert_clear s"
  using assms
proof (induction arbitrary: i s)
  case (run_tick m h ks step now online m' ds evs)
  show ?case
  proof (cases "i \<in> set ks")
    case True
    with run_tick.prems(2) tick_result(1) [OF run_tick.hyps(2,5)] have v: "visited tg now online step m i = Some s" by simp
    then obtain s0 where s0: "sqm_squads m i = Some s0" by (auto simp: visited_def split: option.splits)
    with run_tick.IH [OF run_tick.prems(1)] have "alert_clear s0" by blast
    with v s0 show ?thesis
      by (cases "tick_squad tg now online step (corpse_delay_or_default m) s0") (auto simp: visited_def tick_squad_alert split: if_splits)
  next
    case False
    with run_tick tick_result(1) [OF run_tick.hyps(2,5)] show ?thesis by auto
  qed
next
  case (run_register m h d)
  then show ?case by (auto simp: register_puppet_def Let_def upd_squad_def alert_clear_def split: if_splits)
next
  case (run_damage m h j x)
  then show ?case
    by (fastforce simp: apply_puppet_damage_def Let_def upd_squad_def alert_clear_def split: if_splits option.splits)
next
  case (run_until m h j u)
  then show ?case by (fastforce simp: set_puppet_run_def upd_squad_def alert_clear_def split: if_splits option.splits)
next
  case (run_position m h j p)
  then show ?case by (fastforce simp: set_puppet_position_def upd_squad_def alert_clear_def split: if_splits option.splits)
qed (auto simp: new_squad_manager_def despawn_squad_def set_corpse_delay_def split: if_splits)

text \<open>C27: An alerted squad is blind. In every state the server's own operations reach, a puppet in the
  Alert state that may fight keeps still and does not swing until its alert is over, whatever targets
  are around it: its target id is zero, so the branch of the state that would take the chase up again
  never runs.\<close>

theorem alert_is_blind:
  assumes "squad_run tg False c m h" "sqm_squads m i = Some s" "sq_state s = AAlert" "may_fight step s"
    "sq_alert_until s = Some u"
  shows "step_combat tg now step dt s = (True, if u \<le> now
     then s\<lparr>sq_state := APatrol, sq_target := 0, sq_alert_until := None, sq_anim := anim_idle\<rparr> else s\<lparr>sq_anim := anim_idle\<rparr>, [])"
  using squad_run_alert [OF assms(1) _ assms(2)] assms(3-5)
  by (simp add: step_combat_def alert_clear_def find_target_def Let_def)

section \<open>Concrete runs\<close>

definition demo_trig :: trig where
  "demo_trig = \<lparr>tg_cos = (\<lambda>x. x), tg_sin = (\<lambda>x. x), tg_atan2 = (\<lambda>x y. x)\<rparr>"

definition demo_puppet :: puppet_def where
  "demo_puppet = \<lparr>pd_dbid = 1, pd_label = ''wolf'', pd_section = ''m_wolf'', pd_faction = ''monster'', pd_level = ''l01'',
     pd_spawn = (Fin 0, Fin 0, Fin 0), pd_patrol_radius = Fin 32, pd_walk = Fin 1, pd_run = Fin 3,
     pd_loop = [Waypoint (Fin 0) (Fin 0) (Fin 0), Waypoint (Fin 1) (Fin 0) (Fin 0)]\<rparr>"

definition demo_step :: combat_step where
  "demo_step = \<lparr>cs_enabled = True, cs_params = cs_params no_combat, cs_hostile = None, cs_gate = None,
     cs_targets = [\<lparr>ct_id = 7, ct_level = ''l01'', ct_pos = (Fin 0, Fin 0, Fin 0), ct_faction = ''stalker''\<rparr>]\<rparr>"

definition demo_manager :: squad_manager where
  "demo_manager = snd (register_puppet demo_trig demo_puppet new_squad_manager)"

definition demo_tick :: "gotime \<Rightarrow> squad_manager \<Rightarrow> squad_manager \<times> u32 list \<times> attack_event list" where
  "demo_tick now m = tick_puppets_with_combat demo_trig now (\<lambda>_. True) demo_step [1] m"


lemma tick_squad_online:
  "online (sq_id s) \<Longrightarrow> sq_state s \<noteq> ADead \<Longrightarrow> tick_squad tg now online step d s =
     map_prod Some id (live_step tg now step (online_dt now (s\<lparr>sq_online := True\<rparr>)) (s\<lparr>sq_online := True, sq_last_step := Some now\<rparr>))"
  by (simp add: tick_squad_def Let_def map_prod_def case_prod_unfold)

definition demo_attacker :: squad where
  "demo_attacker = the (sqm_squads (fst (demo_tick 5 demo_manager)) 1)"

lemma demo_attacker_eq: "demo_attacker = \<lparr>sq_id = 1, sq_dbid = 1, sq_level = ''l01'', sq_pos = (Fin 0, Fin 0, Fin 0), sq_state = AAttack,
               sq_health = Fin 100, sq_faction = ''monster'', sq_puppet = True, sq_label = ''wolf'',
               sq_section = ''m_wolf'', sq_patrol_radius = Fin 32, sq_walk = Fin 1, sq_run = Fin 3, sq_yaw = Fin 0,
               sq_anim = anim_attack, sq_online = True, sq_loop = pd_loop demo_puppet, sq_loop_index = 0, sq_last_step = Some 5,
               sq_run_until = None, sq_target = 7, sq_last_attack = Some 5, sq_alert_until = None, sq_dead_since = None\<rparr>"
  by code_simp

lemma demo_first: "sqm_squads (fst (demo_tick 5 demo_manager)) = [1 \<mapsto> demo_attacker]"
proof -
  obtain m' ds evs where r: "demo_tick 5 demo_manager = (m', ds, evs)" by (metis prod_cases3)
  have d: "sqm_squads demo_manager j = None" if "j \<noteq> 1" for j
    using that by (simp add: demo_manager_def register_puppet_def new_squad_manager_def upd_squad_def Let_def)
  have "sqm_squads m' j = None" if "j \<noteq> 1" for j
    using tick_absent [OF _ r [unfolded demo_tick_def] d [OF that]] by simp
  moreover have "sqm_squads (fst (demo_tick 5 demo_manager)) 1 = Some demo_attacker"
    unfolding demo_attacker_eq by code_simp
  ultimately show ?thesis using r by (auto simp: fun_eq_iff)
qed

lemma demo_second:
  "tick_puppets_with_combat demo_trig now (\<lambda>_. True) step [1] (fst (demo_tick 5 demo_manager)) =
   (case live_step demo_trig now step (online_dt now demo_attacker) (demo_attacker\<lparr>sq_last_step := Some now\<rparr>) of
      (s, evs) \<Rightarrow> ((fst (demo_tick 5 demo_manager))\<lparr>sqm_squads := [1 \<mapsto> s]\<rparr>, [], evs))"
proof -
  have a: "sq_puppet demo_attacker" "sq_state demo_attacker \<noteq> ADead" "demo_attacker\<lparr>sq_online := True\<rparr> = demo_attacker"
    "demo_attacker\<lparr>sq_online := True, sq_last_step := l\<rparr> = demo_attacker\<lparr>sq_last_step := l\<rparr>" for l
    by (simp_all add: demo_attacker_eq)
  show ?thesis
    by (simp add: tick_puppets_with_combat_def demo_first a tick_squad_online split: prod.split)
qed

lemma demo_targets: "distinct (map ct_id (cs_targets demo_step))" "cp_cooldown (with_defaults (cs_params demo_step)) = 1500000000"
  by code_simp+

lemma demo_manager_run: "squad_run demo_trig False c demo_manager []"
  unfolding demo_manager_def by (rule run_register [OF run_new]) (simp add: new_squad_manager_def, code_simp)

lemma demo_manager_ok: "squads_ok demo_manager"
  by (auto simp: squads_ok_def demo_manager_def register_puppet_def new_squad_manager_def upd_squad_def Let_def)

definition demo_swings :: "gotime \<Rightarrow> squad_manager \<Rightarrow> (gotime \<times> u32) list" where
  "demo_swings now m = map (\<lambda>e. (now, ev_squad e)) (snd (snd (demo_tick now m)))"

lemma demo_tick_run:
  assumes "squad_run demo_trig False 1500000000 m h"
  shows "squad_run demo_trig False 1500000000 (fst (demo_tick now m)) (h @ demo_swings now m)"
proof -
  obtain m' ds evs where r: "demo_tick now m = (m', ds, evs)" by (metis prod_cases3)
  have "squad_run demo_trig False 1500000000 m' (h @ map (\<lambda>e. (now, ev_squad e)) evs)"
    by (rule run_tick [OF assms, where ks = "[1]" and step = demo_step]) (use r demo_targets in \<open>simp_all add: demo_tick_def\<close>)
  with r show ?thesis by (simp add: demo_swings_def)
qed

lemma swings_are_fair_witness:
  "(case demo_tick 5 demo_manager of (m', ds, evs) \<Rightarrow> evs \<noteq> [] \<and> (\<forall>e\<in>set evs. \<exists>s s'. sqm_squads demo_manager (ev_squad e) = Some s \<and>
     sq_puppet s \<and> fair_swing 5 demo_step s e \<and> sqm_squads m' (ev_squad e) = Some s' \<and> sq_last_attack s' = Some 5))"
proof -
  obtain m' ds evs where r: "demo_tick 5 demo_manager = (m', ds, evs)" by (metis prod_cases3)
  have "snd (snd (demo_tick 5 demo_manager)) \<noteq> []" by code_simp
  with swings_are_fair [OF demo_manager_ok demo_targets(1) _ r [unfolded demo_tick_def]] r show ?thesis by simp
qed

lemma demo_swing_again:
  "map ev_squad (snd (live_step demo_trig 1500000005 demo_step dt (demo_attacker\<lparr>sq_last_step := Some 1500000005\<rparr>))) = [1]"
  unfolding demo_attacker_eq by code_simp

lemma swings_are_spaced_witness:
  "demo_swings 5 demo_manager @ demo_swings 1500000005 (fst (demo_tick 5 demo_manager)) = [(5, 1), (1500000005, 1)] \<and>
   (1500000000::int) \<le> 1500000005 - 5"
proof -
  have e: "demo_swings 5 demo_manager = [(5, 1)]" by code_simp
  have f: "demo_swings 1500000005 (fst (demo_tick 5 demo_manager)) = [(1500000005, 1)]"
    using demo_swing_again [of "online_dt 1500000005 demo_attacker"]
    by (auto simp: demo_swings_def demo_tick_def [of 1500000005] demo_second split: prod.split)
  have "squad_run demo_trig False 1500000000 (fst (demo_tick 1500000005 (fst (demo_tick 5 demo_manager))))
      (([] @ demo_swings 5 demo_manager) @ demo_swings 1500000005 (fst (demo_tick 5 demo_manager)))"
    by (intro demo_tick_run demo_manager_run)
  from swings_are_spaced [OF this] e f show ?thesis by simp
qed

text \<open>A puppet killed, first seen dead at 5, and its corpse at 4 and at 5 seconds later.\<close>

definition demo_corpse :: squad_manager where
  "demo_corpse = snd (apply_puppet_damage 1 (Fin 100) demo_manager)"

definition demo_input :: "gotime \<Rightarrow> tick_input" where
  "demo_input now = \<lparr>ti_now = now, ti_online = (\<lambda>_. True), ti_step = demo_step, ti_order = [1]\<rparr>"

lemma demo_corpse: "(case sqm_squads demo_corpse 1 of None \<Rightarrow> False
    | Some s \<Rightarrow> sq_puppet s \<and> sq_state s = ADead \<and> sq_dead_since s = None) \<and> corpse_delay_or_default demo_corpse = 5000000000"
  by code_simp

lemma corpse_released_once_witness:
  "(\<exists>s. sqm_squads (fst (run_ticks demo_trig [demo_input 5, demo_input 4000000005] demo_corpse)) 1 = Some s \<and> sq_state s = ADead) \<and>
   count_list (snd (run_ticks demo_trig [demo_input 5, demo_input 4000000005, demo_input 5000000005, demo_input 6000000005] demo_corpse)) 1 = 1"
proof -
  obtain s where s: "sqm_squads demo_corpse 1 = Some s" "sq_puppet s" "sq_state s = ADead" "sq_dead_since s = None"
    using demo_corpse by (cases "sqm_squads demo_corpse 1") auto
  note d = conjunct2 [OF demo_corpse]
  have t: "time_sub 5 5 = 0" "time_sub 4000000005 5 = 4000000000" "time_sub 5000000005 5 = 5000000000" "time_sub 6000000005 5 = 6000000000"
    by (simp_all add: time_sub_def sat64_def)
  have seen: "seen_dead s (demo_input 5 # ts) = 5" for ts using s(4) by (simp add: seen_dead_def dead_since_def demo_input_def)
  obtain ma da where a: "run_ticks demo_trig [demo_input 5, demo_input 4000000005] demo_corpse = (ma, da)" by (metis prod.collapse)
  obtain mb db where b: "run_ticks demo_trig [demo_input 5, demo_input 4000000005, demo_input 5000000005, demo_input 6000000005] demo_corpse = (mb, db)"
    by (metis prod.collapse)
  have "\<exists>s. sqm_squads ma 1 = Some s \<and> sq_state s = ADead"
    using corpse_released_once [OF s(1-3) _ a] unfolding seen by (auto simp: demo_input_def d t)
  moreover have "count_list db 1 = 1"
    using corpse_released_once [OF s(1-3) _ b] unfolding seen by (auto simp: demo_input_def d t)
  ultimately show ?thesis using a b by simp
qed

text \<open>After its swing the target leaves the level: the puppet is alerted; the target is back at once.\<close>

definition demo_alert :: squad_manager where
  "demo_alert = fst (tick_puppets_with_combat demo_trig 6 (\<lambda>_. True) (demo_step\<lparr>cs_targets := []\<rparr>) [1] (fst (demo_tick 5 demo_manager)))"

lemma demo_goes_alert:
  "(case fst (live_step demo_trig 6 (demo_step\<lparr>cs_targets := []\<rparr>) dt (demo_attacker\<lparr>sq_last_step := Some 6\<rparr>)) of
     s \<Rightarrow> sq_state s = AAlert \<and> sq_alert_until s = Some 10000000006)"
  unfolding demo_attacker_eq by code_simp

lemma demo_alert: "\<exists>s. sqm_squads demo_alert 1 = Some s \<and> sq_state s = AAlert \<and> sq_alert_until s = Some 10000000006"
  using demo_goes_alert [of "online_dt 6 demo_attacker"] by (auto simp: demo_alert_def demo_second split: prod.split)

lemma alert_is_blind_witness:
  "\<exists>s. sqm_squads demo_alert 1 = Some s \<and> step_combat demo_trig 7 demo_step (Fin 0) s = (True, s\<lparr>sq_anim := anim_idle\<rparr>, [])"
proof -
  obtain m' ds evs where r: "tick_puppets_with_combat demo_trig 6 (\<lambda>_. True) (demo_step\<lparr>cs_targets := []\<rparr>) [1]
      (fst (demo_tick 5 demo_manager)) = (m', ds, evs)" by (metis prod_cases3)
  have "squad_run demo_trig False 1500000000 m' (([] @ demo_swings 5 demo_manager) @ map (\<lambda>e. (6, ev_squad e)) evs)"
    by (rule run_tick [OF demo_tick_run [OF demo_manager_run] _ _ _ r]) (use demo_targets(2) in simp_all)
  then have run: "squad_run demo_trig False 1500000000 demo_alert (([] @ demo_swings 5 demo_manager) @ map (\<lambda>e. (6, ev_squad e)) evs)"
    using r by (simp add: demo_alert_def)
  obtain s where s: "sqm_squads demo_alert 1 = Some s" "sq_state s = AAlert" "sq_alert_until s = Some 10000000006"
    using demo_alert by blast
  have "may_fight demo_step s" by (simp add: may_fight_def demo_step_def)
  from alert_is_blind [OF run s(1,2) this s(3), of 7 "Fin 0"] s(1) show ?thesis by simp
qed

end
