(* ===== verification/Occluders.thy ===== *)
theory Occluders
  imports Wire
begin

text \<open>
  Line of sight: internal/los (format.go and los.go without \<open>Build\<close>, which the server never calls)
  and the per-level cache of game/los_gate.go. A file system is a function from a path to the bytes
  of the file. An index out of range and the step guard of \<open>SegmentBlocked\<close> are panics: the value
  \<open>None\<close>. The conversion \<open>int(math.Floor(f))\<close> of a value out of range is the smallest integer, as
  on amd64.

  The properties: whatever bytes a file has, what \<open>parse\<close> accepts is well-formed; a query between
  finite points over well-formed occluders never panics, and blocks only on a triangle; a saved
  file is read back; the cache of the gate stays bounded whatever levels clients name, and no level
  name leads out of the data directory.
\<close>

type_synonym vec = "f32 \<times> f32 \<times> f32"

record occluders =
  oc_min :: vec
  oc_max :: vec
  oc_origin :: vec
  oc_cell_size :: f32
  oc_gx :: int
  oc_gz :: int
  oc_scale :: vec
  oc_verts :: "16 word list"
  oc_tris :: "u32 list"
  oc_cell_start :: "u32 list"
  oc_cell_tris :: "u32 list"
  oc_file_bytes :: int

datatype los_error = TooLarge | TooSmall | BadMagic | BadVersion | BadEncoding | BadFlags | BadWidth | TooManyElements
  | InconsistentCounts | BadGrid | GridTooLarge | Truncated | TruncatedRefs | TooManyRefs | BadCellSize | BadBounds
  | InvertedBounds | BadScale | TriangleRange | BadCellTable | NotMonotonic | CellRange | NoFile

section \<open>The file format\<close>

definition header_size :: nat where "header_size = 88"
definition max_file_bytes :: nat where "max_file_bytes = 268435456"
definition max_vertices :: nat where "max_vertices = 50000000"
definition max_triangles :: nat where "max_triangles = 50000000"
definition max_grid_dim :: nat where "max_grid_dim = 1000000"
definition max_cells :: nat where "max_cells = 67108864"
definition max_cell_refs :: nat where "max_cell_refs = 400000000"

definition index_width :: "nat \<Rightarrow> nat" where
  "index_width n = (if n \<le> 0xFFFF then 2 else if n \<le> 0xFFFFFF then 3 else 4)"

definition vertex_count :: "occluders \<Rightarrow> nat" where
  "vertex_count occ = length (oc_verts occ) div 3"

definition triangle_count :: "occluders \<Rightarrow> nat" where
  "triangle_count occ = length (oc_tris occ) div 3"

definition occ_width :: "occluders \<Rightarrow> nat" where
  "occ_width occ = index_width (max (vertex_count occ) (triangle_count occ))"

definition n_cells :: "occluders \<Rightarrow> nat" where
  "n_cells occ = nat (oc_gx occ * oc_gz occ)"

definition encoded_size :: "occluders \<Rightarrow> nat" where
  "encoded_size occ = header_size + vertex_count occ * 6 + triangle_count occ * 3 * occ_width occ +
     (n_cells occ + 1) * 4 + length (oc_cell_tris occ) * occ_width occ"

text \<open>The header: magic, version, flags, index width, three unused bytes; bounds, origin, cell size;
  grid and counts; scale, four unused bytes.\<close>

definition header_schema :: "field_type list" where
  "header_schema = [TBytes 4, TU32, TU32, TU8, TBytes 3, TF32, TF32, TF32, TF32, TF32, TF32, TF32, TF32, TF32, TF32,
     TU32, TU32, TU32, TU32, TF32, TF32, TF32, TBytes 4]"

definition zeros :: "nat \<Rightarrow> string" where
  "zeros n = replicate n (char_of (0::nat))"

definition header_fields :: "occluders \<Rightarrow> field list" where
  "header_fields occ = (case (oc_min occ, oc_max occ, oc_origin occ, oc_scale occ) of
     ((a0, a1, a2), (b0, b1, b2), (c0, c1, c2), (s0, s1, s2)) \<Rightarrow>
       [Bytes ''ZLOS'', U32 1, U32 1, U8 (word_of_nat (occ_width occ)), Bytes (zeros 3), F32 a0, F32 a1, F32 a2,
        F32 b0, F32 b1, F32 b2, F32 c0, F32 c1, F32 c2, F32 (oc_cell_size occ),
        U32 (word_of_int (oc_gx occ)), U32 (word_of_int (oc_gz occ)), U32 (word_of_nat (vertex_count occ)),
        U32 (word_of_nat (triangle_count occ)), F32 s0, F32 s1, F32 s2, Bytes (zeros 4)])"

definition put_nums :: "nat \<Rightarrow> nat list \<Rightarrow> bytes" where
  "put_nums w xs = concat (map (le_bytes w) xs)"

fun get_nums :: "nat \<Rightarrow> nat \<Rightarrow> bytes \<Rightarrow> nat list \<times> bytes" where
  "get_nums w 0 bs = ([], bs)"
| "get_nums w (Suc n) bs = (case get_nums w n (drop w bs) of (xs, rest) \<Rightarrow> (le_value (take w bs) # xs, rest))"

text \<open>\<open>Save\<close>: the bytes of the file, \<open>None\<close> when the cell table is shorter than the grid (a panic).\<close>

definition encode_occ :: "occluders \<Rightarrow> bytes option" where
  "encode_occ occ = (if length (oc_cell_start occ) < n_cells occ + 1 then None
     else Some (put_struct (header_fields occ)
       @ put_nums 2 (map unat (take (vertex_count occ * 3) (oc_verts occ)))
       @ put_nums (occ_width occ) (map unat (take (triangle_count occ * 3) (oc_tris occ)))
       @ put_nums 4 (map unat (take (n_cells occ + 1) (oc_cell_start occ)))
       @ put_nums (occ_width occ) (map unat (oc_cell_tris occ))))"

text \<open>The checks of one axis: bounds, order, scale.\<close>

definition axis_error :: "f32 \<Rightarrow> f32 \<Rightarrow> f32 \<Rightarrow> f32 \<Rightarrow> los_error option" where
  "axis_error lo hi org sc =
     (if \<not> is_fin lo \<or> \<not> is_fin hi \<or> \<not> is_fin org then Some BadBounds
      else if flt hi lo then Some InvertedBounds
      else if \<not> is_fin sc \<or> flt sc (Fin 0) then Some BadScale else None)"

fun first_error :: "los_error option list \<Rightarrow> los_error option" where
  "first_error [] = None"
| "first_error (None # es) = first_error es"
| "first_error (Some e # es) = Some e"

fun monotonic :: "'a::linorder list \<Rightarrow> bool" where
  "monotonic (x # y # zs) = (x \<le> y \<and> monotonic (y # zs))"
| "monotonic _ = True"

text \<open>The tables after the header: vertices, triangles, cell table, cell references.\<close>

definition parse_tables :: "nat \<Rightarrow> nat \<Rightarrow> nat \<Rightarrow> nat \<Rightarrow> nat \<Rightarrow> bytes \<Rightarrow> occluders \<Rightarrow> los_error + occluders" where
  "parse_tables width vc tc cells refs body occ =
     (case get_nums 2 (vc * 3) body of (vs, body) \<Rightarrow>
      case get_nums width (tc * 3) body of (ts, body) \<Rightarrow>
      if \<exists>t\<in>set ts. vc \<le> t then Inl TriangleRange
      else case get_nums 4 (cells + 1) body of (cs, body) \<Rightarrow>
      if cs ! 0 \<noteq> 0 \<or> cs ! cells \<noteq> refs then Inl BadCellTable
      else if \<not> monotonic cs then Inl NotMonotonic
      else case get_nums width refs body of (rs, _) \<Rightarrow>
      if \<exists>t\<in>set rs. tc \<le> t then Inl CellRange
      else Inr (occ\<lparr>oc_verts := map word_of_nat vs, oc_tris := map word_of_nat ts,
        oc_cell_start := map word_of_nat cs, oc_cell_tris := map word_of_nat rs\<rparr>))"

text \<open>The size of the tables before the cell references.\<close>

definition tables_size :: "nat \<Rightarrow> nat \<Rightarrow> nat \<Rightarrow> nat \<Rightarrow> nat" where
  "tables_size width vc tc cells = header_size + vc * 6 + tc * 3 * width + (cells + 1) * 4"

definition header_error :: "nat \<Rightarrow> string \<Rightarrow> u32 \<Rightarrow> u32 \<Rightarrow> nat \<Rightarrow> nat \<Rightarrow> nat \<Rightarrow> nat \<Rightarrow> nat \<Rightarrow> f32 \<Rightarrow> los_error option" where
  "header_error len magic version flags width vc tc gx gz cell =
     (let need = tables_size width vc tc (gx * gz) in
      if magic \<noteq> ''ZLOS'' then Some BadMagic
      else if version \<noteq> 1 then Some BadVersion
      else if \<not> bit flags 0 then Some BadEncoding
      else if flags \<noteq> 1 then Some BadFlags
      else if width \<noteq> 2 \<and> width \<noteq> 3 \<and> width \<noteq> 4 then Some BadWidth
      else if max_vertices < vc \<or> max_triangles < tc then Some TooManyElements
      else if (vc = 0) \<noteq> (tc = 0) then Some InconsistentCounts
      else if gx = 0 \<or> gz = 0 \<or> max_grid_dim < gx \<or> max_grid_dim < gz then Some BadGrid
      else if max_cells < gx * gz then Some GridTooLarge
      else if len < need then Some Truncated
      else if (len - need) mod width \<noteq> 0 then Some TruncatedRefs
      else if max_cell_refs < (len - need) div width then Some TooManyRefs
      else if \<not> is_fin cell \<or> fle cell (Fin 0) then Some BadCellSize
      else None)"

definition parse_body :: "nat \<Rightarrow> field list \<Rightarrow> bytes \<Rightarrow> los_error + occluders" where
  "parse_body len fs body = (case fs of
     [Bytes magic, U32 version, U32 flags, U8 w, _, F32 a0, F32 a1, F32 a2, F32 b0, F32 b1, F32 b2, F32 c0, F32 c1, F32 c2,
      F32 cell, U32 gx, U32 gz, U32 vc, U32 tc, F32 s0, F32 s1, F32 s2, _] \<Rightarrow>
       (case first_error [header_error len magic version flags (unat w) (unat vc) (unat tc) (unat gx) (unat gz) cell,
          axis_error a0 b0 c0 s0, axis_error a1 b1 c1 s1, axis_error a2 b2 c2 s2] of
          Some e \<Rightarrow> Inl e
        | None \<Rightarrow> parse_tables (unat w) (unat vc) (unat tc) (unat gx * unat gz)
            ((len - tables_size (unat w) (unat vc) (unat tc) (unat gx * unat gz)) div unat w) body
            \<lparr>oc_min = (a0, a1, a2), oc_max = (b0, b1, b2), oc_origin = (c0, c1, c2), oc_cell_size = cell,
             oc_gx = uint gx, oc_gz = uint gz, oc_scale = (s0, s1, s2), oc_verts = [], oc_tris = [],
             oc_cell_start = [], oc_cell_tris = [], oc_file_bytes = int len\<rparr>)
   | _ \<Rightarrow> Inl TooSmall)"

definition parse :: "bytes \<Rightarrow> los_error + occluders" where
  "parse data = (if max_file_bytes < length data then Inl TooLarge
     else case get_struct header_schema data of
       None \<Rightarrow> Inl TooSmall
     | Some (fs, body) \<Rightarrow> parse_body (length data) fs body)"

definition load_occ :: "(string \<Rightarrow> bytes option) \<Rightarrow> string \<Rightarrow> los_error + occluders" where
  "load_occ files path = (case files path of None \<Rightarrow> Inl NoFile
     | Some data \<Rightarrow> if max_file_bytes < length data then Inl TooLarge else parse data)"


section \<open>Segment queries\<close>

definition int64_floor :: "f64 \<Rightarrow> int" where
  "int64_floor x = (case ffloor x of Fin q \<Rightarrow> if in_int64 \<lfloor>q\<rfloor> then \<lfloor>q\<rfloor> else - (2 ^ 63) | _ \<Rightarrow> - (2 ^ 63))"

definition clamp_cell :: "f64 \<Rightarrow> int \<Rightarrow> int" where
  "clamp_cell f n = (let c = int64_floor f in if c < 0 then 0 else if n \<le> c then n - 1 else c)"

definition nth_opt :: "'a list \<Rightarrow> nat \<Rightarrow> 'a option" where
  "nth_opt xs i = (if i < length xs then Some (xs ! i) else None)"

text \<open>A segment: where it starts and its direction.\<close>

record ray =
  ry_from :: vec
  ry_dx :: f64
  ry_dy :: f64
  ry_dz :: f64

text \<open>One coordinate of a vertex, and a vertex; the index arithmetic is that of \<open>uint32\<close>.\<close>

definition dequantize :: "f32 \<Rightarrow> f32 \<Rightarrow> 16 word \<Rightarrow> f64" where
  "dequantize lo sc q = add64 (add64 lo (mul64 (Fin 32767) sc)) (mul64 (Fin (of_int (sint q))) sc)"

definition vertex_of :: "occluders \<Rightarrow> u32 \<Rightarrow> (f64 \<times> f64 \<times> f64) option" where
  "vertex_of occ i = (case (nth_opt (oc_verts occ) (unat (i * 3)), nth_opt (oc_verts occ) (unat (i * 3 + 1)), nth_opt (oc_verts occ) (unat (i * 3 + 2))) of
     (Some q0, Some q1, Some q2) \<Rightarrow> (case (oc_min occ, oc_scale occ) of ((a0, a1, a2), (s0, s1, s2)) \<Rightarrow>
       Some (dequantize a0 s0 q0, dequantize a1 s1 q1, dequantize a2 s2 q2))
   | _ \<Rightarrow> None)"

definition dot64 :: "f64 \<times> f64 \<times> f64 \<Rightarrow> f64 \<times> f64 \<times> f64 \<Rightarrow> f64" where
  "dot64 a b = (case (a, b) of ((a0, a1, a2), (b0, b1, b2)) \<Rightarrow> add64 (add64 (mul64 a0 b0) (mul64 a1 b1)) (mul64 a2 b2))"

definition cross64 :: "f64 \<times> f64 \<times> f64 \<Rightarrow> f64 \<times> f64 \<times> f64 \<Rightarrow> f64 \<times> f64 \<times> f64" where
  "cross64 a b = (case (a, b) of ((a0, a1, a2), (b0, b1, b2)) \<Rightarrow>
     (sub64 (mul64 a1 b2) (mul64 a2 b1), sub64 (mul64 a2 b0) (mul64 a0 b2), sub64 (mul64 a0 b1) (mul64 a1 b0)))"

definition sub64_vec :: "f64 \<times> f64 \<times> f64 \<Rightarrow> f64 \<times> f64 \<times> f64 \<Rightarrow> f64 \<times> f64 \<times> f64" where
  "sub64_vec a b = (case (a, b) of ((a0, a1, a2), (b0, b1, b2)) \<Rightarrow> (sub64 a0 b0, sub64 a1 b1, sub64 a2 b2))"

text \<open>The ray and the triangle \<open>v0 v1 v2\<close>.\<close>

definition hits_triangle :: "ray \<Rightarrow> f64 \<times> f64 \<times> f64 \<Rightarrow> f64 \<times> f64 \<times> f64 \<Rightarrow> f64 \<times> f64 \<times> f64 \<Rightarrow> bool" where
  "hits_triangle r v0 v1 v2 =
     (let d = (ry_dx r, ry_dy r, ry_dz r); e1 = sub64_vec v1 v0; e2 = sub64_vec v2 v0; p = cross64 d e2; det = dot64 e1 p in
      if flt (fabs det) (rnd64 (1 / 10 ^ 12)) then False
      else let inv = fdiv rnd64 (Fin 1) det; t = sub64_vec (ry_from r) v0; u = mul64 (dot64 t p) inv in
        if flt u (Fin 0) \<or> flt (Fin 1) u then False
        else let q = cross64 t e1; v = mul64 (dot64 d q) inv in
          if flt v (Fin 0) \<or> flt (Fin 1) (add64 u v) then False
          else let tt = mul64 (dot64 e2 q) inv in
            flt (rnd64 (1 / 10 ^ 6)) tt \<and> flt tt (rnd64 (1 - 1 / 10 ^ 6)))"

definition tri_blocked :: "occluders \<Rightarrow> ray \<Rightarrow> u32 \<Rightarrow> bool option" where
  "tri_blocked occ r t = (case (nth_opt (oc_tris occ) (unat (t * 3)), nth_opt (oc_tris occ) (unat (t * 3 + 1)), nth_opt (oc_tris occ) (unat (t * 3 + 2))) of
     (Some i0, Some i1, Some i2) \<Rightarrow> (case (vertex_of occ i0, vertex_of occ i1, vertex_of occ i2) of
        (Some v0, Some v1, Some v2) \<Rightarrow> Some (hits_triangle r v0 v1 v2)
      | _ \<Rightarrow> None)
   | _ \<Rightarrow> None)"

text \<open>The references \<open>i\<close> to \<open>i + n - 1\<close> of a cell.\<close>

fun refs_blocked :: "occluders \<Rightarrow> ray \<Rightarrow> nat \<Rightarrow> nat \<Rightarrow> bool option" where
  "refs_blocked occ r i 0 = Some False"
| "refs_blocked occ r i (Suc n) = (case nth_opt (oc_cell_tris occ) i of None \<Rightarrow> None
     | Some t \<Rightarrow> (case tri_blocked occ r t of None \<Rightarrow> None | Some True \<Rightarrow> Some True | Some False \<Rightarrow> refs_blocked occ r (Suc i) n))"

definition in_grid :: "occluders \<Rightarrow> int \<Rightarrow> int \<Rightarrow> bool" where
  "in_grid occ cx cz \<longleftrightarrow> 0 \<le> cx \<and> cx < oc_gx occ \<and> 0 \<le> cz \<and> cz < oc_gz occ"

definition cell_blocked :: "occluders \<Rightarrow> ray \<Rightarrow> int \<Rightarrow> int \<Rightarrow> bool option" where
  "cell_blocked occ r cx cz =
     (if \<not> in_grid occ cx cz then Some False
      else let i = nat (cz * oc_gx occ + cx) in
        case (nth_opt (oc_cell_start occ) i, nth_opt (oc_cell_start occ) (i + 1)) of
          (Some a, Some b) \<Rightarrow> refs_blocked occ r (unat a) (unat b - unat a)
        | _ \<Rightarrow> None)"

text \<open>Clipping the parameter interval of the segment to the bounds of one axis.\<close>

definition clip_axis :: "f64 \<Rightarrow> f64 \<Rightarrow> f64 \<Rightarrow> f64 \<Rightarrow> f64 \<times> f64 \<Rightarrow> (f64 \<times> f64) option" where
  "clip_axis d f lo hi t = (case t of (t0, t1) \<Rightarrow>
     if feq d (Fin 0) then (if flt f lo \<or> flt hi f then None else Some (t0, t1))
     else let inv = fdiv rnd64 (Fin 1) d; ta = mul64 (sub64 lo f) inv; tb = mul64 (sub64 hi f) inv in
       case (if flt tb ta then (tb, ta) else (ta, tb)) of (ta, tb) \<Rightarrow>
         Some (if flt t0 ta then ta else t0, if flt tb t1 then tb else t1))"

definition step_of :: "f64 \<Rightarrow> int" where
  "step_of d = (if flt (Fin 0) d then 1 else if flt d (Fin 0) then - 1 else 0)"

text \<open>The parameter of the next cell boundary of an axis, and its increment per cell.\<close>

definition t_max :: "f64 \<Rightarrow> f64 \<Rightarrow> f64 \<Rightarrow> f64 \<Rightarrow> int \<Rightarrow> f64" where
  "t_max d f lo cell c = (if step_of d = 0 then FInf False
     else fdiv rnd64 (sub64 (add64 lo (mul64 (rnd64 (of_int (c + max (step_of d) 0))) cell)) f) d)"

definition t_delta :: "f64 \<Rightarrow> f64 \<Rightarrow> f64" where
  "t_delta d cell = (if step_of d = 0 then FInf False else fdiv rnd64 cell (fabs d))"

text \<open>The walk over the cells: \<open>left\<close> counts down from the step bound.\<close>

fun dda :: "occluders \<Rightarrow> ray \<Rightarrow> int \<times> int \<Rightarrow> nat \<Rightarrow> int \<Rightarrow> int \<Rightarrow> f64 \<Rightarrow> f64 \<Rightarrow> bool option" where
  "dda occ r goal left cx cz tx tz = (case cell_blocked occ r cx cz of
     None \<Rightarrow> None
   | Some True \<Rightarrow> Some True
   | Some False \<Rightarrow>
       if (cx, cz) = goal then Some False
       else let a = flt tx tz;
                cx' = (if a then cx + step_of (ry_dx r) else cx); cz' = (if a then cz else cz + step_of (ry_dz r)) in
         if \<not> in_grid occ cx' cz' then Some False
         else (case left of
            0 \<Rightarrow> None
          | Suc n \<Rightarrow> if n = 0 then None
              else dda occ r goal n cx' cz'
                (if a then add64 tx (t_delta (ry_dx r) (oc_cell_size occ)) else tx)
                (if a then tz else add64 tz (t_delta (ry_dz r) (oc_cell_size occ)))))"

declare dda.simps [simp del]

definition segment_ray :: "vec \<Rightarrow> vec \<Rightarrow> ray" where
  "segment_ray from to = (case (from, to) of ((f0, f1, f2), (t0, t1, t2)) \<Rightarrow>
     \<lparr>ry_from = from, ry_dx = sub32 t0 f0, ry_dy = sub32 t1 f1, ry_dz = sub32 t2 f2\<rparr>)"

definition cell_at :: "f64 \<Rightarrow> f64 \<Rightarrow> f64 \<Rightarrow> f64 \<Rightarrow> f64 \<Rightarrow> int \<Rightarrow> int" where
  "cell_at f d t lo cell n = clamp_cell (fdiv rnd64 (sub64 (add64 f (mul64 d t)) lo) cell) n"

definition segment_blocked :: "occluders \<Rightarrow> vec \<Rightarrow> vec \<Rightarrow> bool option" where
  "segment_blocked occ from to =
     (if oc_tris occ = [] then Some False
      else case (from, oc_min occ, oc_max occ) of ((f0, f1, f2), (a0, a1, a2), (b0, b1, b2)) \<Rightarrow>
        let r = segment_ray from to; dx = ry_dx r; dz = ry_dz r; cell = oc_cell_size occ in
        case clip_axis dx f0 a0 b0 (Fin 0, Fin 1) of None \<Rightarrow> Some False
        | Some t \<Rightarrow> (case clip_axis dz f2 a2 b2 t of None \<Rightarrow> Some False
          | Some (t0, t1) \<Rightarrow>
              if flt t1 t0 then Some False
              else let cx = cell_at f0 dx t0 a0 cell (oc_gx occ); cz = cell_at f2 dz t0 a2 cell (oc_gz occ);
                       goal = (cell_at f0 dx t1 a0 cell (oc_gx occ), cell_at f2 dz t1 a2 cell (oc_gz occ)) in
                if step_of dx = 0 \<and> step_of dz = 0 then cell_blocked occ r cx cz
                else dda occ r goal (nat (oc_gx occ + oc_gz occ + 4)) cx cz
                       (t_max dx f0 a0 cell cx) (t_max dz f2 a2 cell cz)))"

definition los_visible :: "occluders \<Rightarrow> vec \<Rightarrow> vec \<Rightarrow> bool option" where
  "los_visible occ from to = map_option Not (segment_blocked occ from to)"

record los_stats =
  ls_vertices :: nat
  ls_triangles :: nat
  ls_grid_x :: int
  ls_grid_z :: int
  ls_cell_refs :: nat
  ls_file_bytes :: int

definition stats_of :: "occluders \<Rightarrow> los_stats" where
  "stats_of occ = \<lparr>ls_vertices = vertex_count occ, ls_triangles = triangle_count occ, ls_grid_x = oc_gx occ,
     ls_grid_z = oc_gz occ, ls_cell_refs = length (oc_cell_tris occ), ls_file_bytes = oc_file_bytes occ\<rparr>"

definition occ_bounds :: "occluders \<Rightarrow> vec \<times> vec" where
  "occ_bounds occ = (oc_min occ, oc_max occ)"

definition empty_occluders :: "f32 \<Rightarrow> occluders" where
  "empty_occluders cell = (let z = (Fin 0, Fin 0, Fin 0);
     occ = \<lparr>oc_min = z, oc_max = z, oc_origin = z, oc_cell_size = cell, oc_gx = 1, oc_gz = 1, oc_scale = z, oc_verts = [],
       oc_tris = [], oc_cell_start = [0, 0], oc_cell_tris = [], oc_file_bytes = 0\<rparr>
   in occ\<lparr>oc_file_bytes := int (encoded_size occ)\<rparr>)"

section \<open>The gate of the damage handler\<close>

record los_manager =
  lm_enabled :: bool
  lm_dir :: string
  lm_loaded :: "string \<Rightarrow> occluders option"
  lm_missing :: "string set"

definition new_los_manager :: "bool \<Rightarrow> string \<Rightarrow> los_manager" where
  "new_los_manager enabled dir = \<lparr>lm_enabled = enabled, lm_dir = (if dir = [] then ''zone_los'' else dir),
     lm_loaded = Map.empty, lm_missing = {}\<rparr>"

definition name_char :: "char \<Rightarrow> bool" where
  "name_char c \<longleftrightarrow> (let n = (of_char c :: nat) in 97 \<le> n \<and> n \<le> 122 \<or> 65 \<le> n \<and> n \<le> 90 \<or> 48 \<le> n \<and> n \<le> 57 \<or>
     c = CHR ''_'' \<or> c = CHR ''-'' \<or> c = CHR ''.'')"

fun has_dotdot :: "string \<Rightarrow> bool" where
  "has_dotdot (a # b # cs) = (a = CHR ''.'' \<and> b = CHR ''.'' \<or> has_dotdot (b # cs))"
| "has_dotdot _ = False"

definition safe_level_name :: "string \<Rightarrow> bool" where
  "safe_level_name level \<longleftrightarrow> level \<noteq> [] \<and> length level \<le> 64 \<and> (\<forall>c\<in>set level. name_char c) \<and> \<not> has_dotdot level"

definition cache_missing :: "string \<Rightarrow> los_manager \<Rightarrow> los_manager" where
  "cache_missing level m = (if 256 \<le> card (lm_missing m) then m else m\<lparr>lm_missing := insert level (lm_missing m)\<rparr>)"

text \<open>The occluders of a level; \<open>files dir name\<close> is the file \<open>filepath.Join(dir, name)\<close>.\<close>

definition occluder_for :: "(string \<Rightarrow> string \<Rightarrow> bytes option) \<Rightarrow> string \<Rightarrow> los_manager \<Rightarrow> occluders option \<times> los_manager" where
  "occluder_for files level m =
     (if \<not> lm_enabled m then (None, m)
      else case lm_loaded m level of Some occ \<Rightarrow> (Some occ, m)
      | None \<Rightarrow>
          if level \<in> lm_missing m then (None, m)
          else if \<not> safe_level_name level then (None, cache_missing level m)
          else (case load_occ (files (lm_dir m)) (level @ ''.occl'') of
             Inl _ \<Rightarrow> (None, cache_missing level m)
           | Inr occ \<Rightarrow> (Some occ, m\<lparr>lm_loaded := (lm_loaded m)(level \<mapsto> occ)\<rparr>)))"

definition raised :: "rat \<Rightarrow> vec \<Rightarrow> vec" where
  "raised h p = (case p of (x, y, z) \<Rightarrow> (x, add32 y (rnd32 h), z))"

fun any_clear :: "occluders \<Rightarrow> vec \<Rightarrow> vec list \<Rightarrow> bool option" where
  "any_clear occ eye [] = Some False"
| "any_clear occ eye (p # ps) = (case segment_blocked occ eye p of None \<Rightarrow> None
     | Some blocked \<Rightarrow> if \<not> blocked then Some True else any_clear occ eye ps)"

definition damage_allowed :: "(string \<Rightarrow> string \<Rightarrow> bytes option) \<Rightarrow> string \<Rightarrow> vec \<Rightarrow> vec \<Rightarrow> los_manager \<Rightarrow> bool option \<times> los_manager" where
  "damage_allowed files level from to m = (case occluder_for files level m of
     (None, m) \<Rightarrow> (Some True, m)
   | (Some occ, m) \<Rightarrow> (any_clear occ (raised (8 / 5) from) [raised (8 / 5) to, raised 1 to, raised (1 / 2) to], m))"


section \<open>What the parser accepts\<close>

definition axis_ok :: "f32 \<Rightarrow> f32 \<Rightarrow> f32 \<Rightarrow> f32 \<Rightarrow> bool" where
  "axis_ok lo hi org sc \<longleftrightarrow> is_fin lo \<and> is_fin hi \<and> is_fin org \<and> fle lo hi \<and> is_fin sc \<and> fle (Fin 0) sc \<and>
     is_f32 lo \<and> is_f32 hi \<and> is_f32 org \<and> is_f32 sc"

definition occ_ok :: "occluders \<Rightarrow> bool" where
  "occ_ok occ \<longleftrightarrow> (let vc = vertex_count occ; tc = triangle_count occ; n = n_cells occ in
     0 < oc_gx occ \<and> oc_gx occ \<le> 1000000 \<and> 0 < oc_gz occ \<and> oc_gz occ \<le> 1000000 \<and> oc_gx occ * oc_gz occ \<le> 67108864 \<and>
     length (oc_verts occ) = vc * 3 \<and> length (oc_tris occ) = tc * 3 \<and> vc \<le> 50000000 \<and> tc \<le> 50000000 \<and> (vc = 0 \<longleftrightarrow> tc = 0) \<and>
     (\<forall>t\<in>set (oc_tris occ). unat t < vc) \<and>
     length (oc_cell_start occ) = n + 1 \<and> unat (oc_cell_start occ ! 0) = 0 \<and> unat (oc_cell_start occ ! n) = length (oc_cell_tris occ) \<and>
     sorted (oc_cell_start occ) \<and> length (oc_cell_tris occ) \<le> 400000000 \<and> (\<forall>t\<in>set (oc_cell_tris occ). unat t < tc) \<and>
     is_fin (oc_cell_size occ) \<and> is_f32 (oc_cell_size occ) \<and> flt (Fin 0) (oc_cell_size occ) \<and>
     (case (oc_min occ, oc_max occ, oc_origin occ, oc_scale occ) of ((a0, a1, a2), (b0, b1, b2), (c0, c1, c2), (s0, s1, s2)) \<Rightarrow>
       axis_ok a0 b0 c0 s0 \<and> axis_ok a1 b1 c1 s1 \<and> axis_ok a2 b2 c2 s2))"

lemma get_nums_length [simp]: "length (fst (get_nums w n bs)) = n"
  by (induction w n bs rule: get_nums.induct) (auto split: prod.split)

lemma le_value_bound: "le_value bs < 256 ^ length bs"
proof (induction bs)
  case (Cons b bs)
  have "unat b < 256" using unsigned_less [of b, where 'a = nat] by simp
  with Cons show ?case by simp
qed simp

lemma get_nums_bound: "x \<in> set (fst (get_nums w n bs)) \<Longrightarrow> x < 256 ^ w"
proof (induction w n bs arbitrary: x rule: get_nums.induct)
  case (2 w n bs)
  have "le_value (take w bs) < 256 ^ w"
    by (rule less_le_trans [OF le_value_bound]) (rule power_increasing, simp_all)
  with 2 show ?case by (auto split: prod.splits)
qed simp

lemma get_nums_u32: "w \<le> 4 \<Longrightarrow> x \<in> set (fst (get_nums w n bs)) \<Longrightarrow> unat (word_of_nat x :: u32) = x"
proof -
  assume "w \<le> 4" "x \<in> set (fst (get_nums w n bs))"
  then have "x < 2 ^ 32" using get_nums_bound [of x w n bs] power_increasing [of w 4 "256::nat"] by simp
  then show ?thesis by (simp add: unat_of_nat)
qed

lemma monotonic_sorted: "monotonic xs = sorted xs"
  by (induction xs rule: monotonic.induct) (auto intro: order_trans)

lemma sorted_words: "\<forall>x\<in>set xs. x < 2 ^ 32 \<Longrightarrow> sorted xs \<Longrightarrow> sorted (map (word_of_nat :: nat \<Rightarrow> u32) xs)"
  by (auto simp: sorted_map word_le_nat_alt unat_of_nat intro: sorted_wrt_mono_rel [rotated])

lemma first_error_None: "first_error es = None \<longleftrightarrow> (\<forall>e\<in>set es. e = None)"
  by (induction es rule: first_error.induct) auto

lemma axis_error_None: "is_f32 lo \<Longrightarrow> is_f32 hi \<Longrightarrow> is_f32 org \<Longrightarrow> is_f32 sc \<Longrightarrow>
    axis_error lo hi org sc = None \<longleftrightarrow> axis_ok lo hi org sc"
  by (cases lo; cases hi; cases org; cases sc) (auto simp: axis_error_def axis_ok_def)

text \<open>What the tables of an accepted file are.\<close>

lemma parse_tables_ok:
  assumes "parse_tables width vc tc cells refs body occ = Inr o2" "width \<le> 4"
  shows "\<exists>vs ts cs rs. o2 = occ\<lparr>oc_verts := vs, oc_tris := ts, oc_cell_start := cs, oc_cell_tris := rs\<rparr> \<and>
    length vs = vc * 3 \<and> length ts = tc * 3 \<and> (\<forall>t\<in>set ts. unat t < vc) \<and> length cs = cells + 1 \<and> unat (cs ! 0) = 0 \<and>
    unat (cs ! cells) = refs \<and> sorted cs \<and> length rs = refs \<and> (\<forall>t\<in>set rs. unat t < tc)"
proof -
  obtain vs b1 where vs: "get_nums 2 (vc * 3) body = (vs, b1)" by fastforce
  obtain ts b2 where ts: "get_nums width (tc * 3) b1 = (ts, b2)" by fastforce
  obtain cs b3 where cs: "get_nums 4 (Suc cells) b2 = (cs, b3)" by fastforce
  obtain rs b4 where rs: "get_nums width refs b3 = (rs, b4)" by fastforce
  have l: "length vs = vc * 3" "length ts = tc * 3" "length cs = Suc cells" "length rs = refs"
    using get_nums_length [of 2 "vc * 3" body] get_nums_length [of width "tc * 3" b1] get_nums_length [of 4 "Suc cells" b2]
      get_nums_length [of width refs b3] vs ts cs rs by simp_all
  have u: "unat (word_of_nat x :: u32) = x" if "x \<in> set ts \<or> x \<in> set cs \<or> x \<in> set rs" for x
    using that get_nums_u32 [of width x "tc * 3" b1] get_nums_u32 [of 4 x "Suc cells" b2] get_nums_u32 [of width x refs b3]
      assms(2) ts cs rs by auto
  have c32: "\<forall>x\<in>set cs. x < 2 ^ 32" using get_nums_bound [of _ 4 "Suc cells" b2] cs by auto
  have ok: "\<not> (\<exists>t\<in>set ts. vc \<le> t)" "cs ! 0 = 0" "cs ! cells = refs" "monotonic cs" "\<not> (\<exists>t\<in>set rs. tc \<le> t)"
    and o2: "o2 = occ\<lparr>oc_verts := map word_of_nat vs, oc_tris := map word_of_nat ts, oc_cell_start := map word_of_nat cs,
      oc_cell_tris := map word_of_nat rs\<rparr>"
    using assms(1) by (auto simp: parse_tables_def vs ts cs rs simp del: get_nums.simps split: if_splits)
  have "sorted (map (word_of_nat :: nat \<Rightarrow> u32) cs)" using ok(4) c32 by (intro sorted_words) (simp_all add: monotonic_sorted)
  moreover have c: "unat ((map word_of_nat cs :: u32 list) ! i) = cs ! i" if "i \<le> cells" for i
    using that l u [of "cs ! i"] by simp
  have "unat ((map word_of_nat cs :: u32 list) ! 0) = 0" "unat ((map word_of_nat cs :: u32 list) ! cells) = refs"
    unfolding c [OF le0] c [OF le_refl] by (fact ok)+
  ultimately show ?thesis unfolding o2 using l u ok
    by (intro exI conjI refl) (auto simp: not_le)
qed

lemma header_error_None:
  assumes "header_error len magic version flags width vc tc gx gz cell = None"
  shows "width \<le> 4" "vc \<le> 50000000" "tc \<le> 50000000" "vc = 0 \<longleftrightarrow> tc = 0" "0 < gx" "gx \<le> 1000000" "0 < gz" "gz \<le> 1000000"
    "gx * gz \<le> 67108864" "(len - tables_size width vc tc (gx * gz)) div width \<le> 400000000" "is_fin cell" "flt (Fin 0) cell"
  using assms by (cases cell; auto simp: header_error_def Let_def max_vertices_def max_triangles_def max_grid_dim_def max_cells_def
    max_cell_refs_def split: if_splits)+

text \<open>Every value a field of the file holds is one of the format.\<close>

lemma f32_mag_repr: "0 \<le> e \<Longrightarrow> e < 255 \<Longrightarrow> 0 \<le> f \<Longrightarrow> f < 2 ^ 23 \<Longrightarrow> repr 24 (- 149) (f32_mag e f) \<and> f32_mag e f < pow2 128 \<and> 0 \<le> f32_mag e f"
proof -
  assume a: "0 \<le> e" "e < 255" "0 \<le> f" "f < 2 ^ 23"
  have m: "of_int m * pow2 k < pow2 128" if "0 \<le> m" "m < 2 ^ 24" "k \<le> 104" for m k :: int
  proof -
    have "(of_int m :: rat) < of_int (2 ^ 24)" using that(2) by (simp only: of_int_less_iff)
    then have "(of_int m :: rat) < pow2 24" by (simp add: pow2_def)
    then have "of_int m * pow2 k < pow2 24 * pow2 k" by (rule mult_strict_right_mono) simp
    also have "\<dots> = pow2 (24 + k)" by (simp only: pow2_add)
    also have "\<dots> \<le> pow2 128" using that(3) by simp
    finally show ?thesis .
  qed
  show ?thesis
  proof (cases "e = 0")
    case True
    then show ?thesis using a repr_grid [of f 24 "- 149" "- 149"] m [of f "- 149"] by (simp add: f32_mag_def repr_def)
  next
    case False
    then show ?thesis using a repr_grid [of "2 ^ 23 + f" 24 "- 149" "e - 150"] m [of "2 ^ 23 + f" "e - 150"]
      by (simp add: f32_mag_def repr_def)
  qed
qed

lemma is_f32_frombits: "is_f32 (f32_frombits w)"
proof -
  let ?e = "uint w div 2 ^ 23 mod 256" and ?f = "uint w mod 2 ^ 23"
  have "repr 24 (- 149) (f32_mag ?e ?f) \<and> f32_mag ?e ?f < pow2 128 \<and> 0 \<le> f32_mag ?e ?f" if "?e \<noteq> 255"
    using f32_mag_repr [of ?e ?f] that by simp
  then show ?thesis by (auto simp: f32_frombits_def Let_def is_f32_def repr_def rnd_neg)
qed

lemma get_field_f32: "get_field t bs = F32 x \<Longrightarrow> is_f32 x"
  by (cases t) (auto simp: is_f32_frombits)

lemma get_struct_f32: "get_struct ts bs = Some (fs, rest) \<Longrightarrow> F32 x \<in> set fs \<Longrightarrow> is_f32 x"
proof (induction ts arbitrary: bs fs)
  case (Cons t ts)
  then show ?case by (auto simp: get_field_f32 split: if_splits option.splits dest: sym [of "F32 x"])
qed simp

lemma parse_body_shape:
  assumes "parse_body len fs body = Inr occ"
  obtains magic version flags w p1 a0 a1 a2 b0 b1 b2 c0 c1 c2 cell gx gz vc tc s0 s1 s2 p2
  where "fs = [Bytes magic, U32 version, U32 flags, U8 w, p1, F32 a0, F32 a1, F32 a2, F32 b0, F32 b1, F32 b2, F32 c0,
    F32 c1, F32 c2, F32 cell, U32 gx, U32 gz, U32 vc, U32 tc, F32 s0, F32 s1, F32 s2, p2]"
  using assms unfolding parse_body_def by (simp split: list.splits field.splits)

lemma parse_body_Inr:
  assumes "parse_body len [Bytes magic, U32 version, U32 flags, U8 w, p1, F32 a0, F32 a1, F32 a2, F32 b0, F32 b1, F32 b2, F32 c0,
    F32 c1, F32 c2, F32 cell, U32 gx, U32 gz, U32 vc, U32 tc, F32 s0, F32 s1, F32 s2, p2] body = Inr occ"
  shows "header_error len magic version flags (unat w) (unat vc) (unat tc) (unat gx) (unat gz) cell = None"
    "axis_error a0 b0 c0 s0 = None" "axis_error a1 b1 c1 s1 = None" "axis_error a2 b2 c2 s2 = None"
    "parse_tables (unat w) (unat vc) (unat tc) (unat gx * unat gz)
       ((len - tables_size (unat w) (unat vc) (unat tc) (unat gx * unat gz)) div unat w) body
       \<lparr>oc_min = (a0, a1, a2), oc_max = (b0, b1, b2), oc_origin = (c0, c1, c2), oc_cell_size = cell,
        oc_gx = uint gx, oc_gz = uint gz, oc_scale = (s0, s1, s2), oc_verts = [], oc_tris = [],
        oc_cell_start = [], oc_cell_tris = [], oc_file_bytes = int len\<rparr> = Inr occ"
  using assms by (simp_all add: parse_body_def first_error_None split: option.splits)

text \<open>C31: The loader accepts only well-formed occluders. Whatever bytes a file has, when \<open>parse\<close> returns
  occluders their grid has between one and \<open>2^26\<close> cells, the cell size is positive and the bounds
  and scales are finite and in order, every triangle names vertices that exist, the cell table has
  an entry per cell and one more, is monotonic and ends at the number of references, and every
  reference names a triangle that exists.\<close>

theorem parse_accepts_well_formed:
  assumes "parse data = Inr occ"
  shows "occ_ok occ"
proof -
  obtain fs body where gs: "get_struct header_schema data = Some (fs, body)" and fs: "parse_body (length data) fs body = Inr occ"
    using assms by (auto simp: parse_def split: if_splits option.splits)
  from fs obtain magic version flags w p1 a0 a1 a2 b0 b1 b2 c0 c1 c2 cell gx gz vc tc s0 s1 s2 p2
    where shape: "fs = [Bytes magic, U32 version, U32 flags, U8 w, p1, F32 a0, F32 a1, F32 a2, F32 b0, F32 b1, F32 b2, F32 c0,
      F32 c1, F32 c2, F32 cell, U32 gx, U32 gz, U32 vc, U32 tc, F32 s0, F32 s1, F32 s2, p2]"
    by (rule parse_body_shape)
  obtain refs where refs: "refs = (length data - tables_size (unat w) (unat vc) (unat tc) (unat gx * unat gz)) div unat w" by blast
  have f: "is_f32 x" if "F32 x \<in> set fs" for x using get_struct_f32 [OF gs that] .
  note acc = parse_body_Inr [OF fs [unfolded shape], folded refs]
  note h = acc(1) and ax = acc(2-4) and t = acc(5)
  note hd = header_error_None [OF h]
  obtain vs ts cs rs where
    o: "occ = \<lparr>oc_min = (a0, a1, a2), oc_max = (b0, b1, b2), oc_origin = (c0, c1, c2), oc_cell_size = cell,
        oc_gx = uint gx, oc_gz = uint gz, oc_scale = (s0, s1, s2), oc_verts = [], oc_tris = [],
        oc_cell_start = [], oc_cell_tris = [], oc_file_bytes = int (length data)\<rparr>
        \<lparr>oc_verts := vs, oc_tris := ts, oc_cell_start := cs, oc_cell_tris := rs\<rparr>"
    and tb: "length vs = unat vc * 3" "length ts = unat tc * 3" "\<forall>t\<in>set ts. unat t < unat vc" "length cs = unat gx * unat gz + 1"
      "unat (cs ! 0) = 0" "unat (cs ! (unat gx * unat gz)) = refs" "sorted cs" "length rs = refs" "\<forall>t\<in>set rs. unat t < unat tc"
    using parse_tables_ok [OF t hd(1)] by blast
  have g: "nat (uint gx * uint gz) = unat gx * unat gz" by (simp add: nat_mult_distrib)
  have gi: "0 < uint gx" "uint gx \<le> 1000000" "0 < uint gz" "uint gz \<le> 1000000" "uint gx * uint gz \<le> 67108864"
  proof -
    have i: "int (unat gx) = uint gx" "int (unat gz) = uint gz" by simp_all
    show "0 < uint gx" "uint gx \<le> 1000000" "0 < uint gz" "uint gz \<le> 1000000"
      using hd(5-8) unfolding i [symmetric] by linarith+
    have "int (unat gx * unat gz) \<le> int 67108864" using hd(9) by (rule of_nat_mono)
    then show "uint gx * uint gz \<le> 67108864" by simp
  qed
  show ?thesis
    unfolding occ_ok_def o Let_def vertex_count_def triangle_count_def n_cells_def
    using hd(2-4,10-12) tb ax refs g gi f by (simp add: axis_error_None shape)
qed


section \<open>Queries do not panic\<close>

lemma unat_mult3:
  assumes "unat (t::u32) < 50000000"
  shows "unat (t * 3) = unat t * 3" "unat (t * 3 + 1) = unat t * 3 + 1" "unat (t * 3 + 2) = unat t * 3 + 2"
proof -
  show t: "unat (t * 3) = unat t * 3" using assms by (simp add: unat_word_ariths)
  show "unat (t * 3 + 1) = unat t * 3 + 1" "unat (t * 3 + 2) = unat t * 3 + 2"
    using assms by (subst unat_word_ariths; simp add: t)+
qed

lemma vertex_defined:
  assumes "occ_ok occ" "unat i < vertex_count occ"
  shows "\<exists>v. vertex_of occ i = Some v"
proof -
  have l: "length (oc_verts occ) = vertex_count occ * 3" "vertex_count occ \<le> 50000000"
    using assms(1) by (simp_all add: occ_ok_def Let_def)
  with assms(2) have "unat i < 50000000" by simp
  note u = unat_mult3 [OF this]
  have "nth_opt (oc_verts occ) (unat (i * 3)) \<noteq> None" "nth_opt (oc_verts occ) (unat (i * 3 + 1)) \<noteq> None"
    "nth_opt (oc_verts occ) (unat (i * 3 + 2)) \<noteq> None"
    unfolding u using assms(2) l(1) by (simp_all add: nth_opt_def)
  then show ?thesis unfolding vertex_of_def by (auto split: prod.split)
qed

lemma tri_defined:
  assumes "occ_ok occ" "unat t < triangle_count occ"
  shows "\<exists>b. tri_blocked occ r t = Some b"
proof -
  have l: "length (oc_tris occ) = triangle_count occ * 3" "triangle_count occ \<le> 50000000" "\<forall>i\<in>set (oc_tris occ). unat i < vertex_count occ"
    using assms(1) by (simp_all add: occ_ok_def Let_def)
  with assms(2) have "unat t < 50000000" by simp
  note u = unat_mult3 [OF this]
  have v: "\<exists>i v. nth_opt (oc_tris occ) (unat t * 3 + k) = Some i \<and> vertex_of occ i = Some v" if "k < 3" for k
  proof -
    have k: "unat t * 3 + k < length (oc_tris occ)" using that assms(2) l(1) by simp
    then have "unat (oc_tris occ ! (unat t * 3 + k)) < vertex_count occ" using l(3) by simp
    from vertex_defined [OF assms(1) this] k show ?thesis by (simp add: nth_opt_def)
  qed
  from v [of 0] v [of 1] v [of 2] show ?thesis by (auto simp: tri_blocked_def u)
qed

text \<open>What a defined answer means: a triangle blocks.\<close>

definition answers :: "occluders \<Rightarrow> ray \<Rightarrow> bool option \<Rightarrow> bool" where
  "answers occ r a \<longleftrightarrow> (case a of None \<Rightarrow> False
     | Some b \<Rightarrow> b \<longrightarrow> (\<exists>t. unat t < triangle_count occ \<and> tri_blocked occ r t = Some True))"

lemma answers_False [simp]: "answers occ r (Some False)"
  by (simp add: answers_def)

lemma refs_defined:
  assumes "occ_ok occ" "i + n \<le> length (oc_cell_tris occ)"
  shows "answers occ r (refs_blocked occ r i n)"
  using assms(2)
proof (induction n arbitrary: i)
  case (Suc n)
  let ?t = "oc_cell_tris occ ! i"
  have "?t \<in> set (oc_cell_tris occ)" using Suc.prems by simp
  then have t: "unat ?t < triangle_count occ" using assms(1) by (simp add: occ_ok_def Let_def)
  then obtain b where b: "tri_blocked occ r ?t = Some b" using tri_defined [OF assms(1)] by blast
  have n: "nth_opt (oc_cell_tris occ) i = Some ?t" using Suc.prems by (simp add: nth_opt_def)
  show ?case
  proof (cases b)
    case True
    with b n t show ?thesis by (auto simp: answers_def)
  next
    case False
    with b n Suc show ?thesis by simp
  qed
qed simp

lemma cell_index:
  fixes cx :: int
  assumes "0 \<le> cx" "cx < gx" "0 \<le> cz" "cz < gz"
  shows "0 \<le> cz * gx + cx \<and> cz * gx + cx < gx * gz"
proof -
  have "cz * gx + cx < (cz + 1) * gx" using assms by (simp add: algebra_simps)
  also have "\<dots> \<le> gz * gx" using assms by (intro mult_right_mono) auto
  finally show ?thesis using assms by (simp add: mult.commute)
qed

lemma cell_defined:
  assumes "occ_ok occ"
  shows "answers occ r (cell_blocked occ r cx cz)"
proof (cases "in_grid occ cx cz")
  case True
  let ?i = "nat (cz * oc_gx occ + cx)" and ?cs = "oc_cell_start occ"
  have l: "length ?cs = n_cells occ + 1" "sorted ?cs" "unat (?cs ! n_cells occ) = length (oc_cell_tris occ)"
    using assms by (simp_all add: occ_ok_def Let_def)
  have i: "?i < n_cells occ"
    using cell_index [of cx "oc_gx occ" cz "oc_gz occ"] True by (simp add: in_grid_def n_cells_def nat_less_iff)
  then have "?cs ! (?i + 1) \<le> ?cs ! n_cells occ" "?cs ! ?i \<le> ?cs ! (?i + 1)" using l by (auto intro: sorted_nth_mono)
  then have "unat (?cs ! ?i) + (unat (?cs ! (?i + 1)) - unat (?cs ! ?i)) \<le> length (oc_cell_tris occ)"
    using l(3) by (simp add: word_le_nat_alt)
  from refs_defined [OF assms this] show ?thesis using True i l(1) by (simp add: cell_blocked_def nth_opt_def Let_def)
qed (simp add: cell_blocked_def)


text \<open>Finite values of bounded magnitude.\<close>

definition bounded :: "int \<Rightarrow> f64 \<Rightarrow> bool" where
  "bounded k x \<longleftrightarrow> (\<exists>q. x = Fin q \<and> \<bar>q\<bar> \<le> pow2 k)"

lemma bounded_mono: "bounded i x \<Longrightarrow> i \<le> j \<Longrightarrow> bounded j x"
  by (auto simp: bounded_def intro: order_trans [OF _ pow2_mono])

lemma bounded_rnd: "\<bar>q\<bar> \<le> pow2 k \<Longrightarrow> 0 \<le> k \<Longrightarrow> k < 1024 \<Longrightarrow> bounded k (rnd64 q)"
  using rnd64_fin [of q k] rnd_bound [of q k "- 1074" 53] by (simp add: bounded_def)

lemma bounded_neg [simp]: "bounded k (fneg x) = bounded k x"
  by (cases x) (simp_all add: bounded_def)

lemma bounded_add: "bounded k a \<Longrightarrow> bounded k b \<Longrightarrow> 0 \<le> k \<Longrightarrow> k < 1023 \<Longrightarrow> bounded (k + 1) (add64 a b)"
  by (auto simp: bounded_def [of k] pow2_Suc intro!: bounded_rnd)

lemma bounded_sub: "bounded k a \<Longrightarrow> bounded k b \<Longrightarrow> 0 \<le> k \<Longrightarrow> k < 1023 \<Longrightarrow> bounded (k + 1) (sub64 a b)"
  unfolding fsub_def by (intro bounded_add) simp_all

lemma bounded_mul: "bounded i a \<Longrightarrow> bounded j b \<Longrightarrow> 0 \<le> i + j \<Longrightarrow> i + j < 1024 \<Longrightarrow> bounded (i + j) (mul64 a b)"
  by (auto simp: bounded_def [of i] bounded_def [of j] pow2_add abs_mult intro!: bounded_rnd mult_mono)

text \<open>A nonzero difference of two \<open>float32\<close> values: not smaller than the smallest \<open>float32\<close>.\<close>

definition nonzero_dir :: "f64 \<Rightarrow> bool" where
  "nonzero_dir d \<longleftrightarrow> (\<exists>s. d = FInf s) \<or> (\<exists>x. d = Fin x \<and> pow2 (- 149) \<le> \<bar>x\<bar>)"

lemma repr_min:
  assumes "repr 24 (- 149) x" "x \<noteq> 0"
  shows "pow2 (- 149) \<le> \<bar>x\<bar>"
proof -
  let ?e = "ulp_exp 24 (- 149) x" and ?m = "round_even (x / pow2 (ulp_exp 24 (- 149) x))"
  have x: "x = of_int ?m * pow2 ?e" using assms by (simp add: repr_def rnd_eq)
  then have "?m \<noteq> 0" using assms(2) by auto
  then have "(1::rat) \<le> of_int \<bar>?m\<bar>" by simp
  then have "pow2 ?e \<le> of_int \<bar>?m\<bar> * pow2 ?e" using mult_right_mono [of 1 _ "pow2 ?e"] by simp
  also have "\<dots> = \<bar>x\<bar>" using arg_cong [OF x, of abs] by (simp add: abs_mult)
  finally have "pow2 ?e \<le> \<bar>x\<bar>" .
  moreover have "pow2 (- 149) \<le> pow2 ?e" by (simp add: ulp_exp_def)
  ultimately show ?thesis by linarith
qed

lemma nonzero_dir_f32: "is_f32 d \<Longrightarrow> step_of d \<noteq> 0 \<Longrightarrow> nonzero_dir d"
  by (cases d) (auto simp: step_of_def nonzero_dir_def is_f32_def dest: repr_min split: if_splits)

lemma bounded_div:
  assumes "bounded i a" "nonzero_dir d" "0 \<le> i" "i < 800"
  shows "bounded (i + 149) (fdiv rnd64 a d)"
proof -
  obtain q where q: "a = Fin q" "\<bar>q\<bar> \<le> pow2 i" using assms(1) by (auto simp: bounded_def)
  consider (inf) s where "d = FInf s" | (fin) x where "d = Fin x" "pow2 (- 149) \<le> \<bar>x\<bar>"
    using assms(2) by (auto simp: nonzero_dir_def)
  then show ?thesis
  proof cases
    case inf
    then show ?thesis by (simp add: q(1) bounded_def)
  next
    case fin
    have x: "0 < \<bar>x\<bar>" using fin(2) pow2_pos [of "- 149"] by linarith
    have "\<bar>q\<bar> \<le> pow2 (i + 149) * pow2 (- 149)" using q(2) by (simp flip: pow2_add)
    also have "\<dots> \<le> pow2 (i + 149) * \<bar>x\<bar>" using fin(2) by (intro mult_left_mono) simp_all
    finally have "\<bar>q / x\<bar> \<le> pow2 (i + 149)" using x by (simp add: abs_divide pos_divide_le_eq)
    from bounded_rnd [OF this] show ?thesis using assms(3,4) x by (simp add: q(1) fin(1))
  qed
qed


text \<open>The boundary parameters of a segment between finite points.\<close>

lemma bounded_f32: "is_fin x \<Longrightarrow> is_f32 x \<Longrightarrow> bounded 128 x"
  by (cases x) (auto simp: bounded_def is_f32_def)

lemma fabs_nonzero_dir: "nonzero_dir d \<Longrightarrow> nonzero_dir (fabs d)"
  by (auto simp: nonzero_dir_def)

lemma t_delta_bounded:
  assumes "is_fin cell" "is_f32 cell" "is_f32 d" "step_of d \<noteq> 0"
  shows "bounded 299 (t_delta d cell)"
proof -
  have "bounded (128 + 149) (fdiv rnd64 cell (fabs d))"
    using assms by (intro bounded_div bounded_f32 fabs_nonzero_dir nonzero_dir_f32) simp_all
  then show ?thesis using assms(4) by (auto simp: t_delta_def intro: bounded_mono)
qed

lemma t_max_bounded:
  assumes "is_fin f" "is_f32 f" "is_fin lo" "is_f32 lo" "is_fin cell" "is_f32 cell" "is_f32 d" "step_of d \<noteq> 0" "0 \<le> c" "c < 1000000"
  shows "bounded 299 (t_max d f lo cell c)"
proof -
  have s: "max (step_of d) 0 \<in> {0, 1}" by (simp add: step_of_def)
  then have "\<bar>c + max (step_of d) 0\<bar> \<le> 2 ^ 20" using assms(9,10) by auto
  from int_le_pow2 [OF this] have n: "bounded 20 (rnd64 (of_int (c + max (step_of d) 0)))" by (intro bounded_rnd) simp_all
  have "bounded (20 + 128) (mul64 (rnd64 (of_int (c + max (step_of d) 0))) cell)"
    using n assms by (intro bounded_mul bounded_f32) simp_all
  then have "bounded (148 + 1) (add64 lo (mul64 (rnd64 (of_int (c + max (step_of d) 0))) cell))"
    using assms by (intro bounded_add bounded_mono [OF bounded_f32, of lo 148]) simp_all
  then have "bounded (149 + 1) (sub64 (add64 lo (mul64 (rnd64 (of_int (c + max (step_of d) 0))) cell)) f)"
    using assms by (intro bounded_sub bounded_mono [OF bounded_f32, of f 149]) simp_all
  then have "bounded (150 + 149) (fdiv rnd64 (sub64 (add64 lo (mul64 (rnd64 (of_int (c + max (step_of d) 0))) cell)) f) d)"
    using assms by (intro bounded_div nonzero_dir_f32) simp_all
  then show ?thesis using assms(8) by (simp add: t_max_def)
qed

text \<open>Adding a bounded increment again and again does not overflow: multiples of a power of two are
  rounded to themselves.\<close>

definition within_steps :: "nat \<Rightarrow> f64 \<Rightarrow> bool" where
  "within_steps m x \<longleftrightarrow> (\<exists>q. x = Fin q \<and> \<bar>q\<bar> \<le> of_nat m * pow2 299)"

lemma rnd64_steps:
  assumes "\<bar>q\<bar> \<le> of_nat m * pow2 299" "m \<le> 2 ^ 53"
  shows "within_steps m (rnd64 q)"
proof -
  have "\<bar>int m\<bar> \<le> 2 ^ 53"
    using assms(2) by (metis abs_of_nat of_nat_le_iff of_nat_numeral of_nat_power)
  then have m: "rnd 53 (- 1074) (of_nat m * pow2 299) = of_nat m * pow2 299" using repr_grid [of "int m" 53 "- 1074" 299] by simp
  from assms(1) have "q \<le> of_nat m * pow2 299" "- q \<le> of_nat m * pow2 299" by linarith+
  from rnd_mono [OF _ this(1), of 53 "- 1074"] rnd_mono [OF _ this(2), of 53 "- 1074"]
  have b: "\<bar>rnd 53 (- 1074) q\<bar> \<le> of_nat m * pow2 299" by (simp add: m rnd_neg abs_le_iff)
  have "(of_nat m :: rat) \<le> of_nat (2 ^ 53)" using assms(2) by (simp only: of_nat_le_iff)
  then have "of_nat m * pow2 299 \<le> pow2 53 * pow2 299" by (intro mult_right_mono) (simp_all add: pow2_def)
  also have "\<dots> = pow2 352" by (simp flip: pow2_add)
  also have "\<dots> < pow2 1024" by simp
  finally show ?thesis using b by (auto simp: rnd64_def fin_or_inf_def within_steps_def)
qed

lemma within_steps_add:
  assumes "within_steps m x" "bounded 299 e" "m < 2 ^ 53"
  shows "within_steps (Suc m) (add64 x e)"
proof -
  obtain q p where q: "x = Fin q" "e = Fin p" "\<bar>q\<bar> \<le> of_nat m * pow2 299" "\<bar>p\<bar> \<le> pow2 299"
    using assms(1,2) by (auto simp: within_steps_def bounded_def)
  then have "\<bar>q + p\<bar> \<le> of_nat (Suc m) * pow2 299" by (simp add: distrib_right)
  from rnd64_steps [OF this] assms(3) show ?thesis by (simp add: q(1,2))
qed

lemma within_steps_bounded: "bounded 299 x \<Longrightarrow> within_steps 1 x"
  by (simp add: bounded_def within_steps_def)

section \<open>The walk ends before its bound\<close>

text \<open>The cells still ahead on an axis.\<close>

definition ahead :: "int \<Rightarrow> int \<Rightarrow> int \<Rightarrow> int" where
  "ahead st n c = (if st = 1 then n - c else if st = - 1 then c + 1 else 0)"

lemma step_of_cases: "step_of d = 0 \<or> step_of d = 1 \<or> step_of d = - 1"
  by (simp add: step_of_def)

text \<open>The next step goes along an axis the segment moves on.\<close>

definition goes_on :: "ray \<Rightarrow> nat \<Rightarrow> f64 \<Rightarrow> f64 \<Rightarrow> bool" where
  "goes_on r m tx tz \<longleftrightarrow> (step_of (ry_dx r) \<noteq> 0 \<or> step_of (ry_dz r) \<noteq> 0) \<and> (step_of (ry_dx r) = 0 \<longrightarrow> tx = FInf False) \<and>
     (step_of (ry_dz r) = 0 \<longrightarrow> tz = FInf False \<and> within_steps m tx)"

lemma goes_on_axis:
  assumes "goes_on r m tx tz"
  shows "if flt tx tz then step_of (ry_dx r) \<noteq> 0 else step_of (ry_dz r) \<noteq> 0"
  using assms by (cases tx; cases tz) (auto simp: goes_on_def within_steps_def)

lemma goes_on_step:
  assumes "goes_on r m tx tz" "bounded 299 (t_delta (ry_dx r) cell)" "m < 2 ^ 53"
  shows "goes_on r (Suc m) (if flt tx tz then add64 tx (t_delta (ry_dx r) cell) else tx)
    (if flt tx tz then tz else add64 tz (t_delta (ry_dz r) cell))"
proof (cases "flt tx tz")
  case True
  moreover have "step_of (ry_dx r) \<noteq> 0" using goes_on_axis [OF assms(1)] True by simp
  ultimately show ?thesis using assms within_steps_add [of m tx "t_delta (ry_dx r) cell"]
    unfolding if_P [OF True] goes_on_def by simp
next
  case False
  moreover have z: "step_of (ry_dz r) \<noteq> 0" using goes_on_axis [OF assms(1)] False by simp
  moreover from assms(1) have "step_of (ry_dx r) = 0 \<longrightarrow> tx = FInf False" by (simp add: goes_on_def)
  ultimately show ?thesis unfolding if_not_P [OF False] goes_on_def by simp
qed

lemma ahead_nonneg: "in_grid occ cx cz \<Longrightarrow> 0 \<le> ahead st (oc_gx occ) cx \<and> 0 \<le> ahead st' (oc_gz occ) cz"
  by (simp add: in_grid_def ahead_def)

lemma dda_answers:
  assumes "occ_ok occ" "is_f32 (ry_dx r)" "step_of (ry_dx r) \<noteq> 0 \<Longrightarrow> bounded 299 (t_delta (ry_dx r) (oc_cell_size occ))"
    "in_grid occ cx cz" "goes_on r m tx tz" "m + left \<le> 2 ^ 53"
    "ahead (step_of (ry_dx r)) (oc_gx occ) cx + ahead (step_of (ry_dz r)) (oc_gz occ) cz < int left"
  shows "answers occ r (dda occ r goal left cx cz tx tz)"
  using assms(4-)
proof (induction left arbitrary: m cx cz tx tz)
  case 0
  then show ?case using ahead_nonneg [OF 0(1), of "step_of (ry_dx r)" "step_of (ry_dz r)"] by simp
next
  case (Suc n)
  note c = cell_defined [OF assms(1), of r cx cz]
  let ?sx = "step_of (ry_dx r)" and ?sz = "step_of (ry_dz r)" and ?a = "flt tx tz"
  let ?cx = "if ?a then cx + ?sx else cx" and ?cz = "if ?a then cz else cz + ?sz"
  show ?case
  proof (cases "cell_blocked occ r cx cz = Some False \<and> (cx, cz) \<noteq> goal \<and> in_grid occ ?cx ?cz")
    case False
    obtain b where b: "cell_blocked occ r cx cz = Some b" using c by (cases "cell_blocked occ r cx cz") (simp_all add: answers_def)
    show ?thesis
    proof (cases b)
      case True
      with b c show ?thesis by (subst dda.simps) simp
    next
      case stop: False
      with b False have "(cx, cz) = goal \<or> \<not> in_grid occ ?cx ?cz" by simp
      with b stop show ?thesis by (subst dda.simps) (auto simp: Let_def)
    qed
  next
    case True
    note ax = goes_on_axis [OF Suc.prems(2)]
    have less: "ahead ?sx (oc_gx occ) ?cx + ahead ?sz (oc_gz occ) ?cz < int n"
      using Suc.prems(4) ax step_of_cases [of "ry_dx r"] step_of_cases [of "ry_dz r"] by (auto simp: ahead_def split: if_splits)
    have g: "in_grid occ ?cx ?cz" using True by blast
    have "n \<noteq> 0" using less ahead_nonneg [OF g, of ?sx ?sz] by auto
    moreover have "goes_on r (Suc m) (if ?a then add64 tx (t_delta (ry_dx r) (oc_cell_size occ)) else tx)
        (if ?a then tz else add64 tz (t_delta (ry_dz r) (oc_cell_size occ)))"
    proof (cases "?sx = 0")
      case True
      then show ?thesis using Suc.prems(2) ax by (auto simp: goes_on_def t_delta_def)
    next
      case False
      then show ?thesis using goes_on_step [OF Suc.prems(2) assms(3)] Suc.prems(3) by simp
    qed
    then have "answers occ r (dda occ r goal n ?cx ?cz (if ?a then add64 tx (t_delta (ry_dx r) (oc_cell_size occ)) else tx)
        (if ?a then tz else add64 tz (t_delta (ry_dz r) (oc_cell_size occ))))"
      using Suc.IH [OF g _ _ less, of "Suc m"] Suc.prems(3) by simp
    ultimately show ?thesis using True by (subst dda.simps) (simp add: Let_def)
  qed
qed


lemma clamp_cell_range: "1 \<le> n \<Longrightarrow> 0 \<le> clamp_cell f n \<and> clamp_cell f n < n"
  by (simp add: clamp_cell_def Let_def)

definition finite_point :: "vec \<Rightarrow> bool" where
  "finite_point p \<longleftrightarrow> (case p of (x, y, z) \<Rightarrow> is_fin x \<and> is_f32 x \<and> is_fin y \<and> is_f32 y \<and> is_fin z \<and> is_f32 z)"

lemma is_f32_sub32: "is_f32 a \<Longrightarrow> is_f32 b \<Longrightarrow> is_f32 (sub32 a b)"
  unfolding fsub_def by (intro is_f32_add32) (cases b; simp add: is_f32_def repr_def rnd_neg)+

lemma segment_answers:
  assumes "occ_ok occ" "finite_point p" "finite_point q"
  shows "answers occ (segment_ray p q) (segment_blocked occ p q)"
proof -
  obtain f0 f1 f2 t0 t1 t2 a0 a1 a2 b0 b1 b2 where v: "p = (f0, f1, f2)" "q = (t0, t1, t2)" "oc_min occ = (a0, a1, a2)" "oc_max occ = (b0, b1, b2)"
    by (metis prod_cases3)
  let ?r = "segment_ray p q" and ?cell = "oc_cell_size occ"
  have fin: "is_fin f0" "is_f32 f0" "is_fin f2" "is_f32 f2" "is_fin a0" "is_f32 a0" "is_fin a2" "is_f32 a2" "is_fin ?cell" "is_f32 ?cell"
    using assms by (simp_all add: v finite_point_def occ_ok_def Let_def axis_ok_def split: prod.splits)
  have d: "is_f32 (ry_dx ?r)" "is_f32 (ry_dz ?r)"
    using assms by (simp_all add: v finite_point_def segment_ray_def is_f32_sub32)
  have g: "1 \<le> oc_gx occ" "1 \<le> oc_gz occ" "oc_gx occ \<le> 1000000" "oc_gz occ \<le> 1000000"
    using assms(1) by (simp_all add: occ_ok_def Let_def)
  have walk: "answers occ ?r (dda occ ?r goal (nat (oc_gx occ + oc_gz occ + 4)) cx cz
      (t_max (ry_dx ?r) f0 a0 ?cell cx) (t_max (ry_dz ?r) f2 a2 ?cell cz))"
    if "0 \<le> cx" "cx < oc_gx occ" "0 \<le> cz" "cz < oc_gz occ" "step_of (ry_dx ?r) \<noteq> 0 \<or> step_of (ry_dz ?r) \<noteq> 0" for goal cx cz
  proof (rule dda_answers [OF assms(1) d(1)])
    show "in_grid occ cx cz" using that by (simp add: in_grid_def)
    show "goes_on ?r 1 (t_max (ry_dx ?r) f0 a0 ?cell cx) (t_max (ry_dz ?r) f2 a2 ?cell cz)"
    proof -
      have z: "step_of e = 0 \<Longrightarrow> t_max e f lo cl c = FInf False" for e f lo cl c by (simp add: t_max_def)
      have "within_steps 1 (t_max (ry_dx ?r) f0 a0 ?cell cx)" if "step_of (ry_dx ?r) \<noteq> 0"
        by (intro within_steps_bounded t_max_bounded fin d that) (use \<open>0 \<le> cx\<close> \<open>cx < oc_gx occ\<close> g in simp_all)
      with that(5) show ?thesis unfolding goes_on_def using z by blast
    qed
  qed (use that g fin d t_delta_bounded step_of_cases [of "ry_dx ?r"] step_of_cases [of "ry_dz ?r"] in \<open>auto simp: ahead_def\<close>)
  have cell: "0 \<le> cell_at f d t lo c n \<and> cell_at f d t lo c n < n" if "1 \<le> n" for f d t lo c n
    unfolding cell_at_def by (rule clamp_cell_range [OF that])
  note walk = walk [OF conjunct1 [OF cell [OF g(1)]] conjunct2 [OF cell [OF g(1)]] conjunct1 [OF cell [OF g(2)]] conjunct2 [OF cell [OF g(2)]]]
  show ?thesis
    unfolding segment_blocked_def Let_def
    using walk cell_defined [OF assms(1), of ?r] by (simp add: v split: option.split)
qed

text \<open>C28: A line-of-sight query never brings the server down and blocks only on geometry. Over the
  occluders of any file the loader accepts and between any two finite points, \<open>SegmentBlocked\<close>
  returns: no index is out of range and the panic of its step guard is unreachable, however the
  floating point parameters of the walk round. And it answers "blocked" only when some triangle
  of the file is hit by the segment.\<close>

theorem segment_query_is_safe:
  assumes "parse data = Inr occ" "finite_point p" "finite_point q"
  shows "case segment_blocked occ p q of None \<Rightarrow> False
    | Some b \<Rightarrow> b \<longrightarrow> (\<exists>t. unat t < triangle_count occ \<and> tri_blocked occ (segment_ray p q) t = Some True)"
  using segment_answers [OF parse_accepts_well_formed [OF assms(1)] assms(2,3)] by (simp add: answers_def)


section \<open>Saving and loading\<close>

lemma get_put_nums:
  "\<forall>x\<in>set xs. x < 256 ^ w \<Longrightarrow> length xs = n \<Longrightarrow> get_nums w n (put_nums w xs @ rest) = (xs, rest)"
  by (induction xs arbitrary: n) (auto simp: put_nums_def le_value_bytes)

lemma length_put_nums [simp]: "length (put_nums w xs) = w * length xs"
  by (induction xs) (simp_all add: put_nums_def)

lemma index_width_fits: "x < n \<Longrightarrow> x < 2 ^ 32 \<Longrightarrow> x < 256 ^ index_width n"
  by (simp add: index_width_def)

lemma index_width_cases: "index_width n = 2 \<or> index_width n = 3 \<or> index_width n = 4"
  by (simp add: index_width_def)

lemma unat_map_id [simp]: "map (word_of_nat \<circ> unat) xs = (xs :: 'a::len word list)"
  by (simp add: map_idI)

lemma header_fields_ok:
  assumes "occ_ok occ"
  shows "list_all2 field_ok header_schema (header_fields occ)"
  using assms by (simp add: occ_ok_def Let_def axis_ok_def header_schema_def header_fields_def zeros_def split: prod.splits)

lemma parse_tables_encode:
  assumes "occ_ok occ"
  shows "parse_tables (occ_width occ) (vertex_count occ) (triangle_count occ) (n_cells occ) (length (oc_cell_tris occ))
    (put_nums 2 (map unat (oc_verts occ)) @ put_nums (occ_width occ) (map unat (oc_tris occ))
      @ put_nums 4 (map unat (oc_cell_start occ)) @ put_nums (occ_width occ) (map unat (oc_cell_tris occ))) base =
    Inr (base\<lparr>oc_verts := oc_verts occ, oc_tris := oc_tris occ, oc_cell_start := oc_cell_start occ, oc_cell_tris := oc_cell_tris occ\<rparr>)"
proof -
  let ?w = "occ_width occ"
  have ok: "length (oc_verts occ) = vertex_count occ * 3" "length (oc_tris occ) = triangle_count occ * 3" "\<forall>t\<in>set (oc_tris occ). unat t < vertex_count occ"
    "length (oc_cell_start occ) = n_cells occ + 1" "unat (oc_cell_start occ ! 0) = 0" "unat (oc_cell_start occ ! n_cells occ) = length (oc_cell_tris occ)"
    "sorted (oc_cell_start occ)" "\<forall>t\<in>set (oc_cell_tris occ). unat t < triangle_count occ"
    using assms by (simp_all add: occ_ok_def Let_def)
  have fit: "unat t < 256 ^ ?w" if "unat t < vertex_count occ \<or> unat t < triangle_count occ" for t :: u32
    unfolding occ_width_def using that unsigned_less [of t, where 'a = nat] by (intro index_width_fits) auto
  have small: "unat q < 256 ^ 2" for q :: "16 word" using unsigned_less [of q, where 'a = nat] by simp
  have word: "unat c < 256 ^ 4" for c :: u32 using unsigned_less [of c, where 'a = nat] by simp
  have vs: "get_nums 2 (vertex_count occ * 3) (put_nums 2 (map unat (oc_verts occ)) @ rest) = (map unat (oc_verts occ), rest)" for rest
    using ok(1) small by (intro get_put_nums) auto
  have ts: "get_nums ?w (triangle_count occ * 3) (put_nums ?w (map unat (oc_tris occ)) @ rest) = (map unat (oc_tris occ), rest)" for rest
    using ok(2,3) fit by (intro get_put_nums) auto
  have cs: "get_nums 4 (n_cells occ + 1) (put_nums 4 (map unat (oc_cell_start occ)) @ rest) = (map unat (oc_cell_start occ), rest)" for rest
    using ok(4) word by (intro get_put_nums) auto
  have rs: "get_nums ?w (length (oc_cell_tris occ)) (put_nums ?w (map unat (oc_cell_tris occ))) = (map unat (oc_cell_tris occ), [])"
    using ok(8) fit get_put_nums [of "map unat (oc_cell_tris occ)" ?w "length (oc_cell_tris occ)" "[]"] by auto
  have m: "monotonic (map unat (oc_cell_start occ))" using ok(7) by (simp add: monotonic_sorted sorted_map flip: word_le_nat_alt)
  have i: "map unat (oc_cell_start occ) ! 0 = 0" "map unat (oc_cell_start occ) ! n_cells occ = length (oc_cell_tris occ)"
    using ok(4-6) by simp_all
  show ?thesis
    unfolding parse_tables_def vs ts cs rs prod.case using m i ok(3,8) by (auto simp: not_le)
qed


lemma header_passes:
  assumes "occ_ok occ" "len = tables_size (occ_width occ) (vertex_count occ) (triangle_count occ) (n_cells occ) + length (oc_cell_tris occ) * occ_width occ"
  shows "header_error len ''ZLOS'' 1 1 (occ_width occ) (vertex_count occ) (triangle_count occ) (nat (oc_gx occ)) (nat (oc_gz occ)) (oc_cell_size occ) = None"
proof -
  have n: "nat (oc_gx occ) * nat (oc_gz occ) = n_cells occ" using assms(1) by (simp add: n_cells_def occ_ok_def Let_def nat_mult_distrib)
  have w: "occ_width occ = 2 \<or> occ_width occ = 3 \<or> occ_width occ = 4" by (simp add: occ_width_def index_width_cases)
  have "n_cells occ \<le> 67108864" using assms(1) by (simp add: n_cells_def occ_ok_def Let_def nat_le_iff)
  moreover have "\<not> fle c (Fin 0)" if "flt (Fin 0) c" for c using that by (cases c) auto
  ultimately show ?thesis
    using assms w unfolding header_error_def n Let_def
    by (auto simp: occ_ok_def Let_def max_vertices_def max_triangles_def max_grid_dim_def max_cells_def max_cell_refs_def nat_le_iff)
qed

lemma encode_ok:
  assumes "occ_ok occ"
  shows "encode_occ occ = Some (put_struct (header_fields occ) @ put_nums 2 (map unat (oc_verts occ)) @ put_nums (occ_width occ) (map unat (oc_tris occ))
      @ put_nums 4 (map unat (oc_cell_start occ)) @ put_nums (occ_width occ) (map unat (oc_cell_tris occ)))"
  using assms by (simp add: encode_occ_def occ_ok_def Let_def)

lemma encode_length:
  assumes "occ_ok occ" "encode_occ occ = Some data"
  shows "length data = encoded_size occ"
    "length data = tables_size (occ_width occ) (vertex_count occ) (triangle_count occ) (n_cells occ) + length (oc_cell_tris occ) * occ_width occ"
proof -
  have h: "length (put_struct (header_fields occ)) = header_size"
    using length_put_struct [OF header_fields_ok [OF assms(1)]] by (simp add: struct_size_def header_schema_def header_size_def)
  have l: "length (oc_verts occ) = vertex_count occ * 3" "length (oc_tris occ) = triangle_count occ * 3" "length (oc_cell_start occ) = n_cells occ + 1"
    using assms(1) by (simp_all add: occ_ok_def Let_def)
  have "length data = header_size + 2 * (vertex_count occ * 3) + occ_width occ * (triangle_count occ * 3) + 4 * (n_cells occ + 1)
      + occ_width occ * length (oc_cell_tris occ)"
    using assms(2) h l by (auto simp: encode_ok [OF assms(1)])
  then show "length data = encoded_size occ"
    "length data = tables_size (occ_width occ) (vertex_count occ) (triangle_count occ) (n_cells occ) + length (oc_cell_tris occ) * occ_width occ"
    by (simp_all add: encoded_size_def tables_size_def)
qed

lemma parse_encode:
  assumes "occ_ok occ" "encoded_size occ \<le> max_file_bytes"
  shows "\<exists>data. encode_occ occ = Some data \<and> length data = encoded_size occ \<and>
    parse data = Inr (occ\<lparr>oc_file_bytes := int (encoded_size occ)\<rparr>)"
proof -
  obtain data where data: "encode_occ occ = Some data" using encode_ok [OF assms(1)] by blast
  note len = encode_length [OF assms(1) data]
  obtain a0 a1 a2 b0 b1 b2 c0 c1 c2 s0 s1 s2 where v: "oc_min occ = (a0, a1, a2)" "oc_max occ = (b0, b1, b2)"
    "oc_origin occ = (c0, c1, c2)" "oc_scale occ = (s0, s1, s2)" by (metis prod_cases3)
  let ?body = "put_nums 2 (map unat (oc_verts occ)) @ put_nums (occ_width occ) (map unat (oc_tris occ))
      @ put_nums 4 (map unat (oc_cell_start occ)) @ put_nums (occ_width occ) (map unat (oc_cell_tris occ))"
  have gs: "get_struct header_schema data = Some (header_fields occ, ?body)"
    using data get_put_struct [OF header_fields_ok [OF assms(1)]] by (auto simp: encode_ok [OF assms(1)])
  have ok: "0 < oc_gx occ" "oc_gx occ \<le> 1000000" "0 < oc_gz occ" "oc_gz occ \<le> 1000000" "vertex_count occ \<le> 50000000" "triangle_count occ \<le> 50000000"
    using assms(1) by (simp_all add: occ_ok_def Let_def)
  have w: "occ_width occ = 2 \<or> occ_width occ = 3 \<or> occ_width occ = 4" by (simp add: occ_width_def index_width_cases)
  have u: "unat (word_of_nat (occ_width occ) :: u8) = occ_width occ" "unat (word_of_nat (vertex_count occ) :: u32) = vertex_count occ"
    "unat (word_of_nat (triangle_count occ) :: u32) = triangle_count occ" "uint (word_of_int (oc_gx occ) :: u32) = oc_gx occ"
    "uint (word_of_int (oc_gz occ) :: u32) = oc_gz occ" "unat (word_of_int (oc_gx occ) :: u32) = nat (oc_gx occ)"
    "unat (word_of_int (oc_gz occ) :: u32) = nat (oc_gz occ)"
  proof -
    show "unat (word_of_nat (occ_width occ) :: u8) = occ_width occ" using w by (elim disjE) simp_all
    show "unat (word_of_nat (vertex_count occ) :: u32) = vertex_count occ" "unat (word_of_nat (triangle_count occ) :: u32) = triangle_count occ"
      using ok(5,6) by (simp_all add: unat_of_nat)
    show g: "uint (word_of_int (oc_gx occ) :: u32) = oc_gx occ" "uint (word_of_int (oc_gz occ) :: u32) = oc_gz occ"
      using ok(1-4) by (simp_all add: uint_word_of_int)
    show "unat (word_of_int (oc_gx occ) :: u32) = nat (oc_gx occ)" "unat (word_of_int (oc_gz occ) :: u32) = nat (oc_gz occ)"
      unfolding unat_eq_nat_uint g by (rule refl)+
  qed
  have n: "nat (oc_gx occ) * nat (oc_gz occ) = n_cells occ" using ok by (simp add: n_cells_def nat_mult_distrib)
  have ax: "axis_error a0 b0 c0 s0 = None" "axis_error a1 b1 c1 s1 = None" "axis_error a2 b2 c2 s2 = None"
    using assms(1) by (simp_all add: occ_ok_def Let_def v) (simp_all add: axis_error_None axis_ok_def)
  have refs: "(length data - tables_size (occ_width occ) (vertex_count occ) (triangle_count occ) (n_cells occ)) div occ_width occ = length (oc_cell_tris occ)"
    using len(2) w by auto
  have "parse_body (length data) (header_fields occ) ?body = Inr (occ\<lparr>oc_file_bytes := int (encoded_size occ)\<rparr>)"
    unfolding parse_body_def header_fields_def v prod.case list.case field.case u n refs
    using parse_tables_encode [OF assms(1)] header_passes [OF assms(1) len(2)] ax len(1) v by simp
  moreover have "\<not> max_file_bytes < length data" using assms(2) len(1) by simp
  ultimately show ?thesis using data len(1) gs by (simp add: parse_def)
qed


text \<open>C30: A saved occluder file is read back. For well-formed occluders \<open>Save\<close> writes exactly
  \<open>encodedSize\<close> bytes, and \<open>parse\<close> reads them back as the same occluders, in every field, the index
  width chosen from the counts included, as long as the file is not larger than the loader takes.\<close>

theorem occluders_roundtrip:
  assumes "occ_ok occ" "encoded_size occ \<le> max_file_bytes"
  shows "\<exists>data. encode_occ occ = Some data \<and> length data = encoded_size occ \<and>
    parse data = Inr (occ\<lparr>oc_file_bytes := int (encoded_size occ)\<rparr>)"
  by (rule parse_encode [OF assms])

section \<open>The negative cache\<close>

text \<open>A run of the gate: the levels clients named, and the files read for them.\<close>

fun gate_run :: "(string \<Rightarrow> string \<Rightarrow> bytes option) \<Rightarrow> (string \<times> vec \<times> vec) list \<Rightarrow> los_manager \<Rightarrow> bool option list \<times> los_manager" where
  "gate_run files [] m = ([], m)"
| "gate_run files ((level, a, b) # qs) m = (case damage_allowed files level a b m of
     (r, m1) \<Rightarrow> (case gate_run files qs m1 of (rs, m2) \<Rightarrow> (r # rs, m2)))"

text \<open>The loaded occluders come from files of the data directory with a safe name.\<close>

definition gate_ok :: "(string \<Rightarrow> string \<Rightarrow> bytes option) \<Rightarrow> los_manager \<Rightarrow> bool" where
  "gate_ok files m \<longleftrightarrow> finite (lm_missing m) \<and> card (lm_missing m) \<le> 256 \<and>
     (\<forall>level occ. lm_loaded m level = Some occ \<longrightarrow> safe_level_name level \<and>
        (\<exists>data. files (lm_dir m) (level @ ''.occl'') = Some data \<and> parse data = Inr occ))"

lemma gate_ok_new: "gate_ok files (new_los_manager e d)"
  by (simp add: gate_ok_def new_los_manager_def)

lemma gate_ok_missing: "gate_ok files m \<Longrightarrow> gate_ok files (cache_missing level m)"
  by (auto simp: gate_ok_def cache_missing_def card_insert_if)

lemma load_occ_Inr: "load_occ files path = Inr occ \<Longrightarrow> \<exists>data. files path = Some data \<and> parse data = Inr occ"
  by (auto simp: load_occ_def split: option.splits if_splits)

lemma occluder_for_ok:
  assumes "gate_ok files m"
  shows "gate_ok files (snd (occluder_for files level m)) \<and> lm_dir (snd (occluder_for files level m)) = lm_dir m"
proof (cases "lm_enabled m \<and> lm_loaded m level = None \<and> level \<notin> lm_missing m \<and> safe_level_name level")
  case False
  then show ?thesis using assms gate_ok_missing [OF assms] by (auto simp: occluder_for_def cache_missing_def split: option.split)
next
  case True
  show ?thesis
  proof (cases "load_occ (files (lm_dir m)) (level @ ''.occl'')")
    case (Inl e)
    then show ?thesis using True assms gate_ok_missing [OF assms] by (auto simp: occluder_for_def cache_missing_def)
  next
    case (Inr occ)
    from load_occ_Inr [OF this] True Inr assms show ?thesis by (auto simp: occluder_for_def gate_ok_def)
  qed
qed

lemma occluder_for_parsed:
  assumes "gate_ok files m" "fst (occluder_for files level m) = Some occ"
  shows "\<exists>data. parse data = Inr occ"
proof (cases "lm_loaded m level")
  case (Some o')
  with assms show ?thesis by (auto simp: occluder_for_def gate_ok_def split: if_splits)
next
  case None
  with assms(2) show ?thesis by (auto simp: occluder_for_def dest!: load_occ_Inr split: if_splits sum.splits)
qed

lemma finite_raised: "finite_point p \<Longrightarrow> \<bar>fval (fst (snd p))\<bar> \<le> 2 ^ 20 \<Longrightarrow> \<bar>h\<bar> \<le> 2 \<Longrightarrow> finite_point (raised h p)"
proof -
  assume a: "finite_point p" "\<bar>fval (fst (snd p))\<bar> \<le> 2 ^ 20" "\<bar>h\<bar> \<le> 2"
  obtain x y z where p: "p = (x, Fin y, z)" using a(1) by (cases p; cases "fst (snd p)") (auto simp: finite_point_def)
  have h: "\<bar>h\<bar> \<le> pow2 1" using a(3) by (simp add: pow2_def)
  note r = rnd32_fin [OF h] rnd_bound [OF h, of "- 149" 24]
  have "\<bar>y\<bar> \<le> pow2 20" using a(2) by (simp add: p pow2_def)
  then have "\<bar>y + rnd 24 (- 149) h\<bar> \<le> pow2 21" using r(2) by (simp add: pow2_def)
  from rnd32_fin [OF this] a(1) r(1) show ?thesis
    using is_f32_add32 [of "Fin y" "rnd32 h"] is_f32_rnd32 [of h] by (simp add: raised_def finite_point_def p)
qed

lemma any_clear_returns:
  assumes "parse data = Inr occ" "finite_point eye" "\<forall>p\<in>set ps. finite_point p"
  shows "any_clear occ eye ps \<noteq> None"
  using assms(3)
proof (induction ps)
  case (Cons p ps)
  from Cons.prems segment_answers [OF parse_accepts_well_formed [OF assms(1)] assms(2), of p]
  obtain b where "segment_blocked occ eye p = Some b" by (auto simp: answers_def split: option.splits)
  with Cons show ?case by (cases b) auto
qed auto


definition near_point :: "vec \<Rightarrow> bool" where
  "near_point p \<longleftrightarrow> finite_point p \<and> \<bar>fval (fst (snd p))\<bar> \<le> 2 ^ 20"

lemma damage_allowed_returns:
  assumes "gate_ok files m" "near_point a" "near_point b"
  shows "fst (damage_allowed files level a b m) \<noteq> None"
proof (cases "fst (occluder_for files level m)")
  case None
  then show ?thesis by (cases "occluder_for files level m") (simp add: damage_allowed_def)
next
  case (Some occ)
  obtain data where "parse data = Inr occ" using occluder_for_parsed [OF assms(1) Some] by blast
  then have "any_clear occ (raised (8 / 5) a) [raised (8 / 5) b, raised 1 b, raised (1 / 2) b] \<noteq> None"
    using assms(2,3) by (intro any_clear_returns) (auto simp: near_point_def intro!: finite_raised)
  then show ?thesis using Some by (auto simp: damage_allowed_def split: prod.split)
qed

lemma damage_allowed_state: "snd (damage_allowed files level a b m) = snd (occluder_for files level m)"
  by (auto simp: damage_allowed_def split: prod.split option.split)

text \<open>Two file systems that hold the same files under the safe names of a directory.\<close>

definition same_safe_files :: "string \<Rightarrow> (string \<Rightarrow> string \<Rightarrow> bytes option) \<Rightarrow> (string \<Rightarrow> string \<Rightarrow> bytes option) \<Rightarrow> bool" where
  "same_safe_files dir f g \<longleftrightarrow> (\<forall>level. safe_level_name level \<longrightarrow> f dir (level @ ''.occl'') = g dir (level @ ''.occl''))"

lemma occluder_for_safe:
  assumes "same_safe_files (lm_dir m) f g"
  shows "occluder_for f level m = occluder_for g level m"
  using assms by (auto simp: occluder_for_def same_safe_files_def load_occ_def split: option.split)

lemma occluder_for_dir: "lm_dir (snd (occluder_for f level m)) = lm_dir m"
  by (auto simp: occluder_for_def cache_missing_def split: option.split sum.split)

lemma gate_run_safe: "same_safe_files (lm_dir m) f g \<Longrightarrow> gate_run f qs m = gate_run g qs m"
proof (induction f qs m rule: gate_run.induct)
  case (2 f level a b qs m)
  have e: "damage_allowed f level a b m = damage_allowed g level a b m"
    using occluder_for_safe [OF 2(2)] by (simp add: damage_allowed_def)
  obtain r m1 where d: "damage_allowed f level a b m = (r, m1)" by fastforce
  have "lm_dir m1 = lm_dir m" using damage_allowed_state [of f level a b m] d occluder_for_dir by (metis snd_conv)
  with 2 d e show ?case by simp
qed simp

lemma gate_run_dir: "gate_run f qs m = (rs, m') \<Longrightarrow> lm_dir m' = lm_dir m"
proof (induction f qs m arbitrary: rs rule: gate_run.induct)
  case (2 f level a b qs m)
  obtain r m1 where d: "damage_allowed f level a b m = (r, m1)" by fastforce
  have "lm_dir m1 = lm_dir m" using damage_allowed_state [of f level a b m] d occluder_for_dir by (metis snd_conv)
  with 2 d show ?case by (auto split: prod.splits)
qed simp

text \<open>C29: The gate of the damage handler is safe against what clients name. Whatever levels clients
  report and whatever the files hold, every query between finite points less than \<open>2^20\<close> high returns (fail open or
  an answer, never a panic), at most 256 failed levels are remembered, every occluder it keeps
  was parsed from a file of the data directory whose name is made of letters, digits, \<open>_\<close>, \<open>-\<close> and
  \<open>.\<close> without \<open>..\<close>, and no other file has any influence: with any other contents in the files outside the directory
  or under other names, all answers and the state are the same. No name leads out of the directory.\<close>

theorem los_gate_is_safe:
  assumes "gate_run files qs (new_los_manager enabled dir) = (rs, m)"
    "\<forall>q\<in>set qs. near_point (fst (snd q)) \<and> near_point (snd (snd q))"
  shows "None \<notin> set rs \<and> card (lm_missing m) \<le> 256 \<and>
    (\<forall>level occ. lm_loaded m level = Some occ \<longrightarrow> safe_level_name level \<and>
       (\<exists>data. files (lm_dir m) (level @ ''.occl'') = Some data \<and> parse data = Inr occ)) \<and>
    (\<forall>others. same_safe_files (lm_dir m) others files \<longrightarrow> gate_run others qs (new_los_manager enabled dir) = (rs, m))"
proof -
  have "gate_ok files m \<and> None \<notin> set rs" if "gate_ok files m0" "gate_run files qs m0 = (rs, m)" for m0
    using assms(2) that
  proof (induction qs arbitrary: m0 rs)
    case (Cons q qs)
    obtain level a b where q: "q = (level, a, b)" by (metis prod_cases3)
    obtain r m1 where d: "damage_allowed files level a b m0 = (r, m1)" by fastforce
    obtain rs' where g: "gate_run files qs m1 = (rs', m)" "rs = r # rs'" using Cons.prems(3) d by (auto simp: q split: prod.splits)
    have "r \<noteq> None" using damage_allowed_returns [OF Cons.prems(2), of a b level] Cons.prems(1) d by (simp add: q)
    moreover have "gate_ok files m1"
      using occluder_for_ok [OF Cons.prems(2), of level] damage_allowed_state [of files level a b m0] d by simp
    ultimately show ?case using Cons.IH [OF _ _ g(1)] Cons.prems(1) g(2) by auto
  qed simp
  note ok = this [OF gate_ok_new assms(1)]
  have "gate_run others qs (new_los_manager enabled dir) = (rs, m)" if "same_safe_files (lm_dir m) others files" for others
    using gate_run_safe [of "new_los_manager enabled dir" others files qs] that gate_run_dir [OF assms(1)] assms(1) by simp
  with ok show ?thesis by (simp add: gate_ok_def)
qed

section \<open>A concrete file\<close>

text \<open>One triangle in one cell.\<close>

definition demo_occ :: occluders where
  "demo_occ = \<lparr>oc_min = (Fin 0, Fin 0, Fin 0), oc_max = (Fin 1, Fin 1, Fin 1), oc_origin = (Fin 0, Fin 0, Fin 0), oc_cell_size = Fin 3,
     oc_gx = 1, oc_gz = 1, oc_scale = (Fin 1, Fin 1, Fin 1), oc_verts = [0, 0, 0, 1, 0, 0, 0, 1, 0], oc_tris = [0, 1, 2],
     oc_cell_start = [0, 1], oc_cell_tris = [0], oc_file_bytes = 0\<rparr>"

definition demo_file :: bytes where
  "demo_file = the (encode_occ demo_occ)"

lemma is_f32_small: "is_f32 (Fin 0)" "is_f32 (Fin 1)" "is_f32 (Fin 3)"
  using rnd_int [of 1 24 "- 149"] rnd_int [of 3 24 "- 149"] by (simp_all add: is_f32_def repr_def) (simp_all add: pow2_def)

lemma demo_occ_ok: "occ_ok demo_occ"
  by (simp add: occ_ok_def demo_occ_def vertex_count_def triangle_count_def n_cells_def axis_ok_def is_f32_small)

lemma demo_occ_size: "encoded_size demo_occ = 122"
  by (simp add: encoded_size_def demo_occ_def vertex_count_def triangle_count_def n_cells_def occ_width_def index_width_def header_size_def)

lemma demo_file_parses: "\<exists>occ. parse demo_file = Inr occ \<and> oc_tris occ = [0, 1, 2]"
proof -
  have "encoded_size demo_occ \<le> max_file_bytes" by (simp add: demo_occ_size max_file_bytes_def)
  from parse_encode [OF demo_occ_ok this] show ?thesis by (auto simp: demo_file_def demo_occ_def)
qed

lemma parse_accepts_well_formed_witness: "\<exists>occ. parse demo_file = Inr occ \<and> occ_ok occ"
  using demo_file_parses parse_accepts_well_formed by blast

lemma demo_points: "finite_point (Fin 0, Fin 0, Fin 0)" "finite_point (Fin 1, Fin 1, Fin 3)"
  by (simp_all add: finite_point_def is_f32_small)

lemma segment_query_is_safe_witness:
  "\<exists>occ. parse demo_file = Inr occ \<and> segment_blocked occ (Fin 0, Fin 0, Fin 0) (Fin 1, Fin 1, Fin 3) \<noteq> None"
proof -
  obtain occ where o: "parse demo_file = Inr occ" using demo_file_parses by blast
  from segment_query_is_safe [OF o demo_points] o show ?thesis
    by (cases "segment_blocked occ (Fin 0, Fin 0, Fin 0) (Fin 1, Fin 1, Fin 3)") auto
qed

lemma occluders_roundtrip_witness:
  "\<exists>data. encode_occ demo_occ = Some data \<and> parse data = Inr (demo_occ\<lparr>oc_file_bytes := 122\<rparr>)"
proof -
  have "encoded_size demo_occ \<le> max_file_bytes" by (simp add: demo_occ_size max_file_bytes_def)
  from occluders_roundtrip [OF demo_occ_ok this] demo_occ_size show ?thesis by auto
qed

text \<open>A directory with the file of one level; a client also names a level that leads out of it.\<close>

definition demo_files :: "string \<Rightarrow> string \<Rightarrow> bytes option" where
  "demo_files dir name = (if name = ''l01.occl'' then Some demo_file else None)"

lemma los_gate_is_safe_witness:
  "\<exists>rs m. gate_run demo_files [(''l01'', (Fin 0, Fin 0, Fin 0), (Fin 1, Fin 1, Fin 3)), (''../l01'', (Fin 0, Fin 0, Fin 0), (Fin 1, Fin 1, Fin 3))]
     (new_los_manager True []) = (rs, m) \<and> None \<notin> set rs \<and> card (lm_missing m) \<le> 256"
proof -
  let ?qs = "[(''l01'', (Fin 0, Fin 0, Fin 0), (Fin 1, Fin 1, Fin 3)), (''../l01'', (Fin 0, Fin 0, Fin 0), (Fin 1, Fin 1, Fin 3))]"
  obtain rs m where r: "gate_run demo_files ?qs (new_los_manager True []) = (rs, m)" by fastforce
  have "\<forall>q\<in>set ?qs. near_point (fst (snd q)) \<and> near_point (snd (snd q))" by (simp add: near_point_def demo_points)
  from los_gate_is_safe [OF r this] r show ?thesis by blast
qed

end
