(* ===== verification/OccluderBuild.thy ===== *)
theory OccluderBuild
  imports Occluders
begin

text \<open>
  \<open>Build\<close> of internal/los/los.go: from a triangle mesh to the occluders that a file holds. The vertices in use are
  renumbered and quantised, the triangles are sorted into the cells of a grid by counting: count, prefix sums, scatter. An
  index out of range, or a slice of negative length, is a panic: the value \<open>None\<close>. The numbers of triangles and vertices
  are below \<open>2\<^sup>3\<^sup>1\<close>, so that those kept as \<open>int32\<close> do not wrap.

  The properties: what \<open>Build\<close> makes of finite vertices is well-formed and survives the file, and no triangle is missing
  from a cell that it touches.
\<close>

type_synonym tri = "u32 \<times> u32 \<times> u32"

record mesh =
  ms_verts :: "vec list"
  ms_tris :: "tri list"

record build_options =
  bo_cell :: f32
  bo_min_area :: f32

datatype build_error = NilMesh | NoVertices | BadVertex nat | HugeGrid int int | HugeTable

definition default_cell_size :: f32 where
  "default_cell_size = Fin 3"

definition pick_cell_size :: "f32 \<Rightarrow> f32" where
  "pick_cell_size c = (if fle c (Fin 0) \<or> \<not> is_fin c then default_cell_size else c)"

definition pick_min_area :: "f32 \<Rightarrow> f64" where
  "pick_min_area a = (if is_nan a \<or> is_inf a \<or> flt a (Fin 0) then Fin 0 else a)"

section \<open>The triangles that are kept\<close>

definition tri_area :: "vec \<Rightarrow> vec \<Rightarrow> vec \<Rightarrow> f64" where
  "tri_area a b c = (case (a, b, c) of ((a0, a1, a2), (b0, b1, b2), (c0, c1, c2)) \<Rightarrow>
     (case cross64 (sub32 b0 a0, sub32 b1 a1, sub32 b2 a2) (sub32 c0 a0, sub32 c1 a1, sub32 c2 a2) of (x, y, z) \<Rightarrow>
       mul64 (Fin (1 / 2)) (fsqrt (add64 (add64 (mul64 x x) (mul64 y y)) (mul64 z z)))))"

definition is_kept :: "f64 \<Rightarrow> f64 \<Rightarrow> bool" where
  "is_kept min_area area \<longleftrightarrow> \<not> fle area (Fin 0) \<and> \<not> (flt (Fin 0) min_area \<and> flt area min_area)"

fun kept_tris :: "f64 \<Rightarrow> vec list \<Rightarrow> nat \<Rightarrow> tri list \<Rightarrow> build_error + tri list" where
  "kept_tris ma vs i [] = Inr []"
| "kept_tris ma vs i ((t0, t1, t2) # ts) =
     (if length vs \<le> unat t0 \<or> length vs \<le> unat t1 \<or> length vs \<le> unat t2 then Inl (BadVertex i)
      else case kept_tris ma vs (Suc i) ts of Inl e \<Rightarrow> Inl e
      | Inr ks \<Rightarrow> Inr (if is_kept ma (tri_area (vs ! unat t0) (vs ! unat t1) (vs ! unat t2)) then (t0, t1, t2) # ks else ks))"

definition tri_indices :: "tri \<Rightarrow> nat list" where
  "tri_indices t = (case t of (t0, t1, t2) \<Rightarrow> [unat t0, unat t1, unat t2])"

definition corners :: "vec list \<Rightarrow> tri \<Rightarrow> vec list" where
  "corners vs t = map (\<lambda>i. vs ! i) (tri_indices t)"

section \<open>Bounds and the grid\<close>

definition axis_range :: "f64 list \<Rightarrow> f64 \<times> f64" where
  "axis_range fs = fold (\<lambda>f (lo, hi). (if flt f lo then f else lo, if flt hi f then f else hi)) fs (FInf False, FInf True)"

definition int64_ceil :: "f64 \<Rightarrow> int" where
  "int64_ceil x = (case x of Fin q \<Rightarrow> if in_int64 \<lceil>q\<rceil> then \<lceil>q\<rceil> else - (2 ^ 63) | _ \<Rightarrow> - (2 ^ 63))"

definition grid_dim :: "f64 \<Rightarrow> f32 \<Rightarrow> int" where
  "grid_dim ext cell = max 1 (int64_ceil (fdiv rnd64 ext cell))"

text \<open>\<open>math.Min\<close> and \<open>math.Max\<close>.\<close>

definition go_min :: "f64 \<Rightarrow> f64 \<Rightarrow> f64" where
  "go_min x y = (if x = FInf True \<or> y = FInf True then FInf True else if is_nan x \<or> is_nan y then FNaN
     else if flt x y then x else y)"

definition go_max :: "f64 \<Rightarrow> f64 \<Rightarrow> f64" where
  "go_max x y = (if x = FInf False \<or> y = FInf False then FInf False else if is_nan x \<or> is_nan y then FNaN
     else if flt y x then x else y)"

text \<open>The cell of a coordinate, and the cells a triangle covers along one axis.\<close>

definition axis_cell :: "f64 \<Rightarrow> f32 \<Rightarrow> int \<Rightarrow> f64 \<Rightarrow> int" where
  "axis_cell lo cell n f = clamp_cell (fdiv rnd64 (sub64 f lo) cell) n"

definition lowest :: "f64 list \<Rightarrow> f64" where
  "lowest fs = fold (\<lambda>f m. go_min m f) (tl fs) (hd fs)"

definition highest :: "f64 list \<Rightarrow> f64" where
  "highest fs = fold (\<lambda>f m. go_max m f) (tl fs) (hd fs)"

definition axis_cells :: "f64 \<Rightarrow> f32 \<Rightarrow> int \<Rightarrow> f64 list \<Rightarrow> int \<times> int" where
  "axis_cells lo cell n fs = (axis_cell lo cell n (lowest fs), axis_cell lo cell n (highest fs))"

text \<open>The indices of the cells of a rectangle, row by row, and their number as a \<open>uint64\<close>.\<close>

definition rect_cells :: "int \<Rightarrow> (int \<times> int) \<times> (int \<times> int) \<Rightarrow> int list" where
  "rect_cells gx r = (case r of ((x0, x1), (z0, z1)) \<Rightarrow>
     concat (map (\<lambda>z. map (\<lambda>x. wrap64 (wrap64 (z * gx) + x)) [x0..x1]) [z0..z1]))"

definition rect_size :: "(int \<times> int) \<times> (int \<times> int) \<Rightarrow> u64" where
  "rect_size r = (case r of ((x0, x1), (z0, z1)) \<Rightarrow> word_of_int (x1 - x0 + 1) * word_of_int (z1 - z0 + 1))"

section \<open>Sorting by counting\<close>

fun tally :: "int list \<Rightarrow> u32 list \<Rightarrow> u32 list option" where
  "tally [] cs = Some cs"
| "tally (k # ks) cs = (if 0 \<le> k \<and> k < int (length cs) then tally ks (cs[nat k := cs ! nat k + 1]) else None)"

text \<open>The sums before each count, and the sum of all.\<close>

fun starts :: "u32 \<Rightarrow> u32 list \<Rightarrow> u32 list" where
  "starts acc [] = [acc]"
| "starts acc (c # cs) = acc # starts (acc + c) cs"

fun scatter :: "(int \<times> u32) list \<Rightarrow> u32 list \<Rightarrow> u32 list \<Rightarrow> u32 list option" where
  "scatter [] cur out = Some out"
| "scatter ((k, t) # ps) cur out =
     (if 0 \<le> k \<and> k < int (length cur) \<and> unat (cur ! nat k) < length out
      then scatter ps (cur[nat k := cur ! nat k + 1]) (out[unat (cur ! nat k) := t]) else None)"

section \<open>Vertices\<close>

text \<open>The number of each vertex in use, in the order of first use, and how many there are.\<close>

definition number_verts :: "nat list \<Rightarrow> (nat \<Rightarrow> nat option) \<times> nat" where
  "number_verts is = fold (\<lambda>i (m, n). case m i of None \<Rightarrow> (m(i \<mapsto> n), Suc n) | Some _ \<Rightarrow> (m, n)) is (Map.empty, 0)"

definition new_index :: "(nat \<Rightarrow> nat option) \<Rightarrow> u32 \<Rightarrow> u32" where
  "new_index m t = (case m (unat t) of None \<Rightarrow> - 1 | Some i \<Rightarrow> word_of_nat i)"

definition quantize :: "f64 \<Rightarrow> f64 \<Rightarrow> f32 \<Rightarrow> 16 word" where
  "quantize lo ext v = (if feq ext (Fin 0) then 0 else
     let q0 = sub64 (fround (mul64 (fdiv rnd64 (sub64 v lo) ext) (Fin 65534))) (Fin 32767);
         q1 = (if flt (Fin 32767) q0 then Fin 32767 else q0);
         q = (if flt q1 (Fin (- 32767)) then Fin (- 32767) else q1)
     in case q of Fin r \<Rightarrow> word_of_int \<lfloor>r\<rfloor> | _ \<Rightarrow> 0)"

definition axis_scale :: "f64 \<Rightarrow> f32" where
  "axis_scale ext = (if flt (Fin 0) ext then f32_of (fdiv_const rnd64 ext 65534) else Fin 0)"

definition place_verts :: "vec list \<Rightarrow> (nat \<Rightarrow> nat option) \<Rightarrow> (f32 \<Rightarrow> 16 word) \<times> (f32 \<Rightarrow> 16 word) \<times> (f32 \<Rightarrow> 16 word) \<Rightarrow> 16 word list \<Rightarrow> 16 word list" where
  "place_verts vs m qs = fold (\<lambda>old xs. case m old of None \<Rightarrow> xs
     | Some i \<Rightarrow> (case (qs, vs ! old) of ((qx, qy, qz), (x, y, z)) \<Rightarrow> xs[i * 3 := qx x, i * 3 + 1 := qy y, i * 3 + 2 := qz z]))
     [0..<length vs]"

section \<open>Build\<close>

definition coord_x :: "vec \<Rightarrow> f32" where "coord_x v = fst v"
definition coord_y :: "vec \<Rightarrow> f32" where "coord_y v = fst (snd v)"
definition coord_z :: "vec \<Rightarrow> f32" where "coord_z v = snd (snd v)"

text \<open>The cells of a triangle in a grid that starts at \<open>x0\<close>, \<open>z0\<close>.\<close>

definition tri_rect :: "f64 \<Rightarrow> f64 \<Rightarrow> f32 \<Rightarrow> int \<Rightarrow> int \<Rightarrow> vec list \<Rightarrow> (int \<times> int) \<times> (int \<times> int)" where
  "tri_rect x0 z0 cell gx gz ps = (axis_cells x0 cell gx (map coord_x ps), axis_cells z0 cell gz (map coord_z ps))"

text \<open>Every reference: the cell and the number of the triangle.\<close>

definition cell_refs :: "int \<Rightarrow> ((int \<times> int) \<times> (int \<times> int)) list \<Rightarrow> (int \<times> u32) list" where
  "cell_refs gx rects = concat (map (\<lambda>(i, r). map (\<lambda>k. (k, word_of_nat i)) (rect_cells gx r)) (enumerate 0 rects))"

definition fill_cells :: "int \<Rightarrow> int \<Rightarrow> ((int \<times> int) \<times> (int \<times> int)) list \<Rightarrow> (build_error + u32 list \<times> u32 list) option" where
  "fill_cells gx n rects = (if n < 0 then None
     else case tally (concat (map (rect_cells gx) rects)) (replicate (nat n) 0) of None \<Rightarrow> None
     | Some counts \<Rightarrow> let total = sum_list (map rect_size rects); st = starts 0 counts in
         if 2 ^ 32 - 1 < uint total then Some (Inl HugeTable)
         else map_option (\<lambda>ct. Inr (st, ct)) (scatter (cell_refs gx rects) (take (nat n) st) (replicate (unat total) 0)))"

definition build_kept :: "f32 \<Rightarrow> vec list \<Rightarrow> tri list \<Rightarrow> (build_error + occluders) option" where
  "build_kept cell vs ks = (let ps = concat (map (corners vs) ks) in
     case (axis_range (map coord_x ps), axis_range (map coord_y ps), axis_range (map coord_z ps)) of
       ((x0, x1), (y0, y1), (z0, z1)) \<Rightarrow>
     (case number_verts (concat (map tri_indices ks)) of (m, used) \<Rightarrow>
       let ex = sub64 x1 x0; ey = sub64 y1 y0; ez = sub64 z1 z0;
           gx = grid_dim ex cell; gz = grid_dim ez cell; n = wrap64 (gx * gz) in
       if 2 ^ 26 < n then Some (Inl (HugeGrid gx gz))
       else case fill_cells gx n (map (\<lambda>t. tri_rect x0 z0 cell gx gz (corners vs t)) ks) of
         None \<Rightarrow> None
       | Some (Inl e) \<Rightarrow> Some (Inl e)
       | Some (Inr (st, ct)) \<Rightarrow>
           let occ = \<lparr>oc_min = (f32_of x0, f32_of y0, f32_of z0), oc_max = (f32_of x1, f32_of y1, f32_of z1),
                 oc_origin = (f32_of x0, f32_of y0, f32_of z0), oc_cell_size = cell, oc_gx = gx, oc_gz = gz,
                 oc_scale = (axis_scale ex, axis_scale ey, axis_scale ez),
                 oc_verts = place_verts vs m (quantize x0 ex, quantize y0 ey, quantize z0 ez) (replicate (used * 3) 0),
                 oc_tris = concat (map (\<lambda>(t0, t1, t2). [new_index m t0, new_index m t1, new_index m t2]) ks),
                 oc_cell_start = st, oc_cell_tris = ct, oc_file_bytes = 0\<rparr>
           in Some (Inr (occ\<lparr>oc_file_bytes := int (encoded_size occ)\<rparr>))))"

definition build :: "mesh option \<Rightarrow> build_options \<Rightarrow> (build_error + occluders) option" where
  "build m opts = (case m of None \<Rightarrow> Some (Inl NilMesh)
   | Some ms \<Rightarrow> let vs = ms_verts ms; ts = ms_tris ms; cell = pick_cell_size (bo_cell opts) in
       if vs = [] \<and> ts \<noteq> [] then Some (Inl NoVertices)
       else if vs = [] \<or> ts = [] then Some (Inr (empty_occluders cell))
       else case kept_tris (pick_min_area (bo_min_area opts)) vs 0 ts of Inl e \<Rightarrow> Some (Inl e)
       | Inr ks \<Rightarrow> if ks = [] then Some (Inr (empty_occluders cell)) else build_kept cell vs ks)"

section \<open>Sorting by counting is filtering\<close>

definition keys_below :: "int \<Rightarrow> (int \<times> 'a) list \<Rightarrow> nat" where
  "keys_below k ps = length (filter (\<lambda>p. fst p < k) ps)"

definition of_key :: "int \<Rightarrow> (int \<times> 'a) list \<Rightarrow> 'a list" where
  "of_key k ps = map snd (filter (\<lambda>p. fst p = k) ps)"

lemma keys_below_Suc: "keys_below (k + 1) ps = keys_below k ps + length (of_key k ps)"
  by (induction ps) (auto simp: keys_below_def of_key_def)

lemma keys_below_mono: "k \<le> l \<Longrightarrow> keys_below k ps \<le> keys_below l ps"
  unfolding keys_below_def by (induction ps) auto

lemma keys_below_0: "\<forall>p\<in>set ps. 0 \<le> fst p \<Longrightarrow> keys_below 0 ps = 0"
  by (auto simp: keys_below_def filter_empty_conv)

lemma keys_below_all: "\<forall>p\<in>set ps. fst p < k \<Longrightarrow> keys_below k ps = length ps"
  by (simp add: keys_below_def)

lemma keys_below_length: "keys_below k ps \<le> length ps"
  by (simp add: keys_below_def)

lemma of_key_append: "of_key k (ps @ qs) = of_key k ps @ of_key k qs"
  by (simp add: of_key_def)

lemma tally_exact:
  assumes "\<forall>p\<in>set ps. 0 \<le> fst p \<and> fst p < int (length cs)"
  shows "tally (map fst ps) cs = Some (map (\<lambda>j. cs ! j + of_nat (length (of_key (int j) ps))) [0..<length cs])"
  using assms
proof (induction ps arbitrary: cs)
  case Nil
  then show ?case by (simp add: of_key_def map_nth)
next
  case (Cons p ps)
  let ?k = "nat (fst p)"
  have k: "0 \<le> fst p" "fst p < int (length cs)" using Cons.prems by auto
  then have "tally (map fst (p # ps)) cs = tally (map fst ps) (cs[?k := cs ! ?k + 1])" by simp
  also have "\<dots> = Some (map (\<lambda>j. cs[?k := cs ! ?k + 1] ! j + of_nat (length (of_key (int j) ps))) [0..<length cs])"
    using Cons.IH [of "cs[?k := cs ! ?k + 1]"] Cons.prems by simp
  also have "\<dots> = Some (map (\<lambda>j. cs ! j + of_nat (length (of_key (int j) (p # ps)))) [0..<length cs])"
    using k by (auto simp: of_key_def nth_list_update)
  finally show ?case .
qed

lemma length_starts [simp]: "length (starts acc cs) = Suc (length cs)"
  by (induction cs arbitrary: acc) auto

lemma starts_nth: "k \<le> length cs \<Longrightarrow> starts acc cs ! k = acc + sum_list (take k cs)"
proof (induction cs arbitrary: acc k)
  case (Cons c cs)
  then show ?case by (cases k) (auto simp: add.assoc)
qed simp

lemma starts_exact:
  assumes "\<forall>p\<in>set ps. 0 \<le> fst p" "k \<le> n"
  shows "starts 0 (map (\<lambda>j. of_nat (length (of_key (int j) ps))) [0..<n]) ! k = of_nat (keys_below (int k) ps)"
proof -
  have "sum_list (map (\<lambda>j. of_nat (length (of_key (int j) ps))) [0..<k]) = (of_nat (keys_below (int k) ps) :: u32)" for k
  proof (induction k)
    case 0
    show ?case using keys_below_0 [OF assms(1)] by simp
  next
    case (Suc k)
    then show ?case using keys_below_Suc [of "int k" ps] by (simp add: add.commute)
  qed
  then show ?thesis using assms(2) by (simp add: starts_nth take_map)
qed

text \<open>Where the cursors are and what is written once the references \<open>ps\<close> of \<open>all\<close> are placed.\<close>

definition placed_upto :: "(int \<times> u32) list \<Rightarrow> (int \<times> u32) list \<Rightarrow> u32 list \<Rightarrow> u32 list \<Rightarrow> bool" where
  "placed_upto all ps cur out \<longleftrightarrow> length out = length all \<and>
     (\<forall>j < length cur. cur ! j = of_nat (keys_below (int j) all + length (of_key (int j) ps)) \<and>
        take (length (of_key (int j) ps)) (drop (keys_below (int j) all) out) = of_key (int j) ps)"

lemma unat_of_small: "n < 2 ^ 32 \<Longrightarrow> unat (of_nat n :: u32) = n"
  by (simp add: unsigned_of_nat take_bit_nat_eq_self)

lemma take_drop_keep: "b < a \<or> a + m \<le> b \<Longrightarrow> take m (drop a (xs[b := x])) = take m (drop a xs)"
  by (rule nth_equalityI) (auto simp: nth_list_update)

lemma take_drop_snoc: "a + m < length xs \<Longrightarrow> take (Suc m) (drop a (xs[a + m := x])) = take m (drop a xs) @ [x]"
  by (simp add: take_Suc_conv_app_nth take_drop_keep)

lemma placed_step:
  assumes inv: "placed_upto all ps cur out" and all: "all = ps @ (k, t) # qs" "length all < 2 ^ 32"
    and k: "0 \<le> k" "k < int (length cur)"
  defines "pos \<equiv> unat (cur ! nat k)"
  shows "pos < length out" "placed_upto all (ps @ [(k, t)]) (cur[nat k := cur ! nat k + 1]) (out[pos := t])"
proof -
  have c: "cur ! j = of_nat (keys_below (int j) all + length (of_key (int j) ps))"
      "take (length (of_key (int j) ps)) (drop (keys_below (int j) all) out) = of_key (int j) ps" if "j < length cur" for j
    using inv that by (auto simp: placed_upto_def)
  have len: "length out = length all" using inv by (simp add: placed_upto_def)
  have kn: "nat k < length cur" "int (nat k) = k" using k by auto
  have sub: "keys_below j all + length (of_key j ps) \<le> keys_below (j + 1) all" for j
    unfolding keys_below_Suc by (simp add: all(1) of_key_append)
  have sk: "keys_below k all + length (of_key k ps) < keys_below (k + 1) all"
    unfolding keys_below_Suc by (simp add: all(1) of_key_append) (simp add: of_key_def)
  have "keys_below (k + 1) all \<le> length all" by (rule keys_below_length)
  then have b: "keys_below k all + length (of_key k ps) < 2 ^ 32" using sk all(2) by linarith
  have pos: "pos = keys_below k all + length (of_key k ps)"
    unfolding pos_def c(1) [OF kn(1)] kn(2) by (rule unat_of_small [OF b])
  with sk show pl: "pos < length out" using \<open>keys_below (k + 1) all \<le> length all\<close> len by simp
  show "placed_upto all (ps @ [(k, t)]) (cur[nat k := cur ! nat k + 1]) (out[pos := t])"
    unfolding placed_upto_def length_list_update
  proof (intro conjI allI impI)
    fix j assume j: "j < length cur"
    show "cur[nat k := cur ! nat k + 1] ! j = of_nat (keys_below (int j) all + length (of_key (int j) (ps @ [(k, t)])))"
      using c(1) [OF j] kn j by (cases "j = nat k") (auto simp: of_key_append of_key_def)
    show "take (length (of_key (int j) (ps @ [(k, t)]))) (drop (keys_below (int j) all) (out[pos := t])) = of_key (int j) (ps @ [(k, t)])"
    proof (cases "int j = k")
      case True
      then show ?thesis using c(2) [OF j] take_drop_snoc [of "keys_below k all" "length (of_key k ps)" out t] pl pos
        by (simp add: of_key_append) (simp add: of_key_def)
    next
      case False
      have "pos < keys_below (int j) all \<or> keys_below (int j) all + length (of_key (int j) ps) \<le> pos"
      proof (cases "int j < k")
        case True
        then have "keys_below (int j + 1) all \<le> keys_below k all" by (intro keys_below_mono) simp
        then show ?thesis using sub [of "int j"] pos by linarith
      next
        case False
        then have "keys_below (k + 1) all \<le> keys_below (int j) all" using \<open>int j \<noteq> k\<close> by (intro keys_below_mono) simp
        then show ?thesis using sk pos by linarith
      qed
      moreover have "of_key (int j) (ps @ [(k, t)]) = of_key (int j) ps" using False by (simp add: of_key_def)
      ultimately show ?thesis using c(2) [OF j] by (simp only: take_drop_keep)
    qed
  qed (simp add: len)
qed

lemma scatter_places:
  assumes "placed_upto all ps cur out" "all = ps @ qs" "length all < 2 ^ 32"
    and "\<forall>p\<in>set qs. 0 \<le> fst p \<and> fst p < int (length cur)"
  shows "\<exists>cur' out'. scatter qs cur out = Some out' \<and> placed_upto all all cur' out' \<and> length cur' = length cur"
  using assms
proof (induction qs arbitrary: ps cur out)
  case Nil
  then show ?case by auto
next
  case (Cons p qs)
  obtain k t where p: "p = (k, t)" by fastforce
  then have k: "0 \<le> k" "k < int (length cur)" using Cons.prems(4) by auto
  have all: "all = ps @ (k, t) # qs" using Cons.prems(2) p by simp
  note st = placed_step [OF Cons.prems(1) all Cons.prems(3) k]
  from Cons.IH [OF st(2) _ Cons.prems(3)] Cons.prems(4) all
  show ?case using st(1) k by (simp add: p)
qed

text \<open>Counting, summing and scattering puts the references of each cell, in order, between its start and the next.\<close>

lemma counting_sort_exact:
  assumes "\<forall>p\<in>set ps. 0 \<le> fst p \<and> fst p < int n" "length ps < 2 ^ 32"
  shows "\<exists>counts out. tally (map fst ps) (replicate n 0) = Some counts \<and> length counts = n \<and>
    scatter ps (take n (starts 0 counts)) (replicate (length ps) 0) = Some out \<and> length out = length ps \<and>
    (\<forall>k \<le> n. unat (starts 0 counts ! k) = keys_below (int k) ps) \<and>
    (\<forall>k < n. take (length (of_key (int k) ps)) (drop (keys_below (int k) ps) out) = of_key (int k) ps)"
proof -
  let ?counts = "map (\<lambda>j. of_nat (length (of_key (int j) ps))) [0..<n] :: u32 list"
  let ?cur = "take n (starts 0 ?counts)"
  have t: "tally (map fst ps) (replicate n 0) = Some ?counts"
    using tally_exact [of ps "replicate n 0"] assms(1) by (simp cong: map_cong)
  have st: "starts 0 ?counts ! k = of_nat (keys_below (int k) ps)" if "k \<le> n" for k
    using starts_exact [of ps k n] assms(1) that by blast
  have "placed_upto ps [] ?cur (replicate (length ps) 0)"
    using st by (simp add: placed_upto_def) (simp add: of_key_def)
  from scatter_places [OF this _ assms(2)] assms(1) obtain cur' out where
    "scatter ps ?cur (replicate (length ps) 0) = Some out" "placed_upto ps ps cur' out" "length cur' = n" by auto
  moreover have "unat (starts 0 ?counts ! k) = keys_below (int k) ps" if "k \<le> n" for k
    using st [OF that] keys_below_length [of "int k" ps] assms(2) by (simp add: unat_of_small)
  ultimately show ?thesis using t by (intro exI [of _ ?counts] exI [of _ out]) (auto simp: placed_upto_def)
qed

section \<open>Cells are monotone\<close>

lemma rnd64_Fin_mono: "rnd64 x = Fin u \<Longrightarrow> rnd64 y = Fin v \<Longrightarrow> x \<le> y \<Longrightarrow> u \<le> v"
  using rnd_mono [of 53 x y "- 1074"] by (auto simp: rnd64_def fin_or_inf_def split: if_splits)

definition fin32 :: "f32 \<Rightarrow> bool" where
  "fin32 x \<longleftrightarrow> is_fin x \<and> is_f32 x"

lemma fin32_Fin: "fin32 x \<Longrightarrow> \<exists>q. x = Fin q"
  by (cases x) (auto simp: fin32_def)

lemma quotient_fin:
  assumes "fin32 f" "fin32 lo" "fin32 cell" "flt (Fin 0) cell"
  shows "\<exists>d u. sub64 f lo = Fin d \<and> fdiv rnd64 (sub64 f lo) cell = Fin u"
proof -
  have d: "bounded (128 + 1) (sub64 f lo)" using assms(1,2) by (intro bounded_sub bounded_f32) (simp_all add: fin32_def)
  have "nonzero_dir cell" using assms(3,4) by (intro nonzero_dir_f32) (simp_all add: fin32_def step_of_def)
  from bounded_div [OF d this] d show ?thesis by (auto simp: bounded_def)
qed

lemma quotient_mono:
  assumes "fin32 f" "fin32 g" "fin32 lo" "fin32 cell" "flt (Fin 0) cell" "fle lo f" "fle f g"
  shows "\<exists>u v. fdiv rnd64 (sub64 f lo) cell = Fin u \<and> fdiv rnd64 (sub64 g lo) cell = Fin v \<and> 0 \<le> u \<and> u \<le> v"
proof -
  obtain p q l c where v: "f = Fin p" "g = Fin q" "lo = Fin l" "cell = Fin c" using assms(1-4) fin32_Fin by metis
  obtain d u where d: "sub64 f lo = Fin d" "fdiv rnd64 (sub64 f lo) cell = Fin u" using quotient_fin assms by blast
  obtain e w where e: "sub64 g lo = Fin e" "fdiv rnd64 (sub64 g lo) cell = Fin w" using quotient_fin assms by blast
  have c: "0 < c" "l \<le> p" "p \<le> q" using assms(5-7) v by simp_all
  have r: "rnd64 (p - l) = Fin d" "rnd64 (q - l) = Fin e" using d(1) e(1) v by (simp_all add: fsub_def)
  have z: "rnd64 0 = Fin 0" using rnd64_int [of 0] by simp
  have de: "0 \<le> d" "d \<le> e" using rnd64_Fin_mono [OF z r(1)] rnd64_Fin_mono [OF r] c by simp_all
  have s: "rnd64 (d / c) = Fin u" "rnd64 (e / c) = Fin w" using d e c(1) v by simp_all
  have "0 \<le> u" "u \<le> w" using rnd64_Fin_mono [OF z s(1)] rnd64_Fin_mono [OF s] de c(1) by (simp_all add: divide_right_mono)
  then show ?thesis using d(2) e(2) by simp
qed

lemma grid_dim_pos: "1 \<le> grid_dim ext cell"
  by (simp add: grid_dim_def)

text \<open>Between the bounds of an axis the cell grows with the coordinate.\<close>

lemma axis_cell_mono:
  assumes "fin32 f" "fin32 g" "fin32 lo" "fin32 hi" "fin32 cell" "flt (Fin 0) cell" "fle lo f" "fle f g" "fle g hi"
  defines "n \<equiv> grid_dim (sub64 hi lo) cell"
  shows "axis_cell lo cell n f \<le> axis_cell lo cell n g"
proof -
  obtain u v where u: "fdiv rnd64 (sub64 f lo) cell = Fin u" "fdiv rnd64 (sub64 g lo) cell = Fin v" "0 \<le> u" "u \<le> v"
    using quotient_mono [OF assms(1-3,5-8)] by blast
  obtain w where w: "fdiv rnd64 (sub64 hi lo) cell = Fin w" "v \<le> w"
    using quotient_mono [OF assms(2,4,3,5,6) fle_trans [OF assms(7,8)] assms(9)] u(2) by auto
  show ?thesis
  proof (cases "in_int64 \<lceil>w\<rceil>")
    case True
    have "\<lfloor>u\<rfloor> \<le> \<lfloor>v\<rfloor>" "\<lfloor>v\<rfloor> \<le> \<lceil>w\<rceil>" "0 \<le> \<lfloor>u\<rfloor>"
      using u(3,4) w(2) floor_mono [of u v] floor_mono [of v w] floor_le_ceiling [of w] by linarith+
    moreover from this True have "in_int64 \<lfloor>u\<rfloor>" "in_int64 \<lfloor>v\<rfloor>" unfolding in_int64_def by linarith+
    moreover have "0 \<le> v" using u(3,4) by linarith
    ultimately show ?thesis
      unfolding axis_cell_def u(1,2) by (simp add: clamp_cell_def int64_floor_def Let_def)
  next
    case False
    then have "n = 1" by (simp add: n_def grid_dim_def w(1) int64_ceil_def)
    then have "axis_cell lo cell n f = 0" "axis_cell lo cell n g = 0"
      using clamp_cell_range [of n] unfolding axis_cell_def by (smt (verit, best))+
    then show ?thesis by simp
  qed
qed

section \<open>The bounds of finite points\<close>

lemma axis_range_snoc: "axis_range (fs @ [f]) = (case axis_range fs of (lo, hi) \<Rightarrow> (if flt f lo then f else lo, if flt hi f then f else hi))"
  by (simp add: axis_range_def split: prod.split)

lemma axis_range_exact:
  assumes "fs \<noteq> []" "\<forall>f\<in>set fs. fin32 f" "axis_range fs = (lo, hi)"
  shows "lo \<in> set fs \<and> hi \<in> set fs \<and> (\<forall>f\<in>set fs. fle lo f \<and> fle f hi)"
  using assms
proof (induction fs arbitrary: lo hi rule: rev_induct)
  case (snoc f fs)
  obtain q where f: "f = Fin q" using snoc.prems(2) fin32_Fin [of f] by auto
  obtain l h where r: "axis_range fs = (l, h)" by fastforce
  have lh: "lo = (if flt f l then f else l)" "hi = (if flt h f then f else h)"
    using snoc.prems(3) by (simp_all add: axis_range_snoc r)
  show ?case
  proof (cases "fs = []")
    case True
    then have "l = FInf False" "h = FInf True" using r by (simp_all add: axis_range_def)
    then show ?thesis using True lh f by simp
  next
    case False
    then have i: "l \<in> set fs" "h \<in> set fs" "\<forall>g\<in>set fs. fle l g \<and> fle g h" using snoc.IH [OF False _ r] snoc.prems(2) by auto
    then obtain a b where ab: "l = Fin a" "h = Fin b" using snoc.prems(2) fin32_Fin by (metis Un_iff set_append)
    have "a \<le> b" using i ab by (metis fle.simps(1) fle_trans)
    have "fle lo g \<and> fle g hi" if "g \<in> set fs" for g
      using i(3) that lh ab f by (cases g) (auto split: if_splits)
    moreover have "fle lo f \<and> fle f hi" using lh ab f \<open>a \<le> b\<close> by auto
    ultimately show ?thesis using i lh by auto
  qed
qed simp

lemma lowest_exact: "\<forall>f\<in>set (f # fs). fin32 f \<Longrightarrow> lowest (f # fs) \<in> set (f # fs) \<and> (\<forall>g\<in>set (f # fs). fle (lowest (f # fs)) g)"
  unfolding lowest_def
proof (induction fs arbitrary: f)
  case Nil
  then show ?case using fin32_Fin [of f] by auto
next
  case (Cons g gs)
  obtain a b where ab: "f = Fin a" "g = Fin b" using Cons.prems fin32_Fin by (metis list.set_intros)
  have m: "go_min f g \<in> {f, g}" "fle (go_min f g) f" "fle (go_min f g) g" by (simp_all add: ab go_min_def)
  then have fs: "\<forall>h\<in>set (go_min f g # gs). fin32 h" using Cons.prems by auto
  define r where "r = fold (\<lambda>f m. go_min m f) gs (go_min f g)"
  from Cons.IH [OF fs] have r: "r \<in> set (go_min f g # gs)" "fle r (go_min f g)" "\<forall>h\<in>set gs. fle r h" by (simp_all add: r_def)
  then have "r \<in> set (f # g # gs)" "fle r f" "fle r g" "\<forall>h\<in>set gs. fle r h" using m by (auto intro: fle_trans)
  then show ?case by (simp add: r_def)
qed

lemma highest_exact: "\<forall>f\<in>set (f # fs). fin32 f \<Longrightarrow> highest (f # fs) \<in> set (f # fs) \<and> (\<forall>g\<in>set (f # fs). fle g (highest (f # fs)))"
  unfolding highest_def
proof (induction fs arbitrary: f)
  case Nil
  then show ?case using fin32_Fin [of f] by auto
next
  case (Cons g gs)
  obtain a b where ab: "f = Fin a" "g = Fin b" using Cons.prems fin32_Fin by (metis list.set_intros)
  have m: "go_max f g \<in> {f, g}" "fle f (go_max f g)" "fle g (go_max f g)" by (simp_all add: ab go_max_def)
  then have fs: "\<forall>h\<in>set (go_max f g # gs). fin32 h" using Cons.prems by auto
  define r where "r = fold (\<lambda>f m. go_max m f) gs (go_max f g)"
  from Cons.IH [OF fs] have r: "r \<in> set (go_max f g # gs)" "fle (go_max f g) r" "\<forall>h\<in>set gs. fle h r" by (simp_all add: r_def)
  then have "r \<in> set (f # g # gs)" "fle f r" "fle g r" "\<forall>h\<in>set gs. fle h r" using m by (auto intro: fle_trans)
  then show ?case by (simp add: r_def)
qed

section \<open>The cell table\<close>

definition rect_ok :: "int \<Rightarrow> int \<Rightarrow> (int \<times> int) \<times> (int \<times> int) \<Rightarrow> bool" where
  "rect_ok gx gz r \<longleftrightarrow> (case r of ((x0, x1), (z0, z1)) \<Rightarrow> 0 \<le> x0 \<and> x0 \<le> x1 \<and> x1 < gx \<and> 0 \<le> z0 \<and> z0 \<le> z1 \<and> z1 < gz)"

definition in_rect :: "int \<Rightarrow> int \<Rightarrow> (int \<times> int) \<times> (int \<times> int) \<Rightarrow> bool" where
  "in_rect cx cz r \<longleftrightarrow> (case r of ((x0, x1), (z0, z1)) \<Rightarrow> x0 \<le> cx \<and> cx \<le> x1 \<and> z0 \<le> cz \<and> cz \<le> z1)"

lemma rect_index:
  assumes "0 \<le> x" "x < gx" "0 \<le> z" "z < (gz :: int)" "gx * gz \<le> 2 ^ 26"
  shows "wrap64 (wrap64 (z * gx) + x) = z * gx + x" "0 \<le> z * gx + x" "z * gx + x < gx * gz"
proof -
  have "(z + 1) * gx \<le> gz * gx" using assms by (intro mult_right_mono) simp_all
  then have b: "z * gx + x < gx * gz" using assms(2) by (simp add: algebra_simps)
  have p: "0 \<le> z * gx" using assms by simp
  then show "wrap64 (wrap64 (z * gx) + x) = z * gx + x" using b assms(1,5) by (simp add: wrap64_id in_int64_def)
  show "0 \<le> z * gx + x" "z * gx + x < gx * gz" using p b assms(1) by simp_all
qed

lemma rect_cells_mem:
  assumes "rect_ok gx gz r" "gx * gz \<le> 2 ^ 26"
  shows "k \<in> set (rect_cells gx r) \<longleftrightarrow> (\<exists>x z. in_rect x z r \<and> k = z * gx + x)"
    and "k \<in> set (rect_cells gx r) \<Longrightarrow> 0 \<le> k \<and> k < gx * gz"
proof -
  obtain x0 x1 z0 z1 where r: "r = ((x0, x1), (z0, z1))" by (metis prod.exhaust)
  have i: "wrap64 (wrap64 (z * gx) + x) = z * gx + x" "0 \<le> z * gx + x" "z * gx + x < gx * gz" if "in_rect x z r" for x z
    using that assms(1) by (auto intro!: rect_index [OF _ _ _ _ assms(2)] simp: rect_ok_def in_rect_def r)
  have e: "set (rect_cells gx r) = (\<Union>z\<in>{z0..z1}. (\<lambda>x. wrap64 (wrap64 (z * gx) + x)) ` {x0..x1})"
    by (simp add: rect_cells_def r)
  have "k \<in> set (rect_cells gx r) \<longleftrightarrow> (\<exists>x z. in_rect x z r \<and> k = wrap64 (wrap64 (z * gx) + x))"
    unfolding e in_rect_def unfolding r prod.case UN_iff image_iff Bex_def atLeastAtMost_iff by blast
  with i(1) show e: "k \<in> set (rect_cells gx r) \<longleftrightarrow> (\<exists>x z. in_rect x z r \<and> k = z * gx + x)" by metis
  show "k \<in> set (rect_cells gx r) \<Longrightarrow> 0 \<le> k \<and> k < gx * gz" using e i(2,3) by blast
qed

lemma cell_index_inj:
  assumes "0 \<le> x" "x < gx" "0 \<le> x'" "x' < (gx :: int)" "z * gx + x = z' * gx + x'"
  shows "x = x' \<and> z = z'"
proof -
  have "(z * gx + x) div gx = z" "(z' * gx + x') div gx = z'" using assms(1-4) by (simp_all add: div_pos_pos_trivial)
  then show ?thesis using assms(5) by simp
qed

lemma rect_cells_iff:
  assumes "rect_ok gx gz r" "gx * gz \<le> 2 ^ 26" "0 \<le> cx" "cx < gx"
  shows "cz * gx + cx \<in> set (rect_cells gx r) \<longleftrightarrow> in_rect cx cz r"
proof -
  have "x = cx \<and> z = cz" if "in_rect x z r" "cz * gx + cx = z * gx + x" for x z
    using that assms(1,3,4) cell_index_inj [of x gx cx z cz] by (auto simp: in_rect_def rect_ok_def split: prod.splits)
  then show ?thesis unfolding rect_cells_mem(1) [OF assms(1,2)] by blast
qed

lemma rect_size_exact: "rect_ok gx gz r \<Longrightarrow> rect_size r = of_nat (length (rect_cells gx r))"
proof -
  assume ok: "rect_ok gx gz r"
  obtain x0 x1 z0 z1 where r: "r = ((x0, x1), (z0, z1))" by (metis prod.exhaust)
  have l: "length (concat (map (\<lambda>z. map (f z) xs) zs)) = length zs * length xs" for f :: "int \<Rightarrow> int \<Rightarrow> int" and xs zs
    by (induction zs) auto
  have "x1 - x0 + 1 = int (length [x0..x1])" "z1 - z0 + 1 = int (length [z0..z1])" using ok by (simp_all add: rect_ok_def r)
  then have "word_of_int (x1 - x0 + 1) = (of_nat (length [x0..x1]) :: u64)" "word_of_int (z1 - z0 + 1) = (of_nat (length [z0..z1]) :: u64)"
    by (metis of_int_of_nat_eq)+
  then show ?thesis unfolding rect_size_def rect_cells_def r prod.case l of_nat_mult by (simp only: mult.commute)
qed

lemma cell_refs_fst: "map fst (cell_refs gx rects) = concat (map (rect_cells gx) rects)"
proof -
  have "map fst (concat (map (\<lambda>(i, r). map (\<lambda>k. (k, w i)) (rect_cells gx r)) (enumerate n rects))) = concat (map (rect_cells gx) rects)"
    for n and w :: "nat \<Rightarrow> u32"
    by (induction rects arbitrary: n) (simp_all add: comp_def)
  then show ?thesis by (simp add: cell_refs_def)
qed

lemma cell_refs_mem: "(k, t) \<in> set (cell_refs gx rects) \<longleftrightarrow> (\<exists>i < length rects. t = word_of_nat i \<and> k \<in> set (rect_cells gx (rects ! i)))"
proof -
  have "enumerate 0 rects = map (\<lambda>i. (i, rects ! i)) [0..<length rects]"
    by (rule nth_equalityI) (simp_all add: nth_enumerate_eq)
  then show ?thesis by (auto simp: cell_refs_def)
qed

lemma of_key_mem: "t \<in> set (of_key k ps) \<longleftrightarrow> (k, t) \<in> set ps"
  by (force simp: of_key_def)

lemma total_refs:
  assumes "\<forall>r\<in>set rects. rect_ok gx gz r"
  shows "sum_list (map rect_size rects) = of_nat (length (cell_refs gx rects))"
proof -
  have "length (cell_refs gx rects) = length (concat (map (rect_cells gx) rects))"
    unfolding cell_refs_fst [symmetric] by simp
  moreover have "sum_list (map rect_size rects) = of_nat (length (concat (map (rect_cells gx) rects)))"
    using assms by (induction rects) (simp_all add: rect_size_exact [of gx gz])
  ultimately show ?thesis by simp
qed

lemma scatter_set: "scatter ps cur out = Some out' \<Longrightarrow> set out' \<subseteq> set out \<union> snd ` set ps"
proof (induction ps cur out rule: scatter.induct)
  case (2 k t ps cur out)
  then show ?case using set_update_subset_insert by (fastforce split: if_splits)
qed simp

lemma rect_cells_length:
  assumes "rect_ok gx gz r"
  shows "int (length (rect_cells gx r)) \<le> gx * gz"
proof -
  obtain x0 x1 z0 z1 where r: "r = ((x0, x1), (z0, z1))" by (metis prod.exhaust)
  have l: "length (concat (map (\<lambda>z. map (f z) xs) zs)) = length zs * length xs" for f :: "int \<Rightarrow> int \<Rightarrow> int" and xs zs
    by (induction zs) auto
  have "int (length (rect_cells gx r)) = (z1 - z0 + 1) * (x1 - x0 + 1)"
    unfolding rect_cells_def r prod.case l using assms by (simp add: rect_ok_def r)
  also have "\<dots> \<le> gz * gx" using assms by (intro mult_mono) (simp_all add: rect_ok_def r)
  finally show ?thesis by (simp add: mult.commute)
qed

lemma cell_refs_length:
  assumes "\<forall>r\<in>set rects. rect_ok gx gz r" "gx * gz \<le> 2 ^ 26"
  shows "length (cell_refs gx rects) \<le> length rects * 2 ^ 26"
proof -
  have "length (concat (map (rect_cells gx) rects)) \<le> length rects * 2 ^ 26"
    using assms(1)
  proof (induction rects)
    case (Cons r rects)
    have "int (length (rect_cells gx r)) \<le> 2 ^ 26" using rect_cells_length [of gx gz r] Cons.prems assms(2) by simp
    with Cons show ?case by simp
  qed simp
  then show ?thesis unfolding cell_refs_fst [symmetric] by simp
qed

text \<open>What a cell table with starts \<open>st\<close> and references \<open>ct\<close> lists for the cell of index \<open>k\<close>.\<close>

definition cell_slice :: "u32 list \<Rightarrow> u32 list \<Rightarrow> nat \<Rightarrow> u32 list" where
  "cell_slice st ct k = take (unat (st ! (k + 1)) - unat (st ! k)) (drop (unat (st ! k)) ct)"

lemma fill_cells_exact:
  assumes rects: "\<forall>r\<in>set rects. rect_ok gx gz r" and g: "1 \<le> gx" "1 \<le> gz" "gx * gz \<le> 2 ^ 26" and len: "length rects < 2 ^ 32"
  defines "n \<equiv> nat (gx * gz)" and "refs \<equiv> cell_refs gx rects"
  shows "fill_cells gx (gx * gz) rects = Some (Inl HugeTable) \<or>
    (\<exists>st ct. fill_cells gx (gx * gz) rects = Some (Inr (st, ct)) \<and> length st = n + 1 \<and> length ct = length refs \<and>
      (\<forall>k \<le> n. unat (st ! k) = keys_below (int k) refs) \<and> (\<forall>k < n. cell_slice st ct k = of_key (int k) refs) \<and>
      set ct \<subseteq> insert 0 (snd ` set refs))"
proof -
  have n: "int n = gx * gz" using g(1,2) by (simp add: n_def)
  have keys: "\<forall>p\<in>set refs. 0 \<le> fst p \<and> fst p < int n"
  proof
    fix p assume "p \<in> set refs"
    then obtain i where "i < length rects" "fst p \<in> set (rect_cells gx (rects ! i))"
      using cell_refs_mem [of "fst p" "snd p" gx rects] by (auto simp: refs_def)
    then show "0 \<le> fst p \<and> fst p < int n" using rect_cells_mem(2) [OF _ g(3)] rects n by (metis nth_mem)
  qed
  have "length refs \<le> length rects * 2 ^ 26" unfolding refs_def by (rule cell_refs_length [OF rects g(3)])
  also have "\<dots> < 2 ^ 32 * 2 ^ 26" using len by (intro mult_strict_right_mono) simp_all
  finally have total: "unat (sum_list (map rect_size rects)) = length refs" "uint (sum_list (map rect_size rects)) = int (length refs)"
    unfolding total_refs [OF rects] refs_def [symmetric] by (simp_all add: unsigned_of_nat take_bit_nat_eq_self take_bit_int_eq_self)
  have f: "concat (map (rect_cells gx) rects) = map fst refs" by (simp add: refs_def cell_refs_fst)
  show ?thesis
  proof (cases "length refs < 2 ^ 32")
    case True
    from counting_sort_exact [OF keys True] obtain counts out where
      c: "tally (map fst refs) (replicate n 0) = Some counts" "length counts = n"
        "scatter refs (take n (starts 0 counts)) (replicate (length refs) 0) = Some out" "length out = length refs"
        "\<forall>k\<le>n. unat (starts 0 counts ! k) = keys_below (int k) refs"
        "\<forall>k<n. take (length (of_key (int k) refs)) (drop (keys_below (int k) refs) out) = of_key (int k) refs" by blast
    have "fill_cells gx (gx * gz) rects = Some (Inr (starts 0 counts, out))"
      using c(1,3) True total n unfolding fill_cells_def f n_def [symmetric] refs_def [symmetric] by (simp add: Let_def)
    moreover have "cell_slice (starts 0 counts) out k = of_key (int k) refs" if "k < n" for k
    proof -
      have "unat (starts 0 counts ! (k + 1)) = keys_below (int k) refs + length (of_key (int k) refs)"
        using c(5) that keys_below_Suc [of "int k" refs] by (simp add: add.commute)
      then show ?thesis using c(5,6) that by (simp add: cell_slice_def)
    qed
    moreover have "set out \<subseteq> insert 0 (snd ` set refs)" using scatter_set [OF c(3)] by auto
    ultimately show ?thesis using c by (metis Suc_eq_plus1 length_starts)
  next
    case False
    have "tally (map fst refs) (replicate n 0) \<noteq> None" using tally_exact [of refs "replicate n 0"] keys by simp
    then show ?thesis using False total n unfolding fill_cells_def f n_def [symmetric] by (auto simp: Let_def)
  qed
qed

section \<open>The rectangle of a triangle\<close>

lemma axis_cells_cover:
  assumes fs: "fs \<noteq> []" "\<forall>f\<in>set fs. fin32 f \<and> fle lo f \<and> fle f hi" and c: "fin32 lo" "fin32 hi" "fin32 cell" "flt (Fin 0) cell"
  defines "n \<equiv> grid_dim (sub64 hi lo) cell"
  assumes ab: "axis_cells lo cell n fs = (a, b)"
  shows "0 \<le> a \<and> a \<le> b \<and> b < n"
    and "fin32 f \<Longrightarrow> fle (lowest fs) f \<Longrightarrow> fle f (highest fs) \<Longrightarrow> a \<le> axis_cell lo cell n f \<and> axis_cell lo cell n f \<le> b"
proof -
  obtain g gs where g: "fs = g # gs" using fs(1) by (cases fs) auto
  have l: "lowest fs \<in> set fs" "\<forall>f\<in>set fs. fle (lowest fs) f" and h: "highest fs \<in> set fs" "\<forall>f\<in>set fs. fle f (highest fs)"
    using lowest_exact [of g gs] highest_exact [of g gs] fs(2) unfolding g by blast+
  have le: "fin32 (lowest fs)" "fle lo (lowest fs)" "fin32 (highest fs)" "fle (highest fs) hi" "fle (lowest fs) (highest fs)"
    using fs(2) l h by blast+
  have e: "a = axis_cell lo cell n (lowest fs)" "b = axis_cell lo cell n (highest fs)" using ab by (simp_all add: axis_cells_def)
  have "a \<le> b" unfolding e n_def by (rule axis_cell_mono [OF le(1,3) c le(2,5,4)])
  then show "0 \<le> a \<and> a \<le> b \<and> b < n"
    using clamp_cell_range [of n] grid_dim_pos unfolding e axis_cell_def n_def by blast
  show "a \<le> axis_cell lo cell n f \<and> axis_cell lo cell n f \<le> b" if f: "fin32 f" "fle (lowest fs) f" "fle f (highest fs)"
    using axis_cell_mono [OF le(1) f(1) c le(2) f(2) fle_trans [OF f(3) le(4)]]
      axis_cell_mono [OF f(1) le(3) c fle_trans [OF le(2) f(2)] f(3) le(4)] unfolding e n_def by blast
qed

section \<open>What is kept and renumbered\<close>

lemma kept_tris_ok: "kept_tris ma vs i ts = Inr ks \<Longrightarrow> \<forall>t\<in>set ks. \<forall>j\<in>set (tri_indices t). j < length vs"
proof (induction ma vs i ts arbitrary: ks rule: kept_tris.induct)
  case (2 ma vs i t0 t1 t2 ts)
  then show ?case by (auto simp: tri_indices_def split: if_splits sum.splits)
qed simp

lemma number_verts_snoc: "number_verts (is @ [i]) = (case number_verts is of (m, n) \<Rightarrow>
    case m i of None \<Rightarrow> (m(i \<mapsto> n), Suc n) | Some _ \<Rightarrow> (m, n))"
  by (simp add: number_verts_def)

lemma number_verts_ok:
  "number_verts is = (m, n) \<Longrightarrow> (\<forall>i\<in>set is. m i \<noteq> None) \<and> (\<forall>i j. m i = Some j \<longrightarrow> j < n) \<and> (is \<noteq> [] \<longrightarrow> 0 < n)"
proof (induction "is" arbitrary: m n rule: rev_induct)
  case Nil
  then show ?case by (auto simp: number_verts_def)
next
  case (snoc i "is")
  obtain m' n' where r: "number_verts is = (m', n')" by fastforce
  from snoc.IH [OF r] snoc.prems show ?case
    by (auto simp: number_verts_snoc r less_Suc_eq split: option.splits if_splits)
qed

lemma place_verts_length: "length (place_verts vs m qs xs) = length xs"
proof -
  have "length (fold (\<lambda>old xs. case m old of None \<Rightarrow> xs
     | Some i \<Rightarrow> (case (qs, vs ! old) of ((qx, qy, qz), (x, y, z)) \<Rightarrow> xs[i * 3 := qx x, i * 3 + 1 := qy y, i * 3 + 2 := qz z])) is xs) = length xs"
    for "is" by (induction "is" arbitrary: xs) (auto split: option.split prod.split)
  then show ?thesis by (simp add: place_verts_def)
qed

lemma finite_coords: "finite_point p \<Longrightarrow> fin32 (coord_x p) \<and> fin32 (coord_y p) \<and> fin32 (coord_z p)"
  by (cases p) (simp add: finite_point_def fin32_def coord_x_def coord_y_def coord_z_def)

text \<open>The range of one coordinate of the corners of all triangles that are kept.\<close>

lemma corner_range:
  assumes "\<forall>v\<in>set vs. finite_point v" "\<forall>t\<in>set ks. \<forall>j\<in>set (tri_indices t). j < length vs" "ks \<noteq> []"
    and co: "co \<in> {coord_x, coord_y, coord_z}" and r: "axis_range (map co (concat (map (corners vs) ks))) = (lo, hi)"
  shows "fin32 lo \<and> fin32 hi \<and> fle lo hi \<and>
    (\<forall>t\<in>set ks. map co (corners vs t) \<noteq> [] \<and> (\<forall>f\<in>set (map co (corners vs t)). fin32 f \<and> fle lo f \<and> fle f hi))"
proof -
  let ?fs = "map co (concat (map (corners vs) ks))"
  have p: "finite_point p" if "p \<in> set (corners vs t)" "t \<in> set ks" for p t
    using that assms(1,2) by (auto simp: corners_def)
  have fin: "fin32 (co q)" if "q \<in> set (corners vs t)" "t \<in> set ks" for q t
    using finite_coords [OF p [OF that]] co by blast
  have ne: "corners vs t \<noteq> []" for t by (cases t) (simp add: corners_def tri_indices_def)
  then have "?fs \<noteq> []" using assms(3) by (cases ks) auto
  moreover have all: "\<forall>f\<in>set ?fs. fin32 f" using fin by auto
  ultimately have e: "lo \<in> set ?fs" "hi \<in> set ?fs" "\<forall>f\<in>set ?fs. fle lo f \<and> fle f hi"
    using axis_range_exact [OF _ _ r] by blast+
  have "fin32 f \<and> fle lo f \<and> fle f hi" if "t \<in> set ks" "f \<in> set (map co (corners vs t))" for t f
  proof -
    have "f \<in> set ?fs" using that by auto
    then show ?thesis using all e(3) by blast
  qed
  moreover have "map co (corners vs t) \<noteq> []" for t using ne by simp
  ultimately show ?thesis using all e by blast
qed

section \<open>What Build makes\<close>

definition mesh_points :: "vec list \<Rightarrow> tri list \<Rightarrow> vec list" where
  "mesh_points vs ks = concat (map (corners vs) ks)"

text \<open>The fields of a result.\<close>

lemma build_kept_fields:
  assumes "build_kept cell vs ks = Some (Inr occ)"
  obtains x0 x1 y0 y1 z0 z1 m used st ct where
    "axis_range (map coord_x (mesh_points vs ks)) = (x0, x1)" "axis_range (map coord_y (mesh_points vs ks)) = (y0, y1)"
    "axis_range (map coord_z (mesh_points vs ks)) = (z0, z1)" "number_verts (concat (map tri_indices ks)) = (m, used)"
    "oc_gx occ = grid_dim (sub64 x1 x0) cell" "oc_gz occ = grid_dim (sub64 z1 z0) cell" "wrap64 (oc_gx occ * oc_gz occ) \<le> 2 ^ 26"
    "fill_cells (oc_gx occ) (wrap64 (oc_gx occ * oc_gz occ)) (map (\<lambda>t. tri_rect x0 z0 cell (oc_gx occ) (oc_gz occ) (corners vs t)) ks) = Some (Inr (st, ct))"
    "oc_min occ = (f32_of x0, f32_of y0, f32_of z0)" "oc_max occ = (f32_of x1, f32_of y1, f32_of z1)" "oc_origin occ = oc_min occ"
    "oc_cell_size occ = cell" "oc_scale occ = (axis_scale (sub64 x1 x0), axis_scale (sub64 y1 y0), axis_scale (sub64 z1 z0))"
    "length (oc_verts occ) = used * 3"
    "oc_tris occ = concat (map (\<lambda>(t0, t1, t2). [new_index m t0, new_index m t1, new_index m t2]) ks)"
    "oc_cell_start occ = st" "oc_cell_tris occ = ct" "oc_file_bytes occ = int (encoded_size occ)"
proof -
  obtain x0 x1 y0 y1 z0 z1 m used where r: "axis_range (map coord_x (mesh_points vs ks)) = (x0, x1)"
      "axis_range (map coord_y (mesh_points vs ks)) = (y0, y1)" "axis_range (map coord_z (mesh_points vs ks)) = (z0, z1)"
      "number_verts (concat (map tri_indices ks)) = (m, used)" by (metis prod.exhaust)
  let ?gx = "grid_dim (sub64 x1 x0) cell" and ?gz = "grid_dim (sub64 z1 z0) cell"
  let ?f = "fill_cells ?gx (wrap64 (?gx * ?gz)) (map (\<lambda>t. tri_rect x0 z0 cell ?gx ?gz (corners vs t)) ks)"
  note d = assms [unfolded build_kept_def mesh_points_def [symmetric] Let_def r prod.case]
  have n: "wrap64 (?gx * ?gz) \<le> 2 ^ 26" using d by (auto split: if_splits)
  then obtain st ct where f: "?f = Some (Inr (st, ct))" using d by (auto split: option.splits sum.splits prod.splits)
  note d' = d [unfolded f option.case sum.case prod.case if_not_P [OF n [folded not_less]]]
  show thesis
    using d' by (intro that [OF r]) (use n f in \<open>auto simp: place_verts_length encoded_size_def vertex_count_def triangle_count_def n_cells_def occ_width_def\<close>)
qed

text \<open>The table of the result: the references of each cell are those of the triangles whose rectangle covers it.\<close>

lemma build_kept_table:
  assumes vs: "\<forall>v\<in>set vs. finite_point v" and ks: "\<forall>t\<in>set ks. \<forall>j\<in>set (tri_indices t). j < length vs" "ks \<noteq> []" "length ks < 2 ^ 32"
    and c: "fin32 cell" "flt (Fin 0) cell" and b: "build_kept cell vs ks = Some (Inr occ)" "oc_gx occ * oc_gz occ < 2 ^ 63"
  obtains x0 z0 refs where
    "oc_min occ = (f32_of x0, fst (snd (oc_min occ)), f32_of z0)" "fin32 x0" "fin32 z0"
    "1 \<le> oc_gx occ" "1 \<le> oc_gz occ" "oc_gx occ * oc_gz occ \<le> 2 ^ 26" "oc_cell_size occ = cell"
    "length (oc_cell_start occ) = n_cells occ + 1" "length (oc_cell_tris occ) = length refs"
    "\<forall>k \<le> n_cells occ. unat (oc_cell_start occ ! k) = keys_below (int k) refs"
    "\<forall>k < n_cells occ. cell_slice (oc_cell_start occ) (oc_cell_tris occ) k = of_key (int k) refs"
    "set (oc_cell_tris occ) \<subseteq> insert 0 (word_of_nat ` {..<length ks})"
    "\<forall>p\<in>set refs. 0 \<le> fst p \<and> fst p < int (n_cells occ)"
    "\<forall>i < length ks. \<forall>x z. fin32 x \<and> fin32 z \<and>
        fle (lowest (map coord_x (corners vs (ks ! i)))) x \<and> fle x (highest (map coord_x (corners vs (ks ! i)))) \<and>
        fle (lowest (map coord_z (corners vs (ks ! i)))) z \<and> fle z (highest (map coord_z (corners vs (ks ! i)))) \<longrightarrow>
        (axis_cell z0 cell (oc_gz occ) z * oc_gx occ + axis_cell x0 cell (oc_gx occ) x, word_of_nat i) \<in> set refs"
proof -
  from b(1) obtain x0 x1 y0 y1 z0 z1 m used st ct where d: "axis_range (map coord_x (mesh_points vs ks)) = (x0, x1)"
      "axis_range (map coord_z (mesh_points vs ks)) = (z0, z1)" "oc_gx occ = grid_dim (sub64 x1 x0) cell" "oc_gz occ = grid_dim (sub64 z1 z0) cell"
      "wrap64 (oc_gx occ * oc_gz occ) \<le> 2 ^ 26"
      "fill_cells (oc_gx occ) (wrap64 (oc_gx occ * oc_gz occ)) (map (\<lambda>t. tri_rect x0 z0 cell (oc_gx occ) (oc_gz occ) (corners vs t)) ks) = Some (Inr (st, ct))"
      "oc_min occ = (f32_of x0, f32_of y0, f32_of z0)" "oc_cell_size occ = cell" "oc_cell_start occ = st" "oc_cell_tris occ = ct"
    by (rule build_kept_fields)
  let ?gx = "oc_gx occ" and ?gz = "oc_gz occ"
  let ?rect = "\<lambda>t. tri_rect x0 z0 cell ?gx ?gz (corners vs t)"
  let ?refs = "cell_refs ?gx (map ?rect ks)"
  have g: "1 \<le> ?gx" "1 \<le> ?gz" using d(3,4) grid_dim_pos by simp_all
  have "wrap64 (?gx * ?gz) = ?gx * ?gz" using g b(2) mult_mono [OF g] by (intro wrap64_id) (simp add: in_int64_def)
  with d(5,6) have n: "?gx * ?gz \<le> 2 ^ 26" and f: "fill_cells ?gx (?gx * ?gz) (map ?rect ks) = Some (Inr (st, ct))" by simp_all
  note rx = corner_range [OF vs ks(1,2) _ d(1) [unfolded mesh_points_def], simplified]
  note rz = corner_range [OF vs ks(1,2) _ d(2) [unfolded mesh_points_def], simplified]
  have cx: "0 \<le> a \<and> a \<le> b \<and> b < ?gx" "fin32 x \<Longrightarrow> fle (lowest (map coord_x (corners vs t))) x \<Longrightarrow> fle x (highest (map coord_x (corners vs t))) \<Longrightarrow>
      a \<le> axis_cell x0 cell ?gx x \<and> axis_cell x0 cell ?gx x \<le> b"
    if "t \<in> set ks" "axis_cells x0 cell ?gx (map coord_x (corners vs t)) = (a, b)" for t a b x
    using axis_cells_cover(1) [of "map coord_x (corners vs t)" x0 x1 cell a b]
      axis_cells_cover(2) [of "map coord_x (corners vs t)" x0 x1 cell a b x] rx that c unfolding d(3) by simp_all
  have cz: "0 \<le> a \<and> a \<le> b \<and> b < ?gz" "fin32 z \<Longrightarrow> fle (lowest (map coord_z (corners vs t))) z \<Longrightarrow> fle z (highest (map coord_z (corners vs t))) \<Longrightarrow>
      a \<le> axis_cell z0 cell ?gz z \<and> axis_cell z0 cell ?gz z \<le> b"
    if "t \<in> set ks" "axis_cells z0 cell ?gz (map coord_z (corners vs t)) = (a, b)" for t a b z
    using axis_cells_cover(1) [of "map coord_z (corners vs t)" z0 z1 cell a b]
      axis_cells_cover(2) [of "map coord_z (corners vs t)" z0 z1 cell a b z] rz that c unfolding d(4) by simp_all
  have ok: "\<forall>r\<in>set (map ?rect ks). rect_ok ?gx ?gz r"
    using cx(1) cz(1) by (auto simp: rect_ok_def tri_rect_def split: prod.split)
  have cover: "in_rect (axis_cell x0 cell ?gx x) (axis_cell z0 cell ?gz z) (?rect t)"
    if "t \<in> set ks" "fin32 x" "fin32 z" "fle (lowest (map coord_x (corners vs t))) x" "fle x (highest (map coord_x (corners vs t)))"
      "fle (lowest (map coord_z (corners vs t))) z" "fle z (highest (map coord_z (corners vs t)))" for t x z
    using cx(2) [OF that(1) _ that(2,4,5)] cz(2) [OF that(1) _ that(3,6,7)] by (auto simp: in_rect_def tri_rect_def split: prod.split)
  have nc: "n_cells occ = nat (?gx * ?gz)" by (simp add: n_cells_def)
  from fill_cells_exact [OF ok g n] ks(3) f have t: "length st = n_cells occ + 1" "length ct = length ?refs"
      "\<forall>k \<le> n_cells occ. unat (st ! k) = keys_below (int k) ?refs" "\<forall>k < n_cells occ. cell_slice st ct k = of_key (int k) ?refs"
      "set ct \<subseteq> insert 0 (snd ` set ?refs)" by (simp_all add: nc)
  show thesis
  proof (rule that [of x0 z0 ?refs])
    show "set (oc_cell_tris occ) \<subseteq> insert 0 (word_of_nat ` {..<length ks})"
      using t(5) cell_refs_mem [of _ _ ?gx "map ?rect ks"] d(10) by force
    show "\<forall>p\<in>set ?refs. 0 \<le> fst p \<and> fst p < int (n_cells occ)"
    proof
      fix p assume "p \<in> set ?refs"
      then obtain i where i: "i < length ks" "fst p \<in> set (rect_cells ?gx (?rect (ks ! i)))"
        using cell_refs_mem [of "fst p" "snd p" ?gx "map ?rect ks"] by auto
      then have "rect_ok ?gx ?gz (?rect (ks ! i))" using ok by simp
      from rect_cells_mem(2) [OF this n i(2)] show "0 \<le> fst p \<and> fst p < int (n_cells occ)" using g by (simp add: nc)
    qed
    show "\<forall>i < length ks. \<forall>x z. fin32 x \<and> fin32 z \<and>
        fle (lowest (map coord_x (corners vs (ks ! i)))) x \<and> fle x (highest (map coord_x (corners vs (ks ! i)))) \<and>
        fle (lowest (map coord_z (corners vs (ks ! i)))) z \<and> fle z (highest (map coord_z (corners vs (ks ! i)))) \<longrightarrow>
        (axis_cell z0 cell ?gz z * ?gx + axis_cell x0 cell ?gx x, word_of_nat i) \<in> set ?refs"
    proof (intro allI impI, elim conjE)
      fix i x z
      assume i: "i < length ks" and h: "fin32 x" "fin32 z"
        "fle (lowest (map coord_x (corners vs (ks ! i)))) x" "fle x (highest (map coord_x (corners vs (ks ! i))))"
        "fle (lowest (map coord_z (corners vs (ks ! i)))) z" "fle z (highest (map coord_z (corners vs (ks ! i))))"
      have r: "rect_ok ?gx ?gz (?rect (ks ! i))" using ok i by simp
      have "0 \<le> axis_cell x0 cell ?gx x" "axis_cell x0 cell ?gx x < ?gx"
        using clamp_cell_range [OF g(1)] by (simp_all add: axis_cell_def)
      then have "axis_cell z0 cell ?gz z * ?gx + axis_cell x0 cell ?gx x \<in> set (rect_cells ?gx (?rect (ks ! i)))"
        using cover [OF _ h] i by (simp add: rect_cells_iff [OF r n])
      then show "(axis_cell z0 cell ?gz z * ?gx + axis_cell x0 cell ?gx x, word_of_nat i) \<in> set ?refs"
        using i by (auto simp: cell_refs_mem)
    qed
  qed (use d g n t rx rz in auto)
qed

section \<open>The result is well-formed\<close>

lemma f32_of_fin32: "fin32 x \<Longrightarrow> f32_of x = x"
  by (cases x) (simp_all add: fin32_def is_f32_def repr_def rnd32_def fin_or_inf_def)

lemma axis_ok_build:
  assumes "fin32 lo" "fin32 hi" "fle lo hi"
  shows "axis_ok (f32_of lo) (f32_of hi) (f32_of lo) (axis_scale (sub64 hi lo))"
proof -
  have "is_fin (axis_scale (sub64 hi lo)) \<and> fle (Fin 0) (axis_scale (sub64 hi lo)) \<and> is_f32 (axis_scale (sub64 hi lo))"
  proof (cases "flt (Fin 0) (sub64 hi lo)")
    case True
    have "bounded (128 + 1) (sub64 hi lo)" using assms by (intro bounded_sub bounded_f32) (simp_all add: fin32_def)
    then obtain d where d: "sub64 hi lo = Fin d" "\<bar>d\<bar> \<le> pow2 129" by (auto simp: bounded_def)
    have "pow2 129 = pow2 15 * pow2 114" by (simp flip: pow2_add)
    also have "\<dots> \<le> 65534 * pow2 114" by (intro mult_right_mono) (simp_all add: pow2_def)
    finally have "\<bar>d / 65534\<bar> \<le> pow2 114" using d(2) by (simp add: abs_divide)
    then have "bounded 114 (rnd64 (d / 65534))" by (intro bounded_rnd) simp_all
    then obtain e where e: "rnd64 (d / 65534) = Fin e" "\<bar>e\<bar> \<le> pow2 114" by (auto simp: bounded_def)
    have "rnd64 0 = Fin 0" using rnd64_int [of 0] by simp
    from rnd64_Fin_mono [OF this e(1)] True have "0 \<le> e" by (simp add: d(1))
    then have "0 \<le> rnd 24 (- 149) e" by (rule rnd_nonneg)
    moreover have s: "axis_scale (sub64 hi lo) = rnd32 e" using True by (simp add: axis_scale_def d(1) e(1))
    moreover have r: "rnd32 e = Fin (rnd 24 (- 149) e)" by (rule rnd32_fin [OF e(2)]) simp_all
    moreover have "is_f32 (rnd32 e)" by simp
    ultimately show ?thesis unfolding s r by simp
  next
    case False
    then show ?thesis by (simp add: axis_scale_def is_f32_small)
  qed
  then show ?thesis using assms by (simp add: axis_ok_def f32_of_fin32) (simp add: fin32_def)
qed

lemma pick_cell_size_ok: "is_f32 c \<Longrightarrow> fin32 (pick_cell_size c) \<and> flt (Fin 0) (pick_cell_size c)"
  by (cases c) (auto simp: pick_cell_size_def default_cell_size_def fin32_def is_f32_small)

lemma empty_occluders_ok: "fin32 cell \<Longrightarrow> flt (Fin 0) cell \<Longrightarrow> occ_ok (empty_occluders cell)"
  by (simp add: occ_ok_def empty_occluders_def Let_def vertex_count_def triangle_count_def n_cells_def axis_ok_def is_f32_small fin32_def)

text \<open>The loader's limits, which \<open>Build\<close> itself does not check.\<close>

definition within_limits :: "occluders \<Rightarrow> bool" where
  "within_limits occ \<longleftrightarrow> oc_gx occ \<le> 1000000 \<and> oc_gz occ \<le> 1000000 \<and> vertex_count occ \<le> max_vertices \<and>
     triangle_count occ \<le> max_triangles \<and> length (oc_cell_tris occ) \<le> max_cell_refs"

lemma table_ok:
  assumes "length st = n + 1" "length ct = length refs" "\<forall>k \<le> n. unat (st ! k) = keys_below (int k) refs"
    and "\<forall>p\<in>set refs. 0 \<le> fst p \<and> fst p < int n"
  shows "unat (st ! 0) = 0 \<and> unat (st ! n) = length ct \<and> sorted (st :: u32 list)"
proof -
  have "st ! i \<le> st ! j" if "i \<le> j" "j < length st" for i j
    using assms(1,3) that keys_below_mono [of "int i" "int j" refs] by (simp add: word_le_nat_alt)
  then show ?thesis using assms keys_below_0 [of refs] keys_below_all [of refs "int n"] by (simp add: sorted_iff_nth_mono)
qed

lemma build_kept_ok:
  assumes vs: "\<forall>v\<in>set vs. finite_point v" and ks: "\<forall>t\<in>set ks. \<forall>j\<in>set (tri_indices t). j < length vs" "ks \<noteq> []"
    and c: "fin32 cell" "flt (Fin 0) cell" and b: "build_kept cell vs ks = Some (Inr occ)" and lim: "within_limits occ"
  shows "occ_ok occ"
proof -
  from b obtain x0 x1 y0 y1 z0 z1 m used where d: "axis_range (map coord_x (mesh_points vs ks)) = (x0, x1)"
      "axis_range (map coord_y (mesh_points vs ks)) = (y0, y1)" "axis_range (map coord_z (mesh_points vs ks)) = (z0, z1)"
      "number_verts (concat (map tri_indices ks)) = (m, used)"
      "oc_min occ = (f32_of x0, f32_of y0, f32_of z0)" "oc_max occ = (f32_of x1, f32_of y1, f32_of z1)" "oc_origin occ = oc_min occ"
      "oc_scale occ = (axis_scale (sub64 x1 x0), axis_scale (sub64 y1 y0), axis_scale (sub64 z1 z0))" "length (oc_verts occ) = used * 3"
      "oc_tris occ = concat (map (\<lambda>(t0, t1, t2). [new_index m t0, new_index m t1, new_index m t2]) ks)"
      "oc_gx occ = grid_dim (sub64 x1 x0) cell" "oc_gz occ = grid_dim (sub64 z1 z0) cell"
    by (rule build_kept_fields)
  have r: "fin32 x0 \<and> fin32 x1 \<and> fle x0 x1" "fin32 y0 \<and> fin32 y1 \<and> fle y0 y1" "fin32 z0 \<and> fin32 z1 \<and> fle z0 z1"
    using corner_range [OF vs ks] d(1-3) unfolding mesh_points_def by blast+
  have vc: "vertex_count occ = used" using d(9) by (simp add: vertex_count_def)
  have "length (oc_tris occ) = 3 * length ks" unfolding d(10) by (induction ks) auto
  then have tc: "triangle_count occ = length ks" "length (oc_tris occ) = triangle_count occ * 3" by (simp_all add: triangle_count_def)
  have lim': "used \<le> 50000000" "length ks \<le> 50000000" "oc_gx occ \<le> 1000000" "oc_gz occ \<le> 1000000" "length (oc_cell_tris occ) \<le> 400000000"
    using lim by (simp_all add: within_limits_def vc tc max_vertices_def max_triangles_def max_cell_refs_def)
  have small: "unat (of_nat i :: u32) = i" if "i < 50000000" for i using that by (intro unat_of_small) simp
  have "unat (new_index m t) < used" if "unat t \<in> set (concat (map tri_indices ks))" for t
    using number_verts_ok [OF d(4)] that small lim'(1) by (force simp: new_index_def split: option.split)
  then have tris: "\<forall>t\<in>set (oc_tris occ). unat t < used" unfolding d(10) by (force simp: tri_indices_def)
  have "concat (map tri_indices ks) \<noteq> []" using ks(2) by (cases ks) (auto simp: tri_indices_def)
  then have pos: "0 < used" using number_verts_ok [OF d(4)] by blast
  have gg: "oc_gx occ * oc_gz occ < 2 ^ 63" if "1 \<le> oc_gx occ" "1 \<le> oc_gz occ"
  proof -
    have "oc_gx occ * oc_gz occ \<le> 1000000 * 1000000" using lim' that by (intro mult_mono) simp_all
    then show ?thesis by simp
  qed
  have "1 \<le> oc_gx occ" "1 \<le> oc_gz occ" using grid_dim_pos unfolding d(11,12) by blast+
  note gz = gg [OF this]
  have len: "length ks < 2 ^ 32" using lim'(2) by simp
  obtain refs :: "(int \<times> u32) list" where t:
      "1 \<le> oc_gx occ" "1 \<le> oc_gz occ" "oc_gx occ * oc_gz occ \<le> 2 ^ 26" "oc_cell_size occ = cell"
      "length (oc_cell_start occ) = n_cells occ + 1" "length (oc_cell_tris occ) = length refs"
      "\<forall>k \<le> n_cells occ. unat (oc_cell_start occ ! k) = keys_below (int k) refs"
      "set (oc_cell_tris occ) \<subseteq> insert 0 (word_of_nat ` {..<length ks})"
      "\<forall>p\<in>set refs. 0 \<le> fst p \<and> fst p < int (n_cells occ)"
    by (rule build_kept_table [OF vs ks len c b gz])
  have "\<forall>t\<in>set (oc_cell_tris occ). unat t < length ks" using t(8) small lim'(2) ks(2) by fastforce
  then show ?thesis
    using table_ok [OF t(5-7,9)] t tris pos lim' c ks(2) axis_ok_build r
    unfolding occ_ok_def Let_def vc tc(1) d(5-8) prod.case by (simp add: d(9) tc fin32_def)
qed

text \<open>The occluder file is what the mesh says: for a mesh of finite vertices whose occluders stay within the limits of
  the format, \<open>Save\<close> writes what \<open>Build\<close> made and the loader accepts it and reads back the same occluders, in every field.\<close>

theorem build_survives_the_file:
  assumes "\<forall>v\<in>set (ms_verts ms). finite_point v" "is_f32 (bo_cell opts)" "build (Some ms) opts = Some (Inr occ)"
    and "within_limits occ" "encoded_size occ \<le> max_file_bytes"
  shows "\<exists>data. encode_occ occ = Some data \<and> parse data = Inr occ"
proof -
  let ?cell = "pick_cell_size (bo_cell opts)"
  note c = pick_cell_size_ok [OF assms(2)]
  from assms(3) consider "occ = empty_occluders ?cell"
    | ks where "kept_tris (pick_min_area (bo_min_area opts)) (ms_verts ms) 0 (ms_tris ms) = Inr ks" "ks \<noteq> []"
      "build_kept ?cell (ms_verts ms) ks = Some (Inr occ)"
    by (auto simp: build_def Let_def split: if_splits sum.splits)
  then have "occ_ok occ \<and> oc_file_bytes occ = int (encoded_size occ)"
  proof cases
    case 1
    then show ?thesis using empty_occluders_ok c
      by (simp add: empty_occluders_def encoded_size_def vertex_count_def triangle_count_def n_cells_def occ_width_def Let_def)
  next
    case 2
    have "occ_ok occ" using build_kept_ok [OF assms(1) kept_tris_ok [OF 2(1)] 2(2) _ _ 2(3) assms(4)] c by blast
    moreover from 2(3) have "oc_file_bytes occ = int (encoded_size occ)" by (rule build_kept_fields)
    ultimately show ?thesis by blast
  qed
  then show ?thesis using parse_encode [OF _ assms(5)] by force
qed

section \<open>Every triangle is found\<close>

lemma refs_blocked_False:
  "refs_blocked occ r i n = Some False \<Longrightarrow> t \<in> set (take n (drop i (oc_cell_tris occ))) \<Longrightarrow> tri_blocked occ r t = Some False"
proof (induction occ r i n rule: refs_blocked.induct)
  case (2 occ r i n)
  have i: "i < length (oc_cell_tris occ)" "tri_blocked occ r (oc_cell_tris occ ! i) = Some False" "refs_blocked occ r (Suc i) n = Some False"
    using 2(2) by (auto simp: nth_opt_def split: option.splits bool.splits if_splits)
  have "take (Suc n) (drop i (oc_cell_tris occ)) = oc_cell_tris occ ! i # take n (drop (Suc i) (oc_cell_tris occ))"
    using Cons_nth_drop_Suc [OF i(1)] by (metis take_Suc_Cons)
  moreover have n: "nth_opt (oc_cell_tris occ) i = Some (oc_cell_tris occ ! i)" using i(1) by (simp add: nth_opt_def)
  ultimately show ?case using 2(1) [OF n i(2) refl i(3)] 2(3) i(2) by auto
qed simp

lemma listed_blocks:
  assumes "occ_ok occ" "in_grid occ cx cz" "t \<in> set (cell_slice (oc_cell_start occ) (oc_cell_tris occ) (nat (cz * oc_gx occ + cx)))"
    and "tri_blocked occ r t = Some True"
  shows "cell_blocked occ r cx cz = Some True"
proof -
  have "cell_blocked occ r cx cz \<noteq> Some False"
  proof
    assume f: "cell_blocked occ r cx cz = Some False"
    let ?i = "nat (cz * oc_gx occ + cx)" and ?st = "oc_cell_start occ"
    from f assms(2) have "refs_blocked occ r (unat (?st ! ?i)) (unat (?st ! (?i + 1)) - unat (?st ! ?i)) = Some False"
      by (auto simp: cell_blocked_def nth_opt_def Let_def split: if_splits)
    from refs_blocked_False [OF this] assms(3,4) show False by (simp add: cell_slice_def)
  qed
  moreover have "cell_blocked occ r cx cz \<noteq> None" using cell_defined [OF assms(1), of r cx cz] by (cases "cell_blocked occ r cx cz") (simp_all add: answers_def)
  ultimately show ?thesis by (cases "cell_blocked occ r cx cz") auto
qed

text \<open>The point \<open>(x, z)\<close> is in the bounding rectangle of a triangle.\<close>

definition over_tri :: "vec list \<Rightarrow> tri \<Rightarrow> f32 \<Rightarrow> f32 \<Rightarrow> bool" where
  "over_tri vs t x z \<longleftrightarrow> fin32 x \<and> fin32 z \<and>
     fle (lowest (map coord_x (corners vs t))) x \<and> fle x (highest (map coord_x (corners vs t))) \<and>
     fle (lowest (map coord_z (corners vs t))) z \<and> fle z (highest (map coord_z (corners vs t)))"

text \<open>The cell a query looks at for the point \<open>(x, z)\<close>.\<close>

definition query_cell :: "occluders \<Rightarrow> f32 \<Rightarrow> f32 \<Rightarrow> int \<times> int" where
  "query_cell occ x z = (axis_cell (coord_x (oc_min occ)) (oc_cell_size occ) (oc_gx occ) x, axis_cell (coord_z (oc_min occ)) (oc_cell_size occ) (oc_gz occ) z)"

text \<open>No shot passes because of the grid. A ray that hits a triangle that \<open>Build\<close> kept is blocked in the cell of every point
  of the triangle's bounding rectangle: the cell table lists the triangle in each of them, whatever the rounding of the
  coordinates to cells. (Finite vertices, occluders within the limits of the format.)\<close>

theorem build_leaves_no_gaps:
  assumes "\<forall>v\<in>set (ms_verts ms). finite_point v" "is_f32 (bo_cell opts)" "build (Some ms) opts = Some (Inr occ)" "within_limits occ"
    and "kept_tris (pick_min_area (bo_min_area opts)) (ms_verts ms) 0 (ms_tris ms) = Inr ks" "i < length ks" "over_tri (ms_verts ms) (ks ! i) x z"
    and "tri_blocked occ r (word_of_nat i) = Some True"
  shows "cell_blocked occ r (fst (query_cell occ x z)) (snd (query_cell occ x z)) = Some True"
proof -
  let ?cell = "pick_cell_size (bo_cell opts)" and ?vs = "ms_verts ms"
  have c: "fin32 ?cell" "flt (Fin 0) ?cell" using pick_cell_size_ok [OF assms(2)] by blast+
  note idx = kept_tris_ok [OF assms(5)]
  have ne: "ks \<noteq> []" "ms_tris ms \<noteq> []" using assms(5,6) by auto
  then have b: "build_kept ?cell ?vs ks = Some (Inr occ)" using assms(3,5) by (auto simp: build_def Let_def split: if_splits)
  have ok: "occ_ok occ" by (rule build_kept_ok [OF assms(1) idx ne(1) c b assms(4)])
  have g: "oc_gx occ * oc_gz occ < 2 ^ 63" using ok by (simp add: occ_ok_def Let_def)
  have "length (oc_tris occ) = 3 * length ks"
  proof -
    from b obtain m where "oc_tris occ = concat (map (\<lambda>(t0, t1, t2). [new_index m t0, new_index m t1, new_index m t2]) ks)"
      by (rule build_kept_fields)
    then show ?thesis by (induction ks arbitrary: occ) (auto simp: length_concat comp_def split_def sum_list_triv)
  qed
  then have len: "length ks < 2 ^ 32" using assms(4) by (simp add: within_limits_def triangle_count_def max_triangles_def)
  obtain x0 z0 refs where t: "oc_min occ = (f32_of x0, fst (snd (oc_min occ)), f32_of z0)" "fin32 x0" "fin32 z0" "1 \<le> oc_gx occ" "1 \<le> oc_gz occ"
      "oc_cell_size occ = ?cell" "\<forall>k < n_cells occ. cell_slice (oc_cell_start occ) (oc_cell_tris occ) k = of_key (int k) refs"
      "\<forall>p\<in>set refs. 0 \<le> fst p \<and> fst p < int (n_cells occ)"
      "\<forall>i < length ks. \<forall>x z. over_tri ?vs (ks ! i) x z \<longrightarrow>
        (axis_cell z0 ?cell (oc_gz occ) z * oc_gx occ + axis_cell x0 ?cell (oc_gx occ) x, word_of_nat i) \<in> set refs"
    unfolding over_tri_def by (rule build_kept_table [OF assms(1) idx ne(1) len c b g])
  let ?cx = "axis_cell x0 ?cell (oc_gx occ) x" and ?cz = "axis_cell z0 ?cell (oc_gz occ) z"
  have "coord_x (oc_min occ) = x0" "coord_z (oc_min occ) = z0"
    using t(1-3) f32_of_fin32 by (metis coord_x_def fst_conv) (metis coord_z_def t(1,3) f32_of_fin32 snd_conv)
  then have q: "query_cell occ x z = (?cx, ?cz)" by (simp add: query_cell_def t(6))
  have m: "(?cz * oc_gx occ + ?cx, word_of_nat i) \<in> set refs" using t(9) assms(6,7) by blast
  then have k: "0 \<le> ?cz * oc_gx occ + ?cx" "?cz * oc_gx occ + ?cx < int (n_cells occ)" using t(8) by auto
  then have "word_of_nat i \<in> set (cell_slice (oc_cell_start occ) (oc_cell_tris occ) (nat (?cz * oc_gx occ + ?cx)))"
    using t(7) m by (simp add: of_key_mem)
  moreover have "in_grid occ ?cx ?cz" using clamp_cell_range t(4,5) by (simp add: in_grid_def axis_cell_def)
  ultimately show ?thesis using listed_blocks [OF ok _ _ assms(8)] by (simp add: q)
qed

section \<open>A mesh to evaluate\<close>

text \<open>One triangle over four cells, with a scale of one, and one without area.\<close>

definition demo_mesh :: mesh where
  "demo_mesh = \<lparr>ms_verts = [(Fin 0, Fin 0, Fin 0), (Fin 65534, Fin 0, Fin 0), (Fin 0, Fin 0, Fin 65534)], ms_tris = [(0, 1, 2), (0, 0, 1)]\<rparr>"

definition demo_build_options :: build_options where
  "demo_build_options = \<lparr>bo_cell = Fin 32767, bo_min_area = Fin 0\<rparr>"

definition demo_built :: occluders where
  "demo_built = \<lparr>oc_min = (Fin 0, Fin 0, Fin 0), oc_max = (Fin 65534, Fin 0, Fin 65534), oc_origin = (Fin 0, Fin 0, Fin 0),
     oc_cell_size = Fin 32767, oc_gx = 2, oc_gz = 2, oc_scale = (Fin 1, Fin 0, Fin 1),
     oc_verts = [- 32767, 0, - 32767, 32767, 0, - 32767, - 32767, 0, 32767], oc_tris = [0, 1, 2],
     oc_cell_start = [0, 1, 2, 3, 4], oc_cell_tris = [0, 0, 0, 0], oc_file_bytes = 140\<rparr>"

text \<open>A shot straight down through the triangle.\<close>

definition demo_shot :: ray where
  "demo_shot = \<lparr>ry_from = (Fin 16384, Fin 1, Fin 16384), ry_dx = Fin 0, ry_dy = Fin (- 2), ry_dz = Fin 0\<rparr>"

lemma rnd64_0: "rnd64 0 = Fin 0" and rnd64_1: "rnd64 1 = Fin 1"
  using rnd64_int [of 0] rnd64_int [of 1] by simp_all

lemma rnd64_neg_numeral: "numeral n \<le> (2 ^ 53 :: int) \<Longrightarrow> rnd64 (- numeral n) = Fin (- numeral n)"
  using rnd64_int [of "- numeral n"] by simp

lemma rnd64_between:
  "rnd64 a = Fin p \<Longrightarrow> rnd64 b = Fin q \<Longrightarrow> a \<le> x \<Longrightarrow> x \<le> b \<Longrightarrow> \<exists>v. rnd64 x = Fin v \<and> p \<le> v \<and> v \<le> q"
  using rnd_mono [of 53 a x "- 1074"] rnd_mono [of 53 x b "- 1074"] by (auto simp: rnd64_def fin_or_inf_def split: if_splits)

lemma rnd64_repr:
  assumes "\<bar>m\<bar> \<le> 2 ^ 53" "- 1074 \<le> k" "k \<le> 0"
  shows "rnd64 (of_int m * pow2 k) = Fin (of_int m * pow2 k)"
proof -
  have "\<bar>of_int m * pow2 k\<bar> \<le> pow2 53 * pow2 0"
    using int_le_pow2 [OF assms(1)] assms(3) unfolding abs_mult by (intro mult_mono) (simp_all del: pow2_0)
  also have "\<dots> < pow2 1024" by simp
  finally show ?thesis using repr_grid [of m 53 "- 1074" k] assms(1,2) by (simp add: rnd64_def fin_or_inf_def)
qed

lemma demo_square: "rnd64 18444492376972984336 = Fin 18444492376972984320" by code_simp
lemma demo_root: "sqrt_rnd 18444492376972984320 = 4294705156" by code_simp
lemma demo_square_again: "rnd64 18444492376972984320 = Fin 18444492376972984320" by code_simp
lemma demo_inverse: "rnd64 (- (1 / 8589410312)) = Fin (- (8796629917697 / 75557863725914323419136))" by code_simp
lemma demo_scale: "axis_scale (Fin 65534) = Fin 1" by code_simp
lemma demo_fill: "fill_cells 2 4 [((0, 1), (0, 1))] = Some (Inr ([0, 1, 2, 3, 4], [0, 0, 0, 0]))" by code_simp

lemmas demo_rounded = demo_square demo_root demo_square_again demo_inverse rnd64_0 rnd64_neg_numeral

lemma demo_quarters: "rnd64 (1 / 4) = Fin (1 / 4)" "rnd64 (3 / 4) = Fin (3 / 4)" "rnd64 (1 / 2) = Fin (1 / 2)" "rnd64 (3 / 8) = Fin (3 / 8)"
  using rnd64_repr [of 1 "- 2"] rnd64_repr [of 3 "- 2"] rnd64_repr [of 1 "- 1"] rnd64_repr [of 3 "- 3"] by (simp_all add: pow2_def)

lemma demo_kept: "kept_tris (Fin 0) (ms_verts demo_mesh) 0 (ms_tris demo_mesh) = Inr [(0, 1, 2)]"
  by (simp add: demo_mesh_def is_kept_def tri_area_def cross64_def fsub_def demo_rounded sqrt_rnd_def [of 0])

lemma demo_corners: "corners (ms_verts demo_mesh) (0, 1, 2) = [(Fin 0, Fin 0, Fin 0), (Fin 65534, Fin 0, Fin 0), (Fin 0, Fin 0, Fin 65534)]"
  by (simp add: demo_mesh_def corners_def tri_indices_def)

lemma demo_axes: "axis_range [Fin 0, Fin 65534, Fin 0] = (Fin 0, Fin 65534)" "axis_range [Fin 0, Fin 0, Fin 0] = (Fin 0, Fin 0)"
    "axis_range [Fin 0, Fin 0, Fin 65534] = (Fin 0, Fin 65534)" "grid_dim (Fin 65534) (Fin 32767) = 2"
  by (simp_all add: axis_range_def grid_dim_def int64_ceil_def in_int64_def)

lemma demo_rect: "tri_rect (Fin 0) (Fin 0) (Fin 32767) 2 2 (corners (ms_verts demo_mesh) (0, 1, 2)) = ((0, 1), (0, 1))"
  by (simp add: demo_corners tri_rect_def axis_cells_def axis_cell_def lowest_def highest_def go_min_def go_max_def coord_x_def
    coord_z_def clamp_cell_def int64_floor_def in_int64_def fsub_def rnd64_0)

lemma demo_quantize: "quantize (Fin 0) (Fin 65534) (Fin 0) = - 32767" "quantize (Fin 0) (Fin 65534) (Fin 65534) = 32767" "quantize (Fin 0) (Fin 0) (Fin 0) = 0"
  by (simp_all add: quantize_def Let_def feq_def fsub_def rnd64_0 rnd64_1 rnd64_neg_numeral)

definition demo_numbers :: "nat \<Rightarrow> nat option" where
  "demo_numbers = [0 \<mapsto> 0, 1 \<mapsto> 1, 2 \<mapsto> 2]"

lemma demo_place: "place_verts (ms_verts demo_mesh) demo_numbers (quantize (Fin 0) (Fin 65534), quantize (Fin 0) (Fin 0), quantize (Fin 0) (Fin 65534))
    (replicate 9 0) = oc_verts demo_built"
  by (simp add: place_verts_def demo_numbers_def demo_mesh_def demo_built_def demo_quantize numeral_eq_Suc)

lemma demo_number: "number_verts (tri_indices (0, 1, 2)) = (demo_numbers, 3)"
proof -
  have "tri_indices (0, 1, 2) = [0, 1, 2]" by (simp add: tri_indices_def)
  then show ?thesis by (simp only: number_verts_def demo_numbers_def) (simp add: eval_nat_numeral)
qed

lemma demo_build: "build (Some demo_mesh) demo_build_options = Some (Inr demo_built)"
proof -
  have k: "build (Some demo_mesh) demo_build_options = build_kept (Fin 32767) (ms_verts demo_mesh) [(0, 1, 2)]"
  proof -
    have "ms_verts demo_mesh \<noteq> []" "ms_tris demo_mesh \<noteq> []" by (simp_all add: demo_mesh_def)
    moreover have "pick_cell_size (bo_cell demo_build_options) = Fin 32767" "pick_min_area (bo_min_area demo_build_options) = Fin 0"
      by (simp_all add: demo_build_options_def pick_cell_size_def pick_min_area_def)
    ultimately show ?thesis by (simp add: build_def demo_kept)
  qed
  have c: "map coord_x (corners (ms_verts demo_mesh) (0, 1, 2)) = [Fin 0, Fin 65534, Fin 0]"
    "map coord_y (corners (ms_verts demo_mesh) (0, 1, 2)) = [Fin 0, Fin 0, Fin 0]"
    "map coord_z (corners (ms_verts demo_mesh) (0, 1, 2)) = [Fin 0, Fin 0, Fin 65534]"
    by (simp_all add: demo_corners coord_x_def coord_y_def coord_z_def)
  have w: "wrap64 4 = 4" by (simp add: wrap64_id in_int64_def)
  have r: "rnd32 0 = Fin 0" "axis_scale (Fin 0) = Fin 0" using rnd32_int [of 0] by (simp_all add: axis_scale_def)
  show ?thesis
    unfolding k build_kept_def Let_def
    by (simp add: demo_number c demo_axes fsub_def w demo_rect demo_fill demo_place rnd64_0 r demo_scale)
      (simp add: demo_built_def demo_numbers_def new_index_def encoded_size_def vertex_count_def triangle_count_def n_cells_def occ_width_def index_width_def header_size_def)
qed

lemma demo_mesh_finite: "\<forall>v\<in>set (ms_verts demo_mesh). finite_point v" "is_f32 (bo_cell demo_build_options)"
  using is_f32_rnd32 [of 65534] is_f32_rnd32 [of 32767] is_f32_small
  by (simp_all add: demo_mesh_def finite_point_def demo_build_options_def)

lemma demo_within: "within_limits demo_built" "encoded_size demo_built \<le> max_file_bytes"
  by (simp_all add: within_limits_def demo_built_def vertex_count_def triangle_count_def max_vertices_def max_triangles_def max_cell_refs_def
    encoded_size_def n_cells_def occ_width_def index_width_def header_size_def max_file_bytes_def)

theorem build_survives_the_file_witness:
  "build (Some demo_mesh) demo_build_options = Some (Inr demo_built) \<and> (\<exists>data. encode_occ demo_built = Some data \<and> parse data = Inr demo_built)"
  using build_survives_the_file [OF demo_mesh_finite demo_build demo_within] demo_build by blast

lemma demo_hit: "hits_triangle demo_shot (Fin 0, Fin 0, Fin 0) (Fin 65534, Fin 0, Fin 0) (Fin 0, Fin 0, Fin 65534)"
proof -
  obtain a where a: "rnd64 (1 / 1000000000000) = Fin a" "a \<le> 1"
    using rnd64_between [OF rnd64_0 rnd64_1, of "1 / 1000000000000"] by auto
  obtain b where b: "rnd64 (1 / 1000000) = Fin b" "b \<le> 1 / 4"
    using rnd64_between [OF rnd64_0 demo_quarters(1), of "1 / 1000000"] by auto
  obtain c where c: "rnd64 (999999 / 1000000) = Fin c" "3 / 4 \<le> c"
    using rnd64_between [OF demo_quarters(2) rnd64_1, of "999999 / 1000000"] by auto
  obtain u where u: "rnd64 (288239172513177599 / 1152921504606846976) = Fin u" "1 / 4 \<le> u" "u \<le> 3 / 8"
    using rnd64_between [OF demo_quarters(1,4), of "288239172513177599 / 1152921504606846976"] by auto
  obtain uu where uu: "rnd64 (u + u) = Fin uu" "1 / 2 \<le> uu" "uu \<le> 3 / 4"
    using rnd64_between [OF demo_quarters(3,2), of "u + u"] u(2,3) by auto
  obtain t where t: "rnd64 (9444732965739290386433 / 18889465931478580854784) = Fin t" "3 / 8 \<le> t" "t \<le> 1 / 2"
    using rnd64_between [OF demo_quarters(4,3), of "9444732965739290386433 / 18889465931478580854784"] by auto
  show ?thesis using a(2) b(2) c(2) u(2,3) uu(2,3) t(2,3)
    by (simp add: hits_triangle_def demo_shot_def sub64_vec_def cross64_def dot64_def fsub_def demo_rounded Let_def
      a(1) b(1) c(1) u(1) uu(1) [unfolded mult_2 [symmetric]] uu(1) t(1))
qed

lemma demo_tri_blocked: "tri_blocked demo_built demo_shot 0 = Some True"
proof -
  have v: "vertex_of demo_built 0 = Some (Fin 0, Fin 0, Fin 0)" "vertex_of demo_built 1 = Some (Fin 65534, Fin 0, Fin 0)"
    "vertex_of demo_built 2 = Some (Fin 0, Fin 0, Fin 65534)"
    by (simp_all add: vertex_of_def demo_built_def nth_opt_def dequantize_def rnd64_0 rnd64_neg_numeral)
  then show ?thesis using demo_hit by (simp add: tri_blocked_def nth_opt_def) (simp add: demo_built_def)
qed

theorem build_leaves_no_gaps_witness:
  "query_cell demo_built (Fin 32767) (Fin 0) = (1, 0) \<and> cell_blocked demo_built demo_shot 1 0 = Some True"
proof -
  have o: "over_tri (ms_verts demo_mesh) ([(0, 1, 2)] ! 0) (Fin 32767) (Fin 0)"
    using is_f32_rnd32 [of 32767] is_f32_small
    by (simp add: over_tri_def demo_corners fin32_def lowest_def highest_def go_min_def go_max_def coord_x_def coord_z_def)
  have q: "query_cell demo_built (Fin 32767) (Fin 0) = (1, 0)"
    by (simp add: query_cell_def demo_built_def axis_cell_def coord_x_def coord_z_def clamp_cell_def int64_floor_def in_int64_def fsub_def rnd64_0 rnd64_1)
  have k: "kept_tris (pick_min_area (bo_min_area demo_build_options)) (ms_verts demo_mesh) 0 (ms_tris demo_mesh) = Inr [(0, 1, 2)]"
    using demo_kept by (simp add: demo_build_options_def pick_min_area_def)
  from build_leaves_no_gaps [OF demo_mesh_finite demo_build demo_within(1) k _ o, of demo_shot] q show ?thesis
    by (simp add: demo_tri_blocked)
qed

end
