(* ===== verification/SessionPackets.thy ===== *)
theory SessionPackets
  imports Packets
begin

text \<open>
  The packets of internal/protocol/packets.go that open, steer and close a session: handshake,
  character creation, transforms, level changes, visuals, chat, group answers, heartbeats,
  safe-zone state, errors, world events, entity announcements and the server query. The shape is the one of
  \<open>Packets\<close>: a record, a schema, the field list \<open>binary.Write\<close> encodes and the reader that
  rebuilds it. \<open>SessionID [4]byte\<close> is a byte array holding the little-endian id.
\<close>

fun as_u64 :: "field \<Rightarrow> u64" where
  "as_u64 (U64 w) = w"
| "as_u64 _ = 0"

definition session_id_bytes :: "u32 \<Rightarrow> string" where
  "session_id_bytes i = map char_of_byte (le_bytes 4 (unat i))"

definition session_id_of :: "string \<Rightarrow> u32" where
  "session_id_of s = word_of_nat (le_value (map byte_of s))"

section \<open>Structs\<close>

record handshake_req =
  hq_uuid :: string
  hq_hwid :: string
  hq_nickname :: string
  hq_protocol :: u8

definition handshake_req_schema :: "field_type list" where
  "handshake_req_schema = [TBytes 37, TBytes 32, TBytes 32, TU8]"

definition handshake_req_fields :: "handshake_req \<Rightarrow> field list" where
  "handshake_req_fields p = [Bytes (hq_uuid p), Bytes (hq_hwid p), Bytes (hq_nickname p), U8 (hq_protocol p)]"

definition handshake_req_of :: "field list \<Rightarrow> handshake_req" where
  "handshake_req_of fs = \<lparr>hq_uuid = as_bytes (fs ! 0), hq_hwid = as_bytes (fs ! 1),
     hq_nickname = as_bytes (fs ! 2), hq_protocol = as_u8 (fs ! 3)\<rparr>"

definition read_handshake_req :: "bytes \<Rightarrow> (handshake_req \<times> bytes) option" where
  "read_handshake_req = read_struct handshake_req_schema handshake_req_of"

record handshake_res =
  hr_session_id :: string
  hr_status :: u8
  hr_x :: f32
  hr_y :: f32
  hr_z :: f32
  hr_world_time :: u64
  hr_eco_tier :: u8
  hr_has_character :: u8
  hr_faction :: string

definition handshake_res_schema :: "field_type list" where
  "handshake_res_schema = [TBytes 4, TU8, TF32, TF32, TF32, TU64, TU8, TU8, TBytes 16]"

definition handshake_res_fields :: "handshake_res \<Rightarrow> field list" where
  "handshake_res_fields p = [Bytes (hr_session_id p), U8 (hr_status p), F32 (hr_x p), F32 (hr_y p), F32 (hr_z p),
     U64 (hr_world_time p), U8 (hr_eco_tier p), U8 (hr_has_character p), Bytes (hr_faction p)]"

definition handshake_res_of :: "field list \<Rightarrow> handshake_res" where
  "handshake_res_of fs = \<lparr>hr_session_id = as_bytes (fs ! 0), hr_status = as_u8 (fs ! 1),
     hr_x = as_f32 (fs ! 2), hr_y = as_f32 (fs ! 3), hr_z = as_f32 (fs ! 4), hr_world_time = as_u64 (fs ! 5),
     hr_eco_tier = as_u8 (fs ! 6), hr_has_character = as_u8 (fs ! 7), hr_faction = as_bytes (fs ! 8)\<rparr>"

definition read_handshake_res :: "bytes \<Rightarrow> (handshake_res \<times> bytes) option" where
  "read_handshake_res = read_struct handshake_res_schema handshake_res_of"

record show_start =
  sh_level :: u8
  sh_x :: f32
  sh_y :: f32
  sh_z :: f32
  sh_flags :: u8
  sh_eco_tier :: u8

definition show_start_schema :: "field_type list" where
  "show_start_schema = [TU8, TF32, TF32, TF32, TU8, TU8]"

definition show_start_fields :: "show_start \<Rightarrow> field list" where
  "show_start_fields p = [U8 (sh_level p), F32 (sh_x p), F32 (sh_y p), F32 (sh_z p), U8 (sh_flags p),
     U8 (sh_eco_tier p)]"

definition show_start_of :: "field list \<Rightarrow> show_start" where
  "show_start_of fs = \<lparr>sh_level = as_u8 (fs ! 0), sh_x = as_f32 (fs ! 1), sh_y = as_f32 (fs ! 2),
     sh_z = as_f32 (fs ! 3), sh_flags = as_u8 (fs ! 4), sh_eco_tier = as_u8 (fs ! 5)\<rparr>"

definition read_show_start :: "bytes \<Rightarrow> (show_start \<times> bytes) option" where
  "read_show_start = read_struct show_start_schema show_start_of"

record character_select =
  cs_faction :: string
  cs_money :: u32
  cs_items :: string

definition character_select_schema :: "field_type list" where
  "character_select_schema = [TBytes 16, TU32, TBytes 256]"

definition character_select_fields :: "character_select \<Rightarrow> field list" where
  "character_select_fields p = [Bytes (cs_faction p), U32 (cs_money p), Bytes (cs_items p)]"

definition character_select_of :: "field list \<Rightarrow> character_select" where
  "character_select_of fs = \<lparr>cs_faction = as_bytes (fs ! 0), cs_money = as_u32 (fs ! 1),
     cs_items = as_bytes (fs ! 2)\<rparr>"

definition read_character_select :: "bytes \<Rightarrow> (character_select \<times> bytes) option" where
  "read_character_select = read_struct character_select_schema character_select_of"

record level_load =
  ll_level :: u8
  ll_x :: f32
  ll_y :: f32
  ll_z :: f32
  ll_faction :: string
  ll_eco_tier :: u8

definition level_load_schema :: "field_type list" where
  "level_load_schema = [TU8, TF32, TF32, TF32, TBytes 16, TU8]"

definition level_load_fields :: "level_load \<Rightarrow> field list" where
  "level_load_fields p = [U8 (ll_level p), F32 (ll_x p), F32 (ll_y p), F32 (ll_z p), Bytes (ll_faction p),
     U8 (ll_eco_tier p)]"

definition level_load_of :: "field list \<Rightarrow> level_load" where
  "level_load_of fs = \<lparr>ll_level = as_u8 (fs ! 0), ll_x = as_f32 (fs ! 1), ll_y = as_f32 (fs ! 2),
     ll_z = as_f32 (fs ! 3), ll_faction = as_bytes (fs ! 4), ll_eco_tier = as_u8 (fs ! 5)\<rparr>"

definition read_level_load :: "bytes \<Rightarrow> (level_load \<times> bytes) option" where
  "read_level_load = read_struct level_load_schema level_load_of"

record error_payload =
  er_code :: u8
  er_message :: string

definition error_payload_schema :: "field_type list" where
  "error_payload_schema = [TU8, TBytes 96]"

definition error_payload_fields :: "error_payload \<Rightarrow> field list" where
  "error_payload_fields p = [U8 (er_code p), Bytes (er_message p)]"

definition error_payload_of :: "field list \<Rightarrow> error_payload" where
  "error_payload_of fs = \<lparr>er_code = as_u8 (fs ! 0), er_message = as_bytes (fs ! 1)\<rparr>"

definition read_error_payload :: "bytes \<Rightarrow> (error_payload \<times> bytes) option" where
  "read_error_payload = read_struct error_payload_schema error_payload_of"

record client_transform =
  ct_session_id :: string
  ct_x :: f32
  ct_y :: f32
  ct_z :: f32
  ct_yaw :: i16
  ct_pitch :: i16
  ct_vel_x :: i16
  ct_vel_y :: i16
  ct_vel_z :: i16
  ct_anim_flags :: u8
  ct_gvid :: u16

definition client_transform_schema :: "field_type list" where
  "client_transform_schema = [TBytes 4, TF32, TF32, TF32, TU16, TU16, TU16, TU16, TU16, TU8, TU16]"

definition client_transform_fields :: "client_transform \<Rightarrow> field list" where
  "client_transform_fields p = [Bytes (ct_session_id p), F32 (ct_x p), F32 (ct_y p), F32 (ct_z p), U16 (ct_yaw p),
     U16 (ct_pitch p), U16 (ct_vel_x p), U16 (ct_vel_y p), U16 (ct_vel_z p), U8 (ct_anim_flags p), U16 (ct_gvid p)]"

definition client_transform_of :: "field list \<Rightarrow> client_transform" where
  "client_transform_of fs = \<lparr>ct_session_id = as_bytes (fs ! 0), ct_x = as_f32 (fs ! 1),
     ct_y = as_f32 (fs ! 2), ct_z = as_f32 (fs ! 3), ct_yaw = as_u16 (fs ! 4), ct_pitch = as_u16 (fs ! 5),
     ct_vel_x = as_u16 (fs ! 6), ct_vel_y = as_u16 (fs ! 7), ct_vel_z = as_u16 (fs ! 8),
     ct_anim_flags = as_u8 (fs ! 9), ct_gvid = as_u16 (fs ! 10)\<rparr>"

definition read_client_transform :: "bytes \<Rightarrow> (client_transform \<times> bytes) option" where
  "read_client_transform = read_struct client_transform_schema client_transform_of"

record safezone_state =
  zs_locked :: u8
  zs_zone_id :: string

definition safezone_state_schema :: "field_type list" where
  "safezone_state_schema = [TU8, TBytes 32]"

definition safezone_state_fields :: "safezone_state \<Rightarrow> field list" where
  "safezone_state_fields p = [U8 (zs_locked p), Bytes (zs_zone_id p)]"

definition safezone_state_of :: "field list \<Rightarrow> safezone_state" where
  "safezone_state_of fs = \<lparr>zs_locked = as_u8 (fs ! 0), zs_zone_id = as_bytes (fs ! 1)\<rparr>"

definition read_safezone_state :: "bytes \<Rightarrow> (safezone_state \<times> bytes) option" where
  "read_safezone_state = read_struct safezone_state_schema safezone_state_of"

record entity_enter =
  ee_id :: u32
  ee_kind :: u8
  ee_section :: string
  ee_x :: f32
  ee_y :: f32
  ee_z :: f32
  ee_faction :: string
  ee_health :: u8
  ee_gvid :: u16
  ee_name :: string

definition entity_enter_schema :: "field_type list" where
  "entity_enter_schema = [TU32, TU8, TBytes 64, TF32, TF32, TF32, TBytes 16, TU8, TU16, TBytes 32]"

definition entity_enter_fields :: "entity_enter \<Rightarrow> field list" where
  "entity_enter_fields p = [U32 (ee_id p), U8 (ee_kind p), Bytes (ee_section p), F32 (ee_x p), F32 (ee_y p),
     F32 (ee_z p), Bytes (ee_faction p), U8 (ee_health p), U16 (ee_gvid p), Bytes (ee_name p)]"

definition entity_enter_of :: "field list \<Rightarrow> entity_enter" where
  "entity_enter_of fs = \<lparr>ee_id = as_u32 (fs ! 0), ee_kind = as_u8 (fs ! 1), ee_section = as_bytes (fs ! 2),
     ee_x = as_f32 (fs ! 3), ee_y = as_f32 (fs ! 4), ee_z = as_f32 (fs ! 5), ee_faction = as_bytes (fs ! 6),
     ee_health = as_u8 (fs ! 7), ee_gvid = as_u16 (fs ! 8), ee_name = as_bytes (fs ! 9)\<rparr>"

definition read_entity_enter :: "bytes \<Rightarrow> (entity_enter \<times> bytes) option" where
  "read_entity_enter = read_struct entity_enter_schema entity_enter_of"

record entity_leave =
  el_id :: u32

definition entity_leave_schema :: "field_type list" where
  "entity_leave_schema = [TU32]"

definition entity_leave_fields :: "entity_leave \<Rightarrow> field list" where
  "entity_leave_fields p = [U32 (el_id p)]"

definition entity_leave_of :: "field list \<Rightarrow> entity_leave" where
  "entity_leave_of fs = \<lparr>el_id = as_u32 (fs ! 0)\<rparr>"

definition read_entity_leave :: "bytes \<Rightarrow> (entity_leave \<times> bytes) option" where
  "read_entity_leave = read_struct entity_leave_schema entity_leave_of"

record server_query_res =
  qr_name :: string
  qr_map :: string
  qr_players :: u8
  qr_max_players :: u8
  qr_mode :: u8
  qr_locked :: u8
  qr_proto :: u8
  qr_tick_rate :: u8

definition server_query_res_schema :: "field_type list" where
  "server_query_res_schema = [TBytes 32, TBytes 32, TU8, TU8, TU8, TU8, TU8, TU8]"

definition server_query_res_fields :: "server_query_res \<Rightarrow> field list" where
  "server_query_res_fields p = [Bytes (qr_name p), Bytes (qr_map p), U8 (qr_players p), U8 (qr_max_players p),
     U8 (qr_mode p), U8 (qr_locked p), U8 (qr_proto p), U8 (qr_tick_rate p)]"

definition server_query_res_of :: "field list \<Rightarrow> server_query_res" where
  "server_query_res_of fs = \<lparr>qr_name = as_bytes (fs ! 0), qr_map = as_bytes (fs ! 1),
     qr_players = as_u8 (fs ! 2), qr_max_players = as_u8 (fs ! 3), qr_mode = as_u8 (fs ! 4),
     qr_locked = as_u8 (fs ! 5), qr_proto = as_u8 (fs ! 6), qr_tick_rate = as_u8 (fs ! 7)\<rparr>"

definition read_server_query_res :: "bytes \<Rightarrow> (server_query_res \<times> bytes) option" where
  "read_server_query_res = read_struct server_query_res_schema server_query_res_of"

record level_change =
  lc_level :: string

definition level_change_schema :: "field_type list" where
  "level_change_schema = [TBytes 32]"

definition level_change_fields :: "level_change \<Rightarrow> field list" where
  "level_change_fields p = [Bytes (lc_level p)]"

definition level_change_of :: "field list \<Rightarrow> level_change" where
  "level_change_of fs = \<lparr>lc_level = as_bytes (fs ! 0)\<rparr>"

definition read_level_change :: "bytes \<Rightarrow> (level_change \<times> bytes) option" where
  "read_level_change = read_struct level_change_schema level_change_of"

record player_visual =
  pv_visual :: string

definition player_visual_schema :: "field_type list" where
  "player_visual_schema = [TBytes 64]"

definition player_visual_fields :: "player_visual \<Rightarrow> field list" where
  "player_visual_fields p = [Bytes (pv_visual p)]"

definition player_visual_of :: "field list \<Rightarrow> player_visual" where
  "player_visual_of fs = \<lparr>pv_visual = as_bytes (fs ! 0)\<rparr>"

definition read_player_visual :: "bytes \<Rightarrow> (player_visual \<times> bytes) option" where
  "read_player_visual = read_struct player_visual_schema player_visual_of"

record heartbeat =
  hb_timestamp :: u64

definition heartbeat_schema :: "field_type list" where
  "heartbeat_schema = [TU64]"

definition heartbeat_fields :: "heartbeat \<Rightarrow> field list" where
  "heartbeat_fields p = [U64 (hb_timestamp p)]"

definition heartbeat_of :: "field list \<Rightarrow> heartbeat" where
  "heartbeat_of fs = \<lparr>hb_timestamp = as_u64 (fs ! 0)\<rparr>"

definition read_heartbeat :: "bytes \<Rightarrow> (heartbeat \<times> bytes) option" where
  "read_heartbeat = read_struct heartbeat_schema heartbeat_of"

record world_event =
  we_kind :: u8
  we_state :: u8
  we_timer :: u32

definition world_event_schema :: "field_type list" where
  "world_event_schema = [TU8, TU8, TU32]"

definition world_event_fields :: "world_event \<Rightarrow> field list" where
  "world_event_fields p = [U8 (we_kind p), U8 (we_state p), U32 (we_timer p)]"

definition world_event_of :: "field list \<Rightarrow> world_event" where
  "world_event_of fs = \<lparr>we_kind = as_u8 (fs ! 0), we_state = as_u8 (fs ! 1), we_timer = as_u32 (fs ! 2)\<rparr>"

definition read_world_event :: "bytes \<Rightarrow> (world_event \<times> bytes) option" where
  "read_world_event = read_struct world_event_schema world_event_of"

record chat_text =
  tx_sender :: u32
  tx_len :: u8
  tx_text :: string

definition chat_text_schema :: "field_type list" where
  "chat_text_schema = [TU32, TU8, TBytes 255]"

definition chat_text_fields :: "chat_text \<Rightarrow> field list" where
  "chat_text_fields p = [U32 (tx_sender p), U8 (tx_len p), Bytes (tx_text p)]"

definition chat_text_of :: "field list \<Rightarrow> chat_text" where
  "chat_text_of fs = \<lparr>tx_sender = as_u32 (fs ! 0), tx_len = as_u8 (fs ! 1), tx_text = as_bytes (fs ! 2)\<rparr>"

definition read_chat_text :: "bytes \<Rightarrow> (chat_text \<times> bytes) option" where
  "read_chat_text = read_struct chat_text_schema chat_text_of"

record group_invite_notify =
  gn_inviter :: u32
  gn_name :: string
  gn_faction :: string

definition group_invite_notify_schema :: "field_type list" where
  "group_invite_notify_schema = [TU32, TBytes 32, TBytes 16]"

definition group_invite_notify_fields :: "group_invite_notify \<Rightarrow> field list" where
  "group_invite_notify_fields p = [U32 (gn_inviter p), Bytes (gn_name p), Bytes (gn_faction p)]"

definition group_invite_notify_of :: "field list \<Rightarrow> group_invite_notify" where
  "group_invite_notify_of fs = \<lparr>gn_inviter = as_u32 (fs ! 0), gn_name = as_bytes (fs ! 1),
     gn_faction = as_bytes (fs ! 2)\<rparr>"

definition read_group_invite_notify :: "bytes \<Rightarrow> (group_invite_notify \<times> bytes) option" where
  "read_group_invite_notify = read_struct group_invite_notify_schema group_invite_notify_of"

record group_response =
  gp_accept :: u8

definition group_response_schema :: "field_type list" where
  "group_response_schema = [TU8]"

definition group_response_fields :: "group_response \<Rightarrow> field list" where
  "group_response_fields p = [U8 (gp_accept p)]"

definition group_response_of :: "field list \<Rightarrow> group_response" where
  "group_response_of fs = \<lparr>gp_accept = as_u8 (fs ! 0)\<rparr>"

definition read_group_response :: "bytes \<Rightarrow> (group_response \<times> bytes) option" where
  "read_group_response = read_struct group_response_schema group_response_of"

section \<open>Lemmas: structs\<close>

lemma handshake_req_of_fields [simp]: "handshake_req_of (handshake_req_fields p) = p"
  by (simp add: handshake_req_of_def handshake_req_fields_def)

lemma read_handshake_req_put: "list_all2 field_ok handshake_req_schema (handshake_req_fields p) \<Longrightarrow>
    read_handshake_req (put_struct (handshake_req_fields p) @ rest) = Some (p, rest)"
  by (simp add: read_handshake_req_def read_struct_put)

lemma handshake_res_of_fields [simp]: "handshake_res_of (handshake_res_fields p) = p"
  by (simp add: handshake_res_of_def handshake_res_fields_def)

lemma read_handshake_res_put: "list_all2 field_ok handshake_res_schema (handshake_res_fields p) \<Longrightarrow>
    read_handshake_res (put_struct (handshake_res_fields p) @ rest) = Some (p, rest)"
  by (simp add: read_handshake_res_def read_struct_put)

lemma show_start_of_fields [simp]: "show_start_of (show_start_fields p) = p"
  by (simp add: show_start_of_def show_start_fields_def)

lemma read_show_start_put: "list_all2 field_ok show_start_schema (show_start_fields p) \<Longrightarrow>
    read_show_start (put_struct (show_start_fields p) @ rest) = Some (p, rest)"
  by (simp add: read_show_start_def read_struct_put)

lemma character_select_of_fields [simp]: "character_select_of (character_select_fields p) = p"
  by (simp add: character_select_of_def character_select_fields_def)

lemma read_character_select_put: "list_all2 field_ok character_select_schema (character_select_fields p) \<Longrightarrow>
    read_character_select (put_struct (character_select_fields p) @ rest) = Some (p, rest)"
  by (simp add: read_character_select_def read_struct_put)

lemma level_load_of_fields [simp]: "level_load_of (level_load_fields p) = p"
  by (simp add: level_load_of_def level_load_fields_def)

lemma read_level_load_put: "list_all2 field_ok level_load_schema (level_load_fields p) \<Longrightarrow>
    read_level_load (put_struct (level_load_fields p) @ rest) = Some (p, rest)"
  by (simp add: read_level_load_def read_struct_put)

lemma error_payload_of_fields [simp]: "error_payload_of (error_payload_fields p) = p"
  by (simp add: error_payload_of_def error_payload_fields_def)

lemma read_error_payload_put: "list_all2 field_ok error_payload_schema (error_payload_fields p) \<Longrightarrow>
    read_error_payload (put_struct (error_payload_fields p) @ rest) = Some (p, rest)"
  by (simp add: read_error_payload_def read_struct_put)

lemma client_transform_of_fields [simp]: "client_transform_of (client_transform_fields p) = p"
  by (simp add: client_transform_of_def client_transform_fields_def)

lemma read_client_transform_put: "list_all2 field_ok client_transform_schema (client_transform_fields p) \<Longrightarrow>
    read_client_transform (put_struct (client_transform_fields p) @ rest) = Some (p, rest)"
  by (simp add: read_client_transform_def read_struct_put)

lemma safezone_state_of_fields [simp]: "safezone_state_of (safezone_state_fields p) = p"
  by (simp add: safezone_state_of_def safezone_state_fields_def)

lemma read_safezone_state_put: "list_all2 field_ok safezone_state_schema (safezone_state_fields p) \<Longrightarrow>
    read_safezone_state (put_struct (safezone_state_fields p) @ rest) = Some (p, rest)"
  by (simp add: read_safezone_state_def read_struct_put)

lemma entity_enter_of_fields [simp]: "entity_enter_of (entity_enter_fields p) = p"
  by (simp add: entity_enter_of_def entity_enter_fields_def)

lemma read_entity_enter_put: "list_all2 field_ok entity_enter_schema (entity_enter_fields p) \<Longrightarrow>
    read_entity_enter (put_struct (entity_enter_fields p) @ rest) = Some (p, rest)"
  by (simp add: read_entity_enter_def read_struct_put)

lemma entity_leave_of_fields [simp]: "entity_leave_of (entity_leave_fields p) = p"
  by (simp add: entity_leave_of_def entity_leave_fields_def)

lemma read_entity_leave_put: "list_all2 field_ok entity_leave_schema (entity_leave_fields p) \<Longrightarrow>
    read_entity_leave (put_struct (entity_leave_fields p) @ rest) = Some (p, rest)"
  by (simp add: read_entity_leave_def read_struct_put)

lemma server_query_res_of_fields [simp]: "server_query_res_of (server_query_res_fields p) = p"
  by (simp add: server_query_res_of_def server_query_res_fields_def)

lemma read_server_query_res_put: "list_all2 field_ok server_query_res_schema (server_query_res_fields p) \<Longrightarrow>
    read_server_query_res (put_struct (server_query_res_fields p) @ rest) = Some (p, rest)"
  by (simp add: read_server_query_res_def read_struct_put)

lemma level_change_of_fields [simp]: "level_change_of (level_change_fields p) = p"
  by (simp add: level_change_of_def level_change_fields_def)

lemma read_level_change_put: "list_all2 field_ok level_change_schema (level_change_fields p) \<Longrightarrow>
    read_level_change (put_struct (level_change_fields p) @ rest) = Some (p, rest)"
  by (simp add: read_level_change_def read_struct_put)

lemma player_visual_of_fields [simp]: "player_visual_of (player_visual_fields p) = p"
  by (simp add: player_visual_of_def player_visual_fields_def)

lemma read_player_visual_put: "list_all2 field_ok player_visual_schema (player_visual_fields p) \<Longrightarrow>
    read_player_visual (put_struct (player_visual_fields p) @ rest) = Some (p, rest)"
  by (simp add: read_player_visual_def read_struct_put)

lemma heartbeat_of_fields [simp]: "heartbeat_of (heartbeat_fields p) = p"
  by (simp add: heartbeat_of_def heartbeat_fields_def)

lemma read_heartbeat_put: "list_all2 field_ok heartbeat_schema (heartbeat_fields p) \<Longrightarrow>
    read_heartbeat (put_struct (heartbeat_fields p) @ rest) = Some (p, rest)"
  by (simp add: read_heartbeat_def read_struct_put)

lemma world_event_of_fields [simp]: "world_event_of (world_event_fields p) = p"
  by (simp add: world_event_of_def world_event_fields_def)

lemma read_world_event_put: "list_all2 field_ok world_event_schema (world_event_fields p) \<Longrightarrow>
    read_world_event (put_struct (world_event_fields p) @ rest) = Some (p, rest)"
  by (simp add: read_world_event_def read_struct_put)

lemma chat_text_of_fields [simp]: "chat_text_of (chat_text_fields p) = p"
  by (simp add: chat_text_of_def chat_text_fields_def)

lemma read_chat_text_put: "list_all2 field_ok chat_text_schema (chat_text_fields p) \<Longrightarrow>
    read_chat_text (put_struct (chat_text_fields p) @ rest) = Some (p, rest)"
  by (simp add: read_chat_text_def read_struct_put)

lemma group_invite_notify_of_fields [simp]: "group_invite_notify_of (group_invite_notify_fields p) = p"
  by (simp add: group_invite_notify_of_def group_invite_notify_fields_def)

lemma read_group_invite_notify_put: "list_all2 field_ok group_invite_notify_schema (group_invite_notify_fields p) \<Longrightarrow>
    read_group_invite_notify (put_struct (group_invite_notify_fields p) @ rest) = Some (p, rest)"
  by (simp add: read_group_invite_notify_def read_struct_put)

lemma group_response_of_fields [simp]: "group_response_of (group_response_fields p) = p"
  by (simp add: group_response_of_def group_response_fields_def)

lemma read_group_response_put: "list_all2 field_ok group_response_schema (group_response_fields p) \<Longrightarrow>
    read_group_response (put_struct (group_response_fields p) @ rest) = Some (p, rest)"
  by (simp add: read_group_response_def read_struct_put)

section \<open>Sizes\<close>

text \<open>Every struct of this theory fits one datagram, so \<open>WritePacket\<close> cannot refuse it.\<close>

lemma write_struct_fits:
  assumes "list_all2 field_ok ts fs" "struct_size ts \<le> 1200"
  shows "\<exists>buf. write_packet opcode seq flags (PStruct fs) = Inr buf"
  using length_put_struct [OF assms(1)] assms(2)
  by (simp add: write_packet_def payload_bytes_def max_safe_udp_def)

lemma byte_of_char_of_byte [simp]: "byte_of (char_of_byte b) = b"
proof -
  have "unat b < 256" using unsigned_less [of b, where 'a = nat] by simp
  then show ?thesis by (simp add: byte_of_def char_of_byte_def)
qed

lemma session_id_roundtrip [simp]: "session_id_of (session_id_bytes i) = i"
proof -
  have "map byte_of (session_id_bytes i) = le_bytes 4 (unat i)"
    by (simp add: session_id_bytes_def comp_def)
  then show ?thesis by (simp add: session_id_of_def le_value_bytes_word)
qed

lemma length_session_id_bytes [simp]: "length (session_id_bytes i) = 4"
  by (simp add: session_id_bytes_def)

end
