(* ===== verification/Aoi.thy ===== *)
theory Aoi
  imports Server SessionPackets "HOL-Library.Multiset"
begin

text \<open>
  The area of interest: internal/game/aoi_manager.go. \<open>BroadcastSnapshots\<close> is a handler (it reads the
  sessions and the grid and writes datagrams); the visibility edges of \<open>AoIManager\<close> are a map from a
  session id to the set of entity ids it was told of. The scratch pool only saves
  allocations and is left out; the snapshot struct, which \<open>BroadcastSnapshots\<close> reuses from packet to packet, is
  threaded through with its stale entries. \<open>slices.SortFunc\<close> is its contract: the unique
  arrangement that the comparator orders, computed by insertion. A \<open>float32\<close> converted to a small integer is
  truncated to 32 bits and then wrapped, as the amd64 instruction does (the language leaves a value
  outside the type open).
\<close>

section \<open>Neighbour references\<close>

record neighbor_ref =
  nr_id :: u32
  nr_dist :: f32
  nr_x :: f32
  nr_y :: f32
  nr_z :: f32
  nr_yaw :: i16
  nr_pitch :: i16
  nr_anim_flags :: u8
  nr_health :: u8

definition trunc_int32 :: "f32 \<Rightarrow> int" where
  "trunc_int32 x = (case x of
     Fin q \<Rightarrow> let n = (if 0 \<le> q then \<lfloor>q\<rfloor> else \<lceil>q\<rceil>) in if - (2 ^ 31) \<le> n \<and> n < 2 ^ 31 then n else - (2 ^ 31)
   | _ \<Rightarrow> - (2 ^ 31))"

definition peer_ref :: "f32 \<Rightarrow> f32 \<Rightarrow> player_session \<Rightarrow> neighbor_ref" where
  "peer_ref x z s = (case p_pos s of (px, py, pz) \<Rightarrow>
     let dx = sub32 px x; dz = sub32 pz z in
     \<lparr>nr_id = p_id s, nr_dist = add32 (mul32 dx dx) (mul32 dz dz), nr_x = px, nr_y = py, nr_z = pz,
      nr_yaw = word_of_int (trunc_int32 (mul32 (fst (p_rot s)) (Fin 100))),
      nr_pitch = word_of_int (trunc_int32 (mul32 (snd (p_rot s)) (Fin 100))),
      nr_anim_flags = p_anim_flags s, nr_health = word_of_int (trunc_int32 (p_health s))\<rparr>)"

definition ref_before :: "neighbor_ref \<Rightarrow> neighbor_ref \<Rightarrow> bool" where
  "ref_before a b \<longleftrightarrow> flt (nr_dist a) (nr_dist b) \<or>
     \<not> flt (nr_dist b) (nr_dist a) \<and> nr_id a < nr_id b"

fun ref_insert :: "neighbor_ref \<Rightarrow> neighbor_ref list \<Rightarrow> neighbor_ref list" where
  "ref_insert r [] = [r]"
| "ref_insert r (s # ss) = (if ref_before r s then r # s # ss else s # ref_insert r ss)"

definition nearest_first :: "neighbor_ref list \<Rightarrow> neighbor_ref list" where
  "nearest_first rs = fold ref_insert rs []"

definition ref_entry :: "neighbor_ref \<Rightarrow> snapshot_entry" where
  "ref_entry r = \<lparr>se_session_id = nr_id r, se_x = nr_x r, se_y = nr_y r, se_z = nr_z r, se_yaw = nr_yaw r,
     se_pitch = nr_pitch r, se_anim_flags = nr_anim_flags r, se_health = nr_health r\<rparr>"

fun chunks32 :: "'a list \<Rightarrow> 'a list list" where
  "chunks32 [] = []"
| "chunks32 (r # rs) = take 32 (r # rs) # chunks32 (drop 31 rs)"

section \<open>Broadcasting\<close>

definition flag_unreliable :: u8 where "flag_unreliable = 2"
definition op_server_snapshot :: u16 where "op_server_snapshot = 0x11"
definition op_entity_enter_aoi :: u16 where "op_entity_enter_aoi = 0x12"
definition op_entity_leave_aoi :: u16 where "op_entity_leave_aoi = 0x13"

definition neighbor_refs :: "env \<Rightarrow> ptr \<Rightarrow> server \<Rightarrow> neighbor_ref list" where
  "neighbor_refs env p sv = (let s = sv_heap sv p; x = fst (p_pos s); z = snd (snd (p_pos s)) in
     List.map_filter (\<lambda>i. if i = p_id s then None
         else map_option (\<lambda>q. peer_ref x z (sv_heap sv q)) (get_by_id i (sv_sessions sv)))
       (get_neighbors (en_cell_order env) (sv_grid sv) x z aoi_radius))"

text \<open>One chunk: the struct's count and first entries are overwritten, the sequence number is drawn
  before the packet is encoded.\<close>

definition send_chunk :: "udp_addr \<Rightarrow> neighbor_ref list \<Rightarrow> snapshot_entry list \<times> server \<Rightarrow> snapshot_entry list \<times> server" where
  "send_chunk a chunk st = (case st of (arr, sv) \<Rightarrow>
     let arr1 = map ref_entry chunk @ drop (length chunk) arr;
         snap = \<lparr>ss_count = word_of_nat (length chunk), ss_entries = arr1\<rparr>;
         seq = sv_seq sv + 1; sv1 = sv\<lparr>sv_seq := seq\<rparr>
     in (arr1, case write_packet op_server_snapshot seq flag_unreliable (PSnapshot snap) of
          Inl _ \<Rightarrow> sv1
        | Inr data \<Rightarrow> sv1\<lparr>sv_out := sv_out sv @ [\<lparr>snt_to = a, snt_opcode = op_server_snapshot,
              snt_flags = flag_unreliable, snt_seq = seq, snt_payload = PSnapshot snap\<rparr>]\<rparr>))"

definition snapshot_session :: "env \<Rightarrow> ptr \<Rightarrow> snapshot_entry list \<times> server \<Rightarrow> snapshot_entry list \<times> server" where
  "snapshot_session env p st = (case p_addr (sv_heap (snd st) p) of
     None \<Rightarrow> st
   | Some a \<Rightarrow> fold (send_chunk a) (chunks32 (nearest_first (neighbor_refs env p (snd st)))) st)"

definition zero_entry :: snapshot_entry where
  "zero_entry = \<lparr>se_session_id = 0, se_x = Fin 0, se_y = Fin 0, se_z = Fin 0, se_yaw = 0, se_pitch = 0,
     se_anim_flags = 0, se_health = 0\<rparr>"

definition broadcast_snapshots :: "env \<Rightarrow> handler" where
  "broadcast_snapshots env sv = (if \<not> sv_online sv then sv else
     snd (fold (snapshot_session env) (get_all (sv_sessions sv)) (replicate 32 zero_entry, sv)))"

section \<open>Visibility edges\<close>

type_synonym aoi = "u32 \<Rightarrow> u32 set option"

record entity_info =
  ei_id :: u32
  ei_kind :: u8
  ei_section :: string
  ei_pos :: "f32 \<times> f32 \<times> f32"
  ei_faction :: string
  ei_health :: u16
  ei_gvid :: u16
  ei_name :: string

definition new_aoi :: aoi where
  "new_aoi = Map.empty"

definition aoi_edges :: "aoi \<Rightarrow> u32 \<Rightarrow> u32 set" where
  "aoi_edges m i = (case m i of None \<Rightarrow> {} | Some s \<Rightarrow> s)"

definition entity_info_enter :: "entity_info \<Rightarrow> entity_enter" where
  "entity_info_enter info = (case ei_pos info of (x, y, z) \<Rightarrow>
     \<lparr>ee_id = ei_id info, ee_kind = ei_kind info, ee_section = copy_nul_term 64 (ei_section info),
      ee_x = x, ee_y = y, ee_z = z, ee_faction = copy_nul_term 16 (ei_faction info),
      ee_health = ucast (ei_health info), ee_gvid = ei_gvid info, ee_name = copy_nul_term 32 (ei_name info)\<rparr>)"

definition notify_entity_enter :: "env \<Rightarrow> ptr \<Rightarrow> entity_info \<Rightarrow> aoi \<times> server \<Rightarrow> aoi \<times> server" where
  "notify_entity_enter env p info st = (case st of (m, sv) \<Rightarrow>
     let i = p_id (sv_heap sv p) in
     if p_addr (sv_heap sv p) = None then (m, sv)
     else if ei_id info \<in> aoi_edges m i then (m, sv)
     else (m(i \<mapsto> insert (ei_id info) (aoi_edges m i)),
           reply env op_entity_enter_aoi (entity_enter_fields (entity_info_enter info)) p sv))"

definition notify_entity_leave :: "env \<Rightarrow> ptr \<Rightarrow> u32 \<Rightarrow> aoi \<times> server \<Rightarrow> aoi \<times> server" where
  "notify_entity_leave env p e st = (case st of (m, sv) \<Rightarrow>
     let i = p_id (sv_heap sv p) in
     if p_addr (sv_heap sv p) = None then (m, sv)
     else ((case m i of None \<Rightarrow> m | Some s \<Rightarrow> m(i \<mapsto> s - {e})),
           reply env op_entity_leave_aoi (entity_leave_fields \<lparr>el_id = e\<rparr>) p sv))"

definition aoi_remove_session :: "u32 \<Rightarrow> aoi \<Rightarrow> aoi" where
  "aoi_remove_session i m = (\<lambda>j. if j = i then None else map_option (\<lambda>s. s - {i}) (m j))"

section \<open>Lemmas: order and chunks\<close>

lemma flt_total: "\<not> is_nan x \<Longrightarrow> \<not> is_nan y \<Longrightarrow> \<not> flt x y \<Longrightarrow> fle y x"
  by (cases x; cases y) auto

lemma flt_irrefl [simp]: "\<not> flt x x"
  by (cases x) auto

lemma flt_le_trans: "flt x y \<Longrightarrow> fle y z \<Longrightarrow> flt x z" "fle x y \<Longrightarrow> flt y z \<Longrightarrow> flt x z"
  by (cases x; cases y; cases z; auto)+

definition ref_ok :: "neighbor_ref \<Rightarrow> bool" where
  "ref_ok r \<longleftrightarrow> \<not> is_nan (nr_dist r)"

lemma ref_before_total:
  "ref_ok a \<Longrightarrow> ref_ok b \<Longrightarrow> nr_id a \<noteq> nr_id b \<Longrightarrow> \<not> ref_before a b \<Longrightarrow> ref_before b a"
  by (auto simp: ref_before_def ref_ok_def)

lemma ref_before_trans:
  assumes "ref_ok a" "ref_ok b" "ref_ok c" "ref_before a b" "ref_before b c"
  shows "ref_before a c"
proof -
  have le: "fle (nr_dist a) (nr_dist b)" "fle (nr_dist b) (nr_dist c)"
    using assms by (auto simp: ref_before_def ref_ok_def intro: flt_total flt_fle)
  show ?thesis
  proof (cases "flt (nr_dist a) (nr_dist b) \<or> flt (nr_dist b) (nr_dist c)")
    case True
    then have "flt (nr_dist a) (nr_dist c)" using le flt_le_trans by blast
    then show ?thesis by (simp add: ref_before_def)
  next
    case False
    then have "nr_id a < nr_id c" using assms(4,5) by (auto simp: ref_before_def)
    moreover have "\<not> flt (nr_dist c) (nr_dist a)" using fle_trans [OF le] by (rule fle_not_flt)
    ultimately show ?thesis by (simp add: ref_before_def)
  qed
qed

lemma mset_ref_insert [simp]: "mset (ref_insert r rs) = add_mset r (mset rs)"
  by (induction rs) auto

lemma set_ref_insert [simp]: "set (ref_insert r rs) = insert r (set rs)"
  by (induction rs) auto

lemma sorted_ref_insert:
  assumes "sorted_wrt ref_before rs" "\<forall>s\<in>insert r (set rs). ref_ok s" "nr_id r \<notin> nr_id ` set rs"
  shows "sorted_wrt ref_before (ref_insert r rs)"
  using assms
proof (induction rs)
  case (Cons s ss)
  show ?case
  proof (cases "ref_before r s")
    case True
    then have "ref_before r t" if "t \<in> set ss" for t
      using ref_before_trans [of r s t] Cons.prems that by simp
    then show ?thesis using True Cons.prems by simp
  next
    case False
    then have "ref_before s r" using ref_before_total [of r s] Cons.prems by simp
    then show ?thesis using False Cons by simp
  qed
qed simp

lemma distinct_ids_perm: "mset xs = mset ys \<Longrightarrow> distinct (map nr_id xs) \<longleftrightarrow> distinct (map nr_id ys)"
  by (intro mset_eq_imp_distinct_iff) simp

lemma nearest_first_fold:
  assumes "sorted_wrt ref_before acc" "\<forall>s\<in>set acc \<union> set rs. ref_ok s" "distinct (map nr_id (rs @ acc))"
  shows "sorted_wrt ref_before (fold ref_insert rs acc) \<and> mset (fold ref_insert rs acc) = mset rs + mset acc"
  using assms
proof (induction rs arbitrary: acc)
  case (Cons r rs)
  have "sorted_wrt ref_before (ref_insert r acc)"
    using Cons.prems by (intro sorted_ref_insert) auto
  moreover have "distinct (map nr_id (rs @ ref_insert r acc))"
    using Cons.prems(3) distinct_ids_perm [of "rs @ ref_insert r acc" "r # rs @ acc"] by simp
  ultimately show ?case using Cons.IH [of "ref_insert r acc"] Cons.prems(2) by simp
qed simp

lemma nearest_first_spec:
  assumes "\<forall>r\<in>set rs. ref_ok r" "distinct (map nr_id rs)"
  shows "sorted_wrt ref_before (nearest_first rs)" "mset (nearest_first rs) = mset rs"
  using nearest_first_fold [of "[]" rs] assms by (simp_all add: nearest_first_def)

lemma concat_chunks32 [simp]: "concat (chunks32 xs) = xs"
proof (induction xs rule: chunks32.induct)
  case (2 r rs)
  then show ?case using append_take_drop_id [of 32 "r # rs"] by (simp add: take_Cons' drop_Cons')
qed simp

lemma chunks32_bounds: "c \<in> set (chunks32 xs) \<Longrightarrow> c \<noteq> [] \<and> length c \<le> 32"
  by (induction xs rule: chunks32.induct) auto


section \<open>Lemmas: one broadcast\<close>

definition shown :: "sent \<Rightarrow> snapshot_entry list" where
  "shown pk = (case snt_payload pk of PSnapshot s \<Rightarrow> take (unat (ss_count s)) (ss_entries s) | _ \<Rightarrow> [])"

definition snapshot_packet :: "udp_addr \<Rightarrow> sent \<Rightarrow> bool" where
  "snapshot_packet a pk \<longleftrightarrow> snt_to pk = a \<and> snt_opcode pk = op_server_snapshot \<and>
     snt_flags pk = flag_unreliable \<and> shown pk \<noteq> [] \<and> length (shown pk) \<le> 32"

definition numbered :: "u32 \<Rightarrow> sent list \<Rightarrow> bool" where
  "numbered q out \<longleftrightarrow> map snt_seq out = map (\<lambda>k. q + word_of_nat (Suc k)) [0..<length out]"

definition after_sends :: "sent list \<Rightarrow> server \<Rightarrow> server" where
  "after_sends out sv = sv\<lparr>sv_seq := sv_seq sv + word_of_nat (length out), sv_out := sv_out sv @ out\<rparr>"

lemma after_sends_fields [simp]:
  "sv_heap (after_sends out sv) = sv_heap sv" "sv_sessions (after_sends out sv) = sv_sessions sv"
  "sv_grid (after_sends out sv) = sv_grid sv" "sv_seq (after_sends out sv) = sv_seq sv + word_of_nat (length out)"
  by (simp_all add: after_sends_def)

lemma after_sends_Nil [simp]: "after_sends [] sv = sv"
  by (simp add: after_sends_def)

lemma after_sends_append: "after_sends b (after_sends a sv) = after_sends (a @ b) sv"
  by (simp add: after_sends_def ac_simps)

lemma numbered_Nil [simp]: "numbered q []"
  by (simp add: numbered_def)

lemma numbered_append:
  "numbered q a \<Longrightarrow> numbered (q + word_of_nat (length a)) b \<Longrightarrow> numbered q (a @ b)"
proof -
  assume n: "numbered q a" "numbered (q + word_of_nat (length a)) b"
  have "map (\<lambda>k. q + word_of_nat (Suc k)) [length a..<length a + length b] =
      map (\<lambda>k. q + word_of_nat (length a) + word_of_nat (Suc k)) [0..<length b]"
    by (rule nth_equalityI) (simp_all add: ac_simps)
  then show ?thesis using n upt_add_eq_append [of 0 "length a" "length b"] by (simp add: numbered_def)
qed

lemma neighbor_refs_frame [simp]: "neighbor_refs env p (after_sends out sv) = neighbor_refs env p sv"
  by (simp add: neighbor_refs_def Let_def cong: if_cong)

lemma send_chunk_spec:
  assumes "chunk \<noteq> []" "length chunk \<le> 32" "length arr = 32"
  shows "\<exists>arr' pk. send_chunk a chunk (arr, sv) = (arr', after_sends [pk] sv) \<and> length arr' = 32 \<and>
    snapshot_packet a pk \<and> shown pk = map ref_entry chunk \<and> snt_seq pk = sv_seq sv + 1"
proof -
  let ?arr = "map ref_entry chunk @ drop (length chunk) arr"
  let ?snap = "\<lparr>ss_count = word_of_nat (length chunk), ss_entries = ?arr\<rparr>"
  let ?pk = "\<lparr>snt_to = a, snt_opcode = op_server_snapshot, snt_flags = flag_unreliable, snt_seq = sv_seq sv + 1,
     snt_payload = PSnapshot ?snap\<rparr>"
  have c: "unat (word_of_nat (length chunk) :: u8) = length chunk" using assms(2) by (simp add: unat_of_nat)
  then have "min (unat (ss_count ?snap)) (length (ss_entries ?snap)) = length chunk" using assms by simp
  then obtain data where "write_packet op_server_snapshot (sv_seq sv + 1) flag_unreliable (PSnapshot ?snap) = Inr data"
    using assms(2) by (simp add: write_packet_def write_server_snapshot_def Let_def max_safe_udp_def)
  then have "send_chunk a chunk (arr, sv) = (?arr, after_sends [?pk] sv)"
    by (simp add: send_chunk_def Let_def after_sends_def)
  moreover have "shown ?pk = map ref_entry chunk" using c by (simp add: shown_def)
  ultimately show ?thesis using assms by (intro exI [of _ ?arr] exI [of _ ?pk]) (simp add: snapshot_packet_def)
qed

lemma send_chunks_spec:
  assumes "\<forall>c\<in>set cs. c \<noteq> [] \<and> length c \<le> 32" "length arr = 32"
  shows "\<exists>arr' out. fold (send_chunk a) cs (arr, sv) = (arr', after_sends out sv) \<and> length arr' = 32 \<and>
    (\<forall>pk\<in>set out. snapshot_packet a pk) \<and> map shown out = map (map ref_entry) cs \<and> numbered (sv_seq sv) out"
  using assms
proof (induction cs arbitrary: arr sv)
  case (Cons c cs)
  obtain arr1 pk where s: "send_chunk a c (arr, sv) = (arr1, after_sends [pk] sv)" "length arr1 = 32"
    "snapshot_packet a pk" "shown pk = map ref_entry c" "snt_seq pk = sv_seq sv + 1"
    using send_chunk_spec [of c arr a sv] Cons.prems by auto
  obtain arr' out where o: "fold (send_chunk a) cs (arr1, after_sends [pk] sv) = (arr', after_sends out (after_sends [pk] sv))"
    "length arr' = 32" "\<forall>pk\<in>set out. snapshot_packet a pk" "map shown out = map (map ref_entry) cs"
    "numbered (sv_seq (after_sends [pk] sv)) out"
    using Cons.IH [of arr1 "after_sends [pk] sv"] Cons.prems s(2) by auto
  have "numbered (sv_seq sv) ([pk] @ out)"
    using o(5) s(5) by (intro numbered_append) (simp_all add: numbered_def)
  with o s show ?case
    by (intro exI [of _ arr'] exI [of _ "pk # out"]) (simp add: after_sends_append)
qed (simp add: exI [of _ "[]"])

definition in_view :: "env \<Rightarrow> ptr \<Rightarrow> server \<Rightarrow> u32 \<Rightarrow> bool" where
  "in_view env p sv i \<longleftrightarrow> i \<noteq> p_id (sv_heap sv p) \<and>
     i \<in> set (get_neighbors (en_cell_order env) (sv_grid sv) (fst (p_pos (sv_heap sv p))) (snd (snd (p_pos (sv_heap sv p)))) aoi_radius)"

definition view_refs :: "env \<Rightarrow> ptr \<Rightarrow> server \<Rightarrow> neighbor_ref set" where
  "view_refs env p sv = {peer_ref (fst (p_pos (sv_heap sv p))) (snd (snd (p_pos (sv_heap sv p)))) (sv_heap sv q) | i q.
     in_view env p sv i \<and> sm_sessions (sv_sessions sv) i = Some q}"

definition snapshots_for :: "env \<Rightarrow> server \<Rightarrow> ptr \<Rightarrow> sent list \<Rightarrow> bool" where
  "snapshots_for env sv p seg \<longleftrightarrow> (case p_addr (sv_heap sv p) of
     None \<Rightarrow> seg = []
   | Some a \<Rightarrow> (\<forall>pk\<in>set seg. snapshot_packet a pk) \<and>
       (\<exists>rs. concat (map shown seg) = map ref_entry rs \<and> set rs = view_refs env p sv \<and>
          sorted_wrt ref_before rs \<and> distinct (map nr_id rs)))"

definition flat_pos :: "player_session \<Rightarrow> bool" where
  "flat_pos s \<longleftrightarrow> is_fin (fst (p_pos s)) \<and> is_fin (snd (snd (p_pos s)))"

lemma peer_ref_id [simp]: "nr_id (peer_ref x z s) = p_id s"
  by (simp add: peer_ref_def Let_def split: prod.split)

lemma peer_ref_ok:
  assumes "is_fin x" "is_fin z" "flat_pos s"
  shows "ref_ok (peer_ref x z s)"
proof -
  have sub: "\<not> is_nan (sub32 a b)" if "is_fin a" "is_fin b" for a b
    using that by (cases a; cases b) (auto simp: fsub_def rnd32_def fin_or_inf_def)
  have sq: "\<not> is_nan (mul32 d d) \<and> fle (Fin 0) (mul32 d d)" if "\<not> is_nan d" for d
    using that rnd_nonneg [of "fval d * fval d" 24 "- 149"]
    by (cases d) (auto simp: rnd32_def fin_or_inf_def split: if_splits)
  have add: "\<not> is_nan (add32 u v)" if "fle (Fin 0) u" "fle (Fin 0) v" for u v
    using that by (cases u; cases v) (auto simp: rnd32_def fin_or_inf_def)
  obtain px py pz where p: "p_pos s = (px, py, pz)" by (cases "p_pos s")
  have "\<not> is_nan (sub32 px x)" "\<not> is_nan (sub32 pz z)"
    using assms p sub [of px x] sub [of pz z] by (simp_all add: flat_pos_def)
  then have "\<not> is_nan (add32 (mul32 (sub32 px x) (sub32 px x)) (mul32 (sub32 pz z) (sub32 pz z)))"
    using sq add by blast
  then show ?thesis by (simp add: ref_ok_def peer_ref_def p Let_def)
qed

lemma map_filter_ids:
  assumes "\<And>i r. f i = Some r \<Longrightarrow> g r = i"
  shows "map g (List.map_filter f xs) = filter (\<lambda>i. f i \<noteq> None) xs"
  using assms by (induction xs) (auto simp: List.map_filter_simps split: option.split)

lemma neighbor_refs_spec:
  assumes "keyed (sv_heap sv) (sv_sessions sv)" "grid_ok (sv_grid sv)" "cell_order (sv_grid sv) (en_cell_order env)"
  shows "set (neighbor_refs env p sv) = view_refs env p sv" "distinct (map nr_id (neighbor_refs env p sv))"
proof -
  let ?x = "fst (p_pos (sv_heap sv p))" and ?z = "snd (snd (p_pos (sv_heap sv p)))"
  let ?ns = "get_neighbors (en_cell_order env) (sv_grid sv) ?x ?z aoi_radius"
  let ?f = "\<lambda>i. if i = p_id (sv_heap sv p) then None
     else map_option (\<lambda>q. peer_ref ?x ?z (sv_heap sv q)) (get_by_id i (sv_sessions sv))"
  have eq: "neighbor_refs env p sv = List.map_filter ?f ?ns" by (simp add: neighbor_refs_def Let_def)
  have id: "nr_id r = i" if "?f i = Some r" for i r
    using that assms(1) by (auto simp: get_by_id_def keyed_def split: if_splits)
  show "set (neighbor_refs env p sv) = view_refs env p sv"
    unfolding eq view_refs_def in_view_def
    by (force simp: List.map_filter_def get_by_id_def split: if_splits)
  have d: "distinct ?ns" using get_neighbors_set(2) [OF assms(2,3)] by (simp add: aoi_radius_def)
  have "map nr_id (List.map_filter ?f ?ns) = filter (\<lambda>i. ?f i \<noteq> None) ?ns" by (rule map_filter_ids [OF id])
  then show "distinct (map nr_id (neighbor_refs env p sv))" using d by (simp only: eq distinct_filter)
qed

lemma snapshot_session_spec:
  assumes "keyed (sv_heap sv) (sv_sessions sv)" "grid_ok (sv_grid sv)" "cell_order (sv_grid sv) (en_cell_order env)"
    and "\<forall>i q. sm_sessions (sv_sessions sv) i = Some q \<longrightarrow> flat_pos (sv_heap sv q)" "flat_pos (sv_heap sv p)"
    and "length arr = 32"
  shows "\<exists>arr' seg. snapshot_session env p (arr, after_sends out sv) = (arr', after_sends seg (after_sends out sv)) \<and>
    length arr' = 32 \<and> snapshots_for env sv p seg \<and> numbered (sv_seq (after_sends out sv)) seg"
proof (cases "p_addr (sv_heap sv p)")
  case None
  then show ?thesis using assms(6)
    by (intro exI [of _ arr] exI [of _ "[]"]) (simp add: snapshot_session_def snapshots_for_def)
next
  case (Some a)
  let ?rs = "neighbor_refs env p sv"
  note refs = neighbor_refs_spec [OF assms(1-3), of p]
  have "\<forall>r\<in>set ?rs. ref_ok r"
    using assms(4,5) unfolding refs(1) view_refs_def flat_pos_def [of "sv_heap sv p"] by (auto intro: peer_ref_ok)
  note srt = nearest_first_spec [OF this refs(2)]
  have cs: "\<forall>c\<in>set (chunks32 (nearest_first ?rs)). c \<noteq> [] \<and> length c \<le> 32" by (simp add: chunks32_bounds)
  obtain arr' seg where o: "fold (send_chunk a) (chunks32 (nearest_first ?rs)) (arr, after_sends out sv) =
      (arr', after_sends seg (after_sends out sv))" "length arr' = 32" "\<forall>pk\<in>set seg. snapshot_packet a pk"
    "map shown seg = map (map ref_entry) (chunks32 (nearest_first ?rs))" "numbered (sv_seq (after_sends out sv)) seg"
    using send_chunks_spec [OF cs assms(6), of a "after_sends out sv"] by blast
  have "concat (map shown seg) = map ref_entry (nearest_first ?rs)"
    by (simp add: o(4) flip: map_concat)
  moreover have "set (nearest_first ?rs) = view_refs env p sv" using mset_eq_setD [OF srt(2)] refs(1) by simp
  moreover have "distinct (map nr_id (nearest_first ?rs))" using distinct_ids_perm [OF srt(2)] refs(2) by simp
  ultimately have "snapshots_for env sv p seg"
    using o(3) srt(1) Some by (auto simp: snapshots_for_def)
  then show ?thesis using o Some
    by (intro exI [of _ arr'] exI [of _ seg]) (simp add: snapshot_session_def)
qed

lemma snapshot_fold_spec:
  assumes "keyed (sv_heap sv) (sv_sessions sv)" "grid_ok (sv_grid sv)" "cell_order (sv_grid sv) (en_cell_order env)"
    and "\<forall>i q. sm_sessions (sv_sessions sv) i = Some q \<longrightarrow> flat_pos (sv_heap sv q)"
    and "\<forall>p\<in>set ps. flat_pos (sv_heap sv p)" "length arr = 32"
  shows "\<exists>arr' segs. fold (snapshot_session env) ps (arr, after_sends out sv) = (arr', after_sends (out @ concat segs) sv) \<and>
    list_all2 (snapshots_for env sv) ps segs \<and> numbered (sv_seq (after_sends out sv)) (concat segs)"
  using assms(5,6)
proof (induction ps arbitrary: arr out)
  case (Cons p ps)
  obtain arr1 seg where s: "snapshot_session env p (arr, after_sends out sv) = (arr1, after_sends seg (after_sends out sv))"
    "length arr1 = 32" "snapshots_for env sv p seg" "numbered (sv_seq (after_sends out sv)) seg"
    using snapshot_session_spec [OF assms(1-4), of p arr out] Cons.prems by auto
  obtain arr' segs where f: "fold (snapshot_session env) ps (arr1, after_sends (out @ seg) sv) =
      (arr', after_sends ((out @ seg) @ concat segs) sv)" "list_all2 (snapshots_for env sv) ps segs"
    "numbered (sv_seq (after_sends (out @ seg) sv)) (concat segs)"
    using Cons.IH [of arr1 "out @ seg"] Cons.prems s(2) by auto
  have "numbered (sv_seq (after_sends out sv)) (seg @ concat segs)"
    using s(4) f(3) by (intro numbered_append) (simp_all add: ac_simps)
  with s f show ?case
    by (intro exI [of _ arr'] exI [of _ "seg # segs"]) (simp add: after_sends_append)
qed (simp add: exI [of _ "[]"])

section \<open>Properties\<close>

text \<open>C32: One snapshot broadcast sends, besides consecutive sequence numbers, nothing but snapshot
  packets and changes nothing else: each session with an address is sent packets of 1 to 32 entries whose
  concatenation lists every other session the grid finds within the radius exactly once,
  nearest first and equal distances by session id; a session without an address is sent nothing.\<close>

theorem snapshots_exact:
  assumes "sv_online sv" "keyed (sv_heap sv) (sv_sessions sv)" "cache_ok (sv_sessions sv)"
    and "grid_ok (sv_grid sv)" "cell_order (sv_grid sv) (en_cell_order env)"
    and "\<forall>i q. sm_sessions (sv_sessions sv) i = Some q \<longrightarrow> flat_pos (sv_heap sv q)"
  shows "\<exists>segs. list_all2 (snapshots_for env sv) (get_all (sv_sessions sv)) segs \<and>
    broadcast_snapshots env sv = after_sends (concat segs) sv \<and> numbered (sv_seq sv) (concat segs)"
proof -
  have "\<forall>p\<in>set (get_all (sv_sessions sv)). flat_pos (sv_heap sv p)"
    using assms(3,6) by (auto simp: cache_ok_def get_all_def ran_def)
  from snapshot_fold_spec [OF assms(2,4,5,6) this, of "replicate 32 zero_entry" "[]"] assms(1)
  show ?thesis by (auto simp: broadcast_snapshots_def)
qed

text \<open>Two players of one cell.\<close>

definition demo_pair :: server where
  "demo_pair = (demo_server undefined)\<lparr>
     sv_sessions := add_session demo_heap [1, 2] 1 (add_session demo_heap [1] 0 new_session_manager),
     sv_grid := grid_insert 2 (Fin 0) (Fin 0) (grid_insert 1 (Fin 0) (Fin 0) (new_grid 64))\<rparr>"

definition demo_pair_env :: env where
  "demo_pair_env = (demo_env 0)\<lparr>en_cell_order := (\<lambda>k. if k = (0, 0) then [2, 1] else [])\<rparr>"

lemma demo_pair_fields:
  "sm_sessions (sv_sessions demo_pair) = [1 \<mapsto> 0, 2 \<mapsto> 1]" "get_all (sv_sessions demo_pair) = [0, 1]"
  "sv_heap demo_pair = demo_heap" "sv_online demo_pair"
  "sv_grid demo_pair = grid_insert 2 (Fin 0) (Fin 0) (grid_insert 1 (Fin 0) (Fin 0) (new_grid 64))"
  "cells (sv_grid demo_pair) = [(0, 0) \<mapsto> {1, 2}]"
  by (auto simp: demo_pair_def demo_server_def add_session_def new_session_manager_def demo_heap_fields update_cache_def
      put_addr_def get_all_def grid_insert_def place_entity_def new_grid_def Let_def cell_key_def cell_of_def int32_of_def
      cell_add_def)

theorem snapshots_exact_witness:
  "\<exists>s1 s2. broadcast_snapshots demo_pair_env demo_pair = after_sends (s1 @ s2) demo_pair \<and>
     snapshots_for demo_pair_env demo_pair 0 s1 \<and> snapshots_for demo_pair_env demo_pair 1 s2"
proof -
  have "keyed (sv_heap demo_pair) (sv_sessions demo_pair)" "cache_ok (sv_sessions demo_pair)"
    by (auto simp: keyed_def demo_pair_fields cache_ok_def demo_heap_fields simp flip: get_all_def)
  moreover have "grid_ok (sv_grid demo_pair)"
    unfolding demo_pair_fields(5) by (intro grid_ok_insert grid_ok_new)
  moreover have "cell_order (sv_grid demo_pair) (en_cell_order demo_pair_env)"
    unfolding cell_order_def demo_pair_fields(6) by (auto simp: demo_pair_env_def split: if_splits)
  moreover have "flat_pos (demo_heap q)" for q by (simp add: flat_pos_def demo_heap_def demo_session_def)
  ultimately obtain segs where
    s: "list_all2 (snapshots_for demo_pair_env demo_pair) [0, 1] segs"
    "broadcast_snapshots demo_pair_env demo_pair = after_sends (concat segs) demo_pair"
    using snapshots_exact [of demo_pair demo_pair_env] by (auto simp: demo_pair_fields)
  then obtain s1 s2 where "segs = [s1, s2]" by (auto simp: list_all2_Cons1)
  with s show ?thesis by auto
qed

end
