(* ===== verification/Characters.thy ===== *)
theory Characters
  imports Economy GoText Factions
begin

text \<open>
  Accounts and characters: the part of internal/database/db.go that provisions, loads, saves and
  creates characters and bans accounts. \<open>accounts.client_uuid\<close> is a key, \<open>accounts.nickname\<close> is
  UNIQUE and \<open>characters.client_uuid\<close> refers to an account (\<open>foreign_keys\<close> is on);
  \<open>INSERT OR IGNORE\<close> ignores a violated key or UNIQUE constraint and reports a
  violated reference. REAL columns are \<open>float64\<close> values that a scan narrows to \<open>float32\<close>.
\<close>

record character =
  ch_uuid :: string
  ch_level :: string
  ch_pos :: "f32 \<times> f32 \<times> f32"
  ch_yaw :: f32
  ch_faction :: string
  ch_health :: f32
  ch_profile_rev :: int
  ch_dead :: int
  ch_created :: int

section \<open>Go's text functions\<close>

definition is_space :: "nat \<Rightarrow> bool" where
  "is_space r \<longleftrightarrow> 9 \<le> r \<and> r \<le> 13 \<or> r \<in> {32, 133, 160, 5760, 8232, 8233, 8239, 8287, 12288} \<or> 8192 \<le> r \<and> r \<le> 8202"

fun split_on :: "char \<Rightarrow> string \<Rightarrow> string list" where
  "split_on c [] = [[]]"
| "split_on c (x # xs) = (if x = c then [] # split_on c xs
     else case split_on c xs of [] \<Rightarrow> [[x]] | s # ss \<Rightarrow> (x # s) # ss)"

definition before_colon :: "string \<Rightarrow> string" where
  "before_colon e = takeWhile (\<lambda>c. c \<noteq> CHR '':'') e"

definition after_colon :: "string \<Rightarrow> string" where
  "after_colon e = tl (dropWhile (\<lambda>c. c \<noteq> CHR '':'') e)"

definition is_digit :: "char \<Rightarrow> bool" where
  "is_digit c \<longleftrightarrow> 48 \<le> (of_char c :: nat) \<and> (of_char c :: nat) \<le> 57"

definition digits_value :: "string \<Rightarrow> int" where
  "digits_value ds = fold (\<lambda>c n. n * 10 + (int (of_char c) - 48)) ds 0"

text \<open>\<open>fmt.Sscanf(s, "%d", &n)\<close> of a trimmed text into an \<open>int\<close> that is 0 before: an optional sign, then
  digits; no digit or a value outside 64 bits leaves 0.\<close>

definition scan_int :: "string \<Rightarrow> int" where
  "scan_int t = (let neg = (t \<noteq> [] \<and> hd t = CHR ''-'');
       u = (if t \<noteq> [] \<and> (hd t = CHR ''-'' \<or> hd t = CHR ''+'') then tl t else t);
       v = digits_value (takeWhile is_digit u); n = (if neg then - v else v)
     in if takeWhile is_digit u = [] \<or> \<not> in_int64 n then 0 else n)"

section \<open>Validation of a new character\<close>

definition allowed_factions :: "string list" where
  "allowed_factions = [''stalker'', ''dolg'', ''freedom'', ''csky'', ''ecolog'', ''killer'', ''army'', ''bandit'',
     ''monolith'', ''renegade'', ''greh'', ''isg'', ''zombied'']"

definition section_char :: "char \<Rightarrow> bool" where
  "section_char c \<longleftrightarrow> (let n = of_char c :: nat in 97 \<le> n \<and> n \<le> 122 \<or> 65 \<le> n \<and> n \<le> 90 \<or> 48 \<le> n \<and> n \<le> 57 \<or>
     n = 95 \<or> n = 45 \<or> n = 46)"

definition entry_valid :: "string \<Rightarrow> bool" where
  "entry_valid e \<longleftrightarrow> (let sec = before_colon e in sec \<noteq> [] \<and> length sec \<le> 64 \<and> list_all section_char sec)"

definition loadout_entries :: "string \<Rightarrow> string list" where
  "loadout_entries loadout = filter (\<lambda>e. e \<noteq> []) (map trim_space (split_on (CHR '','') loadout))"

text \<open>The loop rejects at the first offending entry; every rejection of a loadout is the same error.\<close>

definition validate_new_character :: "string \<Rightarrow> string \<Rightarrow> gerr option" where
  "validate_new_character faction loadout =
     (if faction \<notin> set allowed_factions then Some ErrInvalidFaction
      else if 4096 < length loadout then Some ErrInvalidLoadout
      else if loadout = [] then None
      else if 256 < length (loadout_entries loadout) \<or> \<not> list_all entry_valid (loadout_entries loadout)
        then Some ErrInvalidLoadout
      else None)"

section \<open>Provisioning, loading, saving\<close>

definition insert_account :: "string \<Rightarrow> string \<Rightarrow> string \<Rightarrow> int \<Rightarrow> database \<Rightarrow> database" where
  "insert_account uuid hwid nick now d =
     (if list_ex (\<lambda>a. a_uuid a = uuid \<or> a_nickname a = nick) (d_accounts d) then d
      else d\<lparr>d_accounts := d_accounts d @ [\<lparr>a_uuid = uuid, a_hwid = hwid, a_nickname = nick, a_banned = 0,
              a_ban_reason = None, a_created = now, a_last_seen = now\<rparr>]\<rparr>)"

definition has_account :: "string \<Rightarrow> database \<Rightarrow> bool" where
  "has_account uuid d = list_ex (\<lambda>a. a_uuid a = uuid) (d_accounts d)"

definition default_pos :: "f64 \<times> f64 \<times> f64" where
  "default_pos = (rnd64 (- 2113 / 10), rnd64 (- 202 / 10), rnd64 (- 1458 / 10))"

definition new_char_row :: "string \<Rightarrow> int \<Rightarrow> int \<Rightarrow> char_row" where
  "new_char_row faction prof now = \<lparr>c_level = ''l01_escape'', c_pos = default_pos, c_yaw = Fin 0, c_faction = faction,
     c_health = Fin 100, c_economy_tier = 1, c_rubles = 5000, c_play_time = 0, c_profile_rev = prof, c_dead = 0,
     c_created = now, c_updated = now\<rparr>"

definition insert_char :: "string \<Rightarrow> char_row \<Rightarrow> database \<Rightarrow> (gerr + unit) \<times> database" where
  "insert_char uuid row d = (if d_chars d uuid \<noteq> None \<or> \<not> has_account uuid d then (Inl ErrSQL, d)
     else (Inr (), d\<lparr>d_chars := (d_chars d)(uuid \<mapsto> row)\<rparr>))"

definition insert_char_or_ignore :: "string \<Rightarrow> char_row \<Rightarrow> database \<Rightarrow> (gerr + unit) \<times> database" where
  "insert_char_or_ignore uuid row d = (if d_chars d uuid \<noteq> None then (Inr (), d) else insert_char uuid row d)"

definition auto_provision :: "string \<Rightarrow> string \<Rightarrow> string \<Rightarrow> int \<Rightarrow> unit tx" where
  "auto_provision uuid hwid nick now = run_tx (bind (exec (insert_account uuid hwid nick now))
     (\<lambda>_. stmt (insert_char_or_ignore uuid (new_char_row ''stalker'' 0 now))))"

definition character_of :: "string \<Rightarrow> char_row \<Rightarrow> character" where
  "character_of uuid c = (case c_pos c of (x, y, z) \<Rightarrow>
     \<lparr>ch_uuid = uuid, ch_level = c_level c, ch_pos = (f32_of x, f32_of y, f32_of z), ch_yaw = f32_of (c_yaw c),
      ch_faction = c_faction c, ch_health = f32_of (c_health c), ch_profile_rev = c_profile_rev c, ch_dead = c_dead c,
      ch_created = c_created c\<rparr>)"

definition load_character :: "string \<Rightarrow> character tx" where
  "load_character uuid = bind (query (\<lambda>d. d_chars d uuid)) (\<lambda>row. case row of
     None \<Rightarrow> fail ErrNoRows | Some c \<Rightarrow> ret (character_of uuid c))"

definition save_row :: "character \<Rightarrow> int \<Rightarrow> char_row \<Rightarrow> char_row" where
  "save_row ch now c = c\<lparr>c_level := ch_level ch, c_pos := ch_pos ch, c_yaw := ch_yaw ch, c_faction := ch_faction ch,
     c_health := ch_health ch, c_profile_rev := ch_profile_rev ch, c_dead := ch_dead ch, c_updated := now\<rparr>"

definition save_character :: "character \<Rightarrow> int \<Rightarrow> nat tx" where
  "save_character ch now = stmt (update_char (ch_uuid ch) (save_row ch now))"

definition has_character :: "string \<Rightarrow> bool tx" where
  "has_character uuid = query (\<lambda>d. d_chars d uuid \<noteq> None)"

definition flush_row :: "f32 \<times> f32 \<times> f32 \<Rightarrow> f32 \<Rightarrow> f32 \<Rightarrow> int \<Rightarrow> char_row \<Rightarrow> char_row" where
  "flush_row pos yaw health now c = c\<lparr>c_pos := pos, c_yaw := yaw, c_health := health, c_updated := now\<rparr>"

definition flush_player_transform :: "string \<Rightarrow> f32 \<times> f32 \<times> f32 \<Rightarrow> f32 \<Rightarrow> f32 \<Rightarrow> int \<Rightarrow> nat tx" where
  "flush_player_transform uuid pos yaw health now = stmt (update_char uuid (flush_row pos yaw health now))"

section \<open>Creation\<close>

definition reset_row :: "string \<Rightarrow> int \<Rightarrow> char_row \<Rightarrow> char_row" where
  "reset_row faction now c = c\<lparr>c_faction := faction, c_level := ''l01_escape'', c_pos := default_pos, c_yaw := Fin 0,
     c_health := Fin 100, c_profile_rev := 1, c_dead := 0, c_updated := now\<rparr>"

definition delete_inventory :: "string \<Rightarrow> database \<Rightarrow> database" where
  "delete_inventory uuid d = d\<lparr>d_inv := filter (\<lambda>r. r_uuid r \<noteq> uuid) (d_inv d)\<rparr>"

definition entry_count :: "string \<Rightarrow> int" where
  "entry_count e = (if CHR '':'' \<notin> set e then 1 else
     let parsed = scan_int (trim_space (after_colon e)); n = (if 0 < parsed then parsed else 1)
     in if 65535 < n then 65535 else n)"

definition entry_section :: "string \<Rightarrow> string" where
  "entry_section e = (if CHR '':'' \<in> set e then trim_space (before_colon e) else e)"

fun insert_loadout :: "string \<Rightarrow> string list \<Rightarrow> unit tx" where
  "insert_loadout uuid [] = ret ()"
| "insert_loadout uuid (e # es) = (if entry_section e = [] then insert_loadout uuid es
     else bind (stmt (insert_inv uuid (entry_section e) (entry_count e) (Fin 1) 0 (- 1))) (\<lambda>_. insert_loadout uuid es))"

definition create_character :: "string \<Rightarrow> string \<Rightarrow> string \<Rightarrow> u32 \<Rightarrow> int \<Rightarrow> unit tx" where
  "create_character uuid faction loadout money now =
     (case validate_new_character faction loadout of
        Some e \<Rightarrow> fail e
      | None \<Rightarrow> run_tx
          (bind (query (\<lambda>d. d_chars d uuid \<noteq> None)) (\<lambda>exists.
           bind (if exists
                 then bind (stmt (update_char uuid (reset_row faction now))) (\<lambda>_. exec (delete_inventory uuid))
                 else stmt (insert_char uuid (new_char_row faction 1 now))) (\<lambda>_.
           bind (if 0 < money then bind (stmt (update_char uuid (set_rubles (uint money) now))) (\<lambda>_. ret ()) else ret ()) (\<lambda>_.
           insert_loadout uuid (loadout_entries loadout))))))"

section \<open>Bans\<close>

definition is_player_banned :: "string \<Rightarrow> (bool \<times> string) tx" where
  "is_player_banned uuid = bind (query (\<lambda>d. List.find (\<lambda>a. a_uuid a = uuid) (d_accounts d))) (\<lambda>row. case row of
     None \<Rightarrow> fail ErrNoRows
   | Some a \<Rightarrow> ret (0 < a_banned a, case a_ban_reason a of None \<Rightarrow> '''' | Some r \<Rightarrow> r))"

definition ban_account :: "string \<Rightarrow> string \<Rightarrow> unit tx" where
  "ban_account uuid reason = exec (\<lambda>d. d\<lparr>d_accounts :=
     map (\<lambda>a. if a_uuid a = uuid then a\<lparr>a_banned := 1, a_ban_reason := Some reason\<rparr> else a) (d_accounts d)\<rparr>)"

section \<open>Lemmas\<close>

definition kit_of :: "string list \<Rightarrow> (string \<times> int) list" where
  "kit_of es = map (\<lambda>e. (entry_section e, entry_count e)) (filter (\<lambda>e. entry_section e \<noteq> []) es)"

definition held_kit :: "string \<Rightarrow> database \<Rightarrow> (string \<times> int) list" where
  "held_kit uuid d = map (\<lambda>r. (r_section r, r_count r)) (filter (\<lambda>r. r_uuid r = uuid) (d_inv d))"

definition others_rows :: "string \<Rightarrow> database \<Rightarrow> inv_row list" where
  "others_rows uuid d = filter (\<lambda>r. r_uuid r \<noteq> uuid) (d_inv d)"

text \<open>What is left alone by every statement on one player's character and inventory.\<close>

definition only_player :: "string \<Rightarrow> database \<Rightarrow> database \<Rightarrow> bool" where
  "only_player uuid d d' \<longleftrightarrow> others_rows uuid d' = others_rows uuid d \<and> d_world d' = d_world d \<and>
     d_stashes d' = d_stashes d \<and> d_accounts d' = d_accounts d \<and> d_audit d' = d_audit d \<and>
     (\<forall>v. v \<noteq> uuid \<longrightarrow> d_chars d' v = d_chars d v)"

lemma only_player_refl: "only_player uuid d d"
  by (simp add: only_player_def)

lemma only_player_trans: "only_player uuid d d1 \<Longrightarrow> only_player uuid d1 d2 \<Longrightarrow> only_player uuid d d2"
  by (simp add: only_player_def)

lemma update_char_Inr:
  "update_char uuid f d = (Inr n, d') \<Longrightarrow> only_player uuid d d' \<and> d_inv d' = d_inv d \<and>
     d_chars d' uuid = map_option f (d_chars d uuid)"
  by (auto simp: update_char_def only_player_def others_rows_def split: option.splits)

lemma insert_char_Inr:
  "insert_char uuid row d = (Inr u, d') \<Longrightarrow> d_chars d uuid = None \<and> has_account uuid d \<and>
     only_player uuid d d' \<and> d_inv d' = d_inv d \<and> d_chars d' uuid = Some row"
  by (auto simp: insert_char_def only_player_def others_rows_def split: if_splits)

lemma delete_inventory_spec:
  "only_player uuid d (delete_inventory uuid d)" "held_kit uuid (delete_inventory uuid d) = []"
  "d_chars (delete_inventory uuid d) = d_chars d"
  by (simp_all add: only_player_def others_rows_def delete_inventory_def held_kit_def)

lemma insert_inv_Inr:
  "insert_inv uuid sec n c a s d = (Inr u, d') \<Longrightarrow> only_player uuid d d' \<and>
     held_kit uuid d' = held_kit uuid d @ [(sec, n)] \<and> d_chars d' = d_chars d"
  by (auto simp: insert_inv_def only_player_def others_rows_def held_kit_def split: if_splits)

lemma insert_loadout_Inr:
  "insert_loadout uuid es d fl = (Inr u, d', fl') \<Longrightarrow> only_player uuid d d' \<and>
     held_kit uuid d' = held_kit uuid d @ kit_of es \<and> d_chars d' = d_chars d"
proof (induction es arbitrary: d fl)
  case (Cons e es)
  show ?case
  proof (cases "entry_section e = []")
    case True
    with Cons show ?thesis by (auto simp: kit_of_def)
  next
    case False
    then obtain u1 d1 where i: "insert_inv uuid (entry_section e) (entry_count e) (Fin 1) 0 (- 1) d = (Inr u1, d1)"
      and l: "insert_loadout uuid es d1 (tl fl) = (Inr u, d', fl')"
      using Cons.prems by (auto simp: tx_Inr)
    from insert_inv_Inr [OF i] Cons.IH [OF l] False show ?thesis
      by (auto simp: kit_of_def intro: only_player_trans)
  qed
qed (auto simp: kit_of_def only_player_refl)

text \<open>The row that creation leaves behind, before the starter money is written.\<close>

definition created :: "string \<Rightarrow> char_row \<Rightarrow> bool" where
  "created faction c \<longleftrightarrow> c_faction c = faction \<and> c_level c = ''l01_escape'' \<and> c_pos c = default_pos \<and>
     c_health c = Fin 100 \<and> c_profile_rev c = 1 \<and> c_dead c = 0"

lemma created_rows: "created faction (new_char_row faction 1 now)" "created faction (reset_row faction now c)"
  "created faction (set_rubles n now c) \<longleftrightarrow> created faction c" "c_rubles (reset_row faction now c) = c_rubles c"
  "c_rubles (new_char_row faction 1 now) = 5000" "c_rubles (set_rubles n now c) = n"
  by (simp_all add: created_def new_char_row_def reset_row_def set_rubles_def)

definition prepared :: "string \<Rightarrow> string \<Rightarrow> database \<Rightarrow> database \<Rightarrow> bool" where
  "prepared uuid faction d d1 \<longleftrightarrow> only_player uuid d d1 \<and> held_kit uuid d1 = [] \<and>
     (\<exists>c. d_chars d1 uuid = Some c \<and> created faction c \<and>
       c_rubles c = (case d_chars d uuid of None \<Rightarrow> 5000 | Some c0 \<Rightarrow> c_rubles c0))"

lemma prepare_reset:
  assumes "update_char uuid (reset_row faction now) d = (Inr n, d1)" "d_chars d uuid \<noteq> None"
  shows "prepared uuid faction d (delete_inventory uuid d1)"
proof -
  obtain c where c: "d_chars d uuid = Some c" using assms(2) by auto
  show ?thesis
    using update_char_Inr [OF assms(1)] delete_inventory_spec [of uuid d1] c created_rows
    by (auto simp: prepared_def intro: only_player_trans)
qed

lemma no_rows:
  assumes "inv_ok d" "d_chars d uuid = None"
  shows "held_kit uuid d = []"
proof -
  have "r_uuid r \<noteq> uuid" if "r \<in> set (d_inv d)" for r using assms that by (auto simp: inv_ok_def)
  then show ?thesis by (simp add: held_kit_def filter_empty_conv)
qed

lemma prepare_insert:
  assumes "insert_char uuid (new_char_row faction 1 now) d = (Inr u, d1)" "inv_ok d"
  shows "prepared uuid faction d d1"
proof -
  have "held_kit uuid d1 = held_kit uuid d" using insert_char_Inr [OF assms(1)] by (simp add: held_kit_def)
  then show ?thesis
    using insert_char_Inr [OF assms(1)] no_rows [OF assms(2), of uuid] created_rows by (auto simp: prepared_def)
qed

definition starter_rubles :: "u32 \<Rightarrow> string \<Rightarrow> database \<Rightarrow> int" where
  "starter_rubles money uuid d = (if 0 < money then uint money else
     case d_chars d uuid of None \<Rightarrow> 5000 | Some c \<Rightarrow> c_rubles c)"

lemma starter_money:
  assumes "prepared uuid faction d d1"
    and "(if 0 < money then bind (stmt (update_char uuid (set_rubles (uint money) now))) (\<lambda>_. ret ()) else ret ()) d1 fl
      = (Inr u, d2, fl')"
  shows "only_player uuid d d2 \<and> held_kit uuid d2 = [] \<and>
    (\<exists>c. d_chars d2 uuid = Some c \<and> created faction c \<and> c_rubles c = starter_rubles money uuid d)"
proof (cases "0 < money")
  case True
  then obtain n where u: "update_char uuid (set_rubles (uint money) now) d1 = (Inr n, d2)"
    using assms(2) by (auto simp: tx_Inr)
  then have "held_kit uuid d2 = held_kit uuid d1" using update_char_Inr [OF u] by (simp add: held_kit_def)
  then show ?thesis
    using assms(1) update_char_Inr [OF u] True
    by (auto simp: prepared_def created_rows starter_rubles_def intro: only_player_trans)
next
  case False
  then show ?thesis using assms by (auto simp: prepared_def starter_rubles_def)
qed

section \<open>Properties\<close>

text \<open>C13: \<open>CreateCharacter\<close> is all or nothing, whichever statement fails: on an error the tables are as before; on success
  the faction is an allowed one, the character is the fresh one of that faction at the rookie village, its wallet
  holds the chosen starter money (or what it held, or the default), its inventory is exactly the listed
  kit, and nothing of any other player changed.\<close>

theorem create_exact:
  assumes "create_character uuid faction loadout money now d fl = (r, d', fl')" "inv_ok d"
  shows "(case r of Inl e \<Rightarrow> d' = d
    | Inr _ \<Rightarrow> faction \<in> set allowed_factions \<and> only_player uuid d d' \<and> held_kit uuid d' = kit_of (loadout_entries loadout) \<and>
        (\<exists>c. d_chars d' uuid = Some c \<and> created faction c \<and> c_rubles c = starter_rubles money uuid d))"
proof (cases "validate_new_character faction loadout")
  case (Some e)
  then show ?thesis using assms(1) by (auto simp: create_character_def)
next
  case None
  then have f: "faction \<in> set allowed_factions" by (auto simp: validate_new_character_def split: if_splits)
  show ?thesis
  proof (cases r)
    case (Inl e)
    then show ?thesis using assms(1) None run_tx_atomic by (auto simp: create_character_def)
  next
    case (Inr u)
    let ?prep = "if d_chars d uuid \<noteq> None
       then bind (stmt (update_char uuid (reset_row faction now))) (\<lambda>_. exec (delete_inventory uuid))
       else stmt (insert_char uuid (new_char_row faction 1 now))"
    let ?pay = "if 0 < money then bind (stmt (update_char uuid (set_rubles (uint money) now))) (\<lambda>_. ret ()) else ret ()"
    from assms(1) None Inr obtain fl0 fl1 d1 u1 fl2 d2 u2 fl3 fl4 where
      p: "?prep d fl0 = (Inr u1, d1, fl1)" and m: "?pay d1 fl1 = (Inr u2, d2, fl2)"
      and l: "insert_loadout uuid (loadout_entries loadout) d2 fl2 = (Inr u, d', fl3)"
      by (auto simp: create_character_def bind_Inr query_Inr dest!: run_tx_Inr)
    have "prepared uuid faction d d1"
      using p assms(2) by (auto simp: tx_Inr split: if_splits intro: prepare_reset prepare_insert)
    from starter_money [OF this m] insert_loadout_Inr [OF l] Inr f show ?thesis
      by (auto intro: only_player_trans)
  qed
qed

definition account_of :: "string \<Rightarrow> database \<Rightarrow> account_row option" where
  "account_of uuid d = List.find (\<lambda>a. a_uuid a = uuid) (d_accounts d)"

text \<open>C39: A nickname that another account holds locks a new player out: provisioning fails and changes
  nothing, and as long as the player has neither account nor character no selection of the player's creates a
  character and no ban reaches the player. (The account is skipped by \<open>INSERT OR IGNORE\<close> for the
  UNIQUE nickname and the character then refers to no account; the handshake ignores the error.)\<close>

theorem taken_nickname_locks_out:
  assumes "\<not> has_account uuid d" "d_chars d uuid = None" "list_ex (\<lambda>a. a_nickname a = nick) (d_accounts d)"
  shows "auto_provision uuid hwid nick now d [] = (Inl ErrSQL, d, []) \<and>
    (\<exists>e fl'. create_character uuid faction loadout money now d fl = (Inl e, d, fl')) \<and>
    is_player_banned uuid (db_of (ban_account uuid reason d [])) [] = (Inl ErrNoRows, db_of (ban_account uuid reason d []), [])"
proof -
  have "insert_account uuid hwid nick now d = d"
    using assms(3) by (auto simp: insert_account_def list_ex_iff)
  then have "auto_provision uuid hwid nick now d [] = (Inl ErrSQL, d, [])"
    using assms(1,2) by (simp add: auto_provision_def run_tx_def bind_def insert_char_or_ignore_def insert_char_def)
  moreover have "\<exists>e fl'. create_character uuid faction loadout money now d fl = (Inl e, d, fl')"
  proof (cases "create_character uuid faction loadout money now d fl")
    case (fields r d' fl')
    show ?thesis
    proof (cases r)
      case (Inl e)
      then show ?thesis using fields run_tx_atomic
        by (auto simp: create_character_def split: option.splits)
    next
      case (Inr u)
      with fields have False using assms(1,2)
        by (auto simp: create_character_def tx_Inr insert_char_def split: option.splits dest!: run_tx_Inr)
      then show ?thesis ..
    qed
  qed
  moreover have "d_accounts (db_of (ban_account uuid reason d [])) = d_accounts d"
    using assms(1) by (auto simp: ban_account_def has_account_def list_ex_iff intro!: map_idI)
  then have "List.find (\<lambda>a. a_uuid a = uuid) (d_accounts (db_of (ban_account uuid reason d []))) = None"
    using assms(1) by (auto simp: find_None_iff has_account_def list_ex_iff)
  then have "is_player_banned uuid (db_of (ban_account uuid reason d [])) [] = (Inl ErrNoRows, db_of (ban_account uuid reason d []), [])"
    by (simp add: is_player_banned_def bind_def fail_def)
  ultimately show ?thesis by blast
qed

theorem taken_nickname_locks_out_witness:
  "auto_provision ''u2'' ''ab'' ''Stalker'' 5 (demo_db []) [] = (Inl ErrSQL, demo_db [], []) \<and>
   (\<exists>e fl'. create_character ''u2'' ''stalker'' ''bread:2'' 100 6 (demo_db []) [] = (Inl e, demo_db [], fl'))"
proof -
  have "\<not> has_account ''u2'' (demo_db [])" "d_chars (demo_db []) ''u2'' = None"
    "list_ex (\<lambda>a. a_nickname a = ''Stalker'') (d_accounts (demo_db []))"
    by (simp_all add: has_account_def demo_db_def)
  from taken_nickname_locks_out [OF this] show ?thesis by blast
qed

lemma strip_front_id:
  assumes "\<forall>e\<in>set encs. e \<noteq> [] \<and> char_of (hd e) \<noteq> c"
  shows "strip_front encs n (c # cs) = c # cs"
proof (cases n)
  case (Suc m)
  have "take (length e) (c # cs) \<noteq> map char_of e" if "e \<in> set encs" for e
    using assms that by (cases e) auto
  then have "List.find (\<lambda>e. take (length e) (c # cs) = map char_of e) encs = None"
    by (simp add: find_None_iff)
  then show ?thesis by (simp add: Suc)
qed simp

lemma no_space_byte:
  assumes "33 \<le> (of_char c :: nat)" "(of_char c :: nat) < 127"
  shows "\<forall>e\<in>set space_encodings. e \<noteq> [] \<and> char_of (hd e) \<noteq> c"
    "\<forall>e\<in>set (map rev space_encodings). e \<noteq> [] \<and> char_of (hd e) \<noteq> c"
  using assms by (auto simp: space_encodings_def)

lemma trim_space_id:
  assumes "s \<noteq> []" "33 \<le> (of_char (hd s) :: nat)" "(of_char (hd s) :: nat) < 127"
    "33 \<le> (of_char (last s) :: nat)" "(of_char (last s) :: nat) < 127"
  shows "trim_space s = s"
proof -
  obtain c cs where s: "s = c # cs" using assms(1) by (cases s) auto
  obtain ds d where r: "s = ds @ [d]" using assms(1) by (cases s rule: rev_cases) auto
  have "strip_front space_encodings (length s) s = s"
    using strip_front_id [OF no_space_byte(1), of c "length s" cs] assms(2,3) by (simp add: s del: strip_front.simps)
  moreover have "strip_front (map rev space_encodings) (length s) (rev s) = rev s"
    using strip_front_id [OF no_space_byte(2), of d "length s" "rev ds"] assms(4,5)
    by (simp add: r del: strip_front.simps)
  ultimately show ?thesis by (simp add: trim_space_def)
qed

lemma demo_entries: "loadout_entries ''bread:2'' = [''bread:2'']"
  by (simp add: loadout_entries_def trim_space_id)

lemma demo_kit: "kit_of [''bread:2''] = [(''bread'', 2)]"
  by (simp add: kit_of_def entry_section_def entry_count_def before_colon_def after_colon_def scan_int_def Let_def
      trim_space_id is_digit_def digits_value_def in_int64_def)

lemma demo_valid: "validate_new_character ''stalker'' ''bread:2'' = None"
  by (simp add: validate_new_character_def allowed_factions_def demo_entries entry_valid_def before_colon_def
      section_char_def Let_def)

theorem create_exact_witness:
  "\<exists>d fl. create_character ''u1'' ''stalker'' ''bread:2'' 300 6 (demo_db [demo_row 1 30 (Fin 1)]) [] = (Inr (), d, fl) \<and>
     held_kit ''u1'' d = [(''bread'', 2)]"
proof -
  let ?d = "demo_db [demo_row 1 30 (Fin 1)]"
  obtain r d fl where c: "create_character ''u1'' ''stalker'' ''bread:2'' 300 6 ?d [] = (r, d, fl)"
    by (metis prod.exhaust)
  have "entry_section ''bread:2'' = ''bread''" "entry_count ''bread:2'' = 2"
    using demo_kit by (simp_all add: kit_of_def split: if_splits)
  moreover have "d_chars ?d ''u1'' \<noteq> None" by (simp add: demo_db_def)
  ultimately have "r = Inr ()" using c
    by (auto simp: create_character_def demo_valid run_tx_def bind_def ret_def demo_entries insert_inv_def
        update_char_def delete_inventory_def split: if_splits option.splits)
  with create_exact [OF c demo_db_ok] c show ?thesis by (auto simp: demo_entries demo_kit)
qed

end
