(* ===== verification/Presence.thy ===== *)
theory Presence
  imports Aoi Characters SafeZones
begin

text \<open>
  What the server tells its clients about players: the texts it sanitises, the ACK and the server
  query it answers without a session, safe-zone state, level load, errors, entity announcements, chat and
  the group broadcasts (internal/game/server.go and the \<open>Server\<close> methods of internal/game/groups.go).
  The in-memory safe-zone table is an argument. \<open>lower\<close> is \<open>strings.ToLower\<close> and \<open>fold_eq\<close> is
  \<open>strings.EqualFold\<close>.
\<close>

section \<open>Texts\<close>

definition valid_print :: "(nat \<Rightarrow> bool) \<Rightarrow> string \<Rightarrow> bool" where
  "valid_print u c \<longleftrightarrow> chunk_ok c \<and> is_print u (rune_of c) \<and> \<not> is_control (rune_of c)"

text \<open>\<open>strings.ToValidUTF8(raw, "")\<close> drops the bytes outside a valid encoding.\<close>

definition to_valid_utf8 :: "string \<Rightarrow> string" where
  "to_valid_utf8 s = concat (filter chunk_ok (runes s))"

definition sanitize_chat_text :: "(nat \<Rightarrow> bool) \<Rightarrow> string \<Rightarrow> string" where
  "sanitize_chat_text u raw = concat (filter (\<lambda>c. c = [CHR 0x0A] \<or> c = [CHR 0x09] \<or> valid_print u c) (runes raw))"

definition printable_text :: "(nat \<Rightarrow> bool) \<Rightarrow> string \<Rightarrow> string" where
  "printable_text u raw = concat (filter (valid_print u) (runes raw))"

definition sanitize_nickname :: "(nat \<Rightarrow> bool) \<Rightarrow> string \<Rightarrow> string" where
  "sanitize_nickname u raw = trim_space (truncate_utf8 (printable_text u raw) 31)"

definition sanitize_visual :: "(nat \<Rightarrow> bool) \<Rightarrow> string \<Rightarrow> string" where
  "sanitize_visual u raw = (let s = printable_text u raw in if 63 < length s then to_valid_utf8 (take 63 s) else s)"

text \<open>\<open>range\<close> decodes an invalid byte as U+FFFD, which is printable by the table.\<close>

definition printable_level_name :: "(nat \<Rightarrow> bool) \<Rightarrow> string \<Rightarrow> bool" where
  "printable_level_name u s \<longleftrightarrow> list_all (\<lambda>c. is_print u (rune_of c) \<and> \<not> is_control (rune_of c)) (runes s)"

function words_of :: "string list \<Rightarrow> string list" where
  "words_of [] = []"
| "words_of (c # cs) = (if is_space (rune_of c) then words_of cs
     else concat (takeWhile (\<lambda>d. \<not> is_space (rune_of d)) (c # cs)) # words_of (dropWhile (\<lambda>d. \<not> is_space (rune_of d)) cs))"
  by pat_completeness auto
termination
  by (relation "measure length") (auto simp: le_imp_less_Suc length_dropWhile_le)

definition fields_of_text :: "string \<Rightarrow> string list" where
  "fields_of_text s = words_of (runes s)"

definition health_to_uint8 :: "f32 \<Rightarrow> u8" where
  "health_to_uint8 h = (if fle h (Fin 0) then 0 else if fle (Fin 255) h then 255 else word_of_int (trunc_int32 h))"

definition bool_to_uint8 :: "bool \<Rightarrow> u8" where
  "bool_to_uint8 b = (if b then 1 else 0)"

definition default_actor_visual :: string where
  "default_actor_visual = ''actors'' @ CHR 0x5C # ''stalker_neutral'' @ CHR 0x5C # ''stalker_neutral_1''"

definition supported_levels :: "string \<Rightarrow> u8 option" where
  "supported_levels = map_of (map (\<lambda>l. (l, 0)) [''l01_escape'', ''l02_garbage'', ''l03_agroprom'', ''l04_darkvalley'',
     ''l05_bar_rostok'', ''l07_military'', ''l08_yantar'', ''l09_deadcity'', ''k00_marsh'', ''zaton'', ''jupiter''])"

definition level_id_for_name :: "string \<Rightarrow> u8" where
  "level_id_for_name name = (case supported_levels name of None \<Rightarrow> 0 | Some i \<Rightarrow> i)"

section \<open>Datagrams without a session\<close>

definition op_ack :: u16 where "op_ack = 5"
definition op_server_query_res :: u16 where "op_server_query_res = 7"
definition op_safezone_state :: u16 where "op_safezone_state = 0x20"
definition op_load_level :: u16 where "op_load_level = 0x73"
definition op_error :: u16 where "op_error = 0x77"

definition send_datagram :: "udp_addr \<Rightarrow> u16 \<Rightarrow> field list \<Rightarrow> handler" where
  "send_datagram a opcode fs sv = (if \<not> sv_online sv then sv else
     let seq = sv_seq sv + 1; sv1 = sv\<lparr>sv_seq := seq\<rparr> in
     (case write_packet opcode seq flag_unreliable (PStruct fs) of
        Inl _ \<Rightarrow> sv1
      | Inr data \<Rightarrow> sv1\<lparr>sv_out := sv_out sv @ [\<lparr>snt_to = a, snt_opcode = opcode, snt_flags = flag_unreliable,
            snt_seq = seq, snt_payload = PStruct fs\<rparr>]\<rparr>))"

definition send_ack :: "udp_addr \<Rightarrow> u32 \<Rightarrow> handler" where
  "send_ack a seq = send_datagram a op_ack [U32 seq]"

definition server_query_answer :: "server \<Rightarrow> server_query_res" where
  "server_query_answer sv = (let
     name = (case sv_cfg sv of None \<Rightarrow> ''Zone Online'' | Some c \<Rightarrow> if cf_server_name c \<noteq> '''' then cf_server_name c else ''Zone Online'');
     mname = (case sv_cfg sv of None \<Rightarrow> ''l01_escape'' | Some c \<Rightarrow> if cf_map_name c \<noteq> '''' then cf_map_name c else ''l01_escape'');
     mode = (case sv_cfg sv of None \<Rightarrow> 0 | Some c \<Rightarrow> cf_mode c);
     locked = (case sv_cfg sv of None \<Rightarrow> False | Some c \<Rightarrow> cf_locked c);
     maxp = (case sv_cfg sv of None \<Rightarrow> 0 | Some c \<Rightarrow> cf_max_players c);
     rate = (case sv_cfg sv of None \<Rightarrow> 30 | Some c \<Rightarrow> if 0 < cf_tick_rate_hz c then cf_tick_rate_hz c else 30)
     in \<lparr>qr_name = copy_nul_term 32 name, qr_map = copy_nul_term 32 mname,
         qr_players = word_of_nat (min (sess_count (sv_sessions sv)) 255), qr_max_players = word_of_int (clamp_int 0 255 maxp),
         qr_mode = word_of_int (clamp_int 0 255 mode), qr_locked = bool_to_uint8 locked, qr_proto = 1,
         qr_tick_rate = word_of_int (clamp_int 0 255 rate)\<rparr>)"

definition handle_server_query :: "udp_addr \<Rightarrow> handler" where
  "handle_server_query a sv = send_datagram a op_server_query_res (server_query_res_fields (server_query_answer sv)) sv"

section \<open>State of one session\<close>

definition safezone_fields :: "safe_zone option \<Rightarrow> field list" where
  "safezone_fields sz = safezone_state_fields \<lparr>zs_locked = bool_to_uint8 (sz \<noteq> None),
     zs_zone_id = fixed_bytes 32 (case sz of None \<Rightarrow> '''' | Some z \<Rightarrow> z_id z)\<rparr>"

definition set_zone :: "safe_zone option \<Rightarrow> player_session \<Rightarrow> player_session" where
  "set_zone sz s = s\<lparr>p_in_safe_zone := (sz \<noteq> None), p_safe_zone_id := (case sz of None \<Rightarrow> '''' | Some z \<Rightarrow> z_id z)\<rparr>"

definition zone_at :: "safe_zone list \<Rightarrow> player_session \<Rightarrow> safe_zone option" where
  "zone_at zones s = (case p_pos s of (x, y, z) \<Rightarrow> check_safe_zone zones x y z (p_level s))"

definition send_safezone_state :: "env \<Rightarrow> safe_zone list \<Rightarrow> ptr \<Rightarrow> handler" where
  "send_safezone_state env zones p sv = (let sz = zone_at zones (sv_heap sv p) in
     reply env op_safezone_state (safezone_fields sz) p (upd_session p (set_zone sz) sv))"

definition send_load_level :: "env \<Rightarrow> ptr \<Rightarrow> handler" where
  "send_load_level env p sv = (let s = sv_heap sv p; level = (if p_level s = '''' then ''l01_escape'' else p_level s) in
     case p_pos s of (x, y, z) \<Rightarrow>
       reply env op_load_level (level_load_fields \<lparr>ll_level = level_id_for_name level, ll_x = x, ll_y = y, ll_z = z,
         ll_faction = copy_nul_term 16 (p_faction s), ll_eco_tier = 1\<rparr>) p sv)"

definition send_error :: "env \<Rightarrow> ptr \<Rightarrow> u8 \<Rightarrow> string \<Rightarrow> handler" where
  "send_error env p code message = reply env op_error (error_payload_fields \<lparr>er_code = code,
     er_message = fixed_bytes 96 (take 95 message)\<rparr>) p"

section \<open>Announcing players\<close>

definition build_entity_enter :: "player_session \<Rightarrow> entity_enter" where
  "build_entity_enter s = (case p_pos s of (x, y, z) \<Rightarrow>
     let visual = null_term_string (p_visual s) in
     \<lparr>ee_id = p_id s, ee_kind = 1,
      ee_section = copy_nul_term 64 (if visual = '''' then default_actor_visual else visual),
      ee_x = x, ee_y = y, ee_z = z, ee_faction = copy_nul_term 16 (p_faction s), ee_health = health_to_uint8 (p_health s),
      ee_gvid = p_gvid s, ee_name = copy_nul_term 32 (p_name s)\<rparr>)"

definition peers_on :: "string \<Rightarrow> u32 \<Rightarrow> server \<Rightarrow> ptr list" where
  "peers_on level sid sv = filter (\<lambda>q. p_id (sv_heap sv q) \<noteq> sid \<and> p_level (sv_heap sv q) = level) (get_all (sv_sessions sv))"

definition broadcast_entity_enter :: "env \<Rightarrow> ptr \<Rightarrow> handler" where
  "broadcast_entity_enter env p sv = (let s = sv_heap sv p in
     fold (reply env op_entity_enter_aoi (entity_enter_fields (build_entity_enter s))) (peers_on (p_level s) (p_id s) sv) sv)"

definition maybe_broadcast_entity_enter :: "env \<Rightarrow> ptr \<Rightarrow> server \<Rightarrow> bool \<times> server" where
  "maybe_broadcast_entity_enter env p sv = (let s = sv_heap sv p;
       already = (p_level s \<noteq> '''' \<and> p_enter_level s = p_level s \<and> p_enter_rev s = p_visual_rev s)
     in if p_gvid s = 0 \<or> \<not> p_has_visual s \<or> already then (False, sv)
        else (True, broadcast_entity_enter env p
          (upd_session p (\<lambda>t. t\<lparr>p_enter_level := p_level s, p_enter_rev := p_visual_rev s\<rparr>) sv)))"

definition broadcast_entity_leave :: "env \<Rightarrow> u32 \<Rightarrow> string \<Rightarrow> handler" where
  "broadcast_entity_leave env sid level sv =
     fold (reply env op_entity_leave_aoi (entity_leave_fields \<lparr>el_id = sid\<rparr>)) (peers_on level sid sv) sv"

definition send_existing_peers :: "env \<Rightarrow> ptr \<Rightarrow> handler" where
  "send_existing_peers env p sv = (let s = sv_heap sv p in
     fold (\<lambda>q sv. if p_gvid (sv_heap sv q) \<noteq> 0 \<and> p_has_visual (sv_heap sv q)
         then reply env op_entity_enter_aoi (entity_enter_fields (build_entity_enter (sv_heap sv q))) p sv else sv)
       (peers_on (p_level s) (p_id s) sv) sv)"

section \<open>Chat and groups\<close>

definition broadcast_chat :: "env \<Rightarrow> u32 \<Rightarrow> string \<Rightarrow> handler" where
  "broadcast_chat env sender msg sv = (let
       from = (if sender = 0 then None else get_by_id sender (sv_sessions sv));
       targets = (case from of None \<Rightarrow> get_all (sv_sessions sv)
         | Some q \<Rightarrow> filter (\<lambda>p. p_level (sv_heap sv p) = p_level (sv_heap sv q)) (get_all (sv_sessions sv)))
     in fold (reply env op_chat_text (new_chat_text sender msg)) targets sv)"

definition send_chat_to_session :: "env \<Rightarrow> string \<Rightarrow> ptr \<Rightarrow> handler" where
  "send_chat_to_session env msg = reply env op_chat_text (new_chat_text 0 msg)"

definition send_group :: "env \<Rightarrow> group_state \<Rightarrow> ptr \<Rightarrow> handler" where
  "send_group env g = send_to_session env op_group_state flag_reliable (PGroup g)"

definition group_payload :: "u32 \<Rightarrow> server \<Rightarrow> group_state" where
  "group_payload gid sv = state_payload (sv_heap sv) (sv_sessions sv) gid (sv_groups sv)"

definition broadcast_group_state :: "env \<Rightarrow> u32 \<Rightarrow> handler" where
  "broadcast_group_state env gid sv =
     fold (\<lambda>p sv. send_group env (group_payload gid sv) p sv) (member_sessions gid (sv_sessions sv) (sv_groups sv)) sv"

fun notify_roster_loop :: "env \<Rightarrow> u32 \<Rightarrow> u32 list \<Rightarrow> u32 set \<Rightarrow> handler" where
  "notify_roster_loop env gid [] told sv = sv"
| "notify_roster_loop env gid (i # is) told sv =
     (if i = 0 \<or> i \<in> told then notify_roster_loop env gid is told sv
      else case get_by_id i (sv_sessions sv) of
        None \<Rightarrow> notify_roster_loop env gid is told sv
      | Some p \<Rightarrow> notify_roster_loop env gid is (insert i told)
          (send_group env (if group_id_of i (sv_groups sv) = Some gid then group_payload gid sv else empty_group_state) p sv))"

definition notify_group_roster :: "env \<Rightarrow> u32 \<Rightarrow> u32 list \<Rightarrow> handler" where
  "notify_group_roster env gid roster = notify_roster_loop env gid roster {}"

definition send_group_state :: "env \<Rightarrow> ptr \<Rightarrow> handler" where
  "send_group_state env p sv = (case group_id_of (p_id (sv_heap sv p)) (sv_groups sv) of
     Some gid \<Rightarrow> send_group env (group_payload gid sv) p sv
   | None \<Rightarrow> send_group env empty_group_state p sv)"

definition upd_groups :: "group_manager \<Rightarrow> handler" where
  "upd_groups gm sv = sv\<lparr>sv_groups := gm\<rparr>"

definition remove_from_group :: "env \<Rightarrow> ptr \<Rightarrow> handler" where
  "remove_from_group env p sv = (case leave (Some (sv_heap sv p)) (sv_groups sv) of
     ((gid, roster, was), gm) \<Rightarrow>
       if \<not> was \<or> gid = 0 then upd_groups gm sv else notify_group_roster env gid roster (upd_groups gm sv))"

definition group_accept :: "env \<Rightarrow> ptr \<Rightarrow> handler" where
  "group_accept env p sv = (case invite_for (p_id (sv_heap sv p)) (sv_groups sv) of
     None \<Rightarrow> send_chat_to_session env ''No pending group invitation.'' p sv
   | Some ginv \<Rightarrow>
       if get_by_id (gi_inviter ginv) (sv_sessions sv) = None
       then send_chat_to_session env ''The inviter is no longer connected.'' p
              (upd_groups (snd (decline (Some (sv_heap sv p)) (sv_groups sv))) sv)
       else (case accept (en_now env) (Some (sv_heap sv p)) (sv_groups sv) of
          (Inl e, gm) \<Rightarrow> send_chat_to_session env
             (if e = ErrGroupFull then ''Group is full.'' else if e = ErrGroupAlreadyIn then ''You are already in a group.''
              else ''No pending group invitation.'') p (upd_groups gm sv)
        | (Inr gid, gm) \<Rightarrow> broadcast_group_state env gid (upd_groups gm sv)))"

definition group_decline :: "env \<Rightarrow> ptr \<Rightarrow> handler" where
  "group_decline env p sv = (case decline (Some (sv_heap sv p)) (sv_groups sv) of
     (None, gm) \<Rightarrow> send_chat_to_session env ''No pending group invitation.'' p (upd_groups gm sv)
   | (Some ginv, gm) \<Rightarrow>
       let sv1 = send_chat_to_session env ''Invitation declined.'' p (upd_groups gm sv) in
       (case get_by_id (gi_inviter ginv) (sv_sessions sv1) of
          None \<Rightarrow> sv1
        | Some q \<Rightarrow> send_chat_to_session env (p_name (sv_heap sv1 p) @ '' declined your group invitation.'') q sv1))"

definition send_group_invite :: "env \<Rightarrow> ptr \<Rightarrow> ptr \<Rightarrow> handler" where
  "send_group_invite env target inviter sv = (let s = sv_heap sv inviter in
     reply env op_group_invite_notify (group_invite_notify_fields \<lparr>gn_inviter = p_id s,
       gn_name = copy_nul_term 32 (p_name s), gn_faction = copy_nul_term 16 (p_faction s)\<rparr>) target sv)"

definition invite_error_text :: "group_err \<Rightarrow> string \<Rightarrow> string" where
  "invite_error_text e target = (if e = ErrGroupFull then ''Your group is full.''
     else if e = ErrGroupSelfInvite then ''You cannot invite yourself.''
     else if e = ErrGroupInvitePending then target @ '' already has a pending invite.''
     else ''Group invitation failed.'')"

definition chat_invite :: "env \<Rightarrow> (string \<Rightarrow> string \<Rightarrow> bool) \<Rightarrow> string list \<Rightarrow> ptr \<Rightarrow> handler" where
  "chat_invite env fold_eq fs p sv = (if length fs \<noteq> 2 then send_chat_to_session env ''Usage: /invite <nickname>'' p sv
     else case get_by_name fold_eq (sv_heap sv) (fs ! 1) (sv_sessions sv) of
       None \<Rightarrow> send_chat_to_session env (''Player '' @ [CHR 0x27] @ fs ! 1 @ [CHR 0x27] @ '' is not online.'') p sv
     | Some q \<Rightarrow> (case invite (en_now env) (Some (sv_heap sv p)) (Some (sv_heap sv q)) (sv_groups sv) of
         (Some e, gm) \<Rightarrow> send_chat_to_session env (invite_error_text e (p_name (sv_heap sv q))) p (upd_groups gm sv)
       | (None, gm) \<Rightarrow> send_group_invite env q p
           (send_chat_to_session env (''Group invitation sent to '' @ p_name (sv_heap sv q) @ ''.'') p (upd_groups gm sv))))"

definition chat_leave :: "env \<Rightarrow> ptr \<Rightarrow> handler" where
  "chat_leave env p sv = (case leave (Some (sv_heap sv p)) (sv_groups sv) of
     ((gid, roster, was), gm) \<Rightarrow> if \<not> was then send_chat_to_session env ''You are not in a group.'' p (upd_groups gm sv)
       else notify_group_roster env gid roster (upd_groups gm sv))"

definition handle_chat_command :: "env \<Rightarrow> (string \<Rightarrow> string) \<Rightarrow> (string \<Rightarrow> string \<Rightarrow> bool) \<Rightarrow> ptr \<Rightarrow> string \<Rightarrow> handler" where
  "handle_chat_command env lower fold_eq p text sv = (case fields_of_text text of
     [] \<Rightarrow> sv
   | cmd # args \<Rightarrow> let c = lower cmd in
       if c = ''/invite'' then chat_invite env fold_eq (cmd # args) p sv
       else if c = ''/accept'' then group_accept env p sv
       else if c = ''/decline'' then group_decline env p sv
       else if c = ''/leave'' then chat_leave env p sv
       else if c = ''/group'' then send_group_state env p sv
       else send_chat_to_session env (''Unknown command: '' @ cmd) p sv)"

section \<open>World events\<close>

text \<open>\<open>Broadcast\<close> of the emission: marked reliable, but written past the acknowledgement queue.\<close>

definition op_world_event :: u16 where "op_world_event = 0x30"

definition emission_broadcast :: "u8 \<Rightarrow> u32 \<Rightarrow> handler" where
  "emission_broadcast state timer sv = (if \<not> sv_online sv then sv else
     fold (\<lambda>p sv. case p_addr (sv_heap sv p) of
         None \<Rightarrow> sv
       | Some a \<Rightarrow>
           let fs = world_event_fields \<lparr>we_kind = 0, we_state = state, we_timer = timer\<rparr>;
               seq = sv_seq sv + 1; sv1 = sv\<lparr>sv_seq := seq\<rparr> in
           (case write_packet op_world_event seq flag_reliable (PStruct fs) of
              Inl _ \<Rightarrow> sv1
            | Inr data \<Rightarrow> sv1\<lparr>sv_out := sv_out sv @ [\<lparr>snt_to = a, snt_opcode = op_world_event, snt_flags = flag_reliable,
                  snt_seq = seq, snt_payload = PStruct fs\<rparr>]\<rparr>))
       (get_all (sv_sessions sv)) sv)"

end
