(* ===== verification/AiRegistry.thy ===== *)
theory AiRegistry
  imports Squads ServerConfig Aoi
begin

text \<open>
  The registry of replicated AI entities and what it is configured with: the \<open>aiReplication\<close>
  struct and its methods and the small conversions of internal/game/ai_replication.go, the
  configuration of internal/game/ai_combat.go and the seeding and loading of \<open>ai_squads\<close> of
  internal/game/ai_seed.go. The registry keeps squad pointers of which only the id is read, so it
  is a list of ids. The scratch buffers only save allocations and are left out. Ranging over a map takes
  the visiting order \<open>ord\<close>, a function from the key set to a list.
\<close>

section \<open>Configuration\<close>

definition pos_or :: "f64 \<Rightarrow> f32 \<Rightarrow> f32" where
  "pos_or v d = (if flt (Fin 0) v then f32_of v else d)"

definition resolve_ai_radii :: "config option \<Rightarrow> f32 \<times> f32" where
  "resolve_ai_radii cfg = (let
     enter = (case cfg of None \<Rightarrow> Fin 180 | Some c \<Rightarrow> pos_or (cf_ai_enter_radius c) (Fin 180));
     lv = (case cfg of None \<Rightarrow> Fin 220 | Some c \<Rightarrow> pos_or (cf_ai_leave_radius c) (Fin 220))
     in (enter, if flt lv enter then enter else lv))"

definition resolve_ai_max_entities :: "config option \<Rightarrow> int" where
  "resolve_ai_max_entities cfg = (case cfg of None \<Rightarrow> 64 | Some c \<Rightarrow>
     if 0 < cf_ai_max_entities c then cf_ai_max_entities c else 64)"

record ai_combat_config =
  ac_enabled :: bool
  ac_params :: combat_params

definition default_combat_params :: combat_params where
  "default_combat_params = \<lparr>cp_aggro = Fin 40, cp_range = Fin 2, cp_cooldown = 1500 * millisecond, cp_damage = Fin 10,
     cp_resume = 10 * second\<rparr>"

definition resolve_ai_combat :: "config option \<Rightarrow> ai_combat_config" where
  "resolve_ai_combat cfg = (case cfg of
     None \<Rightarrow> \<lparr>ac_enabled = True, ac_params = default_combat_params\<rparr>
   | Some c \<Rightarrow> \<lparr>ac_enabled = ai_combat_enabled_or_default cfg, ac_params =
       \<lparr>cp_aggro = pos_or (cf_ai_aggro_radius c) (Fin 40), cp_range = pos_or (cf_ai_attack_range c) (Fin 2),
        cp_cooldown = (if 0 < cf_ai_attack_cooldown_ms c then wrap64 (cf_ai_attack_cooldown_ms c * millisecond)
          else 1500 * millisecond),
        cp_damage = pos_or (cf_ai_melee_damage c) (Fin 10),
        cp_resume = (if 0 < cf_ai_patrol_resume_s c then wrap64 (cf_ai_patrol_resume_s c * second) else 10 * second)\<rparr>\<rparr>)"

definition resolve_ai_corpse_seconds :: "config option \<Rightarrow> duration" where
  "resolve_ai_corpse_seconds cfg = (case cfg of None \<Rightarrow> 5 * second | Some c \<Rightarrow>
     if 0 < cf_ai_corpse_seconds c then wrap64 (cf_ai_corpse_seconds c * second) else 5 * second)"

section \<open>The registry\<close>

record ai_repl =
  ar_enter :: f32
  ar_leave :: f32
  ar_max :: int
  ar_squads :: "u32 list"
  ar_ids :: "u32 \<Rightarrow> u32 option"
  ar_visible :: "u32 \<Rightarrow> u32 set option"
  ar_next :: u32

definition ai_entity_id_base :: u32 where
  "ai_entity_id_base = 1000000"

definition new_ai_replication :: "f32 \<Rightarrow> f32 \<Rightarrow> int \<Rightarrow> ai_repl" where
  "new_ai_replication enter lv maxn = (let enter = (if fle enter (Fin 0) then Fin 180 else enter);
       lv = (if flt lv enter then enter else lv) in
     \<lparr>ar_enter = enter, ar_leave = lv, ar_max = (if maxn \<le> 0 then 64 else maxn), ar_squads = [], ar_ids = Map.empty,
      ar_visible = Map.empty, ar_next = ai_entity_id_base\<rparr>)"

definition repl_register :: "u32 \<Rightarrow> ai_repl \<Rightarrow> bool \<times> ai_repl" where
  "repl_register i a = (if ar_ids a i \<noteq> None then (True, a)
     else if 0 < ar_max a \<and> ar_max a \<le> int (length (ar_squads a)) then (False, a)
     else (True, a\<lparr>ar_next := ar_next a + 1, ar_squads := ar_squads a @ [i], ar_ids := (ar_ids a)(i \<mapsto> ar_next a)\<rparr>))"

fun remove_first :: "u32 \<Rightarrow> u32 list \<Rightarrow> u32 list" where
  "remove_first i [] = []"
| "remove_first i (x # xs) = (if x = i then xs else x # remove_first i xs)"

text \<open>A set that becomes empty by the removal is dropped.\<close>

definition drop_visible :: "u32 \<Rightarrow> u32 set \<Rightarrow> u32 set option" where
  "drop_visible i s = (if s - {i} = {} then None else Some (s - {i}))"

definition repl_release :: "u32 \<Rightarrow> ai_repl \<Rightarrow> ai_repl" where
  "repl_release i a = a\<lparr>ar_ids := (ar_ids a)(i := None), ar_squads := remove_first i (ar_squads a),
     ar_visible := (\<lambda>k. case ar_visible a k of None \<Rightarrow> None | Some s \<Rightarrow> if i \<in> s then drop_visible i s else Some s)\<rparr>"

definition repl_count :: "ai_repl \<Rightarrow> nat" where
  "repl_count a = length (ar_squads a)"

definition repl_entity_id :: "u32 \<Rightarrow> ai_repl \<Rightarrow> u32 option" where
  "repl_entity_id i a = ar_ids a i"

definition squad_id_for_entity :: "(u32 set \<Rightarrow> u32 list) \<Rightarrow> u32 \<Rightarrow> ai_repl \<Rightarrow> u32 option" where
  "squad_id_for_entity ord e a = List.find (\<lambda>i. ar_ids a i = Some e) (ord (dom (ar_ids a)))"

definition visible_set :: "u32 \<Rightarrow> ai_repl \<Rightarrow> u32 set" where
  "visible_set sid a = (case ar_visible a sid of None \<Rightarrow> {} | Some s \<Rightarrow> s)"

definition visible_sessions :: "(u32 set \<Rightarrow> u32 list) \<Rightarrow> u32 \<Rightarrow> ai_repl \<Rightarrow> u32 list" where
  "visible_sessions ord i a = filter (\<lambda>k. i \<in> visible_set k a) (ord (dom (ar_visible a)))"

definition mark_visible :: "u32 \<Rightarrow> u32 \<Rightarrow> ai_repl \<Rightarrow> bool \<times> ai_repl" where
  "mark_visible sid i a = (i \<notin> visible_set sid a, a\<lparr>ar_visible := (ar_visible a)(sid \<mapsto> insert i (visible_set sid a))\<rparr>)"

definition clear_visible :: "u32 \<Rightarrow> u32 \<Rightarrow> ai_repl \<Rightarrow> ai_repl" where
  "clear_visible sid i a = (case ar_visible a sid of None \<Rightarrow> a
     | Some s \<Rightarrow> a\<lparr>ar_visible := (ar_visible a)(sid := drop_visible i s)\<rparr>)"

definition visible_ids_into :: "(u32 set \<Rightarrow> u32 list) \<Rightarrow> u32 \<Rightarrow> ai_repl \<Rightarrow> u32 list" where
  "visible_ids_into ord sid a = ord (visible_set sid a)"

definition retain_sessions :: "u32 set \<Rightarrow> ai_repl \<Rightarrow> ai_repl" where
  "retain_sessions alive a = a\<lparr>ar_visible := ar_visible a |` alive\<rparr>"

definition repl_forget_session :: "u32 \<Rightarrow> ai_repl \<Rightarrow> ai_repl" where
  "repl_forget_session sid a = a\<lparr>ar_visible := (ar_visible a)(sid := None)\<rparr>"

definition register_ai_puppet :: "trig \<Rightarrow> puppet_def \<Rightarrow> squad_manager \<times> ai_repl \<Rightarrow> squad option \<times> squad_manager \<times> ai_repl" where
  "register_ai_puppet tg d st = (case st of (m, a) \<Rightarrow> (case register_puppet tg d m of (s, m1) \<Rightarrow>
     (case repl_register (sq_id s) a of
        (True, a1) \<Rightarrow> (Some s, m1, a1)
      | (False, a1) \<Rightarrow> (None, despawn_squad (sq_id s) m1, a1))))"

section \<open>On the wire\<close>

definition clamp_ai_health :: "f32 \<Rightarrow> u16" where
  "clamp_ai_health h = (if fle h (Fin 0) then 100 else if flt (Fin 65535) h then 65535 else word_of_int (trunc_int32 h))"

definition ai_entity_info :: "puppet_state \<Rightarrow> u32 \<Rightarrow> entity_info" where
  "ai_entity_info p e = \<lparr>ei_id = e, ei_kind = 0, ei_section = ps_section p, ei_pos = ps_pos p, ei_faction = ps_faction p,
     ei_health = clamp_ai_health (ps_health p), ei_gvid = 0, ei_name = ps_label p\<rparr>"

definition build_entity_enter_from_state :: "puppet_state \<Rightarrow> u32 \<Rightarrow> entity_enter" where
  "build_entity_enter_from_state p e = entity_info_enter (ai_entity_info p e)"

text \<open>\<open>math.Mod\<close> is exact; NaN and infinities answer NaN, which converts to 0.\<close>

definition fmod_pos :: "f64 \<Rightarrow> rat \<Rightarrow> f64" where
  "fmod_pos x b = (case x of Fin q \<Rightarrow> Fin (q - b * of_int (if 0 \<le> q then \<lfloor>q / b\<rfloor> else \<lceil>q / b\<rceil>)) | _ \<Rightarrow> FNaN)"

definition yaw_to_wire :: "f32 \<Rightarrow> u16" where
  "yaw_to_wire yaw = (let y = fmod_pos yaw (fval two_pi); y = (if flt y (Fin 0) then add64 y two_pi else y)
     in word_of_int (trunc_int32 (mul64 (fdiv rnd64 y two_pi) (Fin 65536))))"

definition anim_to_wire :: "u8 \<Rightarrow> u8" where
  "anim_to_wire anim = (if anim = anim_idle then 0 else if anim = anim_walk then 1 else if anim = anim_run then 2
     else if anim = anim_attack then 3 else if anim = anim_death then 4 else 0)"

definition dist_sq_2d :: "vec3 \<Rightarrow> vec3 \<Rightarrow> f32" where
  "dist_sq_2d a b = (let dx = sub32 (fst a) (fst b); dz = sub32 (snd (snd a)) (snd (snd b)) in
     add32 (mul32 dx dx) (mul32 dz dz))"

section \<open>The ai_squads table\<close>

text \<open>\<open>decode\<close> is \<open>json.Unmarshal\<close> into a slice of triples; \<open>fails k\<close> says whether the \<open>k\<close>-th call of the
  driver fails. REAL columns are \<open>float64\<close>.\<close>

record squad_row =
  sr_id :: int
  sr_level :: string
  sr_section :: string
  sr_faction :: string
  sr_pos :: "f64 \<times> f64 \<times> f64"
  sr_path :: "string option"
  sr_label :: "string option"
  sr_radius :: f64
  sr_walk :: f64
  sr_run :: f64

definition default_squad :: "string \<Rightarrow> string \<Rightarrow> string \<Rightarrow> rat \<Rightarrow> rat \<Rightarrow> rat \<Rightarrow> rat \<Rightarrow> puppet_def" where
  "default_squad label section faction x y z radius = \<lparr>pd_dbid = 0, pd_label = label, pd_section = section,
     pd_faction = faction, pd_level = ''l01_escape'', pd_spawn = (Fin x, Fin y, Fin z), pd_patrol_radius = Fin radius,
     pd_walk = Fin (3 / 2), pd_run = Fin 3, pd_loop = []\<rparr>"

definition default_ai_squads :: "puppet_def list" where
  "default_ai_squads = [
    default_squad ''Cordon Patrol Alpha'' ''sim_default_stalker_0'' ''stalker'' (- 281) (- 20) (- 189) 32,
    default_squad ''Cordon Patrol Bravo'' ''sim_default_stalker_1'' ''stalker'' (- 247) (- 21) (- 121) 28,
    default_squad ''Cordon Bandit Raid'' ''sim_default_bandit_0'' ''bandit'' (- 156) (- 19) (- 207) 30,
    default_squad ''Cordon Bandit Outpost'' ''sim_default_bandit_1'' ''bandit'' (- 300) (- 22) (- 110) 40]"

definition insert_squad :: "puppet_def \<Rightarrow> squad_row list \<times> int \<Rightarrow> squad_row list \<times> int" where
  "insert_squad d st = (case st of (rows, next_id) \<Rightarrow>
     (rows @ [\<lparr>sr_id = next_id, sr_level = pd_level d, sr_section = pd_section d, sr_faction = pd_faction d,
        sr_pos = pd_spawn d, sr_path = None, sr_label = Some (pd_label d), sr_radius = pd_patrol_radius d,
        sr_walk = pd_walk d, sr_run = pd_run d\<rparr>], next_id + 1))"

text \<open>The calls: the count, \<open>Begin\<close>, \<open>Prepare\<close>, one insert per squad, \<open>Commit\<close>.\<close>

definition seed_ai_squads :: "(nat \<Rightarrow> bool) \<Rightarrow> squad_row list \<times> int \<Rightarrow> bool \<times> squad_row list \<times> int" where
  "seed_ai_squads fails st = (if fails 0 then (False, st) else if fst st \<noteq> [] then (True, st)
     else if list_ex fails [1..<length default_ai_squads + 4] then (False, st)
     else (True, fold insert_squad default_ai_squads st))"

definition parse_patrol_path :: "(string \<Rightarrow> vec3 list option) \<Rightarrow> string \<Rightarrow> waypoint list" where
  "parse_patrol_path decode raw = (if raw = '''' then [] else case decode raw of
     None \<Rightarrow> []
   | Some ts \<Rightarrow> if length ts < 2 then [] else map (\<lambda>(x, y, z). Waypoint x y z) ts)"

definition scan_squad :: "(string \<Rightarrow> vec3 list option) \<Rightarrow> squad_row \<Rightarrow> puppet_def" where
  "scan_squad decode r = (case sr_pos r of (x, y, z) \<Rightarrow> let label = (case sr_label r of None \<Rightarrow> '''' | Some l \<Rightarrow> l) in
     \<lparr>pd_dbid = sr_id r, pd_label = (if label = '''' then sr_section r else label), pd_section = sr_section r,
      pd_faction = sr_faction r, pd_level = sr_level r, pd_spawn = (f32_of x, f32_of y, f32_of z),
      pd_patrol_radius = f32_of (sr_radius r), pd_walk = f32_of (sr_walk r), pd_run = f32_of (sr_run r),
      pd_loop = parse_patrol_path decode (case sr_path r of None \<Rightarrow> '''' | Some s \<Rightarrow> s)\<rparr>)"

definition load_ai_squads :: "(string \<Rightarrow> vec3 list option) \<Rightarrow> bool \<Rightarrow> squad_row list \<Rightarrow> puppet_def list option" where
  "load_ai_squads decode fails rows = (if fails then None else Some (map (scan_squad decode) (sort_key sr_id rows)))"

end
