(* ===== verification/World.thy ===== *)
theory World
  imports Presence AiRegistry Damage Sleepers Emission ItemHandlers
begin

text \<open>
  The whole server: \<open>world\<close> adds to the record of theory Server the managers the item handlers do
  not touch, and \<open>host\<close> is what Go reads from outside while one packet or one tick runs (the environment,
  \<open>strings.ToLower\<close> and \<open>strings.EqualFold\<close>, the order in which a map is ranged over, the random 64-bit
  draws, the trigonometric functions). On top: the damage audit of internal/game/damage_audit.go, the
  persistence helpers of server.go and what every departure of a session shares.
  The line-of-sight gate is a function of level and points: that its cache does not change
  its answers is shown in Occluders.
\<close>

datatype write_job =
    SetTransform string "f32 \<times> f32 \<times> f32" f32 f32 int
  | AddPlayTime string int int

record world =
  wd_sv :: server
  wd_aoi :: aoi
  wd_damage :: damage_handler
  wd_reject_audit :: "u32 \<Rightarrow> gotime option"
  wd_sleepers :: sleeper_manager
  wd_zones :: "safe_zone list"
  wd_relations :: relations
  wd_emission :: emission
  wd_squads :: squad_manager
  wd_repl :: ai_repl
  wd_combat :: ai_combat_config
  wd_los :: "los_check option"
  wd_sid_seq :: u32
  wd_queue_cap :: "nat option"
  wd_queue :: "write_job list"
  wd_credit :: "gotime option"
  wd_sweep :: "gotime option"
  wd_safe_cast :: gotime
  wd_fresh :: ptr
  wd_resent :: "(udp_addr option \<times> bytes) list"

record host =
  ho_env :: env
  ho_lower :: "string \<Rightarrow> string"
  ho_fold_eq :: "string \<Rightarrow> string \<Rightarrow> bool"
  ho_order :: "u32 set \<Rightarrow> u32 list"
  ho_draws :: "nat \<Rightarrow> u64 option"
  ho_trig :: trig

definition host_ok :: "host \<Rightarrow> bool" where
  "host_ok ho \<longleftrightarrow> (\<forall>s. finite s \<longrightarrow> distinct (ho_order ho s) \<and> set (ho_order ho s) = s)"

definition on_sv :: "handler \<Rightarrow> world \<Rightarrow> world" where
  "on_sv f w = w\<lparr>wd_sv := f (wd_sv w)\<rparr>"

definition sess_of :: "world \<Rightarrow> ptr \<Rightarrow> player_session" where
  "sess_of w p = sv_heap (wd_sv w) p"

definition session_at :: "udp_addr \<Rightarrow> world \<Rightarrow> ptr option" where
  "session_at a w = get_by_addr (addr_string a) (sv_sessions (wd_sv w))"

text \<open>The zero value of a session; the zero \<open>time.Time\<close> is the first day of year 1.\<close>

definition zero_time :: gotime where
  "zero_time = - 62135596800 * second"

definition zero_session :: player_session where
  "zero_session = \<lparr>p_id = 0, p_account = '''', p_name = '''', p_addr = None, p_level = '''', p_pos = (Fin 0, Fin 0, Fin 0),
     p_rot = (Fin 0, Fin 0), p_vel = (Fin 0, Fin 0, Fin 0), p_health = Fin 0, p_anim_flags = 0, p_gvid = 0,
     p_visual = replicate 64 (CHR 0x00), p_has_visual = False, p_in_safe_zone = False, p_safe_zone_id = '''',
     p_last_seen = zero_time, p_last_sequence = 0, p_last_ai_sent = zero_time, p_token = 0, p_dirty = False,
     p_last_checkpoint = zero_time, p_in_combat_until = zero_time, p_chat_times = [], p_pending_create = False,
     p_faction = '''', p_enter_level = '''', p_enter_rev = 0, p_visual_rev = 0, p_inv_synced_level = ''''\<rparr>"

definition new_ptr :: "player_session \<Rightarrow> world \<Rightarrow> ptr \<times> world" where
  "new_ptr s w = (wd_fresh w, (on_sv (upd_session (wd_fresh w) (\<lambda>_. s)) w)\<lparr>wd_fresh := wd_fresh w + 1\<rparr>)"

section \<open>Tables behind the sessions\<close>

definition sync_flush :: "env \<Rightarrow> string \<Rightarrow> f32 \<times> f32 \<times> f32 \<Rightarrow> f32 \<Rightarrow> f32 \<Rightarrow> handler" where
  "sync_flush env uuid pos yaw health sv = snd (with_db (flush_player_transform uuid pos yaw health (unix env)) sv)"

definition save_dead :: "env \<Rightarrow> string \<Rightarrow> f32 \<times> f32 \<times> f32 \<Rightarrow> f32 \<Rightarrow> handler" where
  "save_dead env uuid pos yaw sv = (case with_db (load_character uuid) sv of
     (Inl _, sv1) \<Rightarrow> sv1
   | (Inr ch, sv1) \<Rightarrow> snd (with_db (save_character (ch\<lparr>ch_pos := pos, ch_yaw := yaw, ch_health := Fin 0, ch_dead := 1\<rparr>)
       (unix env)) sv1))"

text \<open>The block every exit path repeats: flush where the player stands; a dead one is saved as dead.\<close>

definition persist_exit :: "env \<Rightarrow> player_session \<Rightarrow> handler" where
  "persist_exit env s sv = (if p_account s = '''' then sv else
     let sv1 = sync_flush env (p_account s) (p_pos s) (fst (p_rot s)) (p_health s) sv in
     if fle (p_health s) (Fin 0) then save_dead env (p_account s) (p_pos s) (fst (p_rot s)) sv1 else sv1)"

text \<open>The block that persists a death that just happened.\<close>

definition persist_death :: "env \<Rightarrow> string \<Rightarrow> f32 \<times> f32 \<times> f32 \<Rightarrow> f32 \<Rightarrow> handler" where
  "persist_death env uuid pos yaw sv = (if uuid = '''' then sv else
     save_dead env uuid pos yaw (sync_flush env uuid pos yaw (Fin 0) sv))"

text \<open>\<open>QueueWrite\<close> drops the job when there is no queue or it is full; the worker of \<open>StartWriteQueue\<close>
  runs one job after the other.\<close>

definition queue_write :: "write_job \<Rightarrow> world \<Rightarrow> world" where
  "queue_write j w = (case wd_queue_cap w of None \<Rightarrow> w
     | Some n \<Rightarrow> if length (wd_queue w) < n then w\<lparr>wd_queue := wd_queue w @ [j]\<rparr> else w)"

definition queue_player_transform :: "env \<Rightarrow> string \<Rightarrow> f32 \<times> f32 \<times> f32 \<Rightarrow> f32 \<Rightarrow> f32 \<Rightarrow> world \<Rightarrow> world" where
  "queue_player_transform env uuid pos yaw health = queue_write (SetTransform uuid pos yaw health (unix env))"

definition queue_periodic_stats :: "env \<Rightarrow> string \<Rightarrow> int \<Rightarrow> world \<Rightarrow> world" where
  "queue_periodic_stats env uuid delta = queue_write (AddPlayTime uuid delta (unix env))"

fun job_row :: "write_job \<Rightarrow> char_row \<Rightarrow> char_row" where
  "job_row (SetTransform uuid pos yaw health now) c = flush_row pos yaw health now c"
| "job_row (AddPlayTime uuid delta now) c = c\<lparr>c_play_time := c_play_time c + delta, c_updated := now\<rparr>"

fun job_uuid :: "write_job \<Rightarrow> string" where
  "job_uuid (SetTransform uuid _ _ _ _) = uuid"
| "job_uuid (AddPlayTime uuid _ _) = uuid"

definition run_next_job :: "world \<Rightarrow> world" where
  "run_next_job w = (case wd_queue w of [] \<Rightarrow> w
     | j # js \<Rightarrow> on_sv (\<lambda>sv. snd (with_db (stmt (update_char (job_uuid j) (job_row j))) sv)) (w\<lparr>wd_queue := js\<rparr>))"

section \<open>Damage audit\<close>

text \<open>\<open>%.2f\<close>: correctly rounded to two decimals.\<close>

definition fmt_2f :: "f32 \<Rightarrow> string" where
  "fmt_2f x = (case x of
     FNaN \<Rightarrow> ''NaN''
   | FInf neg \<Rightarrow> if neg then ''-Inf'' else ''+Inf''
   | Fin q \<Rightarrow> let n = round_even (\<bar>q\<bar> * 100); t = itoa (n mod 100) in
       (if q < 0 then ''-'' else '''') @ itoa (n div 100) @ ''.'' @ replicate (2 - length t) (CHR ''0'') @ t)"

definition audit_damage_rejected :: "env \<Rightarrow> u32 \<Rightarrow> string \<Rightarrow> world \<Rightarrow> world" where
  "audit_damage_rejected env attacker reason w =
     (if (case wd_reject_audit w attacker of None \<Rightarrow> False | Some t \<Rightarrow> time_sub (en_now env) t < 5 * second) then w
      else on_sv (audit env '''' ''damage_rejected'' (join_sp [kv ''attacker'' (utoa attacker), kv ''reason'' reason]))
        (w\<lparr>wd_reject_audit := (wd_reject_audit w)(attacker \<mapsto> en_now env)\<rparr>))"

definition audit_damage_accepted :: "env \<Rightarrow> u32 \<Rightarrow> u32 \<Rightarrow> f32 \<Rightarrow> world \<Rightarrow> world" where
  "audit_damage_accepted env attacker target damage = on_sv (audit env '''' ''damage_applied''
     (join_sp [kv ''attacker'' (utoa attacker), kv ''target'' (utoa target), kv ''damage'' (fmt_2f damage)]))"

definition clear_damage_audit :: "u32 \<Rightarrow> world \<Rightarrow> world" where
  "clear_damage_audit sid w = w\<lparr>wd_reject_audit := (wd_reject_audit w)(sid := None)\<rparr>"

section \<open>Departures\<close>

definition op_disconnect :: u16 where "op_disconnect = 3"

definition upd_grid :: "(grid \<Rightarrow> grid) \<Rightarrow> handler" where
  "upd_grid f sv = sv\<lparr>sv_grid := f (sv_grid sv)\<rparr>"

definition purge_addr :: "host \<Rightarrow> string \<Rightarrow> handler" where
  "purge_addr ho a sv = sv\<lparr>sv_acks := remove_by_addr a (ho_order ho (dom (ack_queue.entries (sv_acks sv)))) (sv_acks sv)\<rparr>"

definition purge_session_addr :: "host \<Rightarrow> player_session \<Rightarrow> handler" where
  "purge_session_addr ho s sv = (case p_addr s of None \<Rightarrow> sv
     | Some a \<Rightarrow> if addr_string a = '''' then sv else purge_addr ho (addr_string a) sv)"

definition drop_session :: "host \<Rightarrow> u32 \<Rightarrow> handler" where
  "drop_session ho sid sv = sv\<lparr>sv_sessions :=
     remove_session (sv_heap sv) (ho_order ho (dom (sm_sessions (sv_sessions sv)) - {sid})) sid (sv_sessions sv)\<rparr>"

definition aoi_forget :: "u32 \<Rightarrow> world \<Rightarrow> world" where
  "aoi_forget sid w = w\<lparr>wd_aoi := aoi_remove_session sid (wd_aoi w)\<rparr>"

definition clear_session_tracking :: "host \<Rightarrow> u32 \<Rightarrow> world \<Rightarrow> world" where
  "clear_session_tracking ho sid w =
     (let sv = wd_sv w; gm = sv_groups sv in
      (clear_damage_audit sid w)\<lparr>
        wd_sv := sv\<lparr>sv_ledger := remove_ledger sid (sv_ledger sv),
          sv_groups := forget_session sid (ho_order ho (dom (gm_invites gm))) gm\<rparr>,
        wd_damage := clear_budget sid (wd_damage w),
        wd_repl := repl_forget_session sid (wd_repl w)\<rparr>)"

text \<open>The session's proxy stays behind for thirty seconds. \<open>None\<close>: the search for a free id does not end.\<close>

definition leave_sleeper :: "env \<Rightarrow> bool \<Rightarrow> player_session \<Rightarrow> world \<Rightarrow> world option" where
  "leave_sleeper env exposed s w = (if \<not> exposed \<or> \<not> flt (Fin 0) (p_health s) then Some w else
     case create_sleeper (en_now env) (30 * second) (Some s) (wd_sleepers w) of
       None \<Rightarrow> None
     | Some (None, m) \<Rightarrow> Some (w\<lparr>wd_sleepers := m\<rparr>)
     | Some (Some q, m) \<Rightarrow> let sl = slm_heap m q in
         Some (on_sv (upd_grid (grid_insert (sl_id sl) (fst (sl_pos sl)) (snd (snd (sl_pos sl))))) (w\<lparr>wd_sleepers := m\<rparr>)))"

definition cleanup_evicted_session :: "host \<Rightarrow> ptr \<Rightarrow> world \<Rightarrow> world" where
  "cleanup_evicted_session ho p w = (let env = ho_env ho; s = sess_of w p; sid = p_id s;
       a = (case p_addr s of None \<Rightarrow> '''' | Some x \<Rightarrow> addr_string x);
       cur = get_by_addr a (sv_sessions (wd_sv w));
       w1 = (if cur = None \<or> cur = Some p then on_sv (reply env op_disconnect [U8 1] p) w else w);
       w2 = on_sv (upd_grid (grid_remove sid) \<circ> remove_from_group env p) w1;
       w3 = on_sv (purge_session_addr ho s \<circ> broadcast_entity_leave env sid (p_level s)) (aoi_forget sid w2)
     in clear_session_tracking ho sid w3)"

definition kick_session :: "host \<Rightarrow> u32 \<Rightarrow> world \<Rightarrow> bool \<times> world" where
  "kick_session ho sid w = (case get_by_id sid (sv_sessions (wd_sv w)) of
     None \<Rightarrow> (False, w)
   | Some p \<Rightarrow> let env = ho_env ho; s = sess_of w p;
       w1 = on_sv (persist_exit env s \<circ> purge_session_addr ho s) w;
       w2 = on_sv (remove_from_group env p \<circ> reply env op_disconnect [U8 1] p) w1;
       w3 = on_sv (upd_grid (grid_remove sid) \<circ> broadcast_entity_leave env sid (p_level s)) w2;
       w4 = on_sv (drop_session ho sid) (aoi_forget sid w3)
     in (True, clear_session_tracking ho sid w4))"

definition ban_player :: "host \<Rightarrow> string \<Rightarrow> string \<Rightarrow> world \<Rightarrow> gerr option \<times> world" where
  "ban_player ho uuid reason w = (let sv = wd_sv w;
       (r, sv1) = (if sv_db sv = None then (Inr (), sv) else with_db (ban_account uuid reason) sv);
       w1 = w\<lparr>wd_sv := sv1\<rparr> in
     case r of Inl e \<Rightarrow> (Some e, w1)
     | Inr _ \<Rightarrow> (None, case List.find (\<lambda>p. p_account (sess_of w1 p) = uuid) (get_all (sv_sessions sv1)) of
         None \<Rightarrow> w1 | Some p \<Rightarrow> snd (kick_session ho (p_id (sess_of w1 p)) w1)))"

definition get_stats :: "gotime \<Rightarrow> gotime \<Rightarrow> world \<Rightarrow> nat \<times> int \<times> duration" where
  "get_stats now start w = (length (get_all (sv_sessions (wd_sv w))),
     (case sv_cfg (wd_sv w) of None \<Rightarrow> 30 | Some c \<Rightarrow> if 0 < cf_tick_rate_hz c then cf_tick_rate_hz c else 30),
     time_sub now start)"

end
