(* ===== verification/Handshake.thy ===== *)
theory Handshake
  imports World
begin

text \<open>
  How a client gets in: internal/game/auth.go and the \<open>OpHandshakeReq\<close> and \<open>OpCharacterSelect\<close> cases of
  \<open>HandlePacket\<close> (internal/game/server.go). The answers to a refused handshake go through a temporary
  session that holds only the address. A handshake that never returns is \<open>None\<close>: the draw of a
  token that is always 0, or (never, by \<open>unique_name_terminates\<close>) the search for a free name.
\<close>

section \<open>Authentication\<close>

text \<open>The first non-zero draw; a failing source answers an error and the token 0.\<close>

partial_function (option) draw_token :: "(nat \<Rightarrow> u64 option) \<Rightarrow> nat \<Rightarrow> (bool \<times> u64) option" where
  "draw_token draws k = (case draws k of None \<Rightarrow> Some (False, 0)
     | Some t \<Rightarrow> if t \<noteq> 0 then Some (True, t) else draw_token draws (k + 1))"

definition generate_session_token :: "(nat \<Rightarrow> u64 option) \<Rightarrow> (bool \<times> u64) option" where
  "generate_session_token draws = draw_token draws 0"

definition check_player_banned :: "string \<Rightarrow> server \<Rightarrow> (gerr + bool \<times> string) \<times> server" where
  "check_player_banned uuid sv = (if sv_db sv = None then (Inr (False, ''''), sv) else with_db (is_player_banned uuid) sv)"

definition authenticate_session_packet :: "player_session option \<Rightarrow> u32 \<Rightarrow> u64 \<Rightarrow> bool" where
  "authenticate_session_packet so sid token = (case so of
     None \<Rightarrow> False
   | Some s \<Rightarrow> p_id s = sid \<and> (token \<noteq> 0 \<and> p_token s \<noteq> 0 \<longrightarrow> token = p_token s))"

definition should_checkpoint_session :: "player_session option \<Rightarrow> gotime \<Rightarrow> duration \<Rightarrow> bool" where
  "should_checkpoint_session so now interval = (case so of
     None \<Rightarrow> False
   | Some s \<Rightarrow> p_dirty s \<and> interval \<le> time_sub now (p_last_checkpoint s))"

section \<open>Answers\<close>

definition op_handshake_res :: u16 where "op_handshake_res = 2"
definition op_show_start :: u16 where "op_show_start = 0x71"

definition rookie_village :: "f32 \<times> f32 \<times> f32" where
  "rookie_village = (rnd32 (- 2113 / 10), rnd32 (- 101 / 5), rnd32 (- 729 / 5))"

definition refusal :: "env \<Rightarrow> u8 \<Rightarrow> handshake_res" where
  "refusal env status = \<lparr>hr_session_id = fixed_bytes 4 '''', hr_status = status, hr_x = Fin 0, hr_y = Fin 0, hr_z = Fin 0,
     hr_world_time = word_of_int (unix env), hr_eco_tier = 0, hr_has_character = 0, hr_faction = fixed_bytes 16 ''''\<rparr>"

definition refuse_handshake :: "env \<Rightarrow> udp_addr \<Rightarrow> u8 \<Rightarrow> world \<Rightarrow> world" where
  "refuse_handshake env a status w = (case new_ptr (zero_session\<lparr>p_addr := Some a\<rparr>) w of
     (p, w1) \<Rightarrow> on_sv (reply env op_handshake_res (handshake_res_fields (refusal env status)) p) w1)"

definition admission_res :: "env \<Rightarrow> u32 \<Rightarrow> f32 \<times> f32 \<times> f32 \<Rightarrow> string option \<Rightarrow> handshake_res" where
  "admission_res env sid pos faction = (case pos of (x, y, z) \<Rightarrow>
     \<lparr>hr_session_id = session_id_bytes sid, hr_status = 0, hr_x = x, hr_y = y, hr_z = z,
      hr_world_time = word_of_int (unix env), hr_eco_tier = 1, hr_has_character = (if faction = None then 0 else 1),
      hr_faction = (case faction of None \<Rightarrow> fixed_bytes 16 '''' | Some f \<Rightarrow> copy_nul_term 16 f)\<rparr>)"

section \<open>The handshake\<close>

definition trim_nul :: "string \<Rightarrow> string" where
  "trim_nul s = rev (dropWhile (\<lambda>c. c = CHR 0x00) (rev (dropWhile (\<lambda>c. c = CHR 0x00) s)))"

definition clean_uuid :: "string \<Rightarrow> string" where
  "clean_uuid raw = (if null_term_string raw = '''' then trim_nul raw else null_term_string raw)"

definition hex_digit :: "nat \<Rightarrow> char" where
  "hex_digit n = char_of (if n < 10 then 48 + n else 87 + n)"

definition hex_text :: "string \<Rightarrow> string" where
  "hex_text s = concat (map (\<lambda>c. [hex_digit (of_char c div 16), hex_digit (of_char c mod 16)]) s)"

definition pending_session :: "player_session \<Rightarrow> player_session" where
  "pending_session s = s\<lparr>p_pending_create := True, p_pos := rookie_village, p_level := ''l01_escape'', p_health := Fin 100\<rparr>"

definition resume_session :: "character \<Rightarrow> player_session \<Rightarrow> player_session" where
  "resume_session ch s = s\<lparr>p_level := (if ch_level ch = '''' then p_level s else ch_level ch), p_pos := ch_pos ch,
     p_health := ch_health ch, p_faction := ch_faction ch\<rparr>"

definition revived :: "character \<Rightarrow> character" where
  "revived ch = ch\<lparr>ch_level := ''l01_escape'', ch_pos := rookie_village, ch_health := Fin 100, ch_dead := 0\<rparr>"

text \<open>Provision and load: the session, whether the client has to create a character, the faction.\<close>

definition load_player :: "env \<Rightarrow> string \<Rightarrow> string \<Rightarrow> string \<Rightarrow> player_session \<Rightarrow> server \<Rightarrow> (player_session \<times> bool \<times> string) \<times> server" where
  "load_player env uuid hwid nick s sv = (if sv_db sv = None then ((s, False, ''''), sv) else
     let sv1 = snd (with_db (auto_provision uuid hwid nick (unix env)) sv) in
     (case with_db (load_character uuid) sv1 of
        (Inl _, sv2) \<Rightarrow> ((pending_session s, True, ''''), sv2)
      | (Inr ch, sv2) \<Rightarrow>
          if ch_profile_rev ch \<noteq> 1 then ((pending_session s, True, ch_faction ch), sv2)
          else if ch_dead ch = 1
          then ((resume_session (revived ch) s, False, ch_faction ch), snd (with_db (save_character (revived ch) (unix env)) sv2))
          else ((resume_session ch s, False, ch_faction ch), sv2)))"

definition reclaim_sleeper :: "string \<Rightarrow> player_session \<times> bool \<Rightarrow> world \<Rightarrow> (player_session \<times> bool) \<times> world" where
  "reclaim_sleeper uuid si w = (case get_sleeper_by_account uuid (wd_sleepers w) of
     None \<Rightarrow> (si, w)
   | Some q \<Rightarrow> let sl = slm_heap (wd_sleepers w) q in
       (((fst si)\<lparr>p_pos := sl_pos sl, p_health := sl_health sl, p_level := sl_level sl, p_pending_create := False\<rparr>, False),
        on_sv (upd_grid (grid_remove (sl_id sl))) (w\<lparr>wd_sleepers := snd (remove_sleeper (sl_id sl) (wd_sleepers w))\<rparr>)))"

definition max_players :: "world \<Rightarrow> int" where
  "max_players w = (case sv_cfg (wd_sv w) of None \<Rightarrow> 0 | Some c \<Rightarrow> cf_max_players c)"

text \<open>\<open>TryAddCapped\<close>, then \<open>EnsureUniqueName\<close>, under \<open>nickMu\<close>. A pass over the session map skips the ids that an
  earlier pass deleted, so every pass takes the order of the map it started from.\<close>

definition admit :: "host \<Rightarrow> ptr \<Rightarrow> world \<Rightarrow> (ptr list \<times> bool \<times> world) option" where
  "admit ho p w = (let sv = wd_sv w; h = sv_heap sv; sm = sv_sessions sv;
       o1 = ho_order ho (dom (sm_sessions sm)); o2 = ho_order ho (insert (p_id (h p)) (dom (sm_sessions sm))) in
     case try_add_capped h o1 o1 o2 (Some p) (max_players w) sm of
       (sm1, evicted, False) \<Rightarrow> Some (evicted, False, w\<lparr>wd_sv := sv\<lparr>sv_sessions := sm1\<rparr>\<rparr>)
     | (sm1, evicted, True) \<Rightarrow> map_option (\<lambda>h1. (evicted, True, w\<lparr>wd_sv := sv\<lparr>sv_sessions := sm1, sv_heap := h1\<rparr>\<rparr>))
         (ensure_unique_name (ho_lower ho) o2 (length o2 + 1) (Some p) sm1 h))"

definition spawn_flow :: "host \<Rightarrow> ptr \<Rightarrow> bool \<Rightarrow> string \<Rightarrow> world \<Rightarrow> world" where
  "spawn_flow ho p is_new faction w = (let env = ho_env ho; s = sess_of w p;
       res = admission_res env (p_id s) (p_pos s) (if is_new then None else Some faction);
       w1 = (if is_new then w else on_sv (upd_grid (grid_insert (p_id s) (fst (p_pos s)) (snd (snd (p_pos s))))) w);
       w2 = on_sv (reply env op_handshake_res (handshake_res_fields res) p) w1;
       w3 = (if is_new then case rookie_village of (x, y, z) \<Rightarrow>
                on_sv (reply env op_show_start (show_start_fields \<lparr>sh_level = 0, sh_x = x, sh_y = y, sh_z = z, sh_flags = 0,
                  sh_eco_tier = 1\<rparr>) p) w2
             else on_sv (send_wallet_update env p \<circ> send_world_items_in_aoi env p \<circ> sync_inventory_for_level env p \<circ>
                send_load_level env p) w2);
       w4 = on_sv (send_safezone_state env (wd_zones w3) p) w3
     in if is_new then w4 else on_sv (send_existing_peers env p) w4)"

definition new_session :: "env \<Rightarrow> u32 \<Rightarrow> u64 \<Rightarrow> string \<Rightarrow> string \<Rightarrow> udp_addr \<Rightarrow> u32 \<Rightarrow> player_session" where
  "new_session env sid token uuid nick a seq = zero_session\<lparr>p_id := sid, p_token := token, p_account := uuid, p_name := nick,
     p_addr := Some a, p_last_seen := en_now env, p_last_checkpoint := en_now env, p_health := Fin 100,
     p_level := ''l01_escape'', p_last_sequence := seq\<rparr>"

definition placed :: "player_session \<Rightarrow> player_session" where
  "placed s = (if p_pos s = (Fin 0, Fin 0, Fin 0) then s\<lparr>p_pos := rookie_village\<rparr> else s)"

definition enter_world :: "host \<Rightarrow> udp_addr \<Rightarrow> handshake_req \<Rightarrow> string \<Rightarrow> u32 \<Rightarrow> u64 \<Rightarrow> world \<Rightarrow> world option" where
  "enter_world ho a req uuid seq token w0 = (let env = ho_env ho;
       nick0 = sanitize_nickname (en_uprint env) (null_term_string (hq_nickname req));
       nick = (if nick0 = '''' then ''Stalker'' else nick0);
       sid = wd_sid_seq w0 + 1; w = w0\<lparr>wd_sid_seq := sid\<rparr>;
       ((s1, is_new1, faction), sv1) =
         load_player env uuid (hex_text (hq_hwid req)) nick (new_session env sid token uuid nick a seq) (wd_sv w);
       ((s2, is_new), w1) = reclaim_sleeper uuid (placed s1, is_new1) (w\<lparr>wd_sv := sv1\<rparr>);
       (p, w2) = new_ptr s2 w1 in
     case admit ho p w2 of
       None \<Rightarrow> None
     | Some (evicted, added, w3) \<Rightarrow> let w4 = fold (cleanup_evicted_session ho) evicted w3 in
         Some (if added then spawn_flow ho p is_new faction w4 else refuse_handshake env a 1 w4))"

definition handle_handshake :: "host \<Rightarrow> udp_addr \<Rightarrow> u32 \<Rightarrow> bytes \<Rightarrow> world \<Rightarrow> world option" where
  "handle_handshake ho a seq buf w = (let env = ho_env ho in case read_handshake_req buf of
     None \<Rightarrow> Some w
   | Some (req, _) \<Rightarrow> let uuid = clean_uuid (hq_uuid req) in
       if hq_protocol req \<noteq> 1 then Some (refuse_handshake env a 3 w)
       else if uuid = '''' then Some (refuse_handshake env a 1 w)
       else (case check_player_banned uuid (wd_sv w) of (ban, sv1) \<Rightarrow> let w1 = w\<lparr>wd_sv := sv1\<rparr> in
         if (case ban of Inl _ \<Rightarrow> False | Inr (banned, _) \<Rightarrow> banned) then Some (refuse_handshake env a 2 w1)
         else (case generate_session_token (ho_draws ho) of
           None \<Rightarrow> None
         | Some (_, token) \<Rightarrow> enter_world ho a req uuid seq token w1)))"

section \<open>Character creation\<close>

definition max_starter_money :: u32 where "max_starter_money = 10000000"

definition error_code_for_validation :: "gerr \<Rightarrow> u8" where
  "error_code_for_validation e = (if e = ErrInvalidFaction then 1 else 2)"

definition create_in_db :: "env \<Rightarrow> string \<Rightarrow> string \<Rightarrow> string \<Rightarrow> u32 \<Rightarrow> server \<Rightarrow> (gerr + unit) \<times> server" where
  "create_in_db env uuid faction loadout money sv = (if sv_db sv = None then (Inr (), sv)
     else with_db (create_character uuid faction loadout money (unix env)) sv)"

definition character_created :: "host \<Rightarrow> ptr \<Rightarrow> string \<Rightarrow> world \<Rightarrow> world" where
  "character_created ho p faction w = (let env = ho_env ho; sid = p_id (sess_of w p);
       place = (\<lambda>s. s\<lparr>p_pending_create := False, p_faction := faction, p_pos := rookie_village, p_level := ''l01_escape'',
         p_health := Fin 100\<rparr>);
       w1 = on_sv (upd_grid (grid_insert sid (fst rookie_village) (snd (snd rookie_village))) \<circ> upd_session p place) w;
       w2 = on_sv (send_wallet_update env p \<circ> send_world_items_in_aoi env p \<circ> sync_inventory_for_level env p \<circ>
         send_load_level env p) w1;
       w3 = on_sv (reply env op_handshake_res (handshake_res_fields (admission_res env sid rookie_village (Some faction))) p) w2
     in on_sv (send_existing_peers env p \<circ> (snd \<circ> maybe_broadcast_entity_enter env p) \<circ>
          send_safezone_state env (wd_zones w3) p) w3)"

definition handle_character_select :: "host \<Rightarrow> udp_addr \<Rightarrow> bytes \<Rightarrow> world \<Rightarrow> world" where
  "handle_character_select ho a buf w = (let env = ho_env ho in case read_character_select buf of
     None \<Rightarrow> w
   | Some (sel, _) \<Rightarrow> (case session_at a w of
       None \<Rightarrow> w
     | Some p \<Rightarrow> let s = sess_of w p; faction = null_term_string (cs_faction sel); loadout = null_term_string (cs_items sel);
         money = (if max_starter_money < cs_money sel then max_starter_money else cs_money sel) in
       if \<not> p_pending_create s then w
       else (case validate_new_character faction loadout of
         Some e \<Rightarrow> on_sv (send_error env p (error_code_for_validation e)
           ''Character creation rejected: invalid faction or loadout.'') w
       | None \<Rightarrow> (case create_in_db env (p_account s) faction loadout money (wd_sv w) of
           (Inl _, sv1) \<Rightarrow> w\<lparr>wd_sv := send_error env p 3 ''Character creation failed. Try again.'' sv1\<rparr>
         | (Inr _, sv1) \<Rightarrow> character_created ho p faction (w\<lparr>wd_sv := sv1\<rparr>)))))"

end
