(* ===== verification/AiTick.thy ===== *)
theory AiTick
  imports World Factions
begin

text \<open>
  One tick of the AI entities: \<open>tickAIReplication\<close> of internal/game/ai_replication.go and the combat side of
  internal/game/ai_combat.go. Per session the tick keeps a set of visible squads: a squad enters inside the
  enter radius, stays until the leave radius, and at most \<open>maxEntities\<close> (the nearest) are kept.
  \<open>sort.Slice\<close> is its contract, computed by insertion.
\<close>

section \<open>Who fights whom\<close>

definition ai_hostile_to_player :: "(string \<Rightarrow> string) \<Rightarrow> relations \<Rightarrow> string \<Rightarrow> string \<Rightarrow> bool" where
  "ai_hostile_to_player lower rels squad_faction player_faction = (let
     sf = normalize_faction lower squad_faction; pf = normalize_faction lower player_faction in
     if sf = '''' \<or> sf = ''monster'' then True
     else if pf \<noteq> '''' \<and> sf = pf then False
     else relation_between lower rels sf pf < 0)"

definition ai_squad_allowed_to_fight :: "safe_zone list \<Rightarrow> squad \<Rightarrow> bool" where
  "ai_squad_allowed_to_fight zones s = (case sq_pos s of (x, y, z) \<Rightarrow> check_safe_zone zones x y z (sq_level s) = None)"

record ai_view =
  av_ptr :: ptr
  av_id :: u32
  av_level :: string
  av_pos :: vec3
  av_faction :: string
  av_health :: f32
  av_safe :: bool
  av_pending :: bool
  av_last :: gotime

definition ai_view_of :: "world \<Rightarrow> ptr \<Rightarrow> ai_view" where
  "ai_view_of w p = (let s = sess_of w p in
     \<lparr>av_ptr = p, av_id = p_id s, av_level = p_level s, av_pos = p_pos s, av_faction = p_faction s, av_health = p_health s,
      av_safe = (p_in_safe_zone s \<or> zone_at (wd_zones w) s \<noteq> None), av_pending = p_pending_create s,
      av_last = p_last_ai_sent s\<rparr>)"

definition combat_targets :: "ai_view list \<Rightarrow> combat_target list" where
  "combat_targets vs = map (\<lambda>v. \<lparr>ct_id = av_id v, ct_level = av_level v, ct_pos = av_pos v, ct_faction = av_faction v\<rparr>)
     (filter (\<lambda>v. \<not> (fle (av_health v) (Fin 0) \<or> av_pending v \<or> av_safe v)) vs)"

section \<open>Delivering damage\<close>

definition op_damage_notify :: u16 where "op_damage_notify = 0x50"

definition damage_fields :: "damage_notify \<Rightarrow> field list" where
  "damage_fields d = [U32 (dn_target d), U32 (dn_attacker d), F32 (dn_damage d), U8 (dn_bone d)]"

definition flush_player_death :: "env \<Rightarrow> ptr \<Rightarrow> handler" where
  "flush_player_death env p sv = (let s = sv_heap sv p in
     if flt (Fin 0) (p_health s) \<or> p_account s = '''' then sv
     else persist_death env (p_account s) (p_pos s) (fst (p_rot s)) sv)"

definition judge_hit :: "host \<Rightarrow> ptr \<Rightarrow> ptr \<Rightarrow> damage_notify \<Rightarrow> world \<Rightarrow> (string + f32) \<times> world" where
  "judge_hit ho attacker target d w = (let sv = wd_sv w in
     case validate_and_apply_damage (en_now (ho_env ho)) (ho_lower ho) (Some (sv_groups sv)) (wd_los w) (Some attacker)
       (Some target) (Some d) (sv_heap sv, wd_damage w) of
     (r, h, dh) \<Rightarrow> (r, w\<lparr>wd_sv := sv\<lparr>sv_heap := h\<rparr>, wd_damage := dh\<rparr>))"

text \<open>One swing: the squad's proxy session attacks through the handler that judges players' hits.\<close>

definition apply_ai_attack :: "host \<Rightarrow> attack_event \<Rightarrow> world \<Rightarrow> world" where
  "apply_ai_attack ho atk w = (case get_by_id (ev_target atk) (sv_sessions (wd_sv w)) of
     None \<Rightarrow> w
   | Some target \<Rightarrow> (case repl_entity_id (ev_squad atk) (wd_repl w) of
       None \<Rightarrow> w
     | Some e \<Rightarrow> let env = ho_env ho;
         d = \<lparr>dn_target = ev_target atk, dn_attacker = e, dn_damage = ev_damage atk, dn_bone = 0\<rparr>;
         (proxy, w1) = new_ptr (zero_session\<lparr>p_id := e, p_level := ev_level atk, p_pos := ev_pos atk,
           p_faction := ev_faction atk, p_health := Fin 100\<rparr>) w
       in (case judge_hit ho proxy target d w1 of
            (Inl reason, w2) \<Rightarrow> audit_damage_rejected env e reason w2
          | (Inr applied, w2) \<Rightarrow>
              on_sv (flush_player_death env target) (audit_damage_accepted env e (ev_target atk) applied
                (on_sv (reply env op_damage_notify (damage_fields (d\<lparr>dn_damage := applied\<rparr>)) target) w2)))))"

definition apply_ai_attacks :: "host \<Rightarrow> attack_event list \<Rightarrow> world \<Rightarrow> world" where
  "apply_ai_attacks ho evs w = fold (apply_ai_attack ho) evs w"

definition broadcast_puppet_health :: "host \<Rightarrow> u32 \<Rightarrow> world \<Rightarrow> world" where
  "broadcast_puppet_health ho i w = (case (get_puppet_state i (wd_squads w), repl_entity_id i (wd_repl w)) of
     (Some st, Some e) \<Rightarrow> on_sv (\<lambda>sv. fold (\<lambda>sid sv. case get_by_id sid (sv_sessions sv) of
         None \<Rightarrow> sv
       | Some p \<Rightarrow> reply (ho_env ho) op_entity_enter_aoi (entity_enter_fields (build_entity_enter_from_state st e)) p sv)
         (visible_sessions (ho_order ho) i (wd_repl w)) sv) w
   | _ \<Rightarrow> w)"

definition handle_puppet_damage :: "host \<Rightarrow> ptr \<Rightarrow> u32 \<Rightarrow> damage_notify \<Rightarrow> world \<Rightarrow> world" where
  "handle_puppet_damage ho attacker aid d w = (case squad_id_for_entity (ho_order ho) (dn_target d) (wd_repl w) of
     None \<Rightarrow> w
   | Some i \<Rightarrow> (case get_puppet_state i (wd_squads w) of
       None \<Rightarrow> w
     | Some st \<Rightarrow> if ps_state st = ADead then w else
         let env = ho_env ho; sv = wd_sv w in
         (case validate_and_apply_puppet_damage (en_now env) (wd_los w) (Some attacker) (ps_level st) (ps_pos st) (Some d)
             (sv_heap sv, wd_damage w) of
           (Inl reason, h, dh) \<Rightarrow> audit_damage_rejected env aid reason (w\<lparr>wd_sv := sv\<lparr>sv_heap := h\<rparr>, wd_damage := dh\<rparr>)
         | (Inr applied, h, dh) \<Rightarrow> let w1 = w\<lparr>wd_sv := sv\<lparr>sv_heap := h\<rparr>, wd_damage := dh\<rparr> in
             (case apply_puppet_damage i applied (wd_squads w1) of
               ((_, dead, ok), m) \<Rightarrow> let w2 = w1\<lparr>wd_squads := m\<rparr> in
                 if \<not> ok then w2 else
                   let w3 = audit_damage_accepted env aid (dn_target d) applied w2 in
                   if dead then w3 else broadcast_puppet_health ho i w3))))"

section \<open>What one session sees\<close>

type_synonym candidate = "puppet_state \<times> f32"
type_synonym ai_pass = "aoi \<times> server \<times> ai_repl"

definition cand_before :: "candidate \<Rightarrow> candidate \<Rightarrow> bool" where
  "cand_before a b \<longleftrightarrow> (if snd a \<noteq> snd b then flt (snd a) (snd b) else ps_id (fst a) < ps_id (fst b))"

fun cand_insert :: "candidate \<Rightarrow> candidate list \<Rightarrow> candidate list" where
  "cand_insert c [] = [c]"
| "cand_insert c (d # ds) = (if cand_before c d then c # d # ds else d # cand_insert c ds)"

definition nearest_candidates :: "candidate list \<Rightarrow> candidate list" where
  "nearest_candidates cs = fold cand_insert cs []"

text \<open>In range with hysteresis: the leave radius, and the enter radius too unless it is visible already.\<close>

definition candidates :: "ai_repl \<Rightarrow> puppet_state list \<Rightarrow> u32 set \<Rightarrow> ai_view \<Rightarrow> candidate list" where
  "candidates a puppets vis v = filter (\<lambda>(p, d). ps_level p = av_level v \<and>
       \<not> flt (mul32 (ar_leave a) (ar_leave a)) d \<and>
       \<not> (ps_id p \<notin> vis \<and> flt (mul32 (ar_enter a) (ar_enter a)) d))
     (map (\<lambda>p. (p, dist_sq_2d (ps_pos p) (av_pos v))) puppets)"

definition ai_leave :: "env \<Rightarrow> (u32 \<Rightarrow> u32 option) \<Rightarrow> ai_view \<Rightarrow> u32 \<Rightarrow> ai_pass \<Rightarrow> ai_pass" where
  "ai_leave env ids v i st = (case st of (m, sv, a) \<Rightarrow>
     (case (case ids i of None \<Rightarrow> (m, sv) | Some e \<Rightarrow> notify_entity_leave env (av_ptr v) e (m, sv)) of
       (m1, sv1) \<Rightarrow> (m1, sv1, clear_visible (av_id v) i a)))"

definition ai_enter :: "env \<Rightarrow> (u32 \<Rightarrow> u32 option) \<Rightarrow> ai_view \<Rightarrow> candidate \<Rightarrow> ai_pass \<Rightarrow> ai_pass" where
  "ai_enter env ids v c st = (case st of (m, sv, a) \<Rightarrow> (case mark_visible (av_id v) (ps_id (fst c)) a of (newly, a1) \<Rightarrow>
     if \<not> newly then (m, sv, a1) else
     case ids (ps_id (fst c)) of
       None \<Rightarrow> (m, sv, clear_visible (av_id v) (ps_id (fst c)) a1)
     | Some e \<Rightarrow> (case notify_entity_enter env (av_ptr v) (ai_entity_info (fst c) e) (m, sv) of
         (m1, sv1) \<Rightarrow> (m1, sv1, a1))))"

definition op_ai_state :: u16 where "op_ai_state = 0x7C"

definition zero_ai_entry :: ai_entry where
  "zero_ai_entry = \<lparr>ai_entity_id = 0, ai_x = Fin 0, ai_y = Fin 0, ai_z = Fin 0, ai_yaw = 0, ai_anim = 0\<rparr>"

definition ai_entry_for :: "(u32 \<Rightarrow> u32 option) \<Rightarrow> candidate \<Rightarrow> ai_entry" where
  "ai_entry_for ids c = (let p = fst c in case (ids (ps_id p), ps_pos p) of
     (None, _) \<Rightarrow> zero_ai_entry
   | (Some e, (x, y, z)) \<Rightarrow> \<lparr>ai_entity_id = e, ai_x = x, ai_y = y, ai_z = z, ai_yaw = yaw_to_wire (ps_yaw p),
       ai_anim = anim_to_wire (ps_anim p)\<rparr>)"

definition ai_chunk :: "(u32 \<Rightarrow> u32 option) \<Rightarrow> candidate list \<Rightarrow> payload" where
  "ai_chunk ids cs = PAI \<lparr>ap_count = word_of_nat (length cs),
     ap_entries = map (ai_entry_for ids) cs @ replicate (32 - length cs) zero_ai_entry\<rparr>"

definition ai_state_min_interval :: duration where
  "ai_state_min_interval = second div 30"

definition stream_ai_state :: "env \<Rightarrow> gotime \<Rightarrow> (u32 \<Rightarrow> u32 option) \<Rightarrow> ai_view \<Rightarrow> candidate list \<Rightarrow> handler" where
  "stream_ai_state env now ids v cs sv =
     (if cs = [] \<or> time_sub now (av_last v) < ai_state_min_interval then sv
      else upd_session (av_ptr v) (\<lambda>s. s\<lparr>p_last_ai_sent := now\<rparr>)
        (fold (\<lambda>c. send_to_session env op_ai_state flag_unreliable (ai_chunk ids c) (av_ptr v)) (chunks32 cs) sv))"

text \<open>The nearest that fit under the cap, and the rest.\<close>

definition kept_candidates :: "int \<Rightarrow> candidate list \<Rightarrow> candidate list" where
  "kept_candidates maxn cs = (if 0 < maxn \<and> maxn < int (length cs) then take (nat maxn) cs else cs)"

definition dropped_candidates :: "int \<Rightarrow> candidate list \<Rightarrow> candidate list" where
  "dropped_candidates maxn cs = (if 0 < maxn \<and> maxn < int (length cs) then drop (nat maxn) cs else [])"

definition view_pass :: "host \<Rightarrow> gotime \<Rightarrow> (u32 \<Rightarrow> u32 option) \<Rightarrow> puppet_state list \<Rightarrow> ai_view \<Rightarrow> ai_pass \<Rightarrow> ai_pass" where
  "view_pass ho now ids puppets v st = (case st of (m, sv, a) \<Rightarrow> let
       env = ho_env ho;
       visible = visible_ids_into (ho_order ho) (av_id v) a;
       cands = candidates a puppets (set visible) v;
       in_range = (\<lambda>c. ps_id (fst c)) ` set cands;
       st1 = fold (ai_leave env ids v) (filter (\<lambda>i. i \<notin> in_range) visible) st;
       near = nearest_candidates cands;
       st2 = fold (ai_leave env ids v) (filter (\<lambda>i. i \<in> set visible)
           (map (\<lambda>c. ps_id (fst c)) (dropped_candidates (ar_max a) near))) st1;
       near1 = kept_candidates (ar_max a) near
     in (case fold (ai_enter env ids v) near1 st2 of (m3, sv3, a3) \<Rightarrow> (m3, stream_ai_state env now ids v near1 sv3, a3)))"

section \<open>The tick\<close>

definition release_ai_squad :: "u32 \<Rightarrow> world \<Rightarrow> world" where
  "release_ai_squad i w = (let w1 = (case repl_entity_id i (wd_repl w) of
       None \<Rightarrow> w
     | Some e \<Rightarrow> clear_damage_audit e (w\<lparr>wd_damage := clear_budget e (wd_damage w)\<rparr>))
     in w1\<lparr>wd_repl := repl_release i (wd_repl w1)\<rparr>)"

definition online_squads :: "ai_repl \<Rightarrow> ai_view list \<Rightarrow> puppet_state list \<Rightarrow> u32 \<Rightarrow> bool" where
  "online_squads a vs puppets i = list_ex (\<lambda>p. ps_id p = i \<and> list_ex (\<lambda>v. ps_level p = av_level v \<and>
     fle (dist_sq_2d (ps_pos p) (av_pos v)) (mul32 (ar_leave a) (ar_leave a))) vs) puppets"

definition puppets_of :: "host \<Rightarrow> world \<Rightarrow> puppet_state list" where
  "puppets_of ho w = snapshot_puppets (ho_order ho (dom (sqm_squads (wd_squads w)))) (wd_squads w)"

definition combat_step_of :: "host \<Rightarrow> ai_view list \<Rightarrow> world \<Rightarrow> combat_step" where
  "combat_step_of ho vs w = \<lparr>cs_enabled = ac_enabled (wd_combat w), cs_params = ac_params (wd_combat w),
     cs_hostile = Some (ai_hostile_to_player (ho_lower ho) (wd_relations w)),
     cs_gate = Some (ai_squad_allowed_to_fight (wd_zones w)),
     cs_targets = (if ac_enabled (wd_combat w) then combat_targets vs else [])\<rparr>"

definition step_squads :: "host \<Rightarrow> gotime \<Rightarrow> ai_view list \<Rightarrow> world \<Rightarrow> u32 list \<times> world" where
  "step_squads ho now vs w = (let m = wd_squads w; ro = ho_order ho (dom (sqm_squads m));
       online = online_squads (wd_repl w) vs (puppets_of ho w) in
     if ac_enabled (wd_combat w)
     then (case tick_puppets_with_combat (ho_trig ho) now online (combat_step_of ho vs w) ro m of
       (m1, despawned, attacks) \<Rightarrow> (despawned, apply_ai_attacks ho attacks (w\<lparr>wd_squads := m1\<rparr>)))
     else (case tick_puppets (ho_trig ho) now online ro m of (m1, despawned) \<Rightarrow> (despawned, w\<lparr>wd_squads := m1\<rparr>)))"

definition replicate_views :: "host \<Rightarrow> gotime \<Rightarrow> (u32 \<Rightarrow> u32 option) \<Rightarrow> ai_view list \<Rightarrow> world \<Rightarrow> world" where
  "replicate_views ho now ids vs w =
     (case fold (view_pass ho now ids (puppets_of ho w)) vs
         (wd_aoi w, wd_sv w, retain_sessions (set (map av_id vs)) (wd_repl w)) of
       (m, sv, a) \<Rightarrow> w\<lparr>wd_aoi := m, wd_sv := sv, wd_repl := a\<rparr>)"

definition tick_ai_replication :: "host \<Rightarrow> gotime \<Rightarrow> world \<Rightarrow> world" where
  "tick_ai_replication ho now w =
     (if \<not> ai_enabled_or_default (sv_cfg (wd_sv w)) \<or> repl_count (wd_repl w) = 0 then w
      else let vs = map (ai_view_of w) (get_all (sv_sessions (wd_sv w)));
          ids = ar_ids (wd_repl w);
          (despawned, w1) = step_squads ho now vs w;
          w2 = (if sv_online (wd_sv w1) then replicate_views ho now ids vs w1 else w1)
        in fold release_ai_squad despawned w2)"

end
