(* ===== verification/Dispatch.thy ===== *)
theory Dispatch
  imports Handshake AiTick
begin

text \<open>
  \<open>HandlePacket\<close> of internal/game/server.go: the acknowledgement, the replay gate and every case of the
  dispatch. One definition per case, named after its opcode; the item, container, stash and trade cases are those
  of ItemHandlers. \<open>None\<close>: the call does not return.
\<close>

section \<open>Leaving\<close>

definition exposed_at_disconnect :: "env \<Rightarrow> player_session \<Rightarrow> bool" where
  "exposed_at_disconnect env s \<longleftrightarrow> \<not> p_in_safe_zone s \<or> is_in_combat (en_now env) s"

definition handle_disconnect :: "host \<Rightarrow> udp_addr \<Rightarrow> world \<Rightarrow> world option" where
  "handle_disconnect ho a w = (case session_at a w of
     None \<Rightarrow> Some w
   | Some p \<Rightarrow> let env = ho_env ho; s = sess_of w p; sid = p_id s;
       w1 = on_sv (remove_from_group env p \<circ> persist_exit env s) w;
       w2 = aoi_forget sid (on_sv (upd_grid (grid_remove sid)) w1) in
       map_option (\<lambda>w3. let w4 = on_sv (drop_session ho sid \<circ> broadcast_entity_leave env sid (p_level s)) w3
           in on_sv (purge_addr ho (addr_string a)) (clear_session_tracking ho sid w4))
         (leave_sleeper env (exposed_at_disconnect env s) s w2))"

section \<open>Being there\<close>

definition op_heartbeat :: u16 where "op_heartbeat = 4"

definition touch :: "env \<Rightarrow> ptr \<Rightarrow> handler" where
  "touch env p = upd_session p (\<lambda>s. s\<lparr>p_last_seen := en_now env\<rparr>)"

definition handle_heartbeat :: "host \<Rightarrow> udp_addr \<Rightarrow> bytes \<Rightarrow> world \<Rightarrow> world" where
  "handle_heartbeat ho a buf w = (let env = ho_env ho in case session_at a w of
     None \<Rightarrow> w
   | Some p \<Rightarrow> let w1 = on_sv (touch env p) w in
       (case read_heartbeat buf of None \<Rightarrow> w1
        | Some (hb, _) \<Rightarrow> on_sv (send_to_session env op_heartbeat flag_unreliable (PStruct (heartbeat_fields hb)) p) w1))"

definition op_client_transform :: u16 where "op_client_transform = 0x10"

definition hundredths :: "(rat \<Rightarrow> gofloat) \<Rightarrow> i16 \<Rightarrow> gofloat" where
  "hundredths r v = fdiv_const r (Fin (of_int (sint v))) 100"

definition out_of_bounds :: "rat \<Rightarrow> gofloat \<Rightarrow> bool" where
  "out_of_bounds m x \<longleftrightarrow> is_nan x \<or> is_inf x \<or> flt (Fin m) (fabs x)"

definition is_valid_transform :: "client_transform \<Rightarrow> bool" where
  "is_valid_transform ct \<longleftrightarrow> \<not> list_ex (out_of_bounds 10000) [ct_x ct, ct_y ct, ct_z ct] \<and>
     \<not> list_ex (out_of_bounds 1000) (map (hundredths rnd64) [ct_vel_x ct, ct_vel_y ct, ct_vel_z ct])"

definition moved_by :: "env \<Rightarrow> client_transform \<Rightarrow> player_session \<Rightarrow> player_session" where
  "moved_by env ct s = s\<lparr>p_pos := (ct_x ct, ct_y ct, ct_z ct),
     p_rot := (hundredths rnd32 (ct_yaw ct), hundredths rnd32 (ct_pitch ct)),
     p_vel := (hundredths rnd32 (ct_vel_x ct), hundredths rnd32 (ct_vel_y ct), hundredths rnd32 (ct_vel_z ct)),
     p_anim_flags := ct_anim_flags ct, p_gvid := ct_gvid ct, p_last_seen := en_now env, p_dirty := True\<rparr>"

definition cross_safe_zone :: "host \<Rightarrow> ptr \<Rightarrow> bool \<Rightarrow> f32 \<Rightarrow> world \<Rightarrow> world" where
  "cross_safe_zone ho p was_safe health w = (let env = ho_env ho; s = sess_of w p; sz = zone_at (wd_zones w) s in
     if (sz \<noteq> None) = was_safe then w else
     let w1 = on_sv (reply env op_safezone_state (safezone_fields sz) p \<circ> upd_session p (set_zone sz)) w in
     if p_account s = '''' then w1
     else on_sv (upd_session p (\<lambda>s. s\<lparr>p_last_checkpoint := en_now env, p_dirty := False\<rparr>))
       (queue_player_transform env (p_account s) (p_pos s) (fst (p_rot s)) health w1))"

definition handle_client_transform :: "host \<Rightarrow> udp_addr \<Rightarrow> bytes \<Rightarrow> world \<Rightarrow> world" where
  "handle_client_transform ho a buf w = (let env = ho_env ho in case read_client_transform buf of
     None \<Rightarrow> w
   | Some (ct, _) \<Rightarrow> if \<not> is_valid_transform ct then w else (case session_at a w of
       None \<Rightarrow> w
     | Some p \<Rightarrow> let s = sess_of w p; req = session_id_of (ct_session_id ct) in
       if req \<noteq> 0 \<and> \<not> authenticate_session_packet (Some s) req 0 then w
       else cross_safe_zone ho p (p_in_safe_zone s) (p_health s)
         (on_sv ((snd \<circ> maybe_broadcast_entity_enter env p) \<circ> upd_grid (grid_update (p_id s) (ct_x ct) (ct_z ct)) \<circ>
           upd_session p (moved_by env ct)) w)))"

section \<open>Talking\<close>

definition trim_left_blank :: "string \<Rightarrow> string" where
  "trim_left_blank s = dropWhile (\<lambda>c. c = CHR '' '' \<or> c = CHR 0x09 \<or> c = CHR 0x0A) s"

definition handle_chat :: "host \<Rightarrow> udp_addr \<Rightarrow> bytes \<Rightarrow> world \<Rightarrow> world" where
  "handle_chat ho a buf w = (let env = ho_env ho in case read_chat_text buf of
     None \<Rightarrow> w
   | Some (pkt, _) \<Rightarrow> (case session_at a w of
       None \<Rightarrow> w
     | Some p \<Rightarrow> let s = sess_of w p in
       if tx_sender pkt = 0 \<or> tx_sender pkt \<noteq> p_id s then w
       else (case allow_chat (en_now env) s of (ok, s1) \<Rightarrow> let w1 = on_sv (upd_session p (\<lambda>_. s1)) w in
         if \<not> ok then w1 else
           let text = sanitize_chat_text (en_uprint env) (take (unat (tx_len pkt)) (tx_text pkt));
               cmd = trim_left_blank text
           in if cmd \<noteq> [] \<and> hd cmd = CHR ''/''
              then on_sv (handle_chat_command env (ho_lower ho) (ho_fold_eq ho) p cmd) w1
              else on_sv (broadcast_chat env (tx_sender pkt) text) w1)))"

definition handle_group_response :: "host \<Rightarrow> udp_addr \<Rightarrow> bytes \<Rightarrow> world \<Rightarrow> world" where
  "handle_group_response ho a buf w = (let env = ho_env ho in case read_group_response buf of
     None \<Rightarrow> w
   | Some (resp, _) \<Rightarrow> (case session_at a w of
       None \<Rightarrow> w
     | Some p \<Rightarrow> (case allow_chat (en_now env) (sess_of w p) of (ok, s1) \<Rightarrow>
         let w1 = on_sv (upd_session p (\<lambda>_. s1)) w in
         if \<not> ok then w1
         else on_sv (if gp_accept resp = 1 then group_accept env p else group_decline env p) w1)))"

section \<open>Fighting\<close>

definition damage_schema :: "field_type list" where
  "damage_schema = [TU32, TU32, TF32, TU8]"

definition damage_of :: "field list \<Rightarrow> damage_notify" where
  "damage_of fs = \<lparr>dn_target = as_u32 (fs ! 0), dn_attacker = as_u32 (fs ! 1), dn_damage = as_f32 (fs ! 2),
     dn_bone = as_u8 (fs ! 3)\<rparr>"

definition read_damage :: "bytes \<Rightarrow> (damage_notify \<times> bytes) option" where
  "read_damage = read_struct damage_schema damage_of"

definition sleeper_target :: "world \<Rightarrow> sleeper \<Rightarrow> player_session" where
  "sleeper_target w sl = (case sl_pos sl of (x, y, z) \<Rightarrow> zero_session\<lparr>p_id := sl_id sl, p_level := sl_level sl,
     p_pos := sl_pos sl, p_health := sl_health sl, p_faction := sl_faction sl,
     p_in_safe_zone := (check_safe_zone (wd_zones w) x y z (sl_level sl) \<noteq> None)\<rparr>)"

definition bury_sleeper :: "host \<Rightarrow> u32 \<Rightarrow> nat \<Rightarrow> world \<Rightarrow> world" where
  "bury_sleeper ho target q w = (let sl = slm_heap (wd_sleepers w) q in
     on_sv (upd_grid (grid_remove target) \<circ> persist_death (ho_env ho) (sl_account sl) (sl_pos sl) (fst (sl_rot sl)))
       (w\<lparr>wd_sleepers := snd (remove_sleeper target (wd_sleepers w))\<rparr>))"

definition damage_sleeper :: "host \<Rightarrow> ptr \<Rightarrow> u32 \<Rightarrow> nat \<Rightarrow> damage_notify \<Rightarrow> world \<Rightarrow> world" where
  "damage_sleeper ho attacker aid q d w = (let env = ho_env ho; sl = slm_heap (wd_sleepers w) q;
       (target, w1) = new_ptr (sleeper_target w sl) w in
     case judge_hit ho attacker target d w1 of
       (Inl reason, w2) \<Rightarrow> audit_damage_rejected env aid reason w2
     | (Inr applied, w2) \<Rightarrow> (case apply_sleeper_damage (dn_target d) applied (wd_sleepers w2) of
         ((_, dead), m) \<Rightarrow> let w3 = audit_damage_accepted env aid (sl_id sl) applied (w2\<lparr>wd_sleepers := m\<rparr>) in
           if dead then bury_sleeper ho (dn_target d) q w3 else w3))"

definition damage_player :: "host \<Rightarrow> ptr \<Rightarrow> u32 \<Rightarrow> ptr \<Rightarrow> damage_notify \<Rightarrow> world \<Rightarrow> world" where
  "damage_player ho attacker aid target d w = (let env = ho_env ho in case judge_hit ho attacker target d w of
       (Inl reason, w1) \<Rightarrow> audit_damage_rejected env aid reason w1
     | (Inr applied, w1) \<Rightarrow> let tid = p_id (sess_of w1 target);
         out = d\<lparr>dn_attacker := aid, dn_target := tid, dn_damage := applied\<rparr>;
         w2 = audit_damage_accepted env aid tid applied (on_sv (reply env op_damage_notify (damage_fields out) target) w1);
         t = sess_of w2 target in
       if fle (p_health t) (Fin 0)
       then on_sv (persist_death env (p_account t) (p_pos t) (fst (p_rot t))) w2 else w2)"

definition handle_damage :: "host \<Rightarrow> udp_addr \<Rightarrow> bytes \<Rightarrow> world \<Rightarrow> world" where
  "handle_damage ho a buf w = (case read_damage buf of
     None \<Rightarrow> w
   | Some (d, _) \<Rightarrow> (case session_at a w of
       None \<Rightarrow> w
     | Some attacker \<Rightarrow> let aid = p_id (sess_of w attacker) in
       if ai_entity_id_base \<le> dn_target d then handle_puppet_damage ho attacker aid d w
       else (case get_sleeper (dn_target d) (wd_sleepers w) of
         Some q \<Rightarrow> damage_sleeper ho attacker aid q d w
       | None \<Rightarrow> (case get_by_id (dn_target d) (sv_sessions (wd_sv w)) of
           None \<Rightarrow> w
         | Some target \<Rightarrow> damage_player ho attacker aid target d w))))"

section \<open>Travelling\<close>

definition travelled :: "string \<Rightarrow> player_session \<Rightarrow> player_session" where
  "travelled level s = s\<lparr>p_level := level, p_vel := (Fin 0, Fin 0, Fin 0), p_in_safe_zone := False, p_safe_zone_id := ''''\<rparr>"

definition arrive :: "host \<Rightarrow> ptr \<Rightarrow> u32 \<Rightarrow> string \<Rightarrow> handler" where
  "arrive ho p sid old sv = (let env = ho_env ho in
     (send_world_items_in_aoi env p \<circ> send_existing_peers env p \<circ>
      upd_session p (\<lambda>s. s\<lparr>p_gvid := 0, p_enter_level := ''''\<rparr>) \<circ> broadcast_entity_leave env sid old) sv)"

definition handle_level_change :: "host \<Rightarrow> udp_addr \<Rightarrow> bytes \<Rightarrow> world \<Rightarrow> world" where
  "handle_level_change ho a buf w = (let env = ho_env ho in case read_level_change buf of
     None \<Rightarrow> w
   | Some (lvl, _) \<Rightarrow> (case session_at a w of
       None \<Rightarrow> w
     | Some p \<Rightarrow> let s = sess_of w p; level = null_term_string (lc_level lvl) in
       if p_pending_create s then w
       else if level = '''' \<or> 31 < length level \<or> \<not> printable_level_name (en_uprint env) level then w
       else let sid = p_id s;
         w1 = aoi_forget sid (on_sv (upd_grid (grid_update sid (fst (p_pos s)) (snd (snd (p_pos s)))) \<circ>
                upd_session p (travelled level)) w);
         w2 = w1\<lparr>wd_repl := repl_forget_session sid (wd_repl w1)\<rparr>;
         w3 = (if p_level s = level then w2 else on_sv (arrive ho p sid (p_level s)) w2)
       in on_sv (send_safezone_state env (wd_zones w3) p \<circ> sync_inventory_for_level env p) w3))"

definition overwrite :: "string \<Rightarrow> string \<Rightarrow> string" where
  "overwrite old new = take (length old) (new @ drop (length new) old)"

definition wear :: "string \<Rightarrow> player_session \<Rightarrow> player_session" where
  "wear visual s = s\<lparr>p_visual := overwrite (p_visual s) visual, p_has_visual := True,
     p_visual_rev := (if visual \<noteq> null_term_string (p_visual s) then p_visual_rev s + 1 else p_visual_rev s)\<rparr>"

definition handle_player_visual :: "host \<Rightarrow> udp_addr \<Rightarrow> bytes \<Rightarrow> world \<Rightarrow> world" where
  "handle_player_visual ho a buf w = (let env = ho_env ho in case read_player_visual buf of
     None \<Rightarrow> w
   | Some (pv, _) \<Rightarrow> (case session_at a w of
       None \<Rightarrow> w
     | Some p \<Rightarrow> let visual = sanitize_visual (en_uprint env) (null_term_string (pv_visual pv)) in
       if visual = '''' then w
       else on_sv ((snd \<circ> maybe_broadcast_entity_enter env p) \<circ> upd_session p (wear visual)) w))"

section \<open>Acknowledging\<close>

definition handle_ack :: "host \<Rightarrow> udp_addr \<Rightarrow> bytes \<Rightarrow> world \<Rightarrow> world" where
  "handle_ack ho a buf w = (let w1 = (case session_at a w of None \<Rightarrow> w | Some p \<Rightarrow> on_sv (touch (ho_env ho) p) w) in
     case get_struct [TU32] buf of
       None \<Rightarrow> w1
     | Some (fs, _) \<Rightarrow> let seq = as_u32 (fs ! 0) in
         if seq = 0 then w1
         else on_sv (\<lambda>sv. sv\<lparr>sv_acks := fst (acknowledge_from seq (Some a) (sv_acks sv))\<rparr>) w1)"

section \<open>The dispatch\<close>

definition op_handshake_req :: u16 where "op_handshake_req = 1"
definition op_server_query :: u16 where "op_server_query = 6"

definition reliable :: "packet_header \<Rightarrow> bool" where
  "reliable hdr \<longleftrightarrow> h_flags hdr AND flag_reliable \<noteq> 0"

text \<open>\<open>None\<close>: the packet is a replay or stale and dropped.\<close>

definition replay_gate :: "packet_header \<Rightarrow> udp_addr \<Rightarrow> world \<Rightarrow> world option" where
  "replay_gate hdr a w = (case session_at a w of
     None \<Rightarrow> Some w
   | Some p \<Rightarrow> if h_opcode hdr = op_ack then Some w
       else if reliable hdr \<or> h_opcode hdr = op_heartbeat \<or> h_opcode hdr = op_client_transform
       then if h_seq hdr \<le> p_last_sequence (sess_of w p) then None
            else Some (on_sv (upd_session p (\<lambda>s. s\<lparr>p_last_sequence := h_seq hdr\<rparr>)) w)
       else Some w)"

definition dispatch :: "host \<Rightarrow> packet_header \<Rightarrow> udp_addr \<Rightarrow> bytes \<Rightarrow> world \<Rightarrow> world option" where
  "dispatch ho hdr a buf w = (let oc = h_opcode hdr; env = ho_env ho in
     if oc = op_handshake_req then handle_handshake ho a (h_seq hdr) buf w
     else if oc = op_disconnect then handle_disconnect ho a w
     else Some (
       if oc = op_heartbeat then handle_heartbeat ho a buf w
       else if oc = op_client_transform then handle_client_transform ho a buf w
       else if oc = op_chat_text then handle_chat ho a buf w
       else if oc = 0x79 then handle_group_response ho a buf w
       else if oc = op_damage_notify then handle_damage ho a buf w
       else if oc = 0x72 then handle_character_select ho a buf w
       else if oc = 0x74 then handle_level_change ho a buf w
       else if oc = 0x75 then handle_player_visual ho a buf w
       else if oc = 0x7D then on_sv (handle_item_action env a buf) w
       else if oc = 0x7F then on_sv (handle_container_action env a buf) w
       else if oc = 0x81 then on_sv (handle_stash_action env a buf) w
       else if oc = 0x83 then on_sv (handle_trade_action env a buf) w
       else if oc = op_ack then handle_ack ho a buf w
       else w))"

definition ack_inbound :: "packet_header \<Rightarrow> udp_addr \<Rightarrow> world \<Rightarrow> world" where
  "ack_inbound hdr a w = (if h_opcode hdr \<noteq> op_ack \<and> reliable hdr then on_sv (send_ack a (h_seq hdr)) w else w)"

definition handle_packet :: "host \<Rightarrow> bytes \<Rightarrow> udp_addr \<Rightarrow> world \<Rightarrow> world option" where
  "handle_packet ho data a w = (if length data < 12 then Some w else case read_packet_header data of
     None \<Rightarrow> Some w
   | Some (hdr, buf) \<Rightarrow> if h_magic hdr \<noteq> 0x5A4F then Some w
       else let w1 = ack_inbound hdr a w in
         if h_opcode hdr = op_server_query then Some (on_sv (handle_server_query a) w1)
         else (case replay_gate hdr a w1 of None \<Rightarrow> Some w1 | Some w2 \<Rightarrow> dispatch ho hdr a buf w2))"

end
