(* ===== verification/ServerTick.thy ===== *)
theory ServerTick
  imports Dispatch
begin

text \<open>
  One server tick: \<open>Tick\<close> of internal/game/server.go, which \<open>RunGameLoop\<close> of tick.go calls. A tick happens at the
  instant of its environment, which \<open>time.Now()\<close> answers within it too. Retransmissions are raw datagrams and
  logged apart from the packets the tick writes. \<open>None\<close>: a sleeper's id search does not end.
\<close>

section \<open>Timers\<close>

text \<open>The period of the game loop's ticker: a rate above a billion divides to 0, which \<open>NewTicker\<close> would panic on.\<close>

definition tick_interval :: "config option \<Rightarrow> duration" where
  "tick_interval cfg = (let d = (case cfg of None \<Rightarrow> 33333000
       | Some c \<Rightarrow> if 0 < cf_tick_rate_hz c then second div cf_tick_rate_hz c else 33333000)
     in if d \<le> 0 then 33333000 else d)"

definition credit_play_time :: "gotime \<Rightarrow> world \<Rightarrow> int \<times> world" where
  "credit_play_time now w = (let t0 = (case wd_credit w of None \<Rightarrow> now | Some t \<Rightarrow> t); elapsed = time_sub now t0 in
     if second \<le> elapsed then (elapsed div second, w\<lparr>wd_credit := Some (t0 + (elapsed div second) * second)\<rparr>)
     else (0, w\<lparr>wd_credit := Some t0\<rparr>))"

definition tick_groups :: "host \<Rightarrow> world \<Rightarrow> world" where
  "tick_groups ho = on_sv (\<lambda>sv. let gm = sv_groups sv in
     upd_groups (group_tick (en_now (ho_env ho)) (ho_order ho (dom (gm_invites gm))) gm) sv)"

definition world_item_sweep_interval :: duration where
  "world_item_sweep_interval = 30 * second"

definition sweep_due :: "host \<Rightarrow> world \<Rightarrow> world" where
  "sweep_due ho w = (let env = ho_env ho; now = en_now env; ttl = world_item_ttl (wd_sv w) in
     if 0 < ttl \<and> (case wd_sweep w of None \<Rightarrow> True | Some t \<Rightarrow> world_item_sweep_interval \<le> time_sub now t)
     then on_sv (sweep_world_items env ttl) (w\<lparr>wd_sweep := Some now\<rparr>) else w)"

section \<open>Sleepers and sessions\<close>

definition sleeper_died :: "env \<Rightarrow> sleeper \<Rightarrow> handler" where
  "sleeper_died env sl = upd_grid (grid_remove (sl_id sl)) \<circ> persist_death env (sl_account sl) (sl_pos sl) (fst (sl_rot sl))"

definition sleeper_woke :: "env \<Rightarrow> sleeper \<Rightarrow> handler" where
  "sleeper_woke env sl sv = upd_grid (grid_remove (sl_id sl)) (if sl_account sl = '''' then sv
     else sync_flush env (sl_account sl) (sl_pos sl) (fst (sl_rot sl)) (sl_health sl) sv)"

definition tick_sleepers :: "host \<Rightarrow> world \<Rightarrow> world" where
  "tick_sleepers ho w = (let env = ho_env ho; m = wd_sleepers w in
     case sleeper_tick (en_now env) (ho_order ho (dom (slm_sleepers m))) m of
       (deaths, expiries, m1) \<Rightarrow>
         on_sv (fold (\<lambda>q. sleeper_woke env (slm_heap m1 q)) expiries \<circ> fold (\<lambda>q. sleeper_died env (slm_heap m1 q)) deaths)
           (w\<lparr>wd_sleepers := m1\<rparr>))"

definition stale :: "gotime \<Rightarrow> world \<Rightarrow> player_session \<Rightarrow> bool" where
  "stale now w s \<longleftrightarrow> session_timeout (wd_sv w) < time_sub now (p_last_seen s)"

definition exposed_at_timeout :: "gotime \<Rightarrow> world \<Rightarrow> player_session \<Rightarrow> bool" where
  "exposed_at_timeout now w s \<longleftrightarrow> \<not> (p_in_safe_zone s \<or> zone_at (wd_zones w) s \<noteq> None) \<or> is_in_combat now s"

definition expire_session :: "host \<Rightarrow> ptr \<Rightarrow> world \<Rightarrow> world option" where
  "expire_session ho p w = (let env = ho_env ho; s = sess_of w p; sid = p_id s;
       w1 = aoi_forget sid (on_sv (upd_grid (grid_remove sid) \<circ> remove_from_group env p) w);
       w2 = on_sv (drop_session ho sid \<circ> purge_session_addr ho s \<circ> broadcast_entity_leave env sid (p_level s)) w1;
       w3 = clear_session_tracking ho sid w2;
       w4 = (if p_dirty s \<or> fle (p_health s) (Fin 0) then on_sv (persist_exit env s) w3 else w3)
     in leave_sleeper env (exposed_at_timeout (en_now env) w s) s w4)"

definition checkpoint_session :: "host \<Rightarrow> int \<Rightarrow> ptr \<Rightarrow> world \<Rightarrow> world" where
  "checkpoint_session ho credit p w = (let env = ho_env ho; now = en_now env; s = sess_of w p; uuid = p_account s;
       w1 = (if 0 < credit \<and> uuid \<noteq> '''' then queue_periodic_stats env uuid credit w else w) in
     if should_checkpoint_session (Some s) now (60 * second) \<and> uuid \<noteq> ''''
     then on_sv (upd_session p (\<lambda>s. s\<lparr>p_last_checkpoint := now, p_dirty := False\<rparr>))
       (queue_player_transform env uuid (p_pos s) (fst (p_rot s)) (p_health s) w1)
     else w1)"

fun tick_sessions :: "host \<Rightarrow> int \<Rightarrow> ptr list \<Rightarrow> world \<Rightarrow> world option" where
  "tick_sessions ho credit [] w = Some w"
| "tick_sessions ho credit (p # ps) w =
     (case (if stale (en_now (ho_env ho)) w (sess_of w p) then expire_session ho p w
            else Some (checkpoint_session ho credit p w)) of
        None \<Rightarrow> None
      | Some w1 \<Rightarrow> tick_sessions ho credit ps w1)"

section \<open>Broadcasts\<close>

definition tick_emission :: "host \<Rightarrow> world \<Rightarrow> world" where
  "tick_emission ho w = (case emission_tick (en_now (ho_env ho)) (wd_emission w) of
     (e, None) \<Rightarrow> w\<lparr>wd_emission := e\<rparr>
   | (e, Some (state, timer)) \<Rightarrow> on_sv (emission_broadcast state timer) (w\<lparr>wd_emission := e\<rparr>))"

definition tick_acks :: "host \<Rightarrow> world \<Rightarrow> world" where
  "tick_acks ho w = (let sv = wd_sv w; aq = sv_acks sv in
     case ack_tick (en_now (ho_env ho)) (ho_order ho (dom (ack_queue.entries aq))) aq of
       (aq1, _, _, sends) \<Rightarrow> w\<lparr>wd_sv := sv\<lparr>sv_acks := aq1\<rparr>,
         wd_resent := (if sv_online sv then wd_resent w @ sends else wd_resent w)\<rparr>)"

definition tick_safezones :: "host \<Rightarrow> world \<Rightarrow> world" where
  "tick_safezones ho w = (let env = ho_env ho; now = en_now env in
     if 2 * second \<le> time_sub now (wd_safe_cast w)
     then on_sv (\<lambda>sv. fold (send_safezone_state env (wd_zones w)) (get_all (sv_sessions sv)) sv) (w\<lparr>wd_safe_cast := now\<rparr>)
     else w)"

definition server_tick :: "host \<Rightarrow> world \<Rightarrow> world option" where
  "server_tick ho w = (case credit_play_time (en_now (ho_env ho)) w of (credit, w1) \<Rightarrow>
     let w2 = tick_sleepers ho (sweep_due ho (tick_groups ho w1)) in
     map_option (\<lambda>w3. tick_safezones ho (tick_ai_replication ho (en_now (ho_env ho)) (tick_acks ho (tick_emission ho
         (on_sv (broadcast_snapshots (ho_env ho)) w3)))))
       (tick_sessions ho credit (get_all (sv_sessions (wd_sv w2))) w2))"

section \<open>Startup\<close>

definition group_limits :: "config option \<Rightarrow> int \<times> duration" where
  "group_limits cfg = (case cfg of None \<Rightarrow> (4, 60 * second)
     | Some c \<Rightarrow> (if 0 < cf_group_max_players c then cf_group_max_players c else 4,
         if 0 < cf_invite_ttl_sec c then wrap64 (cf_invite_ttl_sec c * second) else 60 * second))"

definition start_emission :: "gotime \<Rightarrow> config option \<Rightarrow> emission" where
  "start_emission now cfg = (let e = new_emission now [] in case cfg of None \<Rightarrow> e
     | Some c \<Rightarrow> if 0 < cf_emission_interval_min c
         then set_dormant_duration now (wrap64 (cf_emission_interval_min c * (60 * second))) e else e)"

definition start_damage :: "config option \<Rightarrow> damage_handler" where
  "start_damage cfg = (case cfg of None \<Rightarrow> new_damage_handler
     | Some c \<Rightarrow> if flt (Fin 0) (cf_damage_budget_per_s c)
         then set_damage_budget_per_s (cf_damage_budget_per_s c) new_damage_handler else new_damage_handler)"

definition start_ledger :: "config option \<Rightarrow> ledger" where
  "start_ledger cfg = new_ledger (case cfg of None \<Rightarrow> Fin 5
     | Some c \<Rightarrow> if flt (Fin 0) (cf_item_rate_per_s c) then cf_item_rate_per_s c else Fin 5)"

definition start_server :: "config option \<Rightarrow> database option \<Rightarrow> faults \<Rightarrow> server" where
  "start_server cfg db fl = \<lparr>sv_cfg = cfg, sv_db = db, sv_faults = fl, sv_heap = (\<lambda>_. zero_session),
     sv_sessions = new_session_manager, sv_grid = new_grid 64, sv_ledger = start_ledger cfg,
     sv_groups = (case group_limits cfg of (n, ttl) \<Rightarrow> new_group_manager n ttl),
     sv_acks = set_on_drop True (set_send_func True (new_ack_queue [])), sv_seq = 0, sv_online = False, sv_out = []\<rparr>"

text \<open>\<open>NewServer\<close>. The tables of safe zones and relations and the AI squads come loaded: what
  \<open>load_safe_zones\<close>, \<open>load_faction_relations\<close> and \<open>load_ai_squads\<close> answer.\<close>

definition new_world :: "host \<Rightarrow> config option \<Rightarrow> database option \<Rightarrow> faults \<Rightarrow> nat option \<Rightarrow> safe_zone list \<Rightarrow> relations \<Rightarrow>
    puppet_def list option \<Rightarrow> los_check \<Rightarrow> world" where
  "new_world ho cfg db fl cap zones rels squads los = (let now = en_now (ho_env ho);
       (enter, lv) = resolve_ai_radii cfg; a = new_ai_replication enter lv (resolve_ai_max_entities cfg);
       m = set_corpse_delay (resolve_ai_corpse_seconds cfg) new_squad_manager;
       ds = (if db = None \<or> \<not> ai_enabled_or_default cfg then [] else case squads of None \<Rightarrow> [] | Some ds \<Rightarrow> ds);
       (m1, a1) = fold (\<lambda>d st. snd (register_ai_puppet (ho_trig ho) d st)) ds (m, a)
     in \<lparr>wd_sv = start_server cfg db fl, wd_aoi = new_aoi, wd_damage = start_damage cfg, wd_reject_audit = Map.empty,
         wd_sleepers = new_sleeper_manager, wd_zones = zones, wd_relations = rels, wd_emission = start_emission now cfg,
         wd_squads = m1, wd_repl = a1, wd_combat = resolve_ai_combat cfg, wd_los = Some los, wd_sid_seq = 0,
         wd_queue_cap = cap, wd_queue = [], wd_credit = None, wd_sweep = None, wd_safe_cast = now, wd_fresh = 0,
         wd_resent = []\<rparr>)"

definition init_udp :: "world \<Rightarrow> world" where
  "init_udp = on_sv (\<lambda>sv. sv\<lparr>sv_online := True\<rparr>)"

text \<open>The last act of \<open>Run\<close>: every live client is told to disconnect.\<close>

definition shut_down :: "host \<Rightarrow> world \<Rightarrow> world" where
  "shut_down ho = on_sv (\<lambda>sv. fold (reply (ho_env ho) op_disconnect [U8 1]) (get_all (sv_sessions sv)) sv)"

end
