(* ===== verification/IndexFrame.thy ===== *)
theory IndexFrame
  imports ServerTick
begin

text \<open>
  What the handlers leave alone: the session manager, the configuration, and of every session object its id,
  account, address and last sequence number. \<open>calm a b\<close> says so of two servers; its rules (collection
  \<open>calm_intros\<close>) follow the shape of the handlers, so each handler's frame is one \<open>intro\<close>.
\<close>

named_theorems calm_intros \<open>a step keeps the session index\<close>

definition anchor :: "player_session \<Rightarrow> u32 \<times> string \<times> udp_addr option \<times> u32" where
  "anchor s = (p_id s, p_account s, p_addr s, p_last_sequence s)"

definition calm :: "server \<Rightarrow> server \<Rightarrow> bool" where
  "calm a b \<longleftrightarrow> sv_sessions b = sv_sessions a \<and> sv_cfg b = sv_cfg a \<and>
     (\<forall>p. anchor (sv_heap b p) = anchor (sv_heap a p))"

lemma calm_refl [simp, calm_intros]: "calm a a"
  by (simp add: calm_def)

lemma calm_trans: "calm a b \<Longrightarrow> calm b c \<Longrightarrow> calm a c"
  by (simp add: calm_def)

lemma calm_of: "(\<And>x. calm x (f x)) \<Longrightarrow> calm a b \<Longrightarrow> calm a (f b)"
  using calm_trans by blast

section \<open>Control\<close>

lemma calm_if [calm_intros]: "(P \<Longrightarrow> calm a x) \<Longrightarrow> (\<not> P \<Longrightarrow> calm a y) \<Longrightarrow> calm a (if P then x else y)"
  by simp

lemma calm_prod [calm_intros]: "(\<And>x y. calm a (f x y)) \<Longrightarrow> calm a (case z of (x, y) \<Rightarrow> f x y)"
  by (cases z) simp

lemma calm_opt [calm_intros]: "calm a x \<Longrightarrow> (\<And>v. calm a (f v)) \<Longrightarrow> calm a (case z of None \<Rightarrow> x | Some v \<Rightarrow> f v)"
  by (cases z) simp_all

lemma calm_sum: "(\<And>x. calm a (f x)) \<Longrightarrow> (\<And>y. calm a (g y)) \<Longrightarrow> calm a (case z of Inl x \<Rightarrow> f x | Inr y \<Rightarrow> g y)"
  by (cases z) simp_all

lemma calm_list: "calm a x \<Longrightarrow> (\<And>y ys. calm a (f y ys)) \<Longrightarrow> calm a (case zs of [] \<Rightarrow> x | y # ys \<Rightarrow> f y ys)"
  by (cases zs) simp_all

lemma calm_fold: "(\<And>x sv. calm a sv \<Longrightarrow> calm a (g x sv)) \<Longrightarrow> calm a b \<Longrightarrow> calm a (fold g xs b)"
  by (induction xs arbitrary: b) simp_all

lemma calm_db: "calm a b \<Longrightarrow> calm a (snd (with_db m b))"
  by (simp add: with_db_def calm_def split: option.split prod.split)

lemma calm_case [calm_intros]:
  assumes "calm a b" "\<And>e sv. calm a sv \<Longrightarrow> calm a (F e sv)" "\<And>x sv. calm a sv \<Longrightarrow> calm a (G x sv)"
  shows "calm a (case with_db m b of (r, sv) \<Rightarrow> (case r of Inl e \<Rightarrow> F e sv | Inr x \<Rightarrow> G x sv))"
  using calm_db [OF assms(1), of m] assms(2,3) by (auto split: prod.split sum.split)

lemma calm_tuple [calm_intros]: "calm a (snd z) \<Longrightarrow> (\<And>x y. calm a y \<Longrightarrow> calm a (f x y)) \<Longrightarrow> calm a (case z of (x, y) \<Rightarrow> f x y)"
  by (cases z) simp

section \<open>Steps\<close>

definition anchored :: "(player_session \<Rightarrow> player_session) \<Rightarrow> bool" where
  "anchored f \<longleftrightarrow> (\<forall>s. anchor (f s) = anchor s)"

lemma calm_upd [calm_intros]: "anchored f \<Longrightarrow> calm a b \<Longrightarrow> calm a (upd_session p f b)"
  by (auto simp: calm_def upd_session_def anchored_def)

lemma calm_send [calm_intros]: "calm a b \<Longrightarrow> calm a (send_to_session env oc fl pl p b)"
  by (simp add: calm_def)

lemma calm_reply [calm_intros]: "calm a b \<Longrightarrow> calm a (reply env oc fs p b)"
  by (simp add: reply_def calm_send)

lemma calm_datagram: "calm a b \<Longrightarrow> calm a (send_datagram x oc fs b)"
  by (simp add: send_datagram_def calm_def Let_def split: sum.split)

lemma calm_audit [calm_intros]: "calm a b \<Longrightarrow> calm a (audit env u e t b)"
  unfolding audit_def by (rule calm_db)

lemma calm_ledger [calm_intros]: "calm a b \<Longrightarrow> calm a (record_ledger f b)"
  by (simp add: record_ledger_def calm_def)

lemma calm_groups [calm_intros]: "calm a b \<Longrightarrow> calm a (upd_groups gm b)"
  by (simp add: upd_groups_def calm_def)

lemma calm_grid [calm_intros]: "calm a b \<Longrightarrow> calm a (upd_grid f b)"
  by (simp add: upd_grid_def calm_def)

lemma calm_purge [calm_intros]: "calm a b \<Longrightarrow> calm a (purge_addr ho x b)"
  by (simp add: purge_addr_def calm_def)

lemma calm_purge_session [calm_intros]: "calm a b \<Longrightarrow> calm a (purge_session_addr ho s b)"
  unfolding purge_session_addr_def by (intro calm_intros)

lemma calm_budget [calm_intros]: "calm a b \<Longrightarrow> (\<And>ok sv. calm a sv \<Longrightarrow> calm a (F ok sv)) \<Longrightarrow>
    calm a (case take_budget env sid b of (ok, sv) \<Rightarrow> F ok sv)"
  by (auto simp: take_budget_def calm_def split: prod.splits)

lemma anchored_fields [simp]:
  "anchored (\<lambda>s. s\<lparr>p_inv_synced_level := x\<rparr>)" "anchored (\<lambda>s. s\<lparr>p_last_seen := t\<rparr>)" "anchored (\<lambda>s. s\<lparr>p_last_ai_sent := t\<rparr>)"
  "anchored (\<lambda>s. s\<lparr>p_gvid := g, p_enter_level := l\<rparr>)" "anchored (\<lambda>s. s\<lparr>p_enter_level := l, p_enter_rev := r\<rparr>)"
  "anchored (\<lambda>s. s\<lparr>p_last_checkpoint := t, p_dirty := b\<rparr>)" "anchored (set_zone sz)" "anchored (moved_by env ct)"
  "anchored (travelled l)" "anchored (wear v)"
  by (simp_all add: anchored_def anchor_def set_zone_def moved_by_def travelled_def wear_def)

section \<open>Synchronisation\<close>

lemma calm_inventory_sync: "calm a b \<Longrightarrow> calm a (snd (send_inventory_sync env p b))"
  using calm_db [of a b "get_character_inventory (p_account (sv_heap b p))"]
  unfolding send_inventory_sync_def Let_def
  by (auto split: prod.split sum.split intro!: calm_fold intro: calm_send)

lemma calm_sync [calm_intros]: "calm a b \<Longrightarrow> calm a (sync_inventory_for_level env p b)"
  using calm_inventory_sync [of a b env p]
  unfolding sync_inventory_for_level_def Let_def by (auto split: prod.split intro: calm_upd)

lemma calm_force_sync [calm_intros]: "calm a b \<Longrightarrow> calm a (force_inventory_sync env p b)"
  unfolding force_inventory_sync_def by (intro calm_intros) simp

lemma calm_wallet [calm_intros]: "calm a b \<Longrightarrow> calm a (send_wallet_update env p b)"
  unfolding send_wallet_update_def Let_def by (intro calm_intros)

lemma calm_item_update [calm_intros]: "calm a b \<Longrightarrow> calm a (send_item_update env u p b)"
  unfolding send_item_update_def by (intro calm_intros)

lemma calm_send_all [calm_intros]: "calm a b \<Longrightarrow> calm a (send_all (send_item_update env u) ps b)"
  unfolding send_all_def by (intro calm_fold calm_intros) assumption+

lemma calm_world_items [calm_intros]: "calm a b \<Longrightarrow> calm a (send_world_items_in_aoi env p b)"
  unfolding send_world_items_in_aoi_def Let_def by (intro calm_intros calm_fold) assumption+

lemma calm_broadcast_item [calm_intros]: "calm a b \<Longrightarrow> calm a (broadcast_item_update env p l x z u b)"
  unfolding broadcast_item_update_def Let_def by (intro calm_intros)

lemma calm_sweep [calm_intros]: "calm a b \<Longrightarrow> calm a (sweep_world_items env ttl b)"
  unfolding sweep_world_items_def broadcast_world_item_removal_def by (intro calm_intros calm_fold) assumption+

section \<open>Item, container, stash and trade packets\<close>

lemma calm_correction: "calm a b \<Longrightarrow> calm a (snd (correction u s b))"
  using calm_db [of a b "available_item_count u s"] by (auto simp: correction_def split: prod.split sum.split)

lemma calm_corrected [calm_intros]:
  "calm a b \<Longrightarrow> calm a (snd (if P then case correction u s b of (n, sv) \<Rightarrow> (g n, sv) else (y, b)))"
  using calm_correction [of a b u s] by (simp add: split_def)

lemma calm_replies [calm_intros]:
  assumes "calm a b"
  shows "calm a (record_reply env p u b)" "calm a (reject_item env p pkt b)" "calm a (audit_kv env q e t b)"
    "calm a (record_reply_container env p cu b)" "calm a (reject_container env p cpkt b)"
    "calm a (record_reply_stash env p su b)" "calm a (reject_stash env p spkt r n b)"
    "calm a (stash_rejected env p q spkt t b)" "calm a (reply_container env cu p b)" "calm a (reply_stash_result env su p b)"
    "calm a (record_reply_trade env p tu b)" "calm a (reject_trade env p tpkt x b)" "calm a (reply_trade_result env tu p b)"
  using assms
  by (auto simp: record_reply_def reject_item_def audit_kv_def record_reply_container_def reject_container_def
      record_reply_stash_def reject_stash_def stash_rejected_def reply_container_def reply_stash_result_def
      record_reply_trade_def reject_trade_def reply_trade_result_def Let_def intro!: calm_intros)

lemma calm_item_packet: "calm sv (item_action_packet env p pkt sv)"
  unfolding item_action_packet_def apply_item_action_def handle_item_drop_def handle_item_pickup_def
    rejected_item_pickup_def handle_item_consume_def Let_def
  by (intro calm_intros) (assumption | rule calm_refl)+

lemma calm_container_packet: "calm sv (container_action_packet env p pkt sv)"
  unfolding container_action_packet_def apply_container_action_def container_deposit_def container_withdraw_def Let_def
  by (intro calm_intros) (assumption | rule calm_refl)+

lemma calm_stash_packet: "calm sv (stash_action_packet env p pkt sv)"
  unfolding stash_action_packet_def apply_stash_action_def stash_store_def stash_take_def Let_def
  by (intro calm_intros calm_correction) (assumption | rule calm_refl)+

lemma calm_trade_packet: "calm sv (trade_action_packet env p pkt sv)"
  unfolding trade_action_packet_def apply_trade_action_def trade_sell_def trade_buy_def Let_def
  by (intro calm_intros) (assumption | rule calm_refl)+

lemma calm_actions [calm_intros]:
  assumes "calm a b"
  shows "calm a (handle_item_action env x buf b)" "calm a (handle_container_action env x buf b)"
    "calm a (handle_stash_action env x buf b)" "calm a (handle_trade_action env x buf b)"
  using assms
  by (auto simp: handle_item_action_def handle_container_action_def handle_stash_action_def handle_trade_action_def
      intro: calm_trans calm_item_packet calm_container_packet calm_stash_packet calm_trade_packet split: option.split)

section \<open>Presence\<close>

lemma calm_send_ack [calm_intros]: "calm a b \<Longrightarrow> calm a (send_ack x seq b)"
  unfolding send_ack_def by (rule calm_datagram)

lemma calm_query [calm_intros]: "calm a b \<Longrightarrow> calm a (handle_server_query x b)"
  unfolding handle_server_query_def by (rule calm_datagram)

lemma calm_sends [calm_intros]:
  assumes "calm a b"
  shows "calm a (send_safezone_state env zs p b)" "calm a (send_load_level env p b)" "calm a (send_error env p c t b)"
    "calm a (send_chat_to_session env t p b)" "calm a (send_group env g p b)" "calm a (send_group_invite env q p b)"
    "calm a (send_group_state env p b)"
  using assms
  by (auto simp: send_safezone_state_def send_load_level_def send_error_def send_chat_to_session_def send_group_def
      send_group_invite_def send_group_state_def Let_def split: prod.split option.split intro!: calm_intros)

lemma calm_broadcasts [calm_intros]:
  assumes "calm a b"
  shows "calm a (broadcast_entity_enter env p b)" "calm a (broadcast_entity_leave env sid l b)"
    "calm a (send_existing_peers env p b)" "calm a (broadcast_chat env sid t b)" "calm a (broadcast_group_state env gid b)"
  using assms
  by (auto simp: broadcast_entity_enter_def broadcast_entity_leave_def send_existing_peers_def broadcast_chat_def
      broadcast_group_state_def Let_def intro!: calm_fold intro: calm_reply calm_sends)

lemma calm_maybe_enter [calm_intros]: "calm a b \<Longrightarrow> calm a (snd (maybe_broadcast_entity_enter env p b))"
  unfolding maybe_broadcast_entity_enter_def Let_def by (auto intro!: calm_intros)

lemma calm_notify_loop: "calm a b \<Longrightarrow> calm a (notify_roster_loop env gid is told b)"
  by (induction env gid "is" told b rule: notify_roster_loop.induct) (auto split: option.split simp: calm_sends)

lemma calm_roster [calm_intros]: "calm a b \<Longrightarrow> calm a (notify_group_roster env gid roster b)"
  unfolding notify_group_roster_def by (rule calm_notify_loop)

lemma calm_group_ops [calm_intros]:
  assumes "calm a b"
  shows "calm a (remove_from_group env p b)" "calm a (group_accept env p b)" "calm a (group_decline env p b)"
    "calm a (chat_invite env eq fs p b)" "calm a (chat_leave env p b)"
  using assms
  by (auto simp: remove_from_group_def group_accept_def group_decline_def chat_invite_def chat_leave_def Let_def
      split: prod.split option.split sum.split intro!: calm_intros)

lemma calm_command [calm_intros]: "calm a b \<Longrightarrow> calm a (handle_chat_command env low eq p t b)"
  by (auto simp: handle_chat_command_def Let_def split: list.split intro!: calm_intros)

lemma calm_emission [calm_intros]: "calm a b \<Longrightarrow> calm a (emission_broadcast st t b)"
  unfolding emission_broadcast_def
  by (intro calm_if calm_fold calm_opt) (auto simp: Let_def calm_def split: sum.split)

lemma calm_chunk: "calm a (snd st) \<Longrightarrow> calm a (snd (send_chunk x c st))"
  by (auto simp: send_chunk_def Let_def calm_def split: prod.split sum.split)

lemma calm_chunks: "calm a (snd st) \<Longrightarrow> calm a (snd (fold (send_chunk x) cs st))"
  by (induction cs arbitrary: st) (simp_all add: calm_chunk)

lemma calm_snapshots [calm_intros]: "calm a b \<Longrightarrow> calm a (broadcast_snapshots env b)"
proof -
  have "calm a (snd st) \<Longrightarrow> calm a (snd (fold (snapshot_session env) ps st))" for ps st
    by (induction ps arbitrary: st) (simp_all add: snapshot_session_def calm_chunks split: option.split)
  then show "calm a b \<Longrightarrow> ?thesis" by (simp add: broadcast_snapshots_def)
qed

section \<open>Persistence\<close>

lemma calm_persist [calm_intros]:
  assumes "calm a b"
  shows "calm a (sync_flush env u pos yaw h b)" "calm a (save_dead env u pos yaw b)"
proof -
  show "calm a (sync_flush env u pos yaw h b)" unfolding sync_flush_def using assms by (rule calm_db)
  show "calm a (save_dead env u pos yaw b)"
    unfolding save_dead_def using assms by (intro calm_intros calm_db)
qed

lemma calm_exits [calm_intros]:
  assumes "calm a b"
  shows "calm a (persist_exit env s b)" "calm a (persist_death env u pos yaw b)" "calm a (touch env p b)"
    "calm a (flush_player_death env p b)" "calm a (sleeper_died env sl b)" "calm a (sleeper_woke env sl b)"
  using assms
  by (auto simp: persist_exit_def persist_death_def touch_def flush_player_death_def sleeper_died_def sleeper_woke_def
      Let_def intro!: calm_intros)

section \<open>The whole world\<close>

text \<open>Session objects made on the way are new, so only those that existed before are compared.\<close>

definition wcalm :: "world \<Rightarrow> world \<Rightarrow> bool" where
  "wcalm v w \<longleftrightarrow> wd_fresh v \<le> wd_fresh w \<and> sv_sessions (wd_sv w) = sv_sessions (wd_sv v) \<and>
     sv_cfg (wd_sv w) = sv_cfg (wd_sv v) \<and>
     (\<forall>p<wd_fresh v. anchor (sv_heap (wd_sv w) p) = anchor (sv_heap (wd_sv v) p))"

lemma wcalm_refl [simp, calm_intros]: "wcalm w w"
  by (simp add: wcalm_def)

lemma wcalm_trans: "wcalm u v \<Longrightarrow> wcalm v w \<Longrightarrow> wcalm u w"
  by (auto simp: wcalm_def)

lemma wcalm_sv: "wcalm v w \<Longrightarrow> calm (wd_sv w) sv \<Longrightarrow> wcalm v (w\<lparr>wd_sv := sv\<rparr>)"
  by (simp add: wcalm_def calm_def)

lemma wcalm_on_sv [calm_intros]: "wcalm v w \<Longrightarrow> (\<And>b. calm b (f b)) \<Longrightarrow> wcalm v (on_sv f w)"
  unfolding on_sv_def by (rule wcalm_sv)

lemma wcalm_updates [calm_intros]:
  assumes "wcalm v w"
  shows "wcalm v (w\<lparr>wd_aoi := x1\<rparr>)" "wcalm v (w\<lparr>wd_damage := x2\<rparr>)" "wcalm v (w\<lparr>wd_reject_audit := x3\<rparr>)"
    "wcalm v (w\<lparr>wd_sleepers := x4\<rparr>)" "wcalm v (w\<lparr>wd_squads := x5\<rparr>)" "wcalm v (w\<lparr>wd_repl := x6\<rparr>)"
    "wcalm v (w\<lparr>wd_emission := x7\<rparr>)" "wcalm v (w\<lparr>wd_queue := x8\<rparr>)" "wcalm v (w\<lparr>wd_credit := x9\<rparr>)"
    "wcalm v (w\<lparr>wd_sweep := x10\<rparr>)" "wcalm v (w\<lparr>wd_safe_cast := x11\<rparr>)" "wcalm v (w\<lparr>wd_sid_seq := x12\<rparr>)"
    "wcalm v (w\<lparr>wd_resent := x13\<rparr>)"
  using assms by (simp_all add: wcalm_def)

lemma wcalm_if [calm_intros]: "(P \<Longrightarrow> wcalm a x) \<Longrightarrow> (\<not> P \<Longrightarrow> wcalm a y) \<Longrightarrow> wcalm a (if P then x else y)"
  by simp

lemma wcalm_opt [calm_intros]: "wcalm a x \<Longrightarrow> (\<And>v. wcalm a (f v)) \<Longrightarrow> wcalm a (case z of None \<Rightarrow> x | Some v \<Rightarrow> f v)"
  by (cases z) simp_all

lemma wcalm_fold: "(\<And>x w. wcalm a w \<Longrightarrow> wcalm a (g x w)) \<Longrightarrow> wcalm a b \<Longrightarrow> wcalm a (fold g xs b)"
  by (induction xs arbitrary: b) simp_all

lemma calm_comp [calm_intros]: "(\<And>x. calm x (g x)) \<Longrightarrow> (\<And>x. calm x (f x)) \<Longrightarrow> calm a ((f \<circ> g) a)"
  by (metis calm_trans comp_apply)

lemma wcalm_new_ptr: "wcalm v w \<Longrightarrow> wcalm v (snd (new_ptr s w))"
  by (auto simp: wcalm_def new_ptr_def on_sv_def upd_session_def)

lemma wcalm_with_ptr [calm_intros]:
  "wcalm v w \<Longrightarrow> (\<And>p x. wcalm v x \<Longrightarrow> wcalm v (f p x)) \<Longrightarrow> wcalm v (case new_ptr s w of (p, x) \<Rightarrow> f p x)"
  using wcalm_new_ptr [of v w s] by (auto split: prod.split)

lemma wcalm_helpers [calm_intros]:
  assumes "wcalm v w"
  shows "wcalm v (aoi_forget sid w)" "wcalm v (clear_damage_audit sid w)" "wcalm v (queue_write j w)"
    "wcalm v (queue_player_transform env u pos yaw h w)" "wcalm v (queue_periodic_stats env u n w)"
    "wcalm v (audit_damage_rejected env sid t w)" "wcalm v (audit_damage_accepted env sid tid x w)"
  using assms
  by (auto simp: aoi_forget_def clear_damage_audit_def queue_write_def queue_player_transform_def queue_periodic_stats_def
      audit_damage_rejected_def audit_damage_accepted_def intro!: calm_intros split: option.split)

lemma wcalm_clear [calm_intros]: "wcalm v w \<Longrightarrow> wcalm v (clear_session_tracking ho sid w)"
  by (simp add: clear_session_tracking_def clear_damage_audit_def Let_def wcalm_def)

lemma wcalm_leave_sleeper: "leave_sleeper env x s w = Some w' \<Longrightarrow> wcalm w w'"
  by (auto simp: leave_sleeper_def Let_def split: if_splits option.splits intro!: calm_intros)

lemma wcalm_cleanup [calm_intros]: "wcalm v w \<Longrightarrow> wcalm v (cleanup_evicted_session ho p w)"
  unfolding cleanup_evicted_session_def Let_def by (intro calm_intros)

section \<open>Fights\<close>

lemma anchor_combat [simp]: "anchor (set_combat now d s) = anchor s" "anchor (wound x s) = anchor s"
  by (simp_all add: anchor_def set_combat_def wound_def Let_def)

lemma hit_anchors: "validate_and_apply_damage now low gr los a t d (h, dh) = (r, h', dh') \<Longrightarrow> anchor (h' p) = anchor (h p)"
  by (auto simp: validate_and_apply_damage_def Let_def split: option.splits sum.splits prod.splits if_splits)

lemma puppet_hit_anchors:
  "validate_and_apply_puppet_damage now los a l pos d (h, dh) = (r, h', dh') \<Longrightarrow> anchor (h' p) = anchor (h p)"
  by (auto simp: validate_and_apply_puppet_damage_def Let_def split: option.splits sum.splits prod.splits if_splits)

lemma wcalm_judge: "wcalm v w \<Longrightarrow> wcalm v (snd (judge_hit ho a t d w))"
  by (auto simp: judge_hit_def wcalm_def Let_def split: prod.split) (metis hit_anchors)

lemma wcalm_judged [calm_intros]:
  assumes "wcalm v w" "\<And>e x. wcalm v x \<Longrightarrow> wcalm v (F e x)" "\<And>y x. wcalm v x \<Longrightarrow> wcalm v (G y x)"
  shows "wcalm v (case judge_hit ho a t d w of (r, x) \<Rightarrow> (case r of Inl e \<Rightarrow> F e x | Inr y \<Rightarrow> G y x))"
  using wcalm_judge [OF assms(1), of ho a t d] assms(2,3) by (auto split: prod.split sum.split)

lemma wcalm_prod [calm_intros]: "(\<And>x y. wcalm a (f x y)) \<Longrightarrow> wcalm a (case z of (x, y) \<Rightarrow> f x y)"
  by (cases z) simp

lemma wcalm_ai_attack [calm_intros]: "wcalm v w \<Longrightarrow> wcalm v (apply_ai_attack ho atk w)"
  unfolding apply_ai_attack_def Let_def by (intro calm_intros) assumption+

lemma wcalm_ai_attacks [calm_intros]: "wcalm v w \<Longrightarrow> wcalm v (apply_ai_attacks ho evs w)"
  unfolding apply_ai_attacks_def by (rule wcalm_fold) (rule calm_intros)

lemma wcalm_puppet_health [calm_intros]: "wcalm v w \<Longrightarrow> wcalm v (broadcast_puppet_health ho i w)"
  unfolding broadcast_puppet_health_def by (intro calm_intros calm_fold) assumption+

lemma wcalm_puppet_damage [calm_intros]: "wcalm v w \<Longrightarrow> wcalm v (handle_puppet_damage ho p aid d w)"
proof -
  assume v: "wcalm v w"
  have hit: "wcalm v (w\<lparr>wd_sv := (wd_sv w)\<lparr>sv_heap := h\<rparr>\<rparr>)"
    if "validate_and_apply_puppet_damage now los a l pos d (sv_heap (wd_sv w), wd_damage w) = (r, h, dh)"
    for now los a l pos d r h dh
    using v puppet_hit_anchors [OF that] by (simp add: wcalm_def)
  show ?thesis
    unfolding handle_puppet_damage_def Let_def
    by (intro wcalm_opt wcalm_if v) (auto split: prod.split sum.split intro!: wcalm_if wcalm_puppet_health wcalm_helpers wcalm_updates intro: hit)
qed

section \<open>AI replication\<close>

lemma calm_notify:
  assumes "calm a (snd ms)"
  shows "calm a (snd (notify_entity_leave env p e ms))" "calm a (snd (notify_entity_enter env p info ms))"
  using assms
  by (auto simp: notify_entity_leave_def notify_entity_enter_def Let_def split: prod.split intro: calm_reply)

definition calm_pass :: "server \<Rightarrow> ai_pass \<Rightarrow> bool" where
  "calm_pass a st \<longleftrightarrow> calm a (fst (snd st))"

lemma calm_pass_step:
  assumes "calm_pass a st"
  shows "calm_pass a (ai_leave env ids v i st)" "calm_pass a (ai_enter env ids v c st)"
proof -
  obtain m sv r where st: "st = (m, sv, r)" by (metis prod.exhaust)
  with assms have sv: "calm a (snd (m, sv))" by (simp add: calm_pass_def)
  note n = calm_notify(1) [OF sv, of env "av_ptr v"] calm_notify(2) [OF sv, of env "av_ptr v"]
  show "calm_pass a (ai_leave env ids v i st)"
    using sv n(1) by (simp add: st calm_pass_def ai_leave_def split_def split: option.split)
  show "calm_pass a (ai_enter env ids v c st)"
    using sv n(2) by (simp add: st calm_pass_def ai_enter_def split_def split: option.split)
qed

lemma calm_pass_fold:
  assumes "calm_pass a st" "\<And>x st. calm_pass a st \<Longrightarrow> calm_pass a (g x st)"
  shows "calm_pass a (fold g xs st)"
  using assms by (induction xs arbitrary: st) simp_all

lemma calm_stream: "calm a b \<Longrightarrow> calm a (stream_ai_state env now ids v cs b)"
  unfolding stream_ai_state_def by (intro calm_intros calm_fold) simp_all

lemma calm_view_pass:
  assumes "calm_pass a st"
  shows "calm_pass a (view_pass ho now ids ps v st)"
proof -
  obtain m sv r where st: "st = (m, sv, r)" by (metis prod.exhaust)
  have *: "calm_pass a (case fold (ai_enter env ids v) ns st2 of (m3, sv3, a3) \<Rightarrow> (m3, stream_ai_state env now ids v ns sv3, a3))"
    if "calm_pass a st2" for env ns st2
    using calm_pass_fold [OF that, of "ai_enter env ids v" ns] calm_pass_step(2)
    by (auto simp: calm_pass_def split: prod.split intro: calm_stream)
  show ?thesis
    using assms unfolding view_pass_def st prod.case Let_def
    by (intro * calm_pass_fold calm_pass_step) assumption+
qed

lemma wcalm_replicate [calm_intros]: "wcalm v w \<Longrightarrow> wcalm v (replicate_views ho now ids vs w)"
proof -
  assume v: "wcalm v w"
  have "calm_pass (wd_sv w) (fold (view_pass ho now ids (puppets_of ho w)) vs
      (wd_aoi w, wd_sv w, retain_sessions (set (map av_id vs)) (wd_repl w)))"
    by (rule calm_pass_fold) (simp_all add: calm_pass_def calm_view_pass [unfolded calm_pass_def])
  with v show ?thesis
    by (auto simp: replicate_views_def calm_pass_def wcalm_def calm_def split: prod.split)
qed

lemma wcalm_release [calm_intros]: "wcalm v w \<Longrightarrow> wcalm v (release_ai_squad i w)"
  unfolding release_ai_squad_def Let_def by (intro calm_intros)

lemma wcalm_ai_tick [calm_intros]: "wcalm v w \<Longrightarrow> wcalm v (tick_ai_replication ho now w)"
proof -
  assume v: "wcalm v w"
  have "wcalm v (snd (step_squads ho now vs w))" for vs
    using v by (auto simp: step_squads_def Let_def split: prod.split intro!: calm_intros)
  then have "wcalm v x" if "step_squads ho now vs w = (d, x)" for vs d x
    using that by (metis snd_conv)
  then show ?thesis
    unfolding tick_ai_replication_def Let_def
    by (auto split: prod.split intro!: wcalm_fold calm_intros v)
qed

section \<open>Handlers\<close>

lemma anchor_chat: "allow_chat now s = (ok, s1) \<Longrightarrow> anchor s1 = anchor s"
  by (auto simp: allow_chat_def anchor_def Let_def split: if_splits)

lemma wcalm_after_chat:
  assumes "wcalm v w" "\<And>ok s1. wcalm v (on_sv (upd_session p (\<lambda>_. s1)) w) \<Longrightarrow> wcalm v (F ok (on_sv (upd_session p (\<lambda>_. s1)) w))"
  shows "wcalm v (case allow_chat now (sess_of w p) of (ok, s1) \<Rightarrow> F ok (on_sv (upd_session p (\<lambda>_. s1)) w))"
proof -
  obtain ok s1 where c: "allow_chat now (sess_of w p) = (ok, s1)" by (rule prod.exhaust)
  have "wcalm v (on_sv (upd_session p (\<lambda>_. s1)) w)"
    using assms(1) anchor_chat [OF c] by (simp add: wcalm_def on_sv_def upd_session_def sess_of_def)
  with assms(2) c show ?thesis by simp
qed

lemma wcalm_handlers [calm_intros]:
  assumes "wcalm v w"
  shows "wcalm v (handle_heartbeat ho a buf w)" "wcalm v (handle_chat ho a buf w)" "wcalm v (handle_group_response ho a buf w)"
    "wcalm v (handle_player_visual ho a buf w)"
proof -
  show "wcalm v (handle_heartbeat ho a buf w)"
    unfolding handle_heartbeat_def Let_def using assms by (intro calm_intros)
  show "wcalm v (handle_chat ho a buf w)"
    unfolding handle_chat_def Let_def using assms
    by (intro wcalm_opt wcalm_prod wcalm_if wcalm_after_chat) (auto intro!: calm_intros)
  show "wcalm v (handle_group_response ho a buf w)"
    unfolding handle_group_response_def Let_def using assms
    by (intro wcalm_opt wcalm_prod wcalm_if wcalm_after_chat) (auto intro!: calm_intros)
  show "wcalm v (handle_player_visual ho a buf w)"
    unfolding handle_player_visual_def Let_def using assms by (intro calm_intros) (simp_all add: calm_maybe_enter)
qed

lemma wcalm_cross [calm_intros]: "wcalm v w \<Longrightarrow> wcalm v (cross_safe_zone ho p b h w)"
  unfolding cross_safe_zone_def Let_def by (intro calm_intros) simp_all

lemma wcalm_transform [calm_intros]: "wcalm v w \<Longrightarrow> wcalm v (handle_client_transform ho a buf w)"
  unfolding handle_client_transform_def Let_def by (intro calm_intros) (simp_all add: calm_maybe_enter)

lemma calm_arrive [calm_intros]: "calm b (arrive ho p sid old b)"
  unfolding arrive_def Let_def by (intro calm_intros) simp_all

lemma wcalm_level_change [calm_intros]: "wcalm v w \<Longrightarrow> wcalm v (handle_level_change ho a buf w)"
  unfolding handle_level_change_def Let_def by (intro calm_intros) simp_all

lemma wcalm_damage_sleeper [calm_intros]: "wcalm v w \<Longrightarrow> wcalm v (damage_sleeper ho p aid q d w)"
  unfolding damage_sleeper_def bury_sleeper_def Let_def by (intro calm_intros) assumption+

lemma wcalm_damage_player [calm_intros]: "wcalm v w \<Longrightarrow> wcalm v (damage_player ho p aid t d w)"
  unfolding damage_player_def Let_def by (intro calm_intros) assumption+

lemma wcalm_damage [calm_intros]: "wcalm v w \<Longrightarrow> wcalm v (handle_damage ho a buf w)"
  unfolding handle_damage_def Let_def by (intro calm_intros)

lemma wcalm_ack [calm_intros]: "wcalm v w \<Longrightarrow> wcalm v (handle_ack ho a buf w)"
proof -
  have "calm b (b\<lparr>sv_acks := x\<rparr>)" for b x by (simp add: calm_def)
  then show "wcalm v w \<Longrightarrow> ?thesis"
    unfolding handle_ack_def Let_def by (intro calm_intros)
qed

lemma calm_create [calm_intros]: "calm a b \<Longrightarrow> calm a (snd (create_in_db env u f l m b))"
  by (auto simp: create_in_db_def intro: calm_db)

lemma anchored_creation [simp]:
  "anchored (\<lambda>s. s\<lparr>p_pending_create := b, p_faction := f, p_pos := x, p_level := l, p_health := h\<rparr>)"
  by (simp add: anchored_def anchor_def)

lemma wcalm_created [calm_intros]: "wcalm v w \<Longrightarrow> wcalm v (character_created ho p f w)"
  unfolding character_created_def Let_def
  by (intro calm_intros) (simp_all add: calm_maybe_enter)

lemma wcalm_select [calm_intros]: "wcalm v w \<Longrightarrow> wcalm v (handle_character_select ho a buf w)"
proof -
  assume v: "wcalm v w"
  have db: "wcalm v (w\<lparr>wd_sv := sv\<rparr>)" if "create_in_db env u f l m (wd_sv w) = (r, sv)" for env u f l m r sv
    using wcalm_sv [OF v calm_create [OF calm_refl, of "wd_sv w" env u f l m]] that by simp
  have err: "wcalm v (w\<lparr>wd_sv := send_error e p c t sv\<rparr>)" if "wcalm v (w\<lparr>wd_sv := sv\<rparr>)" for e p c t sv
    using wcalm_on_sv [OF that, of "send_error e p c t"] by (simp add: on_sv_def calm_sends)
  show ?thesis
    unfolding handle_character_select_def Let_def
    by (auto split: option.split prod.split sum.split intro!: v calm_intros(1) wcalm_on_sv calm_sends wcalm_created
        intro: err db)
qed

lemma wcalm_load_player: "calm a b \<Longrightarrow> calm a (snd (load_player env u hw n s b))"
proof -
  assume "calm a b"
  then have 1: "calm a (snd (with_db (auto_provision u hw n (unix env)) b))" by (rule calm_db)
  have snd_case: "snd (case z of (Inl e, sv) \<Rightarrow> F e sv | (Inr x, sv) \<Rightarrow> G x sv) =
      (case z of (Inl e, sv) \<Rightarrow> snd (F e sv) | (Inr x, sv) \<Rightarrow> snd (G x sv))" for z F G
    by (auto split: prod.split sum.split)
  show ?thesis
    using \<open>calm a b\<close> 1
    unfolding load_player_def Let_def if_distrib [of snd] snd_case
    by (intro calm_if calm_case) (auto intro: calm_db)
qed

lemma wcalm_refuse [calm_intros]: "wcalm v w \<Longrightarrow> wcalm v (refuse_handshake env a st w)"
  unfolding refuse_handshake_def by (intro calm_intros)

lemma wcalm_spawn [calm_intros]: "wcalm v w \<Longrightarrow> wcalm v (spawn_flow ho p n f w)"
  unfolding spawn_flow_def Let_def by (intro calm_intros wcalm_prod)

lemma wcalm_tick_parts [calm_intros]:
  assumes "wcalm v w"
  shows "wcalm v (tick_groups ho w)" "wcalm v (sweep_due ho w)" "wcalm v (tick_sleepers ho w)"
    "wcalm v (checkpoint_session ho n p w)" "wcalm v (tick_emission ho w)" "wcalm v (tick_acks ho w)"
    "wcalm v (tick_safezones ho w)"
  using assms
  by (auto simp: tick_groups_def sweep_due_def tick_sleepers_def checkpoint_session_def tick_emission_def tick_safezones_def
      Let_def split: prod.split option.split intro!: calm_intros calm_fold)
    (auto simp: tick_acks_def wcalm_def Let_def split: prod.split)

end
