(* ===== verification/SessionLife.thy ===== *)
theory SessionLife
  imports IndexFrame
begin

text \<open>
  The life of a session across whole packets and ticks. \<open>world_ok\<close> is the invariant: the session index is
  consistent, live sessions are objects that exist, and the server holds at most as many players as configured.
  \<open>thins v w\<close>: from \<open>v\<close> to \<open>w\<close> sessions only left, and the invariant survived; every step but an admission thins.
\<close>

definition world_ok :: "world \<Rightarrow> bool" where
  "world_ok w \<longleftrightarrow> sm_ok (sv_heap (wd_sv w)) (sv_sessions (wd_sv w)) \<and>
     ran (sm_sessions (sv_sessions (wd_sv w))) \<subseteq> {..<wd_fresh w} \<and>
     (0 < max_players w \<longrightarrow> int (sess_count (sv_sessions (wd_sv w))) \<le> max_players w)"

section \<open>The index under heap updates and removals\<close>

lemma anchor_id: "anchor s = anchor t \<Longrightarrow> p_id s = p_id t \<and> p_account s = p_account t \<and> addr_key s = addr_key t \<and>
    p_last_sequence s = p_last_sequence t \<and> p_addr s = p_addr t"
  by (simp add: anchor_def addr_key_def)

lemma sm_ok_heap:
  assumes ok: "sm_ok h sm" and same: "\<And>p. p \<in> ran (sm_sessions sm) \<Longrightarrow> anchor (h' p) = anchor (h p)"
  shows "sm_ok h' sm"
proof -
  have e: "p_id (h' p) = p_id (h p) \<and> p_account (h' p) = p_account (h p) \<and> addr_key (h' p) = addr_key (h p)"
    if "sm_sessions sm i = Some p" for i p
    using anchor_id [OF same] that by (metis ranI)
  have "(sm_sessions sm (p_id (h' p)) = Some p \<and> addr_key (h' p) = Some a) \<longleftrightarrow>
      (sm_sessions sm (p_id (h p)) = Some p \<and> addr_key (h p) = Some a)" for a p
    using e [of _ p] by metis
  with ok have "index_ok h' sm" by (simp add: sm_ok_def index_ok_def)
  moreover have "keyed h' sm" using ok e by (auto simp: sm_ok_def keyed_def)
  moreover have "accounts_ok h' sm" using ok e by (auto simp: sm_ok_def accounts_ok_def)
  ultimately show ?thesis using ok by (simp add: sm_ok_def)
qed

lemma sm_ok_remove:
  assumes "sm_ok h sm" "dom (sm_sessions sm) - {i} \<subseteq> set ks"
  shows "sm_ok h (remove_session h ks i sm)" "sm_sessions (remove_session h ks i sm) = (sm_sessions sm)(i := None)"
    "sm_by_addr (remove_session h ks i sm) \<subseteq>\<^sub>m sm_by_addr sm"
proof -
  have k: "keyed h sm" "index_but None h sm" "accounts_ok h sm"
    using assms(1) by (simp_all add: sm_ok_def index_ok_but)
  have r: "remove_session h ks i sm = (case sm_sessions sm i of None \<Rightarrow> sm | Some q \<Rightarrow> update_cache ks (forget h i q sm))"
    by (simp add: remove_session_def forget_def split: option.split)
  show "sm_ok h (remove_session h ks i sm)"
  proof (cases "sm_sessions sm i")
    case (Some q)
    have "index_but None h (forget h i q sm)" using index_forget [OF k(1,2) Some] .
    moreover have "accounts_ok h (forget h i q sm)" using k(3) by (auto simp: accounts_ok_def)
    moreover have "dom (sm_sessions (forget h i q sm)) \<subseteq> set ks" using assms(2) by auto
    ultimately show ?thesis
      using k(1) by (simp add: r Some sm_ok_def index_ok_but [symmetric] keyed_forget update_cache_ok)
  qed (use assms(1) r in simp)
  show "sm_sessions (remove_session h ks i sm) = (sm_sessions sm)(i := None)"
    by (auto simp: r split: option.split)
  show "sm_by_addr (remove_session h ks i sm) \<subseteq>\<^sub>m sm_by_addr sm"
    by (auto simp: r map_le_def forget_by_addr split: option.split if_splits)
qed

section \<open>Thinning\<close>

definition thins :: "world \<Rightarrow> world \<Rightarrow> bool" where
  "thins v w \<longleftrightarrow> wd_fresh v \<le> wd_fresh w \<and> sv_cfg (wd_sv w) = sv_cfg (wd_sv v) \<and>
     (\<forall>p<wd_fresh v. anchor (sv_heap (wd_sv w) p) = anchor (sv_heap (wd_sv v) p)) \<and>
     sm_sessions (sv_sessions (wd_sv w)) \<subseteq>\<^sub>m sm_sessions (sv_sessions (wd_sv v)) \<and>
     sm_by_addr (sv_sessions (wd_sv w)) \<subseteq>\<^sub>m sm_by_addr (sv_sessions (wd_sv v)) \<and> world_ok w"

lemma max_players_cfg: "sv_cfg (wd_sv w) = sv_cfg (wd_sv v) \<Longrightarrow> max_players w = max_players v"
  by (simp add: max_players_def)

lemma thins_refl: "world_ok w \<Longrightarrow> thins w w"
  by (simp add: thins_def)

lemma thins_trans:
  assumes a: "thins u v" and b: "thins v w"
  shows "thins u w"
proof -
  have "anchor (sv_heap (wd_sv w) p) = anchor (sv_heap (wd_sv u) p)" if "p < wd_fresh u" for p
  proof -
    have "p < wd_fresh v" using a that by (simp add: thins_def)
    then show ?thesis using a b that by (simp add: thins_def)
  qed
  moreover have "sm_sessions (sv_sessions (wd_sv w)) \<subseteq>\<^sub>m sm_sessions (sv_sessions (wd_sv u))"
      "sm_by_addr (sv_sessions (wd_sv w)) \<subseteq>\<^sub>m sm_by_addr (sv_sessions (wd_sv u))"
    using a b by (auto simp: thins_def intro: map_le_trans)
  ultimately show ?thesis using a b by (simp add: thins_def)
qed

lemma thins_calm:
  assumes "world_ok v" "wcalm v w"
  shows "thins v w"
proof -
  have s: "sv_sessions (wd_sv w) = sv_sessions (wd_sv v)" "sv_cfg (wd_sv w) = sv_cfg (wd_sv v)" "wd_fresh v \<le> wd_fresh w"
    using assms(2) by (simp_all add: wcalm_def)
  have "sm_ok (sv_heap (wd_sv w)) (sv_sessions (wd_sv v))"
  proof (rule sm_ok_heap)
    show "sm_ok (sv_heap (wd_sv v)) (sv_sessions (wd_sv v))" using assms(1) by (simp add: world_ok_def)
  next
    fix p assume "p \<in> ran (sm_sessions (sv_sessions (wd_sv v)))"
    then have "p < wd_fresh v" using assms(1) by (auto simp: world_ok_def)
    then show "anchor (sv_heap (wd_sv w) p) = anchor (sv_heap (wd_sv v) p)" using assms(2) by (simp add: wcalm_def)
  qed
  moreover have "max_players w = max_players v" using s(2) by (rule max_players_cfg)
  moreover have "ran (sm_sessions (sv_sessions (wd_sv v))) \<subseteq> {..<wd_fresh w}"
    using assms(1) s(3) by (auto simp: world_ok_def)
  ultimately have "world_ok w" using assms(1) by (simp add: world_ok_def s(1))
  then show ?thesis using assms(2) by (simp add: thins_def wcalm_def)
qed

lemma thins_ok: "thins v w \<Longrightarrow> world_ok w"
  by (simp add: thins_def)

lemma thins_step: "thins v w \<Longrightarrow> wcalm w x \<Longrightarrow> thins v x"
  by (rule thins_trans [OF _ thins_calm [OF thins_ok]])

lemma thins_drop:
  assumes ho: "host_ok ho" and v: "thins v w"
  shows "thins v (on_sv (drop_session ho sid) w)"
proof -
  let ?sm = "sv_sessions (wd_sv w)" and ?h = "sv_heap (wd_sv w)"
  let ?ks = "ho_order ho (dom (sm_sessions ?sm) - {sid})"
  let ?sm' = "remove_session ?h ?ks sid ?sm"
  have ok: "sm_ok ?h ?sm" and w: "world_ok w" using v by (simp_all add: thins_def world_ok_def)
  have fin: "finite (dom (sm_sessions ?sm))" using ok by (simp add: sm_ok_def keyed_def)
  with ho have "dom (sm_sessions ?sm) - {sid} \<subseteq> set ?ks" by (simp add: host_ok_def)
  note r = sm_ok_remove [OF ok this]
  have e: "wd_sv (on_sv (drop_session ho sid) w) = (wd_sv w)\<lparr>sv_sessions := ?sm'\<rparr>"
      "wd_fresh (on_sv (drop_session ho sid) w) = wd_fresh w"
    by (simp_all add: on_sv_def drop_session_def)
  have le: "sm_sessions ?sm' \<subseteq>\<^sub>m sm_sessions ?sm" by (simp add: r(2) map_le_def)
  have "card (dom (sm_sessions ?sm')) \<le> card (dom (sm_sessions ?sm))"
    by (intro card_mono fin) (use r(2) in auto)
  then have "world_ok (on_sv (drop_session ho sid) w)"
    using w r(1) le max_players_cfg [of "on_sv (drop_session ho sid) w" w]
    by (auto simp: world_ok_def e sess_count_def ran_def dest!: map_leD [OF le])
  then have "thins w (on_sv (drop_session ho sid) w)"
    using le r(3) by (simp add: thins_def e)
  with v show ?thesis by (rule thins_trans)
qed

lemma thins_depart:
  assumes "host_ok ho" "world_ok w" "wcalm w x"
  shows "thins w (clear_session_tracking ho sid (on_sv (drop_session ho sid) x))"
  using thins_drop [OF assms(1) thins_calm [OF assms(2,3)]] by (rule thins_step) (rule wcalm_clear, rule wcalm_refl)

lemma thins_kick: "host_ok ho \<Longrightarrow> world_ok w \<Longrightarrow> thins w (snd (kick_session ho sid w))"
  unfolding kick_session_def Let_def
  by (cases "get_by_id sid (sv_sessions (wd_sv w))") (simp_all add: thins_refl, intro thins_depart calm_intros)

lemma thins_disconnect:
  assumes "host_ok ho" "world_ok w" "handle_disconnect ho a w = Some w'"
  shows "thins w w'"
proof (cases "session_at a w")
  case None
  with assms(2,3) show ?thesis by (simp add: handle_disconnect_def thins_refl)
next
  case (Some p)
  let ?env = "ho_env ho" and ?s = "sess_of w p"
  let ?w2 = "aoi_forget (p_id ?s) (on_sv (upd_grid (grid_remove (p_id ?s)))
      (on_sv (remove_from_group ?env p \<circ> persist_exit ?env ?s) w))"
  obtain w3 where w3: "leave_sleeper ?env (exposed_at_disconnect ?env ?s) ?s ?w2 = Some w3"
    and w': "w' = on_sv (purge_addr ho (addr_string a)) (clear_session_tracking ho (p_id ?s)
      (on_sv (drop_session ho (p_id ?s) \<circ> broadcast_entity_leave ?env (p_id ?s) (p_level ?s)) w3))"
    using assms(3) Some by (auto simp: handle_disconnect_def Let_def)
  have "wcalm w ?w2" by (intro calm_intros)
  from wcalm_trans [OF this wcalm_leave_sleeper [OF w3]]
  have "wcalm w (on_sv (broadcast_entity_leave ?env (p_id ?s) (p_level ?s)) w3)" by (intro calm_intros)
  from thins_depart [OF assms(1,2) this, of "p_id ?s"]
  have "thins w (clear_session_tracking ho (p_id ?s)
      (on_sv (drop_session ho (p_id ?s) \<circ> broadcast_entity_leave ?env (p_id ?s) (p_level ?s)) w3))"
    by (simp add: on_sv_def)
  then show ?thesis unfolding w' by (rule thins_step) (intro calm_intros)
qed

lemma thins_expire:
  assumes "host_ok ho" "world_ok w" "expire_session ho p w = Some w'"
  shows "thins w w'"
proof -
  let ?env = "ho_env ho" and ?s = "sess_of w p"
  let ?w1 = "aoi_forget (p_id ?s) (on_sv (upd_grid (grid_remove (p_id ?s)) \<circ> remove_from_group ?env p) w)"
  let ?w3 = "clear_session_tracking ho (p_id ?s) (on_sv (drop_session ho (p_id ?s) \<circ> purge_session_addr ho ?s \<circ>
      broadcast_entity_leave ?env (p_id ?s) (p_level ?s)) ?w1)"
  have l: "leave_sleeper ?env (exposed_at_timeout (en_now ?env) w ?s) ?s
      (if p_dirty ?s \<or> fle (p_health ?s) (Fin 0) then on_sv (persist_exit ?env ?s) ?w3 else ?w3) = Some w'"
    using assms(3) by (simp add: expire_session_def Let_def)
  have "wcalm w (on_sv (purge_session_addr ho ?s \<circ> broadcast_entity_leave ?env (p_id ?s) (p_level ?s)) ?w1)"
    by (intro calm_intros)
  from thins_depart [OF assms(1,2) this, of "p_id ?s"] have "thins w ?w3" by (simp add: on_sv_def comp_assoc)
  then have "thins w (if p_dirty ?s \<or> fle (p_health ?s) (Fin 0) then on_sv (persist_exit ?env ?s) ?w3 else ?w3)"
    by (rule thins_step) (intro calm_intros)
  from this wcalm_leave_sleeper [OF l] show ?thesis by (rule thins_step)
qed

lemma thins_sessions:
  assumes "host_ok ho" "thins v w" "tick_sessions ho n ps w = Some w'"
  shows "thins v w'"
  using assms(2,3)
proof (induction ps arbitrary: w)
  case (Cons p ps)
  show ?case
  proof (cases "stale (en_now (ho_env ho)) w (sess_of w p)")
    case True
    then obtain x where "expire_session ho p w = Some x" "tick_sessions ho n ps x = Some w'"
      using Cons.prems(2) by (auto split: option.splits)
    with thins_trans [OF Cons.prems(1) thins_expire [OF assms(1) thins_ok [OF Cons.prems(1)]]] Cons.IH show ?thesis by blast
  next
    case False
    have "thins v (checkpoint_session ho n p w)" using Cons.prems(1) by (rule thins_step) (intro calm_intros)
    from Cons.IH [OF this] False Cons.prems(2) show ?thesis by simp
  qed
qed simp

lemma wcalm_credit [calm_intros]: "wcalm v w \<Longrightarrow> wcalm v (snd (credit_play_time now w))"
  by (auto simp: credit_play_time_def Let_def intro!: calm_intros)

lemma thins_tick:
  assumes "host_ok ho" "world_ok w" "server_tick ho w = Some w'"
  shows "thins w w'"
proof -
  obtain credit w1 where c: "credit_play_time (en_now (ho_env ho)) w = (credit, w1)" by fastforce
  let ?w2 = "tick_sleepers ho (sweep_due ho (tick_groups ho w1))"
  obtain w3 where s: "tick_sessions ho credit (get_all (sv_sessions (wd_sv ?w2))) ?w2 = Some w3"
    and w': "w' = tick_safezones ho (tick_ai_replication ho (en_now (ho_env ho)) (tick_acks ho (tick_emission ho
         (on_sv (broadcast_snapshots (ho_env ho)) w3))))"
    using assms(3) by (auto simp: server_tick_def c Let_def)
  have "wcalm w w1" using wcalm_credit [OF wcalm_refl, of w "en_now (ho_env ho)"] by (simp add: c)
  then have "wcalm w ?w2" by (intro calm_intros)
  from thins_sessions [OF assms(1) thins_calm [OF assms(2) this] s] have "thins w w3" .
  then show ?thesis unfolding w' by (rule thins_step) (intro calm_intros)
qed

section \<open>Admission\<close>

lemma passes_le:
  assumes "addr_pass h o1 p sm = r1" "account_pass h o2 p r1 = (sm2, ev2)"
  shows "sm_sessions sm2 \<subseteq>\<^sub>m sm_sessions sm"
proof -
  obtain sm1 ev1 where r1: "r1 = (sm1, ev1)" by fastforce
  have 1: "sm_sessions sm1 \<subseteq>\<^sub>m sm_sessions sm"
    using assms(1) evict_addr_shrunk [of sm h "p_id (h p)" _ o1 "[]"]
    by (auto simp: r1 addr_pass_def shrunk_def split: option.splits if_splits) (metis fst_conv)
  have "sm_sessions sm2 \<subseteq>\<^sub>m sm_sessions sm1"
    using assms(2) evict_account_shrunk [of sm1 h "p_id (h p)" "p_account (h p)" o2 ev1]
    by (auto simp: r1 account_pass_def shrunk_def split: if_splits)
  from map_le_trans [OF this 1] show ?thesis .
qed

lemma admitted_ran:
  assumes "try_add_capped h o1 o2 o3 (Some p) n sm = (sm', ev, added)"
  shows "ran (sm_sessions sm') \<subseteq> insert p (ran (sm_sessions sm))"
proof -
  obtain sm2 ev2 where r2: "account_pass h o2 p (addr_pass h o1 p sm) = (sm2, ev2)" by fastforce
  have c: "sm_sessions sm' = sm_sessions sm2 \<or> sm_sessions sm' = (sm_sessions sm2)(p_id (h p) \<mapsto> p)"
    using assms by (auto simp: try_add_capped_def r2 Let_def split: if_splits option.splits)
  have le: "ran (sm_sessions sm2) \<subseteq> ran (sm_sessions sm)"
    using passes_le [OF refl r2] by (auto simp: ran_def dest: map_leD)
  have up: "ran ((sm_sessions sm2)(p_id (h p) \<mapsto> p)) \<subseteq> insert p (ran (sm_sessions sm2))" by (auto simp: ran_def)
  from c show ?thesis
  proof
    assume e: "sm_sessions sm' = sm_sessions sm2"
    show ?thesis unfolding e using le by blast
  next
    assume e: "sm_sessions sm' = (sm_sessions sm2)(p_id (h p) \<mapsto> p)"
    show ?thesis unfolding e using le up by blast
  qed
qed

lemma anchor_name [simp]: "anchor (s\<lparr>p_name := nm\<rparr>) = anchor s"
  by (simp add: anchor_def)

lemma admit_ok:
  assumes ho: "host_ok ho" and w: "world_ok w" and p: "p < wd_fresh w" "p \<notin> ran (sm_sessions (sv_sessions (wd_sv w)))"
    and a: "admit ho p w = Some (evicted, added, w')"
  shows "world_ok w'" "wd_fresh w' = wd_fresh w" "anchor (sess_of w' q) = anchor (sess_of w q)"
    "added \<Longrightarrow> sm_sessions (sv_sessions (wd_sv w')) (p_id (sess_of w p)) = Some p"
    "\<not> added \<Longrightarrow> w' = w \<and> evicted = []"
proof -
  let ?sv = "wd_sv w" let ?sm = "sv_sessions ?sv" and ?h = "sv_heap ?sv"
  let ?o1 = "ho_order ho (dom (sm_sessions ?sm))" and ?o2 = "ho_order ho (insert (p_id (?h p)) (dom (sm_sessions ?sm)))"
  obtain sm' ev ad where t: "try_add_capped ?h ?o1 ?o1 ?o2 (Some p) (max_players w) ?sm = (sm', ev, ad)"
    by (metis prod.exhaust)
  have ok: "sm_ok ?h ?sm" using w by (simp add: world_ok_def)
  then have "finite (dom (sm_sessions ?sm))" by (simp add: sm_ok_def keyed_def)
  with ho have o: "set ?o1 = dom (sm_sessions ?sm)" "set ?o2 = insert (p_id (?h p)) (dom (sm_sessions ?sm))"
    by (simp_all add: host_ok_def)
  have cap: "0 < max_players w \<longrightarrow> int (sess_count ?sm) \<le> max_players w" using w by (simp add: world_ok_def)
  note ad = admission_consistent [OF ok p(2) _ _ _ cap t, unfolded o, OF subset_refl subset_refl subset_refl]
  have ran: "ran (sm_sessions sm') \<subseteq> {..<wd_fresh w}"
    using admitted_ran [OF t] w p(1) by (auto simp: world_ok_def)
  obtain h' where w': "w' = w\<lparr>wd_sv := ?sv\<lparr>sv_sessions := sm', sv_heap := h'\<rparr>\<rparr>" "evicted = ev" "added = ad"
      "\<And>q. anchor (h' q) = anchor (?h q)" "\<not> ad \<Longrightarrow> h' = ?h"
  proof (cases ad)
    case True
    with a t obtain h1 where e: "ensure_unique_name (ho_lower ho) ?o2 (length ?o2 + 1) (Some p) sm' ?h = Some h1"
        "w' = w\<lparr>wd_sv := ?sv\<lparr>sv_sessions := sm', sv_heap := h1\<rparr>\<rparr>" "evicted = ev" "added"
      by (auto simp: admit_def Let_def)
    have "anchor (h1 q) = anchor (?h q)" for q using e(1) by (auto simp: ensure_unique_name_def)
    with e True that show ?thesis by blast
  next
    case False
    with a t have "w' = w\<lparr>wd_sv := ?sv\<lparr>sv_sessions := sm'\<rparr>\<rparr>" "evicted = ev" "\<not> added"
      by (auto simp: admit_def Let_def)
    with False that [of ?h] show ?thesis by simp
  qed
  have f: "sv_sessions (wd_sv w') = sm'" "sv_heap (wd_sv w') = h'" "wd_fresh w' = wd_fresh w" "max_players w' = max_players w"
    by (simp_all add: w'(1) max_players_def)
  have s: "sm_ok ?h sm'" "0 < max_players w \<longrightarrow> int (sess_count sm') \<le> max_players w" using ad by blast+
  have "sm_ok h' sm'" using s(1) w'(4) by (rule sm_ok_heap)
  with s(2) ran show "world_ok w'" unfolding world_ok_def f by blast
  show "wd_fresh w' = wd_fresh w" by (rule f(3))
  show "anchor (sess_of w' q) = anchor (sess_of w q)" using w'(4) by (simp add: w'(1) sess_of_def)
  show "added \<Longrightarrow> sm_sessions (sv_sessions (wd_sv w')) (p_id (sess_of w p)) = Some p"
    using ad by (simp add: w'(1,3) sess_of_def)
  show "\<not> added \<Longrightarrow> w' = w \<and> evicted = []" using ad w' by auto
qed

section \<open>The handshake\<close>

lemma anchor_moves [simp]: "anchor (pending_session s) = anchor s" "anchor (resume_session ch s) = anchor s"
  "anchor (placed s) = anchor s"
  by (simp_all add: anchor_def pending_session_def resume_session_def placed_def)

lemma load_player_anchor: "load_player env u hw n s sv = ((s1, new, f), sv1) \<Longrightarrow> anchor s1 = anchor s"
  by (auto simp: load_player_def Let_def split: if_splits prod.splits sum.splits)

lemma reclaim_anchor: "reclaim_sleeper u (s, b) w = ((s1, b1), w1) \<Longrightarrow> anchor s1 = anchor s \<and> wcalm w w1"
  by (auto simp: reclaim_sleeper_def Let_def anchor_def split: option.splits intro!: calm_intros)

lemma new_session_anchor: "anchor (new_session env sid tok u n a seq) = (sid, u, Some a, seq)"
  by (simp add: anchor_def new_session_def)

lemma live_at:
  assumes "world_ok w" "sm_sessions (sv_sessions (wd_sv w)) (p_id (sess_of w p)) = Some p" "p_addr (sess_of w p) = Some a"
  shows "session_at a w = Some p"
  using assms by (auto simp: world_ok_def sm_ok_def index_ok_def session_at_def get_by_addr_def sess_of_def addr_key_def)

text \<open>What any step does to the session objects that exist: only the last sequence number moves, upward.\<close>

definition grows :: "world \<Rightarrow> world \<Rightarrow> bool" where
  "grows v w \<longleftrightarrow> wd_fresh v \<le> wd_fresh w \<and>
     (\<forall>p<wd_fresh v. p_last_sequence (sess_of v p) \<le> p_last_sequence (sess_of w p))"

lemma grows_step: "grows u v \<Longrightarrow> grows v w \<Longrightarrow> grows u w"
  unfolding grows_def by (meson less_le_trans order_trans)

lemma grows_anchor:
  "wd_fresh v \<le> wd_fresh w \<Longrightarrow> (\<And>p. p < wd_fresh v \<Longrightarrow> anchor (sv_heap (wd_sv w) p) = anchor (sv_heap (wd_sv v) p)) \<Longrightarrow> grows v w"
  unfolding grows_def sess_of_def using anchor_id by (metis order_refl)

lemma grows_thins: "thins v w \<Longrightarrow> grows v w"
  by (rule grows_anchor) (simp_all add: thins_def)

lemma grows_calm: "wcalm v w \<Longrightarrow> grows v w"
  by (rule grows_anchor) (simp_all add: wcalm_def)

text \<open>A handshake either leaves the sessions as they are or puts a new one at its address.\<close>

definition admitted :: "udp_addr \<Rightarrow> u32 \<Rightarrow> world \<Rightarrow> bool" where
  "admitted a seq w \<longleftrightarrow> world_ok w \<and> (\<exists>p. session_at a w = Some p \<and> p_last_sequence (sess_of w p) = seq)"

lemma admitted_calm: "admitted a seq v \<Longrightarrow> wcalm v w \<Longrightarrow> admitted a seq w"
proof -
  assume v: "admitted a seq v" and c: "wcalm v w"
  then obtain p where p: "world_ok v" "session_at a v = Some p" "p_last_sequence (sess_of v p) = seq"
    by (auto simp: admitted_def)
  have "p \<in> ran (sm_sessions (sv_sessions (wd_sv v)))"
    using p(1,2) by (auto simp: world_ok_def sm_ok_def index_ok_def session_at_def get_by_addr_def intro: ranI)
  then have "anchor (sess_of w p) = anchor (sess_of v p)" using p(1) c by (auto simp: world_ok_def wcalm_def sess_of_def)
  moreover have "session_at a w = Some p" using p(2) c by (simp add: session_at_def wcalm_def)
  ultimately show ?thesis
    using p(3) thins_ok [OF thins_calm [OF p(1) c]] by (auto simp: admitted_def anchor_def)
qed

lemma enter_world_cases:
  assumes ho: "host_ok ho" and w: "world_ok w" and e: "enter_world ho a req u seq tok w = Some w'"
  shows "wcalm w w' \<or> admitted a seq w' \<and> grows w w'"
proof -
  let ?env = "ho_env ho" and ?w0 = "w\<lparr>wd_sid_seq := wd_sid_seq w + 1\<rparr>"
  let ?nick0 = "sanitize_nickname (en_uprint ?env) (null_term_string (hq_nickname req))"
  let ?nick = "if ?nick0 = '''' then ''Stalker'' else ?nick0"
  let ?s = "new_session ?env (wd_sid_seq w + 1) tok u ?nick a seq"
  obtain s1 n1 f sv1 where l: "load_player ?env u (hex_text (hq_hwid req)) ?nick ?s (wd_sv ?w0) = ((s1, n1, f), sv1)"
    by (metis prod.exhaust)
  obtain s2 n2 w1 where r: "reclaim_sleeper u (placed s1, n1) (?w0\<lparr>wd_sv := sv1\<rparr>) = ((s2, n2), w1)" by (metis prod.exhaust)
  define p where "p = wd_fresh w1"
  define w2 where "w2 = snd (new_ptr s2 w1)"
  have np: "new_ptr s2 w1 = (p, w2)" by (simp add: p_def w2_def new_ptr_def)
  have "calm (wd_sv ?w0) sv1" using wcalm_load_player [OF calm_refl] l by (metis snd_conv)
  then have "wcalm w (?w0\<lparr>wd_sv := sv1\<rparr>)" by (intro wcalm_sv calm_intros)
  with reclaim_anchor [OF r] have c1: "wcalm w w1" by (blast intro: wcalm_trans)
  have c2: "wcalm w w2" unfolding w2_def by (rule wcalm_new_ptr [OF c1])
  note ok1 = thins_ok [OF thins_calm [OF w c1]] and ok2 = thins_ok [OF thins_calm [OF w c2]]
  have f2: "p < wd_fresh w2" "sv_sessions (wd_sv w2) = sv_sessions (wd_sv w1)" "sess_of w2 p = s2"
    by (simp_all add: p_def w2_def new_ptr_def on_sv_def upd_session_def sess_of_def)
  have p: "p < wd_fresh w2" "p \<notin> ran (sm_sessions (sv_sessions (wd_sv w2)))"
    using f2 ok1 by (auto simp: world_ok_def p_def)
  obtain ev added w3 where ad: "admit ho p w2 = Some (ev, added, w3)" and w': "w' =
      (if added then spawn_flow ho p n2 f (fold (cleanup_evicted_session ho) ev w3)
       else refuse_handshake ?env a 1 (fold (cleanup_evicted_session ho) ev w3))"
    using e l r np by (auto simp: enter_world_def Let_def split: option.splits)
  note ok3 = admit_ok [OF ho ok2 p ad]
  have c4: "wcalm w3 (fold (cleanup_evicted_session ho) ev w3)" by (intro wcalm_fold calm_intros)
  have c5: "wcalm w3 w'" unfolding w' using c4 by (intro calm_intros)
  show ?thesis
  proof (cases added)
    case False
    with ok3(5) c2 c5 show ?thesis by (blast intro: wcalm_trans)
  next
    case True
    have "anchor s2 = anchor ?s" using load_player_anchor [OF l] reclaim_anchor [OF r] by simp
    then have "anchor (sess_of w3 p) = (wd_sid_seq w + 1, u, Some a, seq)"
      using ok3(3) [of p] f2(3) new_session_anchor by simp
    moreover have "p_id (sess_of w3 p) = p_id (sess_of w2 p)" using ok3(3) [of p] by (simp add: anchor_def)
    ultimately have "admitted a seq w3"
      using ok3(1) live_at [OF ok3(1), of p a] ok3(4) [OF True] by (auto simp: admitted_def anchor_def)
    with c5 have "admitted a seq w'" by (blast intro: admitted_calm)
    moreover have "grows w2 w3" using ok3(2,3) by (intro grows_anchor) (simp_all add: sess_of_def)
    ultimately show ?thesis using grows_calm [OF c2] grows_calm [OF c5] by (blast intro: grows_step)
  qed
qed

lemma handshake_cases:
  assumes "host_ok ho" "world_ok w" "handle_handshake ho a seq buf w = Some w'"
  shows "wcalm w w' \<or> admitted a seq w' \<and> grows w w'"
proof -
  define ban where "ban u = fst (check_player_banned u (wd_sv w))" for u
  define sv1 where "sv1 u = snd (check_player_banned u (wd_sv w))" for u
  have b: "check_player_banned u (wd_sv w) = (ban u, sv1 u)" for u by (simp add: ban_def sv1_def)
  have "calm (wd_sv w) (sv1 u)" for u
    using b [of u] calm_db [OF calm_refl, of "wd_sv w" "is_player_banned u"]
    by (auto simp: check_player_banned_def split: if_splits)
  then have c: "wcalm w (w\<lparr>wd_sv := sv1 u\<rparr>)" for u by (simp add: wcalm_sv)
  have "wcalm w (refuse_handshake env a st x)" if "wcalm w x" for env st x using that by (rule wcalm_refuse)
  moreover have "wcalm w w' \<or> admitted a seq w' \<and> grows w w'" if "enter_world ho a req u seq tok (w\<lparr>wd_sv := sv1 u\<rparr>) = Some w'" for req u tok
    using enter_world_cases [OF assms(1) thins_ok [OF thins_calm [OF assms(2) c]] that] wcalm_trans [OF c] grows_calm [OF c]
    grows_step by blast
  ultimately show ?thesis
    using assms(3) c by (auto simp: handle_handshake_def Let_def b split: option.splits if_splits sum.splits prod.splits)
qed

section \<open>Packets\<close>

lemma sm_ok_fields:
  assumes ok: "sm_ok h sm" and same: "\<And>p. p_id (h' p) = p_id (h p) \<and> p_account (h' p) = p_account (h p) \<and> p_addr (h' p) = p_addr (h p)"
  shows "sm_ok h' sm"
proof -
  have "p_id (h' p) = p_id (h p)" "p_account (h' p) = p_account (h p)" "addr_key (h' p) = addr_key (h p)" for p
    using same [of p] by (simp_all add: addr_key_def)
  then show ?thesis using ok by (simp add: sm_ok_def keyed_def index_ok_def accounts_ok_def)
qed

definition gated :: "packet_header \<Rightarrow> bool" where
  "gated hdr \<longleftrightarrow> h_opcode hdr \<noteq> op_ack \<and> (reliable hdr \<or> h_opcode hdr = op_heartbeat \<or> h_opcode hdr = op_client_transform)"

lemma gate_eq: "replay_gate hdr a w = (case session_at a w of None \<Rightarrow> Some w
   | Some p \<Rightarrow> if \<not> gated hdr then Some w else if h_seq hdr \<le> p_last_sequence (sess_of w p) then None
       else Some (on_sv (upd_session p (\<lambda>s. s\<lparr>p_last_sequence := h_seq hdr\<rparr>)) w))"
  by (simp add: replay_gate_def gated_def split: option.split)

lemma gate_step:
  assumes w: "world_ok w" and g: "replay_gate hdr a w = Some w2"
  shows "world_ok w2 \<and> grows w w2 \<and> session_at a w2 = session_at a w \<and>
    (\<forall>p. gated hdr \<longrightarrow> session_at a w = Some p \<longrightarrow> p_last_sequence (sess_of w2 p) = h_seq hdr)"
proof -
  let ?bump = "\<lambda>p. on_sv (upd_session p (\<lambda>s. s\<lparr>p_last_sequence := h_seq hdr\<rparr>)) w"
  have "w2 = w \<and> (\<not> gated hdr \<or> session_at a w = None) \<or>
      (\<exists>p. session_at a w = Some p \<and> p_last_sequence (sess_of w p) < h_seq hdr \<and> w2 = ?bump p)"
    using g by (auto simp: gate_eq split: option.splits if_splits)
  then show ?thesis
  proof
    assume "w2 = w \<and> (\<not> gated hdr \<or> session_at a w = None)"
    with w show ?thesis by (auto simp: grows_def)
  next
    assume "\<exists>p. session_at a w = Some p \<and> p_last_sequence (sess_of w p) < h_seq hdr \<and> w2 = ?bump p"
    then obtain p where p: "session_at a w = Some p" "p_last_sequence (sess_of w p) < h_seq hdr" "w2 = ?bump p" by blast
    have f: "sv_sessions (wd_sv w2) = sv_sessions (wd_sv w)" "wd_fresh w2 = wd_fresh w" "max_players w2 = max_players w"
        "sv_heap (wd_sv w2) = (sv_heap (wd_sv w))(p := (sess_of w p)\<lparr>p_last_sequence := h_seq hdr\<rparr>)"
      by (simp_all add: p(3) on_sv_def upd_session_def sess_of_def max_players_def)
    have "sm_ok (sv_heap (wd_sv w2)) (sv_sessions (wd_sv w))"
      by (rule sm_ok_fields [of "sv_heap (wd_sv w)"]) (use w in \<open>simp_all add: world_ok_def f(4) sess_of_def\<close>)
    with w have "world_ok w2" unfolding world_ok_def f(1-3) by blast
    moreover have "grows w w2" using less_imp_le [OF p(2)] by (simp add: grows_def f(2) sess_of_def f(4))
    ultimately show ?thesis using p(1) by (simp add: session_at_def f(1) sess_of_def f(4))
  qed
qed

lemma dispatch_step:
  assumes "host_ok ho" "world_ok w" "dispatch ho hdr a buf w = Some w'"
  shows "thins w w' \<or> h_opcode hdr = op_handshake_req \<and> admitted a (h_seq hdr) w' \<and> grows w w'"
proof -
  consider (shake) "h_opcode hdr = op_handshake_req" | (leave) "h_opcode hdr = op_disconnect" "h_opcode hdr \<noteq> op_handshake_req"
    | (calm) "h_opcode hdr \<noteq> op_handshake_req" "h_opcode hdr \<noteq> op_disconnect" by blast
  then show ?thesis
  proof cases
    case shake
    then have h: "handle_handshake ho a (h_seq hdr) buf w = Some w'" using assms(3) by (simp add: dispatch_def Let_def)
    from handshake_cases [OF assms(1,2) h] shake show ?thesis
      using thins_calm [OF assms(2)] by blast
  next
    case leave
    then have "handle_disconnect ho a w = Some w'" using assms(3) by (simp add: dispatch_def Let_def)
    with thins_disconnect [OF assms(1,2)] show ?thesis by blast
  next
    case calm
    from assms(3) have "w' = the (dispatch ho hdr a buf w)" by simp
    also have "wcalm w \<dots>"
      unfolding dispatch_def Let_def if_not_P [OF calm(1)] if_not_P [OF calm(2)] option.sel by (intro calm_intros)
    finally have "wcalm w w'" .
    with thins_calm [OF assms(2)] show ?thesis by blast
  qed
qed

lemma handle_packet_eq:
  assumes "12 \<le> length data" "read_packet_header data = Some (hdr, buf)" "h_magic hdr = 0x5A4F"
  shows "handle_packet ho data a w = (if h_opcode hdr = op_server_query then Some (on_sv (handle_server_query a) (ack_inbound hdr a w))
    else case replay_gate hdr a (ack_inbound hdr a w) of None \<Rightarrow> Some (ack_inbound hdr a w) | Some w2 \<Rightarrow> dispatch ho hdr a buf w2)"
  using assms by (simp add: handle_packet_def Let_def)

lemma wcalm_ack_inbound [calm_intros]: "wcalm v w \<Longrightarrow> wcalm v (ack_inbound hdr a w)"
  unfolding ack_inbound_def by (intro calm_intros)

lemma packet_step:
  assumes ho: "host_ok ho" and w: "world_ok w" and h: "handle_packet ho data a w = Some w'"
  shows "world_ok w' \<and> grows w w'"
proof -
  consider "w' = w" | hdr buf where "12 \<le> length data" "read_packet_header data = Some (hdr, buf)" "h_magic hdr = 0x5A4F"
    using h by (auto simp: handle_packet_def split: if_splits option.splits)
  then show ?thesis
  proof cases
    case 1
    with w show ?thesis by (simp add: grows_def)
  next
    case (2 hdr buf)
    note h = h [unfolded handle_packet_eq [OF 2]]
    let ?w1 = "ack_inbound hdr a w"
    have c: "wcalm w ?w1" by (intro calm_intros)
    note ok1 = thins_ok [OF thins_calm [OF w c]]
    consider (q) "w' = on_sv (handle_server_query a) ?w1" | (drop) "w' = ?w1"
      | (go) w2 where "replay_gate hdr a ?w1 = Some w2" "dispatch ho hdr a buf w2 = Some w'"
      using h by (auto split: if_splits option.splits)
    then show ?thesis
    proof cases
      case q
      have "wcalm w w'" unfolding q by (intro calm_intros)
      then show ?thesis using thins_ok [OF thins_calm [OF w]] grows_calm by blast
    next
      case drop
      with ok1 grows_calm [OF c] show ?thesis by simp
    next
      case go
      from gate_step [OF ok1 go(1)] dispatch_step [OF ho _ go(2)] grows_calm [OF c] show ?thesis
        using grows_thins thins_ok by (metis admitted_def grows_step)
    qed
  qed
qed

section \<open>Everything the server does\<close>

inductive server_step :: "world \<Rightarrow> world \<Rightarrow> bool" where
  online: "server_step w (init_udp w)"
| packet: "host_ok ho \<Longrightarrow> handle_packet ho data a w = Some w' \<Longrightarrow> server_step w w'"
| tick: "host_ok ho \<Longrightarrow> server_tick ho w = Some w' \<Longrightarrow> server_step w w'"
| job: "server_step w (run_next_job w)"
| kick: "host_ok ho \<Longrightarrow> server_step w (snd (kick_session ho sid w))"
| ban: "host_ok ho \<Longrightarrow> server_step w (snd (ban_player ho uuid reason w))"
| stop: "server_step w (shut_down ho w)"

inductive server_run :: "world \<Rightarrow> world \<Rightarrow> bool" where
  here: "server_run w w"
| more: "server_run u v \<Longrightarrow> server_step v w \<Longrightarrow> server_run u w"

lemma server_step_ok:
  assumes "server_step v w" "world_ok v"
  shows "world_ok w \<and> grows v w"
  using assms
proof (induction rule: server_step.induct)
  case (online w)
  have "wcalm w (init_udp w)" by (simp add: init_udp_def on_sv_def wcalm_def)
  with online show ?case using thins_ok [OF thins_calm] grows_calm by blast
next
  case (packet ho data a w w')
  then show ?case by (blast dest: packet_step)
next
  case (tick ho w w')
  then show ?case using thins_tick thins_ok grows_thins by blast
next
  case (job w)
  have "wcalm w (run_next_job w)"
    by (auto simp: run_next_job_def split: list.split intro!: calm_intros calm_db)
  with job show ?case using thins_ok [OF thins_calm] grows_calm by blast
next
  case (kick ho w sid)
  then show ?case using thins_kick thins_ok grows_thins by blast
next
  case (ban ho w uuid reason)
  obtain r sv1 where b: "(if sv_db (wd_sv w) = None then (Inr (), wd_sv w) else with_db (ban_account uuid reason) (wd_sv w)) = (r, sv1)"
    by fastforce
  have "calm (wd_sv w) sv1"
    using b calm_db [OF calm_refl, of "wd_sv w" "ban_account uuid reason"] by (auto split: if_splits)
  then have c: "wcalm w (w\<lparr>wd_sv := sv1\<rparr>)" by (simp add: wcalm_sv)
  have t: "thins w (w\<lparr>wd_sv := sv1\<rparr>)" using ban(2) c by (rule thins_calm)
  have "thins w (snd (ban_player ho uuid reason w))"
    using t thins_trans [OF t thins_kick [OF ban(1) thins_ok [OF t]]]
    by (auto simp: ban_player_def Let_def b split: sum.split option.split)
  then show ?case using thins_ok grows_thins by blast
next
  case (stop w ho)
  have "wcalm w (shut_down ho w)" unfolding shut_down_def by (intro calm_intros calm_fold) assumption+
  with stop show ?case using thins_ok [OF thins_calm] grows_calm by blast
qed

lemma server_run_ok: "server_run v w \<Longrightarrow> world_ok v \<Longrightarrow> world_ok w \<and> grows v w"
  by (induction rule: server_run.induct) (auto simp: grows_def dest!: server_step_ok intro: order_trans)

lemma new_world_ok: "world_ok (new_world ho cfg db fl cap zs rels sq los)"
proof -
  have "sm_ok h new_session_manager" for h
    by (simp add: sm_ok_def keyed_def index_ok_def accounts_ok_def cache_ok_def new_session_manager_def)
  then show ?thesis
    by (simp add: new_world_def world_ok_def start_server_def Let_def split_def new_session_manager_def sess_count_def max_players_def
        split: option.split)
qed

section \<open>Properties\<close>

text \<open>C4: From startup on, through any packets, ticks, kicks, bans, queued writes and the shutdown, the sessions
  stay consistent: the id map, the address map and the cached list agree, no two live sessions share an address or an
  account, and there are never more than the configured number of players.\<close>

theorem sessions_stay_consistent:
  assumes "server_run (new_world ho cfg db fl cap zs rels sq los) w"
  shows "sm_ok (sv_heap (wd_sv w)) (sv_sessions (wd_sv w)) \<and>
    (0 < max_players w \<longrightarrow> int (sess_count (sv_sessions (wd_sv w))) \<le> max_players w)"
  using server_run_ok [OF assms new_world_ok] by (simp add: world_ok_def)

lemma session_at_old:
  assumes "world_ok w" "session_at a w = Some p"
  shows "p < wd_fresh w"
proof -
  have "p \<in> ran (sm_sessions (sv_sessions (wd_sv w)))"
    using assms by (auto simp: world_ok_def sm_ok_def index_ok_def session_at_def get_by_addr_def intro: ranI)
  with assms(1) show ?thesis by (auto simp: world_ok_def)
qed

lemma thins_session_at: "thins v w \<Longrightarrow> session_at a w = Some p \<Longrightarrow> session_at a v = Some p"
  by (auto simp: thins_def session_at_def get_by_addr_def dest: map_leD)

text \<open>The session a processed reliable packet came from has seen its number.\<close>

lemma processed_number:
  assumes ho: "host_ok ho" and w: "world_ok w" and r: "reliable hdr" "h_opcode hdr \<noteq> op_ack" "h_opcode hdr \<noteq> op_server_query"
    and h: "12 \<le> length data" "read_packet_header data = Some (hdr, buf)" "h_magic hdr = 0x5A4F"
    and p: "handle_packet ho data a w = Some w1" "session_at a w1 = Some p"
  shows "h_seq hdr \<le> p_last_sequence (sess_of w1 p)"
proof -
  let ?w = "ack_inbound hdr a w"
  have g: "gated hdr" using r by (simp add: gated_def)
  have "wcalm w ?w" by (intro calm_intros)
  note ok = thins_ok [OF thins_calm [OF w this]]
  show ?thesis
  proof (cases "replay_gate hdr a ?w")
    case None
    with p(1) r(3) have "w1 = ?w" by (simp add: handle_packet_eq [OF h])
    with None p(2) g show ?thesis by (simp add: gate_eq split: if_splits)
  next
    case (Some w2)
    then have d: "dispatch ho hdr a buf w2 = Some w1" using p(1) r(3) by (simp add: handle_packet_eq [OF h])
    note s = gate_step [OF ok Some]
    from dispatch_step [OF ho _ d] s consider "thins w2 w1" | "admitted a (h_seq hdr) w1" by blast
    then show ?thesis
    proof cases
      case 1
      have a2: "session_at a w2 = Some p" using thins_session_at [OF 1 p(2)] .
      then have "p_last_sequence (sess_of w2 p) = h_seq hdr" using s g by auto
      moreover have "p < wd_fresh w2" using s a2 by (intro session_at_old) blast+
      ultimately show ?thesis using grows_thins [OF 1] by (metis grows_def)
    next
      case 2
      with p(2) show ?thesis by (auto simp: admitted_def)
    qed
  qed
qed

text \<open>C5: A retransmitted packet is acknowledged and nothing else. Once the server has processed a reliable packet
  that is not itself an acknowledgement, delivering its bytes again, at any later time while the sender's address
  still has the same session, changes nothing but sending the acknowledgement again, whatever the packet and whatever
  happened in between. A server query is the one exception: it is answered before the replay gate, so its
  retransmission is acknowledged and answered again, and nothing else.\<close>

theorem replays_are_only_acked:
  assumes "host_ok ho" "world_ok w"
    and "12 \<le> length data" "read_packet_header data = Some (hdr, buf)" "h_magic hdr = 0x5A4F"
    and "reliable hdr" "h_opcode hdr \<noteq> op_ack"
    and "handle_packet ho data a w = Some w1" "session_at a w1 = Some p"
    and "server_run w1 w2" "session_at a w2 = Some p"
  shows "handle_packet ho2 data a w2 = Some (on_sv
    (\<lambda>sv. if h_opcode hdr = op_server_query then handle_server_query a (send_ack a (h_seq hdr) sv) else send_ack a (h_seq hdr) sv) w2)"
proof (cases "h_opcode hdr = op_server_query")
  case True
  then show ?thesis using assms(6,7) by (simp add: handle_packet_eq [OF assms(3-5)] ack_inbound_def on_sv_def)
next
  case False
  have ok1: "world_ok w1" using packet_step [OF assms(1,2,8)] by simp
  note run = server_run_ok [OF assms(10) ok1]
  have "h_seq hdr \<le> p_last_sequence (sess_of w1 p)"
    using processed_number [OF assms(1,2,6,7) False assms(3-5,8,9)] .
  also have "\<dots> \<le> p_last_sequence (sess_of w2 p)"
    using run session_at_old [OF ok1 assms(9)] by (simp add: grows_def)
  finally have last: "h_seq hdr \<le> p_last_sequence (sess_of w2 p)" .
  have a: "ack_inbound hdr a w2 = on_sv (send_ack a (h_seq hdr)) w2" using assms(6,7) by (simp add: ack_inbound_def)
  have "wcalm w2 (ack_inbound hdr a w2)" by (intro calm_intros)
  then have "session_at a (ack_inbound hdr a w2) = Some p" "sess_of (ack_inbound hdr a w2) p = sess_of w2 p"
    using assms(11) by (simp_all add: wcalm_def session_at_def a sess_of_def on_sv_def send_ack_def send_datagram_def
      Let_def split: sum.split)
  then have "replay_gate hdr a (ack_inbound hdr a w2) = None"
    using last assms(6,7) by (simp add: gate_eq gated_def)
  then show ?thesis using False by (simp add: handle_packet_eq [OF assms(3-5)] a)
qed

section \<open>A world to evaluate\<close>

definition demo_host :: "int \<Rightarrow> host" where
  "demo_host t = \<lparr>ho_env = demo_env t, ho_lower = map lower_char, ho_fold_eq = (\<lambda>a b. a = b), ho_order = sorted_list_of_set,
     ho_draws = (\<lambda>_. Some 7), ho_trig = demo_trig\<rparr>"

definition demo_world :: world where
  "demo_world = (new_world (demo_host 0) None None [] None [] Map.empty None (\<lambda>_ _ _. True))
     \<lparr>wd_sv := demo_server (demo_db []), wd_fresh := 1\<rparr>"

definition demo_beat :: bytes where
  "demo_beat = put_struct (packet_header_fields \<lparr>h_magic = 0x5A4F, h_protocol = 1, h_flags = 1, h_seq = 5, h_opcode = 4, h_length = 0\<rparr>)"

lemma demo_host_ok: "host_ok (demo_host t)"
  by (simp add: host_ok_def demo_host_def)

lemma demo_sessions:
  "sm_sessions (sv_sessions (demo_server d)) = [1 \<mapsto> 0]" "sm_cached (sv_sessions (demo_server d)) = [0]"
  "sm_by_addr (sv_sessions (demo_server d)) = [addr_string demo_endpoint \<mapsto> 0]"
  by (simp_all add: demo_server_def add_session_def new_session_manager_def demo_heap_fields update_cache_def put_addr_def
      demo_endpoint_def)

lemma demo_world_ok: "world_ok demo_world"
proof -
  have "sm_ok demo_heap (sv_sessions (demo_server d))" for d
    by (auto simp: sm_ok_def keyed_def index_ok_def accounts_ok_def cache_ok_def demo_sessions demo_heap_def demo_session_def
        addr_key_def demo_endpoint_def)
  then show ?thesis
    by (simp add: world_ok_def demo_world_def demo_sessions max_players_def demo_server_fields)
qed

lemma demo_beat_read:
  "12 \<le> length demo_beat" "read_packet_header demo_beat = Some (\<lparr>h_magic = 0x5A4F, h_protocol = 1, h_flags = 1, h_seq = 5,
     h_opcode = 4, h_length = 0\<rparr>, [])"
proof -
  show "12 \<le> length demo_beat" by (simp add: demo_beat_def put_struct_def packet_header_fields_def)
  show "read_packet_header demo_beat = Some (\<lparr>h_magic = 0x5A4F, h_protocol = 1, h_flags = 1, h_seq = 5, h_opcode = 4, h_length = 0\<rparr>, [])"
    using read_struct_put [of packet_header_schema "packet_header_fields \<lparr>h_magic = 0x5A4F, h_protocol = 1, h_flags = 1, h_seq = 5,
      h_opcode = 4, h_length = 0\<rparr>" packet_header_of "[]"]
    by (simp add: read_packet_header_def demo_beat_def packet_header_schema_def packet_header_fields_def packet_header_of_def)
qed

lemma demo_at: "session_at demo_endpoint demo_world = Some 0"
  by (simp add: session_at_def get_by_addr_def demo_world_def demo_sessions)

theorem sessions_stay_consistent_witness:
  "let w = init_udp (new_world (demo_host 0) None None [] None [] Map.empty None (\<lambda>_ _ _. True))
   in sm_ok (sv_heap (wd_sv w)) (sv_sessions (wd_sv w))"
proof -
  have "server_run (new_world (demo_host 0) None None [] None [] Map.empty None (\<lambda>_ _ _. True))
      (init_udp (new_world (demo_host 0) None None [] None [] Map.empty None (\<lambda>_ _ _. True)))"
    by (rule server_run.more [OF server_run.here server_step.online])
  from sessions_stay_consistent [OF this] show ?thesis by (simp add: Let_def)
qed

theorem replays_are_only_acked_witness:
  "\<exists>w1. handle_packet (demo_host 9) demo_beat demo_endpoint demo_world = Some w1 \<and>
     handle_packet (demo_host 10) demo_beat demo_endpoint w1 = Some (on_sv (send_ack demo_endpoint 5) w1)"
proof -
  let ?hdr = "\<lparr>h_magic = 0x5A4F, h_protocol = 1, h_flags = 1, h_seq = 5, h_opcode = 4, h_length = 0\<rparr> :: packet_header"
  let ?w = "ack_inbound ?hdr demo_endpoint demo_world"
  have r: "reliable ?hdr" "h_opcode ?hdr \<noteq> op_ack" "h_opcode ?hdr \<noteq> op_server_query" "h_magic ?hdr = 0x5A4F"
    by (simp_all add: reliable_def flag_reliable_def op_ack_def op_server_query_def)
  have c: "wcalm demo_world ?w" by (intro calm_intros)
  have a: "session_at demo_endpoint ?w = Some 0" using c demo_at by (simp add: wcalm_def session_at_def)
  have "anchor (sess_of ?w 0) = anchor (demo_heap 0)"
    using c by (simp add: wcalm_def sess_of_def demo_world_def demo_server_fields)
  then have "p_last_sequence (sess_of ?w 0) = 0" by (simp add: anchor_def demo_heap_def demo_session_def)
  then obtain w2 where g: "replay_gate ?hdr demo_endpoint ?w = Some w2"
    using a r by (simp add: gate_eq gated_def)
  have s: "session_at demo_endpoint w2 = Some 0"
    using gate_step [OF thins_ok [OF thins_calm [OF demo_world_ok c]] g] a by simp
  let ?w1 = "handle_heartbeat (demo_host 9) demo_endpoint [] w2"
  have d: "dispatch (demo_host 9) ?hdr demo_endpoint [] w2 = Some ?w1"
    by (simp add: dispatch_def Let_def op_handshake_req_def op_disconnect_def op_heartbeat_def)
  then have h: "handle_packet (demo_host 9) demo_beat demo_endpoint demo_world = Some ?w1"
    using g r by (simp add: handle_packet_eq [OF demo_beat_read r(4)])
  have "wcalm w2 ?w1" by (intro calm_intros)
  with s have s1: "session_at demo_endpoint ?w1 = Some 0" by (simp add: wcalm_def session_at_def)
  from replays_are_only_acked [OF demo_host_ok demo_world_ok demo_beat_read r(4) r(1,2) h s1 server_run.here s1, of "demo_host 10"] h r(3)
  show ?thesis by simp
qed

end
