(* ===== verification/Admin.thy ===== *)
theory Admin
  imports SessionLife
begin

text \<open>
  The administration pipe of internal/game/admin.go: one line is one command, a connection is authorised by an
  \<open>auth\<close> line with the server's token. The pipe or socket itself and the environment variables are parameters: a
  connection is the bytes it sends. \<open>err_text\<close> is the text of a driver error; \<open>started\<close> is the server's start time.
\<close>

record admin_server =
  ad_token :: string
  ad_authenticated :: bool

definition default_admin_pipe :: string where
  "default_admin_pipe = [CHR 0x5C, CHR 0x5C, CHR ''.'', CHR 0x5C] @ ''pipe'' @ [CHR 0x5C] @ ''zone_admin''"

definition admin_pipe_name :: "config option \<Rightarrow> string option \<Rightarrow> string" where
  "admin_pipe_name cfg arg = (case arg of
     Some n \<Rightarrow> if n \<noteq> '''' then n else (case cfg of None \<Rightarrow> default_admin_pipe
        | Some c \<Rightarrow> if cf_admin_pipe c \<noteq> '''' then cf_admin_pipe c else default_admin_pipe)
   | None \<Rightarrow> (case cfg of None \<Rightarrow> default_admin_pipe
        | Some c \<Rightarrow> if cf_admin_pipe c \<noteq> '''' then cf_admin_pipe c else default_admin_pipe))"

text \<open>The two values are those of \<open>ZONE_ADMIN_TOKEN\<close> and \<open>ZONE_ADMIN_SECRET\<close>.\<close>

definition new_admin_server :: "string \<Rightarrow> string \<Rightarrow> admin_server" where
  "new_admin_server token secret = \<lparr>ad_token = (if token = '''' then secret else token), ad_authenticated = False\<rparr>"

definition set_auth_token :: "string \<Rightarrow> admin_server \<Rightarrow> admin_server" where
  "set_auth_token token a = a\<lparr>ad_token := token, ad_authenticated := False\<rparr>"

definition check_token :: "string \<Rightarrow> admin_server \<Rightarrow> bool" where
  "check_token token a \<longleftrightarrow> ad_token a = '''' \<or> ad_token a = token"

definition admin_authenticate :: "string \<Rightarrow> admin_server \<Rightarrow> bool \<times> admin_server" where
  "admin_authenticate token a = (if check_token token a then (True, a\<lparr>ad_authenticated := True\<rparr>) else (False, a))"

section \<open>Texts\<close>

text \<open>\<open>strings.SplitN(s, " ", 2)\<close>: the part before the first blank and, if there is one, the rest.\<close>

definition split_blank :: "string \<Rightarrow> string \<times> string option" where
  "split_blank s = (case dropWhile (\<lambda>c. c \<noteq> CHR '' '') s of [] \<Rightarrow> (s, None)
     | _ # rest \<Rightarrow> (takeWhile (\<lambda>c. c \<noteq> CHR '' '') s, Some rest))"

definition command_of :: "(string \<Rightarrow> string) \<Rightarrow> string \<Rightarrow> string \<times> string" where
  "command_of lower line = (case split_blank line of (cmd, rest) \<Rightarrow>
     (lower cmd, case rest of None \<Rightarrow> '''' | Some r \<Rightarrow> trim_space r))"

definition parse_uint32 :: "string \<Rightarrow> u32 option" where
  "parse_uint32 s = (if s = '''' \<or> \<not> list_all is_digit s \<or> 2 ^ 32 \<le> digits_value s then None
     else Some (word_of_int (digits_value s)))"

text \<open>\<open>Duration.Round(time.Second)\<close> and \<open>Duration.String\<close> of a duration that is not negative.\<close>

definition round_second :: "duration \<Rightarrow> duration" where
  "round_second d = (let r = d mod second in if r + r < second then d - r
     else if d + second - r < 2 ^ 63 then d + second - r else 2 ^ 63 - 1)"

definition duration_text :: "duration \<Rightarrow> string" where
  "duration_text d = (let s = d div second; h = s div 3600; m = (s div 60) mod 60 in
     (if 0 < h then itoa h @ ''h'' else '''') @ (if 0 < h \<or> 0 < m then itoa m @ ''m'' else '''') @ itoa (s mod 60) @ ''s'')"

definition answer :: "string \<Rightarrow> string" where
  "answer s = s @ [CHR 0x0A]"

section \<open>Commands\<close>

definition admin_status :: "host \<Rightarrow> gotime \<Rightarrow> world \<Rightarrow> string" where
  "admin_status ho started w = (case get_stats (en_now (ho_env ho)) started w of (active, hz, uptime) \<Rightarrow>
     answer (''OK active_sessions='' @ itoa (int active) @ '' tick_rate='' @ itoa hz @ '' uptime='' @ duration_text (round_second uptime)))"

definition admin_kick :: "host \<Rightarrow> string \<Rightarrow> world \<Rightarrow> string \<times> world" where
  "admin_kick ho args w = (if args = '''' then (answer ''ERR usage: kick <session_id>'', w) else case parse_uint32 args of
     None \<Rightarrow> (answer ''ERR invalid session_id'', w)
   | Some sid \<Rightarrow> (case kick_session ho sid w of (ok, w1) \<Rightarrow>
       (answer (if ok then ''OK session '' @ itoa (uint sid) @ '' kicked'' else ''ERR session '' @ itoa (uint sid) @ '' not found''), w1)))"

definition admin_ban :: "host \<Rightarrow> (gerr \<Rightarrow> string) \<Rightarrow> string \<Rightarrow> world \<Rightarrow> string \<times> world" where
  "admin_ban ho err_text args w = (if args = '''' then (answer ''ERR usage: ban <uuid> <reason>'', w) else
     case split_blank args of (uuid, rest) \<Rightarrow>
       let given = (case rest of None \<Rightarrow> '''' | Some r \<Rightarrow> trim_space r);
           reason = (if given = '''' then ''banned by admin'' else given) in
       (case ban_player ho uuid reason w of
          (Some e, w1) \<Rightarrow> (answer (''ERR failed to ban '' @ uuid @ '': '' @ err_text e), w1)
        | (None, w1) \<Rightarrow> (answer (''OK account '' @ uuid @ '' banned: '' @ reason), w1)))"

definition admin_broadcast :: "host \<Rightarrow> string \<Rightarrow> world \<Rightarrow> string \<times> world" where
  "admin_broadcast ho args w = (if args = '''' then (answer ''ERR usage: broadcast <message>'', w)
     else (answer (''OK broadcast sent: '' @ args), on_sv (broadcast_chat (ho_env ho) 0 args) w))"

definition admin_auth :: "string \<Rightarrow> admin_server \<Rightarrow> string \<times> admin_server" where
  "admin_auth args a = (if ad_token a = '''' then (answer ''OK no authentication required'', a)
     else if args = '''' then (answer ''ERR usage: auth <token>'', a)
     else case admin_authenticate args a of (ok, a1) \<Rightarrow> (answer (if ok then ''OK authenticated'' else ''ERR invalid token''), a1))"

definition execute_command_as :: "host \<Rightarrow> (gerr \<Rightarrow> string) \<Rightarrow> gotime \<Rightarrow> string \<Rightarrow> bool \<Rightarrow> admin_server \<times> world \<Rightarrow> string \<times> admin_server \<times> world" where
  "execute_command_as ho err_text started line0 authed st = (case st of (a, w) \<Rightarrow> let line = trim_space line0 in
     if line = '''' then ('''', a, w) else
     case command_of (ho_lower ho) line of (cmd, args) \<Rightarrow>
       let locked = (ad_token a \<noteq> '''' \<and> \<not> authed); refused = (answer ''ERR unauthorized: authentication required'', a, w) in
       if cmd = ''auth'' then (case admin_auth args a of (r, a1) \<Rightarrow> (r, a1, w))
       else if cmd = ''status'' then if locked then refused else (admin_status ho started w, a, w)
       else if cmd = ''kick'' then if locked then refused else (case admin_kick ho args w of (r, w1) \<Rightarrow> (r, a, w1))
       else if cmd = ''ban'' then if locked then refused else (case admin_ban ho err_text args w of (r, w1) \<Rightarrow> (r, a, w1))
       else if cmd = ''broadcast'' then if locked then refused else (case admin_broadcast ho args w of (r, w1) \<Rightarrow> (r, a, w1))
       else (answer (''ERR unknown command: '' @ cmd), a, w))"

definition execute_command :: "host \<Rightarrow> (gerr \<Rightarrow> string) \<Rightarrow> gotime \<Rightarrow> string \<Rightarrow> admin_server \<times> world \<Rightarrow> string \<times> admin_server \<times> world" where
  "execute_command ho err_text started line st = execute_command_as ho err_text started line (ad_authenticated (fst st)) st"

section \<open>Connections\<close>

text \<open>The lines of a \<open>bufio.Scanner\<close>: without their end, and none after one that does not fit in 64 KiB.\<close>

definition drop_cr :: "string \<Rightarrow> string" where
  "drop_cr s = (if s \<noteq> '''' \<and> last s = CHR 0x0D then butlast s else s)"

function scan_lines :: "string \<Rightarrow> string list" where
  "scan_lines s = (let l = takeWhile (\<lambda>c. c \<noteq> CHR 0x0A) s; r = dropWhile (\<lambda>c. c \<noteq> CHR 0x0A) s in
     if s = '''' \<or> 65536 \<le> length l then [] else drop_cr l # scan_lines (tl r))"
  by pat_completeness auto
termination
proof (relation "measure length")
  fix l r s :: string
  assume "r = dropWhile (\<lambda>c. c \<noteq> CHR 0x0A) s" "\<not> (s = '''' \<or> 65536 \<le> length l)"
  moreover have "length (dropWhile (\<lambda>c. c \<noteq> CHR 0x0A) s) \<le> length s" by (rule length_dropWhile_le)
  ultimately show "(tl r, s) \<in> measure length" by (cases s) auto
qed simp

text \<open>One line of a connection: its \<open>auth\<close> is checked against the token and unlocks this connection only.\<close>

definition connection_line :: "host \<Rightarrow> (gerr \<Rightarrow> string) \<Rightarrow> gotime \<Rightarrow> string \<Rightarrow> bool \<Rightarrow> admin_server \<times> world \<Rightarrow> string \<times> bool \<times> admin_server \<times> world" where
  "connection_line ho err_text started line authed st = (let a = fst st; t = trim_space line in
     if t = '''' then ('''', authed, st) else
     case command_of (ho_lower ho) t of (cmd, token) \<Rightarrow>
       if cmd = ''auth'' then
         (if \<not> check_token token a then (answer ''ERR invalid token'', authed, st)
          else if ad_token a = '''' then (answer ''OK no authentication required'', True, st)
          else if token \<noteq> '''' then (answer ''OK authenticated'', True, st)
          else (answer ''ERR usage: auth <token>'', authed, st))
       else (case execute_command_as ho err_text started line authed st of (r, st1) \<Rightarrow> (r, authed, st1)))"

fun handle_connection :: "(gerr \<Rightarrow> string) \<Rightarrow> gotime \<Rightarrow> (host \<times> string) list \<Rightarrow> bool \<Rightarrow> admin_server \<times> world \<Rightarrow> string \<times> admin_server \<times> world" where
  "handle_connection err_text started [] authed st = ('''', st)"
| "handle_connection err_text started ((ho, line) # ls) authed st =
     (case connection_line ho err_text started line authed st of (r, authed1, st1) \<Rightarrow>
       (case handle_connection err_text started ls authed1 st1 of (rs, st2) \<Rightarrow> (r @ rs, st2)))"

section \<open>Many connections\<close>

text \<open>Lines of any number of connections in the order in which they are executed, each with its connection's number.\<close>

type_synonym admin_line = "nat \<times> host \<times> string"

definition admin_step :: "(gerr \<Rightarrow> string) \<Rightarrow> gotime \<Rightarrow> admin_line \<Rightarrow> (nat \<Rightarrow> bool) \<times> admin_server \<times> world \<Rightarrow> (nat \<Rightarrow> bool) \<times> admin_server \<times> world" where
  "admin_step err_text started e st = (case e of (c, ho, line) \<Rightarrow> (case st of (authed, s) \<Rightarrow>
     (case connection_line ho err_text started line (authed c) s of (_, ok, s1) \<Rightarrow> (authed(c := ok), s1))))"

definition admin_run :: "(gerr \<Rightarrow> string) \<Rightarrow> gotime \<Rightarrow> admin_line list \<Rightarrow> admin_server \<times> world \<Rightarrow> admin_server \<times> world" where
  "admin_run err_text started es s = snd (fold (admin_step err_text started) es (\<lambda>_. ad_token (fst s) = '''', s))"

definition unlocks :: "string \<Rightarrow> admin_line \<Rightarrow> bool" where
  "unlocks token e = (case e of (c, ho, line) \<Rightarrow> command_of (ho_lower ho) (trim_space line) = (''auth'', token))"

lemma line_keeps_token: "connection_line ho et st line authed (a, w) = (r, ok, a', w') \<Longrightarrow> a' = a"
  by (auto simp: connection_line_def execute_command_as_def Let_def split: if_splits prod.splits)

lemma locked_line:
  assumes "connection_line ho et st line False (a, w) = (r, ok, s)" "ad_token a \<noteq> ''''" "\<not> unlocks (ad_token a) (c, ho, line)"
  shows "\<not> ok \<and> s = (a, w)"
  using assms
  by (auto simp: connection_line_def execute_command_as_def unlocks_def check_token_def Let_def split: if_splits prod.splits)

lemma locked_run:
  assumes "\<forall>e \<in> set es. fst e = c \<longrightarrow> \<not> unlocks (ad_token a) e" "ad_token a \<noteq> ''''" "\<not> au c" "\<forall>k. k \<noteq> c \<longrightarrow> bu k = au k"
  shows "snd (fold (admin_step et st) es (au, a, w)) = snd (fold (admin_step et st) (filter (\<lambda>e. fst e \<noteq> c) es) (bu, a, w))"
  using assms
proof (induction es arbitrary: au bu w)
  case Nil
  then show ?case by simp
next
  case (Cons e es)
  obtain k ho line where e: "e = (k, ho, line)" by (cases e) auto
  obtain r ok a1 w1 where l: "connection_line ho et st line (au k) (a, w) = (r, ok, a1, w1)" by (metis prod_cases4)
  have a1: "a1 = a" by (rule line_keeps_token [OF l])
  show ?case
  proof (cases "k = c")
    case True
    have "\<not> ok \<and> (a1, w1) = (a, w)" using locked_line [of ho et st line a w r ok "(a1, w1)" c] l True Cons.prems e by simp
    then have "admin_step et st e (au, a, w) = (au, a, w)"
      using l True Cons.prems(3) by (simp add: e admin_step_def fun_upd_idem)
    then show ?thesis using Cons.IH [of au bu w] Cons.prems True e by simp
  next
    case False
    then have "bu k = au k" using Cons.prems(4) by simp
    with l have "admin_step et st e (au, a, w) = (au(k := ok), a, w1)" "admin_step et st e (bu, a, w) = (bu(k := ok), a, w1)"
      by (simp_all add: e admin_step_def a1)
    moreover have "\<forall>e \<in> set es. fst e = c \<longrightarrow> \<not> unlocks (ad_token a) e" using Cons.prems(1) by simp
    moreover have "\<not> (au(k := ok)) c" "\<forall>j. j \<noteq> c \<longrightarrow> (bu(k := ok)) j = (au(k := ok)) j" using Cons.prems(3,4) False by simp_all
    ultimately show ?thesis
      using Cons.IH [OF _ Cons.prems(2), of "au(k := ok)" "bu(k := ok)" w1] False e by (simp del: fun_upd_apply)
  qed
qed

text \<open>C10: A connection to the administration pipe that never presents the token has no influence. With a token set, the
  server ends in the same state whatever such a connection sends, between whatever lines of other, authorised
  connections, as if it had not been there; in particular another connection's \<open>auth\<close> does not unlock it.\<close>

theorem admin_needs_the_token:
  assumes "ad_token a \<noteq> ''''" "\<forall>e \<in> set es. fst e = c \<longrightarrow> \<not> unlocks (ad_token a) e"
  shows "admin_run err_text started es (a, w) = admin_run err_text started (filter (\<lambda>e. fst e \<noteq> c) es) (a, w)"
  using locked_run [OF assms(2,1), of "\<lambda>_. False" "\<lambda>_. False"] assms(1) by (simp add: admin_run_def)


theorem admin_needs_the_token_witness:
  "admin_run (\<lambda>_. ''disk full'') 0 [(1, demo_host 3, ''kick 1'')] (new_admin_server ''sesame'' '''', demo_world) =
   (new_admin_server ''sesame'' '''', demo_world)"
proof -
  have t: "trim_space ''kick 1'' = ''kick 1''" by (rule trim_space_id) (simp_all add: space_encodings_def)
  have "ad_token (new_admin_server ''sesame'' '''') \<noteq> ''''" by (simp add: new_admin_server_def)
  moreover have "\<forall>e \<in> set [(1, demo_host 3, ''kick 1'')]. fst e = 1 \<longrightarrow> \<not> unlocks (ad_token (new_admin_server ''sesame'' '''')) e"
    by (simp add: unlocks_def t command_of_def split_blank_def demo_host_def lower_char_def)
  ultimately show ?thesis
    using admin_needs_the_token [of "new_admin_server ''sesame'' ''''" "[(1, demo_host 3, ''kick 1'')]" 1 "\<lambda>_. ''disk full''" 0 demo_world]
    by (simp add: admin_run_def [of _ _ "[]"])
qed


end
