(* ===== verification/Answers.thy ===== *)
theory Answers
  imports SessionLife
begin

text \<open>
  The server does not hang: every packet handler and every tick returns. The loops that may run for ever are the
  draw of a session token, the search for a free name and the search for a free sleeper id.
\<close>

lemma draw_token_returns:
  assumes "draws k \<noteq> Some 0" "j \<le> k"
  shows "draw_token draws j \<noteq> None"
  using assms(2)
proof (induction "k - j" arbitrary: j)
  case 0
  then have "draws j \<noteq> Some 0" using assms(1) by simp
  then show ?case by (subst draw_token.simps) (auto split: option.split)
next
  case (Suc n)
  then have "draw_token draws (j + 1) \<noteq> None" by simp
  then show ?case by (subst draw_token.simps) (auto split: option.split)
qed

lemma unique_name_returns:
  assumes "keeps_suffix lower" "length order < fuel"
  shows "ensure_unique_name lower order fuel (Some p) sm h \<noteq> None"
proof -
  have "length (taken_names lower h order p sm) < fuel"
    using assms(2) length_filter_le [of "\<lambda>i. sm_sessions sm i \<noteq> None \<and> sm_sessions sm i \<noteq> Some p" order]
    by (simp add: taken_names_def del: length_filter_le)
  from name_loop_total [OF assms(1) this] show ?thesis
    by (auto simp: ensure_unique_name_def unique_name_def Let_def)
qed

lemma admit_returns: "keeps_suffix (ho_lower ho) \<Longrightarrow> admit ho p w \<noteq> None"
  using unique_name_returns by (auto simp: admit_def Let_def split: prod.split bool.split)

lemma handshake_returns:
  assumes "keeps_suffix (ho_lower ho)" "ho_draws ho k \<noteq> Some 0"
  shows "handle_handshake ho a seq buf w \<noteq> None"
proof -
  have n: "(admit ho p w = None) = False" for p w using admit_returns [OF assms(1)] by blast
  have e: "enter_world ho a req u seq t w \<noteq> None" for req u t w
    unfolding enter_world_def Let_def split_def by (simp add: option.case_eq_if n)
  have "generate_session_token (ho_draws ho) \<noteq> None"
    using draw_token_returns [of "ho_draws ho" k 0] assms(2) by (simp add: generate_session_token_def)
  with e show ?thesis by (auto simp: handle_handshake_def Let_def split: option.split prod.split)
qed

lemma leave_sleeper_returns: "p_id s \<noteq> 0 \<Longrightarrow> leave_sleeper env x s w \<noteq> None"
  by (auto simp: leave_sleeper_def create_sleeper_def Let_def split: option.split)

lemma disconnect_returns:
  assumes "\<And>p. session_at a w = Some p \<Longrightarrow> p_id (sess_of w p) \<noteq> 0"
  shows "handle_disconnect ho a w \<noteq> None"
  using assms leave_sleeper_returns by (auto simp: handle_disconnect_def Let_def split: option.split)

lemma dispatch_returns:
  assumes "keeps_suffix (ho_lower ho)" "ho_draws ho k \<noteq> Some 0" "\<And>p. session_at a w = Some p \<Longrightarrow> p_id (sess_of w p) \<noteq> 0"
  shows "dispatch ho hdr a buf w \<noteq> None"
  using handshake_returns [OF assms(1,2)] disconnect_returns [OF assms(3)] by (simp add: dispatch_def Let_def)

text \<open>A live session has its key as id.\<close>

definition no_session_0 :: "world \<Rightarrow> bool" where
  "no_session_0 w \<longleftrightarrow> get_by_id 0 (sv_sessions (wd_sv w)) = None"

lemma live_nonzero:
  assumes "world_ok w" "no_session_0 w" "p \<in> ran (sm_sessions (sv_sessions (wd_sv w)))"
  shows "p_id (sess_of w p) \<noteq> 0"
proof -
  obtain i where i: "sm_sessions (sv_sessions (wd_sv w)) i = Some p" using assms(3) by (auto simp: ran_def)
  then have "p_id (sess_of w p) = i" using assms(1) by (auto simp: world_ok_def sm_ok_def keyed_def sess_of_def)
  with i assms(2) show ?thesis by (auto simp: no_session_0_def get_by_id_def)
qed

lemma at_nonzero: "world_ok w \<Longrightarrow> no_session_0 w \<Longrightarrow> session_at a w = Some p \<Longrightarrow> p_id (sess_of w p) \<noteq> 0"
  by (rule live_nonzero) (auto simp: world_ok_def sm_ok_def index_ok_def session_at_def get_by_addr_def intro: ranI)

lemma no_session_0_thins: "thins v w \<Longrightarrow> no_session_0 v \<Longrightarrow> no_session_0 w"
  by (cases "sm_sessions (sv_sessions (wd_sv w)) 0") (auto simp: thins_def no_session_0_def get_by_id_def dest: map_leD)

lemma packet_returns:
  assumes "world_ok w" "no_session_0 w" "keeps_suffix (ho_lower ho)" "ho_draws ho k \<noteq> Some 0"
  shows "handle_packet ho data a w \<noteq> None"
proof -
  have "dispatch ho hdr a buf w2 \<noteq> None" if g: "replay_gate hdr a (ack_inbound hdr a w) = Some w2" for hdr buf w2
  proof -
    have c: "wcalm w (ack_inbound hdr a w)" by (intro calm_intros)
    note t = thins_calm [OF assms(1) c]
    have w2: "world_ok w2" using gate_step [OF thins_ok [OF t] g] by blast
    have "sv_sessions (wd_sv w2) = sv_sessions (wd_sv (ack_inbound hdr a w))"
      using g by (auto simp: replay_gate_def on_sv_def upd_session_def split: option.splits if_splits)
    then have "no_session_0 w2" using no_session_0_thins [OF t assms(2)] by (simp add: no_session_0_def)
    from dispatch_returns [OF assms(3,4), of a w2] at_nonzero [OF w2 this] show ?thesis by blast
  qed
  then show ?thesis by (simp add: handle_packet_def Let_def split: option.split prod.split)
qed

section \<open>Ticks\<close>

lemma expire_returns: "p_id (sess_of w p) \<noteq> 0 \<Longrightarrow> expire_session ho p w \<noteq> None"
proof -
  assume "p_id (sess_of w p) \<noteq> 0"
  then have "leave_sleeper env x (sess_of w p) v \<noteq> None" for env x v by (rule leave_sleeper_returns)
  then show ?thesis unfolding expire_session_def by (simp only: Let_def not_False_eq_True)
qed

lemma sessions_return:
  assumes "host_ok ho" "thins v w" "\<forall>p \<in> set ps. p < wd_fresh v \<and> p_id (sess_of v p) \<noteq> 0"
  shows "tick_sessions ho n ps w \<noteq> None"
  using assms(2,3)
proof (induction ps arbitrary: w)
  case Nil
  then show ?case by simp
next
  case (Cons p ps)
  have "anchor (sess_of w p) = anchor (sess_of v p)" using Cons.prems by (simp add: thins_def sess_of_def)
  from anchor_id [OF this] have "p_id (sess_of w p) = p_id (sess_of v p)" by blast
  then have p: "p_id (sess_of w p) \<noteq> 0" using Cons.prems(2) by simp
  show ?case
  proof (cases "stale (en_now (ho_env ho)) w (sess_of w p)")
    case True
    obtain x where x: "expire_session ho p w = Some x" using expire_returns [OF p] by blast
    have "thins v x" by (rule thins_trans [OF Cons.prems(1) thins_expire [OF assms(1) thins_ok [OF Cons.prems(1)] x]])
    from Cons.IH [OF this] Cons.prems(2) True x show ?thesis by simp
  next
    case False
    have "thins v (checkpoint_session ho n p w)" using Cons.prems(1) by (rule thins_step) (intro calm_intros)
    from Cons.IH [OF this] Cons.prems(2) False show ?thesis by simp
  qed
qed

lemma tick_returns:
  assumes ho: "host_ok ho" and w: "world_ok w" "no_session_0 w"
  shows "server_tick ho w \<noteq> None"
proof -
  obtain credit w1 where c: "credit_play_time (en_now (ho_env ho)) w = (credit, w1)" by fastforce
  let ?w2 = "tick_sleepers ho (sweep_due ho (tick_groups ho w1))"
  have "wcalm w w1" using wcalm_credit [OF wcalm_refl, of w "en_now (ho_env ho)"] by (simp add: c)
  then have "wcalm w ?w2" by (intro calm_intros)
  note t = thins_calm [OF w(1) this]
  note ok = thins_ok [OF t]
  have "p \<in> ran (sm_sessions (sv_sessions (wd_sv ?w2)))" if "p \<in> set (get_all (sv_sessions (wd_sv ?w2)))" for p
    using ok that by (auto simp: world_ok_def sm_ok_def cache_ok_def get_all_def)
  then have "\<forall>p \<in> set (get_all (sv_sessions (wd_sv ?w2))). p < wd_fresh ?w2 \<and> p_id (sess_of ?w2 p) \<noteq> 0"
    using live_nonzero [OF ok no_session_0_thins [OF t w(2)]] ok unfolding world_ok_def by blast
  from sessions_return [OF ho thins_refl [OF ok] this] show ?thesis by (simp add: server_tick_def c Let_def)
qed

text \<open>C7: The server always answers: whatever bytes arrive, the handling of a packet returns, and so does every tick, as
  long as no session has the id 0 (which no handshake gives out before the counter wraps), lower-casing leaves the
  suffixes that the server appends to names alone, and the random source does not draw 0 for ever.\<close>

theorem server_never_hangs:
  assumes "host_ok ho" "world_ok w" "get_by_id 0 (sv_sessions (wd_sv w)) = None"
    and "keeps_suffix (ho_lower ho)" "ho_draws ho k \<noteq> Some 0"
  shows "handle_packet ho data a w \<noteq> None \<and> server_tick ho w \<noteq> None"
  using packet_returns [OF assms(2) _ assms(4,5)] tick_returns [OF assms(1,2)] assms(3) by (simp add: no_session_0_def)

theorem server_never_hangs_witness:
  "handle_packet (demo_host 4) demo_beat demo_endpoint demo_world \<noteq> None \<and> server_tick (demo_host 4) demo_world \<noteq> None"
proof (rule server_never_hangs [OF demo_host_ok demo_world_ok])
  show "get_by_id 0 (sv_sessions (wd_sv demo_world)) = None" by (simp add: get_by_id_def demo_world_def demo_sessions)
  show "keeps_suffix (ho_lower (demo_host 4))" using keeps_suffix_ascii by (simp add: demo_host_def)
  show "ho_draws (demo_host 4) 0 \<noteq> Some 0" by (simp add: demo_host_def)
qed

end
