(* ===== verification/RateLimit.thy ===== *)
theory RateLimit
  imports NetAddr GoFloat
begin

text \<open>
  The token bucket per IP address of network/udp_listener.go. Tokens are \<open>float64\<close>; a bucket starts full, gains
  \<open>rate\<close> tokens a second up to its capacity and pays one token per packet; buckets idle for more than a minute are
  dropped at the next cleanup. \<open>lastClean\<close> is \<open>None\<close> for the zero time.
\<close>

record bucket =
  bk_tokens :: f64
  bk_updated :: gotime

record ip_limiter =
  il_buckets :: "string \<Rightarrow> bucket option"
  il_rate :: f64
  il_capacity :: f64
  il_clean :: "gotime option"

definition new_ip_rate_limiter :: "gotime \<Rightarrow> f64 \<Rightarrow> f64 \<Rightarrow> ip_limiter" where
  "new_ip_rate_limiter now rate cap = \<lparr>il_buckets = Map.empty, il_rate = rate, il_capacity = cap, il_clean = Some now\<rparr>"

text \<open>\<open>Duration.Seconds\<close>: the whole seconds and the rest, both truncated towards zero, are added as floats.\<close>

definition seconds_f64 :: "duration \<Rightarrow> f64" where
  "seconds_f64 d = (let s = (if d < 0 then - 1 else 1); n = \<bar>d\<bar> in
     add64 (rnd64 (of_int (s * (n div second)))) (fdiv_const rnd64 (Fin (of_int (s * (n mod second)))) 1000000000))"

definition limiter_cleanup :: "gotime \<Rightarrow> ip_limiter \<Rightarrow> ip_limiter" where
  "limiter_cleanup now r = r\<lparr>il_clean := Some now, il_buckets := (\<lambda>ip. case il_buckets r ip of
     None \<Rightarrow> None | Some b \<Rightarrow> if 60 * second < time_sub now (bk_updated b) then None else Some b)\<rparr>"

definition set_rate_limit :: "f64 \<Rightarrow> f64 \<Rightarrow> ip_limiter \<Rightarrow> ip_limiter" where
  "set_rate_limit rate cap r = r\<lparr>il_rate := rate, il_capacity := cap\<rparr>"

definition cleanup_due :: "gotime \<Rightarrow> ip_limiter \<Rightarrow> ip_limiter" where
  "cleanup_due now r = (case il_clean r of
     None \<Rightarrow> r\<lparr>il_clean := Some now\<rparr>
   | Some c \<Rightarrow> if now < c then r\<lparr>il_clean := Some now\<rparr>
       else if 60 * second \<le> time_sub now c then limiter_cleanup now r else r)"

definition refill :: "f64 \<Rightarrow> f64 \<Rightarrow> gotime \<Rightarrow> bucket \<Rightarrow> bucket" where
  "refill rate cap now b = (let elapsed = seconds_f64 (time_sub now (bk_updated b)) in
     if flt (Fin 0) elapsed
     then let t = add64 (bk_tokens b) (mul64 elapsed rate) in b\<lparr>bk_tokens := (if flt cap t then cap else t), bk_updated := now\<rparr>
     else b)"

definition limiter_allow :: "string \<Rightarrow> gotime \<Rightarrow> ip_limiter \<Rightarrow> bool \<times> ip_limiter" where
  "limiter_allow addr now r0 = (let r = cleanup_due now r0;
       b = (case il_buckets r addr of None \<Rightarrow> \<lparr>bk_tokens = il_capacity r, bk_updated = now\<rparr>
            | Some b \<Rightarrow> refill (il_rate r) (il_capacity r) now b) in
     if fle (Fin 1) (bk_tokens b)
     then (True, r\<lparr>il_buckets := (il_buckets r)(addr \<mapsto> b\<lparr>bk_tokens := sub64 (bk_tokens b) (Fin 1)\<rparr>)\<rparr>)
     else (False, r\<lparr>il_buckets := (il_buckets r)(addr \<mapsto> b)\<rparr>))"

section \<open>Float errors of one step\<close>

lemma close_bounds: "\<bar>r - q\<bar> \<le> (e :: rat) \<Longrightarrow> r \<le> q + e \<and> q - e \<le> r"
  by linarith

lemma rnd64_within:
  assumes "\<bar>q\<bar> \<le> pow2 (e + 53)" "- 1074 \<le> e" "e \<le> 900"
  shows "\<exists>r. rnd64 q = Fin r \<and> \<bar>r - q\<bar> \<le> pow2 e"
  using rnd64_fin [OF assms(1)] rnd_err [of q e 53 "- 1074"] assms by auto

lemma seconds_f64_fin:
  assumes "0 \<le> d" "d \<le> 2 ^ 63"
  shows "\<exists>q. seconds_f64 d = Fin q \<and> 0 \<le> q \<and> q \<le> pow2 80 \<and> (0 < d \<longrightarrow> 0 < q) \<and> (d < 2 * second \<longrightarrow> \<bar>q - of_int d / 1000000000\<bar> \<le> pow2 (- 50))"
proof -
  let ?s = "d div second" and ?n = "d mod second"
  have n: "0 \<le> ?n" "?n < 1000000000" by (simp_all add: second_def)
  have s: "0 \<le> ?s" "?s \<le> 2 ^ 34" using assms by (simp_all add: second_def zdiv_mono1 [of d "2 ^ 63", THEN order_trans])
  have rs: "rnd64 (of_int ?s) = Fin (of_int ?s)" by (rule rnd64_int) (use s in simp)
  let ?f = "of_int ?n / 1000000000 :: rat"
  have f: "0 \<le> ?f" "?f \<le> 1" using n by simp_all
  then obtain g where g: "rnd64 ?f = Fin g" "\<bar>g - ?f\<bar> \<le> pow2 (- 53)"
    using rnd64_within [of ?f "- 53"] by auto
  have g0: "0 \<le> g" using rnd_nonneg [OF f(1), of 53 "- 1074"] g(1) by (simp add: rnd64_def fin_or_inf_def split: if_splits)
  have "pow2 (- 53) \<le> 1" by (simp add: pow2_def)
  then have g2: "g \<le> 2" using g(2) f abs_ge_self [of "g - ?f"] by linarith
  have sq: "(of_int ?s :: rat) \<le> 2 ^ 34" using s(2) by (metis of_int_le_iff of_int_numeral of_int_power)
  have "\<bar>of_int ?s + g\<bar> \<le> pow2 (- 18 + 53)" using g0 g2 s sq by (simp add: pow2_def)
  then obtain q where q: "rnd64 (of_int ?s + g) = Fin q" "\<bar>q - (of_int ?s + g)\<bar> \<le> pow2 (- 18)"
    using rnd64_within [of "of_int ?s + g" "- 18"] by auto
  have q0: "0 \<le> q"
    using rnd_nonneg [of "of_int ?s + g" 53 "- 1074"] g0 s q(1) by (simp add: rnd64_def fin_or_inf_def split: if_splits)
  have e: "seconds_f64 d = Fin q" using assms by (simp add: seconds_f64_def Let_def rs g q)
  have "q \<le> pow2 80" using close_bounds [OF q(2)] g2 sq by (simp add: pow2_def)
  moreover have d2: "\<bar>q - of_int d / 1000000000\<bar> \<le> pow2 (- 50)" if "d < 2 * second"
  proof -
    have "?s \<le> 1" using that by (simp add: second_def)
    then have s1: "(of_int ?s :: rat) \<le> 1" by simp
    have "\<bar>of_int ?s + g\<bar> \<le> pow2 (- 51 + 53)" using g0 g2 s(1) s1 by (simp add: pow2_def)
    then have q51: "\<bar>q - (of_int ?s + g)\<bar> \<le> pow2 (- 51)" using rnd64_within [of "of_int ?s + g" "- 51"] q(1) by auto
    have "(of_int d :: rat) = 1000000000 * of_int ?s + of_int ?n"
      using div_mult_mod_eq [of d second] by (metis mult.commute of_int_add of_int_mult of_int_numeral second_def)
    then have eq: "of_int d / 1000000000 = of_int ?s + ?f" by (simp add: add_divide_distrib)
    have "\<bar>q - (of_int ?s + ?f)\<bar> \<le> pow2 (- 51) + pow2 (- 53)" using q51 g(2) by linarith
    also have "\<dots> \<le> pow2 (- 50)" by (simp add: pow2_def)
    finally show ?thesis unfolding eq .
  qed
  moreover have "0 < q" if "0 < d"
  proof (cases "d < 2 * second")
    case True
    have "(1 :: rat) \<le> of_int d" using that by simp
    then have "pow2 (- 50) < of_int d / (1000000000 :: rat)" by (simp add: pow2_def)
    with close_bounds [OF d2 [OF True]] show ?thesis by linarith
  next
    case False
    then have "1 \<le> ?s" by (simp add: second_def)
    then have "(1 :: rat) \<le> of_int ?s" by simp
    then show ?thesis using close_bounds [OF q(2)] g0 by (simp add: pow2_def)
  qed
  ultimately show ?thesis using e q0 by blast
qed

section \<open>The level of a bucket\<close>

definition token_gain :: "duration \<Rightarrow> rat" where
  "token_gain d = 100 * of_int d / 1000000000"

lemma token_gain_nonneg [simp]: "0 \<le> d \<Longrightarrow> 0 \<le> token_gain d"
  by (simp add: token_gain_def)

lemma token_gain_add: "token_gain (a + b) = token_gain a + token_gain b"
  by (simp add: token_gain_def add_divide_distrib distrib_left)

lemma token_gain_0 [simp]: "token_gain 0 = 0"
  by (simp add: token_gain_def)

text \<open>What a bucket would hold at an instant, without rounding; an address without a bucket has a full one.\<close>

definition token_level :: "gotime \<Rightarrow> string \<Rightarrow> ip_limiter \<Rightarrow> rat" where
  "token_level t addr r = (case il_buckets r addr of
     None \<Rightarrow> 150
   | Some b \<Rightarrow> min 150 (fval (bk_tokens b) + token_gain (t - bk_updated b)))"

definition bucket_ok :: "gotime \<Rightarrow> bucket \<Rightarrow> bool" where
  "bucket_ok t b \<longleftrightarrow> (\<exists>q. bk_tokens b = Fin q \<and> 0 \<le> q \<and> q \<le> 150) \<and> bk_updated b \<le> t"

definition limiter_ok :: "gotime \<Rightarrow> ip_limiter \<Rightarrow> bool" where
  "limiter_ok t r \<longleftrightarrow> il_rate r = Fin 100 \<and> il_capacity r = Fin 150 \<and> (\<forall>addr b. il_buckets r addr = Some b \<longrightarrow> bucket_ok t b)"

lemma bucket_ok_later: "bucket_ok t b \<Longrightarrow> t \<le> u \<Longrightarrow> bucket_ok u b"
  by (auto simp: bucket_ok_def)

lemma limiter_ok_later: "limiter_ok t r \<Longrightarrow> t \<le> u \<Longrightarrow> limiter_ok u r"
  unfolding limiter_ok_def using bucket_ok_later by blast

lemma two_seconds: "2000000000 \<le> d \<Longrightarrow> 0 \<le> q \<Longrightarrow> 150 \<le> q + token_gain d"
  by (simp add: token_gain_def field_simps)

lemma refill_level:
  assumes "bucket_ok t b"
  shows "bucket_ok t (refill (Fin 100) (Fin 150) t b)" "bk_updated (refill (Fin 100) (Fin 150) t b) = t"
    "min 150 (fval (bk_tokens (refill (Fin 100) (Fin 150) t b)) + token_gain (t - bk_updated (refill (Fin 100) (Fin 150) t b)))
     \<le> min 150 (fval (bk_tokens b) + token_gain (t - bk_updated b)) + pow2 (- 42)"
proof -
  let ?d = "time_sub t (bk_updated b)" and ?b = "refill (Fin 100) (Fin 150) t b"
  have u: "bk_updated b \<le> t" using assms by (simp add: bucket_ok_def)
  obtain q where q: "bk_tokens b = Fin q" "0 \<le> q" "q \<le> 150" using assms by (auto simp: bucket_ok_def)
  have d: "0 \<le> ?d" "?d \<le> 2 ^ 63" using u by (simp_all add: time_sub_def sat64_def)
  obtain e where e: "seconds_f64 ?d = Fin e" "0 \<le> e" "e \<le> pow2 80"
      "0 < ?d \<longrightarrow> 0 < e" "?d < 2 * second \<longrightarrow> \<bar>e - of_int ?d / 1000000000\<bar> \<le> pow2 (- 50)"
    using seconds_f64_fin [OF d] by blast
  have small: "?d = t - bk_updated b" if "?d < 2 * second"
    using that u by (auto simp: time_sub_def sat64_def second_def min_def max_def split: if_splits)
  have "\<bar>e * 100\<bar> \<le> pow2 (47 + 53)" using e(2,3) by (simp add: pow2_def)
  then obtain m where m: "rnd64 (e * 100) = Fin m" "\<bar>m - e * 100\<bar> \<le> pow2 47" using rnd64_within [of "e * 100" 47] by auto
  have m0: "0 \<le> m" using rnd_nonneg [of "e * 100" 53 "- 1074"] e(2) m by (simp add: rnd64_def fin_or_inf_def split: if_splits)
  have "\<bar>q + m\<bar> \<le> pow2 (47 + 53)" using close_bounds [OF m(2)] m0 q e(3) by (simp add: pow2_def)
  then obtain x where x: "rnd64 (q + m) = Fin x" using rnd64_within [of "q + m" 47] by auto
  have x0: "0 \<le> x" using rnd_nonneg [of "q + m" 53 "- 1074"] m0 q(2) x by (simp add: rnd64_def fin_or_inf_def split: if_splits)
  have r: "?b = (if 0 < e then b\<lparr>bk_tokens := Fin (min 150 x), bk_updated := t\<rparr> else b)"
    using q(1) m(1) x by (simp add: refill_def Let_def e(1) min_def)
  have "bk_updated b < t \<longrightarrow> 0 < e" using e(4) by (simp add: time_sub_def sat64_def)
  then show "bk_updated ?b = t" using u unfolding r by (cases "0 < e") simp_all
  show "bucket_ok t ?b" using assms x0 by (auto simp: r bucket_ok_def)
  show "min 150 (fval (bk_tokens ?b) + token_gain (t - bk_updated ?b))
      \<le> min 150 (fval (bk_tokens b) + token_gain (t - bk_updated b)) + pow2 (- 42)"
  proof (cases "0 < e \<and> ?d < 2 * second")
    case True
    then have d2: "?d = t - bk_updated b" "?d < 2000000000" using small by (simp_all add: second_def)
    have e4: "e \<le> of_int ?d / 1000000000 + pow2 (- 50)" using close_bounds [of e _ "pow2 (- 50)"] e(5) True by blast
    have "(of_int ?d :: rat) < 2000000000" using d2(2) by linarith
    then have e3: "e \<le> 5 / 2" using e4 by (simp add: pow2_def)
    have "\<bar>e * 100\<bar> \<le> pow2 (- 45 + 53)" using e(2) e3 by (simp add: pow2_def)
    then have m1: "m \<le> e * 100 + pow2 (- 45)" using rnd64_within [of "e * 100" "- 45"] m(1) close_bounds by fastforce
    have "\<bar>q + m\<bar> \<le> pow2 (- 44 + 53)" using q m0 m1 e3 by (simp add: pow2_def)
    then have "x \<le> q + m + pow2 (- 44)" using rnd64_within [of "q + m" "- 44"] x close_bounds by fastforce
    with m1 e4 have "x \<le> q + token_gain ?d + pow2 (- 42)" by (simp add: pow2_def token_gain_def)
    then show ?thesis using True q(1) d2(1) by (simp add: r pow2_def min_def)
  next
    case False
    have "150 \<le> q + token_gain (t - bk_updated b)" if "0 < e"
    proof -
      have "2000000000 \<le> t - bk_updated b" using that False u by (auto simp: second_def time_sub_def sat64_def split: if_splits)
      from two_seconds [OF this q(2)] show ?thesis .
    qed
    then show ?thesis using q(1) by (auto simp: r pow2_def min_def)
  qed
qed

lemma new_limiter_ok: "limiter_ok t (new_ip_rate_limiter t0 (Fin 100) (Fin 150))"
  by (simp add: limiter_ok_def new_ip_rate_limiter_def)

lemma bucket_level_nonneg: "bucket_ok t b \<Longrightarrow> 0 \<le> fval (bk_tokens b) \<and> 0 \<le> fval (bk_tokens b) + token_gain (t - bk_updated b)"
  by (auto simp: bucket_ok_def)

lemma token_level_bounds: "limiter_ok t r \<Longrightarrow> 0 \<le> token_level t addr r \<and> token_level t addr r \<le> 150"
  using bucket_level_nonneg by (auto simp: limiter_ok_def token_level_def split: option.split)

lemma min_plus: "0 \<le> (d :: rat) \<Longrightarrow> min c (x + d) \<le> min c x + d"
  by (simp add: min_def)

lemma token_level_later:
  assumes "limiter_ok t r" "t \<le> u"
  shows "token_level u addr r \<le> token_level t addr r + token_gain (u - t)"
proof -
  have g: "q + token_gain (u - l) = (q + token_gain (t - l)) + token_gain (u - t)" for q l
    using token_gain_add [of "t - l" "u - t"] by simp
  have n: "0 \<le> token_gain (u - t)" using assms(2) by simp
  show ?thesis
  proof (cases "il_buckets r addr")
    case None
    then show ?thesis using n by (simp add: token_level_def)
  next
    case (Some b)
    with min_plus [OF n, of 150 "fval (bk_tokens b) + token_gain (t - bk_updated b)"]
    show ?thesis unfolding token_level_def by (simp only: option.simps g [of "fval (bk_tokens b)" "bk_updated b"])
  qed
qed

lemma cleanup_due_ok:
  assumes "limiter_ok t r"
  shows "limiter_ok t (cleanup_due t r)" "token_level t addr (cleanup_due t r) = token_level t addr r"
proof -
  have l: "limiter_ok t (limiter_cleanup t r)"
    using assms by (auto simp: limiter_ok_def limiter_cleanup_def split: option.splits if_splits)
  have full: "150 \<le> fval (bk_tokens b) + token_gain (t - bk_updated b)"
    if "il_buckets r addr = Some b" "60 * second < time_sub t (bk_updated b)" for b
  proof -
    have q: "0 \<le> fval (bk_tokens b)" using assms that(1) bucket_level_nonneg by (auto simp: limiter_ok_def)
    have "2000000000 \<le> t - bk_updated b" using that(2) by (auto simp: second_def time_sub_def sat64_def split: if_splits)
    from two_seconds [OF this q] show ?thesis .
  qed
  have v: "token_level t addr (limiter_cleanup t r) = token_level t addr r"
    using full by (auto simp: token_level_def limiter_cleanup_def split: option.split)
  have c: "limiter_ok t (r\<lparr>il_clean := c\<rparr>)" "token_level t addr (r\<lparr>il_clean := c\<rparr>) = token_level t addr r" for c
    using assms by (simp_all add: limiter_ok_def token_level_def)
  show "limiter_ok t (cleanup_due t r)" using assms l c by (simp add: cleanup_due_def split: option.split)
  show "token_level t addr (cleanup_due t r) = token_level t addr r" using v c by (simp add: cleanup_due_def split: option.split)
qed

text \<open>Paying one token.\<close>

lemma pay_token:
  assumes "bucket_ok t b" "fle (Fin 1) (bk_tokens b)"
  shows "\<exists>q x. bk_tokens b = Fin q \<and> sub64 (bk_tokens b) (Fin 1) = Fin x \<and> 0 \<le> x \<and> x \<le> 150 \<and> x + 1 \<le> q + pow2 (- 45)"
proof -
  obtain q where q: "bk_tokens b = Fin q" "1 \<le> q" "q \<le> 150" using assms by (auto simp: bucket_ok_def)
  have "\<bar>q - 1\<bar> \<le> pow2 (- 45 + 53)" using q by (simp add: pow2_def)
  then obtain x where x: "rnd64 (q - 1) = Fin x" "\<bar>x - (q - 1)\<bar> \<le> pow2 (- 45)" using rnd64_within [of "q - 1" "- 45"] by auto
  have "0 \<le> x" using rnd_nonneg [of "q - 1" 53 "- 1074"] q(2) x(1) by (simp add: rnd64_def fin_or_inf_def split: if_splits)
  moreover have "x \<le> 150" using close_bounds [OF x(2)] q(3) by (simp add: pow2_def)
  ultimately show ?thesis using q(1) x close_bounds [OF x(2)] by (simp add: fsub_def)
qed

lemma limiter_step:
  assumes "limiter_ok t r" "limiter_allow addr t r = (ok, r')"
  shows "limiter_ok t r'"
    "token_level t x r' + (if ok \<and> addr = x then 1 else 0) \<le> token_level t x r + pow2 (- 40)"
proof -
  let ?r = "cleanup_due t r"
  let ?b = "case il_buckets ?r addr of None \<Rightarrow> \<lparr>bk_tokens = il_capacity ?r, bk_updated = t\<rparr>
    | Some b \<Rightarrow> refill (il_rate ?r) (il_capacity ?r) t b"
  let ?lev = "\<lambda>b. min 150 (fval (bk_tokens b) + token_gain (t - bk_updated b))"
  have r: "limiter_ok t ?r" "token_level t x ?r = token_level t x r" using cleanup_due_ok [OF assms(1)] by auto
  then have c: "il_rate ?r = Fin 100" "il_capacity ?r = Fin 150" by (simp_all add: limiter_ok_def)
  have b: "bucket_ok t ?b \<and> bk_updated ?b = t \<and> ?lev ?b \<le> token_level t addr ?r + pow2 (- 42)"
  proof (cases "il_buckets ?r addr")
    case None
    then show ?thesis using c by (simp add: bucket_ok_def token_level_def)
  next
    case (Some b0)
    then have "bucket_ok t b0" using r(1) by (simp add: limiter_ok_def)
    with Some show ?thesis using refill_level [of t b0] by (simp add: c token_level_def)
  qed
  define b where "b = ?b"
  have b: "bucket_ok t b" "bk_updated b = t" "?lev b \<le> token_level t addr ?r + pow2 (- 42)"
    using b unfolding b_def by blast+
  have put: "limiter_ok t (?r\<lparr>il_buckets := (il_buckets ?r)(addr \<mapsto> b')\<rparr>)" if "bucket_ok t b'" for b'
    using r(1) that by (simp add: limiter_ok_def)
  have lev: "token_level t x (?r\<lparr>il_buckets := (il_buckets ?r)(addr \<mapsto> b')\<rparr>) = (if x = addr then ?lev b' else token_level t x ?r)" for b'
    by (simp add: token_level_def)
  have nn: "0 \<le> pow2 (- 40)" by simp
  have "limiter_ok t r' \<and> token_level t x r' + (if ok \<and> addr = x then 1 else 0) \<le> token_level t x r + pow2 (- 40)"
  proof (cases "fle (Fin 1) (bk_tokens b)")
    case False
    then have e: "ok = False" "r' = ?r\<lparr>il_buckets := (il_buckets ?r)(addr \<mapsto> b)\<rparr>"
      using assms(2) unfolding b_def by (simp_all add: limiter_allow_def Let_def)
    have "?lev b \<le> token_level t addr ?r + pow2 (- 40)" using b(3) by (simp add: pow2_def)
    then show ?thesis using e put [OF b(1)] r(2) nn by (auto simp: lev)
  next
    case True
    then have e: "ok = True" "r' = ?r\<lparr>il_buckets := (il_buckets ?r)(addr \<mapsto> b\<lparr>bk_tokens := sub64 (bk_tokens b) (Fin 1)\<rparr>)\<rparr>"
      using assms(2) unfolding b_def by (simp_all add: limiter_allow_def Let_def)
    obtain q y where y: "bk_tokens b = Fin q" "sub64 (bk_tokens b) (Fin 1) = Fin y" "0 \<le> y" "y \<le> 150" "y + 1 \<le> q + pow2 (- 45)"
      using pay_token [OF b(1) True] by blast
    let ?b' = "b\<lparr>bk_tokens := sub64 (bk_tokens b) (Fin 1)\<rparr>"
    have "bucket_ok t ?b'" using b(1) y by (simp add: bucket_ok_def)
    moreover have "q \<le> 150" using b(1) y(1) by (simp add: bucket_ok_def)
    then have "?lev ?b' + 1 \<le> token_level t addr ?r + pow2 (- 40)"
      using b(2,3) y by (simp add: pow2_def min_absorb2)
    ultimately show ?thesis using e put r(2) nn by (auto simp: lev)
  qed
  then show "limiter_ok t r'"
    "token_level t x r' + (if ok \<and> addr = x then 1 else 0) \<le> token_level t x r + pow2 (- 40)" by blast+
qed


section \<open>Runs\<close>

text \<open>Packets as they arrive: the instant and the address they come from; how many of one address pass.\<close>

fun admitted_from :: "string \<Rightarrow> (gotime \<times> string) list \<Rightarrow> ip_limiter \<Rightarrow> nat" where
  "admitted_from x [] r = 0"
| "admitted_from x ((t, addr) # es) r = (case limiter_allow addr t r of (ok, r1) \<Rightarrow>
     (if ok \<and> addr = x then 1 else 0) + admitted_from x es r1)"

definition after_packets :: "(gotime \<times> string) list \<Rightarrow> ip_limiter \<Rightarrow> ip_limiter" where
  "after_packets es r = fold (\<lambda>(t, addr) r. snd (limiter_allow addr t r)) es r"

lemma after_packets_ok:
  assumes "limiter_ok t r" "sorted (t # map fst es)"
  shows "limiter_ok (last (t # map fst es)) (after_packets es r)"
  using assms
proof (induction es arbitrary: t r)
  case Nil
  then show ?case by (simp add: after_packets_def)
next
  case (Cons e es)
  obtain u addr where e: "e = (u, addr)" by fastforce
  obtain ok r1 where a: "limiter_allow addr u r = (ok, r1)" by fastforce
  have "limiter_ok u r" using limiter_ok_later [OF Cons.prems(1)] Cons.prems(2) e by simp
  from limiter_step(1) [OF this a] have "limiter_ok u r1" .
  with Cons.IH [of u r1] Cons.prems(2) show ?case by (simp add: e after_packets_def a)
qed

lemma admitted_from_bound:
  assumes "limiter_ok t r" "sorted (t # map fst es)"
  shows "of_nat (admitted_from x es r) \<le> token_level t x r + token_gain (last (t # map fst es) - t) + of_nat (length es) * pow2 (- 40)"
  using assms
proof (induction es arbitrary: t r)
  case Nil
  then show ?case using token_level_bounds [of t r x] by simp
next
  case (Cons e es)
  obtain u addr where e: "e = (u, addr)" by fastforce
  obtain ok r1 where a: "limiter_allow addr u r = (ok, r1)" by fastforce
  let ?n = "if ok \<and> addr = x then 1 else 0 :: rat" and ?l = "last (u # map fst es)"
  have tu: "t \<le> u" and ok: "limiter_ok u r" using limiter_ok_later [OF Cons.prems(1)] Cons.prems(2) e by simp_all
  have "of_nat (admitted_from x es r1) \<le> token_level u x r1 + token_gain (?l - u) + of_nat (length es) * pow2 (- 40)"
    using Cons.IH [OF limiter_step(1) [OF ok a]] Cons.prems(2) e by simp
  moreover have "token_level u x r1 + ?n \<le> token_level u x r + pow2 (- 40)" by (rule limiter_step(2) [OF ok a])
  moreover have "token_level u x r \<le> token_level t x r + token_gain (u - t)" by (rule token_level_later [OF Cons.prems(1) tu])
  moreover have "token_gain (?l - t) = token_gain (?l - u) + token_gain (u - t)" using token_gain_add [of "?l - u" "u - t"] by simp
  moreover have "(of_nat (admitted_from x (e # es) r) :: rat) = ?n + of_nat (admitted_from x es r1)" by (simp add: e a)
  moreover have "of_nat (length (e # es)) * pow2 (- 40) = pow2 (- 40) + of_nat (length es) * pow2 (- 40)"
    by (simp add: distrib_right)
  moreover have "last (t # map fst (e # es)) = ?l" by (simp add: e)
  ultimately show ?case by simp
qed

text \<open>C11: The listener's limit holds over every interval. Whatever arrived before and whoever sends in between, of the
  packets one IP address sends in a row of arrivals at most 150 and 100 for every second from the first to the last
  arrival pass (up to a float error of \<open>2\<^sup>-\<^sup>4\<^sup>0\<close> of a packet per arrival); the cleanup of idle buckets cannot be used to
  get more.\<close>

theorem packet_rate_bounded:
  assumes "sorted (t0 # map fst (before @ window))" "window \<noteq> []"
  shows "of_nat (admitted_from x window (after_packets before (new_ip_rate_limiter t0 (Fin 100) (Fin 150))))
    \<le> 150 + 100 * of_int (fst (last window) - fst (hd window)) / 1000000000 + (of_nat (length window) / 2 ^ 40 :: rat)"
proof -
  let ?t = "last (t0 # map fst before)" and ?r = "after_packets before (new_ip_rate_limiter t0 (Fin 100) (Fin 150))"
  let ?h = "fst (hd window)"
  have "sorted ((t0 # map fst before) @ map fst window)" using assms(1) by simp
  then have s: "sorted (t0 # map fst before)" "sorted (map fst window)"
    and le: "\<forall>u \<in> set (t0 # map fst before). \<forall>v \<in> set (map fst window). u \<le> v"
    unfolding sorted_append by blast+
  have "?t \<in> set (t0 # map fst before)" by (rule last_in_set) simp
  then have t: "?t \<le> ?h" using le assms(2) hd_in_set by fastforce
  have "limiter_ok ?h ?r" using limiter_ok_later [OF after_packets_ok [OF new_limiter_ok s(1)] t] .
  moreover have "sorted (?h # map fst window)" using s(2) assms(2) by (cases window) auto
  ultimately have "of_nat (admitted_from x window ?r) \<le> token_level ?h x ?r + token_gain (last (?h # map fst window) - ?h) +
      of_nat (length window) * pow2 (- 40)" "token_level ?h x ?r \<le> 150"
    using admitted_from_bound token_level_bounds by blast+
  moreover have "last (?h # map fst window) = fst (last window)" using assms(2) by (simp add: last_map)
  ultimately show ?thesis by (simp add: token_gain_def pow2_def)
qed

theorem packet_rate_bounded_witness:
  "of_nat (admitted_from ''10.0.0.7'' [(5, ''10.0.0.7''), (5, ''10.0.0.7''), (1000000005, ''10.0.0.8'')]
      (after_packets [(1, ''10.0.0.7'')] (new_ip_rate_limiter 0 (Fin 100) (Fin 150)))) \<le> (251 :: rat)"
  using packet_rate_bounded [of 0 "[(1, ''10.0.0.7'')]" "[(5, ''10.0.0.7''), (5, ''10.0.0.7''), (1000000005, ''10.0.0.8'')]" "''10.0.0.7''"]
  by simp


end
