(* ===== verification/Listener.thy ===== *)
theory Listener
  imports RateLimit SessionLife "HOL-Library.Sublist"
begin

text \<open>
  The UDP listener of network/udp_listener.go: the read loop that limits, copies and distributes datagrams over eight
  worker queues, and the workers that hand them to \<open>HandlePacket\<close>. A step is one turn of the read loop or of one
  worker; the socket is a parameter (what it delivers). Reading into a buffer of 1500 bytes cuts a longer datagram.
\<close>

unbundle bit_operations_syntax

type_synonym datagram = "bytes \<times> udp_addr"

record udp_listener =
  ls_workers :: "u32 \<Rightarrow> datagram list"
  ls_dropped :: u64
  ls_limiter :: ip_limiter

definition new_udp_listener :: "gotime \<Rightarrow> udp_listener" where
  "new_udp_listener now = \<lparr>ls_workers = (\<lambda>_. []), ls_dropped = 0, ls_limiter = new_ip_rate_limiter now (Fin 100) (Fin 150)\<rparr>"

definition hash_step :: "u32 \<Rightarrow> u32 \<Rightarrow> u32" where
  "hash_step c h = (h XOR c) * 16777619"

text \<open>FNV-1a over the address and the two low bytes of the port.\<close>

definition worker_of :: "udp_addr \<Rightarrow> u32" where
  "worker_of a = (let p = port a; h = fold (\<lambda>c. hash_step (ucast c)) (ip a) 2166136261
     in hash_step (word_of_int ((p div 256) mod 256)) (hash_step (word_of_int (p mod 256)) h) mod 8)"

definition hand_over :: "datagram \<Rightarrow> udp_listener \<Rightarrow> udp_listener" where
  "hand_over d l = (let i = worker_of (snd d) in
     if length (ls_workers l i) < 1024 then l\<lparr>ls_workers := (ls_workers l)(i := ls_workers l i @ [d])\<rparr>
     else l\<lparr>ls_dropped := ls_dropped l + 1\<rparr>)"

definition receive :: "gotime \<Rightarrow> datagram \<Rightarrow> udp_listener \<Rightarrow> udp_listener" where
  "receive now d l = (let (ok, lim) = (if ip (snd d) = [] then (True, ls_limiter l)
         else limiter_allow (ip_string (ip (snd d))) now (ls_limiter l)); l1 = l\<lparr>ls_limiter := lim\<rparr> in
     if ok then hand_over (take 1500 (fst d), snd d) l1 else l1\<lparr>ls_dropped := ls_dropped l + 1\<rparr>)"

definition run_worker :: "host \<Rightarrow> u32 \<Rightarrow> udp_listener \<times> world \<Rightarrow> (udp_listener \<times> world) option" where
  "run_worker ho i st = (case st of (l, w) \<Rightarrow> (case ls_workers l i of
     [] \<Rightarrow> Some (l, w)
   | (data, a) # ds \<Rightarrow> map_option (\<lambda>w1. (l\<lparr>ls_workers := (ls_workers l)(i := ds)\<rparr>, w1)) (handle_packet ho data a w)))"

section \<open>Order\<close>

text \<open>A run of the listener with the datagrams the socket delivered and those the workers handled, in order.
  Between two steps the rest of the server (ticks, the administration) may do anything to the world.\<close>

inductive net_run :: "udp_listener \<times> world \<Rightarrow> datagram list \<Rightarrow> datagram list \<Rightarrow> udp_listener \<times> world \<Rightarrow> bool" for st where
  start: "net_run st [] [] st"
| arrive: "net_run st rs hs (l, w) \<Longrightarrow> net_run st (rs @ [d]) hs (receive now d l, w)"
| handle: "net_run st rs hs (l, w) \<Longrightarrow> ls_workers l i = d # ds \<Longrightarrow> run_worker ho i (l, w) = Some st' \<Longrightarrow>
    net_run st rs (hs @ [d]) st'"
| elsewhere: "net_run st rs hs (l, w) \<Longrightarrow> net_run st rs hs (l, w')"

abbreviation from_addr :: "udp_addr \<Rightarrow> datagram list \<Rightarrow> datagram list" where
  "from_addr a \<equiv> filter (\<lambda>d. snd d = a)"

definition as_read :: "datagram list \<Rightarrow> datagram list" where
  "as_read ds = map (\<lambda>d. (take 1500 (fst d), snd d)) ds"

text \<open>Every queue holds only datagrams of its own addresses, and what an address had handled followed by what it has
  queued is in the order of arrival.\<close>

definition in_order :: "datagram list \<Rightarrow> datagram list \<Rightarrow> udp_listener \<Rightarrow> bool" where
  "in_order rs hs l \<longleftrightarrow> (\<forall>i. \<forall>d \<in> set (ls_workers l i). worker_of (snd d) = i) \<and>
     (\<forall>i. length (ls_workers l i) \<le> 1024) \<and>
     (\<forall>a. subseq (from_addr a hs @ from_addr a (ls_workers l (worker_of a))) (from_addr a (as_read rs)))"

lemma in_order_same: "ls_workers l' = ls_workers l \<Longrightarrow> in_order rs hs l \<Longrightarrow> in_order rs hs l'"
  by (simp add: in_order_def)

lemma in_order_lost: "in_order rs hs l \<Longrightarrow> in_order (rs @ [d]) hs l"
  by (auto simp: in_order_def as_read_def)

lemma in_order_hand_over:
  assumes "in_order rs hs l"
  shows "in_order (rs @ [d]) hs (hand_over (take 1500 (fst d), snd d) l)"
proof (cases "length (ls_workers l (worker_of (snd d))) < 1024")
  case False
  then have "ls_workers (hand_over (take 1500 (fst d), snd d) l) = ls_workers l" by (simp add: hand_over_def Let_def)
  then show ?thesis using in_order_same in_order_lost [OF assms] by blast
next
  case True
  let ?i = "worker_of (snd d)" and ?d = "(take 1500 (fst d), snd d)"
  have w: "ls_workers (hand_over ?d l) = (ls_workers l)(?i := ls_workers l ?i @ [?d])"
    using True by (simp add: hand_over_def Let_def)
  have s: "subseq (from_addr a hs @ from_addr a (ls_workers l (worker_of a))) (from_addr a (as_read rs))" for a
    using assms by (simp add: in_order_def)
  have "subseq (from_addr a hs @ from_addr a (ls_workers (hand_over ?d l) (worker_of a))) (from_addr a (as_read (rs @ [d])))" for a
  proof (cases "snd d = a")
    case True
    then have a: "a = snd d" ..
    have "from_addr a (ls_workers (hand_over ?d l) (worker_of a)) = from_addr a (ls_workers l (worker_of a)) @ [?d]"
      unfolding a w by simp
    moreover have "from_addr a (as_read (rs @ [d])) = from_addr a (as_read rs) @ [?d]" unfolding a by (simp add: as_read_def)
    ultimately show ?thesis using list_emb_append_mono [OF s [of a], of "[?d]" "[?d]"] by simp
  next
    case False
    then have "from_addr a (ls_workers (hand_over ?d l) (worker_of a)) = from_addr a (ls_workers l (worker_of a))"
      unfolding w by (cases "worker_of a = ?i") simp_all
    with False s [of a] show ?thesis by (simp add: as_read_def)
  qed
  then show ?thesis using assms True by (auto simp: in_order_def w)
qed

lemma in_order_receive:
  assumes "in_order rs hs l"
  shows "in_order (rs @ [d]) hs (receive now d l)"
proof -
  have "in_order rs hs (l\<lparr>ls_limiter := x\<rparr>)" for x using assms by (simp add: in_order_def)
  from in_order_hand_over [OF this] have e: "in_order (rs @ [d]) hs (hand_over (take 1500 (fst d), snd d) (l\<lparr>ls_limiter := x\<rparr>))" for x .
  have n: "in_order (rs @ [d]) hs (l\<lparr>ls_limiter := x, ls_dropped := y\<rparr>)" for x y
    using in_order_lost [OF assms] by (simp add: in_order_def)
  obtain ok lim where c: "(if ip (snd d) = [] then (True, ls_limiter l)
      else limiter_allow (ip_string (ip (snd d))) now (ls_limiter l)) = (ok, lim)" by fastforce
  show ?thesis using e [of lim] n by (simp add: receive_def c Let_def)
qed

lemma in_order_handle:
  assumes "in_order rs hs l" "ls_workers l i = d # ds"
  shows "in_order rs (hs @ [d]) (l\<lparr>ls_workers := (ls_workers l)(i := ds)\<rparr>)"
proof -
  have i: "worker_of (snd d) = i" "\<forall>j. \<forall>e \<in> set (ls_workers l j). worker_of (snd e) = j" using assms by (auto simp: in_order_def)
  have "from_addr a (hs @ [d]) @ from_addr a (((ls_workers l)(i := ds)) (worker_of a)) =
      from_addr a hs @ from_addr a (ls_workers l (worker_of a))" for a
    using i assms(2) by (cases "worker_of a = i") auto
  moreover have "\<forall>j. \<forall>e \<in> set (((ls_workers l)(i := ds)) j). worker_of (snd e) = j" "\<forall>j. length (((ls_workers l)(i := ds)) j) \<le> 1024"
    using assms by (auto simp: in_order_def dest: spec [of _ i])
  ultimately show ?thesis using assms(1) by (simp add: in_order_def)
qed

lemma net_run_in_order:
  assumes "net_run (new_udp_listener now, w0) rs hs st"
  shows "in_order rs hs (fst st)"
  using assms
proof (induction rule: net_run.induct)
  case start
  then show ?case by (simp add: in_order_def new_udp_listener_def as_read_def)
next
  case (arrive rs hs l w d t)
  then show ?case using in_order_receive by simp
next
  case (handle rs hs l w i d ds ho st')
  obtain w1 where "st' = (l\<lparr>ls_workers := (ls_workers l)(i := ds)\<rparr>, w1)"
    using handle.hyps(2,3) by (cases d) (auto simp: run_worker_def)
  with handle show ?case using in_order_handle by simp
next
  case (elsewhere rs hs l w w')
  then show ?case by simp
qed

text \<open>C6: The eight workers keep the order of each client: in every run of the listener, whichever worker takes its next
  packet when, the packets of one endpoint that were handled are some of those it sent (cut at 1500 bytes), each at
  most once and in the order of their arrival; and no worker's queue grows past 1024.\<close>

theorem clients_are_served_in_order:
  assumes "net_run (new_udp_listener now, w0) rs hs (l, w)"
  shows "subseq (from_addr a hs) (as_read (from_addr a rs)) \<and> length (ls_workers l i) \<le> 1024"
proof -
  have o: "in_order rs hs l" using net_run_in_order [OF assms] by simp
  have "from_addr a (as_read rs) = as_read (from_addr a rs)" by (simp add: as_read_def filter_map comp_def)
  then have "subseq (from_addr a hs @ from_addr a (ls_workers l (worker_of a))) (as_read (from_addr a rs))"
    using o unfolding in_order_def by metis
  moreover have "subseq (from_addr a hs) (from_addr a hs @ from_addr a (ls_workers l (worker_of a)))"
    by (rule prefix_imp_subseq) simp
  ultimately show ?thesis using o subseq_order.order_trans by (auto simp: in_order_def)
qed

theorem clients_are_served_in_order_witness:
  "let d = ([1, 2], demo_endpoint); l = receive 5 d (new_udp_listener 0) in
     \<exists>st. run_worker (demo_host 9) (worker_of demo_endpoint) (l, demo_world) = Some st \<and>
       subseq (from_addr demo_endpoint [d]) (as_read (from_addr demo_endpoint [d])) \<and>
       length (ls_workers (fst st) (worker_of demo_endpoint)) \<le> 1024"
proof -
  let ?d = "([1, 2], demo_endpoint) :: datagram" let ?l = "receive 5 ?d (new_udp_listener 0)" and ?i = "worker_of demo_endpoint"
  have "limiter_allow x 5 (new_ip_rate_limiter 0 (Fin 100) (Fin 150)) = (True, snd (limiter_allow x 5 (new_ip_rate_limiter 0 (Fin 100) (Fin 150))))" for x
    by (simp add: limiter_allow_def cleanup_due_def new_ip_rate_limiter_def Let_def time_sub_def sat64_def second_def)
  then obtain r where a: "limiter_allow (ip_string (ip demo_endpoint)) 5 (new_ip_rate_limiter 0 (Fin 100) (Fin 150)) = (True, r)" by blast
  have "ls_limiter (new_udp_listener 0) = new_ip_rate_limiter 0 (Fin 100) (Fin 150)" by (simp add: new_udp_listener_def)
  then have "?l = hand_over ?d ((new_udp_listener 0)\<lparr>ls_limiter := if ip demo_endpoint = [] then ls_limiter (new_udp_listener 0) else r\<rparr>)"
    by (simp add: receive_def a)
  then have q: "ls_workers ?l ?i = [?d]" by (simp add: hand_over_def Let_def new_udp_listener_def)
  have h: "handle_packet (demo_host 9) [1, 2] demo_endpoint demo_world = Some demo_world" by (simp add: handle_packet_def)
  let ?st = "(?l\<lparr>ls_workers := (ls_workers ?l)(?i := [])\<rparr>, demo_world)"
  have w: "run_worker (demo_host 9) ?i (?l, demo_world) = Some ?st" using h by (simp add: run_worker_def q)
  have "net_run (new_udp_listener 0, demo_world) ([] @ [?d]) ([] @ [?d]) ?st"
    by (rule net_run.handle [OF net_run.arrive [OF net_run.start] q w])
  from clients_are_served_in_order [OF this, of demo_endpoint ?i] w show ?thesis by (simp add: Let_def)
qed


end
