(* ===== verification/PlayTime.thy ===== *)
theory PlayTime
  imports SessionLife
begin

text \<open>
  The play time that the ticks of ServerTick credit, summed over a history of ticks.
\<close>

text \<open>The play time credited over the ticks at the given instants.\<close>

fun credited :: "gotime list \<Rightarrow> world \<Rightarrow> int" where
  "credited [] w = 0"
| "credited (t # ts) w = (case credit_play_time t w of (c, w1) \<Rightarrow> c + credited ts w1)"

lemma credit_one:
  assumes "wd_credit w = Some t0" "t0 \<le> t" "t - t0 < 2 ^ 63"
  shows "\<exists>w1. credit_play_time t w = ((t - t0) div second, w1) \<and> wd_credit w1 = Some (t0 + (t - t0) div second * second)"
proof -
  have d: "time_sub t t0 = t - t0" using assms(2,3) by (simp add: time_sub_def sat64_def)
  have "(t - t0) div second = 0" if "\<not> second \<le> t - t0" using that assms(2) by (simp add: div_pos_pos_trivial)
  then show ?thesis using assms(1) by (simp add: credit_play_time_def d Let_def)
qed

lemma credited_since:
  assumes "wd_credit w = Some t0" "sorted (t0 # ts)" "last (t0 # ts) - t0 < 2 ^ 63"
  shows "credited ts w = (last (t0 # ts) - t0) div second"
  using assms
proof (induction ts arbitrary: w t0)
  case Nil
  then show ?case by simp
next
  case (Cons t ts)
  let ?c = "(t - t0) div second" and ?l = "last (t # ts)"
  have t: "t0 \<le> t" "t \<le> ?l" using Cons.prems(2) by (auto simp: last_in_set)
  then obtain w1 where w1: "credit_play_time t w = (?c, w1)" "wd_credit w1 = Some (t0 + ?c * second)"
    using credit_one [of w t0 t] Cons.prems by auto
  have "?c * second \<le> t - t0" using minus_mod_eq_div_mult [of "t - t0" second] pos_mod_sign [of second "t - t0"]
    by (simp add: second_def)
  then have le: "t0 + ?c * second \<le> t" by simp
  have c0: "0 \<le> ?c * second" using t(1) by (simp add: second_def pos_imp_zdiv_nonneg_iff)
  have s: "sorted ((t0 + ?c * second) # ts)" "last ((t0 + ?c * second) # ts) - (t0 + ?c * second) < 2 ^ 63" if "ts \<noteq> []"
    using Cons.prems(2,3) le c0 that by auto
  show ?case
  proof (cases "ts = []")
    case True
    then show ?thesis by (simp add: w1)
  next
    case False
    have "credited ts w1 = (?l - (t0 + ?c * second)) div second"
      using Cons.IH [OF w1(2) s [OF False]] False by simp
    also have "?l - (t0 + ?c * second) = ?l - t0 + (- ?c) * second" by simp
    finally have "credited ts w1 = (?l - t0) div second - ?c"
      using div_mult_self1 [of second "?l - t0" "- ?c"] by (simp add: second_def)
    then show ?thesis by (simp add: w1)
  qed
qed

text \<open>C12: Play time is real time: from the first tick on, the seconds credited to the players are the whole seconds that
  have passed, whatever the tick rate and however irregular the ticks are.\<close>

theorem play_time_is_real_time:
  assumes "wd_credit w = None" "sorted (t # ts)" "last (t # ts) - t < 2 ^ 63"
  shows "credited (t # ts) w = (last (t # ts) - t) div second"
proof -
  have "credit_play_time t w = (0, w\<lparr>wd_credit := Some t\<rparr>)"
    using assms(1) by (simp add: credit_play_time_def time_sub_def sat64_def second_def)
  then show ?thesis using credited_since [of "w\<lparr>wd_credit := Some t\<rparr>" t ts] assms(2,3) by simp
qed

theorem play_time_is_real_time_witness:
  "credited [0, 400000000, 800000000, 1300000000, 2900000000] demo_world = 2"
proof -
  have "wd_credit demo_world = None" by (simp add: demo_world_def new_world_def Let_def split_def)
  from play_time_is_real_time [OF this, of 0 "[400000000, 800000000, 1300000000, 2900000000]"] show ?thesis
    by (simp add: second_def)
qed

end
