(* ===== verification/Departures.thy ===== *)
theory Departures
  imports SessionLife
begin

text \<open>
  What is left of a session that ends: the four ways out (a kick, the client's disconnect, a timeout and the
  eviction by a newer session) all forget it everywhere, except for a sleeper that is left behind on purpose, and what
  the sleeper keeps comes back at the next handshake.
\<close>

definition untracked :: "u32 \<Rightarrow> world \<Rightarrow> bool" where
  "untracked sid w \<longleftrightarrow> sm_sessions (sv_sessions (wd_sv w)) sid = None \<and>
     lg_sessions (sv_ledger (wd_sv w)) sid = None \<and> gm_membership (sv_groups (wd_sv w)) sid = None \<and>
     (\<forall>t i. gm_invites (sv_groups (wd_sv w)) t = Some i \<longrightarrow> t \<noteq> sid \<and> gi_inviter i \<noteq> sid) \<and>
     wd_aoi w sid = None \<and> (\<forall>j s. wd_aoi w j = Some s \<longrightarrow> sid \<notin> s) \<and>
     dm_budget (wd_damage w) sid = None \<and> wd_reject_audit w sid = None \<and> ar_visible (wd_repl w) sid = None \<and>
     (grid_contains sid (sv_grid (wd_sv w)) \<longrightarrow> slm_sleepers (wd_sleepers w) sid \<noteq> None)"

text \<open>No index of the session manager leads to a session of that id.\<close>

definition unindexed :: "u32 \<Rightarrow> server \<Rightarrow> bool" where
  "unindexed sid sv \<longleftrightarrow> sm_sessions (sv_sessions sv) sid = None \<and>
     (\<forall>a q. sm_by_addr (sv_sessions sv) a = Some q \<longrightarrow> p_id (sv_heap sv q) \<noteq> sid) \<and>
     (\<forall>q\<in>set (sm_cached (sv_sessions sv)). p_id (sv_heap sv q) \<noteq> sid)"

text \<open>What waits for an acknowledgement from the address. A kick leaves its farewell: the disconnect and the group
  state it sent the session itself.\<close>

definition goes_to :: "string \<Rightarrow> ack_entry \<Rightarrow> bool" where
  "goes_to x e \<longleftrightarrow> (case e_addr e of None \<Rightarrow> False | Some a \<Rightarrow> addr_string a = x)"

definition farewell :: "u32 \<Rightarrow> ack_entry \<Rightarrow> bool" where
  "farewell k e \<longleftrightarrow> write_packet op_disconnect k flag_reliable (PStruct [U8 1]) = Inr (e_data e) \<or>
     (\<exists>g. write_packet op_group_state k flag_reliable (PGroup g) = Inr (e_data e))"

definition awaited :: "(u32 \<Rightarrow> ack_entry \<Rightarrow> bool) \<Rightarrow> server \<Rightarrow> bool" where
  "awaited P sv \<longleftrightarrow> (\<forall>k e. ack_queue.entries (sv_acks sv) k = Some e \<longrightarrow> P k e)"

definition forgotten :: "bool \<Rightarrow> u32 \<Rightarrow> string option \<Rightarrow> world \<Rightarrow> bool" where
  "forgotten kicked sid key w \<longleftrightarrow> untracked sid w \<and> unindexed sid (wd_sv w) \<and>
     (\<forall>x. key = Some x \<longrightarrow> awaited (\<lambda>k e. goes_to x e \<longrightarrow> kicked \<and> farewell k e) (wd_sv w))"

text \<open>The ways out: the id and the pointer of the session, and whether it is a kick.\<close>

inductive departs :: "host \<Rightarrow> u32 \<Rightarrow> ptr \<Rightarrow> bool \<Rightarrow> world \<Rightarrow> world \<Rightarrow> bool" for ho sid p where
  kicked: "get_by_id sid (sv_sessions (wd_sv w)) = Some p \<Longrightarrow> departs ho sid p True w (snd (kick_session ho sid w))"
| left: "session_at a w = Some p \<Longrightarrow> p_id (sess_of w p) = sid \<Longrightarrow> handle_disconnect ho a w = Some w' \<Longrightarrow>
    departs ho sid p False w w'"
| timed_out: "get_by_id sid (sv_sessions (wd_sv w)) = Some p \<Longrightarrow> expire_session ho p w = Some w' \<Longrightarrow>
    departs ho sid p False w w'"
| evicted: "get_by_id sid (sv_sessions (wd_sv w)) = None \<Longrightarrow> p_id (sess_of w p) = sid \<Longrightarrow>
    departs ho sid p False w (cleanup_evicted_session ho p w)"

section \<open>What sending leaves alone\<close>

text \<open>Sending and persisting touch neither groups, grid nor ledger.\<close>

definition quiet_msg :: "server \<Rightarrow> server \<Rightarrow> bool" where
  "quiet_msg a b \<longleftrightarrow> sv_groups b = sv_groups a \<and> sv_grid b = sv_grid a \<and> sv_ledger b = sv_ledger a"

lemma quiet_refl [simp]: "quiet_msg a a"
  by (simp add: quiet_msg_def)

lemma quiet_fold: "(\<And>x sv. quiet_msg a sv \<Longrightarrow> quiet_msg a (g x sv)) \<Longrightarrow> quiet_msg a b \<Longrightarrow> quiet_msg a (fold g xs b)"
  by (induction xs arbitrary: b) simp_all

lemma quiet_send: "quiet_msg a b \<Longrightarrow> quiet_msg a (send_to_session env oc fl pl p b)" "quiet_msg a b \<Longrightarrow> quiet_msg a (reply env oc fs p b)"
  by (simp_all add: quiet_msg_def reply_def)

lemma quiet_db: "quiet_msg a b \<Longrightarrow> quiet_msg a (snd (with_db m b))"
  by (simp add: with_db_def quiet_msg_def split: option.split prod.split)

lemma quiet_persist: "quiet_msg a b \<Longrightarrow> quiet_msg a (persist_exit env s b)"
proof -
  assume b: "quiet_msg a b"
  have f: "quiet_msg a (sync_flush env u pos yaw h b)" for u pos yaw h unfolding sync_flush_def using b by (rule quiet_db)
  have "quiet_msg a (save_dead env u pos yaw c)" if "quiet_msg a c" for u pos yaw c
    using quiet_db [OF that, of "load_character u"]
    unfolding save_dead_def by (auto split: prod.split sum.split intro: quiet_db)
  with b f show ?thesis by (simp add: persist_exit_def Let_def)
qed

lemma quiet_leave: "quiet_msg a b \<Longrightarrow> quiet_msg a (broadcast_entity_leave env sid l b)"
  unfolding broadcast_entity_leave_def by (rule quiet_fold) (simp_all add: quiet_send)

lemma quiet_roster: "quiet_msg a b \<Longrightarrow> quiet_msg a (notify_group_roster env gid roster b)"
proof -
  have "quiet_msg a b \<Longrightarrow> quiet_msg a (notify_roster_loop env gid roster told b)" for told
    by (induction env gid roster told b rule: notify_roster_loop.induct) (auto split: option.split simp: send_group_def quiet_send)
  then show "quiet_msg a b \<Longrightarrow> ?thesis" by (simp add: notify_group_roster_def)
qed

lemma remove_from_group_result:
  "gm_membership (sv_groups (remove_from_group env p sv)) (p_id (sv_heap sv p)) = None"
  "gm_invites (sv_groups (remove_from_group env p sv)) = gm_invites (sv_groups sv)"
  "sv_grid (remove_from_group env p sv) = sv_grid sv" "sv_ledger (remove_from_group env p sv) = sv_ledger sv"
proof -
  obtain gid roster was gm where l: "leave (Some (sv_heap sv p)) (sv_groups sv) = ((gid, roster, was), gm)" by (metis prod.exhaust)
  have gm: "gm_membership gm (p_id (sv_heap sv p)) = None" "gm_invites gm = gm_invites (sv_groups sv)"
    using l by (auto simp: leave_def Let_def map_drop_def split: option.splits if_splits)
  have "quiet_msg (upd_groups gm sv) (remove_from_group env p sv)"
    by (simp add: remove_from_group_def l quiet_roster)
  with gm show "gm_membership (sv_groups (remove_from_group env p sv)) (p_id (sv_heap sv p)) = None"
    "gm_invites (sv_groups (remove_from_group env p sv)) = gm_invites (sv_groups sv)"
    "sv_grid (remove_from_group env p sv) = sv_grid sv" "sv_ledger (remove_from_group env p sv) = sv_ledger sv"
    by (simp_all add: quiet_msg_def upd_groups_def)
qed

section \<open>The way out\<close>

definition detached :: "u32 \<Rightarrow> world \<Rightarrow> bool" where
  "detached sid w \<longleftrightarrow> gm_membership (sv_groups (wd_sv w)) sid = None \<and> finite (dom (gm_invites (sv_groups (wd_sv w)))) \<and>
     wd_aoi w sid = None \<and> (\<forall>j s. wd_aoi w j = Some s \<longrightarrow> sid \<notin> s)"

definition off_grid :: "u32 \<Rightarrow> world \<Rightarrow> bool" where
  "off_grid sid w \<longleftrightarrow> \<not> grid_contains sid (sv_grid (wd_sv w))"

definition asleep_at_most :: "u32 \<Rightarrow> world \<Rightarrow> bool" where
  "asleep_at_most sid w \<longleftrightarrow> (grid_contains sid (sv_grid (wd_sv w)) \<longrightarrow> slm_sleepers (wd_sleepers w) sid \<noteq> None)"

lemma on_sv_quiet:
  assumes "\<And>b. quiet_msg b (f b)"
  shows "detached sid (on_sv f w) = detached sid w" "off_grid sid (on_sv f w) = off_grid sid w"
    "asleep_at_most sid (on_sv f w) = asleep_at_most sid w"
  using assms [of "wd_sv w"] by (simp_all add: on_sv_def quiet_msg_def detached_def off_grid_def asleep_at_most_def)

lemma quiet_comp: "(\<And>b. quiet_msg b (f b)) \<Longrightarrow> (\<And>b. quiet_msg b (g b)) \<Longrightarrow> quiet_msg b ((f \<circ> g) b)"
  by (simp add: quiet_msg_def)

lemma quiet_steps:
  "quiet_msg b (purge_addr ho x b)" "quiet_msg b (purge_session_addr ho s b)" "quiet_msg b (drop_session ho i b)"
  "quiet_msg b (broadcast_entity_leave env i l b)" "quiet_msg b (persist_exit env s b)" "quiet_msg b (reply env oc fs p b)"
  by (simp_all add: quiet_leave quiet_persist quiet_send)
    (simp_all add: quiet_msg_def purge_addr_def purge_session_addr_def drop_session_def split: option.split)

lemmas on_sv_steps = on_sv_quiet [OF quiet_steps(1)] on_sv_quiet [OF quiet_steps(2)] on_sv_quiet [OF quiet_steps(3)]
  on_sv_quiet [OF quiet_steps(4)] on_sv_quiet [OF quiet_steps(5)] on_sv_quiet [OF quiet_steps(6)]

lemma on_sv_comp: "on_sv (f \<circ> g) w = on_sv f (on_sv g w)"
  by (simp add: on_sv_def)

lemma off_grid_remove: "off_grid sid (on_sv (upd_grid (grid_remove sid)) w)"
  by (simp add: off_grid_def on_sv_def upd_grid_def grid_contains_def grid_remove_def split: option.split)

lemma off_grid_aoi [simp]: "off_grid sid (aoi_forget sid w) = off_grid sid w"
  by (simp add: off_grid_def aoi_forget_def)

lemma detach:
  assumes "p_id (sess_of w p) = sid" "finite (dom (gm_invites (sv_groups (wd_sv w))))" "\<And>b. sv_groups (f b) = sv_groups b"
  shows "detached sid (aoi_forget sid (on_sv f (on_sv (remove_from_group env p) w)))"
  using remove_from_group_result [of env p "wd_sv w"] assms
  by (auto simp: detached_def aoi_forget_def aoi_remove_session_def on_sv_def sess_of_def split: if_splits)

lemma grid_contains_insert: "grid_contains j (grid_insert i x z g) \<longleftrightarrow> j = i \<or> grid_contains j g"
  by (simp add: grid_contains_def grid_insert_def place_entity_def Let_def split: option.split)

lemma create_sleeper_entry:
  assumes "create_sleeper now d (Some s) m = Some (Some q, m')"
  shows "slm_sleepers m' (sl_id (slm_heap m' q)) \<noteq> None"
  using assms by (auto simp: create_sleeper_def put_sleeper_def Let_def split: option.splits if_splits)

lemma leave_sleeper_fields:
  assumes "leave_sleeper env x s w = Some w'"
  obtains m g where "w' = w\<lparr>wd_sleepers := m, wd_sv := (wd_sv w)\<lparr>sv_grid := g\<rparr>\<rparr>"
    "\<And>sid. off_grid sid w \<Longrightarrow> asleep_at_most sid w'"
proof -
  note wit = that
  have same: thesis if "w' = w\<lparr>wd_sleepers := m\<rparr>" for m
    using that by (intro wit [of "sv_grid (wd_sv w)" m]) (simp_all add: off_grid_def asleep_at_most_def)
  show thesis
  proof (cases "x \<and> flt (Fin 0) (p_health s)")
    case False
    then have "w' = w\<lparr>wd_sleepers := wd_sleepers w\<rparr>" using assms by (auto simp: leave_sleeper_def)
    then show ?thesis by (rule same)
  next
    case True
    then have l: "(case create_sleeper (en_now env) (30 * second) (Some s) (wd_sleepers w) of
        None \<Rightarrow> None
      | Some (None, m) \<Rightarrow> Some (w\<lparr>wd_sleepers := m\<rparr>)
      | Some (Some q, m) \<Rightarrow> let sl = slm_heap m q in
          Some (on_sv (upd_grid (grid_insert (sl_id sl) (fst (sl_pos sl)) (snd (snd (sl_pos sl))))) (w\<lparr>wd_sleepers := m\<rparr>))) = Some w'"
      using assms by (simp add: leave_sleeper_def)
    show ?thesis
    proof (cases "create_sleeper (en_now env) (30 * second) (Some s) (wd_sleepers w)")
      case (Some r)
      obtain q m where r: "r = (q, m)" by fastforce
      show ?thesis
      proof (cases q)
        case None
        then show ?thesis using l by (intro same [of m]) (simp add: Some r)
      next
        case (Some q')
        let ?sl = "slm_heap m q'"
        let ?g = "grid_insert (sl_id ?sl) (fst (sl_pos ?sl)) (snd (snd (sl_pos ?sl))) (sv_grid (wd_sv w))"
        have w': "w' = w\<lparr>wd_sleepers := m, wd_sv := (wd_sv w)\<lparr>sv_grid := ?g\<rparr>\<rparr>"
          using l by (simp add: \<open>create_sleeper _ _ _ _ = _\<close> r Some Let_def on_sv_def upd_grid_def)
        have "slm_sleepers m (sl_id ?sl) \<noteq> None"
          using create_sleeper_entry \<open>create_sleeper _ _ _ _ = _\<close> r Some by blast
        then have "asleep_at_most sid w'" if "off_grid sid w" for sid
          using that by (simp add: off_grid_def asleep_at_most_def grid_contains_insert w')
        with w' show ?thesis by (rule wit)
      qed
    qed (use l in simp)
  qed
qed

lemma leave_sleeper_keeps:
  assumes "leave_sleeper env x s w = Some w'"
  shows "detached sid w' = detached sid w" "off_grid sid w \<Longrightarrow> asleep_at_most sid w'"
    "sv_sessions (wd_sv w') = sv_sessions (wd_sv w)" "sv_heap (wd_sv w') = sv_heap (wd_sv w)"
    "sv_ledger (wd_sv w') = sv_ledger (wd_sv w)" "sv_groups (wd_sv w') = sv_groups (wd_sv w)"
    "wd_damage w' = wd_damage w" "wd_reject_audit w' = wd_reject_audit w" "wd_repl w' = wd_repl w"
proof -
  obtain m g where w': "w' = w\<lparr>wd_sleepers := m, wd_sv := (wd_sv w)\<lparr>sv_grid := g\<rparr>\<rparr>"
    and g: "\<And>sid. off_grid sid w \<Longrightarrow> asleep_at_most sid w'"
    by (rule leave_sleeper_fields [OF assms]) blast
  show "off_grid sid w \<Longrightarrow> asleep_at_most sid w'" by (rule g)
  show "detached sid w' = detached sid w"
    "sv_sessions (wd_sv w') = sv_sessions (wd_sv w)" "sv_heap (wd_sv w') = sv_heap (wd_sv w)"
    "sv_ledger (wd_sv w') = sv_ledger (wd_sv w)" "sv_groups (wd_sv w') = sv_groups (wd_sv w)"
    "wd_damage w' = wd_damage w" "wd_reject_audit w' = wd_reject_audit w" "wd_repl w' = wd_repl w"
    by (simp_all add: w' detached_def)
qed

section \<open>Forgetting\<close>

lemma cleared:
  assumes ho: "host_ok ho" and sid: "sid \<noteq> 0" and d: "detached sid w" and g: "asleep_at_most sid w"
    and s: "sm_sessions (sv_sessions (wd_sv w)) sid = None"
  shows "untracked sid (clear_session_tracking ho sid w)"
proof -
  let ?gm = "sv_groups (wd_sv w)" and ?ord = "ho_order ho (dom (gm_invites (sv_groups (wd_sv w))))"
  have "is_order (gm_invites ?gm) ?ord" using ho d by (simp add: is_order_def host_ok_def detached_def)
  then have i: "gm_invites (forget_session sid ?ord ?gm) t = Some x \<Longrightarrow> t \<noteq> sid \<and> gi_inviter x \<noteq> sid" for t x
    using sid by (auto simp: forget_session_def delete_where_order split: option.splits if_splits)
  have m: "gm_membership (forget_session sid ?ord ?gm) sid = None" using d sid by (simp add: forget_session_def detached_def)
  show ?thesis
    using d g s i m sid by (simp add: untracked_def clear_session_tracking_def clear_damage_audit_def Let_def remove_ledger_def
        clear_budget_def repl_forget_session_def detached_def asleep_at_most_def)
qed

lemma untracked_sv:
  assumes "untracked sid w" "\<And>b. quiet_msg b (f b)" "\<And>b. calm b (f b)"
  shows "untracked sid (on_sv f w)"
  using assms(1) assms(2,3) [of "wd_sv w"] by (simp add: untracked_def quiet_msg_def calm_def on_sv_def)

lemma untracked_sleeper:
  assumes "untracked sid w" "off_grid sid w" "leave_sleeper env x s w = Some w'"
  shows "untracked sid w'"
proof -
  obtain m g where w': "w' = w\<lparr>wd_sleepers := m, wd_sv := (wd_sv w)\<lparr>sv_grid := g\<rparr>\<rparr>"
    and g: "\<And>sid. off_grid sid w \<Longrightarrow> asleep_at_most sid w'"
    by (rule leave_sleeper_fields [OF assms(3)]) blast
  with g [OF assms(2)] assms(1) show ?thesis by (simp add: untracked_def asleep_at_most_def)
qed

lemma off_asleep: "off_grid sid w \<Longrightarrow> asleep_at_most sid w"
  by (simp add: off_grid_def asleep_at_most_def)

lemma dropped:
  assumes "host_ok ho" "world_ok w"
  shows "sm_sessions (sv_sessions (wd_sv (on_sv (drop_session ho sid) w))) sid = None"
proof -
  have ok: "sm_ok (sv_heap (wd_sv w)) (sv_sessions (wd_sv w))" using assms(2) by (simp add: world_ok_def)
  then have "dom (sm_sessions (sv_sessions (wd_sv w))) - {sid} \<subseteq> set (ho_order ho (dom (sm_sessions (sv_sessions (wd_sv w))) - {sid}))"
    using assms(1) by (simp add: host_ok_def sm_ok_def keyed_def)
  from sm_ok_remove(2) [OF ok this] show ?thesis by (simp add: on_sv_def drop_session_def)
qed

lemma off_grid_group: "off_grid sid (on_sv (remove_from_group env p) w) = off_grid sid w"
  using remove_from_group_result(3) [of env p "wd_sv w"] by (simp add: off_grid_def on_sv_def)

lemma live_id: "world_ok w \<Longrightarrow> get_by_id sid (sv_sessions (wd_sv w)) = Some p \<Longrightarrow> p_id (sess_of w p) = sid"
  by (auto simp: world_ok_def sm_ok_def keyed_def get_by_id_def sess_of_def)

lemma detached_send:
  assumes "p_id (sess_of w p) = sid" "finite (dom (gm_invites (sv_groups (wd_sv w))))" "\<And>b. sv_groups (f b) = sv_groups b"
    "\<And>b. sv_groups (g b) = sv_groups b \<and> p_id (sv_heap (g b) p) = p_id (sv_heap b p)"
  shows "detached sid (aoi_forget sid (on_sv f (on_sv (remove_from_group env p) (on_sv g w))))"
  using detach [of "on_sv g w" p sid f env] assms by (simp add: sess_of_def on_sv_def)

lemma calm_id: "calm a b \<Longrightarrow> p_id (sv_heap b p) = p_id (sv_heap a p)"
  by (simp add: calm_def anchor_def)

lemma quiet_groups: "quiet_msg b c \<Longrightarrow> sv_groups c = sv_groups b"
  by (simp add: quiet_msg_def)

lemma grid_groups: "sv_groups (upd_grid f b) = sv_groups b"
  by (simp add: upd_grid_def)

lemma kick_forgets:
  assumes ho: "host_ok ho" and w: "world_ok w" and sid: "sid \<noteq> 0"
    and fin: "finite (dom (gm_invites (sv_groups (wd_sv w))))" and p: "get_by_id sid (sv_sessions (wd_sv w)) = Some p"
  shows "untracked sid (snd (kick_session ho sid w))"
proof -
  let ?env = "ho_env ho" and ?s = "sess_of w p"
  let ?g = "reply ?env op_disconnect [U8 1] p \<circ> (persist_exit ?env ?s \<circ> purge_session_addr ho ?s)"
  let ?f = "upd_grid (grid_remove sid) \<circ> broadcast_entity_leave ?env sid (p_level ?s)"
  let ?w3 = "on_sv ?f (on_sv (remove_from_group ?env p) (on_sv ?g w))" let ?w4 = "on_sv (drop_session ho sid) (aoi_forget sid ?w3)"
  have k: "snd (kick_session ho sid w) = clear_session_tracking ho sid ?w4"
    by (simp add: kick_session_def p Let_def on_sv_def)
  have g: "quiet_msg b (?g b)" "calm b (?g b)" for b by (intro quiet_comp quiet_steps, intro calm_intros)
  have "quiet_msg b (broadcast_entity_leave ?env sid (p_level ?s) b)" for b by (rule quiet_steps)
  then have f: "sv_groups (?f b) = sv_groups b" for b by (simp add: grid_groups quiet_groups)
  have "detached sid (aoi_forget sid ?w3)"
    using live_id [OF w p] fin f g quiet_groups calm_id by (intro detached_send) blast+
  then have d: "detached sid ?w4" by (simp add: on_sv_steps)
  have "off_grid sid ?w3" unfolding on_sv_comp by (rule off_grid_remove)
  then have o: "off_grid sid ?w4" by (simp add: on_sv_steps)
  have "wcalm w (aoi_forget sid ?w3)" by (intro calm_intros)
  from dropped [OF ho thins_ok [OF thins_calm [OF w this]]]
  show ?thesis unfolding k by (rule cleared [OF ho sid d off_asleep [OF o]])
qed

lemma disconnect_forgets:
  assumes ho: "host_ok ho" and w: "world_ok w" and sid: "sid \<noteq> 0"
    and fin: "finite (dom (gm_invites (sv_groups (wd_sv w))))" and p: "session_at a w = Some p" "p_id (sess_of w p) = sid"
    and w': "handle_disconnect ho a w = Some w'"
  shows "untracked sid w'"
proof -
  let ?env = "ho_env ho" and ?s = "sess_of w p"
  let ?f = "upd_grid (grid_remove sid)" let ?g = "persist_exit ?env ?s"
  let ?w2 = "aoi_forget sid (on_sv ?f (on_sv (remove_from_group ?env p) (on_sv ?g w)))"
  obtain w3 where w3: "leave_sleeper ?env (exposed_at_disconnect ?env ?s) ?s ?w2 = Some w3"
    and w': "w' = on_sv (purge_addr ho (addr_string a)) (clear_session_tracking ho sid
      (on_sv (drop_session ho sid) (on_sv (broadcast_entity_leave ?env sid (p_level ?s)) w3)))"
    using w' p by (auto simp: handle_disconnect_def Let_def on_sv_comp)
  have g: "quiet_msg b (?g b)" "calm b (?g b)" for b by (intro quiet_steps, intro calm_intros)
  have "detached sid ?w2"
    using p(2) fin g quiet_groups calm_id grid_groups by (intro detached_send) blast+
  moreover have "off_grid sid ?w2" by (simp add: off_grid_remove)
  ultimately have 3: "detached sid w3" "asleep_at_most sid w3" using leave_sleeper_keeps(1,2) [OF w3] by simp_all
  let ?w4 = "on_sv (broadcast_entity_leave ?env sid (p_level ?s)) w3"
  have "wcalm w ?w2" by (intro calm_intros)
  from wcalm_trans [OF this wcalm_leave_sleeper [OF w3]] have "wcalm w ?w4" by (intro calm_intros)
  note s = dropped [OF ho thins_ok [OF thins_calm [OF w this]], of sid]
  have "untracked sid (clear_session_tracking ho sid (on_sv (drop_session ho sid) ?w4))"
    using s by (intro cleared [OF ho sid]) (simp_all add: on_sv_steps 3)
  then show ?thesis unfolding w' by (rule untracked_sv) (rule quiet_steps, intro calm_intros)
qed

lemma off_grid_clear: "off_grid sid (clear_session_tracking ho i w) = off_grid sid w"
  by (simp add: off_grid_def clear_session_tracking_def Let_def clear_damage_audit_def)

lemma if_both: "P x \<Longrightarrow> P y \<Longrightarrow> P (if b then y else x)"
  by simp

lemma expire_forgets:
  assumes ho: "host_ok ho" and w: "world_ok w" and sid: "sid \<noteq> 0"
    and fin: "finite (dom (gm_invites (sv_groups (wd_sv w))))" and p: "get_by_id sid (sv_sessions (wd_sv w)) = Some p"
    and w': "expire_session ho p w = Some w'"
  shows "untracked sid w'"
proof -
  let ?env = "ho_env ho" and ?s = "sess_of w p"
  let ?w1 = "aoi_forget sid (on_sv (upd_grid (grid_remove sid)) (on_sv (remove_from_group ?env p) w))"
  let ?w2 = "on_sv (purge_session_addr ho ?s) (on_sv (broadcast_entity_leave ?env sid (p_level ?s)) ?w1)"
  let ?w3 = "clear_session_tracking ho sid (on_sv (drop_session ho sid) ?w2)"
  have i: "p_id ?s = sid" by (rule live_id [OF w p])
  let ?w4 = "if p_dirty ?s \<or> fle (p_health ?s) (Fin 0) then on_sv (persist_exit ?env ?s) ?w3 else ?w3"
  have l: "leave_sleeper ?env (exposed_at_timeout (en_now ?env) w ?s) ?s ?w4 = Some w'"
    using w' i by (simp add: expire_session_def Let_def on_sv_comp cong: if_cong)
  have "detached sid ?w1" by (rule detach [OF i fin]) (simp add: grid_groups)
  then have d: "detached sid (on_sv (drop_session ho sid) ?w2)" by (simp add: on_sv_steps)
  have o: "off_grid sid (on_sv (drop_session ho sid) ?w2)" by (simp add: on_sv_steps off_grid_remove)
  have "wcalm w ?w2" by (intro calm_intros)
  note s = dropped [OF ho thins_ok [OF thins_calm [OF w this]], of sid]
  have f: "untracked sid ?w3" by (rule cleared [OF ho sid d off_asleep [OF o] s])
  have o3: "off_grid sid ?w3" using o by (simp add: off_grid_clear)
  have "untracked sid (on_sv (persist_exit ?env ?s) ?w3)"
    by (rule untracked_sv [OF f]) (rule quiet_steps, intro calm_intros)
  with f have "untracked sid ?w4" by (rule if_both)
  moreover have "off_grid sid ?w4" using o3 by (simp add: on_sv_steps)
  ultimately show ?thesis using l by (rule untracked_sleeper)
qed

lemma evict_forgets:
  assumes ho: "host_ok ho" and sid: "sid \<noteq> 0"
    and fin: "finite (dom (gm_invites (sv_groups (wd_sv w))))" and p: "get_by_id sid (sv_sessions (wd_sv w)) = None"
    and i: "p_id (sess_of w p) = sid"
  shows "untracked sid (cleanup_evicted_session ho p w)"
proof -
  let ?env = "ho_env ho" and ?s = "sess_of w p"
  let ?a = "case p_addr ?s of None \<Rightarrow> '''' | Some x \<Rightarrow> addr_string x"
  let ?cur = "get_by_addr ?a (sv_sessions (wd_sv w))"
  let ?w1 = "if ?cur = None \<or> ?cur = Some p then on_sv (reply ?env op_disconnect [U8 1] p) w else w"
  let ?w2 = "aoi_forget sid (on_sv (upd_grid (grid_remove sid)) (on_sv (remove_from_group ?env p) ?w1))"
  let ?w3 = "on_sv (purge_session_addr ho ?s) (on_sv (broadcast_entity_leave ?env sid (p_level ?s)) ?w2)"
  have c: "cleanup_evicted_session ho p w = clear_session_tracking ho sid ?w3"
    using i by (simp add: cleanup_evicted_session_def Let_def on_sv_comp)
  have r: "calm b (reply ?env op_disconnect [U8 1] p b)" for b by (intro calm_intros)
  have i1: "p_id (sess_of ?w1 p) = sid" 
    using i calm_id [OF r] by (simp add: sess_of_def on_sv_def)
  have "finite (dom (gm_invites (sv_groups (wd_sv ?w1))))" using fin by (simp add: on_sv_def reply_def)
  from detach [OF i1 this] have "detached sid ?w2" by (simp add: grid_groups)
  then have d: "detached sid ?w3" by (simp add: on_sv_steps)
  have o: "off_grid sid ?w3" by (simp add: on_sv_steps off_grid_remove)
  have "wcalm w ?w3" by (intro calm_intros)
  then have s: "sm_sessions (sv_sessions (wd_sv ?w3)) sid = None"
    using p by (simp add: wcalm_def calm_def get_by_id_def)
  show ?thesis unfolding c by (rule cleared [OF ho sid d off_asleep [OF o] s])
qed

section \<open>The indexes\<close>

lemma unindexed_ok: "world_ok w \<Longrightarrow> sm_sessions (sv_sessions (wd_sv w)) sid = None \<Longrightarrow> unindexed sid (wd_sv w)"
proof -
  let ?h = "sv_heap (wd_sv w)" and ?sm = "sv_sessions (wd_sv w)"
  assume w: "world_ok w" and s: "sm_sessions ?sm sid = None"
  have ok: "keyed ?h ?sm" "index_ok ?h ?sm" "cache_ok ?sm" using w by (simp_all add: world_ok_def sm_ok_def)
  have live: "p_id (?h q) \<noteq> sid" if "sm_sessions ?sm (p_id (?h q)) = Some q" for q
  proof
    assume "p_id (?h q) = sid"
    with s that show False by simp
  qed
  have "p_id (?h q) \<noteq> sid" if "sm_by_addr ?sm a = Some q" for a q
    using ok(2) that unfolding index_ok_def by (intro live) blast
  moreover have "p_id (?h q) \<noteq> sid" if "q \<in> set (sm_cached ?sm)" for q
  proof (rule live)
    obtain i where "sm_sessions ?sm i = Some q" using ok(3) \<open>q \<in> set (sm_cached ?sm)\<close> by (auto simp: cache_ok_def ran_def)
    then show "sm_sessions ?sm (p_id (?h q)) = Some q" using ok(1) by (simp add: keyed_def)
  qed
  ultimately show "unindexed sid (wd_sv w)" using s by (simp add: unindexed_def)
qed

section \<open>The ack queue\<close>

text \<open>A step that keeps the queue finite and queues only what \<open>P\<close> allows.\<close>

definition mails :: "(u32 \<Rightarrow> ack_entry \<Rightarrow> bool) \<Rightarrow> server \<Rightarrow> server \<Rightarrow> bool" where
  "mails P a b \<longleftrightarrow> (finite (dom (ack_queue.entries (sv_acks a))) \<longrightarrow> finite (dom (ack_queue.entries (sv_acks b)))) \<and>
     (awaited P a \<longrightarrow> awaited P b)"

named_theorems mails_intros \<open>what a step queues\<close>

lemma mails_refl [simp, mails_intros]: "mails P a a"
  by (simp add: mails_def)

lemma mails_same: "mails P a b \<Longrightarrow> sv_acks c = sv_acks b \<Longrightarrow> mails P a c"
  by (simp add: mails_def awaited_def)

definition allows :: "(u32 \<Rightarrow> ack_entry \<Rightarrow> bool) \<Rightarrow> u16 \<Rightarrow> payload \<Rightarrow> udp_addr option \<Rightarrow> bool" where
  "allows P oc pl to \<longleftrightarrow> (\<forall>k e. write_packet oc k flag_reliable pl = Inr (e_data e) \<longrightarrow> e_addr e = to \<longrightarrow> P k e)"

lemma allows_all [simp]: "allows (\<lambda>_ _. True) oc pl to"
  by (simp add: allows_def)

lemma mails_send:
  assumes "mails P a b" "allows P oc pl (p_addr (sv_heap b p))"
  shows "mails P a (send_to_session env oc flag_reliable pl p b)"
proof (cases "p_addr (sv_heap b p)")
  case None
  with assms(1) show ?thesis by (simp add: send_to_session_def)
next
  case (Some to)
  let ?b = "b\<lparr>sv_seq := sv_seq b + 1\<rparr>" and ?m = "ack_queue.entries (sv_acks b)"
  have b: "mails P a ?b" using assms(1) by (rule mails_same) simp
  show ?thesis
  proof (cases "write_packet oc (sv_seq b + 1) flag_reliable pl")
    case (Inl e)
    with b assms(1) Some show ?thesis by (simp add: send_to_session_def Let_def)
  next
    case (Inr data)
    let ?q = "enqueue (en_now env) (sv_seq b + 1) (Some to) data (sv_acks b)"
    have q: "ack_queue.entries ?q = ?m(sv_seq b + 1 \<mapsto> the (ack_queue.entries ?q (sv_seq b + 1)))"
      "e_addr (the (ack_queue.entries ?q (sv_seq b + 1))) = Some to" "e_data (the (ack_queue.entries ?q (sv_seq b + 1))) = data"
      by (simp_all add: enqueue_def)
    have "P (sv_seq b + 1) (the (ack_queue.entries ?q (sv_seq b + 1)))"
      using assms(2) Inr q(2,3) by (simp add: allows_def Some)
    then have "mails P a (c\<lparr>sv_acks := ?q\<rparr>)" for c
      using assms(1) by (auto simp: mails_def awaited_def enqueue_def)
    then have "mails P a d" if "sv_acks d = ?q" for d by (rule mails_same) (simp add: that)
    with assms(1) Some Inr show ?thesis
      by (simp add: send_to_session_def Let_def flag_reliable_def)
  qed
qed

lemma mails_fold:
  assumes "mails P a b" "\<And>q. q \<in> set qs \<Longrightarrow> allows P oc (PStruct fs) (p_addr (sv_heap b q))"
  shows "mails P a (fold (reply env oc fs) qs b)"
  using assms
proof (induction qs arbitrary: b)
  case (Cons q qs)
  then show ?case using mails_send [of P a b oc "PStruct fs" q env] by (simp add: reply_def)
qed simp

lemma mails_roster:
  assumes "mails P a b" "\<And>g to. allows P op_group_state (PGroup g) to"
  shows "mails P a (notify_roster_loop env gid is told b)"
  using assms(1)
  by (induction env gid "is" told b rule: notify_roster_loop.induct)
    (auto split: option.split simp: send_group_def mails_send [OF _ assms(2)])

lemma mails_group [mails_intros]:
  assumes "mails P a b" "\<And>g to. allows P op_group_state (PGroup g) to"
  shows "mails P a (remove_from_group env p b)"
proof -
  have "mails P a (upd_groups gm b)" for gm by (rule mails_same [OF assms(1)]) (simp add: upd_groups_def)
  then show ?thesis
    by (auto simp: remove_from_group_def notify_group_roster_def split: prod.split intro!: mails_roster assms(2))
qed

lemma mails_persist [mails_intros]: "mails P a b \<Longrightarrow> mails P a (persist_exit env s b)"
proof (erule mails_same)
  have d: "sv_acks (snd (with_db m c)) = sv_acks c" for m :: "'z tx" and c
    by (simp add: with_db_def split: option.split prod.split)
  have "with_db m c = (r, c') \<Longrightarrow> sv_acks c' = sv_acks c" for m :: "'z tx" and r c c'
    using d [of m c] by simp
  then have "sv_acks (save_dead env u pos yaw c) = sv_acks c" for u pos yaw c
    by (auto simp: save_dead_def d split: prod.split sum.split)
  then show "sv_acks (persist_exit env s b) = sv_acks b" by (simp add: persist_exit_def sync_flush_def d Let_def)
qed

lemma mails_frames [mails_intros]:
  assumes "mails P a b"
  shows "mails P a (upd_grid g b)" "mails P a (drop_session ho i b)"
  by (rule mails_same [OF assms], simp add: upd_grid_def drop_session_def)+

lemma purged:
  assumes "host_ok ho" "finite (dom (ack_queue.entries (sv_acks b)))"
  shows "awaited (\<lambda>k e. \<not> goes_to x e) (purge_addr ho x b)" "mails P b (purge_addr ho x b)"
proof -
  let ?m = "ack_queue.entries (sv_acks b)"
  have "is_order ?m (ho_order ho (dom ?m))" using assms by (simp add: is_order_def host_ok_def)
  note d = delete_where_order [OF this]
  show "awaited (\<lambda>k e. \<not> goes_to x e) (purge_addr ho x b)"
    by (auto simp: awaited_def purge_addr_def remove_by_addr_def d goes_to_def split: option.splits if_splits)
  have "dom (ack_queue.entries (sv_acks (purge_addr ho x b))) \<subseteq> dom ?m"
    by (auto simp: purge_addr_def remove_by_addr_def d split: option.splits if_splits)
  then have "finite (dom (ack_queue.entries (sv_acks (purge_addr ho x b))))" using assms(2) by (rule finite_subset)
  then show "mails P b (purge_addr ho x b)"
    by (auto simp: mails_def awaited_def purge_addr_def remove_by_addr_def d split: option.splits if_splits)
qed

lemma addr_string_some: "addr_string a \<noteq> ''''"
  by (simp add: addr_string_def Let_def)

lemma purge_session_eq: "addr_key s = Some x \<Longrightarrow> purge_session_addr ho s b = purge_addr ho x b"
  using addr_string_some by (auto simp: purge_session_addr_def addr_key_def)

lemma world_sv [simp]:
  "wd_sv (on_sv f w) = f (wd_sv w)" "wd_sv (aoi_forget i w) = wd_sv w"
  "sv_acks (wd_sv (clear_session_tracking ho i w)) = sv_acks (wd_sv w)"
  by (simp_all add: on_sv_def aoi_forget_def clear_session_tracking_def Let_def)

lemma sleeper_acks: "leave_sleeper env x s w = Some w' \<Longrightarrow> sv_acks (wd_sv w') = sv_acks (wd_sv w)"
  by (erule leave_sleeper_fields) simp

lemma awaited_same: "sv_acks b = sv_acks a \<Longrightarrow> awaited P a \<Longrightarrow> awaited P b"
  by (simp add: awaited_def)

lemma awaited_mono: "awaited P sv \<Longrightarrow> (\<And>k e. P k e \<Longrightarrow> Q k e) \<Longrightarrow> awaited Q sv"
  by (auto simp: awaited_def)

lemma finite_mails: "mails (\<lambda>_ _. True) a b \<Longrightarrow> finite (dom (ack_queue.entries (sv_acks a))) \<Longrightarrow> finite (dom (ack_queue.entries (sv_acks b)))"
  by (simp add: mails_def)

lemma mails_leave: "mails (\<lambda>_ _. True) a b \<Longrightarrow> mails (\<lambda>_ _. True) a (broadcast_entity_leave env i l b)"
  unfolding broadcast_entity_leave_def by (erule mails_fold) simp

lemma peers_elsewhere:
  assumes w: "world_ok w" "get_by_id sid (sv_sessions (wd_sv w)) = Some p" and c: "calm (wd_sv w) c"
    and x: "addr_key (sess_of w p) = Some x" and q: "q \<in> set (peers_on l sid c)"
  shows "addr_key (sv_heap c q) \<noteq> Some x"
proof
  assume "addr_key (sv_heap c q) = Some x"
  let ?h = "sv_heap (wd_sv w)" and ?sm = "sv_sessions (wd_sv w)"
  have a: "anchor (sv_heap c q) = anchor (?h q)" using c by (simp add: calm_def)
  have k: "keyed ?h ?sm" "index_ok ?h ?sm" "cache_ok ?sm" using w(1) by (simp_all add: world_ok_def sm_ok_def)
  have "q \<in> set (sm_cached ?sm)" "p_id (?h q) \<noteq> sid"
    using q c anchor_id [OF a] by (auto simp: peers_on_def get_all_def calm_def)
  then obtain i where "sm_sessions ?sm i = Some q" using k(3) by (auto simp: cache_ok_def ran_def)
  then have "sm_sessions ?sm (p_id (?h q)) = Some q" using k(1) by (auto simp: keyed_def)
  then have "sm_by_addr ?sm x = Some q"
    using k(2) \<open>addr_key (sv_heap c q) = Some x\<close> anchor_id [OF a] by (simp add: index_ok_def)
  moreover have "sm_by_addr ?sm x = Some p"
    using k(1,2) w(2) x by (auto simp: index_ok_def keyed_def get_by_id_def sess_of_def)
  ultimately have "q = p" by simp
  then show False using \<open>p_id (?h q) \<noteq> sid\<close> live_id [OF w] by (simp add: sess_of_def)
qed

lemma kick_queue:
  assumes ho: "host_ok ho" and w: "world_ok w" and fin: "finite (dom (ack_queue.entries (sv_acks (wd_sv w))))"
    and p: "get_by_id sid (sv_sessions (wd_sv w)) = Some p" and x: "addr_key (sess_of w p) = Some x"
  shows "awaited (\<lambda>k e. goes_to x e \<longrightarrow> farewell k e) (wd_sv (snd (kick_session ho sid w)))"
proof -
  let ?P = "\<lambda>k e. goes_to x e \<longrightarrow> farewell k e" and ?env = "ho_env ho" and ?s = "sess_of w p"
  let ?b = "purge_session_addr ho ?s (wd_sv w)"
  let ?c = "remove_from_group ?env p (reply ?env op_disconnect [U8 1] p (persist_exit ?env ?s ?b))"
  have group: "allows ?P op_group_state (PGroup g) to" for g to by (auto simp: allows_def farewell_def)
  have bye: "allows ?P op_disconnect (PStruct [U8 1]) to" for to by (auto simp: allows_def farewell_def)
  have "awaited (\<lambda>k e. \<not> goes_to x e) ?b" using purged(1) [OF ho fin] by (simp add: purge_session_eq [OF x])
  then have b: "awaited ?P ?b" by (rule awaited_mono) simp
  have "mails ?P ?b (persist_exit ?env ?s ?b)" by (intro mails_intros)
  then have "mails ?P ?b (reply ?env op_disconnect [U8 1] p (persist_exit ?env ?s ?b))"
    unfolding reply_def using bye by (rule mails_send)
  then have c: "mails ?P ?b ?c" using group by (rule mails_group)
  have "calm (wd_sv w) ?c" by (intro calm_intros)
  then have "mails ?P ?b (broadcast_entity_leave ?env sid (p_level ?s) ?c)"
    unfolding broadcast_entity_leave_def
  proof (intro mails_fold [OF c])
    fix q assume "q \<in> set (peers_on (p_level ?s) sid ?c)"
    from peers_elsewhere [OF w p \<open>calm (wd_sv w) ?c\<close> x this]
    show "allows ?P op_entity_leave_aoi (PStruct (entity_leave_fields \<lparr>el_id = sid\<rparr>)) (p_addr (sv_heap ?c q))"
      by (auto simp: allows_def goes_to_def addr_key_def split: option.splits)
  qed
  then have "mails ?P ?b (drop_session ho sid (upd_grid (grid_remove sid) (broadcast_entity_leave ?env sid (p_level ?s) ?c)))"
    by (intro mails_frames)
  with b have "awaited ?P (drop_session ho sid (upd_grid (grid_remove sid) (broadcast_entity_leave ?env sid (p_level ?s) ?c)))"
    by (simp add: mails_def)
  then show ?thesis by (rule awaited_same [rotated]) (simp add: kick_session_def p Let_def)
qed

lemma disconnect_queue:
  assumes ho: "host_ok ho" and w: "world_ok w" and fin: "finite (dom (ack_queue.entries (sv_acks (wd_sv w))))"
    and p: "session_at a w = Some p" and x: "addr_key (sess_of w p) = Some x" and w': "handle_disconnect ho a w = Some w'"
  shows "awaited (\<lambda>k e. \<not> goes_to x e) (wd_sv w')"
proof -
  let ?env = "ho_env ho" and ?s = "sess_of w p" and ?sid = "p_id (sess_of w p)"
  have a: "x = addr_string a"
    using w p x by (simp add: world_ok_def sm_ok_def index_ok_def session_at_def get_by_addr_def sess_of_def)
  let ?b = "upd_grid (grid_remove ?sid) (remove_from_group ?env p (persist_exit ?env ?s (wd_sv w)))"
  obtain w2 w3 where w2: "wd_sv w2 = ?b" and w3: "leave_sleeper ?env (exposed_at_disconnect ?env ?s) ?s w2 = Some w3"
    and w': "w' = on_sv (purge_addr ho x) (clear_session_tracking ho ?sid
      (on_sv (drop_session ho ?sid \<circ> broadcast_entity_leave ?env ?sid (p_level ?s)) w3))"
    using w' p by (auto simp: handle_disconnect_def Let_def a) (metis comp_def world_sv(1,2))
  have "mails (\<lambda>_ _. True) (wd_sv w) ?b" by (intro mails_intros) simp
  then have "mails (\<lambda>_ _. True) (wd_sv w) (wd_sv w3)" by (rule mails_same) (simp add: sleeper_acks [OF w3] w2)
  then have "mails (\<lambda>_ _. True) (wd_sv w) (drop_session ho ?sid (broadcast_entity_leave ?env ?sid (p_level ?s) (wd_sv w3)))"
    by (intro mails_frames mails_leave)
  from finite_mails [OF this fin] show ?thesis unfolding w' by (simp add: purged(1) [OF ho])
qed

lemma expire_queue:
  assumes ho: "host_ok ho" and fin: "finite (dom (ack_queue.entries (sv_acks (wd_sv w))))"
    and x: "addr_key (sess_of w p) = Some x" and w': "expire_session ho p w = Some w'"
  shows "awaited (\<lambda>k e. \<not> goes_to x e) (wd_sv w')"
proof -
  let ?P = "\<lambda>k e. \<not> goes_to x e" and ?env = "ho_env ho" and ?s = "sess_of w p" and ?sid = "p_id (sess_of w p)"
  let ?b = "broadcast_entity_leave ?env ?sid (p_level ?s) (upd_grid (grid_remove ?sid) (remove_from_group ?env p (wd_sv w)))"
  let ?c = "drop_session ho ?sid (purge_session_addr ho ?s ?b)"
  have "mails (\<lambda>_ _. True) (wd_sv w) ?b" by (intro mails_leave mails_intros) simp
  from purged(1) [OF ho finite_mails [OF this fin]] have b: "awaited ?P (purge_session_addr ho ?s ?b)"
    by (simp add: purge_session_eq [OF x])
  have "mails ?P (purge_session_addr ho ?s ?b) ?c" "mails ?P (purge_session_addr ho ?s ?b) (persist_exit ?env ?s ?c)"
    by (intro mails_frames mails_persist mails_refl)+
  with b have c: "awaited ?P ?c" "awaited ?P (persist_exit ?env ?s ?c)" by (simp_all add: mails_def)
  obtain w3 w4 where w3: "sv_acks (wd_sv w3) = sv_acks ?c"
    and w4: "w4 = (if p_dirty ?s \<or> fle (p_health ?s) (Fin 0) then on_sv (persist_exit ?env ?s) w3 else w3)"
    and l: "leave_sleeper ?env (exposed_at_timeout (en_now ?env) w ?s) ?s w4 = Some w'"
    using w' by (simp add: expire_session_def Let_def) (metis comp_def world_sv)
  have "awaited ?P (wd_sv w3)" using c(1) by (rule awaited_same [OF w3])
  moreover from this have "awaited ?P (persist_exit ?env ?s (wd_sv w3))"
    using mails_persist [OF mails_refl [of ?P "wd_sv w3"]] by (simp add: mails_def)
  ultimately have "awaited ?P (wd_sv w4)" by (simp add: w4)
  then show ?thesis by (rule awaited_same [OF sleeper_acks [OF l]])
qed

lemma evict_queue:
  assumes ho: "host_ok ho" and fin: "finite (dom (ack_queue.entries (sv_acks (wd_sv w))))" and x: "addr_key (sess_of w p) = Some x"
  shows "awaited (\<lambda>k e. \<not> goes_to x e) (wd_sv (cleanup_evicted_session ho p w))"
proof -
  let ?env = "ho_env ho" and ?s = "sess_of w p" and ?sid = "p_id (sess_of w p)"
  let ?b = "\<lambda>a. broadcast_entity_leave ?env ?sid (p_level ?s) (upd_grid (grid_remove ?sid) (remove_from_group ?env p a))"
  have "mails (\<lambda>_ _. True) (wd_sv w) (reply ?env op_disconnect [U8 1] p (wd_sv w))"
    unfolding reply_def by (intro mails_send) simp_all
  then have "mails (\<lambda>_ _. True) (wd_sv w) (?b (reply ?env op_disconnect [U8 1] p (wd_sv w)))" "mails (\<lambda>_ _. True) (wd_sv w) (?b (wd_sv w))"
    by (intro mails_leave mails_frames mails_group; simp)+
  note f = this [THEN finite_mails, OF fin]
  let ?g = "\<lambda>a. purge_addr ho x (?b a)" and ?w' = "cleanup_evicted_session ho p w"
  have "sv_acks (wd_sv ?w') = sv_acks (?g (reply ?env op_disconnect [U8 1] p (wd_sv w))) \<or> sv_acks (wd_sv ?w') = sv_acks (?g (wd_sv w))"
    by (simp add: cleanup_evicted_session_def Let_def purge_session_eq [OF x])
  with f [THEN purged(1) [OF ho], of x] show ?thesis by (metis awaited_same)
qed

lemma forgottenI:
  assumes "untracked sid w" "world_ok w"
    and "\<And>x. key = Some x \<Longrightarrow> awaited (\<lambda>k e. goes_to x e \<longrightarrow> kicked \<and> farewell k e) (wd_sv w)"
  shows "forgotten kicked sid key w"
  unfolding forgotten_def using assms unindexed_ok [OF assms(2)] by (simp add: untracked_def)

text \<open>C8: However a session ends (kicked, disconnected by its client, timed out, or evicted by a newer session of the
  same account or address), the server forgets it everywhere: no index of the session manager (ids, addresses, the
  cached list) leads to its id, and the action ledger, the groups and the pending invitations in both directions, every
  other session's area of interest, the damage budget, the damage audit and the puppet view hold nothing of it; only a
  sleeper may keep its id in the spatial grid. Nothing waits in the ack queue for its address, except that a kick leaves
  its own farewell there: the disconnect it announces and, if the session was in a group, the group state.\<close>

theorem departures_leave_nothing:
  assumes "departs ho sid p kicked w w'" "host_ok ho" "world_ok w" "sid \<noteq> 0" "finite (dom (gm_invites (sv_groups (wd_sv w))))"
    and "finite (dom (ack_queue.entries (sv_acks (wd_sv w))))"
  shows "forgotten kicked sid (addr_key (sess_of w p)) w'"
  using assms
proof (induction rule: departs.induct)
  case (kicked w)
  show ?case
  proof (rule forgottenI)
    show "untracked sid (snd (kick_session ho sid w))" using kicked kick_forgets by blast
    show "world_ok (snd (kick_session ho sid w))" using thins_ok [OF thins_kick [OF kicked(2,3)]] .
    show "awaited (\<lambda>k e. goes_to x e \<longrightarrow> True \<and> farewell k e) (wd_sv (snd (kick_session ho sid w)))"
      if "addr_key (sess_of w p) = Some x" for x
      using kick_queue [OF kicked(2,3,6,1) that] by simp
  qed
next
  case (left a w w')
  show ?case
  proof (rule forgottenI)
    show "untracked sid w'" using left disconnect_forgets by blast
    show "world_ok w'" using thins_ok [OF thins_disconnect [OF left(4,5,3)]] .
    show "awaited (\<lambda>k e. goes_to x e \<longrightarrow> False \<and> farewell k e) (wd_sv w')" if "addr_key (sess_of w p) = Some x" for x
      using disconnect_queue [OF left(4,5,8,1) that left(3)] by simp
  qed
next
  case (timed_out w w')
  show ?case
  proof (rule forgottenI)
    show "untracked sid w'" using timed_out expire_forgets by blast
    show "world_ok w'" using thins_ok [OF thins_expire [OF timed_out(3,4,2)]] .
    show "awaited (\<lambda>k e. goes_to x e \<longrightarrow> False \<and> farewell k e) (wd_sv w')" if "addr_key (sess_of w p) = Some x" for x
      using expire_queue [OF timed_out(3,7) that timed_out(2)] by simp
  qed
next
  case (evicted w)
  show ?case
  proof (rule forgottenI)
    show "untracked sid (cleanup_evicted_session ho p w)" using evicted evict_forgets by blast
    show "world_ok (cleanup_evicted_session ho p w)" by (rule thins_ok [OF thins_calm [OF evicted(4)]]) (intro calm_intros)
    show "awaited (\<lambda>k e. goes_to x e \<longrightarrow> False \<and> farewell k e) (wd_sv (cleanup_evicted_session ho p w))"
      if "addr_key (sess_of w p) = Some x" for x
      using evict_queue [OF evicted(3,7) that] by simp
  qed
qed

theorem departures_leave_nothing_witness:
  "forgotten True 1 (Some (addr_string demo_endpoint)) (snd (kick_session (demo_host 5) 1 demo_world))"
proof -
  have "get_by_id 1 (sv_sessions (wd_sv demo_world)) = Some 0"
    by (simp add: get_by_id_def demo_world_def demo_sessions)
  then have "departs (demo_host 5) 1 0 True demo_world (snd (kick_session (demo_host 5) 1 demo_world))"
    by (rule departs.kicked)
  moreover have "finite (dom (gm_invites (sv_groups (wd_sv demo_world))))" "finite (dom (ack_queue.entries (sv_acks (wd_sv demo_world))))"
    by (simp_all add: demo_world_def demo_server_def)
  moreover have "addr_key (sess_of demo_world 0) = Some (addr_string demo_endpoint)"
    by (simp add: addr_key_def sess_of_def demo_world_def demo_server_fields demo_heap_def demo_session_def demo_endpoint_def)
  ultimately show ?thesis using departures_leave_nothing demo_host_ok demo_world_ok by fastforce
qed

end
