(* ===== verification/SleeperReturn.thy ===== *)
theory SleeperReturn
  imports Departures
begin

text \<open>
  A player who leaves outside a safe zone and comes back while the sleeper lives: what the sleeper keeps is what the next
  handshake restores.
\<close>

lemma created_sleeper:
  assumes "p_id s \<noteq> 0" "flt (Fin 0) (p_health s)"
  shows "\<exists>m q g. leave_sleeper env True s w = Some (w\<lparr>wd_sleepers := m, wd_sv := (wd_sv w)\<lparr>sv_grid := g\<rparr>\<rparr>) \<and>
    (sleepers_ok (wd_sleepers w) \<longrightarrow> sleepers_ok m) \<and> slm_sleepers m (p_id s) = Some q \<and>
    slm_heap m q = sleeper_of (en_now env) (30 * second) (p_id s) s"
proof -
  let ?m = "put_sleeper (sleeper_of (en_now env) (30 * second) (p_id s) s)
    (drop_id (p_id s) (drop_account (p_account s) (wd_sleepers w)))"
  let ?q = "slm_fresh (drop_id (p_id s) (drop_account (p_account s) (wd_sleepers w)))"
  have c: "create_sleeper (en_now env) (30 * second) (Some s) (wd_sleepers w) = Some (Some ?q, ?m)"
    using assms(1) by (simp add: create_sleeper_def Let_def)
  have h: "slm_heap ?m ?q = sleeper_of (en_now env) (30 * second) (p_id s) s" "slm_sleepers ?m (p_id s) = Some ?q"
    by (simp_all add: put_sleeper_def sleeper_of_def)
  have "\<exists>g. leave_sleeper env True s w = Some (w\<lparr>wd_sleepers := ?m, wd_sv := (wd_sv w)\<lparr>sv_grid := g\<rparr>\<rparr>)"
    using assms(2) by (simp add: leave_sleeper_def c Let_def on_sv_def upd_grid_def del: put_sleeper_def) blast
  then show ?thesis using ok_create [OF _ c] h by blast
qed

text \<open>The sleeper of a session, asleep in a manager that is consistent.\<close>

definition dozing :: "player_session \<Rightarrow> gotime \<Rightarrow> sleeper_manager \<Rightarrow> bool" where
  "dozing s t m \<longleftrightarrow> sleepers_ok m \<and> (\<exists>q. slm_sleepers m (p_id s) = Some q \<and> slm_heap m q = sleeper_of t (30 * second) (p_id s) s)"

lemma dozing_tick:
  assumes "dozing s t m" "is_order (slm_sleepers m) ro" "now < t + 30 * second"
    and "sleeper_tick now ro m = (ds, es, m')"
  shows "dozing s t m'"
proof -
  obtain q where q: "sleepers_ok m" "slm_sleepers m (p_id s) = Some q" "slm_heap m q = sleeper_of t (30 * second) (p_id s) s"
    using assms(1) by (auto simp: dozing_def)
  have e: "slm_heap m' = slm_heap m" "slm_sleepers m' = left_after now ro m"
    using loop_exact [of ro now m ds es m'] assms(2,4) by (simp_all add: is_order_def sleeper_tick_def)
  have "\<not> sl_dead (slm_heap m q)" "\<not> sleeper_expired now (slm_heap m q)"
    using assms(3) by (simp_all add: q(3) sleeper_of_def sleeper_expired_def)
  then have "left_after now ro m (p_id s) = Some q" using q(2) by (simp add: left_after_def gone_def)
  moreover have "sleepers_ok m'" using ok_loop [OF q(1), of now ro] assms(4) by (simp add: sleeper_tick_def)
  ultimately show ?thesis using q(3) e by (auto simp: dozing_def)
qed

lemma dozing_ticks:
  assumes "dozing s t (wd_sleepers w)"
    and "\<forall>ho \<in> set hs. host_ok ho \<and> en_now (ho_env ho) < t + 30 * second"
  shows "dozing s t (wd_sleepers (fold tick_sleepers hs w))"
  using assms
proof (induction hs arbitrary: w)
  case Nil
  then show ?case by simp
next
  case (Cons ho hs)
  let ?m = "wd_sleepers w" and ?ro = "ho_order ho (dom (slm_sleepers (wd_sleepers w)))"
  obtain ds es m where r: "sleeper_tick (en_now (ho_env ho)) ?ro ?m = (ds, es, m)" by (metis prod_cases3)
  have o: "is_order (slm_sleepers ?m) ?ro" using Cons.prems(2) by (simp add: is_order_def host_ok_def)
  have m: "wd_sleepers (tick_sleepers ho w) = m" by (simp add: tick_sleepers_def Let_def r on_sv_def)
  have "dozing s t m" using dozing_tick [OF Cons.prems(1) o _ r] Cons.prems(2) by simp
  then show ?case using Cons.IH [of "tick_sleepers ho w"] Cons.prems(2) m by simp
qed

lemma dozing_reclaim:
  assumes "dozing s t (wd_sleepers w)" "p_account s \<noteq> ''''"
  shows "\<exists>w'. reclaim_sleeper (p_account s) (x, b) w =
      ((x\<lparr>p_pos := p_pos s, p_health := p_health s, p_level := p_level s, p_pending_create := False\<rparr>, False), w') \<and>
    get_sleeper_by_account (p_account s) (wd_sleepers w') = None \<and> off_grid (p_id s) w'"
proof -
  let ?m = "wd_sleepers w"
  obtain q where q: "sleepers_ok ?m" "slm_sleepers ?m (p_id s) = Some q" "slm_heap ?m q = sleeper_of t (30 * second) (p_id s) s"
    using assms(1) by (auto simp: dozing_def)
  have a: "slm_by_account ?m (p_account s) = Some q"
    using sleepers_okD(2) [OF q(1,2)] assms(2) q(3) by (simp add: sleeper_of_def)
  have "slm_by_account (snd (remove_sleeper (p_id s) ?m)) (p_account s) = None"
    using a assms(2) by (simp add: remove_sleeper_def q forget_sleeper_def sleeper_of_def Let_def)
  with a q(3) show ?thesis
    by (simp add: reclaim_sleeper_def get_sleeper_by_account_def sleeper_of_def Let_def off_grid_remove)
      (simp add: on_sv_def)
qed

text \<open>C9: Sleeping and coming back is a round trip. A player of an account who leaves alive leaves a sleeper, and if the
  same account is back within thirty seconds, after any sleeper ticks in between, the new session gets the position,
  health and level the old one had and needs no new character; the sleeper is gone from the tables and the grid.\<close>

theorem sleepers_bring_players_back:
  assumes "sleepers_ok (wd_sleepers w)" and "p_id s \<noteq> 0" "p_account s \<noteq> ''''" "flt (Fin 0) (p_health s)"
    and "\<forall>ho \<in> set hs. host_ok ho \<and> en_now (ho_env ho) < en_now env + 30 * second"
  shows "\<exists>w1 w2. leave_sleeper env True s w = Some w1 \<and>
    reclaim_sleeper (p_account s) (x, b) (fold tick_sleepers hs w1) =
      ((x\<lparr>p_pos := p_pos s, p_health := p_health s, p_level := p_level s, p_pending_create := False\<rparr>, False), w2) \<and>
    get_sleeper_by_account (p_account s) (wd_sleepers w2) = None \<and> \<not> grid_contains (p_id s) (sv_grid (wd_sv w2))"
proof -
  obtain m q g where l: "leave_sleeper env True s w = Some (w\<lparr>wd_sleepers := m, wd_sv := (wd_sv w)\<lparr>sv_grid := g\<rparr>\<rparr>)"
    and m: "sleepers_ok m" "slm_sleepers m (p_id s) = Some q" "slm_heap m q = sleeper_of (en_now env) (30 * second) (p_id s) s"
    using created_sleeper [OF assms(2,4)] assms(1) by blast
  let ?w1 = "w\<lparr>wd_sleepers := m, wd_sv := (wd_sv w)\<lparr>sv_grid := g\<rparr>\<rparr>"
  have d: "dozing s (en_now env) (wd_sleepers ?w1)" using m by (auto simp: dozing_def)
  from dozing_reclaim [OF dozing_ticks [OF d assms(5)] assms(3)] l show ?thesis by (auto simp: off_grid_def)
qed

theorem sleepers_bring_players_back_witness:
  "\<exists>w1 w2. leave_sleeper (demo_env 5) True (demo_heap 0) demo_world = Some w1 \<and>
    reclaim_sleeper (p_account (demo_heap 0)) (zero_session, True) (fold tick_sleepers [demo_host 6, demo_host 9] w1) =
      ((zero_session\<lparr>p_pos := p_pos (demo_heap 0), p_health := p_health (demo_heap 0), p_level := p_level (demo_heap 0),
        p_pending_create := False\<rparr>, False), w2) \<and>
    get_sleeper_by_account (p_account (demo_heap 0)) (wd_sleepers w2) = None \<and>
    \<not> grid_contains (p_id (demo_heap 0)) (sv_grid (wd_sv w2))"
proof -
  let ?s = "demo_heap 0" and ?hs = "[demo_host 6, demo_host 9]"
  have o: "sleepers_ok (wd_sleepers demo_world)" by (simp add: demo_world_def new_world_def Let_def split_def ok_new)
  have i: "p_id ?s \<noteq> 0" by (simp add: demo_heap_def demo_session_def)
  have a: "p_account ?s \<noteq> ''''" by (simp add: demo_heap_def demo_session_def)
  have h: "flt (Fin 0) (p_health ?s)" by (simp add: demo_heap_def demo_session_def)
  have n: "en_now (ho_env (demo_host n)) = n * second" for n by (simp add: demo_host_def demo_env_def second_def)
  have t: "\<forall>ho \<in> set ?hs. host_ok ho \<and> en_now (ho_env ho) < en_now (demo_env 5) + 30 * second"
    using demo_host_ok n by (simp add: demo_env_def second_def)
  show ?thesis by (rule sleepers_bring_players_back [OF o i a h t])
qed

end
