(* ===== verification/Spec2Isabelle.thy ===== *)
theory Spec2Isabelle
  imports AckQueue Economy PlayerGroups NoDupe ExactlyOnce TradePackets Emission Damage SafeZones Sleepers Squads OccluderBuild
    Admin Answers Listener PlayTime SleeperReturn
begin

text \<open>
  The Zone server, src/zone-server/internal: a UDP game server in Go. Clients send item, container,
  stash and trade actions; the server validates them against its sessions, applies them in SQLite
  transactions, answers reliably (an unacknowledged packet is resent) and tells the players near.

  \<^bold>\<open>Theories and sources.\<close>
  \<^item> Prelude, GoFloat, GoText, NetAddr: Go's integers, times and maps, IEEE floats, strings, UDP
    addresses (the language and its library; \<open>null_term_string\<close> is \<open>nullTermString\<close> of server.go).
  \<^item> AckQueue: network/ack_queue.go, the reliable packet queue.
  \<^item> Sessions: network/session.go, player sessions and their three indexes.
  \<^item> Wire, Packets: \<open>encoding/binary\<close> over structs, and the structs, writers and readers of
    protocol/packets.go and protocol/opcodes.go.
  \<^item> Tables: the SQLite tables of database/schema.go and transactions in which every statement may
    fail. Inventory: the inventory and world-item operations of database/db.go. StashManager:
    game/stash_manager.go and the stash operations of db.go. Economy: game/economy.go.
  \<^item> ItemLedger: the ActionID caches, floor and rate window of game/item_ledger.go.
  \<^item> PlayerGroups: the \<open>GroupManager\<close> of game/groups.go. SpatialGrid: game/spatial_grid.go.
    ServerConfig: config/config.go.
  \<^item> Emission: the phase machine of game/emission.go. Factions: database/faction_relations.go and
    game/faction_relations.go. SafeZones: game/safezone.go. Sleepers: game/sleeper_manager.go.
    Damage: game/damage.go.
  \<^item> Squads: the AI squads of ai/squad_manager.go, puppet.go and combat.go. Pathfinding: the A* search
    of ai/pathfinding.go over a priority queue. Occluders: the line of sight of internal/los (files and
    segment queries) and its gate, game/los_gate.go. OccluderBuild: \<open>Build\<close> of internal/los, from a mesh to
    occluders.
  \<^item> SessionPackets: the structs of the session packets. Aoi: game/aoi_manager.go. Characters: the
    accounts, characters and bans of database/db.go.
  \<^item> Server: the \<open>Server\<close> struct as the item handlers see it and \<open>SendToSession\<close>. ItemHandlers: the packet
    handlers of item_ledger.go, container_ledger.go and stash_trade_ledger.go over all of these.
  \<^item> Presence: what server.go tells clients about players, chat and groups. AiRegistry and AiTick:
    game/ai_replication.go, ai_combat.go and ai_seed.go.
  \<^item> World: the whole \<open>Server\<close> struct, the write queue, the damage audit and the ways a session is dropped.
    Handshake: game/auth.go and how a client gets in. Dispatch: \<open>HandlePacket\<close>, one definition per case.
    ServerTick: \<open>Tick\<close>, \<open>NewServer\<close>, \<open>Run\<close> and the period of tick.go.
  \<^item> NoDupe, TradePackets, ExactlyOnce: what the item handlers promise over packet sequences (copies never
    increase, wallets never go below zero, an action applies once while the ring remembers it).
  \<^item> IndexFrame, SessionLife: every handler's frame on the session index, and runs of the whole server.
    Departures: what is left of a session that ends. SleeperReturn: what comes back. PlayTime: the
    seconds credited. Answers: the handlers and the tick return.
  \<^item> RateLimit and Listener: network/udp_listener.go, the token buckets and the read loop with its eight
    workers, runs of which are the relation \<open>net_run\<close>. Admin: the administration commands of game/admin.go.

  \<^bold>\<open>How state corresponds.\<close> A Go struct is a record, a pointer to a session a key of a heap, a map a
  HOL map (ranging over one takes the visiting order), a mutex-protected method one step. A
  transaction is a function from tables and a list of statement faults to a result and tables;
  \<open>run_tx\<close> rolls back on an error. A handler is a function from server to server, an operation of the
  session lifecycle one from world to world (the world holds the server and the other managers); what
  the process is given (the clock, map orders, random draws, Unicode tables, case folding) is the
  record \<open>host\<close>, which may differ at every step.

  \<^bold>\<open>What the lemmas show.\<close> Per component, the exact effect of each operation and the invariant it
  keeps. The interfaces: \<open>tx_rel\<close> (a relation every statement keeps is kept by a transaction),
  \<open>quiet_rel\<close>, \<open>item_rel\<close> and \<open>trade_rel\<close> (kept by the transactions, it is kept by whole packet
  handlers), \<open>result_cache\<close> (a ring is the list of its last 256 results) and \<open>rolling_window\<close>
  (admission by a window bounds every interval). The first is interpreted five times, each time on
  the model's own operations. \<open>calm\<close> and \<open>wcalm\<close> are the frames of all handlers that leave the session index
  alone; with \<open>thins\<close> and \<open>admitted\<close> they give the invariant of every run (\<open>server_run\<close>) from \<open>NewServer\<close> on.

  \<^bold>\<open>Bounds and fuel.\<close> The name search of \<open>EnsureUniqueName\<close> recurses with a measure proved to
  decrease; the draw of a session token and the search for a sleeper's id may not end and answer
  \<open>None\<close> then; all other loops are structural. Integers wrap where the code can overflow.

  \<^bold>\<open>Not modelled.\<close> Sockets, goroutines and logging; the database driver and the migrations of old
  schemas; the opening and closing of the socket and the admin pipe; the offline converter of level
  geometry (tools/levelgeom); the client. Time is read once per handler. Concurrency is the order of the steps: each method holds its mutex throughout.
\<close>

end
